(* ===== verification/Wink_Prelude.thy ===== *)
theory Wink_Prelude
  imports Main "HOL-Library.Word"
begin

text \<open>
  The vocabulary the component theories share: the fixed-width integer types of the C code, the
  platform status codes of \<^verbatim>\<open>pal/include/wink_status.h\<close>, the little-endian byte encoding of
  32-bit and 64-bit words, the lemmas about index masks and ring buffers that every ring of
  the code base (OSAL ring buffer, fault trace, responder tables) uses, and the lemmas about
  first-free-slot searches in static tables.
\<close>

unbundle bit_operations_syntax

section \<open>Integer types\<close>

type_synonym u8 = "8 word"
type_synonym u16 = "16 word"
type_synonym u32 = "32 word"
type_synonym u64 = "64 word"
type_synonym i32 = "32 word"

named_theorems ring_simps \<open>reading and writing circular buffers\<close>
named_theorems slot_simps \<open>searching static tables\<close>

section \<open>Status codes\<close>

datatype wink_status_t =
    WINK_OK
  | WINK_ERR_INVALID_ARG
  | WINK_ERR_TIMEOUT
  | WINK_ERR_DISCONNECTED
  | WINK_ERR_OUT_OF_RANGE
  | WINK_ERR_IO
  | WINK_ERR_BUSY
  | WINK_ERR_UNSUPPORTED
  | WINK_ERR_CHECKSUM
  | WINK_ERR_PERMISSION
  | WINK_ERR_RESOURCE_EXHAUSTED
  | WINK_ERR_NOT_INITIALIZED
  | WINK_ERR_HARDWARE
  | WINK_ERR_NO_MEM
  | WINK_ERR_EMPTY
  | WINK_ERR_FULL
  | WINK_ERR_INVALID_STATE
  | WINK_ERR_LOCKED
  | WINK_ERR_NOT_FOUND
  | WINK_ERR_CANCELED
  | WINK_ERR_OVERCURRENT
  | WINK_ERR_OVERTEMPERATURE
  | WINK_ERR_ALREADY_INITIALIZED
  | WINK_ERR_WATCHDOG
  | WINK_ERR_OVERFLOW
  | WINK_ERR_CONFIG_CORRUPT_DEGRADED
  | WINK_ERR_FAILED_INIT
  | WINK_ERR_PANIC

primrec status_code :: "wink_status_t \<Rightarrow> int" where
  "status_code WINK_OK = 0"
| "status_code WINK_ERR_INVALID_ARG = -1"
| "status_code WINK_ERR_TIMEOUT = -2"
| "status_code WINK_ERR_DISCONNECTED = -3"
| "status_code WINK_ERR_OUT_OF_RANGE = -4"
| "status_code WINK_ERR_IO = -5"
| "status_code WINK_ERR_BUSY = -6"
| "status_code WINK_ERR_UNSUPPORTED = -7"
| "status_code WINK_ERR_CHECKSUM = -8"
| "status_code WINK_ERR_PERMISSION = -9"
| "status_code WINK_ERR_RESOURCE_EXHAUSTED = -10"
| "status_code WINK_ERR_NOT_INITIALIZED = -11"
| "status_code WINK_ERR_HARDWARE = -12"
| "status_code WINK_ERR_NO_MEM = -13"
| "status_code WINK_ERR_EMPTY = -14"
| "status_code WINK_ERR_FULL = -15"
| "status_code WINK_ERR_INVALID_STATE = -16"
| "status_code WINK_ERR_LOCKED = -17"
| "status_code WINK_ERR_NOT_FOUND = -18"
| "status_code WINK_ERR_CANCELED = -19"
| "status_code WINK_ERR_OVERCURRENT = -20"
| "status_code WINK_ERR_OVERTEMPERATURE = -21"
| "status_code WINK_ERR_ALREADY_INITIALIZED = -22"
| "status_code WINK_ERR_WATCHDOG = -30"
| "status_code WINK_ERR_OVERFLOW = -40"
| "status_code WINK_ERR_CONFIG_CORRUPT_DEGRADED = -50"
| "status_code WINK_ERR_FAILED_INIT = -51"
| "status_code WINK_ERR_PANIC = -99"

definition wink_status_is_error :: "wink_status_t \<Rightarrow> bool" where
  "wink_status_is_error s \<longleftrightarrow> status_code s < 0"

definition wink_status_is_success :: "wink_status_t \<Rightarrow> bool" where
  "wink_status_is_success s \<longleftrightarrow> s = WINK_OK"

lemma is_error_iff [simp]: "wink_status_is_error s \<longleftrightarrow> s \<noteq> WINK_OK"
  by (cases s) (simp_all add: wink_status_is_error_def)

lemma is_success_iff [simp]: "wink_status_is_success s \<longleftrightarrow> s = WINK_OK"
  by (simp add: wink_status_is_success_def)

lemma status_code_inj: "status_code s = status_code t \<Longrightarrow> s = t"
  by (cases s; cases t; simp)

text \<open>A call that returns a handle in a \<^verbatim>\<open>wink_status_t\<close>: a negative code or an index.\<close>

type_synonym 'a result = "wink_status_t + 'a"

section \<open>Words\<close>

lemma unat_mask_mod: "unat (x AND (2 ^ k - 1 :: 'a::len word)) = unat x mod 2 ^ k"
proof -
  have "x AND (2 ^ k - 1) = take_bit k x"
    by (simp only: take_bit_eq_mask mask_eq_exp_minus_1)
  then show ?thesis
    by (simp only: unsigned_take_bit_eq) (simp add: take_bit_eq_mod)
qed

lemma nat_and_pred_0_pow2:
  assumes "and n (n - 1 :: nat) = 0" "n \<noteq> 0"
  shows "\<exists>k. n = 2 ^ k"
  using assms
proof (induction n rule: less_induct)
  case (less n)
  show ?case
  proof (cases "even n")
    case True
    then obtain m where m: "n = 2 * m" by (elim evenE)
    with less.prems have "m \<noteq> 0" by simp
    have "and n (n - 1) = 2 * and m (m - 1)"
      using m \<open>m \<noteq> 0\<close> by (subst and_nat_rec) (auto simp: div_mult_self1_is_m
          intro!: arg_cong2 [where f = "and"])
    with less.prems have "and m (m - 1) = 0" by simp
    with less.IH [of m] m \<open>m \<noteq> 0\<close> obtain k where "m = 2 ^ k" by auto
    with m have "n = 2 ^ Suc k" by simp
    then show ?thesis by blast
  next
    case False
    then obtain m where m: "n = 2 * m + 1" by (elim oddE)
    have "and n (n - 1) = 2 * and m m"
      using m by (subst and_nat_rec) auto
    with less.prems have "m = 0" by simp
    with m have "n = 2 ^ 0" by simp
    then show ?thesis by blast
  qed
qed

lemma word_and_pred_0_pow2:
  fixes x :: "'a::len word"
  assumes "x AND (x - 1) = 0" "x \<noteq> 0"
  shows "\<exists>k < LENGTH('a). x = 2 ^ k \<and> unat x = 2 ^ k"
proof -
  have pos: "0 < unat x" using assms(2) by (simp add: unat_gt_0)
  have u: "unat (x - 1) = unat x - 1"
    using pos by (metis assms(2) unat_minus_one)
  have "and (unat x) (unat x - 1) = unat (x AND (x - 1))"
    by (simp only: u [symmetric] unsigned_and_eq)
  also have "\<dots> = 0" using assms(1) by simp
  finally obtain k where k: "unat x = 2 ^ k"
    using nat_and_pred_0_pow2 [of "unat x"] pos by auto
  have "(2::nat) ^ k < 2 ^ LENGTH('a)"
    using k unsigned_less [of x, where 'a = nat] by simp
  then have less: "k < LENGTH('a)" by (simp add: power_strict_increasing_iff)
  have "x = 2 ^ k" using arg_cong [OF k, of "of_nat :: nat \<Rightarrow> 'a word"] by simp
  with k less show ?thesis by blast
qed

lemma u32_unat_pow2: "k < 32 \<Longrightarrow> unat (2 ^ k :: u32) = 2 ^ k"
  using unat_of_nat [where 'a = 32, of "2 ^ k"] power_strict_increasing [of k 32 "2::nat"] by simp

lemma unat_ucast_u64: "unat (ucast (w :: u32) :: u64) = unat w"
proof -
  have "unat w < 2 ^ LENGTH(64)" using unsigned_less [of w, where 'a = nat] by simp
  then show ?thesis by (simp only: unsigned_ucast_eq take_bit_nat_eq_self)
qed

lemma pow2_dvd_u32: "k \<le> 32 \<Longrightarrow> (2::nat) ^ k dvd 4294967296"
  using le_imp_power_dvd [of k 32 "2::nat"] by simp

lemma unat_add_1_mod:
  fixes t :: u32
  assumes "n = 2 ^ k" "k \<le> 32"
  shows "unat (t + 1) mod n = Suc (unat t) mod n"
proof -
  have "n dvd 2 ^ LENGTH(32)" using assms by (simp add: pow2_dvd_u32)
  then show ?thesis
    by (simp only: unat_word_ariths mod_mod_cancel) simp
qed

lemma unat_add_of_nat_mod:
  fixes t :: u32
  assumes "n = 2 ^ k" "k \<le> 32"
  shows "unat (t + of_nat j) mod n = (unat t + j) mod n"
proof -
  have "n dvd 2 ^ LENGTH(32)" using assms by (simp add: pow2_dvd_u32)
  then show ?thesis
    by (simp only: unat_word_ariths unat_of_nat mod_mod_cancel) (metis mod_add_right_eq mod_mod_cancel)
qed

section \<open>Circular buffers\<close>

text \<open>The \<open>n\<close> elements a ring holds from index \<open>t\<close> on, oldest first.\<close>

definition ring_read :: "'a list \<Rightarrow> nat \<Rightarrow> nat \<Rightarrow> 'a list" where
  "ring_read buf t n = map (\<lambda>k. buf ! ((t + k) mod length buf)) [0..<n]"

lemma length_ring_read [simp]: "length (ring_read buf t n) = n"
  by (simp add: ring_read_def)

lemma ring_read_0 [simp]: "ring_read buf t 0 = []"
  by (simp add: ring_read_def)

lemma nth_ring_read [simp]:
  "k < n \<Longrightarrow> ring_read buf t n ! k = buf ! ((t + k) mod length buf)"
  by (simp add: ring_read_def)

lemma ring_read_mod: "t mod length buf = t' mod length buf \<Longrightarrow> ring_read buf t n = ring_read buf t' n"
  unfolding ring_read_def by (metis mod_add_left_eq)

lemma ring_read_Suc: "ring_read buf t (Suc n) = buf ! (t mod length buf) # ring_read buf (Suc t) n"
  by (rule nth_equalityI) (auto simp: nth_Cons split: nat.split)

lemma ring_read_append: "ring_read buf t (m + n) = ring_read buf t m @ ring_read buf (t + m) n"
  by (rule nth_equalityI) (auto simp: nth_append add.assoc)

lemma ring_index_inj:
  fixes l :: nat
  assumes "(t + j) mod l = (t + k) mod l" "j < l" "k < l"
  shows "j = k"
proof -
  have "int l dvd (int j - int k)"
    using assms(1) by (metis add_diff_cancel_left mod_eq_dvd_iff of_nat_add of_nat_mod)
  moreover have "\<bar>int j - int k\<bar> < int l" using assms(2,3) by linarith
  ultimately show ?thesis
    by (metis dvd_imp_le_int eq_iff_diff_eq_0 abs_of_nat of_nat_eq_iff not_le)
qed

lemma ring_read_upd [ring_simps]:
  assumes "k < n" "n \<le> length buf"
  shows "ring_read (buf[(t + k) mod length buf := x]) t n = (ring_read buf t n)[k := x]"
proof (rule nth_equalityI)
  fix j assume "j < length (ring_read (buf[(t + k) mod length buf := x]) t n)"
  then have j: "j < n" by simp
  have "(t + k) mod length buf = (t + j) mod length buf \<longleftrightarrow> k = j"
    using ring_index_inj [of t k "length buf" j] j assms by auto
  then show "ring_read (buf[(t + k) mod length buf := x]) t n ! j = (ring_read buf t n)[k := x] ! j"
    using j assms by (auto simp: nth_list_update mod_less_divisor)
       (metis length_greater_0_conv list.size(3) less_le_trans mod_less_divisor not_less0
         nth_list_update_eq)
qed simp

lemma ring_read_push [ring_simps]:
  assumes "n < length buf"
  shows "ring_read (buf[(t + n) mod length buf := x]) t (Suc n) = ring_read buf t n @ [x]"
proof -
  have "ring_read (buf[(t + n) mod length buf := x]) t (Suc n) = (ring_read buf t (Suc n))[n := x]"
    using assms by (intro ring_read_upd) auto
  also have "\<dots> = ring_read buf t n @ [x]"
    using ring_read_append [of buf t n 1] by (simp add: ring_read_Suc list_update_append)
  finally show ?thesis .
qed

section \<open>Bytes\<close>

text \<open>Little-endian bytes, the layout both simulation hosts and the Xtensa target use.\<close>

fun le_bytes :: "nat \<Rightarrow> 'a::len word \<Rightarrow> u8 list" where
  "le_bytes 0 w = []"
| "le_bytes (Suc n) w = ucast w # le_bytes n (drop_bit 8 w)"

fun of_le_bytes :: "u8 list \<Rightarrow> 'a::len word" where
  "of_le_bytes [] = 0"
| "of_le_bytes (b # bs) = ucast b OR push_bit 8 (of_le_bytes bs)"

lemma length_le_bytes [simp]: "length (le_bytes n w) = n"
  by (induction n arbitrary: w) auto

lemma of_le_bytes_le_bytes: "of_le_bytes (le_bytes n w) = (take_bit (8 * n) w :: 'a::len word)"
proof (induction n arbitrary: w)
  case (Suc n)
  show ?case
    by (rule bit_word_eqI)
       (auto simp: Suc bit_simps not_less le_less_Suc_eq)
qed simp

lemma le_bytes_inj:
  assumes "LENGTH('a) \<le> 8 * n" "le_bytes n (v :: 'a::len word) = le_bytes n w"
  shows "v = w"
proof -
  have "take_bit (8 * n) v = take_bit (8 * n) w"
    using assms(2) by (metis of_le_bytes_le_bytes)
  then show ?thesis using assms(1) by (simp add: take_bit_word_eq_self)
qed

section \<open>Static tables\<close>

text \<open>The first index of a table whose entry satisfies a test: the search loop every static
  pool of the code base opens with.\<close>

fun first_slot :: "('a \<Rightarrow> bool) \<Rightarrow> 'a list \<Rightarrow> nat option" where
  "first_slot P [] = None"
| "first_slot P (x # xs) = (if P x then Some 0 else map_option Suc (first_slot P xs))"

lemma first_slot_Some [slot_simps]:
  "first_slot P xs = Some i \<longleftrightarrow> i < length xs \<and> P (xs ! i) \<and> (\<forall>j < i. \<not> P (xs ! j))"
  by (induction xs arbitrary: i)
     (auto simp: nth_Cons less_Suc_eq_0_disj split: nat.splits)

lemma first_slot_None [slot_simps]: "first_slot P xs = None \<longleftrightarrow> (\<forall>x \<in> set xs. \<not> P x)"
  by (induction xs) auto

lemma first_slot_SomeD:
  assumes "first_slot P xs = Some i"
  shows "i < length xs" "P (xs ! i)" "j < i \<Longrightarrow> \<not> P (xs ! j)"
  using assms by (auto simp: first_slot_Some)

lemma first_slot_ex: "\<exists>x \<in> set xs. P x \<Longrightarrow> \<exists>i. first_slot P xs = Some i"
  using first_slot_None [of P xs] by (cases "first_slot P xs") auto

lemma length_filter_upd:
  assumes "i < length xs" "\<not> P (xs ! i)" "P x"
  shows "length (filter P (xs[i := x])) = Suc (length (filter P xs))"
  using assms by (induction xs arbitrary: i) (auto simp: nth_Cons split: nat.splits)

lemma length_filter_upd_off:
  assumes "i < length xs" "P (xs ! i)" "\<not> P x"
  shows "Suc (length (filter P (xs[i := x]))) = length (filter P xs)"
  using assms by (induction xs arbitrary: i) (auto simp: nth_Cons split: nat.splits)

lemma length_filter_upd_same:
  assumes "i < length xs" "P (xs ! i) = P x"
  shows "length (filter P (xs[i := x])) = length (filter P xs)"
  using assms by (induction xs arbitrary: i) (auto simp: nth_Cons split: nat.splits)

end
