(* ===== verification/Ringbuf.thy ===== *)
theory Ringbuf
  imports Wink_Prelude
begin

text \<open>
  The OSAL ring buffer of \<^verbatim>\<open>osal/common/pal_osal_ringbuf.c\<close>, shared by the wasm and host
  targets. A handle is \<open>None\<close> for \<^verbatim>\<open>NULL\<close>; \<^verbatim>\<open>head\<close> and \<^verbatim>\<open>tail\<close> are free-running 32-bit
  counters that wrap, masked with \<open>size - 1\<close> on every access. The results of \<^verbatim>\<open>malloc\<close> are
  parameters of \<open>pal_os_ringbuf_create\<close> (the block's initial bytes, or \<open>None\<close> on failure).

  The locale \<open>byte_fifo\<close> is the contract the event queue relies on; the theory ends with its
  interpretation on the ring buffer.
\<close>

section \<open>Data and operations\<close>

record pal_os_ringbuf =
  rb_buffer :: "u8 list"
  rb_size :: u32
  rb_head :: u32
  rb_tail :: u32

type_synonym pal_os_ringbuf_handle_t = "pal_os_ringbuf option"

definition pal_os_ringbuf_create ::
  "bool \<Rightarrow> (u32 \<Rightarrow> u8 list option) \<Rightarrow> u32 \<Rightarrow> pal_os_ringbuf_handle_t" where
  "pal_os_ringbuf_create struct_ok malloc sz =
    (if sz AND (sz - 1) \<noteq> 0 then None
     else if \<not> struct_ok then None
     else case malloc sz of
       None \<Rightarrow> None
     | Some block \<Rightarrow> Some \<lparr> rb_buffer = block, rb_size = sz, rb_head = 0, rb_tail = 0 \<rparr>)"

definition pal_os_ringbuf_used :: "pal_os_ringbuf_handle_t \<Rightarrow> u32" where
  "pal_os_ringbuf_used h = (case h of None \<Rightarrow> 0 | Some rb \<Rightarrow> rb_head rb - rb_tail rb)"

abbreviation rb_index :: "pal_os_ringbuf \<Rightarrow> u32 \<Rightarrow> nat" where
  "rb_index rb pos \<equiv> unat (pos AND (rb_size rb - 1))"

fun rb_push_loop :: "nat \<Rightarrow> nat \<Rightarrow> u8 list \<Rightarrow> pal_os_ringbuf \<Rightarrow> pal_os_ringbuf" where
  "rb_push_loop 0 i src rb = rb"
| "rb_push_loop (Suc n) i src rb =
     rb_push_loop n (Suc i) src
       (rb\<lparr> rb_buffer := (rb_buffer rb)[rb_index rb (rb_head rb) := src ! i],
            rb_head := rb_head rb + 1 \<rparr>)"

definition pal_os_ringbuf_push ::
  "pal_os_ringbuf_handle_t \<Rightarrow> u8 list option \<Rightarrow> u32 \<Rightarrow> wink_status_t \<times> pal_os_ringbuf_handle_t" where
  "pal_os_ringbuf_push h data sz =
    (case (h, data) of
       (Some rb, Some src) \<Rightarrow>
         if pal_os_ringbuf_used h + sz > rb_size rb then (WINK_ERR_FULL, h)
         else (WINK_OK, Some (rb_push_loop (unat sz) 0 src rb))
     | _ \<Rightarrow> (WINK_ERR_INVALID_ARG, h))"

fun rb_pop_loop :: "nat \<Rightarrow> nat \<Rightarrow> u8 list \<Rightarrow> pal_os_ringbuf \<Rightarrow> u8 list \<times> pal_os_ringbuf" where
  "rb_pop_loop 0 i dst rb = (dst, rb)"
| "rb_pop_loop (Suc n) i dst rb =
     rb_pop_loop n (Suc i) (dst[i := rb_buffer rb ! rb_index rb (rb_tail rb)])
       (rb\<lparr> rb_tail := rb_tail rb + 1 \<rparr>)"

definition pal_os_ringbuf_pop ::
  "pal_os_ringbuf_handle_t \<Rightarrow> u8 list option \<Rightarrow> u32
    \<Rightarrow> wink_status_t \<times> u8 list option \<times> pal_os_ringbuf_handle_t" where
  "pal_os_ringbuf_pop h data sz =
    (case (h, data) of
       (Some rb, Some dst) \<Rightarrow>
         if pal_os_ringbuf_used h < sz then (WINK_ERR_EMPTY, data, h)
         else (let (dst', rb') = rb_pop_loop (unat sz) 0 dst rb in (WINK_OK, Some dst', Some rb'))
     | _ \<Rightarrow> (WINK_ERR_INVALID_ARG, data, h))"

text \<open>The two inner loops of the coalescing search: the early-exit comparison and the
  in-place overwrite. \<open>n\<close> iterations are left, \<open>k\<close> is the loop variable.\<close>

fun rb_match :: "pal_os_ringbuf \<Rightarrow> u8 list \<Rightarrow> u32 \<Rightarrow> u32 \<Rightarrow> nat \<Rightarrow> nat \<Rightarrow> bool" where
  "rb_match rb ev item_tail off 0 k = True"
| "rb_match rb ev item_tail off (Suc n) k =
     (if rb_buffer rb ! rb_index rb (item_tail + off + of_nat k) \<noteq> ev ! unat (off + of_nat k)
      then False else rb_match rb ev item_tail off n (Suc k))"

fun rb_overwrite :: "pal_os_ringbuf \<Rightarrow> u8 list \<Rightarrow> u32 \<Rightarrow> nat \<Rightarrow> nat \<Rightarrow> pal_os_ringbuf" where
  "rb_overwrite rb ev item_tail 0 k = rb"
| "rb_overwrite rb ev item_tail (Suc n) k =
     rb_overwrite
       (rb\<lparr> rb_buffer := (rb_buffer rb)[rb_index rb (item_tail + of_nat k) := ev ! k] \<rparr>)
       ev item_tail n (Suc k)"

fun rb_coalesce_loop ::
  "nat \<Rightarrow> nat \<Rightarrow> pal_os_ringbuf \<Rightarrow> u8 list \<Rightarrow> u32 \<Rightarrow> u32 \<Rightarrow> u32 \<Rightarrow> bool \<times> pal_os_ringbuf" where
  "rb_coalesce_loop 0 idx rb ev esz off msz = (False, rb)"
| "rb_coalesce_loop (Suc n) idx rb ev esz off msz =
     (let item_tail = rb_tail rb + of_nat idx * esz in
      if rb_match rb ev item_tail off (unat msz) 0
      then (True, rb_overwrite rb ev item_tail (unat esz) 0)
      else rb_coalesce_loop n (Suc idx) rb ev esz off msz)"

definition pal_os_ringbuf_coalesce_event ::
  "pal_os_ringbuf_handle_t \<Rightarrow> u8 list option \<Rightarrow> u32 \<Rightarrow> u32 \<Rightarrow> u32 \<Rightarrow> bool \<times> pal_os_ringbuf_handle_t"
where
  "pal_os_ringbuf_coalesce_event h event_ptr esz off msz =
    (case (h, event_ptr) of
       (Some rb, Some ev) \<Rightarrow>
         if esz = 0 \<or> msz = 0 then (False, h)
         else if pal_os_ringbuf_used h < esz then (False, h)
         else (let (hit, rb') =
                 rb_coalesce_loop (unat (pal_os_ringbuf_used h div esz)) 0 rb ev esz off msz
               in (hit, Some rb'))
     | _ \<Rightarrow> (False, h))"

definition pal_os_ringbuf_destroy :: "pal_os_ringbuf_handle_t \<Rightarrow> pal_os_ringbuf_handle_t" where
  "pal_os_ringbuf_destroy h = None"

section \<open>Invariant and abstraction\<close>

definition rb_inv :: "pal_os_ringbuf \<Rightarrow> bool" where
  "rb_inv rb \<longleftrightarrow>
     rb_size rb AND (rb_size rb - 1) = 0 \<and> rb_size rb \<noteq> 0
     \<and> length (rb_buffer rb) = unat (rb_size rb)
     \<and> rb_head rb - rb_tail rb \<le> rb_size rb"

definition rb_bytes :: "pal_os_ringbuf \<Rightarrow> u8 list" where
  "rb_bytes rb = ring_read (rb_buffer rb) (unat (rb_tail rb)) (unat (rb_head rb - rb_tail rb))"

lemma length_rb_bytes [simp]: "length (rb_bytes rb) = unat (rb_head rb - rb_tail rb)"
  by (simp add: rb_bytes_def)

lemma rb_inv_pow2:
  assumes "rb_inv rb"
  obtains k where "k < 32" "rb_size rb = 2 ^ k" "length (rb_buffer rb) = 2 ^ k"
    "unat (rb_size rb) = 2 ^ k"
  using assms word_and_pred_0_pow2 [of "rb_size rb"] by (auto simp: rb_inv_def)

lemma rb_inv_used_le: "rb_inv rb \<Longrightarrow> unat (rb_head rb - rb_tail rb) \<le> length (rb_buffer rb)"
  by (simp add: rb_inv_def word_le_nat_alt)

lemma rb_index_mod:
  assumes "rb_inv rb"
  shows "rb_index rb pos = unat pos mod length (rb_buffer rb)"
  using assms by (elim rb_inv_pow2) (simp add: unat_mask_mod)

lemma rb_index_offset:
  assumes "rb_inv rb"
  shows "rb_index rb (pos + of_nat j) = (unat pos + j) mod length (rb_buffer rb)"
proof -
  from assms obtain k where k: "k < 32" "length (rb_buffer rb) = 2 ^ k" by (rule rb_inv_pow2)
  show ?thesis using k unat_add_of_nat_mod [of "2 ^ k" k pos j]
    by (simp only: rb_index_mod [OF assms])
qed

lemma rb_inv_buffer_upd [simp]:
  "rb_inv (rb\<lparr> rb_buffer := (rb_buffer rb)[i := x] \<rparr>) = rb_inv rb"
  by (simp add: rb_inv_def)

lemma rb_inv_push_step:
  fixes x :: u8
  assumes inv: "rb_inv rb" and room: "unat (rb_head rb - rb_tail rb) < length (rb_buffer rb)"
  defines "rb' \<equiv> rb\<lparr> rb_buffer := (rb_buffer rb)[rb_index rb (rb_head rb) := x],
                     rb_head := rb_head rb + 1 \<rparr>"
  shows "rb_inv rb'" and "rb_bytes rb' = rb_bytes rb @ [x]"
    and "unat (rb_head rb' - rb_tail rb') = Suc (unat (rb_head rb - rb_tail rb))"
proof -
  let ?u = "rb_head rb - rb_tail rb"
  from inv obtain k where k: "k < 32" "unat (rb_size rb) = 2 ^ k" "length (rb_buffer rb) = 2 ^ k"
    by (rule rb_inv_pow2)
  have "rb_head rb + 1 - rb_tail rb = ?u + 1" by simp
  moreover have "unat (?u + 1) = Suc (unat ?u)"
  proof -
    have "unat ?u + 1 < 2 ^ 32"
      using room k power_strict_increasing [of k 32 "2::nat"] by simp
    then show ?thesis by (simp add: unat_word_ariths)
  qed
  ultimately have u: "unat (rb_head rb + 1 - rb_tail rb) = Suc (unat ?u)" by (simp only:)
  then show "unat (rb_head rb' - rb_tail rb') = Suc (unat (rb_head rb - rb_tail rb))"
    by (simp add: rb'_def)
  show "rb_inv rb'"
    using inv u room by (simp add: rb'_def rb_inv_def word_le_nat_alt)
  have "rb_index rb (rb_head rb) = (unat (rb_tail rb) + unat ?u) mod length (rb_buffer rb)"
    using rb_index_offset [OF inv, of "rb_tail rb" "unat ?u"] by simp
  then show "rb_bytes rb' = rb_bytes rb @ [x]"
    using u room by (simp add: rb_bytes_def rb'_def ring_read_push)
qed

lemma rb_inv_pop_step:
  assumes inv: "rb_inv rb" and some: "0 < unat (rb_head rb - rb_tail rb)"
  defines "rb' \<equiv> rb\<lparr> rb_tail := rb_tail rb + 1 \<rparr>"
  shows "rb_inv rb'"
    and "rb_bytes rb = rb_buffer rb ! rb_index rb (rb_tail rb) # rb_bytes rb'"
    and "unat (rb_head rb - rb_tail rb) = Suc (unat (rb_head rb' - rb_tail rb'))"
proof -
  let ?u = "rb_head rb - rb_tail rb"
  from inv obtain k where k: "k < 32" "length (rb_buffer rb) = 2 ^ k" by (rule rb_inv_pow2)
  have "rb_head rb - (rb_tail rb + 1) = ?u - 1" by simp
  moreover have "unat (?u - 1) = unat ?u - 1"
    using some by (metis unat_eq_zero unat_minus_one less_numeral_extra(3))
  ultimately have u: "unat (rb_head rb - (rb_tail rb + 1)) = unat ?u - 1" by (simp only:)
  with some show s: "unat (rb_head rb - rb_tail rb) = Suc (unat (rb_head rb' - rb_tail rb'))"
    by (simp add: rb'_def)
  show "rb_inv rb'"
    using inv u by (simp add: rb'_def rb_inv_def word_le_nat_alt le_trans [OF diff_le_self])
  have "unat (rb_tail rb + 1) mod length (rb_buffer rb) = Suc (unat (rb_tail rb)) mod length (rb_buffer rb)"
    using k by (simp add: unat_add_1_mod)
  then have "ring_read (rb_buffer rb) (unat (rb_tail rb + 1)) n
      = ring_read (rb_buffer rb) (Suc (unat (rb_tail rb))) n" for n
    by (rule ring_read_mod)
  then show "rb_bytes rb = rb_buffer rb ! rb_index rb (rb_tail rb) # rb_bytes rb'"
    unfolding rb_bytes_def s ring_read_Suc by (simp add: rb'_def rb_index_mod [OF inv])
qed

section \<open>The loops\<close>

lemma rb_push_loop_refines:
  assumes "rb_inv rb" "unat (rb_head rb - rb_tail rb) + n \<le> length (rb_buffer rb)"
    "i + n \<le> length src"
  shows "rb_inv (rb_push_loop n i src rb)
    \<and> rb_bytes (rb_push_loop n i src rb) = rb_bytes rb @ take n (drop i src)
    \<and> rb_size (rb_push_loop n i src rb) = rb_size rb"
  using assms
proof (induction n arbitrary: i rb)
  case (Suc n)
  let ?rb = "rb\<lparr> rb_buffer := (rb_buffer rb)[rb_index rb (rb_head rb) := src ! i],
                 rb_head := rb_head rb + 1 \<rparr>"
  have room: "unat (rb_head rb - rb_tail rb) < length (rb_buffer rb)" using Suc.prems by simp
  note step = rb_inv_push_step [OF Suc.prems(1) room, of "src ! i"]
  have "unat (rb_head ?rb - rb_tail ?rb) + n \<le> length (rb_buffer ?rb)"
    using step(3) Suc.prems(2) by simp
  from Suc.IH [OF step(1) this, of "Suc i"] Suc.prems(3) step(2) show ?case
    by (simp add: take_Suc_conv_app_nth Cons_nth_drop_Suc [symmetric])
qed simp

lemma rb_pop_loop_refines:
  assumes "rb_inv rb" "n \<le> unat (rb_head rb - rb_tail rb)" "i + n \<le> length dst"
    "rb_pop_loop n i dst rb = (dst', rb')"
  shows "rb_inv rb' \<and> rb_bytes rb' = drop n (rb_bytes rb)
    \<and> dst' = take i dst @ take n (rb_bytes rb) @ drop (i + n) dst \<and> rb_size rb' = rb_size rb"
  using assms
proof (induction n arbitrary: i rb dst)
  case (Suc n)
  let ?rb = "rb\<lparr> rb_tail := rb_tail rb + 1 \<rparr>"
  let ?b = "rb_buffer rb ! rb_index rb (rb_tail rb)"
  have "0 < unat (rb_head rb - rb_tail rb)" using Suc.prems by simp
  note step = rb_inv_pop_step [OF Suc.prems(1) this]
  from Suc.prems(4) have call: "rb_pop_loop n (Suc i) (dst[i := ?b]) ?rb = (dst', rb')" by simp
  have *: "rb_inv rb' \<and> rb_bytes rb' = drop n (rb_bytes ?rb)
    \<and> dst' = take (Suc i) (dst[i := ?b]) @ take n (rb_bytes ?rb) @ drop (Suc i + n) (dst[i := ?b])
    \<and> rb_size rb' = rb_size ?rb"
    by (rule Suc.IH [OF step(1) _ _ call]) (use Suc.prems(2,3) step(3) in simp_all)
  have "take (Suc i) (dst[i := ?b]) = take i dst @ [?b]"
    using Suc.prems(3) by (simp add: take_Suc_conv_app_nth)
  with * step(2) show ?case by simp
qed simp

lemma rb_match_iff:
  assumes "rb_inv rb" "unat off + k + n < 2 ^ 32"
  shows "rb_match rb ev it off n k \<longleftrightarrow>
    (\<forall>j < n. rb_buffer rb ! ((unat it + (unat off + k + j)) mod length (rb_buffer rb))
       = ev ! (unat off + k + j))"
  using assms
proof (induction n arbitrary: k)
  case (Suc n)
  have "it + off + of_nat k = it + of_nat (unat off + k)" by simp
  then have pos: "rb_index rb (it + off + of_nat k)
      = (unat it + (unat off + k)) mod length (rb_buffer rb)"
    using rb_index_offset [OF Suc.prems(1)] by (simp only:)
  have ev: "unat (off + of_nat k) = unat off + k"
    using Suc.prems(2) by (simp add: unat_word_ariths unat_of_nat)
  show ?case
    using Suc.IH [of "Suc k"] Suc.prems
    by (simp only: rb_match.simps pos ev All_less_Suc2 if_bool_eq_conj) (auto simp: algebra_simps)
qed simp

lemma rb_overwrite_refines:
  assumes "rb_inv rb" "unat it mod length (rb_buffer rb) = (unat (rb_tail rb) + p) mod length (rb_buffer rb)"
    "p + k + n \<le> unat (rb_head rb - rb_tail rb)" "k + n \<le> length ev"
  shows "rb_inv (rb_overwrite rb ev it n k)
    \<and> rb_bytes (rb_overwrite rb ev it n k)
      = take (p + k) (rb_bytes rb) @ take n (drop k ev) @ drop (p + k + n) (rb_bytes rb)
    \<and> rb_size (rb_overwrite rb ev it n k) = rb_size rb"
  using assms
proof (induction n arbitrary: k rb)
  case (Suc n)
  let ?L = "length (rb_buffer rb)"
  let ?rb = "rb\<lparr> rb_buffer := (rb_buffer rb)[rb_index rb (it + of_nat k) := ev ! k] \<rparr>"
  have "rb_index rb (it + of_nat k) = (unat (rb_tail rb) + (p + k)) mod ?L"
    using rb_index_offset [OF Suc.prems(1)] Suc.prems(2) by (metis add.assoc mod_add_left_eq)
  then have b: "rb_bytes ?rb = (rb_bytes rb)[p + k := ev ! k]"
    using Suc.prems(3) rb_inv_used_le [OF Suc.prems(1)]
    by (simp add: rb_bytes_def ring_read_upd)
  have "rb_inv ?rb" using Suc.prems(1) by simp
  from Suc.IH [OF this, of "Suc k"] Suc.prems b show ?case
    by (simp add: take_Suc_conv_app_nth Cons_nth_drop_Suc [symmetric])
qed simp

section \<open>The operations\<close>

lemma ringbuf_used_length:
  "pal_os_ringbuf_used (Some rb) = of_nat (length (rb_bytes rb))"
  by (simp add: pal_os_ringbuf_used_def)

text \<open>C: creation succeeds exactly on powers of two (and on zero, the size the bit test admits).\<close>

lemma ringbuf_create_inv:
  assumes "pal_os_ringbuf_create struct_ok malloc sz = Some rb" "sz \<noteq> 0"
    "\<And>n b. malloc n = Some b \<Longrightarrow> length b = unat n"
  shows "rb_inv rb \<and> rb_bytes rb = [] \<and> rb_size rb = sz"
  using assms
  by (auto simp: pal_os_ringbuf_create_def rb_inv_def rb_bytes_def split: if_splits option.splits)

lemma ringbuf_push_accepts:
  assumes "rb_inv rb" "unat sz \<le> length src"
    "length (rb_bytes rb) + unat sz \<le> unat (rb_size rb)"
  shows "\<exists>rb'. pal_os_ringbuf_push (Some rb) (Some src) sz = (WINK_OK, Some rb') \<and> rb_inv rb'
    \<and> rb_bytes rb' = rb_bytes rb @ take (unat sz) src \<and> rb_size rb' = rb_size rb"
proof -
  have len: "unat (rb_size rb) = length (rb_buffer rb)" using assms(1) by (simp add: rb_inv_def)
  have "\<not> pal_os_ringbuf_used (Some rb) + sz > rb_size rb"
  proof -
    have "unat (rb_head rb - rb_tail rb) + unat sz < 2 ^ 32"
      using assms(3) unsigned_less [of "rb_size rb", where 'a = nat] by simp
    then have "unat (rb_head rb - rb_tail rb + sz) = unat (rb_head rb - rb_tail rb) + unat sz"
      by (simp only: unat_word_ariths) simp
    then show ?thesis using assms(3)
      by (simp only: pal_os_ringbuf_used_def option.case word_less_nat_alt length_rb_bytes not_less)
  qed
  then have "pal_os_ringbuf_push (Some rb) (Some src) sz
      = (WINK_OK, Some (rb_push_loop (unat sz) 0 src rb))"
    by (simp add: pal_os_ringbuf_push_def)
  moreover have "unat (rb_head rb - rb_tail rb) + unat sz \<le> length (rb_buffer rb)"
    using assms(3) len by simp
  from rb_push_loop_refines [OF assms(1) this, of 0 src] assms(2)
  have "rb_inv (rb_push_loop (unat sz) 0 src rb)
    \<and> rb_bytes (rb_push_loop (unat sz) 0 src rb) = rb_bytes rb @ take (unat sz) src
    \<and> rb_size (rb_push_loop (unat sz) 0 src rb) = rb_size rb" by simp
  ultimately show ?thesis by blast
qed

lemma ringbuf_push_full:
  assumes "rb_inv rb" "length (rb_bytes rb) + unat sz < 2 ^ 32"
    "unat (rb_size rb) < length (rb_bytes rb) + unat sz"
  shows "pal_os_ringbuf_push (Some rb) (Some src) sz = (WINK_ERR_FULL, Some rb)"
proof -
  have "unat (rb_head rb - rb_tail rb + sz) = unat (rb_head rb - rb_tail rb) + unat sz"
    using assms(2) by (simp only: unat_word_ariths length_rb_bytes) simp
  with assms(3) have "pal_os_ringbuf_used (Some rb) + sz > rb_size rb"
    by (simp only: pal_os_ringbuf_used_def option.case word_less_nat_alt length_rb_bytes)
  then show ?thesis by (simp add: pal_os_ringbuf_push_def)
qed

lemma ringbuf_pop_refines:
  assumes "rb_inv rb" "unat sz \<le> length dst"
  shows "if unat sz \<le> length (rb_bytes rb)
    then \<exists>rb'. pal_os_ringbuf_pop (Some rb) (Some dst) sz
        = (WINK_OK, Some (take (unat sz) (rb_bytes rb) @ drop (unat sz) dst), Some rb')
      \<and> rb_inv rb' \<and> rb_bytes rb' = drop (unat sz) (rb_bytes rb) \<and> rb_size rb' = rb_size rb
    else pal_os_ringbuf_pop (Some rb) (Some dst) sz = (WINK_ERR_EMPTY, Some dst, Some rb)"
proof (cases "unat sz \<le> length (rb_bytes rb)")
  case True
  then have ge: "\<not> pal_os_ringbuf_used (Some rb) < sz"
    by (simp add: pal_os_ringbuf_used_def word_less_nat_alt)
  obtain dst' rb' where l: "rb_pop_loop (unat sz) 0 dst rb = (dst', rb')" by fastforce
  have "unat sz \<le> unat (rb_head rb - rb_tail rb)" using True by simp
  from rb_pop_loop_refines [OF assms(1) this _ l] assms(2) ge l True show ?thesis
    by (simp add: pal_os_ringbuf_pop_def)
next
  case False
  then show ?thesis by (simp add: pal_os_ringbuf_pop_def pal_os_ringbuf_used_def word_less_nat_alt)
qed

subsection \<open>Coalescing\<close>

text \<open>The abstract search: the bytes are a sequence of records of \<open>es\<close> bytes; the first whose
  key (\<open>ms\<close> bytes from offset \<open>off\<close>) equals that of \<open>ev\<close> is replaced by \<open>ev\<close>.\<close>

definition record_key :: "nat \<Rightarrow> nat \<Rightarrow> 'a list \<Rightarrow> 'a list" where
  "record_key off ms r = take ms (drop off r)"

fun coalesce_bytes :: "nat \<Rightarrow> nat \<Rightarrow> nat \<Rightarrow> nat \<Rightarrow> nat \<Rightarrow> 'a list \<Rightarrow> 'a list \<Rightarrow> 'a list option" where
  "coalesce_bytes 0 idx es off ms ev bs = None"
| "coalesce_bytes (Suc n) idx es off ms ev bs =
    (if record_key off ms (drop (idx * es) bs) = record_key off ms ev
     then Some (take (idx * es) bs @ take es ev @ drop (Suc idx * es) bs)
     else coalesce_bytes n (Suc idx) es off ms ev bs)"

lemma take_drop_eq_iff:
  "a + n \<le> length xs \<Longrightarrow> b + n \<le> length ys \<Longrightarrow>
   take n (drop a xs) = take n (drop b ys) \<longleftrightarrow> (\<forall>j < n. xs ! (a + j) = ys ! (b + j))"
  by (auto simp: list_eq_iff_nth_eq)

lemma rb_coalesce_loop_refines:
  assumes inv: "rb_inv rb" and fit: "(idx + n) * unat esz \<le> length (rb_bytes rb)"
    and key: "unat off + unat msz \<le> unat esz" and ev: "unat esz \<le> length ev"
  shows "case coalesce_bytes n idx (unat esz) (unat off) (unat msz) ev (rb_bytes rb) of
      None \<Rightarrow> rb_coalesce_loop n idx rb ev esz off msz = (False, rb)
    | Some bs \<Rightarrow> \<exists>rb'. rb_coalesce_loop n idx rb ev esz off msz = (True, rb')
        \<and> rb_inv rb' \<and> rb_bytes rb' = bs \<and> rb_size rb' = rb_size rb"
  using fit
proof (induction n arbitrary: idx)
  case (Suc n)
  let ?it = "rb_tail rb + of_nat idx * esz"
  let ?p = "idx * unat esz"
  let ?L = "length (rb_buffer rb)"
  obtain k where k: "k < 32" "?L = 2 ^ k" using inv by (rule rb_inv_pow2)
  have it_eq: "?it = rb_tail rb + of_nat ?p" by simp
  have "unat (rb_tail rb + of_nat ?p) mod ?L = (unat (rb_tail rb) + ?p) mod ?L"
    by (rule unat_add_of_nat_mod [of _ k]) (use k in auto)
  then have it: "unat ?it mod ?L = (unat (rb_tail rb) + ?p) mod ?L" by (simp only: it_eq)
  have room: "?p + unat esz \<le> length (rb_bytes rb)" using Suc.prems by (simp add: algebra_simps)
  have match: "rb_match rb ev ?it off (unat msz) 0 \<longleftrightarrow>
      record_key (unat off) (unat msz) (drop ?p (rb_bytes rb)) = record_key (unat off) (unat msz) ev"
  proof -
    have "unat esz < 2 ^ 32" using unsigned_less [of esz, where 'a = nat] by simp
    with key have "unat off + 0 + unat msz < 2 ^ 32" by linarith
    from rb_match_iff [OF inv this]
    have "rb_match rb ev ?it off (unat msz) 0 \<longleftrightarrow>
      (\<forall>j < unat msz. rb_buffer rb ! ((unat ?it + (unat off + j)) mod ?L) = ev ! (unat off + j))"
      by (simp only: add_0_right)
    also have "\<dots> \<longleftrightarrow> (\<forall>j < unat msz. rb_bytes rb ! (?p + unat off + j) = ev ! (unat off + j))"
    proof -
      have "(unat ?it + (unat off + j)) mod ?L = (unat (rb_tail rb) + (?p + unat off + j)) mod ?L" for j
        using mod_add_cong [OF it refl, of "unat off + j"] by (simp only: add.assoc)
      moreover have "rb_bytes rb ! (?p + unat off + j)
          = rb_buffer rb ! ((unat (rb_tail rb) + (?p + unat off + j)) mod ?L)"
        if "j < unat msz" for j
        unfolding rb_bytes_def using room key that by (subst nth_ring_read) simp_all
      ultimately show ?thesis by (simp only:) metis
    qed
    also have "\<dots> \<longleftrightarrow> record_key (unat off) (unat msz) (drop ?p (rb_bytes rb))
        = record_key (unat off) (unat msz) ev"
    proof -
      have "?p + unat off + unat msz \<le> length (rb_bytes rb)" "unat off + unat msz \<le> length ev"
        using room key ev by linarith+
      from take_drop_eq_iff [OF this] show ?thesis
        by (simp only: record_key_def drop_drop add.commute [of "unat off" "?p"])
    qed
    finally show ?thesis .
  qed
  show ?case
  proof (cases "record_key (unat off) (unat msz) (drop ?p (rb_bytes rb)) = record_key (unat off) (unat msz) ev")
    case True
    have "?p + 0 + unat esz \<le> unat (rb_head rb - rb_tail rb)" using room by simp
    from rb_overwrite_refines [OF inv it this] ev True match show ?thesis
      by (auto simp: Let_def add.commute)
  next
    case False
    have "(Suc idx + n) * unat esz \<le> length (rb_bytes rb)" using Suc.prems by simp
    from Suc.IH [OF this] False match show ?thesis
      by (simp add: Let_def del: length_rb_bytes split: option.splits)
  qed
qed simp

lemma ringbuf_coalesce_refines:
  assumes "rb_inv rb" "esz \<noteq> 0" "msz \<noteq> 0" "unat off + unat msz \<le> unat esz" "unat esz \<le> length ev"
  shows "case coalesce_bytes (length (rb_bytes rb) div unat esz) 0 (unat esz) (unat off) (unat msz)
        ev (rb_bytes rb) of
      None \<Rightarrow> pal_os_ringbuf_coalesce_event (Some rb) (Some ev) esz off msz = (False, Some rb)
    | Some bs \<Rightarrow> \<exists>rb'. pal_os_ringbuf_coalesce_event (Some rb) (Some ev) esz off msz
          = (True, Some rb') \<and> rb_inv rb' \<and> rb_bytes rb' = bs \<and> rb_size rb' = rb_size rb"
proof -
  let ?n = "length (rb_bytes rb) div unat esz"
  let ?c = "coalesce_bytes ?n 0 (unat esz) (unat off) (unat msz) ev (rb_bytes rb)"
  have "(0 + ?n) * unat esz \<le> length (rb_bytes rb)"
    by (simp only: add_0 div_times_less_eq_dividend)
  note loop = rb_coalesce_loop_refines [OF assms(1) this assms(4,5)]
  show ?thesis
  proof (cases "pal_os_ringbuf_used (Some rb) < esz")
    case True
    then have "?n = 0" by (simp add: pal_os_ringbuf_used_def word_less_nat_alt)
    with True show ?thesis by (simp add: pal_os_ringbuf_coalesce_event_def)
  next
    case False
    have "unat (pal_os_ringbuf_used (Some rb) div esz) = ?n"
      by (simp add: pal_os_ringbuf_used_def unat_div)
    with False assms(2,3) have "pal_os_ringbuf_coalesce_event (Some rb) (Some ev) esz off msz
      = (let (hit, rb') = rb_coalesce_loop ?n 0 rb ev esz off msz in (hit, Some rb'))"
      by (simp only: pal_os_ringbuf_coalesce_event_def option.case prod.case simp_thms if_False)
    with loop show ?thesis by (cases ?c) auto
  qed
qed

section \<open>The contract of a byte queue, and fixed-size records in one\<close>

text \<open>What a client of the ring buffer relies on: a bounded queue of bytes behind a handle, with
  32-bit sizes. Each target provides its own implementation.\<close>

locale byte_fifo =
  fixes fifo_inv :: "'h \<Rightarrow> bool"
    and fifo_bytes :: "'h \<Rightarrow> u8 list"
    and fifo_cap :: "'h \<Rightarrow> nat"
    and used :: "'h \<Rightarrow> u32"
    and push :: "'h \<Rightarrow> u8 list option \<Rightarrow> u32 \<Rightarrow> wink_status_t \<times> 'h"
    and pop :: "'h \<Rightarrow> u8 list option \<Rightarrow> u32 \<Rightarrow> wink_status_t \<times> u8 list option \<times> 'h"
    and coalesce :: "'h \<Rightarrow> u8 list option \<Rightarrow> u32 \<Rightarrow> u32 \<Rightarrow> u32 \<Rightarrow> bool \<times> 'h"
  assumes used_bytes: "fifo_inv h \<Longrightarrow> used h = of_nat (length (fifo_bytes h))"
    and within_cap: "fifo_inv h \<Longrightarrow> length (fifo_bytes h) \<le> fifo_cap h \<and> fifo_cap h < 2 ^ 32"
    and push_accepts: "fifo_inv h \<Longrightarrow> unat n \<le> length src \<Longrightarrow>
      length (fifo_bytes h) + unat n \<le> fifo_cap h \<Longrightarrow>
      \<exists>h'. push h (Some src) n = (WINK_OK, h') \<and> fifo_inv h'
        \<and> fifo_bytes h' = fifo_bytes h @ take (unat n) src \<and> fifo_cap h' = fifo_cap h"
    and pop_accepts: "fifo_inv h \<Longrightarrow> unat n \<le> length dst \<Longrightarrow> unat n \<le> length (fifo_bytes h) \<Longrightarrow>
      \<exists>h'. pop h (Some dst) n
          = (WINK_OK, Some (take (unat n) (fifo_bytes h) @ drop (unat n) dst), h')
        \<and> fifo_inv h' \<and> fifo_bytes h' = drop (unat n) (fifo_bytes h) \<and> fifo_cap h' = fifo_cap h"
    and pop_empty: "fifo_inv h \<Longrightarrow> unat n \<le> length dst \<Longrightarrow> length (fifo_bytes h) < unat n \<Longrightarrow>
      pop h (Some dst) n = (WINK_ERR_EMPTY, Some dst, h)"
    and coalesce_miss: "fifo_inv h \<Longrightarrow> esz \<noteq> 0 \<Longrightarrow> msz \<noteq> 0 \<Longrightarrow>
      unat off + unat msz \<le> unat esz \<Longrightarrow> unat esz \<le> length ev \<Longrightarrow>
      coalesce_bytes (length (fifo_bytes h) div unat esz) 0 (unat esz) (unat off) (unat msz) ev
        (fifo_bytes h) = None \<Longrightarrow>
      coalesce h (Some ev) esz off msz = (False, h)"
    and coalesce_hit: "fifo_inv h \<Longrightarrow> esz \<noteq> 0 \<Longrightarrow> msz \<noteq> 0 \<Longrightarrow>
      unat off + unat msz \<le> unat esz \<Longrightarrow> unat esz \<le> length ev \<Longrightarrow>
      coalesce_bytes (length (fifo_bytes h) div unat esz) 0 (unat esz) (unat off) (unat msz) ev
        (fifo_bytes h) = Some bs \<Longrightarrow>
      \<exists>h'. coalesce h (Some ev) esz off msz = (True, h')
        \<and> fifo_inv h' \<and> fifo_bytes h' = bs \<and> fifo_cap h' = fifo_cap h"

fun replace_first :: "('a \<Rightarrow> bool) \<Rightarrow> 'a \<Rightarrow> 'a list \<Rightarrow> 'a list option" where
  "replace_first P y [] = None"
| "replace_first P y (x # xs) = (if P x then Some (y # xs) else map_option (Cons x) (replace_first P y xs))"

lemma replace_first_length: "replace_first P y xs = Some ys \<Longrightarrow> length ys = length xs"
  by (induction xs arbitrary: ys) (auto split: if_splits)

lemma replace_first_None_iff: "replace_first P y xs = None \<longleftrightarrow> (\<forall>x \<in> set xs. \<not> P x)"
  by (induction xs) auto

lemma length_concat_const: "(\<And>x. length (f x) = n) \<Longrightarrow> length (concat (map f xs)) = length xs * n"
  by (induction xs) auto

lemma take_drop_concat_const:
  assumes "\<And>x. length (f x) = n"
  shows "take (length xs * n) (concat (map f (xs @ ys))) = concat (map f xs)"
    and "drop (length xs * n) (concat (map f (xs @ ys))) = concat (map f ys)"
  using length_concat_const [of f n xs, OF assms] by simp_all

lemma coalesce_bytes_records:
  assumes len: "\<And>x. length (f x) = n" and key: "off + ms \<le> n"
  shows "coalesce_bytes (length ys) (length xs) n off ms (f e) (concat (map f (xs @ ys)))
    = map_option (\<lambda>zs. concat (map f (xs @ zs)))
        (replace_first (\<lambda>y. record_key off ms (f y) = record_key off ms (f e)) e ys)"
proof (induction ys arbitrary: xs)
  case (Cons y ys)
  have here: "record_key off ms (drop (length xs * n) (concat (map f (xs @ y # ys))))
      = record_key off ms (f y)"
    using take_drop_concat_const(2) [of f n xs "y # ys", OF len] len [of y] key
    by (simp add: record_key_def)
  have next_drop: "drop (Suc (length xs) * n) (concat (map f (xs @ y # ys))) = concat (map f ys)"
    using take_drop_concat_const(2) [of f n "xs @ [y]" ys, OF len] by simp
  from Cons [of "xs @ [y]"] show ?case
    unfolding list.size add_0_right add_Suc_right coalesce_bytes.simps here next_drop
    using take_drop_concat_const(1) [of f n xs "y # ys", OF len] len [of e]
    by (simp add: option.map_comp comp_def)
qed simp

locale record_fifo = byte_fifo +
  fixes enc :: "'e \<Rightarrow> u8 list" and esz off msz :: u32
  assumes enc_length: "length (enc e) = unat esz"
    and esz_pos: "esz \<noteq> 0" and msz_pos: "msz \<noteq> 0"
    and key_fits: "unat off + unat msz \<le> unat esz"
begin

definition holds where
  "holds h es \<longleftrightarrow> fifo_inv h \<and> fifo_bytes h = concat (map enc es)"

lemma holds_length: "holds h es \<Longrightarrow> length (fifo_bytes h) = length es * unat esz"
  by (simp add: holds_def length_concat_const enc_length)

lemma record_used: "holds h es \<Longrightarrow> used h = of_nat (length es) * esz"
  using holds_length used_bytes by (simp add: holds_def)

lemma record_push:
  assumes "holds h es" "Suc (length es) * unat esz \<le> fifo_cap h"
  shows "\<exists>h'. push h (Some (enc e)) esz = (WINK_OK, h') \<and> holds h' (es @ [e])
    \<and> fifo_cap h' = fifo_cap h"
  using push_accepts [of h esz "enc e"] assms holds_length [OF assms(1)] enc_length [of e]
  by (auto simp: holds_def add.commute)

lemma record_pop_empty:
  assumes "holds h []" "length dst = unat esz"
  shows "pop h (Some dst) esz = (WINK_ERR_EMPTY, Some dst, h)"
  using pop_empty [of h esz dst] assms esz_pos by (simp add: holds_def unat_gt_0)

lemma record_pop:
  assumes "holds h (e # es)" "length dst = unat esz"
  shows "\<exists>h'. pop h (Some dst) esz = (WINK_OK, Some (enc e), h') \<and> holds h' es
    \<and> fifo_cap h' = fifo_cap h"
  using pop_accepts [of h esz dst] assms enc_length [of e] holds_length [OF assms(1)]
  by (auto simp: holds_def)

abbreviation same_key where
  "same_key e e' \<equiv> record_key (unat off) (unat msz) (enc e') = record_key (unat off) (unat msz) (enc e)"

lemma record_coalesce_spec:
  assumes "holds h es"
  shows "coalesce_bytes (length (fifo_bytes h) div unat esz) 0 (unat esz) (unat off) (unat msz)
      (enc e) (fifo_bytes h)
    = map_option (\<lambda>zs. concat (map enc zs)) (replace_first (same_key e) e es)"
proof -
  have "length (fifo_bytes h) div unat esz = length es"
    using holds_length [OF assms] esz_pos by (simp add: unat_gt_0)
  with coalesce_bytes_records [of enc "unat esz" "unat off" "unat msz" es "[]" e,
      OF enc_length key_fits] assms
  show ?thesis by (simp add: holds_def)
qed

lemma record_coalesce_miss:
  assumes "holds h es" "replace_first (same_key e) e es = None"
  shows "coalesce h (Some (enc e)) esz off msz = (False, h)"
  using coalesce_miss [OF _ esz_pos msz_pos key_fits, of h "enc e"] record_coalesce_spec [OF assms(1)]
    assms enc_length [of e] by (simp add: holds_def)

lemma record_coalesce_hit:
  assumes "holds h es" "replace_first (same_key e) e es = Some es'"
  shows "\<exists>h'. coalesce h (Some (enc e)) esz off msz = (True, h') \<and> holds h' es'
    \<and> fifo_cap h' = fifo_cap h"
  using coalesce_hit [OF _ esz_pos msz_pos key_fits, of h "enc e"] record_coalesce_spec [OF assms(1)]
    assms enc_length [of e] by (simp add: holds_def)

end

section \<open>The ring buffer provides it\<close>

definition rbh_inv :: "pal_os_ringbuf_handle_t \<Rightarrow> bool" where
  "rbh_inv h = (case h of None \<Rightarrow> False | Some rb \<Rightarrow> rb_inv rb)"

definition rbh_bytes :: "pal_os_ringbuf_handle_t \<Rightarrow> u8 list" where
  "rbh_bytes h = (case h of None \<Rightarrow> [] | Some rb \<Rightarrow> rb_bytes rb)"

definition rbh_cap :: "pal_os_ringbuf_handle_t \<Rightarrow> nat" where
  "rbh_cap h = (case h of None \<Rightarrow> 0 | Some rb \<Rightarrow> unat (rb_size rb))"

lemmas rbh_defs = rbh_inv_def rbh_bytes_def rbh_cap_def

interpretation rbq: byte_fifo rbh_inv rbh_bytes rbh_cap pal_os_ringbuf_used pal_os_ringbuf_push
  pal_os_ringbuf_pop pal_os_ringbuf_coalesce_event
proof (unfold_locales, goal_cases)
  case (1 h) then show ?case by (cases h) (simp_all add: rbh_defs ringbuf_used_length)
next
  case (2 h) then show ?case
    using unsigned_less [where 'a = nat and w = "rb_size (the h)"]
    by (cases h) (auto simp: rbh_defs rb_inv_def word_le_nat_alt)
next
  case (3 h n src) then show ?case
    using ringbuf_push_accepts [of "the h" n src] by (cases h) (auto simp: rbh_defs)
next
  case (4 h n dst) then show ?case
    using ringbuf_pop_refines [of "the h" n dst] by (cases h) (auto simp: rbh_defs)
next
  case (5 h n dst) then show ?case
    using ringbuf_pop_refines [of "the h" n dst] by (cases h) (auto simp: rbh_defs)
next
  case (6 h esz msz off ev) then show ?case
    using ringbuf_coalesce_refines [of "the h" esz msz off ev] by (cases h) (auto simp: rbh_defs)
next
  case (7 h esz msz off ev bs) then show ?case
    using ringbuf_coalesce_refines [of "the h" esz msz off ev] by (cases h) (auto simp: rbh_defs)
qed

end
