(* ===== verification/Event_Queue.thy ===== *)
theory Event_Queue
  imports Ringbuf
begin

text \<open>
  The event mailbox of \<^verbatim>\<open>runtime/src/wink_event.c\<close>: a byte ring that stores copies of
  \<^verbatim>\<open>wink_event_t\<close>, a logical capacity, a semaphore that wakes the consumer, and in-place
  coalescing of distance events. The event has the 24-byte layout of the 32-bit targets (wasm32
  and Xtensa): \<^verbatim>\<open>type\<close>, \<^verbatim>\<open>device\<close>, \<^verbatim>\<open>param\<close>, four bytes of padding, \<^verbatim>\<open>timestamp\<close>.
  The semaphore belongs to the OSAL: the model records the calls made to it and takes what its
  blocking call returns, and what the other tasks did meanwhile, from an environment function.
\<close>

section \<open>Events and their bytes\<close>

datatype wink_event_type_t =
    WINK_EVENT_NONE
  | WINK_EVENT_BUTTON_PRESSED
  | WINK_EVENT_BUTTON_RELEASED
  | WINK_EVENT_BUTTON_LONG_PRESS
  | WINK_EVENT_DISTANCE_READY
  | WINK_EVENT_USER_START

primrec event_type_code :: "wink_event_type_t \<Rightarrow> u32" where
  "event_type_code WINK_EVENT_NONE = 0"
| "event_type_code WINK_EVENT_BUTTON_PRESSED = 1"
| "event_type_code WINK_EVENT_BUTTON_RELEASED = 2"
| "event_type_code WINK_EVENT_BUTTON_LONG_PRESS = 3"
| "event_type_code WINK_EVENT_DISTANCE_READY = 4"
| "event_type_code WINK_EVENT_USER_START = 1000"

record wink_event_t =
  ev_type :: u32
  ev_device :: u32
  ev_param :: u32
  ev_pad :: u32
  ev_timestamp :: u64

definition event_bytes :: "wink_event_t \<Rightarrow> u8 list" where
  "event_bytes e = le_bytes 4 (ev_type e) @ le_bytes 4 (ev_device e) @ le_bytes 4 (ev_param e)
     @ le_bytes 4 (ev_pad e) @ le_bytes 8 (ev_timestamp e)"

definition event_of_bytes :: "u8 list \<Rightarrow> wink_event_t" where
  "event_of_bytes bs =
    \<lparr> ev_type = of_le_bytes (take 4 bs), ev_device = of_le_bytes (take 4 (drop 4 bs)),
      ev_param = of_le_bytes (take 4 (drop 8 bs)), ev_pad = of_le_bytes (take 4 (drop 12 bs)),
      ev_timestamp = of_le_bytes (take 8 (drop 16 bs)) \<rparr>"

lemma length_event_bytes [simp]: "length (event_bytes e) = 24"
  by (simp add: event_bytes_def)

lemma event_roundtrip [simp]: "event_of_bytes (event_bytes e) = e"
  by (simp add: event_bytes_def event_of_bytes_def of_le_bytes_le_bytes take_bit_word_eq_self)

text \<open>The coalescing key is the first eight bytes: the type and the device.\<close>

lemma event_key_eq:
  "record_key 0 8 (event_bytes e) = record_key 0 8 (event_bytes e')
    \<longleftrightarrow> ev_type e = ev_type e' \<and> ev_device e = ev_device e'"
proof -
  have "record_key 0 8 (event_bytes x) = le_bytes 4 (ev_type x) @ le_bytes 4 (ev_device x)" for x
    by (simp add: record_key_def event_bytes_def)
  moreover have "le_bytes 4 v = le_bytes 4 w \<longleftrightarrow> v = w" for v w :: u32
    using le_bytes_inj [of 4 v w] by auto
  ultimately show ?thesis by simp
qed

section \<open>Rounding up to a power of two\<close>

definition round_up_pow2 :: "u32 \<Rightarrow> u32" where
  "round_up_pow2 v =
    (if v = 0 then 1
     else let v = v - 1;
              v = v OR drop_bit 1 v;
              v = v OR drop_bit 2 v;
              v = v OR drop_bit 4 v;
              v = v OR drop_bit 8 v;
              v = v OR drop_bit 16 v
          in v + 1)"

lemma smear_step:
  fixes v v' :: "'a::len word"
  assumes "\<And>j. bit v' j \<longleftrightarrow> (\<exists>i < m. bit v (j + i))"
  shows "bit (v' OR drop_bit m v') j \<longleftrightarrow> (\<exists>i < m + m. bit v (j + i))"
proof -
  have "(\<exists>i < m + m. bit v (j + i)) \<longleftrightarrow> (\<exists>i < m. bit v (j + i)) \<or> (\<exists>i < m. bit v (j + m + i))"
  proof
    assume "\<exists>i < m + m. bit v (j + i)"
    then obtain i where i: "i < m + m" "bit v (j + i)" by blast
    show "(\<exists>i < m. bit v (j + i)) \<or> (\<exists>i < m. bit v (j + m + i))"
    proof (cases "i < m")
      case False
      then have "i - m < m" "bit v (j + m + (i - m))" using i by simp_all
      then show ?thesis by blast
    qed (use i in blast)
  next
    assume "(\<exists>i < m. bit v (j + i)) \<or> (\<exists>i < m. bit v (j + m + i))"
    then show "\<exists>i < m + m. bit v (j + i)"
    proof
      assume "\<exists>i < m. bit v (j + i)"
      then obtain i where "i < m" "bit v (j + i)" by blast
      then show ?thesis by (intro exI [of _ i]) simp
    next
      assume "\<exists>i < m. bit v (j + m + i)"
      then obtain i where "i < m" "bit v (j + m + i)" by blast
      then show ?thesis by (intro exI [of _ "m + i"]) (simp add: add.assoc)
    qed
  qed
  then show ?thesis
    by (simp only: bit_or_iff bit_drop_bit_eq comp_apply assms) (simp add: add.commute)
qed

lemma top_bit:
  fixes v :: u32
  assumes "2 ^ k \<le> unat v" "unat v < 2 ^ Suc k" "k < 32"
  shows "bit v k" and "k < i \<Longrightarrow> \<not> bit v i"
proof -
  have "unat v div 2 ^ k = 1"
    using assms by (intro div_nat_eqI) auto
  then have "bit (unat v) k" by (simp add: bit_iff_odd)
  then show "bit v k" by (simp add: bit_unsigned_iff)
  assume "k < i"
  have "unat v < 2 ^ i"
    using assms(2) \<open>k < i\<close> by (meson Suc_leI le_less_trans not_less one_le_numeral power_increasing)
  then have "unat v div 2 ^ i = 0" by simp
  then have "\<not> bit (unat v) i" by (simp add: bit_iff_odd)
  then show "\<not> bit v i" by (simp add: bit_unsigned_iff)
qed

lemma round_up_pow2_spec:
  assumes "2 ^ k < unat v" "unat v \<le> 2 ^ Suc k" "k < 32"
  shows "round_up_pow2 v = 2 ^ Suc k"
proof -
  let ?v0 = "v - 1"
  define v1 where "v1 = ?v0 OR drop_bit 1 ?v0"
  define v2 where "v2 = v1 OR drop_bit 2 v1"
  define v3 where "v3 = v2 OR drop_bit 4 v2"
  define v4 where "v4 = v3 OR drop_bit 8 v3"
  define v5 where "v5 = v4 OR drop_bit 16 v4"
  have nz: "v \<noteq> 0" using assms(1) by auto
  then have u: "unat ?v0 = unat v - 1" by (simp add: unat_minus_one)
  have b0: "bit ?v0 j \<longleftrightarrow> (\<exists>i < 1. bit ?v0 (j + i))" for j by simp
  have b1: "bit v1 j \<longleftrightarrow> (\<exists>i < 2. bit ?v0 (j + i))" for j
    unfolding v1_def using smear_step [OF b0, of j] by (simp only: one_add_one)
  have b2: "bit v2 j \<longleftrightarrow> (\<exists>i < 4. bit ?v0 (j + i))" for j
    unfolding v2_def using smear_step [OF b1, of j] by simp
  have b3: "bit v3 j \<longleftrightarrow> (\<exists>i < 8. bit ?v0 (j + i))" for j
    unfolding v3_def using smear_step [OF b2, of j] by simp
  have b4: "bit v4 j \<longleftrightarrow> (\<exists>i < 16. bit ?v0 (j + i))" for j
    unfolding v4_def using smear_step [OF b3, of j] by simp
  have b5: "bit v5 j \<longleftrightarrow> (\<exists>i < 32. bit ?v0 (j + i))" for j
    unfolding v5_def using smear_step [OF b4, of j] by simp
  have "2 ^ k \<le> unat ?v0" "unat ?v0 < 2 ^ Suc k" using assms u by auto
  note top = top_bit [OF this assms(3)]
  have "v5 = mask (Suc k)"
  proof (rule bit_word_eqI)
    fix j assume j: "j < LENGTH(32)"
    have "(\<exists>i < 32. bit ?v0 (j + i)) \<longleftrightarrow> j \<le> k"
    proof
      assume "\<exists>i < 32. bit ?v0 (j + i)"
      then show "j \<le> k" using top(2) by (meson le_add1 le_less_trans not_le)
    next
      assume "j \<le> k"
      then have "k - j < 32" "bit ?v0 (j + (k - j))" using top(1) assms(3) by auto
      then show "\<exists>i < 32. bit ?v0 (j + i)" by blast
    qed
    then show "bit v5 j \<longleftrightarrow> bit (mask (Suc k) :: u32) j"
      using j by (simp add: b5 bit_mask_iff less_Suc_eq_le)
  qed
  then have "v5 + 1 = 2 ^ Suc k" by (simp add: mask_eq_exp_minus_1)
  then show ?thesis
    using nz by (simp add: round_up_pow2_def Let_def v1_def v2_def v3_def v4_def v5_def)
qed

lemma round_up_pow2_event_size:
  assumes "k \<le> 26"
  shows "round_up_pow2 (2 ^ k * 24) = 2 ^ (k + 5)" "unat (2 ^ k * 24 :: u32) = 2 ^ k * 24"
proof -
  have "(2::nat) ^ k \<le> 2 ^ 26" using assms by (rule power_increasing) simp
  then have lt: "(2::nat) ^ k * 24 < 2 ^ 32" by simp
  have "unat (of_nat (2 ^ k * 24) :: u32) = 2 ^ k * 24"
    using lt by (simp only: unat_of_nat) simp
  then show u: "unat (2 ^ k * 24 :: u32) = 2 ^ k * 24" by simp
  have "round_up_pow2 (2 ^ k * 24) = 2 ^ Suc (k + 4)"
    by (rule round_up_pow2_spec) (use assms in \<open>simp_all add: u power_add\<close>)
  then show "round_up_pow2 (2 ^ k * 24) = 2 ^ (k + 5)" by (simp add: add.commute)
qed

section \<open>The queue and its operations\<close>

record event_queue =
  eq_ringbuf :: pal_os_ringbuf_handle_t
  eq_sem :: "nat option"
  eq_capacity :: u32
  eq_initialized :: bool

datatype sem_call = Sem_give nat | Sem_give_isr nat

definition sizeof_event :: u32 where
  "sizeof_event = 24"

definition match_len :: u32 where
  "match_len = 8"

definition WAIT_FOREVER :: u32 where
  "WAIT_FOREVER = 0xFFFFFFFF"

definition wink_event_queue_init ::
  "bool \<Rightarrow> (u32 \<Rightarrow> u8 list option) \<Rightarrow> nat option \<Rightarrow> u32 \<Rightarrow> event_queue \<Rightarrow> wink_status_t \<times> event_queue"
where
  "wink_event_queue_init struct_ok malloc sem_create capacity q =
    (if eq_initialized q then (WINK_OK, q)
     else if capacity = 0 \<or> capacity AND (capacity - 1) \<noteq> 0 then (WINK_ERR_INVALID_ARG, q)
     else let ringbuf_size = round_up_pow2 (capacity * sizeof_event);
              q = q\<lparr> eq_ringbuf := pal_os_ringbuf_create struct_ok malloc ringbuf_size \<rparr>
          in if eq_ringbuf q = None then (WINK_ERR_NO_MEM, q)
             else let q = q\<lparr> eq_sem := sem_create \<rparr>
                  in if eq_sem q = None
                     then (WINK_ERR_NO_MEM, q\<lparr> eq_ringbuf := pal_os_ringbuf_destroy (eq_ringbuf q) \<rparr>)
                     else (WINK_OK, q\<lparr> eq_capacity := capacity, eq_initialized := True \<rparr>))"

definition wink_event_queue_deinit :: "event_queue \<Rightarrow> event_queue" where
  "wink_event_queue_deinit q =
    (if \<not> eq_initialized q then q
     else q\<lparr> eq_initialized := False,
             eq_ringbuf := (if eq_ringbuf q \<noteq> None then pal_os_ringbuf_destroy (eq_ringbuf q) else None),
             eq_sem := None, eq_capacity := 0 \<rparr>)"

definition wink_event_post ::
  "bool \<Rightarrow> wink_event_t option \<Rightarrow> event_queue \<Rightarrow> wink_status_t \<times> event_queue \<times> sem_call list" where
  "wink_event_post in_isr event q =
    (if \<not> eq_initialized q then (WINK_ERR_INVALID_STATE, q, [])
     else case event of None \<Rightarrow> (WINK_ERR_INVALID_ARG, q, [])
     | Some e \<Rightarrow>
       let (hit, rb) =
         (if ev_type e = event_type_code WINK_EVENT_DISTANCE_READY
          then pal_os_ringbuf_coalesce_event (eq_ringbuf q) (Some (event_bytes e)) sizeof_event 0 match_len
          else (False, eq_ringbuf q));
         q = q\<lparr> eq_ringbuf := rb \<rparr>
       in if hit then (WINK_OK, q, [])
          else if pal_os_ringbuf_used (eq_ringbuf q) \<ge> eq_capacity q * sizeof_event
          then (WINK_ERR_RESOURCE_EXHAUSTED, q, [])
          else let (st, rb) = pal_os_ringbuf_push (eq_ringbuf q) (Some (event_bytes e)) sizeof_event;
                   q = q\<lparr> eq_ringbuf := rb \<rparr>
               in if st = WINK_ERR_FULL then (WINK_ERR_RESOURCE_EXHAUSTED, q, [])
                  else if wink_status_is_error st then (st, q, [])
                  else (WINK_OK, q,
                        [if in_isr then Sem_give_isr (the (eq_sem q)) else Sem_give (the (eq_sem q))]))"

text \<open>One non-blocking attempt to pop into the caller's event.\<close>

definition event_pop :: "wink_event_t \<Rightarrow> event_queue \<Rightarrow> wink_status_t \<times> wink_event_t \<times> event_queue" where
  "event_pop out q =
    (let (st, dst, rb) = pal_os_ringbuf_pop (eq_ringbuf q) (Some (event_bytes out)) sizeof_event
     in (st, event_of_bytes (the dst), q\<lparr> eq_ringbuf := rb \<rparr>))"

text \<open>The environment of a blocked consumer: what the \<open>n\<close>-th wait on the semaphore returns for
  the wait time it is given, the queue as the producers left it, and the clock read afterwards.\<close>

type_synonym pend_env = "nat \<Rightarrow> u32 \<Rightarrow> event_queue \<Rightarrow> wink_status_t \<times> event_queue \<times> u64"

partial_function (option) pend_loop ::
  "pend_env \<Rightarrow> u64 \<Rightarrow> u32 \<Rightarrow> nat \<Rightarrow> u32 \<Rightarrow> wink_event_t \<Rightarrow> event_queue
    \<Rightarrow> (wink_status_t \<times> wink_event_t \<times> event_queue) option" where
  "pend_loop env start_ms timeout_ms n remaining_ms out q =
    (let (st, q, now) =
       env n (if timeout_ms = WAIT_FOREVER then WAIT_FOREVER else remaining_ms) q
     in if st = WINK_ERR_TIMEOUT then Some (WINK_ERR_TIMEOUT, out, q)
        else if wink_status_is_error st then Some (st, out, q)
        else let (st, out, q) = event_pop out q
             in if st = WINK_OK then Some (WINK_OK, out, q)
                else if timeout_ms = WAIT_FOREVER
                then pend_loop env start_ms timeout_ms (Suc n) remaining_ms out q
                else let elapsed_ms = now - start_ms
                     in if elapsed_ms \<ge> ucast timeout_ms then Some (WINK_ERR_TIMEOUT, out, q)
                        else let remaining_ms = timeout_ms - ucast elapsed_ms
                             in if remaining_ms = 0 then Some (WINK_ERR_TIMEOUT, out, q)
                                else pend_loop env start_ms timeout_ms (Suc n) remaining_ms out q)"

definition wink_event_pend ::
  "pend_env \<Rightarrow> u64 \<Rightarrow> wink_event_t option \<Rightarrow> u32 \<Rightarrow> event_queue
    \<Rightarrow> (wink_status_t \<times> wink_event_t option \<times> event_queue) option" where
  "wink_event_pend env now out_event timeout_ms q =
    (if \<not> eq_initialized q then Some (WINK_ERR_INVALID_STATE, out_event, q)
     else case out_event of None \<Rightarrow> Some (WINK_ERR_INVALID_ARG, None, q)
     | Some out \<Rightarrow>
       let (st, out, q) = event_pop out q
       in if st = WINK_OK then Some (WINK_OK, Some out, q)
          else if timeout_ms = 0 then Some (WINK_ERR_EMPTY, Some out, q)
          else map_option (\<lambda>(st, out, q). (st, Some out, q))
                 (pend_loop env now timeout_ms 0 timeout_ms out q))"

section \<open>The abstract mailbox\<close>

interpretation evq: record_fifo rbh_inv rbh_bytes rbh_cap pal_os_ringbuf_used pal_os_ringbuf_push
  pal_os_ringbuf_pop pal_os_ringbuf_coalesce_event event_bytes sizeof_event 0 match_len
  by unfold_locales (simp_all add: sizeof_event_def match_len_def)

text \<open>The queue holds the events \<open>es\<close>, oldest first.\<close>

definition eq_rep :: "event_queue \<Rightarrow> wink_event_t list \<Rightarrow> bool" where
  "eq_rep q es \<longleftrightarrow> eq_initialized q \<and> eq_sem q \<noteq> None \<and> evq.holds (eq_ringbuf q) es
    \<and> length es \<le> unat (eq_capacity q) \<and> unat (eq_capacity q) * 24 \<le> rbh_cap (eq_ringbuf q)"

definition same_source :: "wink_event_t \<Rightarrow> wink_event_t \<Rightarrow> bool" where
  "same_source e e' \<longleftrightarrow> ev_type e' = ev_type e \<and> ev_device e' = ev_device e"

definition mailbox_post ::
  "nat \<Rightarrow> wink_event_t \<Rightarrow> wink_event_t list \<Rightarrow> wink_status_t \<times> wink_event_t list \<times> bool" where
  "mailbox_post cap e es =
    (case (if ev_type e = event_type_code WINK_EVENT_DISTANCE_READY
           then replace_first (same_source e) e es else None) of
       Some es' \<Rightarrow> (WINK_OK, es', False)
     | None \<Rightarrow> if length es \<ge> cap then (WINK_ERR_RESOURCE_EXHAUSTED, es, False)
               else (WINK_OK, es @ [e], True))"

lemma same_key_source: "evq.same_key e = same_source e"
  by (simp add: fun_eq_iff same_source_def match_len_def event_key_eq)

lemmas event_coalesce = evq.record_coalesce_hit [unfolded same_key_source]
  evq.record_coalesce_miss [unfolded same_key_source]

lemma eq_rep_used:
  assumes "eq_rep q es"
  shows "pal_os_ringbuf_used (eq_ringbuf q) \<ge> eq_capacity q * sizeof_event
    \<longleftrightarrow> unat (eq_capacity q) \<le> length es"
proof -
  let ?h = "eq_ringbuf q"
  have h: "evq.holds ?h es" and inv: "rbh_inv ?h" and cap: "unat (eq_capacity q) * 24 \<le> rbh_cap ?h"
    and le: "length es \<le> unat (eq_capacity q)"
    using assms by (auto simp: eq_rep_def evq.holds_def)
  have lt: "unat (eq_capacity q) * 24 < 2 ^ 32" "length es * 24 < 2 ^ 32"
    using rbq.within_cap [OF inv] cap le by auto
  have c: "unat (eq_capacity q * sizeof_event) = unat (eq_capacity q) * 24"
    using lt(1) by (simp add: sizeof_event_def unat_word_ariths)
  have "pal_os_ringbuf_used ?h = of_nat (length es * 24)"
    using evq.record_used [OF h] by (simp add: sizeof_event_def)
  then have u: "unat (pal_os_ringbuf_used ?h) = length es * 24"
    using lt(2) by (simp only: unat_of_nat) simp
  show ?thesis by (simp add: word_le_nat_alt u c)
qed

lemma eq_rep_upd:
  assumes "eq_rep q es" "evq.holds h es'" "rbh_cap h = rbh_cap (eq_ringbuf q)"
    "length es' \<le> unat (eq_capacity q)"
  shows "eq_rep (q\<lparr> eq_ringbuf := h \<rparr>) es'"
  using assms by (simp add: eq_rep_def)

lemma event_post_coalesce:
  assumes rep: "eq_rep q es" and ty: "ev_type e = event_type_code WINK_EVENT_DISTANCE_READY"
    and hit: "replace_first (same_source e) e es = Some es'"
  shows "\<exists>q'. wink_event_post isr (Some e) q = (WINK_OK, q', []) \<and> eq_rep q' es'
    \<and> eq_capacity q' = eq_capacity q \<and> eq_sem q' = eq_sem q"
proof -
  have "evq.holds (eq_ringbuf q) es" using rep by (simp add: eq_rep_def)
  from event_coalesce(1) [OF this hit] obtain h where h:
    "pal_os_ringbuf_coalesce_event (eq_ringbuf q) (Some (event_bytes e)) sizeof_event 0 match_len = (True, h)"
    "evq.holds h es'" "rbh_cap h = rbh_cap (eq_ringbuf q)" by blast
  have "length es' \<le> unat (eq_capacity q)"
    using replace_first_length [OF hit] rep by (simp add: eq_rep_def)
  with eq_rep_upd [OF rep h(2,3)] h(1) ty rep show ?thesis
    by (simp add: wink_event_post_def eq_rep_def)
qed

lemma event_post_append:
  assumes rep: "eq_rep q es"
    and miss: "ev_type e = event_type_code WINK_EVENT_DISTANCE_READY \<longrightarrow>
      replace_first (same_source e) e es = None"
    and room: "length es < unat (eq_capacity q)"
  shows "\<exists>q'. wink_event_post isr (Some e) q
      = (WINK_OK, q', [if isr then Sem_give_isr (the (eq_sem q)) else Sem_give (the (eq_sem q))])
    \<and> eq_rep q' (es @ [e]) \<and> eq_capacity q' = eq_capacity q \<and> eq_sem q' = eq_sem q"
proof -
  let ?h = "eq_ringbuf q"
  have h: "evq.holds ?h es" using rep by (simp add: eq_rep_def)
  have co: "(if ev_type e = event_type_code WINK_EVENT_DISTANCE_READY
      then pal_os_ringbuf_coalesce_event ?h (Some (event_bytes e)) sizeof_event 0 match_len
      else (False, ?h)) = (False, ?h)"
    using event_coalesce(2) [OF h] miss by simp
  have "Suc (length es) * unat sizeof_event \<le> rbh_cap ?h"
  proof -
    have "Suc (length es) * 24 \<le> unat (eq_capacity q) * 24" using room by simp
    also have "\<dots> \<le> rbh_cap ?h" using rep by (simp add: eq_rep_def)
    finally show ?thesis by (simp add: sizeof_event_def)
  qed
  from evq.record_push [OF h this, of e] obtain h' where h':
    "pal_os_ringbuf_push ?h (Some (event_bytes e)) sizeof_event = (WINK_OK, h')"
    "evq.holds h' (es @ [e])" "rbh_cap h' = rbh_cap ?h" by blast
  have "\<not> pal_os_ringbuf_used ?h \<ge> eq_capacity q * sizeof_event"
    using eq_rep_used [OF rep] room by simp
  with eq_rep_upd [OF rep h'(2,3)] h'(1) co rep room show ?thesis
    by (simp add: wink_event_post_def eq_rep_def Let_def)
qed

lemma event_post_exhausted:
  assumes rep: "eq_rep q es"
    and miss: "ev_type e = event_type_code WINK_EVENT_DISTANCE_READY \<longrightarrow>
      replace_first (same_source e) e es = None"
    and full: "unat (eq_capacity q) \<le> length es"
  shows "wink_event_post isr (Some e) q = (WINK_ERR_RESOURCE_EXHAUSTED, q, [])"
proof -
  let ?h = "eq_ringbuf q"
  have h: "evq.holds ?h es" using rep by (simp add: eq_rep_def)
  have co: "(if ev_type e = event_type_code WINK_EVENT_DISTANCE_READY
      then pal_os_ringbuf_coalesce_event ?h (Some (event_bytes e)) sizeof_event 0 match_len
      else (False, ?h)) = (False, ?h)"
    using event_coalesce(2) [OF h] miss by simp
  have "pal_os_ringbuf_used ?h \<ge> eq_capacity q * sizeof_event"
    using eq_rep_used [OF rep] full by simp
  with co rep show ?thesis by (simp add: wink_event_post_def eq_rep_def Let_def)
qed

section \<open>What the mailbox promises\<close>

lemma event_post_refines_lemma:
  assumes "eq_rep q es"
  shows "\<exists>q'. case mailbox_post (unat (eq_capacity q)) e es of (st, es', woken) \<Rightarrow>
    wink_event_post isr (Some e) q
      = (st, q', if woken then [if isr then Sem_give_isr (the (eq_sem q))
                                else Sem_give (the (eq_sem q))] else [])
    \<and> eq_rep q' es' \<and> eq_capacity q' = eq_capacity q"
proof (cases "ev_type e = event_type_code WINK_EVENT_DISTANCE_READY
    \<and> replace_first (same_source e) e es \<noteq> None")
  case True
  then obtain es' where "replace_first (same_source e) e es = Some es'" by auto
  with True event_post_coalesce [OF assms, of e es' isr] show ?thesis
    by (auto simp: mailbox_post_def)
next
  case False
  then have miss: "ev_type e = event_type_code WINK_EVENT_DISTANCE_READY \<longrightarrow>
      replace_first (same_source e) e es = None" by blast
  show ?thesis
  proof (cases "length es < unat (eq_capacity q)")
    case True
    with event_post_append [OF assms miss, of isr] miss show ?thesis
      by (auto simp: mailbox_post_def)
  next
    case False
    then have "unat (eq_capacity q) \<le> length es" by simp
    with event_post_exhausted [OF assms miss] miss assms show ?thesis
      by (auto simp: mailbox_post_def)
  qed
qed

text \<open>C3: posting refines the abstract mailbox on every branch: a distance event replaces the
  queued event of the same device in place without waking the consumer, any other event is
  appended and the semaphore given once (by the interrupt-safe call inside an interrupt), and a
  full mailbox refuses the event and is unchanged.\<close>
theorem event_post_refines:
  assumes "eq_rep q es"
  shows "\<exists>q'. case mailbox_post (unat (eq_capacity q)) e es of (st, es', woken) \<Rightarrow>
    wink_event_post isr (Some e) q
      = (st, q', if woken then [if isr then Sem_give_isr (the (eq_sem q))
                                else Sem_give (the (eq_sem q))] else [])
    \<and> eq_rep q' es' \<and> eq_capacity q' = eq_capacity q"
  using assms by (rule event_post_refines_lemma)

definition demo_queue :: event_queue where
  "demo_queue = \<lparr> eq_ringbuf = Some \<lparr> rb_buffer = replicate 32 0, rb_size = 32,
      rb_head = 0xFFFFFFF0, rb_tail = 0xFFFFFFF0 \<rparr>,
    eq_sem = Some 0, eq_capacity = 1, eq_initialized = True \<rparr>"

lemma demo_queue_rep: "eq_rep demo_queue []"
  by (simp add: demo_queue_def eq_rep_def evq.holds_def rbh_defs rb_inv_def rb_bytes_def)

lemma event_post_refines_witness:
  "\<exists>q'. wink_event_post False (Some \<lparr> ev_type = 1, ev_device = 7, ev_param = 0, ev_pad = 0,
      ev_timestamp = 5 \<rparr>) demo_queue = (WINK_OK, q', [Sem_give 0])
    \<and> eq_rep q' [\<lparr> ev_type = 1, ev_device = 7, ev_param = 0, ev_pad = 0, ev_timestamp = 5 \<rparr>]"
  using event_post_refines [OF demo_queue_rep, of False "\<lparr> ev_type = 1, ev_device = 7,
      ev_param = 0, ev_pad = 0, ev_timestamp = 5 \<rparr>"]
  by (auto simp: mailbox_post_def demo_queue_def)

lemma event_queue_init_lemma:
  assumes "\<not> eq_initialized q" "k \<le> 26"
    and "\<And>n. \<exists>b. malloc n = Some b \<and> length b = unat n"
  shows "\<exists>q'. wink_event_queue_init True malloc (Some s) (2 ^ k) q = (WINK_OK, q')
    \<and> eq_rep q' [] \<and> eq_capacity q' = 2 ^ k \<and> rbh_cap (eq_ringbuf q') = 32 * 2 ^ k"
proof -
  have k: "k < 32" using assms(2) by simp
  have cap: "unat (2 ^ k :: u32) = 2 ^ k" by (rule u32_unat_pow2) (use k in simp)
  have pow: "(2 ^ k :: u32) \<noteq> 0" "(2 ^ k :: u32) AND (2 ^ k - 1) = 0"
    using unat_mask_mod [of "2 ^ k :: u32" k] cap by (simp_all add: word_unat_eq_iff)
  have rb: "round_up_pow2 (2 ^ k * sizeof_event) = 2 ^ (k + 5)"
    using round_up_pow2_event_size(1) [OF assms(2)] by (simp add: sizeof_event_def)
  have k5: "k + 5 < 32" using assms(2) by simp
  have cap5: "unat (2 ^ (k + 5) :: u32) = 2 ^ (k + 5)"
    by (rule u32_unat_pow2) (use k5 in simp)
  then have nz5: "(2 ^ (k + 5) :: u32) \<noteq> 0" by (metis power_eq_0_iff unat_eq_zero zero_neq_numeral)
  have pow5: "(2 ^ (k + 5) :: u32) AND (2 ^ (k + 5) - 1) = 0"
    using unat_mask_mod [of "2 ^ (k + 5) :: u32" "k + 5"] cap5 by (simp add: word_unat_eq_iff)
  obtain b where b: "malloc (2 ^ (k + 5)) = Some b" "length b = 2 ^ (k + 5)"
    using assms(3) [of "2 ^ (k + 5)"] cap5 by auto
  let ?rb = "\<lparr> rb_buffer = b, rb_size = 2 ^ (k + 5), rb_head = 0, rb_tail = 0 \<rparr>"
  have "pal_os_ringbuf_create True malloc (2 ^ (k + 5)) = Some ?rb"
    using pow5 b by (simp add: pal_os_ringbuf_create_def)
  moreover have "rb_inv ?rb"
    using pow5 nz5 b cap5 by (simp add: rb_inv_def)
  moreover have "evq.holds (Some ?rb) []"
    using \<open>rb_inv ?rb\<close> by (simp add: evq.holds_def rbh_defs rb_bytes_def)
  ultimately show ?thesis
    using assms(1) pow rb cap cap5
    by (simp add: wink_event_queue_init_def eq_rep_def rbh_defs Let_def power_add)
qed

text \<open>Initialising with a capacity that is a power of two up to \<open>2 ^ 26\<close>, when both
  allocations succeed, gives an empty mailbox of that capacity; the byte ring rounds
  24 bytes per event up to the next power of two.\<close>
theorem event_queue_init_empty:
  assumes "\<not> eq_initialized q" "k \<le> 26"
    and "\<And>n. \<exists>b. malloc n = Some b \<and> length b = unat n"
  shows "\<exists>q'. wink_event_queue_init True malloc (Some s) (2 ^ k) q = (WINK_OK, q')
    \<and> eq_rep q' [] \<and> eq_capacity q' = 2 ^ k \<and> rbh_cap (eq_ringbuf q') = 32 * 2 ^ k"
  using event_queue_init_lemma [OF assms] .

lemma event_queue_init_empty_witness:
  "\<exists>q'. wink_event_queue_init True (\<lambda>n. Some (replicate (unat n) 0)) (Some 3) 32
      \<lparr> eq_ringbuf = None, eq_sem = None, eq_capacity = 0, eq_initialized = False \<rparr> = (WINK_OK, q')
    \<and> eq_rep q' [] \<and> rbh_cap (eq_ringbuf q') = 1024"
  using event_queue_init_empty [of "\<lparr> eq_ringbuf = None, eq_sem = None, eq_capacity = 0,
      eq_initialized = False \<rparr>" 5 "\<lambda>n. Some (replicate (unat n) 0)" 3]
  by auto

lemma event_pop_rep:
  assumes "eq_rep q es"
  shows "case es of
      [] \<Rightarrow> event_pop out q = (WINK_ERR_EMPTY, out, q)
    | e # es' \<Rightarrow> \<exists>q'. event_pop out q = (WINK_OK, e, q') \<and> eq_rep q' es' \<and> eq_capacity q' = eq_capacity q"
proof -
  have h: "evq.holds (eq_ringbuf q) es" using assms by (simp add: eq_rep_def)
  have len: "length (event_bytes out) = unat sizeof_event" by (simp add: sizeof_event_def)
  show ?thesis
  proof (cases es)
    case Nil
    with evq.record_pop_empty [of "eq_ringbuf q", OF _ len] h show ?thesis
      by (simp add: event_pop_def)
  next
    case (Cons e es')
    with evq.record_pop [of "eq_ringbuf q" e es', OF _ len] h obtain h' where h':
      "pal_os_ringbuf_pop (eq_ringbuf q) (Some (event_bytes out)) sizeof_event
        = (WINK_OK, Some (event_bytes e), h')"
      "evq.holds h' es'" "rbh_cap h' = rbh_cap (eq_ringbuf q)" by blast
    have "length es' \<le> unat (eq_capacity q)" using assms Cons by (simp add: eq_rep_def)
    from eq_rep_upd [OF assms h'(2,3) this] h'(1) Cons show ?thesis by (simp add: event_pop_def)
  qed
qed

text \<open>An environment whose producers only use the mailbox's operations, and whose clock has
  moved on by at least one millisecond per wake-up.\<close>

definition fair_env :: "pend_env \<Rightarrow> u64 \<Rightarrow> bool" where
  "fair_env env start \<longleftrightarrow> (\<forall>n w q es. eq_rep q es \<longrightarrow>
     (\<exists>es'. eq_rep (fst (snd (env n w q))) es')
     \<and> (n < 2 ^ 32 \<longrightarrow> Suc n \<le> unat (snd (snd (env n w q)) - start)))"

lemma pend_loop_returns:
  assumes env: "fair_env env start" and t: "timeout \<noteq> WAIT_FOREVER"
    and rep: "eq_rep q es" and n: "n \<le> unat timeout"
  shows "\<exists>st out' q' es'. pend_loop env start timeout n rem out q = Some (st, out', q')
    \<and> eq_rep q' es' \<and> (st = WINK_OK \<longrightarrow> (\<exists>m w qb. eq_rep (fst (snd (env m w qb))) (out' # es')))
    \<and> (st \<noteq> WINK_OK \<longrightarrow> out' = out)"
  using rep n
proof (induction "unat timeout - n" arbitrary: n rem q es rule: less_induct)
  case less
  obtain st qe now where e: "env n rem q = (st, qe, now)" by (metis prod_cases3)
  have lt: "n < 2 ^ 32" using less.prems(2) unsigned_less [of timeout, where 'a = nat] by simp
  from env less.prems(1) lt e obtain es1 where es1: "eq_rep qe es1" and adv: "Suc n \<le> unat (now - start)"
    unfolding fair_env_def by (metis fst_conv snd_conv)
  show ?case
  proof (cases "st = WINK_OK")
    case False
    then show ?thesis using e t es1
      by (subst pend_loop.simps) (auto simp: Let_def)
  next
    case ok: True
    show ?thesis
    proof (cases es1)
      case (Cons ev es2)
      with event_pop_rep [OF es1, of out] obtain q' where
        "event_pop out qe = (WINK_OK, ev, q')" "eq_rep q' es2" by auto
      moreover have "eq_rep (fst (snd (env n rem q))) (ev # es2)" using es1 Cons e by simp
      ultimately show ?thesis using e t ok
        by (subst pend_loop.simps) (fastforce simp: Let_def)
    next
      case Nil
      with event_pop_rep [OF es1, of out] have pop: "event_pop out qe = (WINK_ERR_EMPTY, out, qe)"
        by simp
      show ?thesis
      proof (cases "now - start \<ge> ucast timeout \<or> timeout - ucast (now - start) = 0")
        case True
        with e t ok pop es1 show ?thesis
          by (subst pend_loop.simps) (auto simp: Let_def)
      next
        case False
        then have "unat (now - start) < unat timeout"
          by (simp add: word_le_nat_alt unat_ucast_u64 not_le)
        with adv less.prems(2) have "unat timeout - Suc n < unat timeout - n" "Suc n \<le> unat timeout"
          by auto
        from less.hyps [OF this(1) es1 this(2), of "timeout - ucast (now - start)"]
        show ?thesis using e t ok pop False
          by (subst pend_loop.simps) (auto simp: Let_def)
      qed
    qed
  qed
qed

lemma event_pend_lemma:
  assumes "eq_rep q es" "fair_env env now" "timeout \<noteq> WAIT_FOREVER"
  shows "\<exists>st out' q' es'. wink_event_pend env now (Some out) timeout q = Some (st, Some out', q')
    \<and> eq_rep q' es'
    \<and> (st = WINK_OK \<longrightarrow> es = out' # es' \<or> es = [] \<and> (\<exists>m w qb. eq_rep (fst (snd (env m w qb))) (out' # es')))
    \<and> (st \<noteq> WINK_OK \<longrightarrow> out' = out \<and> es = [])"
proof (cases es)
  case (Cons e es')
  with event_pop_rep [OF assms(1), of out] obtain q' where
    "event_pop out q = (WINK_OK, e, q')" "eq_rep q' es'" by auto
  then show ?thesis using assms(1) Cons by (auto simp: wink_event_pend_def eq_rep_def)
next
  case Nil
  with event_pop_rep [OF assms(1), of out] have pop: "event_pop out q = (WINK_ERR_EMPTY, out, q)" by simp
  have init: "eq_initialized q" using assms(1) by (simp add: eq_rep_def)
  show ?thesis
  proof (cases "timeout = 0")
    case True
    with pop init assms(1) Nil show ?thesis by (auto simp: wink_event_pend_def)
  next
    case False
    from pend_loop_returns [OF assms(2,3,1), of 0 timeout out] pop init False Nil show ?thesis
      by (auto simp: wink_event_pend_def)
  qed
qed

text \<open>C4: a consumer with a finite timeout always returns, whatever spurious wake-ups happen,
  provided the clock advances between waits; if it returns \<open>WINK_OK\<close> the event is the head of
  the mailbox, found on entry or after a wake-up, and is removed from it; otherwise the
  caller's event is untouched.\<close>
theorem event_pend_returns:
  assumes "eq_rep q es" "fair_env env now" "timeout \<noteq> WAIT_FOREVER"
  shows "\<exists>st out' q' es'. wink_event_pend env now (Some out) timeout q = Some (st, Some out', q')
    \<and> eq_rep q' es'
    \<and> (st = WINK_OK \<longrightarrow> es = out' # es' \<or> es = [] \<and> (\<exists>m w qb. eq_rep (fst (snd (env m w qb))) (out' # es')))
    \<and> (st \<noteq> WINK_OK \<longrightarrow> out' = out \<and> es = [])"
  using event_pend_lemma [OF assms] .

lemma event_pend_returns_witness:
  "\<exists>st out' q'. wink_event_pend (\<lambda>n w q. (WINK_OK, q, of_nat (Suc n))) 0
     (Some \<lparr> ev_type = 0, ev_device = 0, ev_param = 0, ev_pad = 0, ev_timestamp = 0 \<rparr>) 20 demo_queue
     = Some (st, Some out', q')"
proof -
  have "fair_env (\<lambda>n w q. (WINK_OK, q, of_nat (Suc n))) 0"
    by (auto simp: fair_env_def unat_of_nat unat_word_ariths)
  moreover have "(20 :: u32) \<noteq> WAIT_FOREVER" by (simp add: WAIT_FOREVER_def)
  ultimately show ?thesis using event_pend_returns [OF demo_queue_rep] by blast
qed

abbreviation distance_devices :: "wink_event_t list \<Rightarrow> u32 list" where
  "distance_devices es \<equiv>
     map ev_device (filter (\<lambda>e. ev_type e = event_type_code WINK_EVENT_DISTANCE_READY) es)"

lemma replace_first_distance:
  "replace_first (same_source e) e es = Some es' \<Longrightarrow> distance_devices es' = distance_devices es"
  by (induction es arbitrary: es') (auto simp: same_source_def split: if_splits)

lemma mailbox_post_distinct:
  assumes "mailbox_post cap e es = (st, es', w)" "distinct (distance_devices es)"
  shows "distinct (distance_devices es')"
  using assms replace_first_distance [of e es]
  by (auto simp: mailbox_post_def same_source_def replace_first_None_iff split: option.splits if_splits)
     metis

text \<open>The mailbox never holds two distance events of the same device: coalescing keeps at
  most one pending measurement per sensor, so the consumer reads only the latest.\<close>
lemma event_post_one_distance_per_device:
  assumes "eq_rep q es" "distinct (distance_devices es)"
  shows "\<exists>es'. eq_rep (fst (snd (wink_event_post isr (Some e) q))) es' \<and> distinct (distance_devices es')"
proof -
  obtain st es' w where m: "mailbox_post (unat (eq_capacity q)) e es = (st, es', w)"
    by (metis prod_cases3)
  with mailbox_post_distinct [OF m assms(2)] event_post_refines_lemma [OF assms(1), of isr e]
  show ?thesis by auto
qed

lemma event_post_one_distance_witness:
  "\<exists>es'. eq_rep (fst (snd (wink_event_post False (Some \<lparr> ev_type = 4, ev_device = 7, ev_param = 0,
      ev_pad = 0, ev_timestamp = 5 \<rparr>) demo_queue))) es' \<and> distinct (distance_devices es')"
  using event_post_one_distance_per_device [OF demo_queue_rep] by simp

end
