(* ===== verification/Trace.thy ===== *)
theory Trace
  imports Wink_Prelude
begin

text \<open>
  The fault trace of \<^verbatim>\<open>trace/src/wink_trace.c\<close>: a ring of the last 32 fault codes, the total
  number of faults written, the next write index and a warning counter. Every function runs
  inside one critical section, so each is one atomic step of the model; the interrupt variant
  records through the same function.
\<close>

record wink_trace =
  tr_buffer :: "u32 list"
  tr_count :: u32
  tr_head :: u32
  tr_warn_count :: u32

definition WINK_TRACE_CAPACITY :: u32 where
  "WINK_TRACE_CAPACITY = 32"

definition s_record_fault_locked :: "u32 \<Rightarrow> wink_trace \<Rightarrow> wink_trace" where
  "s_record_fault_locked fault_code t =
    t\<lparr> tr_buffer := (tr_buffer t)[unat (tr_head t) := fault_code],
       tr_head := (tr_head t + 1) mod WINK_TRACE_CAPACITY,
       tr_count := tr_count t + 1 \<rparr>"

definition wink_trace_reset :: "wink_trace \<Rightarrow> wink_trace" where
  "wink_trace_reset t = t\<lparr> tr_count := 0, tr_head := 0, tr_warn_count := 0 \<rparr>"

definition wink_trace_fault :: "u32 \<Rightarrow> wink_trace \<Rightarrow> wink_trace" where
  "wink_trace_fault fault_code t = s_record_fault_locked fault_code t"

definition wink_trace_fault_from_isr :: "u32 \<Rightarrow> wink_trace \<Rightarrow> wink_trace" where
  "wink_trace_fault_from_isr fault_code t = s_record_fault_locked fault_code t"

definition wink_trace_count :: "wink_trace \<Rightarrow> u32" where
  "wink_trace_count t =
    (if tr_count t < WINK_TRACE_CAPACITY then tr_count t else WINK_TRACE_CAPACITY)"

definition wink_trace_warn :: "u32 \<Rightarrow> wink_trace \<Rightarrow> wink_trace" where
  "wink_trace_warn warn_code t = t\<lparr> tr_warn_count := tr_warn_count t + 1 \<rparr>"

definition wink_warn_count :: "wink_trace \<Rightarrow> u32" where
  "wink_warn_count t = tr_warn_count t"

definition wink_trace_last :: "wink_trace \<Rightarrow> u32" where
  "wink_trace_last t =
    (if tr_count t = 0 then 0
     else tr_buffer t ! unat ((tr_head t + WINK_TRACE_CAPACITY - 1) mod WINK_TRACE_CAPACITY))"

section \<open>The trace as a history\<close>

text \<open>\<open>t\<close> records the history \<open>h\<close> of faults since the last reset, oldest first: entry \<open>i\<close> of
  the last 32 sits in slot \<open>i mod 32\<close>.\<close>

definition trace_rep :: "wink_trace \<Rightarrow> u32 list \<Rightarrow> bool" where
  "trace_rep t h \<longleftrightarrow> length (tr_buffer t) = 32 \<and> tr_count t = of_nat (length h)
    \<and> tr_head t = of_nat (length h mod 32)
    \<and> (\<forall>i < length h. length h \<le> i + 32 \<longrightarrow> tr_buffer t ! (i mod 32) = h ! i)"

lemma unat_of_nat_mod_32: "unat (of_nat (n mod 32) :: u32) = n mod 32"
proof -
  have "n mod 32 < 2 ^ LENGTH(32)" by (rule less_trans [of _ 32]) simp_all
  then show ?thesis by (simp only: unat_of_nat mod_less)
qed

lemma trace_head_Suc: "(of_nat (n mod 32) + 1) mod WINK_TRACE_CAPACITY = of_nat (Suc n mod 32)"
proof -
  have "n mod 32 < 32" by simp
  then have "unat (of_nat (n mod 32) + 1 :: u32) = Suc (n mod 32)"
    by (simp only: unat_word_ariths unat_of_nat_mod_32) simp
  then have "unat ((of_nat (n mod 32) + 1) mod WINK_TRACE_CAPACITY) = Suc (n mod 32) mod 32"
    by (simp only: unat_mod WINK_TRACE_CAPACITY_def) simp
  also have "\<dots> = unat (of_nat (Suc n mod 32) :: u32)"
    by (simp only: unat_of_nat_mod_32 mod_Suc_eq)
  finally show ?thesis by (simp only: word_unat_eq_iff)
qed

lemma trace_rep_reset:
  "length (tr_buffer t) = 32 \<Longrightarrow> trace_rep (wink_trace_reset t) []"
  by (simp add: trace_rep_def wink_trace_reset_def)

lemma trace_rep_record:
  assumes "trace_rep t h"
  shows "trace_rep (s_record_fault_locked c t) (h @ [c])"
proof -
  have head: "unat (tr_head t) = length h mod 32"
    using assms by (simp only: trace_rep_def unat_of_nat_mod_32)
  have "(tr_buffer t)[length h mod 32 := c] ! (i mod 32) = (h @ [c]) ! i"
    if i: "i < Suc (length h)" "Suc (length h) \<le> i + 32" for i
  proof (cases "i = length h")
    case True
    then show ?thesis using assms by (simp add: trace_rep_def)
  next
    case False
    then have lt: "i < length h" using i by simp
    have "length h mod 32 \<noteq> i mod 32"
    proof
      assume "length h mod 32 = i mod 32"
      then have "32 dvd length h - i" using lt by (metis less_imp_le mod_eq_dvd_iff_nat)
      then show False using lt i by (auto dest: dvd_imp_le)
    qed
    then show ?thesis using assms lt i by (simp add: trace_rep_def nth_append)
  qed
  then show ?thesis
    using assms trace_head_Suc [of "length h"]
    by (simp add: trace_rep_def s_record_fault_locked_def unat_of_nat_mod_32)
qed

lemma trace_rep_fault: "trace_rep t h \<Longrightarrow> trace_rep (wink_trace_fault c t) (h @ [c])"
  by (simp add: wink_trace_fault_def trace_rep_record)

lemma trace_rep_warn: "trace_rep t h \<Longrightarrow> trace_rep (wink_trace_warn c t) h"
  by (simp add: trace_rep_def wink_trace_warn_def)

lemma trace_rep_fold:
  assumes "trace_rep t h"
  shows "trace_rep (fold (\<lambda>(isr, c). if isr then wink_trace_fault_from_isr c else wink_trace_fault c) fs t)
    (h @ map snd fs)"
  using assms
proof (induction fs arbitrary: t h)
  case (Cons f fs)
  have "trace_rep (s_record_fault_locked (snd f) t) (h @ [snd f])"
    using Cons.prems by (rule trace_rep_record)
  from Cons.IH [OF this] show ?case
    by (cases f) (simp add: wink_trace_fault_from_isr_def wink_trace_fault_def)
qed simp

lemma trace_count_rep:
  assumes "trace_rep t h" "length h < 2 ^ 32"
  shows "wink_trace_count t = of_nat (min (length h) 32)"
proof -
  have "unat (of_nat (length h) :: u32) = length h" using assms(2) by (simp add: unat_of_nat)
  then show ?thesis using assms(1)
    by (auto simp: trace_rep_def wink_trace_count_def WINK_TRACE_CAPACITY_def word_less_nat_alt min_def)
qed

lemma trace_last_rep:
  assumes rep: "trace_rep t h" and len: "length h < 2 ^ 32"
  shows "wink_trace_last t = (if h = [] then 0 else last h)"
proof (cases "h = []")
  case True
  then show ?thesis using rep by (simp add: trace_rep_def wink_trace_last_def)
next
  case False
  then obtain m where m: "length h = Suc m" by (cases h) auto
  have nz: "tr_count t \<noteq> 0"
    using rep len False by (simp add: trace_rep_def word_unat_eq_iff unat_of_nat)
  have "length h mod 32 < 32" by simp
  then have "unat (31 + of_nat (length h mod 32) :: u32) = 31 + length h mod 32"
    by (simp only: unat_word_ariths unat_of_nat_mod_32) simp
  moreover have "tr_head t + WINK_TRACE_CAPACITY - 1 = 31 + of_nat (length h mod 32)"
    using rep by (simp add: trace_rep_def WINK_TRACE_CAPACITY_def)
  ultimately have "unat ((tr_head t + WINK_TRACE_CAPACITY - 1) mod WINK_TRACE_CAPACITY)
      = (31 + length h mod 32) mod 32"
    by (simp only: unat_mod) (simp add: WINK_TRACE_CAPACITY_def)
  also have "\<dots> = (31 + Suc m) mod 32" by (simp only: m mod_add_right_eq)
  also have "\<dots> = m mod 32" by (simp add: mod_add_self2)
  finally show ?thesis
    using rep nz False m by (simp add: trace_rep_def wink_trace_last_def last_conv_nth)
qed

text \<open>C5: after a reset and any sequence of fewer than \<open>2 ^ 32\<close> faults, from tasks or
  interrupts, the trace reports the number of faults capped at 32, its last fault is the most
  recent one (0 when there is none), and the ring holds exactly the last 32 faults.\<close>
theorem trace_keeps_last_faults:
  assumes "length (tr_buffer t) = 32" "length fs < 2 ^ 32"
  defines "t' \<equiv> fold (\<lambda>(isr, c). if isr then wink_trace_fault_from_isr c else wink_trace_fault c)
      fs (wink_trace_reset t)"
  shows "wink_trace_count t' = of_nat (min (length fs) 32)
    \<and> wink_trace_last t' = (if fs = [] then 0 else snd (last fs))
    \<and> (\<forall>i < length fs. length fs \<le> i + 32 \<longrightarrow> tr_buffer t' ! (i mod 32) = snd (fs ! i))"
proof -
  from trace_rep_fold [OF trace_rep_reset [OF assms(1)]] have rep: "trace_rep t' (map snd fs)"
    by (simp add: t'_def)
  with trace_count_rep [OF rep] trace_last_rep [OF rep] assms(2) show ?thesis
    by (auto simp: trace_rep_def last_map)
qed

lemma trace_keeps_last_faults_witness:
  "wink_trace_last (wink_trace_fault_from_isr 9 (wink_trace_fault 8 (wink_trace_reset
     \<lparr> tr_buffer = replicate 32 0, tr_count = 5, tr_head = 5, tr_warn_count = 1 \<rparr>))) = 9"
  using trace_keeps_last_faults [of "\<lparr> tr_buffer = replicate 32 0, tr_count = 5, tr_head = 5,
      tr_warn_count = 1 \<rparr>" "[(False, 8), (True, 9)]"] by simp

end
