(* ===== verification/Soft_Timer.thy ===== *)
theory Soft_Timer
  imports Trace
begin

text \<open>
  The software timers of \<^verbatim>\<open>runtime/src/wink_soft_timer.c\<close>: sixteen static slots, counted down
  by one dispatch per 10 ms runtime tick. A callback pointer is \<open>None\<close> for \<^verbatim>\<open>NULL\<close>. The
  callbacks are a parameter that acts on the whole world, the timer table included, so that a
  callback may create, restart, stop or destroy timers while the table is being walked; each
  call also yields the time it took on the clock.
\<close>

section \<open>Data\<close>

datatype wink_timer_mode_t = WINK_TIMER_ONESHOT | WINK_TIMER_PERIODIC

record wink_timer_cb_t =
  tm_callback :: "nat option"
  tm_arg :: nat
  tm_name :: "string option"
  tm_mode :: wink_timer_mode_t
  tm_period_ticks :: u32
  tm_remaining_ticks :: u32
  tm_active :: bool
  tm_overruns :: u8

record soft_timers =
  st_timers :: "wink_timer_cb_t list"
  st_initialized :: bool
  st_in_light_dispatch :: bool

text \<open>The world a callback acts on: the timers, the fault trace and everything else.\<close>

record 's timer_world =
  w_timers :: soft_timers
  w_trace :: wink_trace
  w_env :: 's

type_synonym 's timer_calls = "nat \<Rightarrow> nat \<Rightarrow> 's timer_world \<Rightarrow> wink_status_t \<times> u64 \<times> 's timer_world"

definition WINK_MAX_SOFT_TIMERS :: nat where "WINK_MAX_SOFT_TIMERS = 16"
definition WINK_RUNTIME_TICK_MS :: u32 where "WINK_RUNTIME_TICK_MS = 10"
definition WINK_LIGHT_SOFT_BUDGET_US :: u64 where "WINK_LIGHT_SOFT_BUDGET_US = 100"
definition WINK_LIGHT_HARD_LIMIT_US :: u64 where "WINK_LIGHT_HARD_LIMIT_US = 500"
definition WINK_LIGHT_WCET_STRIKES :: u8 where "WINK_LIGHT_WCET_STRIKES = 3"
definition WINK_WARN_LIGHT_OVERBUDGET :: u32 where "WINK_WARN_LIGHT_OVERBUDGET = 8004"
definition WINK_FAULT_LIGHT_WCET_VIOLATION :: u32 where "WINK_FAULT_LIGHT_WCET_VIOLATION = 8005"

definition timer_zero :: wink_timer_cb_t where
  "timer_zero = \<lparr> tm_callback = None, tm_arg = 0, tm_name = None, tm_mode = WINK_TIMER_ONESHOT,
     tm_period_ticks = 0, tm_remaining_ticks = 0, tm_active = False, tm_overruns = 0 \<rparr>"

section \<open>Operations\<close>

definition wink_soft_timer_init :: "soft_timers \<Rightarrow> wink_status_t \<times> soft_timers" where
  "wink_soft_timer_init t =
    (WINK_OK, t\<lparr> st_timers := replicate WINK_MAX_SOFT_TIMERS timer_zero,
                 st_in_light_dispatch := False, st_initialized := True \<rparr>)"

definition ms_to_ticks :: "u32 \<Rightarrow> u32" where
  "ms_to_ticks period_ms =
    (let period_ticks = period_ms div WINK_RUNTIME_TICK_MS
     in if period_ticks = 0 then 1 else period_ticks)"

definition wink_soft_timer_create ::
  "nat option \<Rightarrow> nat \<Rightarrow> wink_timer_mode_t \<Rightarrow> u32 \<Rightarrow> soft_timers \<Rightarrow> nat result \<times> soft_timers" where
  "wink_soft_timer_create callback arg mode period_ms t =
    (if \<not> st_initialized t \<or> callback = None \<or> period_ms = 0 then (Inl WINK_ERR_INVALID_ARG, t)
     else let period_ticks = ms_to_ticks period_ms
          in case first_slot (\<lambda>s. tm_callback s = None) (st_timers t) of
               None \<Rightarrow> (Inl WINK_ERR_NO_MEM, t)
             | Some i \<Rightarrow> (Inr i, t\<lparr> st_timers := (st_timers t)[i :=
                 \<lparr> tm_callback = callback, tm_arg = arg, tm_name = None, tm_mode = mode,
                   tm_period_ticks = period_ticks, tm_remaining_ticks = period_ticks,
                   tm_active = False, tm_overruns = 0 \<rparr>] \<rparr>))"

abbreviation timer_at :: "soft_timers \<Rightarrow> int \<Rightarrow> wink_timer_cb_t" where
  "timer_at t h \<equiv> st_timers t ! nat h"

abbreviation put_timer :: "int \<Rightarrow> wink_timer_cb_t \<Rightarrow> soft_timers \<Rightarrow> soft_timers" where
  "put_timer h tm t \<equiv> t\<lparr> st_timers := (st_timers t)[nat h := tm] \<rparr>"

definition bad_handle :: "int \<Rightarrow> soft_timers \<Rightarrow> bool" where
  "bad_handle h t \<longleftrightarrow> \<not> st_initialized t \<or> h < 0 \<or> h \<ge> int WINK_MAX_SOFT_TIMERS"

definition wink_soft_timer_start :: "int \<Rightarrow> soft_timers \<Rightarrow> wink_status_t \<times> soft_timers" where
  "wink_soft_timer_start h t =
    (if bad_handle h t then (WINK_ERR_INVALID_ARG, t)
     else if tm_callback (timer_at t h) = None then (WINK_ERR_INVALID_ARG, t)
     else (WINK_OK, put_timer h ((timer_at t h)\<lparr> tm_remaining_ticks := tm_period_ticks (timer_at t h),
             tm_active := True, tm_overruns := 0 \<rparr>) t))"

definition wink_soft_timer_stop :: "int \<Rightarrow> soft_timers \<Rightarrow> wink_status_t \<times> soft_timers" where
  "wink_soft_timer_stop h t =
    (if bad_handle h t then (WINK_ERR_INVALID_ARG, t)
     else (WINK_OK, put_timer h ((timer_at t h)\<lparr> tm_active := False \<rparr>) t))"

definition wink_soft_timer_destroy :: "int \<Rightarrow> soft_timers \<Rightarrow> wink_status_t \<times> soft_timers" where
  "wink_soft_timer_destroy h t =
    (if bad_handle h t then (WINK_ERR_INVALID_ARG, t)
     else if tm_callback (timer_at t h) = None then (WINK_OK, t)
     else (WINK_OK, put_timer h timer_zero t))"

definition wink_soft_timer_change_period :: "int \<Rightarrow> u32 \<Rightarrow> soft_timers \<Rightarrow> wink_status_t \<times> soft_timers"
where
  "wink_soft_timer_change_period h period_ms t =
    (if bad_handle h t then (WINK_ERR_INVALID_ARG, t)
     else if tm_callback (timer_at t h) = None then (WINK_ERR_INVALID_ARG, t)
     else if period_ms = 0 then (WINK_ERR_INVALID_ARG, t)
     else let period_ticks = ms_to_ticks period_ms;
              tm = (timer_at t h)\<lparr> tm_period_ticks := period_ticks \<rparr>;
              tm = (if tm_active tm \<and> tm_remaining_ticks tm > period_ticks
                    then tm\<lparr> tm_remaining_ticks := period_ticks \<rparr> else tm)
          in (WINK_OK, put_timer h (tm\<lparr> tm_overruns := 0 \<rparr>) t))"

definition wink_soft_timer_set_name :: "int \<Rightarrow> string option \<Rightarrow> soft_timers \<Rightarrow> soft_timers" where
  "wink_soft_timer_set_name h name t =
    (if bad_handle h t then t else put_timer h ((timer_at t h)\<lparr> tm_name := name \<rparr>) t)"

definition wink_soft_timer_in_light_dispatch :: "soft_timers \<Rightarrow> bool" where
  "wink_soft_timer_in_light_dispatch t = st_in_light_dispatch t"

section \<open>Dispatch\<close>

definition upd_slot :: "nat \<Rightarrow> (wink_timer_cb_t \<Rightarrow> wink_timer_cb_t) \<Rightarrow> 's timer_world \<Rightarrow> 's timer_world" where
  "upd_slot i f w = w\<lparr> w_timers := (w_timers w)\<lparr> st_timers :=
     (st_timers (w_timers w))[i := f (st_timers (w_timers w) ! i)] \<rparr> \<rparr>"

definition set_light :: "bool \<Rightarrow> 's timer_world \<Rightarrow> 's timer_world" where
  "set_light b w = w\<lparr> w_timers := (w_timers w)\<lparr> st_in_light_dispatch := b \<rparr> \<rparr>"

text \<open>The execution-time watchdog of one callback.\<close>

definition account_overrun :: "nat \<Rightarrow> u64 \<Rightarrow> 's timer_world \<Rightarrow> 's timer_world" where
  "account_overrun i elapsed_us w =
    (if elapsed_us > WINK_LIGHT_HARD_LIMIT_US
     then let w = upd_slot i (\<lambda>tm. tm\<lparr> tm_overruns := tm_overruns tm + 1 \<rparr>) w
          in if tm_overruns (st_timers (w_timers w) ! i) \<ge> WINK_LIGHT_WCET_STRIKES
             then upd_slot i (\<lambda>tm. tm\<lparr> tm_overruns := 0 \<rparr>)
                    (w\<lparr> w_trace := wink_trace_fault WINK_FAULT_LIGHT_WCET_VIOLATION (w_trace w) \<rparr>)
             else w\<lparr> w_trace := wink_trace_warn WINK_WARN_LIGHT_OVERBUDGET (w_trace w) \<rparr>
     else if elapsed_us > WINK_LIGHT_SOFT_BUDGET_US
     then upd_slot i (\<lambda>tm. tm\<lparr> tm_overruns := 0 \<rparr>)
            (w\<lparr> w_trace := wink_trace_warn WINK_WARN_LIGHT_OVERBUDGET (w_trace w) \<rparr>)
     else upd_slot i (\<lambda>tm. tm\<lparr> tm_overruns := 0 \<rparr>) w)"

definition fire_slot :: "'s timer_calls \<Rightarrow> nat \<Rightarrow> 's timer_world \<Rightarrow> 's timer_world" where
  "fire_slot call i w =
    (let timer = st_timers (w_timers w) ! i;
         (status, elapsed_us, w) = call (the (tm_callback timer)) (tm_arg timer) (set_light True w);
         w = account_overrun i elapsed_us (set_light False w)
     in upd_slot i (\<lambda>tm. if status \<noteq> WINK_OK \<or> tm_mode tm = WINK_TIMER_ONESHOT
                         then tm\<lparr> tm_active := False \<rparr>
                         else tm\<lparr> tm_remaining_ticks := tm_period_ticks tm \<rparr>) w)"

definition dispatch_slot :: "'s timer_calls \<Rightarrow> nat \<Rightarrow> 's timer_world \<Rightarrow> 's timer_world" where
  "dispatch_slot call i w =
    (let timer = st_timers (w_timers w) ! i
     in if tm_callback timer = None \<or> \<not> tm_active timer then w
        else let w = (if tm_remaining_ticks timer > 0
                      then upd_slot i (\<lambda>tm. tm\<lparr> tm_remaining_ticks := tm_remaining_ticks tm - 1 \<rparr>) w
                      else w)
             in if tm_remaining_ticks (st_timers (w_timers w) ! i) \<noteq> 0 then w
                else fire_slot call i w)"

definition wink_soft_timer_dispatch :: "'s timer_calls \<Rightarrow> 's timer_world \<Rightarrow> 's timer_world" where
  "wink_soft_timer_dispatch call w =
    (if \<not> st_initialized (w_timers w) then w
     else fold (dispatch_slot call) [0 ..< WINK_MAX_SOFT_TIMERS] w)"

section \<open>Invariant\<close>

definition timer_ok :: "wink_timer_cb_t \<Rightarrow> bool" where
  "timer_ok tm \<longleftrightarrow> (tm_active tm \<longrightarrow> tm_callback tm \<noteq> None \<and> tm_remaining_ticks tm \<le> tm_period_ticks tm)
     \<and> (tm_callback tm \<noteq> None \<longrightarrow> tm_period_ticks tm \<noteq> 0)"

definition timers_wf :: "soft_timers \<Rightarrow> bool" where
  "timers_wf t \<longleftrightarrow> length (st_timers t) = WINK_MAX_SOFT_TIMERS \<and> (\<forall>tm \<in> set (st_timers t). timer_ok tm)"

lemma ms_to_ticks_nonzero [simp]: "ms_to_ticks p \<noteq> 0"
  by (simp add: ms_to_ticks_def Let_def)

lemma timers_wf_put:
  "timers_wf t \<Longrightarrow> timer_ok tm \<Longrightarrow> timers_wf (t\<lparr> st_timers := (st_timers t)[k := tm] \<rparr>)"
  by (auto simp: timers_wf_def dest!: set_update_subset_insert [THEN subsetD])

lemma timers_wf_at: "timers_wf t \<Longrightarrow> k < WINK_MAX_SOFT_TIMERS \<Longrightarrow> timer_ok (st_timers t ! k)"
  by (auto simp: timers_wf_def)

lemma timers_wf_at_handle: "timers_wf t \<Longrightarrow> \<not> bad_handle h t \<Longrightarrow> timer_ok (timer_at t h)"
  by (rule timers_wf_at) (auto simp: bad_handle_def nat_less_iff)

lemma timers_wf_light [simp]: "timers_wf (t\<lparr> st_in_light_dispatch := b \<rparr>) = timers_wf t"
  by (simp add: timers_wf_def)

lemma timers_wf_init: "timers_wf (snd (wink_soft_timer_init t))"
  by (simp add: wink_soft_timer_init_def timers_wf_def timer_ok_def timer_zero_def)

lemma timers_wf_create: "timers_wf t \<Longrightarrow> timers_wf (snd (wink_soft_timer_create cb arg mode ms t))"
  by (auto simp: wink_soft_timer_create_def Let_def timer_ok_def intro!: timers_wf_put split: option.split)

lemma timers_wf_start: "timers_wf t \<Longrightarrow> timers_wf (snd (wink_soft_timer_start h t))"
  using timers_wf_at_handle [of t h]
  by (auto simp: wink_soft_timer_start_def timer_ok_def intro!: timers_wf_put)

lemma timers_wf_stop: "timers_wf t \<Longrightarrow> timers_wf (snd (wink_soft_timer_stop h t))"
  using timers_wf_at_handle [of t h]
  by (auto simp: wink_soft_timer_stop_def timer_ok_def intro!: timers_wf_put)

lemma timers_wf_destroy: "timers_wf t \<Longrightarrow> timers_wf (snd (wink_soft_timer_destroy h t))"
  by (auto simp: wink_soft_timer_destroy_def timer_ok_def timer_zero_def intro!: timers_wf_put)

lemma timers_wf_change_period: "timers_wf t \<Longrightarrow> timers_wf (snd (wink_soft_timer_change_period h ms t))"
  using timers_wf_at_handle [of t h]
  by (auto simp: wink_soft_timer_change_period_def Let_def timer_ok_def intro!: timers_wf_put)

lemma timers_wf_set_name: "timers_wf t \<Longrightarrow> timers_wf (wink_soft_timer_set_name h nm t)"
  using timers_wf_at_handle [of t h]
  by (auto simp: wink_soft_timer_set_name_def timer_ok_def intro!: timers_wf_put)

lemmas timers_wf_ops = timers_wf_init timers_wf_create timers_wf_start timers_wf_stop
  timers_wf_destroy timers_wf_change_period timers_wf_set_name

section \<open>What the slot updates leave alone\<close>

lemma upd_slot_simps [simp]:
  "w_trace (upd_slot i f w) = w_trace w" "w_env (upd_slot i f w) = w_env w"
  "st_initialized (w_timers (upd_slot i f w)) = st_initialized (w_timers w)"
  "length (st_timers (w_timers (upd_slot i f w))) = length (st_timers (w_timers w))"
  by (simp_all add: upd_slot_def)

lemma upd_slot_nth:
  "k < length (st_timers (w_timers w)) \<Longrightarrow> st_timers (w_timers (upd_slot i f w)) ! k
    = (if k = i then f (st_timers (w_timers w) ! k) else st_timers (w_timers w) ! k)"
  by (simp add: upd_slot_def nth_list_update)

lemma set_light_simps [simp]:
  "w_trace (set_light b w) = w_trace w" "w_env (set_light b w) = w_env w"
  "st_initialized (w_timers (set_light b w)) = st_initialized (w_timers w)"
  "st_timers (w_timers (set_light b w)) = st_timers (w_timers w)"
  by (simp_all add: set_light_def)

lemma account_overrun_simps [simp]:
  "w_env (account_overrun i us w) = w_env w"
  "st_initialized (w_timers (account_overrun i us w)) = st_initialized (w_timers w)"
  "length (st_timers (w_timers (account_overrun i us w))) = length (st_timers (w_timers w))"
  by (auto simp: account_overrun_def Let_def)

lemma account_overrun_nth:
  "k < length (st_timers (w_timers w)) \<Longrightarrow>
   \<exists>v. st_timers (w_timers (account_overrun i us w)) ! k = (st_timers (w_timers w) ! k)\<lparr> tm_overruns := v \<rparr>
     \<and> (k \<noteq> i \<longrightarrow> v = tm_overruns (st_timers (w_timers w) ! k))"
  by (cases "k = i"; simp add: account_overrun_def Let_def upd_slot_nth; blast)

section \<open>A periodic timer fires once per period\<close>

text \<open>A callback spares the timer of slot \<open>i\<close>, which has callback \<open>f\<close> and argument \<open>a\<close>, when it leaves the slot
  alone and registers the two nowhere else; it may do anything to the other timers.\<close>

definition spares :: "nat \<Rightarrow> nat \<Rightarrow> nat \<Rightarrow> soft_timers \<Rightarrow> soft_timers \<Rightarrow> bool" where
  "spares i f a t t' \<longleftrightarrow> length (st_timers t') = length (st_timers t) \<and> st_initialized t' = st_initialized t
     \<and> st_timers t' ! i = st_timers t ! i
     \<and> (\<forall>j < length (st_timers t). j \<noteq> i \<longrightarrow> tm_callback (st_timers t' ! j) = Some f \<longrightarrow> tm_arg (st_timers t' ! j) = a \<longrightarrow>
           tm_callback (st_timers t ! j) = Some f \<and> tm_arg (st_timers t ! j) = a)"

lemma spares_refl [simp]: "spares i f a t t"
  by (simp add: spares_def)

text \<open>What the runtime's own operations do to a timer they are not called on.\<close>

lemma spares_put:
  assumes "k \<noteq> i" "tm_callback tm = Some f \<Longrightarrow> tm_arg tm = a \<Longrightarrow> tm_callback (st_timers t ! k) = Some f \<and> tm_arg (st_timers t ! k) = a"
  shows "spares i f a t (t\<lparr> st_timers := (st_timers t)[k := tm] \<rparr>)"
proof -
  have nth: "(st_timers t)[k := tm] ! j = (if j = k then tm else st_timers t ! j)" if "j < length (st_timers t)" for j
    using that by simp
  show ?thesis using assms by (auto simp: spares_def nth split: if_splits)
qed

lemma spares_create:
  assumes "tm_callback (st_timers t ! i) = Some f" "\<not> (cb = Some f \<and> arg = a)"
  shows "spares i f a t (snd (wink_soft_timer_create cb arg mode ms t))"
proof -
  have "k \<noteq> i" if "first_slot (\<lambda>s. tm_callback s = None) (st_timers t) = Some k" for k
    using first_slot_SomeD(2) [OF that] assms(1) by auto
  then show ?thesis
    using assms(2) by (auto simp: wink_soft_timer_create_def Let_def split: option.split intro!: spares_put)
qed

lemma spares_operations:
  assumes "nat h \<noteq> i"
  shows "spares i f a t (snd (wink_soft_timer_start h t))" "spares i f a t (snd (wink_soft_timer_stop h t))"
    "spares i f a t (snd (wink_soft_timer_destroy h t))" "spares i f a t (snd (wink_soft_timer_change_period h ms t))"
  using assms by (auto simp: wink_soft_timer_start_def wink_soft_timer_stop_def wink_soft_timer_destroy_def
      wink_soft_timer_change_period_def timer_zero_def Let_def intro!: spares_put split: if_splits)

text \<open>Well-behaved callbacks: none touches the timer of slot \<open>i\<close>, and its own, \<open>f\<close> with argument \<open>a\<close>, succeeds;
  the others may fail. \<open>obs\<close> observes the rest of the world, where \<open>live\<close> is kept: the timer's own callback makes
  a \<open>step\<close> of the observation, every other call leaves it.\<close>

definition step_calls ::
  "'s timer_calls \<Rightarrow> ('s \<Rightarrow> bool) \<Rightarrow> ('s \<Rightarrow> 'o) \<Rightarrow> ('o \<Rightarrow> 'o) \<Rightarrow> nat \<Rightarrow> nat \<Rightarrow> nat \<Rightarrow> bool" where
  "step_calls call live obs step i f a \<longleftrightarrow> (\<forall>g b w status us w'. live (w_env w)
     \<and> tm_callback (st_timers (w_timers w) ! i) = Some f \<and> call g b w = (status, us, w') \<longrightarrow>
     (g = f \<and> b = a \<longrightarrow> status = WINK_OK) \<and> spares i f a (w_timers w) (w_timers w') \<and> live (w_env w')
     \<and> obs (w_env w') = (if g = f \<and> b = a then step (obs (w_env w)) else obs (w_env w)))"

text \<open>So behave callbacks that all succeed and leave the whole table alone.\<close>

lemma step_callsI:
  assumes "\<And>g b w status us w'. live (w_env w) \<and> call g b w = (status, us, w') \<Longrightarrow>
     status = WINK_OK \<and> w_timers w' = w_timers w \<and> live (w_env w')
     \<and> obs (w_env w') = (if g = f \<and> b = a then step (obs (w_env w)) else obs (w_env w))"
  shows "step_calls call live obs step i f a"
  unfolding step_calls_def using assms by (metis spares_refl)

definition tracking ::
  "('s \<Rightarrow> bool) \<Rightarrow> ('s \<Rightarrow> 'o) \<Rightarrow> nat \<Rightarrow> nat \<Rightarrow> nat \<Rightarrow> u32 \<Rightarrow> u32 \<Rightarrow> 'o \<Rightarrow> 's timer_world \<Rightarrow> bool" where
  "tracking live obs i f a p r n w \<longleftrightarrow>
     (let ts = st_timers (w_timers w) in
      length ts = WINK_MAX_SOFT_TIMERS \<and> st_initialized (w_timers w)
      \<and> tm_callback (ts ! i) = Some f \<and> tm_arg (ts ! i) = a \<and> tm_mode (ts ! i) = WINK_TIMER_PERIODIC
      \<and> tm_active (ts ! i) \<and> tm_period_ticks (ts ! i) = p \<and> tm_remaining_ticks (ts ! i) = r
      \<and> (\<forall>j < WINK_MAX_SOFT_TIMERS. j \<noteq> i \<longrightarrow> tm_callback (ts ! j) \<noteq> Some f \<or> tm_arg (ts ! j) \<noteq> a)
      \<and> live (w_env w) \<and> obs (w_env w) = n)"

lemma tracking_upd_other:
  assumes "tracking live obs i f a p r n w" "j \<noteq> i" "i < WINK_MAX_SOFT_TIMERS"
    "\<And>tm. tm_callback (g tm) = tm_callback tm \<and> tm_arg (g tm) = tm_arg tm"
  shows "tracking live obs i f a p r n (upd_slot j g w)"
  using assms by (auto simp: tracking_def Let_def upd_slot_nth)

lemma tracking_upd_self:
  assumes "tracking live obs i f a p r n w" "i < WINK_MAX_SOFT_TIMERS"
  shows "tracking live obs i f a p r' n (upd_slot i (\<lambda>tm. tm\<lparr> tm_remaining_ticks := r' \<rparr>) w)"
    and "tracking live obs i f a p r n (upd_slot i (\<lambda>tm. tm\<lparr> tm_overruns := v tm \<rparr>) w)"
  using assms by (auto simp: tracking_def Let_def upd_slot_nth)

lemma tracking_trace: "tracking live obs i f a p r n (w\<lparr> w_trace := t \<rparr>) = tracking live obs i f a p r n w"
  by (simp add: tracking_def)

lemma tracking_light: "tracking live obs i f a p r n (set_light b w) = tracking live obs i f a p r n w"
  by (simp add: tracking_def)

lemma tracking_overrun:
  assumes "tracking live obs i f a p r n w" "i < WINK_MAX_SOFT_TIMERS"
  shows "tracking live obs i f a p r n (account_overrun j us w)"
proof (cases "j = i")
  case True
  then show ?thesis using assms
    by (simp add: account_overrun_def Let_def tracking_trace tracking_upd_self(2))
next
  case False
  then show ?thesis using assms
    by (simp add: account_overrun_def Let_def tracking_trace tracking_upd_other)
qed

lemma tracking_call:
  assumes "step_calls call live obs step i f a" "tracking live obs i f a p r n w" "call g b w = (status, us, w')"
  shows "g = f \<and> b = a \<longrightarrow> status = WINK_OK" "tracking live obs i f a p r (if g = f \<and> b = a then step n else n) w'"
proof -
  have t: "live (w_env w)" "tm_callback (st_timers (w_timers w) ! i) = Some f" "obs (w_env w) = n"
    "length (st_timers (w_timers w)) = WINK_MAX_SOFT_TIMERS"
    using assms(2) by (simp_all add: tracking_def Let_def)
  have q: "(g = f \<and> b = a \<longrightarrow> status = WINK_OK) \<and> spares i f a (w_timers w) (w_timers w') \<and> live (w_env w')
     \<and> obs (w_env w') = (if g = f \<and> b = a then step (obs (w_env w)) else obs (w_env w))"
    using assms(1,3) t(1,2) unfolding step_calls_def by blast
  then show "g = f \<and> b = a \<longrightarrow> status = WINK_OK" by blast
  have s: "st_timers (w_timers w') ! i = st_timers (w_timers w) ! i" "st_initialized (w_timers w') = st_initialized (w_timers w)"
    "length (st_timers (w_timers w')) = WINK_MAX_SOFT_TIMERS"
    "\<forall>j < WINK_MAX_SOFT_TIMERS. j \<noteq> i \<longrightarrow> tm_callback (st_timers (w_timers w') ! j) = Some f \<longrightarrow>
       tm_arg (st_timers (w_timers w') ! j) = a \<longrightarrow>
       tm_callback (st_timers (w_timers w) ! j) = Some f \<and> tm_arg (st_timers (w_timers w) ! j) = a"
    using q t(4) by (simp_all add: spares_def)
  have "\<forall>j < WINK_MAX_SOFT_TIMERS. j \<noteq> i \<longrightarrow>
      tm_callback (st_timers (w_timers w') ! j) \<noteq> Some f \<or> tm_arg (st_timers (w_timers w') ! j) \<noteq> a"
    using s(4) assms(2) unfolding tracking_def Let_def by blast
  then show "tracking live obs i f a p r (if g = f \<and> b = a then step n else n) w'"
    using q assms(2) s(1-3) t(3) by (simp add: tracking_def Let_def)
qed

lemma dispatch_other_slot:
  assumes "step_calls call live obs step i f a" "tracking live obs i f a p r n w"
    "j \<noteq> i" "i < WINK_MAX_SOFT_TIMERS" "j < WINK_MAX_SOFT_TIMERS"
  shows "tracking live obs i f a p r n (dispatch_slot call j w)"
proof -
  have fire: "tracking live obs i f a p r n (fire_slot call j v)"
    if v: "tracking live obs i f a p r n v" and cb: "tm_callback (st_timers (w_timers v) ! j) \<noteq> None" for v
  proof -
    let ?tm = "st_timers (w_timers v) ! j"
    obtain status us v' where c: "call (the (tm_callback ?tm)) (tm_arg ?tm) (set_light True v) = (status, us, v')"
      by (cases "call (the (tm_callback ?tm)) (tm_arg ?tm) (set_light True v)" rule: prod_cases3) (rule that)
    have "\<not> (the (tm_callback ?tm) = f \<and> tm_arg ?tm = a)"
      using v cb assms(3,5) by (auto simp: tracking_def Let_def)
    then have "(if the (tm_callback ?tm) = f \<and> tm_arg ?tm = a then step n else n) = n" by (rule if_not_P)
    then have "tracking live obs i f a p r n v'"
      using tracking_call(2) [OF assms(1) _ c, of p r n] v by (simp only: tracking_light)
    then show ?thesis using assms(3,4)
      by (simp add: fire_slot_def c Let_def tracking_light tracking_overrun tracking_upd_other)
  qed
  have dec: "tracking live obs i f a p r n (upd_slot j (\<lambda>tm. tm\<lparr> tm_remaining_ticks := tm_remaining_ticks tm - 1 \<rparr>) w)"
    by (rule tracking_upd_other [OF assms(2,3,4)]) simp
  have len: "j < length (st_timers (w_timers w))"
    using assms(2,5) by (simp add: tracking_def Let_def)
  show ?thesis
    using assms(2) fire [OF dec] fire [OF assms(2)] dec len
    by (simp add: dispatch_slot_def Let_def upd_slot_nth)
qed

lemma dispatch_own_slot:
  assumes "step_calls call live obs step i f a" "tracking live obs i f a p r n w" "i < WINK_MAX_SOFT_TIMERS" "r \<noteq> 0"
  shows "tracking live obs i f a p (if r = 1 then p else r - 1) (if r = 1 then step n else n)
    (dispatch_slot call i w)"
proof -
  let ?w = "upd_slot i (\<lambda>tm. tm\<lparr> tm_remaining_ticks := tm_remaining_ticks tm - 1 \<rparr>) w"
  have w: "tracking live obs i f a p (r - 1) n ?w"
    using assms(2,3) by (auto simp: tracking_def Let_def upd_slot_nth)
  have tm: "st_timers (w_timers w) ! i = tm" "tm_callback tm = Some f" "tm_active tm"
    "tm_remaining_ticks tm = r" if "tm = st_timers (w_timers w) ! i" for tm
    using that assms(2) by (auto simp: tracking_def Let_def)
  have ds: "dispatch_slot call i w = (if r - 1 \<noteq> 0 then ?w else fire_slot call i ?w)"
    using assms(4) tm [OF refl] w by (simp add: dispatch_slot_def Let_def tracking_def word_gt_0)
  show ?thesis
  proof (cases "r = 1")
    case False
    then have "r - 1 \<noteq> 0" by (metis eq_iff_diff_eq_0)
    then show ?thesis using ds w False by simp
  next
    case True
    let ?tm = "st_timers (w_timers ?w) ! i"
    have cb: "tm_callback ?tm = Some f" "tm_arg ?tm = a" using w by (simp_all add: tracking_def Let_def)
    obtain status us v where c: "call f a (set_light True ?w) = (status, us, v)"
      by (cases "call f a (set_light True ?w)" rule: prod_cases3) (rule that)
    have v: "tracking live obs i f a p 0 (step n) v" and ok: "status = WINK_OK"
      using tracking_call [OF assms(1) _ c, of p 0 n] w True by (simp_all add: tracking_light)
    let ?v = "account_overrun i us (set_light False v)"
    have v': "tracking live obs i f a p 0 (step n) ?v"
      using v assms(3) by (intro tracking_overrun) (simp_all add: tracking_light)
    then have "tracking live obs i f a p p (step n)
      (upd_slot i (\<lambda>tm. tm\<lparr> tm_remaining_ticks := tm_period_ticks tm \<rparr>) ?v)"
      using assms(3) by (auto simp: tracking_def Let_def upd_slot_nth)
    moreover have "upd_slot i (\<lambda>tm. if status \<noteq> WINK_OK \<or> tm_mode tm = WINK_TIMER_ONESHOT
        then tm\<lparr> tm_active := False \<rparr> else tm\<lparr> tm_remaining_ticks := tm_period_ticks tm \<rparr>) ?v
      = upd_slot i (\<lambda>tm. tm\<lparr> tm_remaining_ticks := tm_period_ticks tm \<rparr>) ?v"
      using v' ok by (simp add: upd_slot_def tracking_def Let_def)
    ultimately show ?thesis using ds True by (simp add: fire_slot_def cb c Let_def)
  qed
qed

lemma fold_other_slots:
  assumes "step_calls call live obs step i f a" "i < WINK_MAX_SOFT_TIMERS"
    "i \<notin> set js" "\<forall>j \<in> set js. j < WINK_MAX_SOFT_TIMERS" "tracking live obs i f a p r n w"
  shows "tracking live obs i f a p r n (fold (dispatch_slot call) js w)"
  using assms(3-5)
proof (induction js arbitrary: w)
  case (Cons j js)
  then show ?case using dispatch_other_slot [OF assms(1) Cons.prems(3) _ assms(2), of j] by simp
qed simp

lemma dispatch_tracking:
  assumes q: "step_calls call live obs step i f a" and c: "tracking live obs i f a p r n w"
    and i: "i < WINK_MAX_SOFT_TIMERS" and r: "r \<noteq> 0"
  shows "tracking live obs i f a p (if r = 1 then p else r - 1) (if r = 1 then step n else n)
    (wink_soft_timer_dispatch call w)"
proof -
  let ?M = "WINK_MAX_SOFT_TIMERS"
  have split: "[0 ..< ?M] = [0 ..< i] @ i # [Suc i ..< ?M]"
    using i by (metis less_imp_le_nat upt_add_eq_append le_add_diff_inverse upt_conv_Cons zero_le)
  have "tracking live obs i f a p r n (fold (dispatch_slot call) [0 ..< i] w)"
    by (rule fold_other_slots [OF q i]) (use i c in auto)
  from dispatch_own_slot [OF q this i r]
  have "tracking live obs i f a p (if r = 1 then p else r - 1) (if r = 1 then step n else n)
    (fold (dispatch_slot call) [Suc i ..< ?M]
      (dispatch_slot call i (fold (dispatch_slot call) [0 ..< i] w)))"
    by (intro fold_other_slots [OF q i]) auto
  then show ?thesis
    using c by (simp only: wink_soft_timer_dispatch_def split fold_append fold_Cons comp_apply
        tracking_def Let_def) simp
qed

lemma dispatch_tracking_iter:
  assumes q: "step_calls call live obs step i f a" and c: "tracking live obs i f a p p n w"
    and i: "i < WINK_MAX_SOFT_TIMERS" and p: "p \<noteq> 0"
  shows "tracking live obs i f a p (p - of_nat (k mod unat p)) ((step ^^ (k div unat p)) n)
    ((wink_soft_timer_dispatch call ^^ k) w)"
proof (induction k)
  case (Suc k)
  let ?r = "p - of_nat (k mod unat p)"
  have lt: "k mod unat p < unat p" using p by (simp add: unat_gt_0)
  have "unat (of_nat (k mod unat p) :: u32) = k mod unat p"
    using lt unsigned_less [of p, where 'a = nat] by (simp add: unat_of_nat)
  then have ur: "unat ?r = unat p - k mod unat p"
    using lt by (simp add: unat_sub word_le_nat_alt)
  with lt have r0: "?r \<noteq> 0" by (metis unat_eq_zero zero_less_diff less_irrefl)
  have r1: "?r = 1 \<longleftrightarrow> Suc (k mod unat p) = unat p"
    using ur lt by (auto simp: word_unat_eq_iff)
  from dispatch_tracking [OF q Suc.IH i r0] show ?case
    using r1 by (auto simp: mod_Suc div_Suc algebra_simps)
qed (use c in simp)

text \<open>Counting the calls is one such observation.\<close>

definition quiet_calls :: "'s timer_calls \<Rightarrow> ('s \<Rightarrow> nat) \<Rightarrow> nat \<Rightarrow> nat \<Rightarrow> nat \<Rightarrow> bool" where
  "quiet_calls call obs i f a \<longleftrightarrow> (\<forall>g b w status us w'. tm_callback (st_timers (w_timers w) ! i) = Some f
     \<and> call g b w = (status, us, w') \<longrightarrow>
     (g = f \<and> b = a \<longrightarrow> status = WINK_OK) \<and> spares i f a (w_timers w) (w_timers w')
     \<and> obs (w_env w') = obs (w_env w) + (if g = f \<and> b = a then 1 else 0))"

definition counting :: "('s \<Rightarrow> nat) \<Rightarrow> nat \<Rightarrow> nat \<Rightarrow> nat \<Rightarrow> u32 \<Rightarrow> u32 \<Rightarrow> nat \<Rightarrow> 's timer_world \<Rightarrow> bool" where
  "counting obs = tracking (\<lambda>_. True) obs"

lemma quiet_step: "quiet_calls call obs i f a \<Longrightarrow> step_calls call (\<lambda>_. True) obs Suc i f a"
  unfolding quiet_calls_def step_calls_def by (intro allI impI) (drule spec, drule spec, drule spec, fastforce)

lemma funpow_Suc_add: "(Suc ^^ k) n = n + k"
  by (induction k) simp_all

text \<open>C8: a started periodic timer of \<open>p\<close> ticks has fired exactly \<open>k div p\<close> times after \<open>k\<close>
  runtime ticks, whatever slot it has, provided its own callback succeeds and no callback touches its
  slot or registers its function and argument a second time. The other timers' callbacks may fail, may
  create, start, stop and destroy other timers, and all callbacks may take as long as they like.\<close>
theorem periodic_timer_fires_once_per_period:
  assumes "quiet_calls call obs i f a" "i < WINK_MAX_SOFT_TIMERS" "p \<noteq> 0"
    and "counting obs i f a p p 0 w"
  shows "obs (w_env ((wink_soft_timer_dispatch call ^^ k) w)) = k div unat p"
  using dispatch_tracking_iter [OF quiet_step [OF assms(1)] assms(4) [unfolded counting_def] assms(2,3), of k]
  by (simp add: tracking_def Let_def funpow_Suc_add)

definition demo_timer :: "wink_timer_mode_t \<Rightarrow> u32 \<Rightarrow> u32 \<Rightarrow> wink_timer_cb_t" where
  "demo_timer mode p r = \<lparr> tm_callback = Some 1, tm_arg = 2, tm_name = None, tm_mode = mode,
     tm_period_ticks = p, tm_remaining_ticks = r, tm_active = True, tm_overruns = 0 \<rparr>"

definition demo_world :: "wink_timer_cb_t \<Rightarrow> nat timer_world" where
  "demo_world tm = \<lparr> w_timers = \<lparr> st_timers = (replicate 16 timer_zero)[5 := tm],
      st_initialized = True, st_in_light_dispatch = False \<rparr>,
    w_trace = \<lparr> tr_buffer = replicate 32 0, tr_count = 0, tr_head = 0, tr_warn_count = 0 \<rparr>, w_env = 0 \<rparr>"

lemma demo_nth: "(replicate 16 timer_zero)[5 := tm] ! j = (if j = 5 then tm else replicate 16 timer_zero ! j)"
  by (cases "j = 5") simp_all

text \<open>Beside it, in slot 3, a timer of one tick, whose callback creates a timer and fails.\<close>

definition demo_other :: wink_timer_cb_t where
  "demo_other = (demo_timer WINK_TIMER_PERIODIC 1 1)\<lparr> tm_callback := Some 4 \<rparr>"

definition demo_calls :: "nat timer_calls" where
  "demo_calls g b w = (if g = 1 \<and> b = 2 then (WINK_OK, 7, w\<lparr> w_env := w_env w + 1 \<rparr>)
     else (WINK_ERR_TIMEOUT, 900, w\<lparr> w_timers := snd (wink_soft_timer_create (Some 4) 0 WINK_TIMER_ONESHOT 10 (w_timers w)) \<rparr>))"

lemma periodic_timer_fires_witness:
  "w_env ((wink_soft_timer_dispatch demo_calls ^^ 10)
     (upd_slot 3 (\<lambda>_. demo_other) (demo_world (demo_timer WINK_TIMER_PERIODIC 3 3)))) = 3"
proof -
  let ?w = "upd_slot 3 (\<lambda>_. demo_other) (demo_world (demo_timer WINK_TIMER_PERIODIC 3 3))"
  have q: "quiet_calls demo_calls id 5 1 2"
    by (auto simp: quiet_calls_def demo_calls_def intro: spares_create split: if_splits)
  have len: "length (st_timers (w_timers (demo_world tm))) = 16" for tm by (simp add: demo_world_def)
  have nth: "st_timers (w_timers ?w) ! j = (if j = 3 then demo_other else if j = 5 then demo_timer WINK_TIMER_PERIODIC 3 3
      else timer_zero)" if "j < 16" for j
    using that by (auto simp: upd_slot_nth len) (simp_all add: demo_world_def demo_nth)
  have others: "tm_callback demo_other = Some 4" "tm_callback timer_zero = None"
    by (simp_all add: demo_other_def timer_zero_def)
  have slots: "st_timers (w_timers ?w) ! 5 = demo_timer WINK_TIMER_PERIODIC 3 3"
    "\<forall>j < 16. j \<noteq> 5 \<longrightarrow> tm_callback (st_timers (w_timers ?w) ! j) \<noteq> Some 1"
    by (simp_all add: nth others)
  have flat: "length (st_timers (w_timers ?w)) = 16" "st_initialized (w_timers ?w)" "w_env ?w = 0"
    by (simp_all add: len demo_world_def)
  have c: "counting id 5 1 2 3 3 0 ?w"
    unfolding counting_def tracking_def Let_def slots(1) WINK_MAX_SOFT_TIMERS_def
    using flat slots(2) by (simp add: demo_timer_def)
  from periodic_timer_fires_once_per_period [OF q _ _ c, of 10] show ?thesis
    by (simp add: WINK_MAX_SOFT_TIMERS_def)
qed

section \<open>One-shot timers\<close>

text \<open>A one-shot timer that fires is inactive afterwards, even when its own callback restarted
  it: a restart from inside the callback is undone by the dispatcher although it was
  acknowledged with \<open>WINK_OK\<close>.\<close>
lemma oneshot_restart_in_callback_is_lost:
  assumes "length (st_timers (w_timers w)) = WINK_MAX_SOFT_TIMERS" "i < WINK_MAX_SOFT_TIMERS"
    and "st_initialized (w_timers w)"
    and "tm_callback (st_timers (w_timers w) ! i) = Some f" "tm_active (st_timers (w_timers w) ! i)"
    and "tm_remaining_ticks (st_timers (w_timers w) ! i) = 1"
    and "tm_mode (st_timers (w_timers w) ! i) = WINK_TIMER_ONESHOT"
    and restarts: "\<And>v. call f (tm_arg (st_timers (w_timers w) ! i)) v
        = (WINK_OK, us, v\<lparr> w_timers := snd (wink_soft_timer_start (int i) (w_timers v)) \<rparr>)"
  shows "fst (wink_soft_timer_start (int i) (w_timers w)) = WINK_OK
    \<and> \<not> tm_active (st_timers (w_timers (dispatch_slot call i w)) ! i)"
proof -
  let ?u = "upd_slot i (\<lambda>tm. tm\<lparr> tm_remaining_ticks := tm_remaining_ticks tm - 1 \<rparr>) w"
  let ?v = "set_light True ?u"
  let ?v' = "?v\<lparr> w_timers := snd (wink_soft_timer_start (int i) (w_timers ?v)) \<rparr>"
  have i: "i < length (st_timers (w_timers w))" using assms(1,2) by simp
  have good: "\<not> bad_handle (int i) (w_timers ?v)" "\<not> bad_handle (int i) (w_timers w)"
    using assms(2,3) by (simp_all add: bad_handle_def)
  have cb: "tm_callback (timer_at (w_timers ?v) (int i)) = Some f"
    using i assms(4) by (simp add: upd_slot_nth)
  have len': "length (st_timers (w_timers ?v')) = length (st_timers (w_timers w))"
    by (simp add: wink_soft_timer_start_def)
  have mode: "tm_mode (st_timers (w_timers ?v') ! i) = WINK_TIMER_ONESHOT"
    using good(1) cb i assms(7) by (simp add: wink_soft_timer_start_def upd_slot_nth)
  have len: "i < length (st_timers (w_timers (set_light False ?v')))" using len' i by simp
  obtain x where x: "st_timers (w_timers (account_overrun i us (set_light False ?v'))) ! i
      = (st_timers (w_timers ?v') ! i)\<lparr> tm_overruns := x \<rparr>"
    using account_overrun_nth [OF len, of i us] by auto
  have fire: "dispatch_slot call i w = fire_slot call i ?u"
    using assms(4,5,6) i by (simp add: dispatch_slot_def Let_def upd_slot_nth word_gt_0)
  have call: "call (the (tm_callback (st_timers (w_timers ?u) ! i))) (tm_arg (st_timers (w_timers ?u) ! i)) ?v
      = (WINK_OK, us, ?v')"
    using restarts [of ?v] i assms(4) by (simp add: upd_slot_nth)
  have "\<not> tm_active (st_timers (w_timers (fire_slot call i ?u)) ! i)"
    unfolding fire_slot_def Let_def call prod.case
    using len x mode by (subst upd_slot_nth) simp_all
  moreover have "fst (wink_soft_timer_start (int i) (w_timers w)) = WINK_OK"
    using good(2) assms(4) by (simp add: wink_soft_timer_start_def)
  ultimately show ?thesis using fire by simp
qed

lemma oneshot_restart_witness:
  "\<not> tm_active (st_timers (w_timers (dispatch_slot
      (\<lambda>g b w. (WINK_OK, 7, w\<lparr> w_timers := snd (wink_soft_timer_start 5 (w_timers w)) \<rparr>))
      5 (demo_world (demo_timer WINK_TIMER_ONESHOT 3 1)))) ! 5)"
  using oneshot_restart_in_callback_is_lost [where i = 5 and f = 1 and us = 7
      and w = "demo_world (demo_timer WINK_TIMER_ONESHOT 3 1)"
      and call = "\<lambda>g b w. (WINK_OK, 7, w\<lparr> w_timers := snd (wink_soft_timer_start 5 (w_timers w)) \<rparr>)"]
  by (simp add: demo_world_def demo_timer_def WINK_MAX_SOFT_TIMERS_def)

section \<open>Well-formedness\<close>

lemma timers_wf_upd_slot:
  assumes "timers_wf (w_timers w)" "i < WINK_MAX_SOFT_TIMERS"
    "timer_ok (g (st_timers (w_timers w) ! i))"
  shows "timers_wf (w_timers (upd_slot i g w))"
  using assms by (simp add: upd_slot_def timers_wf_put)

lemma timers_wf_set_light: "timers_wf (w_timers (set_light b w)) = timers_wf (w_timers w)"
  by (simp add: set_light_def)

lemma timers_wf_overrun:
  assumes "timers_wf (w_timers w)" "i < WINK_MAX_SOFT_TIMERS"
  shows "timers_wf (w_timers (account_overrun i us w))"
proof -
  have inc: "timers_wf (w_timers (upd_slot i (\<lambda>tm. tm\<lparr> tm_overruns := tm_overruns tm + 1 \<rparr>) v))"
    if "timers_wf (w_timers v)" for v :: "'a timer_world"
    by (rule timers_wf_upd_slot [OF that assms(2)])
       (use timers_wf_at [OF that assms(2)] in \<open>simp add: timer_ok_def\<close>)
  have clr: "timers_wf (w_timers (upd_slot i (tm_overruns_update (\<lambda>_. 0)) v))"
    if "timers_wf (w_timers v)" for v :: "'a timer_world"
    by (rule timers_wf_upd_slot [OF that assms(2)])
       (use timers_wf_at [OF that assms(2)] in \<open>simp add: timer_ok_def\<close>)
  show ?thesis using assms(1) by (simp add: account_overrun_def Let_def inc clr)
qed

lemma timers_wf_dispatch_slot:
  assumes "\<And>g b v. timers_wf (w_timers v) \<Longrightarrow> timers_wf (w_timers (snd (snd (call g b v))))"
    and "timers_wf (w_timers w)" "i < WINK_MAX_SOFT_TIMERS"
  shows "timers_wf (w_timers (dispatch_slot call i w))"
proof -
  have fire: "timers_wf (w_timers (fire_slot call i v))" if "timers_wf (w_timers v)" for v
  proof -
    let ?tm = "st_timers (w_timers v) ! i"
    obtain status us v' where c: "call (the (tm_callback ?tm)) (tm_arg ?tm) (set_light True v) = (status, us, v')"
      by (cases "call (the (tm_callback ?tm)) (tm_arg ?tm) (set_light True v)" rule: prod_cases3) (rule that)
    have "timers_wf (w_timers v')"
      using assms(1) [of "set_light True v" "the (tm_callback ?tm)" "tm_arg ?tm"] that
      by (simp add: timers_wf_set_light c)
    then have "timers_wf (w_timers (account_overrun i us (set_light False v')))"
      using assms(3) by (intro timers_wf_overrun) (simp_all add: timers_wf_set_light)
    from timers_wf_upd_slot [OF this assms(3)] timers_wf_at [OF this assms(3)] show ?thesis
      by (simp add: fire_slot_def Let_def c timer_ok_def)
  qed
  have ok: "timer_ok (st_timers (w_timers w) ! i)" using timers_wf_at [OF assms(2,3)] .
  have "timers_wf (w_timers (upd_slot i (\<lambda>tm. tm\<lparr> tm_remaining_ticks := tm_remaining_ticks tm - 1 \<rparr>) w))"
    if "tm_remaining_ticks (st_timers (w_timers w) ! i) > 0"
  proof (rule timers_wf_upd_slot [OF assms(2,3)])
    have "unat (tm_remaining_ticks (st_timers (w_timers w) ! i) - 1)
        \<le> unat (tm_remaining_ticks (st_timers (w_timers w) ! i))"
      using that by (metis diff_le_self unat_minus_one word_not_simps(1))
    then show "timer_ok ((st_timers (w_timers w) ! i)\<lparr> tm_remaining_ticks :=
        tm_remaining_ticks (st_timers (w_timers w) ! i) - 1 \<rparr>)"
      using ok by (auto simp: timer_ok_def word_le_nat_alt)
  qed
  with assms(2) fire show ?thesis by (simp add: dispatch_slot_def Let_def)
qed

text \<open>C9: every timer operation and the dispatch of a tick keep the table well formed, if the
  callbacks only use the timer operations: sixteen slots, an active timer has a callback and at
  most one period left, and no occupied slot has a zero period.\<close>
theorem soft_timer_dispatch_keeps_table:
  assumes "\<And>g b v. timers_wf (w_timers v) \<Longrightarrow> timers_wf (w_timers (snd (snd (call g b v))))"
    and "timers_wf (w_timers w)"
  shows "timers_wf (w_timers (wink_soft_timer_dispatch call w))
    \<and> timers_wf (snd (wink_soft_timer_create cb arg mode ms (w_timers w)))
    \<and> timers_wf (snd (wink_soft_timer_start h (w_timers w)))
    \<and> timers_wf (snd (wink_soft_timer_stop h (w_timers w)))
    \<and> timers_wf (snd (wink_soft_timer_change_period h ms (w_timers w)))
    \<and> timers_wf (snd (wink_soft_timer_destroy h (w_timers w)))"
proof -
  have step: "timers_wf (w_timers (dispatch_slot call j v))"
    if "timers_wf (w_timers v)" "j < WINK_MAX_SOFT_TIMERS" for j v
    by (rule timers_wf_dispatch_slot) (use that assms(1) in auto)
  have "timers_wf (w_timers (fold (dispatch_slot call) js w))"
    if "\<forall>j \<in> set js. j < WINK_MAX_SOFT_TIMERS" "timers_wf (w_timers w)" for js w
    using that by (induction js arbitrary: w) (auto intro: step)
  then show ?thesis using assms(2) by (simp add: wink_soft_timer_dispatch_def timers_wf_ops)
qed

lemma soft_timer_dispatch_keeps_table_witness:
  "timers_wf (w_timers (wink_soft_timer_dispatch
      (\<lambda>g b w. (WINK_OK, 900, w\<lparr> w_timers := snd (wink_soft_timer_stop 5 (w_timers w)) \<rparr>))
      (demo_world (demo_timer WINK_TIMER_PERIODIC 1 1))))"
proof -
  have "timers_wf (w_timers (demo_world (demo_timer WINK_TIMER_PERIODIC 1 1)))"
    by (auto simp: timers_wf_def demo_world_def demo_timer_def timer_ok_def timer_zero_def
        WINK_MAX_SOFT_TIMERS_def dest!: set_update_subset_insert [THEN subsetD])
  then show ?thesis
    by (intro soft_timer_dispatch_keeps_table [THEN conjunct1]) (simp_all add: timers_wf_stop)
qed

end
