(* ===== verification/Actuator_Registry.thy ===== *)
theory Actuator_Registry
  imports Trace
begin

text \<open>
  The safe-off registry of \<^verbatim>\<open>runtime/src/wink_actuator_registry.c\<close>: a static table of callback
  and context pairs the fail-safe path runs through. A callback pointer is \<open>None\<close> for \<^verbatim>\<open>NULL\<close>;
  what the callbacks do is a parameter that acts on the state \<open>'s\<close> of the devices.
\<close>

record wink_actuator_entry_t =
  ae_fn :: nat
  ae_ctx :: nat

record actuator_registry =
  ar_entries :: "wink_actuator_entry_t list"
  ar_count :: nat

definition WINK_ACTUATOR_REGISTRY_CAPACITY :: nat where
  "WINK_ACTUATOR_REGISTRY_CAPACITY = 16"

definition wink_actuator_registry_reset :: "actuator_registry \<Rightarrow> actuator_registry" where
  "wink_actuator_registry_reset r = r\<lparr> ar_count := 0 \<rparr>"

definition entry_is :: "nat \<Rightarrow> nat \<Rightarrow> wink_actuator_entry_t \<Rightarrow> bool" where
  "entry_is f ctx e \<longleftrightarrow> ae_fn e = f \<and> ae_ctx e = ctx"

definition wink_actuator_register ::
  "nat option \<Rightarrow> nat \<Rightarrow> actuator_registry \<Rightarrow> wink_status_t \<times> actuator_registry" where
  "wink_actuator_register fn ctx r =
    (case fn of None \<Rightarrow> (WINK_ERR_INVALID_ARG, r)
     | Some f \<Rightarrow>
       if first_slot (entry_is f ctx) (take (ar_count r) (ar_entries r)) \<noteq> None then (WINK_OK, r)
       else if ar_count r \<ge> WINK_ACTUATOR_REGISTRY_CAPACITY then (WINK_ERR_RESOURCE_EXHAUSTED, r)
       else (WINK_OK, r\<lparr> ar_entries := (ar_entries r)[ar_count r := \<lparr> ae_fn = f, ae_ctx = ctx \<rparr>],
                         ar_count := ar_count r + 1 \<rparr>))"

text \<open>The inner loop of the removal: shift the entries after the removed one down by one.\<close>

fun shift_down :: "nat \<Rightarrow> nat \<Rightarrow> 'a list \<Rightarrow> 'a list" where
  "shift_down 0 j es = es"
| "shift_down (Suc n) j es = shift_down n (Suc j) (es[j - 1 := es ! j])"

definition wink_actuator_unregister ::
  "nat option \<Rightarrow> nat \<Rightarrow> actuator_registry \<Rightarrow> wink_status_t \<times> actuator_registry" where
  "wink_actuator_unregister fn ctx r =
    (case (case fn of None \<Rightarrow> None
           | Some f \<Rightarrow> first_slot (entry_is f ctx) (take (ar_count r) (ar_entries r))) of
       None \<Rightarrow> (WINK_ERR_NOT_FOUND, r)
     | Some i \<Rightarrow> (WINK_OK, r\<lparr> ar_entries := shift_down (ar_count r - (i + 1)) (i + 1) (ar_entries r),
                             ar_count := ar_count r - 1 \<rparr>))"

fun safe_off_loop ::
  "(nat \<Rightarrow> nat \<Rightarrow> 's \<Rightarrow> wink_status_t \<times> 's) \<Rightarrow> nat \<Rightarrow> wink_actuator_entry_t list \<Rightarrow> 's \<times> wink_trace
    \<Rightarrow> 's \<times> wink_trace" where
  "safe_off_loop call i [] st = st"
| "safe_off_loop call i (e # es) (s, tr) =
     (let (rc, s) = call (ae_fn e) (ae_ctx e) s;
          tr = (if wink_status_is_error rc then wink_trace_fault (7000 + of_nat i) tr else tr)
      in safe_off_loop call (Suc i) es (s, tr))"

definition wink_actuator_safe_off_all ::
  "(nat \<Rightarrow> nat \<Rightarrow> 's \<Rightarrow> wink_status_t \<times> 's) \<Rightarrow> actuator_registry \<Rightarrow> 's \<times> wink_trace \<Rightarrow> 's \<times> wink_trace"
where
  "wink_actuator_safe_off_all call r st = safe_off_loop call 0 (take (ar_count r) (ar_entries r)) st"

section \<open>The registry as a list without repetitions\<close>

definition ar_inv :: "actuator_registry \<Rightarrow> bool" where
  "ar_inv r \<longleftrightarrow> length (ar_entries r) = WINK_ACTUATOR_REGISTRY_CAPACITY
    \<and> ar_count r \<le> WINK_ACTUATOR_REGISTRY_CAPACITY \<and> distinct (take (ar_count r) (ar_entries r))"

definition ar_list :: "actuator_registry \<Rightarrow> (nat \<times> nat) list" where
  "ar_list r = map (\<lambda>e. (ae_fn e, ae_ctx e)) (take (ar_count r) (ar_entries r))"

lemma entry_is_eq: "entry_is f ctx = (\<lambda>e. e = \<lparr> ae_fn = f, ae_ctx = ctx \<rparr>)"
  by (auto simp: entry_is_def fun_eq_iff)

lemma length_shift_down [simp]: "length (shift_down n j es) = length es"
  by (induction n arbitrary: j es) simp_all

lemma shift_down_nth:
  assumes "0 < j" "j + n \<le> length es" "k < length es"
  shows "shift_down n j es ! k = (if j - 1 \<le> k \<and> k < j - 1 + n then es ! Suc k else es ! k)"
  using assms
proof (induction n arbitrary: j es)
  case (Suc n)
  have "shift_down n (Suc j) (es[j - 1 := es ! j]) ! k
      = (if j \<le> k \<and> k < j + n then es[j - 1 := es ! j] ! Suc k else es[j - 1 := es ! j] ! k)"
    using Suc.IH [of "Suc j" "es[j - 1 := es ! j]"] Suc.prems by simp
  with Suc.prems show ?case by (auto simp: nth_list_update)
qed auto

lemma shift_down_removes:
  assumes "i < c" "c \<le> length es"
  shows "take (c - 1) (shift_down (c - (i + 1)) (i + 1) es) = take i es @ drop (Suc i) (take c es)"
proof (rule nth_equalityI)
  fix k assume k: "k < length (take (c - 1) (shift_down (c - (i + 1)) (i + 1) es))"
  then have lt: "k < c - 1" using assms by simp
  have "shift_down (c - (i + 1)) (i + 1) es ! k = (if i \<le> k then es ! Suc k else es ! k)"
    using shift_down_nth [of "i + 1" "c - (i + 1)" es k] assms lt by auto
  then show "take (c - 1) (shift_down (c - (i + 1)) (i + 1) es) ! k
      = (take i es @ drop (Suc i) (take c es)) ! k"
    using lt assms by (auto simp: nth_append)
qed (use assms in auto)

lemma remove1_first:
  assumes "i < length xs" "xs ! i = x" "\<And>j. j < i \<Longrightarrow> xs ! j \<noteq> x"
  shows "remove1 x xs = take i xs @ drop (Suc i) xs"
  using assms
proof (induction xs arbitrary: i)
  case (Cons y ys)
  show ?case
  proof (cases i)
    case 0
    then show ?thesis using Cons.prems by simp
  next
    case (Suc k)
    have "y \<noteq> x" using Cons.prems(3) [of 0] Suc by simp
    moreover have "remove1 x ys = take k ys @ drop (Suc k) ys"
      using Cons.IH [of k] Cons.prems Suc by force
    ultimately show ?thesis using Suc by simp
  qed
qed simp

lemma remove1_map_inj: "inj g \<Longrightarrow> remove1 (g x) (map g xs) = map g (remove1 x xs)"
  by (induction xs) (auto simp: inj_eq)

lemma register_cases:
  assumes "ar_inv r"
  shows "\<exists>r'. wink_actuator_register (Some f) ctx r =
      (if (f, ctx) \<in> set (ar_list r) then (WINK_OK, r)
       else if length (ar_list r) = WINK_ACTUATOR_REGISTRY_CAPACITY then (WINK_ERR_RESOURCE_EXHAUSTED, r)
       else (WINK_OK, r'))
    \<and> ((f, ctx) \<notin> set (ar_list r) \<longrightarrow> length (ar_list r) < WINK_ACTUATOR_REGISTRY_CAPACITY \<longrightarrow>
        ar_inv r' \<and> ar_list r' = ar_list r @ [(f, ctx)])"
proof -
  let ?es = "take (ar_count r) (ar_entries r)"
  let ?e = "\<lparr> ae_fn = f, ae_ctx = ctx \<rparr>"
  let ?r = "r\<lparr> ar_entries := (ar_entries r)[ar_count r := ?e], ar_count := ar_count r + 1 \<rparr>"
  have mem: "(f, ctx) \<in> set (ar_list r) \<longleftrightarrow> ?e \<in> set ?es"
    by (auto simp: ar_list_def intro!: image_eqI [of _ _ ?e]) (metis wink_actuator_entry_t.surjective old.unit.exhaust)
  have found: "first_slot (entry_is f ctx) ?es \<noteq> None \<longleftrightarrow> ?e \<in> set ?es"
    by (auto simp: first_slot_None entry_is_eq)
  have len: "length (ar_list r) = ar_count r"
    using assms by (simp add: ar_list_def ar_inv_def)
  have "ar_inv ?r \<and> ar_list ?r = ar_list r @ [(f, ctx)]"
    if "?e \<notin> set ?es" "ar_count r < WINK_ACTUATOR_REGISTRY_CAPACITY"
    using assms that by (auto simp: ar_inv_def ar_list_def take_Suc_conv_app_nth)
  then show ?thesis
    using assms len mem found
    by (intro exI [of _ ?r]) (auto simp: wink_actuator_register_def ar_inv_def)
qed

lemma unregister_cases:
  assumes "ar_inv r"
  shows "\<exists>r'. wink_actuator_unregister (Some f) ctx r =
      (if (f, ctx) \<in> set (ar_list r) then (WINK_OK, r') else (WINK_ERR_NOT_FOUND, r))
    \<and> ((f, ctx) \<in> set (ar_list r) \<longrightarrow> ar_inv r' \<and> ar_list r' = remove1 (f, ctx) (ar_list r))"
proof -
  let ?es = "take (ar_count r) (ar_entries r)"
  let ?e = "\<lparr> ae_fn = f, ae_ctx = ctx \<rparr>"
  let ?g = "\<lambda>e. (ae_fn e, ae_ctx e)"
  have mem: "(f, ctx) \<in> set (ar_list r) \<longleftrightarrow> ?e \<in> set ?es"
    by (auto simp: ar_list_def intro!: image_eqI [of _ _ ?e]) (metis wink_actuator_entry_t.surjective old.unit.exhaust)
  show ?thesis
  proof (cases "first_slot (entry_is f ctx) ?es")
    case None
    then have "?e \<notin> set ?es" by (auto simp: first_slot_None entry_is_eq)
    with None mem show ?thesis by (simp add: wink_actuator_unregister_def)
  next
    case (Some i)
    note i = first_slot_SomeD [OF Some]
    have ei: "?es ! i = ?e" and less: "i < ar_count r"
      using i(1,2) by (simp_all add: entry_is_eq)
    have first: "remove1 ?e ?es = take i ?es @ drop (Suc i) ?es"
      by (rule remove1_first [OF i(1) ei]) (use i(3) in \<open>simp add: entry_is_eq\<close>)
    let ?r = "r\<lparr> ar_entries := shift_down (ar_count r - (i + 1)) (i + 1) (ar_entries r),
                ar_count := ar_count r - 1 \<rparr>"
    have le: "ar_count r \<le> length (ar_entries r)" using assms by (simp add: ar_inv_def)
    have es: "take (ar_count ?r) (ar_entries ?r) = remove1 ?e ?es"
      using shift_down_removes [OF less le] first less by (simp add: take_take min_def)
    have "ar_inv ?r"
      using assms es by (auto simp: ar_inv_def distinct_remove1)
    moreover have "ar_list ?r = remove1 (f, ctx) (ar_list r)"
    proof -
      have inj: "inj (?g :: wink_actuator_entry_t \<Rightarrow> nat \<times> nat)" by (auto simp: inj_def intro!: wink_actuator_entry_t.equality)
      have "remove1 (?g ?e) (map ?g ?es) = map ?g (remove1 ?e ?es)"
        by (rule remove1_map_inj [OF inj])
      then show ?thesis using es by (simp add: ar_list_def)
    qed
    moreover have "?e \<in> set ?es" using ei i(1) by (metis nth_mem)
    ultimately show ?thesis
      using Some mem by (intro exI [of _ ?r]) (simp add: wink_actuator_unregister_def)
  qed
qed

section \<open>Properties\<close>

text \<open>Registering and unregistering refine a list without repetitions of at most 16
  callback/context pairs: registering an entry twice is idempotent, a full registry refuses,
  removal deletes exactly that entry and keeps the order of the others.\<close>
lemma actuator_registry_refines:
  assumes "ar_inv r"
  shows "\<exists>r1 r2. wink_actuator_register (Some f) ctx r =
      (if (f, ctx) \<in> set (ar_list r) then (WINK_OK, r)
       else if length (ar_list r) = WINK_ACTUATOR_REGISTRY_CAPACITY then (WINK_ERR_RESOURCE_EXHAUSTED, r)
       else (WINK_OK, r1))
    \<and> ((f, ctx) \<notin> set (ar_list r) \<longrightarrow> length (ar_list r) < WINK_ACTUATOR_REGISTRY_CAPACITY \<longrightarrow>
        ar_inv r1 \<and> ar_list r1 = ar_list r @ [(f, ctx)])
    \<and> wink_actuator_unregister (Some f) ctx r =
      (if (f, ctx) \<in> set (ar_list r) then (WINK_OK, r2) else (WINK_ERR_NOT_FOUND, r))
    \<and> ((f, ctx) \<in> set (ar_list r) \<longrightarrow> ar_inv r2 \<and> ar_list r2 = remove1 (f, ctx) (ar_list r))"
  using register_cases [OF assms, of f ctx] unregister_cases [OF assms, of f ctx] by blast

definition empty_registry :: actuator_registry where
  "empty_registry = \<lparr> ar_entries = replicate 16 \<lparr> ae_fn = 0, ae_ctx = 0 \<rparr>, ar_count = 0 \<rparr>"

lemma empty_registry_inv: "ar_inv empty_registry"
  by (simp add: ar_inv_def empty_registry_def WINK_ACTUATOR_REGISTRY_CAPACITY_def)

lemma actuator_registry_refines_witness:
  "\<exists>r1. wink_actuator_register (Some 3) 4 empty_registry = (WINK_OK, r1) \<and> ar_list r1 = [(3, 4)]"
  using actuator_registry_refines [OF empty_registry_inv, of 3 4]
  by (auto simp: ar_list_def empty_registry_def WINK_ACTUATOR_REGISTRY_CAPACITY_def)

text \<open>The fail-safe sweep as a specification: call every entry once, in order of registration,
  and collect the status each returned.\<close>

fun call_all :: "(nat \<Rightarrow> nat \<Rightarrow> 's \<Rightarrow> wink_status_t \<times> 's) \<Rightarrow> (nat \<times> nat) list \<Rightarrow> 's \<Rightarrow> wink_status_t list \<times> 's"
where
  "call_all call [] s = ([], s)"
| "call_all call ((f, c) # es) s =
     (let (rc, s) = call f c s; (rcs, s) = call_all call es s in (rc # rcs, s))"

definition fault_codes :: "nat \<Rightarrow> wink_status_t list \<Rightarrow> u32 list" where
  "fault_codes i rcs = map (\<lambda>(j, rc). 7000 + of_nat j)
     (filter (\<lambda>(j, rc). rc \<noteq> WINK_OK) (zip [i ..< i + length rcs] rcs))"

lemma fault_codes_Cons:
  "fault_codes i (rc # rcs) = (if rc \<noteq> WINK_OK then [7000 + of_nat i] else []) @ fault_codes (Suc i) rcs"
  by (simp add: fault_codes_def upt_conv_Cons del: upt_Suc)

lemma length_call_all: "length (fst (call_all call es s)) = length es"
  by (induction call es s rule: call_all.induct) (auto split: prod.splits)

lemma safe_off_loop_spec:
  "safe_off_loop call i es (s, tr) =
    (let (rcs, s') = call_all call (map (\<lambda>e. (ae_fn e, ae_ctx e)) es) s
     in (s', fold wink_trace_fault (fault_codes i rcs) tr))"
proof (induction es arbitrary: i s tr)
  case Nil
  then show ?case by (simp add: fault_codes_def)
next
  case (Cons e es)
  obtain rc s1 where "call (ae_fn e) (ae_ctx e) s = (rc, s1)" by fastforce
  then show ?case by (simp add: Cons fault_codes_Cons split: prod.split)
qed

text \<open>The fail-safe sweep calls every registered actuator exactly once, in order of
  registration, whatever earlier calls returned, and records the fault \<open>7000 + i\<close> for exactly
  those entries \<open>i\<close> whose callback failed.\<close>
lemma safe_off_all_reaches_every_actuator:
  "wink_actuator_safe_off_all call r (s, tr) =
    (let (rcs, s') = call_all call (ar_list r) s
     in (s', fold wink_trace_fault (fault_codes 0 rcs) tr))"
  by (simp add: wink_actuator_safe_off_all_def ar_list_def safe_off_loop_spec)

end
