(* ===== verification/Runtime.thy ===== *)
theory Runtime
  imports Event_Queue Soft_Timer Actuator_Registry
begin

text \<open>
  The main loop of \<^verbatim>\<open>runtime/src/wink_runtime.c\<close>: the boot sequence with its safe-lock, the
  tick (timers, polls, events, application loop, sleep), the fault path and the poll table.
  The world is the timer world of \<^verbatim>\<open>Soft_Timer\<close> whose environment holds the event queue, the
  actuator registry, the poll table, the clock and the boot counters. Function pointers are
  numbers; what they do, and what happens while the task is blocked, is the parameter record
  \<open>rt_calls\<close>. The build modelled is the one without \<^verbatim>\<open>SIMULATION\<close>; the simulation runs the
  same tick in a fiber (\<open>sim_app_main_task\<close>).
\<close>

section \<open>Data\<close>

datatype pal_os_reset_reason_t =
    PAL_OS_RESET_REASON_UNKNOWN
  | PAL_OS_RESET_REASON_POWER_ON
  | PAL_OS_RESET_REASON_WATCHDOG
  | PAL_OS_RESET_REASON_PANIC
  | PAL_OS_RESET_REASON_SOFTWARE
  | PAL_OS_RESET_REASON_BROWNOUT

datatype wink_reset_reason_t =
    WINK_RESET_REASON_UNKNOWN
  | WINK_RESET_REASON_POWER_ON
  | WINK_RESET_REASON_WATCHDOG
  | WINK_RESET_REASON_PANIC
  | WINK_RESET_REASON_SOFTWARE
  | WINK_RESET_REASON_BROWNOUT

record wink_boot_info_t =
  bi_reset_reason :: wink_reset_reason_t
  bi_abnormal_boot_count :: u32
  bi_is_healthy_recovery :: bool
  bi_uptime_ms :: u32

record wink_app_callbacks_t =
  cb_init :: "nat option"
  cb_loop :: "nat option"
  cb_on_fault :: "nat option"
  cb_on_boot :: "nat option"
  cb_init_status :: "nat option"
  cb_on_fault_status :: "nat option"
  cb_on_event :: "nat option"

record poll_cb =
  pc_fn :: nat
  pc_ctx :: nat

record 's rt_env =
  re_queue :: event_queue
  re_registry :: actuator_registry
  re_polls :: "poll_cb list"
  re_poll_count :: nat
  re_active :: "wink_app_callbacks_t option"
  re_now_us :: u64
  re_reset_reason :: pal_os_reset_reason_t
  re_abnormal :: u32
  re_app :: 's

type_synonym 's world = "'s rt_env timer_world"

text \<open>What the code behind the pointers does. \<open>rt_pend\<close> is what the OSAL semaphore does while
  the loop waits for an event, \<open>rt_wait\<close> how the world moves on during a sleep.\<close>

record 's rt_calls =
  rt_timer :: "'s rt_env timer_calls"
  rt_actuator :: "nat \<Rightarrow> nat \<Rightarrow> 's rt_env \<Rightarrow> wink_status_t \<times> 's rt_env"
  rt_void :: "nat \<Rightarrow> 's world \<Rightarrow> 's world"
  rt_status :: "nat \<Rightarrow> 's world \<Rightarrow> wink_status_t \<times> 's world"
  rt_fault :: "nat \<Rightarrow> u32 \<Rightarrow> 's world \<Rightarrow> 's world"
  rt_fault_status :: "nat \<Rightarrow> u32 \<Rightarrow> 's world \<Rightarrow> wink_status_t \<times> 's world"
  rt_boot :: "nat \<Rightarrow> wink_boot_info_t \<Rightarrow> 's world \<Rightarrow> 's world"
  rt_event :: "nat \<Rightarrow> wink_event_t \<Rightarrow> 's world \<Rightarrow> 's world"
  rt_poll :: "nat \<Rightarrow> nat \<Rightarrow> 's world \<Rightarrow> 's world"
  rt_pend :: "'s world \<Rightarrow> pend_env"
  rt_wait :: "u32 \<Rightarrow> 's world \<Rightarrow> 's world"
  rt_struct_ok :: bool
  rt_malloc :: "u32 \<Rightarrow> u8 list option"
  rt_sem_create :: "nat option"

definition WINK_MAX_POLL_CBS :: nat where "WINK_MAX_POLL_CBS = 16"
definition WINK_BOOT_LOCK_THRESHOLD :: u32 where "WINK_BOOT_LOCK_THRESHOLD = 3"
definition WINK_BOOT_HEALTHY_TICKS :: u32 where "WINK_BOOT_HEALTHY_TICKS = 200"
definition WINK_EVENT_QUEUE_DEFAULT_CAPACITY :: u32 where "WINK_EVENT_QUEUE_DEFAULT_CAPACITY = 32"
definition WINK_FAULT_BOOT_AFTER_RESET :: u32 where "WINK_FAULT_BOOT_AFTER_RESET = 8001"
definition WINK_WARN_WCET_EXCEEDED :: u32 where "WINK_WARN_WCET_EXCEEDED = 8002"
definition WINK_WARN_TICK_OVERRUN :: u32 where "WINK_WARN_TICK_OVERRUN = 8003"

definition WINK_FAULT_RUNTIME :: "u32 \<Rightarrow> u32" where
  "WINK_FAULT_RUNTIME n = 8000 + n"

abbreviation now_us :: "'s world \<Rightarrow> u64" where
  "now_us w \<equiv> re_now_us (w_env w)"

abbreviation upd_env :: "('s rt_env \<Rightarrow> 's rt_env) \<Rightarrow> 's world \<Rightarrow> 's world" where
  "upd_env f w \<equiv> w\<lparr> w_env := f (w_env w) \<rparr>"

abbreviation set_abnormal :: "u32 \<Rightarrow> 's world \<Rightarrow> 's world" where
  "set_abnormal n w \<equiv> upd_env (\<lambda>e. e\<lparr> re_abnormal := n \<rparr>) w"

abbreviation set_queue :: "event_queue \<Rightarrow> 's world \<Rightarrow> 's world" where
  "set_queue q w \<equiv> upd_env (\<lambda>e. e\<lparr> re_queue := q \<rparr>) w"

abbreviation warn :: "u32 \<Rightarrow> 's world \<Rightarrow> 's world" where
  "warn c w \<equiv> w\<lparr> w_trace := wink_trace_warn c (w_trace w) \<rparr>"

section \<open>Faults and polls\<close>

primrec map_reset_reason :: "pal_os_reset_reason_t \<Rightarrow> wink_reset_reason_t" where
  "map_reset_reason PAL_OS_RESET_REASON_UNKNOWN = WINK_RESET_REASON_UNKNOWN"
| "map_reset_reason PAL_OS_RESET_REASON_POWER_ON = WINK_RESET_REASON_POWER_ON"
| "map_reset_reason PAL_OS_RESET_REASON_WATCHDOG = WINK_RESET_REASON_WATCHDOG"
| "map_reset_reason PAL_OS_RESET_REASON_PANIC = WINK_RESET_REASON_PANIC"
| "map_reset_reason PAL_OS_RESET_REASON_SOFTWARE = WINK_RESET_REASON_SOFTWARE"
| "map_reset_reason PAL_OS_RESET_REASON_BROWNOUT = WINK_RESET_REASON_BROWNOUT"

definition wink_runtime_invoke_init ::
  "'s rt_calls \<Rightarrow> wink_app_callbacks_t \<Rightarrow> 's world \<Rightarrow> wink_status_t \<times> 's world" where
  "wink_runtime_invoke_init c cb w =
    (case cb_init_status cb of Some f \<Rightarrow> rt_status c f w
     | None \<Rightarrow> (case cb_init cb of Some f \<Rightarrow> (WINK_OK, rt_void c f w) | None \<Rightarrow> (WINK_OK, w)))"

definition wink_runtime_invoke_on_fault ::
  "'s rt_calls \<Rightarrow> wink_app_callbacks_t \<Rightarrow> u32 \<Rightarrow> 's world \<Rightarrow> wink_status_t \<times> 's world" where
  "wink_runtime_invoke_on_fault c cb code w =
    (case cb_on_fault_status cb of Some f \<Rightarrow> rt_fault_status c f code w
     | None \<Rightarrow> (case cb_on_fault cb of Some f \<Rightarrow> (WINK_OK, rt_fault c f code w)
                | None \<Rightarrow> (WINK_OK, w)))"

definition wink_runtime_fault ::
  "'s rt_calls \<Rightarrow> wink_app_callbacks_t option \<Rightarrow> u32 \<Rightarrow> 's world \<Rightarrow> 's world" where
  "wink_runtime_fault c cbs fault_code w =
    (let tr = wink_trace_fault fault_code (w_trace w);
         (e, tr) = wink_actuator_safe_off_all (rt_actuator c) (re_registry (w_env w)) (w_env w, tr);
         w = w\<lparr> w_env := e, w_trace := tr \<rparr>
     in case cbs of None \<Rightarrow> w
        | Some cb \<Rightarrow> snd (wink_runtime_invoke_on_fault c cb fault_code w))"

definition wink_runtime_raise_fault :: "'s rt_calls \<Rightarrow> u32 \<Rightarrow> 's world \<Rightarrow> 's world" where
  "wink_runtime_raise_fault c fault_code w = wink_runtime_fault c (re_active (w_env w)) fault_code w"

definition wink_runtime_register_poll ::
  "nat option \<Rightarrow> nat \<Rightarrow> 's world \<Rightarrow> wink_status_t \<times> 's world" where
  "wink_runtime_register_poll fn ctx w =
    (case fn of None \<Rightarrow> (WINK_ERR_INVALID_ARG, w)
     | Some f \<Rightarrow>
       if re_poll_count (w_env w) \<ge> WINK_MAX_POLL_CBS then (WINK_ERR_RESOURCE_EXHAUSTED, w)
       else (WINK_OK, upd_env (\<lambda>e. e\<lparr>
               re_polls := (re_polls e)[re_poll_count e := \<lparr> pc_fn = f, pc_ctx = ctx \<rparr>],
               re_poll_count := re_poll_count e + 1 \<rparr>) w))"

text \<open>The poll loop reads the count in every turn, so a poll that registers another one has it
  called in the same tick; at most 16 turns are possible.\<close>

fun poll_loop :: "'s rt_calls \<Rightarrow> nat \<Rightarrow> nat \<Rightarrow> 's world \<Rightarrow> 's world" where
  "poll_loop c 0 i w = w"
| "poll_loop c (Suc n) i w =
     (if i < re_poll_count (w_env w)
      then let p = re_polls (w_env w) ! i
           in poll_loop c n (Suc i) (rt_poll c (pc_fn p) (pc_ctx p) w)
      else w)"

definition run_polls :: "'s rt_calls \<Rightarrow> 's world \<Rightarrow> 's world" where
  "run_polls c w = poll_loop c WINK_MAX_POLL_CBS 0 w"

definition wink_runtime_monitor_wcet_loop :: "'s rt_calls \<Rightarrow> nat option \<Rightarrow> 's world \<Rightarrow> 's world" where
  "wink_runtime_monitor_wcet_loop c callback w =
    (case callback of None \<Rightarrow> w
     | Some f \<Rightarrow>
       let start_us = now_us w;
           w = rt_void c f w;
           elapsed_us = now_us w - start_us
       in if elapsed_us > ucast (WINK_RUNTIME_TICK_MS * 1000 div 2) then warn WINK_WARN_WCET_EXCEEDED w else w)"

definition wink_app_delay_ms :: "'s rt_calls \<Rightarrow> u32 \<Rightarrow> 's world \<Rightarrow> 's world" where
  "wink_app_delay_ms c ms w = rt_wait c ms w"

section \<open>The tick\<close>

text \<open>The event on the stack of the loop before anything is received into it.\<close>

definition stack_event :: wink_event_t where
  "stack_event = \<lparr> ev_type = 0, ev_device = 0, ev_param = 0, ev_pad = 0, ev_timestamp = 0 \<rparr>"

partial_function (option) drain_events :: "'s rt_calls \<Rightarrow> nat \<Rightarrow> 's world \<Rightarrow> 's world option" where
  "drain_events c on_event w =
    Option.bind (wink_event_pend (rt_pend c w) (now_us w div 1000) (Some stack_event) 0 (re_queue (w_env w)))
      (\<lambda>(st, ev, q).
        if st = WINK_OK then drain_events c on_event (rt_event c on_event (the ev) (set_queue q w))
        else Some (set_queue q w))"

definition sleep_until_tick ::
  "'s rt_calls \<Rightarrow> wink_app_callbacks_t \<Rightarrow> u32 \<Rightarrow> 's world \<Rightarrow> 's world option" where
  "sleep_until_tick c cb sleep_ms w =
    (case cb_on_event cb of
       Some f \<Rightarrow>
         map_option (\<lambda>(st, ev, q).
             let w = set_queue q (rt_wait c sleep_ms w)
             in if st = WINK_OK then rt_event c f (the ev) w else w)
           (wink_event_pend (rt_pend c w) (now_us w div 1000) (Some stack_event) sleep_ms (re_queue (w_env w)))
     | None \<Rightarrow> Some (wink_app_delay_ms c sleep_ms w))"

text \<open>What follows the application's loop callback in a tick that began at \<open>tick_start_us\<close>.\<close>

definition tick_end :: "'s rt_calls \<Rightarrow> wink_app_callbacks_t \<Rightarrow> u32 \<Rightarrow> u64 \<Rightarrow> 's world \<Rightarrow> 's world option" where
  "tick_end c cb tick tick_start_us w =
    (let tick_elapsed_us = now_us w - tick_start_us;
         w = (if tick_elapsed_us > ucast (WINK_RUNTIME_TICK_MS * 1000) then warn WINK_WARN_TICK_OVERRUN w else w);
         w = (if tick = WINK_BOOT_HEALTHY_TICKS then set_abnormal 0 w else w);
         elapsed_ms = ucast (tick_elapsed_us div 1000) :: u32;
         sleep_ms = (if elapsed_ms < WINK_RUNTIME_TICK_MS then WINK_RUNTIME_TICK_MS - elapsed_ms else 0)
     in if sleep_ms > 0 then sleep_until_tick c cb sleep_ms w else Some w)"

definition runtime_tick :: "'s rt_calls \<Rightarrow> wink_app_callbacks_t \<Rightarrow> u32 \<Rightarrow> 's world \<Rightarrow> 's world option" where
  "runtime_tick c cb tick w =
    (let tick_start_us = now_us w;
         w = wink_soft_timer_dispatch (rt_timer c) w;
         w = run_polls c w
     in Option.bind (case cb_on_event cb of Some f \<Rightarrow> drain_events c f w | None \<Rightarrow> Some w)
          (\<lambda>w. tick_end c cb tick tick_start_us (wink_runtime_monitor_wcet_loop c (cb_loop cb) w)))"

text \<open>The fiber of the simulation build runs the tick for ever: its first \<open>n\<close> turns.\<close>

primrec sim_app_main_task :: "'s rt_calls \<Rightarrow> wink_app_callbacks_t \<Rightarrow> nat \<Rightarrow> u32 \<Rightarrow> 's world \<Rightarrow> 's world option" where
  "sim_app_main_task c cb 0 tick w = Some w"
| "sim_app_main_task c cb (Suc n) tick w =
     Option.bind (runtime_tick c cb tick w) (sim_app_main_task c cb n (tick + 1))"

partial_function (option) run_loop ::
  "'s rt_calls \<Rightarrow> wink_app_callbacks_t \<Rightarrow> u32 \<Rightarrow> u32 \<Rightarrow> 's world \<Rightarrow> 's world option" where
  "run_loop c cb max_ticks tick w =
    (if max_ticks = 0 \<or> tick < max_ticks
     then Option.bind (runtime_tick c cb tick w) (run_loop c cb max_ticks (tick + 1))
     else Some w)"

section \<open>Boot\<close>

text \<open>The safe-lock decision: \<open>True\<close> when the boot is locked.\<close>

definition boot_lock :: "'s rt_calls \<Rightarrow> wink_app_callbacks_t \<Rightarrow> 's world \<Rightarrow> bool \<times> 's world" where
  "boot_lock c cb w =
    (let rr = re_reset_reason (w_env w)
     in if rr = PAL_OS_RESET_REASON_POWER_ON then (False, set_abnormal 0 w)
        else if rr = PAL_OS_RESET_REASON_WATCHDOG \<or> rr = PAL_OS_RESET_REASON_PANIC
        then let abnormal = re_abnormal (w_env w) + 1;
                 w = set_abnormal abnormal w
             in if abnormal \<ge> WINK_BOOT_LOCK_THRESHOLD
                then (True, wink_runtime_fault c (Some cb) WINK_FAULT_BOOT_AFTER_RESET w)
                else (False, w)
        else (False, w))"

definition boot_info :: "'s world \<Rightarrow> wink_boot_info_t" where
  "boot_info w =
    (let rr = re_reset_reason (w_env w); n = re_abnormal (w_env w)
     in \<lparr> bi_reset_reason = map_reset_reason rr, bi_abnormal_boot_count = n,
          bi_is_healthy_recovery = ((rr = PAL_OS_RESET_REASON_POWER_ON \<or> rr = PAL_OS_RESET_REASON_SOFTWARE
            \<or> rr = PAL_OS_RESET_REASON_BROWNOUT \<or> rr = PAL_OS_RESET_REASON_UNKNOWN) \<and> n = 0),
          bi_uptime_ms = 0 \<rparr>)"

definition run_init :: "'s rt_calls \<Rightarrow> wink_app_callbacks_t \<Rightarrow> 's world \<Rightarrow> wink_status_t \<times> 's world" where
  "run_init c cb w =
    (let t0 = now_us w;
         (init_st, w) = wink_runtime_invoke_init c cb w;
         w = (if now_us w - t0 > ucast (WINK_RUNTIME_TICK_MS * 1000 div 2) then warn WINK_WARN_WCET_EXCEEDED w else w)
     in if wink_status_is_error init_st
        then let w = wink_runtime_fault c (Some cb) (WINK_FAULT_RUNTIME 50) w
             in (init_st, set_queue (wink_event_queue_deinit (re_queue (w_env w))) w)
        else (WINK_OK, w))"

definition wink_runtime_run ::
  "'s rt_calls \<Rightarrow> wink_app_callbacks_t option \<Rightarrow> u32 \<Rightarrow> 's world \<Rightarrow> (wink_status_t \<times> 's world) option" where
  "wink_runtime_run c callbacks max_ticks w =
    (case callbacks of None \<Rightarrow> Some (WINK_ERR_INVALID_ARG, w)
     | Some cb \<Rightarrow>
       let w = upd_env (\<lambda>e. e\<lparr> re_active := Some cb \<rparr>) w;
           (locked, w) = boot_lock c cb w
       in if locked then Some (WINK_ERR_LOCKED, w)
          else let (st_init, ts) = wink_soft_timer_init (w_timers w);
                   w = w\<lparr> w_timers := ts \<rparr>
               in if wink_status_is_error st_init then Some (st_init, w)
                  else let (st_ev, q) = wink_event_queue_init (rt_struct_ok c) (rt_malloc c) (rt_sem_create c)
                             WINK_EVENT_QUEUE_DEFAULT_CAPACITY (re_queue (w_env w));
                           w = set_queue q w
                       in if wink_status_is_error st_ev then Some (st_ev, w)
                          else let w = (case cb_on_boot cb of Some f \<Rightarrow> rt_boot c f (boot_info w) w | None \<Rightarrow> w);
                                   (st, w) = run_init c cb w
                               in if wink_status_is_error st then Some (st, w)
                                  else map_option
                                    (\<lambda>w. (WINK_OK, set_queue (wink_event_queue_deinit (re_queue (w_env w))) w))
                                    (run_loop c cb max_ticks 0 w))"

section \<open>Statistics\<close>

record wink_runtime_stats_t =
  rs_uptime_ms :: u32
  rs_free_heap :: u32
  rs_min_free_stack :: u32
  rs_fault_count :: u32
  rs_warn_count :: u32
  rs_abnormal_boot_count :: u32
  rs_last_reset_reason :: wink_reset_reason_t

definition wink_runtime_get_stats :: "u32 \<Rightarrow> u32 \<Rightarrow> 's world \<Rightarrow> wink_runtime_stats_t" where
  "wink_runtime_get_stats free_heap stack_free w =
    \<lparr> rs_uptime_ms = ucast (now_us w div 1000), rs_free_heap = free_heap,
      rs_min_free_stack = stack_free, rs_fault_count = wink_trace_count (w_trace w),
      rs_warn_count = wink_warn_count (w_trace w), rs_abnormal_boot_count = re_abnormal (w_env w),
      rs_last_reset_reason = map_reset_reason (re_reset_reason (w_env w)) \<rparr>"

section \<open>Draining the event queue\<close>

lemma pend_nonblocking:
  assumes "eq_rep q es"
  shows "case es of
      [] \<Rightarrow> wink_event_pend env now (Some out) 0 q = Some (WINK_ERR_EMPTY, Some out, q)
    | e # es' \<Rightarrow> \<exists>q'. wink_event_pend env now (Some out) 0 q = Some (WINK_OK, Some e, q') \<and> eq_rep q' es'"
  using event_pop_rep [OF assms, of out] assms
  by (auto simp: wink_event_pend_def eq_rep_def split: list.splits)

lemma drain_empty:
  assumes "eq_rep (re_queue (w_env w)) []"
  shows "drain_events c f w = Some w"
  using pend_nonblocking [OF assms, of "rt_pend c w" "now_us w div 1000" stack_event]
  by (subst drain_events.simps) simp

lemma drain_step:
  assumes "eq_rep (re_queue (w_env w)) (e # es)"
  shows "\<exists>q. eq_rep q es \<and> drain_events c f w = drain_events c f (rt_event c f e (set_queue q w))"
  using pend_nonblocking [OF assms, of "rt_pend c w" "now_us w div 1000" stack_event]
  by (subst drain_events.simps) auto

lemma drain_in_order:
  assumes "\<And>e v. re_queue (w_env (rt_event c f e v)) = re_queue (w_env v)"
    and "\<And>e v. seen (re_app (w_env (rt_event c f e v))) = seen (re_app (w_env v)) @ [e]"
    and "eq_rep (re_queue (w_env w)) es"
  shows "\<exists>w'. drain_events c f w = Some w' \<and> eq_rep (re_queue (w_env w')) []
    \<and> seen (re_app (w_env w')) = seen (re_app (w_env w)) @ es"
  using assms(3)
proof (induction es arbitrary: w)
  case Nil
  then show ?case by (simp add: drain_empty)
next
  case (Cons e es)
  from drain_step [OF Cons.prems, of c f] obtain q where
    q: "eq_rep q es" "drain_events c f w = drain_events c f (rt_event c f e (set_queue q w))" by blast
  have "eq_rep (re_queue (w_env (rt_event c f e (set_queue q w)))) es"
    using q(1) by (simp add: assms(1))
  from Cons.IH [OF this] q(2) show ?case by (simp add: assms(2))
qed

lemma drain_posting_aux:
  assumes "drain_events c f w = Some w'"
  shows "(\<forall>e v. \<exists>e' es'. eq_rep (re_queue (w_env (rt_event c f e v))) (e' # es'))
    \<longrightarrow> (\<forall>e es. \<not> eq_rep (re_queue (w_env w)) (e # es))"
  using assms
proof (rule drain_events.raw_induct [rotated])
  fix rec :: "'a rt_calls \<Rightarrow> nat \<Rightarrow> 'a world \<Rightarrow> 'a world option" and c f w w'
  assume IH: "\<And>c f v v'. rec c f v = Some v' \<Longrightarrow>
      (\<forall>e v. \<exists>e' es'. eq_rep (re_queue (w_env (rt_event c f e v))) (e' # es'))
      \<longrightarrow> (\<forall>e es. \<not> eq_rep (re_queue (w_env v)) (e # es))"
    and step: "Option.bind (wink_event_pend (rt_pend c w) (now_us w div 1000) (Some stack_event) 0
        (re_queue (w_env w))) (\<lambda>(st, ev, q). if st = WINK_OK
          then rec c f (rt_event c f (the ev) (set_queue q w)) else Some (set_queue q w)) = Some w'"
  have False if posts: "\<forall>e v. \<exists>e' es'. eq_rep (re_queue (w_env (rt_event c f e v))) (e' # es')"
    and rep: "eq_rep (re_queue (w_env w)) (e # es)" for e es
  proof -
    from pend_nonblocking [OF rep, of "rt_pend c w" "now_us w div 1000" stack_event] obtain q where
      "wink_event_pend (rt_pend c w) (now_us w div 1000) (Some stack_event) 0 (re_queue (w_env w))
        = Some (WINK_OK, Some e, q)" by auto
    with step have "rec c f (rt_event c f e (set_queue q w)) = Some w'" by simp
    from IH [OF this] posts show False by blast
  qed
  then show "(\<forall>e v. \<exists>e' es'. eq_rep (re_queue (w_env (rt_event c f e v))) (e' # es'))
      \<longrightarrow> (\<forall>e es. \<not> eq_rep (re_queue (w_env w)) (e # es))" by blast
qed

section \<open>Bounded runs\<close>

text \<open>From \<open>e\<close> to \<open>e'\<close> the loop callback ran \<open>k\<close> times by the count \<open>loops\<close>, nothing touched
  the abnormal boot count, and the mailbox is still a mailbox.\<close>

definition steady :: "('s \<Rightarrow> nat) \<Rightarrow> nat \<Rightarrow> 's world \<Rightarrow> 's world \<Rightarrow> bool" where
  "steady loops k w w' \<longleftrightarrow> loops (re_app (w_env w')) = loops (re_app (w_env w)) + k
    \<and> re_abnormal (w_env w') = re_abnormal (w_env w)
    \<and> ((\<exists>es. eq_rep (re_queue (w_env w)) es) \<longrightarrow> (\<exists>es. eq_rep (re_queue (w_env w')) es))"

text \<open>Application code that minds its own business: only the loop callback is counted, handlers
  of events post no new event, waits see the clock advance.\<close>

definition well_behaved :: "'s rt_calls \<Rightarrow> wink_app_callbacks_t \<Rightarrow> ('s \<Rightarrow> nat) \<Rightarrow> bool" where
  "well_behaved c cb loops \<longleftrightarrow>
    (\<exists>f. cb_loop cb = Some f \<and> (\<forall>v. steady loops 1 v (rt_void c f v)))
    \<and> (\<forall>g b v. steady loops 0 v (snd (snd (rt_timer c g b v))))
    \<and> (\<forall>g b v. steady loops 0 v (rt_poll c g b v))
    \<and> (\<forall>ms v. steady loops 0 v (rt_wait c ms v))
    \<and> (\<forall>v. fair_env (rt_pend c v) (now_us v div 1000))
    \<and> (\<forall>f e v es. cb_on_event cb = Some f \<longrightarrow> steady loops 0 v (rt_event c f e v)
         \<and> (eq_rep (re_queue (w_env v)) es \<longrightarrow>
            (\<exists>es'. eq_rep (re_queue (w_env (rt_event c f e v))) es' \<and> length es' \<le> length es)))
    \<and> (\<forall>f i v. cb_on_boot cb = Some f \<longrightarrow> steady loops 0 v (rt_boot c f i v))
    \<and> (\<forall>f v. cb_init_status cb = Some f \<longrightarrow> fst (rt_status c f v) = WINK_OK
         \<and> steady loops 0 v (snd (rt_status c f v)))
    \<and> (\<forall>f v. cb_init cb = Some f \<longrightarrow> steady loops 0 v (rt_void c f v))"

lemma steady_refl [simp]: "steady loops 0 w w"
  by (simp add: steady_def)

lemma steady_trans: "steady loops j u v \<Longrightarrow> steady loops k v w \<Longrightarrow> steady loops (j + k) u w"
  by (auto simp: steady_def)

lemma steady_trans0: "steady loops 0 u v \<Longrightarrow> steady loops k v w \<Longrightarrow> steady loops k u w"
  using steady_trans [of loops 0 u v k w] by simp

lemma steady_env: "w_env w = w_env w' \<Longrightarrow> steady loops k v w = steady loops k v w'"
  by (simp add: steady_def)

lemma steady_dispatch_slot:
  assumes "\<And>g b v. steady loops 0 v (snd (snd (call g b v)))"
  shows "steady loops 0 w (dispatch_slot call i w)"
proof -
  have fire: "steady loops 0 v (fire_slot call i v)" for v
  proof -
    let ?tm = "st_timers (w_timers v) ! i"
    obtain status us v' where call: "call (the (tm_callback ?tm)) (tm_arg ?tm) (set_light True v) = (status, us, v')"
      by (cases "call (the (tm_callback ?tm)) (tm_arg ?tm) (set_light True v)" rule: prod_cases3) (rule that)
    with assms [of "set_light True v" "the (tm_callback ?tm)" "tm_arg ?tm"]
    show ?thesis by (simp add: fire_slot_def Let_def steady_def)
  qed
  have "steady loops 0 w (fire_slot call i (upd_slot i f w))" for f
    using fire [of "upd_slot i f w"] by (simp add: steady_def)
  with fire [of w] show ?thesis by (simp add: dispatch_slot_def Let_def) (simp add: steady_def)
qed

lemma steady_dispatch:
  assumes "\<And>g b v. steady loops 0 v (snd (snd (call g b v)))"
  shows "steady loops 0 w (wink_soft_timer_dispatch call w)"
proof -
  have "steady loops 0 w (fold (dispatch_slot call) js w)" for js
  proof (induction js arbitrary: w)
    case (Cons j js)
    have "steady loops 0 (dispatch_slot call j w) (fold (dispatch_slot call) js (dispatch_slot call j w))"
      by (rule Cons)
    with steady_trans0 [OF steady_dispatch_slot [OF assms]] show ?case by simp
  qed simp
  then show ?thesis by (simp add: wink_soft_timer_dispatch_def)
qed

lemma steady_polls:
  assumes "\<And>g b v. steady loops 0 v (rt_poll c g b v)"
  shows "steady loops 0 w (poll_loop c n i w)"
proof (induction n arbitrary: i w)
  case (Suc n)
  show ?case using steady_trans0 [OF assms Suc] by (simp add: Let_def)
qed simp

lemma steady_monitor:
  assumes "\<And>v. steady loops k v (rt_void c f v)"
  shows "steady loops k w (wink_runtime_monitor_wcet_loop c (Some f) w)"
  using assms [of w] by (simp add: wink_runtime_monitor_wcet_loop_def Let_def steady_def)

lemma steady_drain:
  assumes "\<And>e v. steady loops 0 v (rt_event c f e v)"
    and "\<And>e v es. eq_rep (re_queue (w_env v)) es \<Longrightarrow>
      \<exists>es'. eq_rep (re_queue (w_env (rt_event c f e v))) es' \<and> length es' \<le> length es"
    and "eq_rep (re_queue (w_env w)) es"
  shows "\<exists>w'. drain_events c f w = Some w' \<and> steady loops 0 w w'"
  using assms(3)
proof (induction es arbitrary: w rule: length_induct)
  case (1 es)
  show ?case
  proof (cases es)
    case Nil
    with 1 show ?thesis by (simp add: drain_empty)
  next
    case (Cons e es1)
    with drain_step [of w e es1 c f] "1.prems" obtain q where q: "eq_rep q es1"
      "drain_events c f w = drain_events c f (rt_event c f e (set_queue q w))" by auto
    let ?v = "rt_event c f e (set_queue q w)"
    obtain es2 where es2: "eq_rep (re_queue (w_env ?v)) es2" "length es2 \<le> length es1"
      using assms(2) [of "set_queue q w" es1 e] q(1) by auto
    have "length es2 < length es" using es2(2) Cons by simp
    with "1.IH" es2(1) obtain w' where w': "drain_events c f ?v = Some w'" "steady loops 0 ?v w'" by blast
    have "steady loops 0 w ?v"
      using assms(1) [of "set_queue q w" e] q(1) by (auto simp: steady_def)
    from steady_trans0 [OF this w'(2)] w'(1) q(2) show ?thesis by auto
  qed
qed

lemma sleep_returns:
  assumes wb: "well_behaved c cb loops" and rep: "\<exists>es. eq_rep (re_queue (w_env w)) es"
    and ms: "sleep_ms \<noteq> WAIT_FOREVER"
  shows "\<exists>w'. sleep_until_tick c cb sleep_ms w = Some w' \<and> steady loops 0 w w'"
proof (cases "cb_on_event cb")
  case None
  then show ?thesis using wb by (simp add: sleep_until_tick_def wink_app_delay_ms_def well_behaved_def)
next
  case (Some f)
  let ?env = "rt_pend c w" and ?now = "now_us w div 1000"
  have env: "fair_env ?env ?now" using wb by (simp add: well_behaved_def)
  obtain es where es: "eq_rep (re_queue (w_env w)) es" using rep by blast
  from event_pend_lemma [OF es env ms, of stack_event] obtain st ev q es' where
    pend: "wink_event_pend ?env ?now (Some stack_event) sleep_ms (re_queue (w_env w)) = Some (st, Some ev, q)"
      "eq_rep q es'" by blast
  let ?v = "set_queue q (rt_wait c sleep_ms w)"
  have v: "steady loops 0 w ?v"
    using wb pend(2) unfolding well_behaved_def steady_def by auto
  have "steady loops 0 ?v (rt_event c f ev ?v)" using wb Some by (simp add: well_behaved_def)
  with v pend(1) Some show ?thesis
    by (auto simp: sleep_until_tick_def Let_def intro: steady_trans0)
qed

lemma tick_end_returns:
  assumes wb: "well_behaved c cb loops" and rep: "\<exists>es. eq_rep (re_queue (w_env w)) es"
  shows "\<exists>w'. tick_end c cb tick t0 w = Some w'
    \<and> steady loops 0 (if tick = WINK_BOOT_HEALTHY_TICKS then set_abnormal 0 w else w) w'"
proof -
  define v where "v = (let w = (if now_us w - t0 > ucast (WINK_RUNTIME_TICK_MS * 1000)
    then warn WINK_WARN_TICK_OVERRUN w else w)
    in if tick = WINK_BOOT_HEALTHY_TICKS then set_abnormal 0 w else w)"
  let ?w = "if tick = WINK_BOOT_HEALTHY_TICKS then set_abnormal 0 w else w"
  have v: "steady loops 0 ?w v" by (simp add: v_def steady_def Let_def)
  have repv: "\<exists>es. eq_rep (re_queue (w_env v)) es" using rep by (simp add: v_def Let_def)
  define ms where "ms = (let elapsed_ms = ucast ((now_us w - t0) div 1000) :: u32
    in if elapsed_ms < WINK_RUNTIME_TICK_MS then WINK_RUNTIME_TICK_MS - elapsed_ms else 0)"
  have "ms \<le> WINK_RUNTIME_TICK_MS"
    by (auto simp: ms_def Let_def WINK_RUNTIME_TICK_MS_def word_le_nat_alt word_less_nat_alt unat_sub)
  then have "ms \<noteq> WAIT_FOREVER" by (auto simp: WAIT_FOREVER_def WINK_RUNTIME_TICK_MS_def)
  from sleep_returns [OF wb repv this] obtain w' where
    "sleep_until_tick c cb ms v = Some w'" "steady loops 0 v w'" by blast
  moreover have "tick_end c cb tick t0 w = (if ms > 0 then sleep_until_tick c cb ms v else Some v)"
    by (simp add: tick_end_def v_def ms_def Let_def)
  ultimately show ?thesis using v by (auto intro: steady_trans0)
qed

lemma tick_returns:
  assumes wb: "well_behaved c cb loops" and rep: "\<exists>es. eq_rep (re_queue (w_env w)) es"
  shows "\<exists>w'. runtime_tick c cb tick w = Some w'
    \<and> steady loops 1 (if tick = WINK_BOOT_HEALTHY_TICKS then set_abnormal 0 w else w) w'"
proof -
  let ?v = "run_polls c (wink_soft_timer_dispatch (rt_timer c) w)"
  have "steady loops 0 w (wink_soft_timer_dispatch (rt_timer c) w)"
    by (rule steady_dispatch) (use wb in \<open>simp add: well_behaved_def\<close>)
  moreover have "steady loops 0 (wink_soft_timer_dispatch (rt_timer c) w) ?v"
    unfolding run_polls_def by (rule steady_polls) (use wb in \<open>simp add: well_behaved_def\<close>)
  ultimately have v: "steady loops 0 w ?v" by (rule steady_trans0)
  then have repv: "\<exists>es. eq_rep (re_queue (w_env ?v)) es" using rep by (simp add: steady_def)
  have "\<exists>u. (case cb_on_event cb of Some f \<Rightarrow> drain_events c f ?v | None \<Rightarrow> Some ?v) = Some u
      \<and> steady loops 0 ?v u"
  proof (cases "cb_on_event cb")
    case (Some f)
    obtain es where "eq_rep (re_queue (w_env ?v)) es" using repv by blast
    from steady_drain [OF _ _ this, of loops c f] Some wb show ?thesis by (simp add: well_behaved_def)
  qed simp
  then obtain u where u: "(case cb_on_event cb of Some f \<Rightarrow> drain_events c f ?v | None \<Rightarrow> Some ?v) = Some u"
    "steady loops 0 ?v u" by blast
  let ?x = "wink_runtime_monitor_wcet_loop c (cb_loop cb) u"
  obtain g where g: "cb_loop cb = Some g" "\<And>v. steady loops 1 v (rt_void c g v)"
    using wb by (auto simp: well_behaved_def)
  have "steady loops 1 u ?x" using steady_monitor [OF g(2)] g(1) by simp
  then have x: "steady loops 1 w ?x" using v u(2) by (blast intro: steady_trans0)
  then have "\<exists>es. eq_rep (re_queue (w_env ?x)) es" using rep by (simp add: steady_def)
  from tick_end_returns [OF wb this, of tick "now_us w"] obtain w' where
    w': "tick_end c cb tick (now_us w) ?x = Some w'"
      "steady loops 0 (if tick = WINK_BOOT_HEALTHY_TICKS then set_abnormal 0 ?x else ?x) w'" by blast
  have "runtime_tick c cb tick w = Some w'"
    using u(1) w'(1) by (simp add: runtime_tick_def Let_def)
  moreover have "steady loops 1 (if tick = WINK_BOOT_HEALTHY_TICKS then set_abnormal 0 w else w) w'"
    using x w'(2) by (auto simp: steady_def split: if_splits)
  ultimately show ?thesis by blast
qed

lemma run_loop_returns:
  assumes wb: "well_behaved c cb loops" and n: "n \<noteq> 0"
    and rep: "\<exists>es. eq_rep (re_queue (w_env w)) es" and le: "tick \<le> n"
  shows "\<exists>w'. run_loop c cb n tick w = Some w'
    \<and> loops (re_app (w_env w')) = loops (re_app (w_env w)) + (unat n - unat tick)
    \<and> re_abnormal (w_env w')
        = (if tick \<le> WINK_BOOT_HEALTHY_TICKS \<and> WINK_BOOT_HEALTHY_TICKS < n then 0 else re_abnormal (w_env w))
    \<and> (\<exists>es. eq_rep (re_queue (w_env w')) es)"
  using rep le
proof (induction "unat n - unat tick" arbitrary: tick w)
  case 0
  then have "\<not> tick < n" by (simp add: word_less_nat_alt)
  with 0 n show ?case by (subst run_loop.simps) auto
next
  case (Suc k)
  have lt: "tick < n" using Suc.hyps(2) by (simp add: word_less_nat_alt)
  have tick1: "unat (tick + 1) = Suc (unat tick)"
    using lt unsigned_less [of n, where 'a = nat] by (simp add: unat_word_ariths word_less_nat_alt)
  from tick_returns [OF wb Suc.prems(1), of tick] obtain v where v: "runtime_tick c cb tick w = Some v"
    "steady loops 1 (if tick = WINK_BOOT_HEALTHY_TICKS then set_abnormal 0 w else w) v" by blast
  then have repv: "\<exists>es. eq_rep (re_queue (w_env v)) es"
    using Suc.prems(1) by (auto simp: steady_def split: if_splits)
  have "k = unat n - unat (tick + 1)" "tick + 1 \<le> n"
    using Suc.hyps(2) tick1 by (simp_all add: word_le_nat_alt)
  from Suc.hyps(1) [OF this(1) repv this(2)] obtain w' where w': "run_loop c cb n (tick + 1) v = Some w'"
    "loops (re_app (w_env w')) = loops (re_app (w_env v)) + (unat n - unat (tick + 1))"
    "re_abnormal (w_env w') = (if tick + 1 \<le> WINK_BOOT_HEALTHY_TICKS \<and> WINK_BOOT_HEALTHY_TICKS < n
        then 0 else re_abnormal (w_env v))"
    "\<exists>es. eq_rep (re_queue (w_env w')) es" by blast
  have "tick \<le> WINK_BOOT_HEALTHY_TICKS \<longleftrightarrow> tick = WINK_BOOT_HEALTHY_TICKS \<or> tick + 1 \<le> WINK_BOOT_HEALTHY_TICKS"
    using tick1 by (auto simp: word_le_nat_alt word_unat_eq_iff)
  then have ab: "re_abnormal (w_env w') = (if tick \<le> WINK_BOOT_HEALTHY_TICKS \<and> WINK_BOOT_HEALTHY_TICKS < n
      then 0 else re_abnormal (w_env w))"
    using w'(3) v(2) lt by (auto simp: steady_def split: if_splits)
  have "loops (re_app (w_env v)) = loops (re_app (w_env w)) + 1"
    using v(2) by (auto simp: steady_def split: if_splits)
  moreover have "run_loop c cb n tick w = Some w'"
    using lt v(1) w'(1) by (subst run_loop.simps) simp
  ultimately show ?case using w'(2,4) ab tick1 lt by (simp add: word_less_nat_alt)
qed

section \<open>Properties\<close>

text \<open>The fail-safe sweep, then the application's fault handler on the world it leaves.\<close>

definition fault_world :: "'s rt_calls \<Rightarrow> u32 \<Rightarrow> 's world \<Rightarrow> 's world" where
  "fault_world c code w =
    (let (rcs, e) = call_all (rt_actuator c) (ar_list (re_registry (w_env w))) (w_env w)
     in w\<lparr> w_env := e, w_trace := fold wink_trace_fault (code # fault_codes 0 rcs) (w_trace w) \<rparr>)"

lemma fault_spec:
  "wink_runtime_fault c cbs code w =
    (case cbs of None \<Rightarrow> fault_world c code w
     | Some cb \<Rightarrow> snd (wink_runtime_invoke_on_fault c cb code (fault_world c code w)))"
  by (simp add: wink_runtime_fault_def wink_actuator_safe_off_all_def safe_off_loop_spec ar_list_def
      fault_world_def split: option.split prod.split)

lemmas boot_simps = wink_runtime_run_def boot_lock_def fault_spec Let_def

text \<open>C14: after a watchdog or panic reset that is at least the third abnormal one in a row the
  boot is locked: the run records fault 8001, calls every registered actuator's safe-off once,
  in order and whatever the others return, then the fault handler, and returns
  \<open>WINK_ERR_LOCKED\<close>; neither init nor the loop runs.\<close>
theorem boot_locks_after_abnormal_resets:
  assumes "re_reset_reason (w_env w) \<in> {PAL_OS_RESET_REASON_WATCHDOG, PAL_OS_RESET_REASON_PANIC}"
    and "2 \<le> re_abnormal (w_env w)" "re_abnormal (w_env w) \<noteq> 0xFFFFFFFF"
  shows "wink_runtime_run c (Some cb) n w = Some (WINK_ERR_LOCKED,
    snd (wink_runtime_invoke_on_fault c cb WINK_FAULT_BOOT_AFTER_RESET
      (fault_world c WINK_FAULT_BOOT_AFTER_RESET
        (set_abnormal (re_abnormal (w_env w) + 1) (upd_env (\<lambda>e. e\<lparr> re_active := Some cb \<rparr>) w)))))"
proof -
  have "unat (re_abnormal (w_env w)) \<noteq> unat (0xFFFFFFFF :: u32)"
    using assms(3) by (simp add: word_unat_eq_iff)
  then have "unat (re_abnormal (w_env w) + 1) = Suc (unat (re_abnormal (w_env w)))"
    using unsigned_less [of "re_abnormal (w_env w)", where 'a = nat] by (simp add: unat_word_ariths)
  then have "re_abnormal (w_env w) + 1 \<ge> WINK_BOOT_LOCK_THRESHOLD"
    using assms(2) by (simp add: WINK_BOOT_LOCK_THRESHOLD_def word_le_nat_alt)
  with assms(1) show ?thesis by (auto simp: boot_simps)
qed

definition booted_count :: "'s world \<Rightarrow> u32" where
  "booted_count w =
    (if re_reset_reason (w_env w) = PAL_OS_RESET_REASON_POWER_ON then 0
     else if re_reset_reason (w_env w) \<in> {PAL_OS_RESET_REASON_WATCHDOG, PAL_OS_RESET_REASON_PANIC}
     then re_abnormal (w_env w) + 1 else re_abnormal (w_env w))"

lemma boot_unlocked:
  assumes "booted_count w < WINK_BOOT_LOCK_THRESHOLD
      \<or> re_reset_reason (w_env w) \<notin> {PAL_OS_RESET_REASON_WATCHDOG, PAL_OS_RESET_REASON_PANIC}"
  shows "boot_lock c cb w = (False, if re_reset_reason (w_env w) \<in> {PAL_OS_RESET_REASON_POWER_ON,
      PAL_OS_RESET_REASON_WATCHDOG, PAL_OS_RESET_REASON_PANIC} then set_abnormal (booted_count w) w else w)"
  using assms by (auto simp: boot_lock_def booted_count_def Let_def)

lemma run_init_returns:
  assumes "well_behaved c cb loops"
  shows "\<exists>w'. run_init c cb w = (WINK_OK, w') \<and> steady loops 0 w w'"
proof -
  obtain st v where inv: "wink_runtime_invoke_init c cb w = (st, v)" by fastforce
  have "st = WINK_OK \<and> steady loops 0 w v"
  proof (cases "cb_init_status cb")
    case (Some f)
    with assms inv show ?thesis unfolding well_behaved_def wink_runtime_invoke_init_def
      by (auto simp: prod_eq_iff)
  next
    case None
    with assms inv show ?thesis unfolding well_behaved_def wink_runtime_invoke_init_def
      by (auto split: option.splits)
  qed
  with inv show ?thesis by (simp add: run_init_def Let_def steady_def)
qed

text \<open>C15: a boot that is not locked, asked for a number \<open>n\<close> of ticks that is not zero, with allocations
  that succeed and well-behaved application code, runs for exactly \<open>n\<close> ticks: it returns \<open>WINK_OK\<close>, has
  called the loop callback \<open>n\<close> times, has deinitialised the event queue, and has cleared the
  abnormal boot count exactly when it ran for more than 200 ticks. Well-behaved code leaves the runtime's
  own state alone, its initialisation returns \<open>WINK_OK\<close>, its handlers leave no more events in the mailbox
  than they found, and the clock advances while the loop waits.\<close>
theorem runtime_runs_exactly_max_ticks:
  assumes wb: "well_behaved c cb loops" and n: "n \<noteq> 0"
    and unlocked: "booted_count w < WINK_BOOT_LOCK_THRESHOLD
      \<or> re_reset_reason (w_env w) \<notin> {PAL_OS_RESET_REASON_WATCHDOG, PAL_OS_RESET_REASON_PANIC}"
    and alloc: "rt_struct_ok c" "\<And>n. \<exists>b. rt_malloc c n = Some b \<and> length b = unat n"
      "rt_sem_create c = Some s"
    and fresh: "\<not> eq_initialized (re_queue (w_env w))"
  shows "\<exists>w'. wink_runtime_run c (Some cb) n w = Some (WINK_OK, w')
    \<and> loops (re_app (w_env w')) = loops (re_app (w_env w)) + unat n
    \<and> re_abnormal (w_env w') = (if n > WINK_BOOT_HEALTHY_TICKS then 0 else booted_count w)
    \<and> \<not> eq_initialized (re_queue (w_env w'))"
proof -
  let ?w0 = "upd_env (\<lambda>e. e\<lparr> re_active := Some cb \<rparr>) w"
  have b0: "booted_count ?w0 = booted_count w" by (simp add: booted_count_def)
  obtain w1 where lock: "boot_lock c cb ?w0 = (False, w1)" and w1: "re_app (w_env w1) = re_app (w_env w)"
      "re_abnormal (w_env w1) = booted_count w" "re_queue (w_env w1) = re_queue (w_env w)"
    using boot_unlocked [of ?w0 c cb] unlocked unfolding b0 by (auto simp: booted_count_def)
  have fresh1: "\<not> eq_initialized (re_queue (w_env w1))" using fresh w1(3) by simp
  obtain q where q: "wink_event_queue_init (rt_struct_ok c) (rt_malloc c) (rt_sem_create c)
      WINK_EVENT_QUEUE_DEFAULT_CAPACITY (re_queue (w_env w1)) = (WINK_OK, q)" "eq_rep q []"
    using event_queue_init_lemma [OF fresh1 _ alloc(2), of 5 s] alloc(1,3)
    by (auto simp: WINK_EVENT_QUEUE_DEFAULT_CAPACITY_def)
  obtain ts where ts: "wink_soft_timer_init (w_timers w1) = (WINK_OK, ts)"
    by (simp add: wink_soft_timer_init_def)
  let ?w2 = "set_queue q (w1\<lparr> w_timers := ts \<rparr>)"
  let ?w3 = "case cb_on_boot cb of Some f \<Rightarrow> rt_boot c f (boot_info ?w2) ?w2 | None \<Rightarrow> ?w2"
  have w3: "steady loops 0 ?w2 ?w3" using wb by (simp add: well_behaved_def split: option.split)
  obtain v where v: "run_init c cb ?w3 = (WINK_OK, v)" "steady loops 0 ?w3 v"
    using run_init_returns [OF wb] by blast
  have s: "steady loops 0 ?w2 v" using w3 v(2) by (rule steady_trans0)
  have "\<exists>es. eq_rep (re_queue (w_env v)) es" using s q(2) by (auto simp: steady_def)
  from run_loop_returns [OF wb n this, of 0] obtain w' where w': "run_loop c cb n 0 v = Some w'"
    "loops (re_app (w_env w')) = loops (re_app (w_env v)) + unat n"
    "re_abnormal (w_env w') = (if WINK_BOOT_HEALTHY_TICKS < n then 0 else re_abnormal (w_env v))"
    by auto
  have run: "wink_runtime_run c (Some cb) n w
      = Some (WINK_OK, set_queue (wink_event_queue_deinit (re_queue (w_env w'))) w')"
    unfolding wink_runtime_run_def option.case Let_def lock prod.case ts
    using q(1) v(1) w'(1) by simp
  have "re_abnormal (w_env v) = booted_count w" "loops (re_app (w_env v)) = loops (re_app (w_env w))"
    using s w1 by (simp_all add: steady_def)
  then show ?thesis using run w'(2,3) by (auto simp: wink_event_queue_deinit_def)
qed

text \<open>C16: with a handler that does not touch the mailbox, the event phase of a tick hands it
  every queued event, oldest first, and leaves the mailbox empty.\<close>
theorem drain_delivers_in_order:
  assumes "\<And>e v. re_queue (w_env (rt_event c f e v)) = re_queue (w_env v)"
    and "\<And>e v. seen (re_app (w_env (rt_event c f e v))) = seen (re_app (w_env v)) @ [e]"
    and "eq_rep (re_queue (w_env w)) es"
  shows "\<exists>w'. drain_events c f w = Some w' \<and> eq_rep (re_queue (w_env w')) []
    \<and> seen (re_app (w_env w')) = seen (re_app (w_env w)) @ es"
  by (rule drain_in_order [OF assms])

text \<open>The event phase has no bound: a handler that leaves an event behind whenever it runs
  (by posting in answer to what it receives) keeps the tick from ever ending, so that timers,
  polls and the application loop stop.\<close>
lemma posting_handler_starves_tick:
  assumes "\<And>e v. \<exists>e' es'. eq_rep (re_queue (w_env (rt_event c f e v))) (e' # es')"
    and "cb_on_event cb = Some f"
    and "eq_rep (re_queue (w_env (run_polls c (wink_soft_timer_dispatch (rt_timer c) w)))) (e # es)"
  shows "runtime_tick c cb tick w = None"
proof -
  have "drain_events c f (run_polls c (wink_soft_timer_dispatch (rt_timer c) w)) = None"
    using drain_posting_aux [of c f] assms(1,3) by (metis not_None_eq)
  with assms(2) show ?thesis by (simp add: runtime_tick_def)
qed

section \<open>Witnesses\<close>

definition demo_calls :: "nat rt_calls" where
  "demo_calls = \<lparr>
     rt_timer = (\<lambda>f a w. (WINK_OK, 10, w)),
     rt_actuator = (\<lambda>f a e. (if f = 1 then WINK_ERR_IO else WINK_OK, e\<lparr> re_app := re_app e + 100 \<rparr>)),
     rt_void = (\<lambda>f. upd_env (\<lambda>e. e\<lparr> re_app := re_app e + 1, re_now_us := re_now_us e + 700 \<rparr>)),
     rt_status = (\<lambda>f w. (WINK_OK, w)),
     rt_fault = (\<lambda>f code w. w), rt_fault_status = (\<lambda>f code w. (WINK_OK, w)),
     rt_boot = (\<lambda>f i w. w), rt_event = (\<lambda>f e w. w), rt_poll = (\<lambda>f a w. w),
     rt_pend = (\<lambda>w n ms q. (WINK_OK, q, re_now_us (w_env w) div 1000 + of_nat (Suc n))),
     rt_wait = (\<lambda>ms. upd_env (\<lambda>e. e\<lparr> re_now_us := re_now_us e + ucast ms * 1000 \<rparr>)),
     rt_struct_ok = True, rt_malloc = (\<lambda>n. Some (replicate (unat n) 0)), rt_sem_create = Some 3 \<rparr>"

definition demo_app :: wink_app_callbacks_t where
  "demo_app = \<lparr> cb_init = None, cb_loop = Some 4, cb_on_fault = None, cb_on_boot = Some 5,
     cb_init_status = Some 6, cb_on_fault_status = None, cb_on_event = Some 7 \<rparr>"

definition demo_env :: "pal_os_reset_reason_t \<Rightarrow> event_queue \<Rightarrow> 's \<Rightarrow> 's rt_env" where
  "demo_env rr q a = \<lparr> re_queue = q,
     re_registry = \<lparr> ar_entries = \<lparr> ae_fn = 1, ae_ctx = 0 \<rparr> # \<lparr> ae_fn = 2, ae_ctx = 0 \<rparr>
       # replicate 14 \<lparr> ae_fn = 0, ae_ctx = 0 \<rparr>, ar_count = 2 \<rparr>,
     re_polls = replicate 16 \<lparr> pc_fn = 0, pc_ctx = 0 \<rparr>, re_poll_count = 0, re_active = None,
     re_now_us = 0, re_reset_reason = rr, re_abnormal = 2, re_app = a \<rparr>"

definition demo_runtime :: "pal_os_reset_reason_t \<Rightarrow> event_queue \<Rightarrow> 's \<Rightarrow> 's world" where
  "demo_runtime rr q a = \<lparr> w_timers = \<lparr> st_timers = replicate 16 timer_zero, st_initialized = False,
      st_in_light_dispatch = False \<rparr>,
    w_trace = \<lparr> tr_buffer = replicate 32 0, tr_count = 0, tr_head = 0, tr_warn_count = 0 \<rparr>,
    w_env = demo_env rr q a \<rparr>"

definition no_queue :: event_queue where
  "no_queue = \<lparr> eq_ringbuf = None, eq_sem = None, eq_capacity = 0, eq_initialized = False \<rparr>"

lemma fault_codes_Nil: "fault_codes i [] = []"
  by (simp add: fault_codes_def)

lemma demo_well_behaved: "well_behaved demo_calls demo_app (\<lambda>n. n)"
proof -
  have "fair_env (rt_pend demo_calls v) (now_us v div 1000)" for v
    by (auto simp: fair_env_def demo_calls_def unat_of_nat unat_word_ariths simp del: of_nat_Suc)
  then show ?thesis
    by (auto simp: well_behaved_def demo_app_def) (auto simp: demo_calls_def steady_def)
qed

lemma boot_locks_after_abnormal_resets_witness:
  "\<exists>w'. wink_runtime_run demo_calls (Some demo_app) 7 (demo_runtime PAL_OS_RESET_REASON_WATCHDOG no_queue 0)
      = Some (WINK_ERR_LOCKED, w')
    \<and> re_app (w_env w') = 200 \<and> tr_count (w_trace w') = 2"
  using boot_locks_after_abnormal_resets
    [of "demo_runtime PAL_OS_RESET_REASON_WATCHDOG no_queue 0" demo_calls demo_app 7]
  by (simp add: demo_runtime_def demo_env_def demo_calls_def demo_app_def fault_world_def ar_list_def
      wink_runtime_invoke_on_fault_def fault_codes_Cons fault_codes_Nil
      wink_trace_fault_def s_record_fault_locked_def)

lemma runtime_runs_exactly_max_ticks_witness:
  "\<exists>w'. wink_runtime_run demo_calls (Some demo_app) 300 (demo_runtime PAL_OS_RESET_REASON_SOFTWARE no_queue 0)
      = Some (WINK_OK, w') \<and> re_app (w_env w') = 300 \<and> re_abnormal (w_env w') = 0"
  using runtime_runs_exactly_max_ticks [OF demo_well_behaved,
      of 300 "demo_runtime PAL_OS_RESET_REASON_SOFTWARE no_queue 0" 3]
  by (auto simp: demo_calls_def demo_runtime_def demo_env_def no_queue_def WINK_BOOT_HEALTHY_TICKS_def)

definition loaded_queue :: event_queue where
  "loaded_queue = fst (snd (wink_event_post False (Some stack_event) demo_queue))"

lemma loaded_queue_rep: "eq_rep loaded_queue [stack_event]"
  using event_post_refines_lemma [OF demo_queue_rep, of False stack_event]
  by (auto simp: loaded_queue_def mailbox_post_def stack_event_def demo_queue_def)

text \<open>Handler 0 only logs what it receives, any other handler also posts.\<close>

definition logging_calls :: "wink_event_t list rt_calls" where
  "logging_calls = \<lparr> rt_timer = (\<lambda>f a w. (WINK_OK, 10, w)), rt_actuator = (\<lambda>f a e. (WINK_OK, e)),
     rt_void = (\<lambda>f w. w), rt_status = (\<lambda>f w. (WINK_OK, w)),
     rt_fault = (\<lambda>f code w. w), rt_fault_status = (\<lambda>f code w. (WINK_OK, w)), rt_boot = (\<lambda>f i w. w),
     rt_event = (\<lambda>f e. upd_env (\<lambda>v. v\<lparr> re_app := re_app v @ [e],
        re_queue := (if f = 0 then re_queue v else loaded_queue) \<rparr>)),
     rt_poll = (\<lambda>f a w. w), rt_pend = (\<lambda>w n ms q. (WINK_ERR_TIMEOUT, q, 0)), rt_wait = (\<lambda>ms w. w),
     rt_struct_ok = True, rt_malloc = (\<lambda>n. None), rt_sem_create = None \<rparr>"

lemma drain_delivers_in_order_witness:
  "\<exists>w'. drain_events logging_calls 0 (demo_runtime PAL_OS_RESET_REASON_SOFTWARE loaded_queue [])
      = Some w' \<and> re_app (w_env w') = [stack_event]"
  using drain_delivers_in_order [of logging_calls 0 "\<lambda>l. l"
      "demo_runtime PAL_OS_RESET_REASON_SOFTWARE loaded_queue []" "[stack_event]"] loaded_queue_rep
  by (auto simp: logging_calls_def demo_runtime_def demo_env_def)

lemma posting_handler_starves_tick_witness:
  "runtime_tick logging_calls demo_app 9 (demo_runtime PAL_OS_RESET_REASON_SOFTWARE loaded_queue []) = None"
proof (rule posting_handler_starves_tick)
  let ?w = "demo_runtime PAL_OS_RESET_REASON_SOFTWARE loaded_queue []"
  show "\<exists>e' es'. eq_rep (re_queue (w_env (rt_event logging_calls 7 e v))) (e' # es')" for e v
    using loaded_queue_rep by (auto simp: logging_calls_def)
  show "cb_on_event demo_app = Some 7" by (simp add: demo_app_def)
  have "run_polls logging_calls (wink_soft_timer_dispatch (rt_timer logging_calls) ?w) = ?w"
    by (simp add: run_polls_def WINK_MAX_POLL_CBS_def numeral_eq_Suc wink_soft_timer_dispatch_def
        demo_runtime_def demo_env_def)
  then show "eq_rep (re_queue (w_env (run_polls logging_calls
      (wink_soft_timer_dispatch (rt_timer logging_calls) ?w)))) (stack_event # [])"
    using loaded_queue_rep by (simp add: demo_runtime_def demo_env_def)
qed

end
