(* ===== verification/Dev_Config.thy ===== *)
theory Dev_Config
  imports Wink_Prelude
begin

text \<open>
  The device-configuration overrides of \<^verbatim>\<open>runtime/src/wink_dev_config.c\<close>: the CRC-32 of a
  blob and the parser that validates a blob and hands each item's parameters to the driver
  registered for its device. Buffers are byte lists (\<open>None\<close> for \<^verbatim>\<open>NULL\<close>); what the drivers'
  override callbacks do is a parameter that acts on the state \<open>'s\<close> of the devices.
\<close>

section \<open>Operations\<close>

fun crc_bits :: "nat \<Rightarrow> u32 \<Rightarrow> u32" where
  "crc_bits 0 crc = crc"
| "crc_bits (Suc b) crc =
     crc_bits b (if crc AND 1 \<noteq> 0 then drop_bit 1 crc XOR 0xEDB88320 else drop_bit 1 crc)"

fun crc_loop :: "u8 list \<Rightarrow> u32 \<Rightarrow> u32" where
  "crc_loop [] crc = crc"
| "crc_loop (d # ds) crc = crc_loop ds (crc_bits 8 (crc XOR ucast d))"

definition wink_dev_config_crc32 :: "u8 list \<Rightarrow> u16 \<Rightarrow> u32" where
  "wink_dev_config_crc32 data len = crc_loop (take (unat len) data) 0xFFFFFFFF XOR 0xFFFFFFFF"

record wink_dev_override_entry_t =
  oe_device_id :: u32
  oe_dev :: nat
  oe_apply :: nat

definition WINK_DEV_CONFIG_MAGIC :: u32 where "WINK_DEV_CONFIG_MAGIC = 0x57494E4B"
definition WINK_DEV_CONFIG_VERSION :: u16 where "WINK_DEV_CONFIG_VERSION = 1"
definition WINK_DEV_CONFIG_PARAMS_SIZE :: u32 where "WINK_DEV_CONFIG_PARAMS_SIZE = 16"
definition WINK_DEV_CONFIG_ITEM_SIZE :: u32 where
  "WINK_DEV_CONFIG_ITEM_SIZE = 4 + WINK_DEV_CONFIG_PARAMS_SIZE"
definition WINK_DEV_CONFIG_HEADER_SIZE :: u32 where "WINK_DEV_CONFIG_HEADER_SIZE = 8"
definition WINK_DEV_CONFIG_CRC_SIZE :: u32 where "WINK_DEV_CONFIG_CRC_SIZE = 4"

lemmas config_sizes = WINK_DEV_CONFIG_PARAMS_SIZE_def WINK_DEV_CONFIG_ITEM_SIZE_def
  WINK_DEV_CONFIG_HEADER_SIZE_def WINK_DEV_CONFIG_CRC_SIZE_def

definition copy_bytes :: "nat \<Rightarrow> nat \<Rightarrow> u8 list \<Rightarrow> 'a::len word" where
  "copy_bytes off n buf = of_le_bytes (take n (drop off buf))"

text \<open>The inner loop: the first registry entry of the device gets the parameters; the status it
  returns is ignored.\<close>

fun dispatch_item ::
  "(nat \<Rightarrow> nat \<Rightarrow> u8 list \<Rightarrow> u16 \<Rightarrow> 's \<Rightarrow> wink_status_t \<times> 's) \<Rightarrow> wink_dev_override_entry_t list
    \<Rightarrow> u32 \<Rightarrow> u8 list \<Rightarrow> 's \<Rightarrow> 's" where
  "dispatch_item call [] device_id params s = s"
| "dispatch_item call (e # es) device_id params s =
     (if oe_device_id e = device_id
      then snd (call (oe_apply e) (oe_dev e) params (ucast WINK_DEV_CONFIG_PARAMS_SIZE) s)
      else dispatch_item call es device_id params s)"

fun apply_loop ::
  "(nat \<Rightarrow> nat \<Rightarrow> u8 list \<Rightarrow> u16 \<Rightarrow> 's \<Rightarrow> wink_status_t \<times> 's) \<Rightarrow> u8 list
    \<Rightarrow> wink_dev_override_entry_t list \<Rightarrow> nat \<Rightarrow> u16 \<Rightarrow> 's \<Rightarrow> 's" where
  "apply_loop call buf registry 0 i s = s"
| "apply_loop call buf registry (Suc n) i s =
     (let off = ucast (WINK_DEV_CONFIG_HEADER_SIZE + ucast i * WINK_DEV_CONFIG_ITEM_SIZE) :: u16;
          device_id = copy_bytes (unat off) 4 buf;
          params = take 16 (drop (unat off + 4) buf)
      in apply_loop call buf registry n (i + 1) (dispatch_item call registry device_id params s))"

definition wink_dev_config_apply ::
  "(nat \<Rightarrow> nat \<Rightarrow> u8 list \<Rightarrow> u16 \<Rightarrow> 's \<Rightarrow> wink_status_t \<times> 's) \<Rightarrow> u8 list option \<Rightarrow> u16
    \<Rightarrow> wink_dev_override_entry_t list option \<Rightarrow> u16 \<Rightarrow> 's \<Rightarrow> wink_status_t \<times> 's" where
  "wink_dev_config_apply call buf_ptr len registry registry_count s =
    (case buf_ptr of None \<Rightarrow> (WINK_ERR_INVALID_ARG, s)
     | Some buf \<Rightarrow>
       if registry_count > 0 \<and> registry = None then (WINK_ERR_INVALID_ARG, s)
       else if ucast len < WINK_DEV_CONFIG_HEADER_SIZE + WINK_DEV_CONFIG_CRC_SIZE
       then (WINK_ERR_INVALID_ARG, s)
       else
         let magic = copy_bytes 0 4 buf :: u32;
             version = copy_bytes 4 2 buf :: u16;
             count = copy_bytes 6 2 buf :: u16
         in if magic \<noteq> WINK_DEV_CONFIG_MAGIC then (WINK_ERR_CONFIG_CORRUPT_DEGRADED, s)
            else if version \<noteq> WINK_DEV_CONFIG_VERSION then (WINK_ERR_CONFIG_CORRUPT_DEGRADED, s)
            else
              let expected = WINK_DEV_CONFIG_HEADER_SIZE + ucast count * WINK_DEV_CONFIG_ITEM_SIZE
                    + WINK_DEV_CONFIG_CRC_SIZE :: u32
              in if ucast len \<noteq> expected then (WINK_ERR_CONFIG_CORRUPT_DEGRADED, s)
                 else
                   let body_len = len - ucast WINK_DEV_CONFIG_CRC_SIZE :: u16;
                       stored_crc = copy_bytes (unat body_len) 4 buf :: u32
                   in if wink_dev_config_crc32 buf body_len \<noteq> stored_crc then (WINK_ERR_CHECKSUM, s)
                      else (WINK_OK,
                            apply_loop call buf
                              (take (unat registry_count) (case registry of None \<Rightarrow> [] | Some r \<Rightarrow> r))
                              (unat count) 0 s))"

section \<open>The checksum detects a corrupted byte\<close>

definition crc_bit :: "u32 \<Rightarrow> u32" where
  "crc_bit c = (if c AND 1 \<noteq> 0 then drop_bit 1 c XOR 0xEDB88320 else drop_bit 1 c)"

lemma crc_bit_top: "bit (crc_bit c) 31 \<longleftrightarrow> bit c 0"
  by (auto simp: crc_bit_def bit_simps and_one_eq bit_0 even_iff_mod_2_eq_zero
      dest: bit_imp_le_length)

lemma crc_bit_eq: "crc_bit c = (if bit c 0 then drop_bit 1 c XOR 0xEDB88320 else drop_bit 1 c)"
  by (simp add: crc_bit_def and_one_eq bit_0 even_iff_mod_2_eq_zero)

lemma crc_bit_inj:
  assumes "crc_bit x = crc_bit y"
  shows "x = y"
proof -
  have b0: "bit x 0 \<longleftrightarrow> bit y 0" using assms crc_bit_top by metis
  have "drop_bit 1 x = drop_bit 1 y"
  proof (cases "bit x 0")
    case True
    then have "drop_bit 1 x XOR 0xEDB88320 = drop_bit 1 y XOR 0xEDB88320"
      using assms b0 by (simp only: crc_bit_eq if_True)
    then have "(drop_bit 1 x XOR 0xEDB88320) XOR 0xEDB88320 = (drop_bit 1 y XOR 0xEDB88320) XOR 0xEDB88320"
      by (simp only:)
    then show ?thesis by (simp only: xor.assoc xor_self_eq xor.right_neutral)
  next
    case False
    then show ?thesis using assms b0 by (simp only: crc_bit_eq if_False)
  qed
  then have rest: "bit x (Suc n) \<longleftrightarrow> bit y (Suc n)" for n
    by (metis bit_drop_bit_eq comp_apply plus_1_eq_Suc)
  show ?thesis
  proof (rule bit_word_eqI)
    fix n show "bit x n \<longleftrightarrow> bit y n" using b0 rest by (cases n) auto
  qed
qed

lemma crc_bits_inj: "crc_bits n x = crc_bits n y \<Longrightarrow> x = y"
proof (induction n arbitrary: x y)
  case (Suc n)
  have "crc_bits (Suc n) c = crc_bits n (crc_bit c)" for c by (simp add: crc_bit_def)
  with Suc have "crc_bit x = crc_bit y" by metis
  then show ?case by (rule crc_bit_inj)
qed simp

lemma xor_right_inj: "a XOR c = b XOR c \<Longrightarrow> a = (b :: 'a::len word)"
  by (metis xor.assoc xor_self_eq xor.right_neutral)

lemma xor_left_inj: "c XOR a = c XOR b \<Longrightarrow> a = (b :: 'a::len word)"
  by (metis xor.commute xor_right_inj)

lemma crc_loop_inj: "crc_loop ds x = crc_loop ds y \<Longrightarrow> x = y"
  by (induction ds arbitrary: x y) (auto dest!: crc_bits_inj xor_right_inj)

lemma ucast_u8_inj: "(ucast (a :: u8) :: u32) = ucast b \<Longrightarrow> a = b"
proof -
  have "unat (ucast c :: u32) = unat c" for c :: u8
  proof -
    have "unat c < 2 ^ LENGTH(32)" using unsigned_less [of c, where 'a = nat] by simp
    then show ?thesis by (simp only: unsigned_ucast_eq take_bit_nat_eq_self)
  qed
  then show "(ucast a :: u32) = ucast b \<Longrightarrow> a = b" by (metis word_unat_eq_iff)
qed

lemma crc_loop_append: "crc_loop (xs @ ys) c = crc_loop ys (crc_loop xs c)"
  by (induction xs arbitrary: c) auto

lemma crc_loop_byte:
  assumes "crc_loop (xs @ a # zs) c = crc_loop (xs @ b # zs) c"
  shows "a = b"
proof -
  from assms have "crc_bits 8 (crc_loop xs c XOR ucast a) = crc_bits 8 (crc_loop xs c XOR ucast b)"
    by (simp add: crc_loop_append del: crc_bits.simps) (rule crc_loop_inj)
  then have "(ucast a :: u32) = ucast b" by (blast dest: crc_bits_inj xor_left_inj)
  then show ?thesis by (rule ucast_u8_inj)
qed

text \<open>The checksum detects every corruption of a single byte, at any position of a buffer of
  any length.\<close>
lemma crc32_detects_byte_corruption:
  assumes "i < unat len" "unat len \<le> length buf" "b \<noteq> buf ! i"
  shows "wink_dev_config_crc32 (buf[i := b]) len \<noteq> wink_dev_config_crc32 buf len"
proof
  let ?d = "take (unat len) buf"
  have i: "i < length ?d" using assms by simp
  assume "wink_dev_config_crc32 (buf[i := b]) len = wink_dev_config_crc32 buf len"
  then have "crc_loop (?d[i := b]) 0xFFFFFFFF = crc_loop ?d 0xFFFFFFFF"
    using assms(1) by (simp add: wink_dev_config_crc32_def take_update_swap)
      (blast dest: xor_right_inj)
  then have "crc_loop (take i ?d @ b # drop (Suc i) ?d) 0xFFFFFFFF
      = crc_loop (take i ?d @ (?d ! i) # drop (Suc i) ?d) 0xFFFFFFFF"
    using i by (simp only: upd_conv_take_nth_drop id_take_nth_drop [symmetric])
  then have "b = ?d ! i" by (rule crc_loop_byte)
  then show False using assms by simp
qed

section \<open>Validation and dispatch\<close>

text \<open>What acceptance implies: the stored checksum is that of the body, and every item has been
  handed to the registry.\<close>

lemma config_apply_ok:
  assumes "wink_dev_config_apply call (Some buf) len registry rc s = (WINK_OK, s')"
  shows "12 \<le> unat len"
    and "wink_dev_config_crc32 buf (len - 4) = copy_bytes (unat (len - 4)) 4 buf"
    and "s' = apply_loop call buf (take (unat rc) (case registry of None \<Rightarrow> [] | Some r \<Rightarrow> r))
          (unat (copy_bytes 6 2 buf :: u16)) 0 s"
proof -
  have u: "unat (ucast len :: u32) = unat len"
  proof -
    have "unat len < 2 ^ LENGTH(32)" using unsigned_less [of len, where 'a = nat] by simp
    then show ?thesis by (simp only: unsigned_ucast_eq take_bit_nat_eq_self)
  qed
  show "12 \<le> unat len"
    using assms u by (auto simp: wink_dev_config_apply_def Let_def config_sizes word_less_nat_alt
        split: if_splits)
  show "wink_dev_config_crc32 buf (len - 4) = copy_bytes (unat (len - 4)) 4 buf"
    using assms by (auto simp: wink_dev_config_apply_def Let_def config_sizes split: if_splits)
  show "s' = apply_loop call buf (take (unat rc) (case registry of None \<Rightarrow> [] | Some r \<Rightarrow> r))
          (unat (copy_bytes 6 2 buf :: u16)) 0 s"
    using assms by (auto simp: wink_dev_config_apply_def Let_def split: if_splits)
qed

lemma config_apply_error:
  "fst (wink_dev_config_apply call buf_ptr len registry rc s) \<noteq> WINK_OK \<Longrightarrow>
   snd (wink_dev_config_apply call buf_ptr len registry rc s) = s"
  by (auto simp: wink_dev_config_apply_def Let_def split: option.splits if_splits)

text \<open>C6: a blob that was accepted is rejected as soon as one byte of its body (header or items)
  differs, and a rejected blob leaves every device untouched: no item is applied.\<close>
theorem dev_config_corruption_rejected:
  assumes "wink_dev_config_apply call (Some buf) len registry rc s = (WINK_OK, s')"
    and "unat len \<le> length buf" "i < unat len - 4" "b \<noteq> buf ! i"
  shows "\<exists>e. e \<noteq> WINK_OK \<and> wink_dev_config_apply call (Some (buf[i := b])) len registry rc s0 = (e, s0)"
proof -
  note ok = config_apply_ok [OF assms(1)]
  have len4: "unat (len - 4) = unat len - 4"
    using ok(1) by (simp add: unat_sub word_le_nat_alt)
  have "fst (wink_dev_config_apply call (Some (buf[i := b])) len registry rc s0) \<noteq> WINK_OK"
  proof
    assume "fst (wink_dev_config_apply call (Some (buf[i := b])) len registry rc s0) = WINK_OK"
    then obtain s1 where
      "wink_dev_config_apply call (Some (buf[i := b])) len registry rc s0 = (WINK_OK, s1)"
      by (metis prod.collapse)
    from config_apply_ok(2) [OF this]
    have "wink_dev_config_crc32 (buf[i := b]) (len - 4) = copy_bytes (unat (len - 4)) 4 (buf[i := b])" .
    also have "\<dots> = copy_bytes (unat (len - 4)) 4 buf"
      using assms(3) len4 by (simp add: copy_bytes_def drop_update_cancel)
    also have "\<dots> = wink_dev_config_crc32 buf (len - 4)" using ok(2) by simp
    finally show False
      using crc32_detects_byte_corruption [of i "len - 4" buf b] assms len4 by simp
  qed
  then show ?thesis using config_apply_error by (metis prod.collapse)
qed

text \<open>The blob the provisioning side writes for a list of items.\<close>

definition config_body :: "(u32 \<times> u8 list) list \<Rightarrow> u8 list" where
  "config_body items = le_bytes 4 WINK_DEV_CONFIG_MAGIC @ le_bytes 2 WINK_DEV_CONFIG_VERSION
     @ le_bytes 2 (of_nat (length items) :: u16)
     @ concat (map (\<lambda>(device_id, params). le_bytes 4 device_id @ params) items)"

definition config_blob :: "(u32 \<times> u8 list) list \<Rightarrow> u8 list" where
  "config_blob items = config_body items
     @ le_bytes 4 (wink_dev_config_crc32 (config_body items) (of_nat (length (config_body items))))"

lemma length_items:
  "\<forall>(d, ps) \<in> set items. length ps = 16 \<Longrightarrow>
   length (concat (map (\<lambda>(device_id, params). le_bytes 4 device_id @ params) items)) = length items * 20"
  for items :: "(u32 \<times> u8 list) list"
  by (induction items) auto

lemma length_config_body:
  "\<forall>(d, ps) \<in> set items. length ps = 16 \<Longrightarrow> length (config_body items) = 8 + length items * 20"
  by (simp add: config_body_def length_items)

lemma config_item_bytes:
  assumes "\<forall>(d, ps) \<in> set items. length ps = 16" "k < length items"
  shows "copy_bytes (8 + k * 20) 4 (config_blob items) = fst (items ! k)"
    and "take 16 (drop (8 + k * 20 + 4) (config_blob items)) = snd (items ! k)"
proof -
  let ?f = "\<lambda>(device_id :: u32, params). le_bytes 4 device_id @ params"
  obtain d ps where it: "items ! k = (d, ps)" by fastforce
  then have ps: "length ps = 16" using assms nth_mem [of k items] by auto
  have split: "items = take k items @ (d, ps) # drop (Suc k) items"
    using assms(2) it by (metis id_take_nth_drop)
  have "\<forall>(d, ps) \<in> set (take k items). length ps = 16"
    using assms(1) by (auto dest: in_set_takeD)
  from length_items [OF this] have lk: "length (concat (map ?f (take k items))) = k * 20"
    using assms(2) by simp
  have "concat (map ?f items) = concat (map ?f (take k items)) @ le_bytes 4 d @ ps
      @ concat (map ?f (drop (Suc k) items))"
    by (subst split) simp
  then have dr: "drop (8 + k * 20) (config_blob items) = le_bytes 4 d @ ps
      @ concat (map ?f (drop (Suc k) items))
      @ le_bytes 4 (wink_dev_config_crc32 (config_body items) (of_nat (length (config_body items))))"
    using lk by (simp add: config_blob_def config_body_def)
  then show "copy_bytes (8 + k * 20) 4 (config_blob items) = fst (items ! k)"
    using it by (simp add: copy_bytes_def of_le_bytes_le_bytes take_bit_word_eq_self)
  have "drop (8 + k * 20 + 4) (config_blob items) = drop 4 (drop (8 + k * 20) (config_blob items))"
    by (simp add: add.commute)
  then show "take 16 (drop (8 + k * 20 + 4) (config_blob items)) = snd (items ! k)"
    using it ps by (simp only: dr) simp
qed

lemma config_offset:
  assumes "k \<le> 3276"
  shows "unat (ucast (WINK_DEV_CONFIG_HEADER_SIZE + ucast (of_nat k :: u16) * WINK_DEV_CONFIG_ITEM_SIZE) :: u16)
    = 8 + k * 20"
proof -
  have "k < 2 ^ LENGTH(16)" using assms by simp
  then have k: "unat (of_nat k :: u16) = k" by (simp only: unat_of_nat mod_less)
  have "(ucast (of_nat k :: u16) :: u32) = of_nat (unat (of_nat k :: u16))"
    by (rule of_nat_unat [symmetric])
  then have "(ucast (of_nat k :: u16) :: u32) = of_nat k" by (simp only: k)
  then have w: "WINK_DEV_CONFIG_HEADER_SIZE + ucast (of_nat k :: u16) * WINK_DEV_CONFIG_ITEM_SIZE
      = of_nat (8 + k * 20)"
    by (simp add: config_sizes)
  have lt: "8 + k * 20 < 2 ^ LENGTH(32)" "8 + k * 20 < 2 ^ LENGTH(16)" using assms by simp_all
  show ?thesis
    by (simp only: w unsigned_ucast_eq unat_of_nat mod_less [OF lt(1)] take_bit_nat_eq_self [OF lt(2)])
qed

lemma apply_loop_items:
  assumes "\<forall>(d, ps) \<in> set items. length ps = 16" "k + n = length items" "length items \<le> 3276"
  shows "apply_loop call (config_blob items) reg n (of_nat k) s
    = fold (\<lambda>(d, ps). dispatch_item call reg d ps) (drop k items) s"
  using assms(2)
proof (induction n arbitrary: k s)
  case (Suc n)
  have k: "k < length items" using Suc.prems by simp
  have "k \<le> 3276" using k assms(3) by simp
  note off = config_offset [OF this]
  note bytes = config_item_bytes [OF assms(1) k]
  have "(of_nat k :: u16) + 1 = of_nat (Suc k)" by simp
  with Suc.IH [of "Suc k"] Suc.prems
  have "apply_loop call (config_blob items) reg (Suc n) (of_nat k) s
      = fold (\<lambda>(d, ps). dispatch_item call reg d ps) (drop (Suc k) items)
          (dispatch_item call reg (fst (items ! k)) (snd (items ! k)) s)"
    by (simp only: apply_loop.simps Let_def off bytes)
  then show ?case using Cons_nth_drop_Suc [OF k, symmetric] by (simp split: prod.split)
qed simp

lemma config_header:
  "copy_bytes 0 4 (config_blob items) = WINK_DEV_CONFIG_MAGIC"
  "copy_bytes 4 2 (config_blob items) = WINK_DEV_CONFIG_VERSION"
  "copy_bytes 6 2 (config_blob items) = (of_nat (length items) :: u16)"
  by (simp_all add: copy_bytes_def config_blob_def config_body_def of_le_bytes_le_bytes
      take_bit_word_eq_self)

lemma config_crc_stored:
  "copy_bytes (length (config_body items)) 4 (config_blob items)
    = wink_dev_config_crc32 (config_body items) (of_nat (length (config_body items)))"
  by (simp add: copy_bytes_def config_blob_def of_le_bytes_le_bytes take_bit_word_eq_self)

lemma crc32_prefix:
  "unat len \<le> length xs \<Longrightarrow> wink_dev_config_crc32 (xs @ ys) len = wink_dev_config_crc32 xs len"
  by (simp add: wink_dev_config_crc32_def)

lemma unat_of_nat_u16: "n < 65536 \<Longrightarrow> unat (of_nat n :: u16) = n"
  by (simp add: unat_of_nat)

lemma ucast_of_nat_u16: "n < 65536 \<Longrightarrow> (ucast (of_nat n :: u16) :: u32) = of_nat n"
  by (metis of_nat_unat unat_of_nat_u16)

text \<open>The entry that is registered for a device: the first one with its number.\<close>

lemma dispatch_item_entry:
  "dispatch_item call reg device ps s =
    (case map_of (map (\<lambda>e. (oe_device_id e, e)) reg) device of
       None \<Rightarrow> s
     | Some e \<Rightarrow> snd (call (oe_apply e) (oe_dev e) ps 16 s))"
  by (induction reg) (auto simp: config_sizes)

text \<open>C7: a blob written for any list of up to 3276 items of 16 bytes is accepted, and for each item, in
  their order, the callback of the first registry entry with the number of its device is called once,
  with the device of that entry and the 16 bytes; nothing is called for an item of a device that is
  not registered.\<close>
theorem dev_config_roundtrip:
  assumes "\<forall>(d, ps) \<in> set items. length ps = 16" "length items \<le> 3276" "length reg < 65536"
  shows "wink_dev_config_apply call (Some (config_blob items)) (of_nat (length (config_blob items)))
      (Some reg) (of_nat (length reg)) s
    = (WINK_OK, fold (\<lambda>(device, ps) s.
        case map_of (map (\<lambda>e. (oe_device_id e, e)) reg) device of
          None \<Rightarrow> s
        | Some e \<Rightarrow> snd (call (oe_apply e) (oe_dev e) ps 16 s)) items s)"
proof -
  let ?n = "length items" and ?body = "config_body items" and ?blob = "config_blob items"
  have lb: "length ?body = 8 + ?n * 20" by (rule length_config_body [OF assms(1)])
  have lbl: "length ?blob = 12 + ?n * 20" by (simp add: config_blob_def lb)
  have small: "12 + ?n * 20 < 65536" using assms(2) by simp
  have len: "(ucast (of_nat (length ?blob) :: u16) :: u32) = of_nat (12 + ?n * 20)"
    using small lbl by (simp only: ucast_of_nat_u16)
  have not_short: "\<not> (ucast (of_nat (length ?blob) :: u16) :: u32)
      < WINK_DEV_CONFIG_HEADER_SIZE + WINK_DEV_CONFIG_CRC_SIZE"
  proof -
    have "12 + ?n * 20 < 2 ^ LENGTH(32)" using small by simp
    then have "unat (of_nat (12 + ?n * 20) :: u32) = 12 + ?n * 20"
      by (simp only: unat_of_nat mod_less)
    then show ?thesis by (simp only: len word_less_nat_alt) (simp add: config_sizes)
  qed
  have expected: "WINK_DEV_CONFIG_HEADER_SIZE + ucast (of_nat ?n :: u16) * WINK_DEV_CONFIG_ITEM_SIZE
      + WINK_DEV_CONFIG_CRC_SIZE = (of_nat (12 + ?n * 20) :: u32)"
    using assms(2) by (simp add: ucast_of_nat_u16 config_sizes)
  have body_len: "of_nat (length ?blob) - ucast WINK_DEV_CONFIG_CRC_SIZE = (of_nat (length ?body) :: u16)"
    by (simp add: lb lbl config_sizes)
  have ub: "unat (of_nat (length ?body) :: u16) = length ?body"
    using small lb by (intro unat_of_nat_u16) simp
  have crc: "wink_dev_config_crc32 ?blob (of_nat (length ?body))
      = copy_bytes (unat (of_nat (length ?body) :: u16)) 4 ?blob"
    by (simp only: ub config_crc_stored) (simp add: config_blob_def crc32_prefix ub)
  have un: "unat (of_nat ?n :: u16) = ?n" "unat (of_nat (length reg) :: u16) = length reg"
    using assms by (simp_all add: unat_of_nat_u16)
  have "apply_loop call ?blob reg ?n 0 s = fold (\<lambda>(d, ps). dispatch_item call reg d ps) items s"
    using apply_loop_items [OF assms(1) _ assms(2), of 0 ?n call reg s] by simp
  then have "apply_loop call ?blob reg ?n 0 s = fold (\<lambda>(device, ps) s.
      case map_of (map (\<lambda>e. (oe_device_id e, e)) reg) device of
        None \<Rightarrow> s | Some e \<Rightarrow> snd (call (oe_apply e) (oe_dev e) ps 16 s)) items s"
    by (simp only:) (rule fold_cong; auto simp: dispatch_item_entry fun_eq_iff)
  with not_short crc show ?thesis
    by (simp only: wink_dev_config_apply_def option.case Let_def config_header len expected body_len un)
       simp
qed

lemma dev_config_roundtrip_witness:
  "wink_dev_config_apply (\<lambda>f dev ps len log. (WINK_OK, log @ [(dev, hd ps)]))
      (Some (config_blob [(7, replicate 16 9), (8, replicate 16 1)]))
      (of_nat (length (config_blob [(7, replicate 16 9), (8, replicate 16 1)])))
      (Some [\<lparr> oe_device_id = 8, oe_dev = 5, oe_apply = 0 \<rparr>]) 1 []
    = (WINK_OK, [(5, 1)])"
  using dev_config_roundtrip [of "[(7, replicate 16 9), (8, replicate 16 1)]"
      "[\<lparr> oe_device_id = 8, oe_dev = 5, oe_apply = 0 \<rparr>]"
      "\<lambda>f dev ps len log. (WINK_OK, log @ [(dev, hd ps)])" "[]"]
  by simp

lemma dev_config_corruption_rejected_witness:
  "\<exists>e. e \<noteq> WINK_OK \<and> wink_dev_config_apply (\<lambda>f dev ps len log. (WINK_OK, log @ [(dev, hd ps)]))
      (Some ((config_blob [])[1 := 0])) 12 None 0 [] = (e, [])"
proof -
  have blob: "config_blob [] = config_body [] @ le_bytes 4 (wink_dev_config_crc32 (config_body []) 8)"
    "length (config_body []) = 8"
    by (simp_all add: config_blob_def config_body_def)
  have byte: "config_body [] ! 1 = 0x4E" by code_simp
  have len: "length (config_blob []) = 12" by (simp add: blob)
  have "wink_dev_config_apply (\<lambda>f dev ps len log. (WINK_OK, log @ [(dev, hd ps)]))
      (Some (config_blob [])) 12 None 0 [] = (WINK_OK, [])"
    by code_simp
  moreover have "0 \<noteq> config_blob [] ! 1" using blob byte by (simp add: nth_append)
  ultimately show ?thesis
    using dev_config_corruption_rejected [of _ "config_blob []" 12 None 0 "[]" "[]" 1 0 "[]"] len
    by simp
qed

end
