(* ===== verification/Runtime_Tasks.thy ===== *)
theory Runtime_Tasks
  imports Soft_Timer
begin

text \<open>
  The periodic callbacks of \<^verbatim>\<open>runtime/src/wink_runtime_tasks.c\<close>: twelve static entries, each
  either free, a LIGHT callback driven by a software timer, or a TASK with its own stack, a
  wake and a done semaphore. What the OSAL's allocations return is a parameter; the calls made
  to semaphores and tasks are returned as a log. The task loop anchors each wake-up at the
  previous deadline.
\<close>

section \<open>Data\<close>

datatype periodic_entry_kind_t = PERIODIC_ENTRY_FREE | PERIODIC_ENTRY_LIGHT | PERIODIC_ENTRY_TASK

record periodic_task =
  pt_stack_bytes :: u32
  pt_priority :: int
  pt_core :: int
  pt_task_handle :: "nat option"
  pt_stop_requested :: bool
  pt_wake_sem :: "nat option"
  pt_done_sem :: "nat option"

text \<open>The union \<^verbatim>\<open>u\<close> of an entry; all bytes zero when the entry is cleared.\<close>

datatype periodic_union = U_zero | U_soft_timer int | U_task periodic_task

record periodic_entry_t =
  pe_kind :: periodic_entry_kind_t
  pe_name :: "string option"
  pe_fn :: "nat option"
  pe_ctx :: nat
  pe_period_ms :: u32
  pe_u :: periodic_union

record periodic_state =
  ps_entries :: "periodic_entry_t list"
  ps_timers :: soft_timers

datatype osal_call =
    Sem_destroy nat
  | Sem_give nat
  | Sem_take nat u32
  | Task_create string u32 nat int int
  | Sleep_ms u32
  | Task_delete

text \<open>What the OSAL answers while a task entry is created.\<close>

record osal_env =
  oe_wake_sem :: "nat option"
  oe_done_sem :: "nat option"
  oe_task_create :: "wink_status_t"
  oe_task_handle :: "nat option"

definition WINK_MAX_PERIODIC :: nat where "WINK_MAX_PERIODIC = 12"
definition WINK_PERIODIC_STACK_DEFAULT :: u32 where "WINK_PERIODIC_STACK_DEFAULT = 2048"
definition WINK_PERIODIC_LIGHT :: u32 where "WINK_PERIODIC_LIGHT = 1"
definition WINK_PERIODIC_MAY_BLOCK :: u32 where "WINK_PERIODIC_MAY_BLOCK = 2"

definition WINK_PERIODIC_DEFAULT_PRIORITY :: int where "WINK_PERIODIC_DEFAULT_PRIORITY = 2"
definition PAL_OS_CORE_0 :: int where "PAL_OS_CORE_0 = 0"
definition PAL_OS_CORE_1 :: int where "PAL_OS_CORE_1 = 1"
definition PAL_OS_CORE_ANY :: int where "PAL_OS_CORE_ANY = -1"

definition entry_zero :: periodic_entry_t where
  "entry_zero = \<lparr> pe_kind = PERIODIC_ENTRY_FREE, pe_name = None, pe_fn = None, pe_ctx = 0,
     pe_period_ms = 0, pe_u = U_zero \<rparr>"

text \<open>The function \<^verbatim>\<open>periodic_light_cb\<close> as the timer table knows it.\<close>

definition PERIODIC_LIGHT_CB :: nat where "PERIODIC_LIGHT_CB = 1"

definition periodic_light_cb ::
  "(nat \<Rightarrow> nat \<Rightarrow> 's \<Rightarrow> 's) \<Rightarrow> periodic_state \<Rightarrow> nat \<Rightarrow> 's \<Rightarrow> wink_status_t \<times> 's" where
  "periodic_light_cb call st e s =
    (case pe_fn (ps_entries st ! e) of
       None \<Rightarrow> (WINK_OK, s)
     | Some f \<Rightarrow> (WINK_OK, call f (pe_ctx (ps_entries st ! e)) s))"

section \<open>The loop of a periodic task\<close>

text \<open>One turn after the callback: the anchored next deadline and the milliseconds to wait.\<close>

definition periodic_task_turn :: "u32 \<Rightarrow> u64 \<Rightarrow> u64 \<Rightarrow> u64 \<times> u32" where
  "periodic_task_turn period_ms now next_wake =
    (let next_wake = next_wake + ucast period_ms * 1000;
         delta_us = next_wake - now
     in if sint delta_us \<le> 0 then (now, 1)
        else (next_wake, ucast ((delta_us + 999) div 1000)))"

definition periodic_wait :: "periodic_task \<Rightarrow> u32 \<Rightarrow> osal_call" where
  "periodic_wait t ms = (case pt_wake_sem t of Some s \<Rightarrow> Sem_take s ms | None \<Rightarrow> Sleep_ms ms)"

text \<open>The whole task: \<open>stop n\<close> is the stop flag before turn \<open>n\<close>, \<open>period n\<close> the entry's period
  and \<open>now n\<close> the clock after the callback of that turn. \<open>None\<close> when the fuel runs out.\<close>

fun periodic_task_fn ::
  "(nat \<Rightarrow> bool) \<Rightarrow> (nat \<Rightarrow> u32) \<Rightarrow> (nat \<Rightarrow> u64) \<Rightarrow> periodic_task \<Rightarrow> nat \<Rightarrow> nat \<Rightarrow> u64
    \<Rightarrow> osal_call list option" where
  "periodic_task_fn stop period now t 0 n next_wake = None"
| "periodic_task_fn stop period now t (Suc fuel) n next_wake =
     (if stop n
      then Some ((case pt_done_sem t of Some s \<Rightarrow> [Sem_give s] | None \<Rightarrow> []) @ [Task_delete])
      else let (next_wake, ms) = periodic_task_turn (period n) (now n) next_wake
           in map_option (Cons (periodic_wait t ms))
                (periodic_task_fn stop period now t fuel (Suc n) next_wake))"

section \<open>Starting and stopping\<close>

abbreviation put_entry :: "nat \<Rightarrow> periodic_entry_t \<Rightarrow> periodic_state \<Rightarrow> periodic_state" where
  "put_entry i e st \<equiv> st\<lparr> ps_entries := (ps_entries st)[i := e] \<rparr>"

definition sem_destroy_opt :: "nat option \<Rightarrow> osal_call list" where
  "sem_destroy_opt s = (case s of Some x \<Rightarrow> [Sem_destroy x] | None \<Rightarrow> [])"

definition start_task_entry ::
  "osal_env \<Rightarrow> nat \<Rightarrow> u32 \<Rightarrow> int \<Rightarrow> int \<Rightarrow> periodic_entry_t \<Rightarrow> periodic_state
    \<Rightarrow> nat result \<times> periodic_state \<times> osal_call list" where
  "start_task_entry env slot stack_hint priority core e st =
    (let t = \<lparr> pt_stack_bytes = (if stack_hint \<noteq> 0 then stack_hint else WINK_PERIODIC_STACK_DEFAULT),
               pt_priority = priority, pt_core = core, pt_task_handle = None,
               pt_stop_requested = False, pt_wake_sem = oe_wake_sem env,
               pt_done_sem = oe_done_sem env \<rparr>
     in if pt_wake_sem t = None \<or> pt_done_sem t = None
        then (Inl WINK_ERR_RESOURCE_EXHAUSTED, put_entry slot entry_zero st,
              sem_destroy_opt (pt_wake_sem t) @ sem_destroy_opt (pt_done_sem t))
        else let create = Task_create (the (pe_name e)) (pt_stack_bytes t) slot priority core
             in if wink_status_is_error (oe_task_create env)
                then (Inl (oe_task_create env), put_entry slot entry_zero st,
                      [create, Sem_destroy (the (pt_wake_sem t)), Sem_destroy (the (pt_done_sem t))])
                else (Inr (slot + 1),
                      put_entry slot (e\<lparr> pe_kind := PERIODIC_ENTRY_TASK,
                        pe_u := U_task (t\<lparr> pt_task_handle := oe_task_handle env \<rparr>) \<rparr>) st,
                      [create]))"

definition start_light_entry ::
  "nat \<Rightarrow> periodic_entry_t \<Rightarrow> periodic_state \<Rightarrow> nat result \<times> periodic_state \<times> osal_call list" where
  "start_light_entry slot e st =
    (let ticks = (pe_period_ms e + WINK_RUNTIME_TICK_MS - 1) div WINK_RUNTIME_TICK_MS;
         (h, tm) = wink_soft_timer_create (Some PERIODIC_LIGHT_CB) slot WINK_TIMER_PERIODIC
                     (ticks * WINK_RUNTIME_TICK_MS) (ps_timers st)
     in case h of
          Inl _ \<Rightarrow> (Inl WINK_ERR_RESOURCE_EXHAUSTED,
                    (put_entry slot entry_zero st)\<lparr> ps_timers := tm \<rparr>, [])
        | Inr i \<Rightarrow>
            let tm = wink_soft_timer_set_name (int i) (pe_name e) tm;
                (start_st, tm) = wink_soft_timer_start (int i) tm
            in if wink_status_is_error start_st
               then (Inl start_st, (put_entry slot entry_zero st)
                      \<lparr> ps_timers := snd (wink_soft_timer_destroy (int i) tm) \<rparr>, [])
               else (Inr (slot + 1),
                     (put_entry slot (e\<lparr> pe_kind := PERIODIC_ENTRY_LIGHT, pe_u := U_soft_timer (int i) \<rparr>) st)
                       \<lparr> ps_timers := tm \<rparr>, []))"

definition wink_periodic_start_ex ::
  "osal_env \<Rightarrow> string option \<Rightarrow> u32 \<Rightarrow> u32 \<Rightarrow> nat option \<Rightarrow> nat \<Rightarrow> u32 \<Rightarrow> int \<Rightarrow> int
    \<Rightarrow> periodic_state \<Rightarrow> nat result \<times> periodic_state \<times> osal_call list" where
  "wink_periodic_start_ex env name stack_hint period_ms fn ctx flags priority core st =
    (if name = None \<or> fn = None \<or> period_ms = 0 then (Inl WINK_ERR_INVALID_ARG, st, [])
     else let force_light = flags AND WINK_PERIODIC_LIGHT \<noteq> 0;
              force_task = flags AND WINK_PERIODIC_MAY_BLOCK \<noteq> 0
          in if force_light \<and> force_task then (Inl WINK_ERR_INVALID_ARG, st, [])
             else let use_task = (if force_task then True else if force_light then False
                                  else period_ms \<ge> 50 \<or> stack_hint \<ge> 2048)
                  in case first_slot (\<lambda>e. pe_kind e = PERIODIC_ENTRY_FREE) (ps_entries st) of
                       None \<Rightarrow> (Inl WINK_ERR_RESOURCE_EXHAUSTED, st, [])
                     | Some slot \<Rightarrow>
                         let e = entry_zero\<lparr> pe_name := name, pe_fn := fn, pe_ctx := ctx,
                                             pe_period_ms := period_ms \<rparr>
                         in if use_task then start_task_entry env slot stack_hint priority core e st
                            else start_light_entry slot e st)"

definition wink_periodic_start ::
  "osal_env \<Rightarrow> string option \<Rightarrow> u32 \<Rightarrow> u32 \<Rightarrow> nat option \<Rightarrow> nat \<Rightarrow> u32
    \<Rightarrow> periodic_state \<Rightarrow> nat result \<times> periodic_state \<times> osal_call list" where
  "wink_periodic_start env name stack_hint period_ms fn ctx flags st =
     wink_periodic_start_ex env name stack_hint period_ms fn ctx flags WINK_PERIODIC_DEFAULT_PRIORITY
       PAL_OS_CORE_ANY st"

definition wink_periodic_stop :: "int \<Rightarrow> periodic_state \<Rightarrow> periodic_state \<times> osal_call list" where
  "wink_periodic_stop h st =
    (if h \<le> 0 then (st, [])
     else if h - 1 \<ge> int WINK_MAX_PERIODIC then (st, [])
     else let slot = nat (h - 1); e = ps_entries st ! slot
          in if pe_kind e = PERIODIC_ENTRY_FREE then (st, [])
             else case pe_u e of
                 U_soft_timer th \<Rightarrow>
                   ((put_entry slot entry_zero st)\<lparr> ps_timers :=
                      (if th \<ge> 0 then snd (wink_soft_timer_destroy th (ps_timers st)) else ps_timers st) \<rparr>, [])
               | U_task t \<Rightarrow>
                   (put_entry slot entry_zero st,
                    (case pt_wake_sem t of Some s \<Rightarrow> [Sem_give s] | None \<Rightarrow> [])
                    @ (case pt_done_sem t of Some s \<Rightarrow> [Sem_take s 500, Sem_destroy s] | None \<Rightarrow> [])
                    @ sem_destroy_opt (pt_wake_sem t))
               | U_zero \<Rightarrow> (put_entry slot entry_zero st, []))"

definition wink_periodic_active_count :: "periodic_state \<Rightarrow> nat" where
  "wink_periodic_active_count st =
     length (filter (\<lambda>e. pe_kind e \<noteq> PERIODIC_ENTRY_FREE) (ps_entries st))"

definition wink_periodic_change_period ::
  "int \<Rightarrow> u32 \<Rightarrow> periodic_state \<Rightarrow> wink_status_t \<times> periodic_state \<times> osal_call list" where
  "wink_periodic_change_period h period_ms st =
    (if h \<le> 0 then (WINK_ERR_INVALID_ARG, st, [])
     else if period_ms = 0 then (WINK_ERR_INVALID_ARG, st, [])
     else if h - 1 \<ge> int WINK_MAX_PERIODIC then (WINK_ERR_INVALID_ARG, st, [])
     else let slot = nat (h - 1); e = ps_entries st ! slot
          in if pe_kind e = PERIODIC_ENTRY_FREE then (WINK_ERR_INVALID_ARG, st, [])
             else case pe_u e of
                 U_soft_timer th \<Rightarrow>
                   (let (rc, tm) = wink_soft_timer_change_period th period_ms (ps_timers st)
                    in (rc, st\<lparr> ps_timers := tm \<rparr>, []))
               | U_task t \<Rightarrow>
                   (WINK_OK, put_entry slot (e\<lparr> pe_period_ms := period_ms \<rparr>) st,
                    (case pt_wake_sem t of Some s \<Rightarrow> [Sem_give s] | None \<Rightarrow> []))
               | U_zero \<Rightarrow> (WINK_OK, put_entry slot (e\<lparr> pe_period_ms := period_ms \<rparr>) st, []))"

section \<open>Invariant\<close>

text \<open>Free entries are cleared; the kind agrees with the union; LIGHT entries own distinct live
  timers of the table that run the LIGHT trampoline on their own entry.\<close>

definition light_handle :: "periodic_entry_t \<Rightarrow> int option" where
  "light_handle e = (case pe_u e of U_soft_timer h \<Rightarrow> Some h | _ \<Rightarrow> None)"

definition entry_ok :: "soft_timers \<Rightarrow> nat \<Rightarrow> periodic_entry_t \<Rightarrow> bool" where
  "entry_ok tm i e \<longleftrightarrow> (case pe_kind e of
      PERIODIC_ENTRY_FREE \<Rightarrow> e = entry_zero
    | PERIODIC_ENTRY_LIGHT \<Rightarrow> (\<exists>h. pe_u e = U_soft_timer (int h) \<and> h < WINK_MAX_SOFT_TIMERS
        \<and> tm_callback (st_timers tm ! h) = Some PERIODIC_LIGHT_CB \<and> tm_arg (st_timers tm ! h) = i)
    | PERIODIC_ENTRY_TASK \<Rightarrow> (\<exists>t. pe_u e = U_task t \<and> pt_wake_sem t \<noteq> None \<and> pt_done_sem t \<noteq> None))"

definition periodic_inv :: "periodic_state \<Rightarrow> bool" where
  "periodic_inv st \<longleftrightarrow> length (ps_entries st) = WINK_MAX_PERIODIC
    \<and> st_initialized (ps_timers st) \<and> timers_wf (ps_timers st)
    \<and> (\<forall>tm \<in> set (st_timers (ps_timers st)). tm_callback tm = None \<longrightarrow> tm = timer_zero)
    \<and> (\<forall>i < WINK_MAX_PERIODIC. entry_ok (ps_timers st) i (ps_entries st ! i))"

section \<open>Starting a LIGHT entry\<close>

definition light_timer :: "nat \<Rightarrow> string option \<Rightarrow> u32 \<Rightarrow> wink_timer_cb_t" where
  "light_timer slot name ticks = \<lparr> tm_callback = Some PERIODIC_LIGHT_CB, tm_arg = slot, tm_name = name,
     tm_mode = WINK_TIMER_PERIODIC, tm_period_ticks = ticks, tm_remaining_ticks = ticks,
     tm_active = True, tm_overruns = 0 \<rparr>"

definition light_period :: "u32 \<Rightarrow> u32" where
  "light_period period_ms =
     (period_ms + WINK_RUNTIME_TICK_MS - 1) div WINK_RUNTIME_TICK_MS * WINK_RUNTIME_TICK_MS"

lemma start_light_ok:
  assumes "st_initialized (ps_timers st)" "length (st_timers (ps_timers st)) = WINK_MAX_SOFT_TIMERS"
    and "light_period (pe_period_ms e) \<noteq> 0"
    and "first_slot (\<lambda>s. tm_callback s = None) (st_timers (ps_timers st)) = Some i"
  shows "start_light_entry slot e st = (Inr (slot + 1),
      (put_entry slot (e\<lparr> pe_kind := PERIODIC_ENTRY_LIGHT, pe_u := U_soft_timer (int i) \<rparr>) st)
        \<lparr> ps_timers := (ps_timers st)\<lparr> st_timers := (st_timers (ps_timers st))[i :=
            light_timer slot (pe_name e) (ms_to_ticks (light_period (pe_period_ms e)))] \<rparr> \<rparr>, [])"
proof -
  have i: "i < WINK_MAX_SOFT_TIMERS" using first_slot_SomeD(1) [OF assms(4)] assms(2) by simp
  show ?thesis
    using assms i
    by (simp add: start_light_entry_def light_period_def Let_def wink_soft_timer_create_def
        wink_soft_timer_set_name_def wink_soft_timer_start_def bad_handle_def light_timer_def)
qed

lemma start_light_fails:
  assumes "st_initialized (ps_timers st)"
    and "light_period (pe_period_ms e) = 0
      \<or> first_slot (\<lambda>s. tm_callback s = None) (st_timers (ps_timers st)) = None"
    and "ps_entries st ! slot = entry_zero" "slot < length (ps_entries st)"
  shows "start_light_entry slot e st = (Inl WINK_ERR_RESOURCE_EXHAUSTED, st, [])"
proof -
  have "put_entry slot entry_zero st = st" using assms(3) by (metis list_update_id periodic_state.surjective
        periodic_state.update_convs(1) periodic_state.ext_inject old.unit.exhaust)
  then show ?thesis
    using assms(1,2)
    by (auto simp: start_light_entry_def light_period_def Let_def wink_soft_timer_create_def)
qed

lemma start_task_cases:
  assumes "ps_entries st ! slot = entry_zero"
  shows "(\<exists>rc log. start_task_entry env slot stack prio core e st = (Inl rc, st, log))
    \<or> (\<exists>t log. start_task_entry env slot stack prio core e st = (Inr (slot + 1),
          put_entry slot (e\<lparr> pe_kind := PERIODIC_ENTRY_TASK, pe_u := U_task t \<rparr>) st, log)
        \<and> pt_wake_sem t \<noteq> None \<and> pt_done_sem t \<noteq> None)"
proof -
  have "(ps_entries st)[slot := entry_zero] = ps_entries st"
    using assms by (metis list_update_id)
  then have same: "put_entry slot entry_zero st = st" by simp
  show ?thesis by (auto simp: start_task_entry_def Let_def same)
qed

section \<open>The invariant is kept\<close>

lemma entry_ok_task_or_free:
  "pe_kind e = PERIODIC_ENTRY_TASK \<Longrightarrow> entry_ok tm i e = entry_ok tm' i e"
  "pe_kind e = PERIODIC_ENTRY_FREE \<Longrightarrow> entry_ok tm i e = entry_ok tm' i e"
  by (simp_all add: entry_ok_def)

lemma periodic_inv_free_slot:
  assumes "periodic_inv st" "first_slot (\<lambda>e. pe_kind e = PERIODIC_ENTRY_FREE) (ps_entries st) = Some slot"
  shows "slot < WINK_MAX_PERIODIC" "ps_entries st ! slot = entry_zero"
proof -
  note f = first_slot_SomeD [OF assms(2)]
  show s: "slot < WINK_MAX_PERIODIC" using f(1) assms(1) by (simp add: periodic_inv_def)
  then have "entry_ok (ps_timers st) slot (ps_entries st ! slot)"
    using assms(1) by (simp add: periodic_inv_def)
  with f(2) show "ps_entries st ! slot = entry_zero" by (simp add: entry_ok_def)
qed

lemma periodic_inv_start_light:
  assumes inv: "periodic_inv st" and slot: "slot < WINK_MAX_PERIODIC"
    and f: "first_slot (\<lambda>s. tm_callback s = None) (st_timers (ps_timers st)) = Some i" and t: "t \<noteq> 0"
  shows "periodic_inv ((put_entry slot (e\<lparr> pe_kind := PERIODIC_ENTRY_LIGHT, pe_u := U_soft_timer (int i) \<rparr>) st)
        \<lparr> ps_timers := (ps_timers st)\<lparr> st_timers := (st_timers (ps_timers st))[i := light_timer slot nm t] \<rparr> \<rparr>)"
proof -
  let ?ts = "st_timers (ps_timers st)"
  have len: "length ?ts = WINK_MAX_SOFT_TIMERS" using inv by (simp add: periodic_inv_def timers_wf_def)
  have i: "i < WINK_MAX_SOFT_TIMERS" "tm_callback (?ts ! i) = None"
    using first_slot_SomeD(1,2) [OF f] len by simp_all
  have wf: "timers_wf ((ps_timers st)\<lparr> st_timers := ?ts[i := light_timer slot nm t] \<rparr>)"
    using inv t by (intro timers_wf_put) (auto simp: periodic_inv_def timer_ok_def light_timer_def)
  have "entry_ok ((ps_timers st)\<lparr> st_timers := ?ts[i := light_timer slot nm t] \<rparr>) j (ps_entries st ! j)"
    if "j < WINK_MAX_PERIODIC" for j
  proof -
    have "entry_ok (ps_timers st) j (ps_entries st ! j)" using inv that by (simp add: periodic_inv_def)
    then show ?thesis
      using i len by (auto simp: entry_ok_def nth_list_update split: periodic_entry_kind_t.splits)
  qed
  moreover have "entry_ok ((ps_timers st)\<lparr> st_timers := ?ts[i := light_timer slot nm t] \<rparr>) slot
      (e\<lparr> pe_kind := PERIODIC_ENTRY_LIGHT, pe_u := U_soft_timer (int i) \<rparr>)"
    using i len by (auto simp: entry_ok_def light_timer_def)
  ultimately show ?thesis
    using inv slot wf
    by (auto simp: periodic_inv_def nth_list_update light_timer_def
        dest!: set_update_subset_insert [THEN subsetD])
qed

lemma periodic_inv_put_task:
  assumes "periodic_inv st" "slot < WINK_MAX_PERIODIC" "pt_wake_sem t \<noteq> None" "pt_done_sem t \<noteq> None"
  shows "periodic_inv (put_entry slot (e\<lparr> pe_kind := PERIODIC_ENTRY_TASK, pe_u := U_task t \<rparr>) st)"
  using assms by (auto simp: periodic_inv_def nth_list_update entry_ok_def)

text \<open>Every outcome of a start, once.\<close>

lemma start_ex_cases:
  assumes inv: "periodic_inv st"
    and run: "wink_periodic_start_ex env name stack period fn ctx flags prio core st = (res, st', log)"
  shows "(\<exists>rc. res = Inl rc \<and> st' = st)
    \<or> (\<exists>slot e. first_slot (\<lambda>e. pe_kind e = PERIODIC_ENTRY_FREE) (ps_entries st) = Some slot
         \<and> res = Inr (slot + 1) \<and> periodic_inv st' \<and> ps_entries st' = (ps_entries st)[slot := e]
         \<and> pe_kind e \<noteq> PERIODIC_ENTRY_FREE \<and> pe_fn e = fn \<and> pe_ctx e = ctx)"
proof (cases "name = None \<or> fn = None \<or> period = 0
    \<or> flags AND WINK_PERIODIC_LIGHT \<noteq> 0 \<and> flags AND WINK_PERIODIC_MAY_BLOCK \<noteq> 0")
  case True
  then show ?thesis using run by (auto simp: wink_periodic_start_ex_def Let_def split: if_splits)
next
  case False
  show ?thesis
  proof (cases "first_slot (\<lambda>e. pe_kind e = PERIODIC_ENTRY_FREE) (ps_entries st)")
    case None
    then show ?thesis using run False by (auto simp: wink_periodic_start_ex_def Let_def split: if_splits)
  next
    case (Some slot)
    note fs = periodic_inv_free_slot [OF inv Some]
    let ?e = "entry_zero\<lparr> pe_name := name, pe_fn := fn, pe_ctx := ctx, pe_period_ms := period \<rparr>"
    from run False Some have
      "start_task_entry env slot stack prio core ?e st = (res, st', log)
       \<or> start_light_entry slot ?e st = (res, st', log)"
      by (auto simp: wink_periodic_start_ex_def Let_def split: if_splits)
    then show ?thesis
    proof
      assume t: "start_task_entry env slot stack prio core ?e st = (res, st', log)"
      from start_task_cases [OF fs(2), of env stack prio core ?e] show ?thesis
      proof (elim disjE exE conjE)
        fix rc log' assume "start_task_entry env slot stack prio core ?e st = (Inl rc, st, log')"
        with t have "res = Inl rc" "st' = st" by simp_all
        then show ?thesis by blast
      next
        fix u log'
        let ?t = "?e\<lparr> pe_kind := PERIODIC_ENTRY_TASK, pe_u := U_task u \<rparr>"
        assume "start_task_entry env slot stack prio core ?e st = (Inr (slot + 1), put_entry slot ?t st, log')"
          and sems: "pt_wake_sem u \<noteq> None" "pt_done_sem u \<noteq> None"
        with t have "res = Inr (slot + 1)" "st' = put_entry slot ?t st" by simp_all
        with periodic_inv_put_task [OF inv fs(1) sems, of ?e] Some show ?thesis
          by (intro disjI2 exI [of _ slot] exI [of _ ?t]) simp
      qed
    next
      assume l: "start_light_entry slot ?e st = (res, st', log)"
      have ini: "st_initialized (ps_timers st)" "length (st_timers (ps_timers st)) = WINK_MAX_SOFT_TIMERS"
        "slot < length (ps_entries st)"
        using inv fs(1) by (simp_all add: periodic_inv_def timers_wf_def)
      show ?thesis
      proof (cases "light_period period = 0
          \<or> first_slot (\<lambda>s. tm_callback s = None) (st_timers (ps_timers st)) = None")
        case True
        then show ?thesis using start_light_fails [OF ini(1) _ fs(2) ini(3), of ?e] l by auto
      next
        case False
        then obtain i where i: "first_slot (\<lambda>s. tm_callback s = None) (st_timers (ps_timers st)) = Some i"
          "light_period period \<noteq> 0" by auto
        from start_light_ok [OF ini(1,2) _ i(1), of ?e slot] i(2) l
          periodic_inv_start_light [OF inv fs(1) i(1) ms_to_ticks_nonzero]
        show ?thesis using Some by auto
      qed
    qed
  qed
qed

lemma periodic_inv_clear_light:
  assumes inv: "periodic_inv st" and slot: "slot < WINK_MAX_PERIODIC"
    and e: "pe_u (ps_entries st ! slot) = U_soft_timer (int h)"
    and h: "h < WINK_MAX_SOFT_TIMERS" "tm_arg (st_timers (ps_timers st) ! h) = slot"
  shows "periodic_inv ((put_entry slot entry_zero st)\<lparr> ps_timers :=
    (ps_timers st)\<lparr> st_timers := (st_timers (ps_timers st))[h := timer_zero] \<rparr> \<rparr>)"
proof -
  let ?ts = "st_timers (ps_timers st)"
  have len: "length ?ts = WINK_MAX_SOFT_TIMERS" using inv by (simp add: periodic_inv_def timers_wf_def)
  have wf: "timers_wf ((ps_timers st)\<lparr> st_timers := ?ts[h := timer_zero] \<rparr>)"
    using inv by (intro timers_wf_put) (auto simp: periodic_inv_def timer_ok_def timer_zero_def)
  have "entry_ok ((ps_timers st)\<lparr> st_timers := ?ts[h := timer_zero] \<rparr>) j (ps_entries st ! j)"
    if "j < WINK_MAX_PERIODIC" "j \<noteq> slot" for j
  proof -
    have "entry_ok (ps_timers st) j (ps_entries st ! j)" using inv that by (simp add: periodic_inv_def)
    then show ?thesis
      using h len that by (auto simp: entry_ok_def nth_list_update split: periodic_entry_kind_t.splits)
  qed
  then show ?thesis
    using inv slot wf
    by (auto simp: periodic_inv_def nth_list_update entry_ok_def entry_zero_def
        dest!: set_update_subset_insert [THEN subsetD])
qed

lemma stop_light:
  assumes inv: "periodic_inv st" and slot: "slot < WINK_MAX_PERIODIC"
    and e: "pe_kind (ps_entries st ! slot) = PERIODIC_ENTRY_LIGHT"
  obtains h where "h < WINK_MAX_SOFT_TIMERS" "pe_u (ps_entries st ! slot) = U_soft_timer (int h)"
    "tm_arg (st_timers (ps_timers st) ! h) = slot"
    "wink_periodic_stop (int (slot + 1)) st = ((put_entry slot entry_zero st)\<lparr> ps_timers :=
       (ps_timers st)\<lparr> st_timers := (st_timers (ps_timers st))[h := timer_zero] \<rparr> \<rparr>, [])"
proof -
  have "entry_ok (ps_timers st) slot (ps_entries st ! slot)" using inv slot by (simp add: periodic_inv_def)
  then obtain h where h: "pe_u (ps_entries st ! slot) = U_soft_timer (int h)" "h < WINK_MAX_SOFT_TIMERS"
    "tm_callback (st_timers (ps_timers st) ! h) = Some PERIODIC_LIGHT_CB"
    "tm_arg (st_timers (ps_timers st) ! h) = slot"
    using e by (auto simp: entry_ok_def)
  moreover have "wink_periodic_stop (int (slot + 1)) st = ((put_entry slot entry_zero st)\<lparr> ps_timers :=
       (ps_timers st)\<lparr> st_timers := (st_timers (ps_timers st))[h := timer_zero] \<rparr> \<rparr>, [])"
    using h e slot inv
    by (simp add: wink_periodic_stop_def Let_def wink_soft_timer_destroy_def bad_handle_def periodic_inv_def)
  ultimately show ?thesis using that by blast
qed

lemma periodic_inv_stop: "periodic_inv st \<Longrightarrow> periodic_inv (fst (wink_periodic_stop h st))"
proof (cases "0 < h \<and> h - 1 < int WINK_MAX_PERIODIC")
  case True
  assume inv: "periodic_inv st"
  define slot where "slot = nat (h - 1)"
  have slot: "slot < WINK_MAX_PERIODIC" and h: "h = int (slot + 1)" using True by (auto simp: slot_def)
  have ok: "entry_ok (ps_timers st) slot (ps_entries st ! slot)" using inv slot by (simp add: periodic_inv_def)
  show ?thesis
  proof (cases "pe_kind (ps_entries st ! slot)")
    case PERIODIC_ENTRY_FREE
    then show ?thesis using inv True by (simp add: wink_periodic_stop_def Let_def slot_def)
  next
    case PERIODIC_ENTRY_LIGHT
    with stop_light [OF inv slot] obtain k where k: "k < WINK_MAX_SOFT_TIMERS"
      "pe_u (ps_entries st ! slot) = U_soft_timer (int k)" "tm_arg (st_timers (ps_timers st) ! k) = slot"
      "wink_periodic_stop (int (slot + 1)) st = ((put_entry slot entry_zero st)\<lparr> ps_timers :=
         (ps_timers st)\<lparr> st_timers := (st_timers (ps_timers st))[k := timer_zero] \<rparr> \<rparr>, [])"
      by blast
    then show ?thesis using periodic_inv_clear_light [OF inv slot k(2,1,3)] by (simp only: h fst_conv)
  next
    case PERIODIC_ENTRY_TASK
    then obtain t where t: "pe_u (ps_entries st ! slot) = U_task t" using ok by (auto simp: entry_ok_def)
    have "periodic_inv (put_entry slot entry_zero st)"
      using inv slot by (auto simp: periodic_inv_def nth_list_update entry_ok_def entry_zero_def)
    moreover have "fst (wink_periodic_stop h st) = put_entry slot entry_zero st"
      using True t PERIODIC_ENTRY_TASK by (simp add: wink_periodic_stop_def Let_def slot_def)
    ultimately show ?thesis by simp
  qed
qed (auto simp: wink_periodic_stop_def)

text \<open>Starting and stopping periodic callbacks keep the table consistent (free entries are
  cleared, every LIGHT entry owns a live timer of its own, every TASK entry its two semaphores),
  a failed start changes nothing, and a successful one raises the number of active entries by
  exactly one.\<close>
lemma periodic_start_stop_consistent:
  assumes "periodic_inv st"
    and "wink_periodic_start_ex env name stack period fn ctx flags prio core st = (res, st', log)"
  shows "periodic_inv st' \<and> periodic_inv (fst (wink_periodic_stop h st))
    \<and> (\<forall>rc. res = Inl rc \<longrightarrow> st' = st)
    \<and> (\<forall>s. res = Inr s \<longrightarrow> 1 \<le> s \<and> s \<le> WINK_MAX_PERIODIC
          \<and> wink_periodic_active_count st' = Suc (wink_periodic_active_count st))"
proof -
  have stop: "periodic_inv (fst (wink_periodic_stop h st))" using assms(1) by (rule periodic_inv_stop)
  from start_ex_cases [OF assms] show ?thesis
  proof (elim disjE exE conjE)
    fix rc assume "res = Inl rc" "st' = st"
    then show ?thesis using stop assms(1) by simp
  next
    fix slot e
    assume f: "first_slot (\<lambda>e. pe_kind e = PERIODIC_ENTRY_FREE) (ps_entries st) = Some slot"
      and r: "res = Inr (slot + 1)" "periodic_inv st'" "ps_entries st' = (ps_entries st)[slot := e]"
        "pe_kind e \<noteq> PERIODIC_ENTRY_FREE"
    note fd = first_slot_SomeD [OF f]
    have "wink_periodic_active_count st' = Suc (wink_periodic_active_count st)"
      unfolding wink_periodic_active_count_def r(3) by (rule length_filter_upd) (use fd r in auto)
    with r stop fd(1) assms(1) show ?thesis by (auto simp: periodic_inv_def)
  qed
qed

definition demo_periodic :: periodic_state where
  "demo_periodic = \<lparr> ps_entries = replicate 12 entry_zero,
     ps_timers = \<lparr> st_timers = replicate 16 timer_zero, st_initialized = True,
                   st_in_light_dispatch = False \<rparr> \<rparr>"

lemma demo_periodic_inv: "periodic_inv demo_periodic"
  by (auto simp: periodic_inv_def demo_periodic_def timers_wf_def timer_ok_def timer_zero_def
      WINK_MAX_PERIODIC_def WINK_MAX_SOFT_TIMERS_def entry_ok_def entry_zero_def)

definition demo_osal :: osal_env where
  "demo_osal = \<lparr> oe_wake_sem = Some 1, oe_done_sem = Some 2, oe_task_create = WINK_OK,
     oe_task_handle = Some 9 \<rparr>"

lemma periodic_start_stop_consistent_witness:
  "wink_periodic_active_count (fst (snd (wink_periodic_start_ex demo_osal (Some ''t'') 0 100 (Some 3) 4 0 2 0
     demo_periodic))) = 1"
proof -
  obtain r st' log where run: "wink_periodic_start_ex demo_osal (Some ''t'') 0 100 (Some 3) 4 0 2 0
     demo_periodic = (r, st', log)" by (metis prod_cases3)
  moreover have "fst (wink_periodic_start_ex demo_osal (Some ''t'') 0 100 (Some 3) 4 0 2 0
     demo_periodic) = Inr 1" by code_simp
  then have "\<exists>s. r = Inr s" by (simp add: run)
  moreover have "wink_periodic_active_count demo_periodic = 0"
    by (simp add: wink_periodic_active_count_def demo_periodic_def entry_zero_def)
  ultimately show ?thesis
    using periodic_start_stop_consistent [OF demo_periodic_inv run] by auto
qed

text \<open>What a successful start of a LIGHT callback leaves.\<close>

definition light_started ::
  "nat \<Rightarrow> nat \<Rightarrow> string option \<Rightarrow> nat option \<Rightarrow> nat \<Rightarrow> u32 \<Rightarrow> periodic_state \<Rightarrow> periodic_state" where
  "light_started slot i name fn ctx period st =
    (put_entry slot \<lparr> pe_kind = PERIODIC_ENTRY_LIGHT, pe_name = name, pe_fn = fn, pe_ctx = ctx,
         pe_period_ms = period, pe_u = U_soft_timer (int i) \<rparr> st)
      \<lparr> ps_timers := (ps_timers st)\<lparr> st_timers := (st_timers (ps_timers st))[i :=
          light_timer slot name (ms_to_ticks (light_period period))] \<rparr> \<rparr>"

lemma light_start_shape:
  assumes "periodic_inv st"
    and "wink_periodic_start_ex env name stack period fn ctx WINK_PERIODIC_LIGHT prio core st = (Inr h, st', log)"
  obtains slot i where "slot < WINK_MAX_PERIODIC" "ps_entries st ! slot = entry_zero" "h = slot + 1"
    "i < WINK_MAX_SOFT_TIMERS" "st_timers (ps_timers st) ! i = timer_zero" "st' = light_started slot i name fn ctx period st"
proof -
  let ?e = "entry_zero\<lparr> pe_name := name, pe_fn := fn, pe_ctx := ctx, pe_period_ms := period \<rparr>"
  from assms(2) obtain slot where
    f: "first_slot (\<lambda>e. pe_kind e = PERIODIC_ENTRY_FREE) (ps_entries st) = Some slot"
    and l: "start_light_entry slot ?e st = (Inr h, st', log)"
    by (auto simp: wink_periodic_start_ex_def Let_def WINK_PERIODIC_LIGHT_def
        WINK_PERIODIC_MAY_BLOCK_def split: if_splits option.splits)
  note fs = periodic_inv_free_slot [OF assms(1) f]
  have ini: "st_initialized (ps_timers st)" "length (st_timers (ps_timers st)) = WINK_MAX_SOFT_TIMERS"
    "slot < length (ps_entries st)"
    using assms(1) fs(1) by (simp_all add: periodic_inv_def timers_wf_def)
  have "\<not> (light_period period = 0
      \<or> first_slot (\<lambda>s. tm_callback s = None) (st_timers (ps_timers st)) = None)"
    using start_light_fails [OF ini(1) _ fs(2) ini(3), of ?e] l by auto
  then obtain i where i: "first_slot (\<lambda>s. tm_callback s = None) (st_timers (ps_timers st)) = Some i"
    "light_period (pe_period_ms ?e) \<noteq> 0" by auto
  note il = first_slot_SomeD(1,2) [OF i(1)]
  have z: "st_timers (ps_timers st) ! i = timer_zero" using assms(1) il by (auto simp: periodic_inv_def)
  have "h = slot + 1" "st' = light_started slot i name fn ctx period st"
    using start_light_ok [OF ini(1,2) i(2,1), of slot] l by (simp_all add: light_started_def entry_zero_def)
  with that fs il(1) ini(2) z show thesis by simp
qed

text \<open>Stopping a LIGHT callback right after starting it restores the timer table and the
  entry table exactly: no timer slot leaks.\<close>
lemma light_start_stop_roundtrip:
  assumes "periodic_inv st"
    and "wink_periodic_start_ex env name stack period fn ctx WINK_PERIODIC_LIGHT prio core st
      = (Inr h, st', log)"
  shows "wink_periodic_stop (int h) st' = (st, [])"
proof -
  from light_start_shape [OF assms] obtain slot i where
    s: "slot < WINK_MAX_PERIODIC" "ps_entries st ! slot = entry_zero" "h = slot + 1" "i < WINK_MAX_SOFT_TIMERS"
      "st_timers (ps_timers st) ! i = timer_zero" "st' = light_started slot i name fn ctx period st" .
  have ini: "st_initialized (ps_timers st)" "length (st_timers (ps_timers st)) = WINK_MAX_SOFT_TIMERS"
    "length (ps_entries st) = WINK_MAX_PERIODIC"
    using assms(1) by (simp_all add: periodic_inv_def timers_wf_def)
  have ids: "(st_timers (ps_timers st))[i := timer_zero] = st_timers (ps_timers st)"
    "(ps_entries st)[slot := entry_zero] = ps_entries st"
    using s(2,5) by (metis list_update_id)+
  show ?thesis
    using s ini ids
    by (auto simp: wink_periodic_stop_def Let_def wink_soft_timer_destroy_def bad_handle_def light_timer_def
        light_started_def)
qed

lemma light_start_stop_roundtrip_witness:
  "wink_periodic_stop 1 (fst (snd (wink_periodic_start_ex demo_osal (Some ''t'') 0 15 (Some 3) 4
     WINK_PERIODIC_LIGHT 2 0 demo_periodic))) = (demo_periodic, [])"
proof -
  obtain r st' log where run: "wink_periodic_start_ex demo_osal (Some ''t'') 0 15 (Some 3) 4
     WINK_PERIODIC_LIGHT 2 0 demo_periodic = (r, st', log)" by (metis prod_cases3)
  have "fst (wink_periodic_start_ex demo_osal (Some ''t'') 0 15 (Some 3) 4 WINK_PERIODIC_LIGHT 2 0
     demo_periodic) = Inr 1" by code_simp
  with run have "r = Inr 1" by simp
  with light_start_stop_roundtrip [OF demo_periodic_inv, of demo_osal "Some ''t''" 0 15 "Some 3" 4 2 0] run
  show ?thesis by force
qed

section \<open>Deadlines of a task\<close>

primrec task_anchor :: "u32 \<Rightarrow> (nat \<Rightarrow> u64) \<Rightarrow> u64 \<Rightarrow> nat \<Rightarrow> u64" where
  "task_anchor period now start 0 = start"
| "task_anchor period now start (Suc n) =
     fst (periodic_task_turn period (now n) (task_anchor period now start n))"

lemma sint_of_nat_u64: "d < 2 ^ 63 \<Longrightarrow> sint (of_nat d :: u64) = int d"
  by (simp add: signed_of_nat signed_take_bit_int_eq_self)

lemma unat_of_nat_u64: "d < 2 ^ 63 \<Longrightarrow> unat (of_nat d :: u64) = d"
  by (simp add: unat_of_nat)

lemma periodic_task_turn_early:
  assumes "now < next + unat period * 1000" "next \<le> now" "next + unat period * 1000 < 2 ^ 62"
  shows "\<exists>ms. periodic_task_turn period (of_nat now) (of_nat next)
      = (of_nat (next + unat period * 1000), of_nat ms) \<and> ms < 2 ^ 32
    \<and> next + unat period * 1000 \<le> now + ms * 1000 \<and> now + ms * 1000 < next + unat period * 1000 + 1000"
proof -
  define d where "d = next + unat period * 1000 - now"
  have d: "0 < d" "d \<le> unat period * 1000" "d < 2 ^ 62" using assms by (auto simp: d_def)
  define ms where "ms = (d + 999) div 1000"
  have nw: "of_nat next + ucast period * 1000 = (of_nat (next + unat period * 1000) :: u64)"
    by simp
  have "(of_nat (next + unat period * 1000) :: u64) - of_nat now = of_nat d"
    using assms(1) by (simp add: d_def of_nat_diff)
  moreover have "\<not> sint (of_nat d :: u64) \<le> 0" using d sint_of_nat_u64 [of d] by simp
  ultimately have turn: "periodic_task_turn period (of_nat now) (of_nat next)
      = (of_nat (next + unat period * 1000), ucast ((of_nat d + 999 :: u64) div 1000))"
    unfolding periodic_task_turn_def Let_def nw by (simp only: if_False)
  have m32: "ms < 2 ^ 32"
  proof -
    have "unat period < 2 ^ 32" using unsigned_less [of period, where 'a = nat] by simp
    then show ?thesis using d(2) by (simp add: ms_def)
  qed
  have "unat ((of_nat d + 999 :: u64) div 1000) = ms"
  proof -
    have "of_nat d + 999 = (of_nat (d + 999) :: u64)" by simp
    moreover have "unat (of_nat (d + 999) :: u64) = d + 999" using d(3) by (intro unat_of_nat_u64) simp
    ultimately show ?thesis by (simp only: unat_div ms_def) simp
  qed
  then have "(ucast ((of_nat d + 999 :: u64) div 1000) :: u32) = of_nat ms"
    using of_nat_unat [of "(of_nat d + 999 :: u64) div 1000", where 'a = "32 word"] by (simp only:)
  moreover have "ms * 1000 + (d + 999) mod 1000 = d + 999" "(d + 999) mod 1000 < 1000"
    unfolding ms_def by (rule div_mult_mod_eq) simp
  then have "d \<le> ms * 1000" "ms * 1000 < d + 1000" by linarith+
  moreover have "next + unat period * 1000 = now + d" using assms(1) by (simp add: d_def)
  ultimately show ?thesis using turn m32 by (intro exI [of _ ms]) simp
qed

text \<open>A callback that is over only at its next deadline, or later, has overrun: the deadlines start again
  from the present.\<close>

lemma periodic_task_turn_late:
  assumes "next + unat period * 1000 \<le> now" "now < 2 ^ 62"
  shows "periodic_task_turn period (of_nat now) (of_nat next) = (of_nat now, 1)"
proof -
  define d where "d = now - (next + unat period * 1000)"
  have d: "d < 2 ^ 63" using assms by (simp add: d_def)
  have nw: "of_nat next + ucast period * 1000 = (of_nat (next + unat period * 1000) :: u64)" by simp
  have "(of_nat (next + unat period * 1000) :: u64) - of_nat now = - of_nat d"
    using assms(1) by (simp add: d_def of_nat_diff)
  moreover have "sint (- of_nat d :: u64) = - int d"
  proof -
    have "(- of_nat d :: u64) = word_of_int (- int d)" by simp
    then have "sint (- of_nat d :: u64) = signed_take_bit 63 (- int d)" by (simp only: signed_of_int) simp
    also have "signed_take_bit 63 (- int d) = - int d"
    proof (rule signed_take_bit_int_eq_self)
      have "int d < 2 ^ 63" using d by (metis of_nat_less_iff of_nat_numeral of_nat_power)
      then show "- (2 ^ 63) \<le> - int d" "- int d < 2 ^ 63" by linarith+
    qed
    finally show ?thesis .
  qed
  ultimately have "sint (of_nat (next + unat period * 1000) - of_nat now :: u64) \<le> 0" by simp
  then show ?thesis unfolding periodic_task_turn_def Let_def nw by (simp only: if_True)
qed

text \<open>C10: the task path does not drift, as long as no wait ends before its deadline and the clock does not
  wrap. A callback that is over before the next deadline leaves it exactly a period after the last one,
  however long it took, and the wait that follows ends at it, rounded up to a millisecond. A callback that
  overruns the next deadline makes the present the deadline and waits one millisecond. So after any
  callbacks that did not overrun, whatever happened before, the deadline is exactly as many periods on.\<close>
theorem periodic_task_does_not_drift:
  fixes now :: "nat \<Rightarrow> nat" and period :: u32 and start :: u64
  defines "a \<equiv> \<lambda>n. unat (task_anchor period (\<lambda>n. of_nat (now n)) start n)" and "p \<equiv> unat period * 1000"
  defines "ms \<equiv> \<lambda>n. unat (snd (periodic_task_turn period (of_nat (now n)) (of_nat (a n))))"
  assumes "\<forall>n < k. a n \<le> now n \<and> now n + p < 2 ^ 62" "n < k"
  shows "(if now n < a n + p then a (Suc n) = a n + p \<and> a n + p \<le> now n + ms n * 1000 \<and> now n + ms n * 1000 < a n + p + 1000
      else a (Suc n) = now n \<and> ms n = 1)
    \<and> (\<forall>m \<le> n. (\<forall>i \<in> {m .. n}. now i < a i + p) \<longrightarrow> a (Suc n) = a m + (Suc n - m) * p)"
proof -
  let ?t = "task_anchor period (\<lambda>n. of_nat (now n)) start"
  have turn: "if now n < a n + p then a (Suc n) = a n + p \<and> a n + p \<le> now n + ms n * 1000 \<and> now n + ms n * 1000 < a n + p + 1000
      else a (Suc n) = now n \<and> ms n = 1" if "n < k" for n
  proof -
    have b: "a n \<le> now n" "now n + p < 2 ^ 62" "?t n = of_nat (a n)" using assms(4) that by (simp_all add: a_def)
    have suc: "a (Suc n) = unat (fst (periodic_task_turn period (of_nat (now n)) (of_nat (a n))))"
      using b(3) by (simp add: a_def)
    show ?thesis
    proof (cases "now n < a n + p")
      case True
      then obtain w where w: "periodic_task_turn period (of_nat (now n)) (of_nat (a n)) = (of_nat (a n + p), of_nat w)"
        "w < 2 ^ 32" "a n + p \<le> now n + w * 1000" "now n + w * 1000 < a n + p + 1000"
        using periodic_task_turn_early [of "now n" "a n" period] b(1,2) by (auto simp: p_def)
      have "a (Suc n) = a n + p" using w(1) b(1,2) by (simp add: suc unat_of_nat_u64 del: of_nat_add)
      with True w show ?thesis by (simp add: ms_def unat_of_nat)
    next
      case False
      then have late: "periodic_task_turn period (of_nat (now n)) (of_nat (a n)) = (of_nat (now n), 1)"
        using periodic_task_turn_late [of "a n" period "now n"] b(2) by (simp add: p_def)
      have "a (Suc n) = now n" using late b(2) by (simp add: suc unat_of_nat_u64)
      with False late show ?thesis by (simp add: ms_def)
    qed
  qed
  have "a (Suc n) = a m + (Suc n - m) * p" if "m \<le> n" "\<forall>i \<in> {m .. n}. now i < a i + p" for m
    using that assms(5)
  proof (induction n)
    case 0
    then show ?case using turn [of 0] by simp
  next
    case (Suc n)
    have step: "a (Suc (Suc n)) = a (Suc n) + p" using turn [of "Suc n"] Suc.prems by (auto split: if_splits)
    show ?case
    proof (cases "m = Suc n")
      case False
      with Suc.IH Suc.prems have "a (Suc n) = a m + (Suc n - m) * p" "m \<le> n" by auto
      with step show ?thesis by (simp add: Suc_diff_le)
    qed (use step in simp)
  qed
  with turn [OF assms(5)] show ?thesis by blast
qed

text \<open>A period of 20 ms; the third callback overruns, the deadlines go on from its end.\<close>

lemma periodic_task_does_not_drift_witness:
  defines "now \<equiv> \<lambda>n. [7000, 27000, 75000, 80000, 96000] ! n"
  shows "unat (task_anchor 20 (\<lambda>n. of_nat (now n)) 0 2) = 40000 \<and> unat (task_anchor 20 (\<lambda>n. of_nat (now n)) 0 3) = 75000
    \<and> unat (task_anchor 20 (\<lambda>n. of_nat (now n)) 0 5) = 75000 + 2 * 20000"
proof -
  let ?t = "task_anchor 20 (\<lambda>n. of_nat (now n)) 0"
  have turns: "periodic_task_turn 20 7000 0 = (20000, 13)" "periodic_task_turn 20 27000 20000 = (40000, 13)"
    "periodic_task_turn 20 75000 40000 = (75000, 1)" "periodic_task_turn 20 80000 75000 = (95000, 15)"
    by code_simp+
  have step: "?t (Suc n) = fst (periodic_task_turn 20 (of_nat (now n)) (?t n))" for n by simp
  have t1: "?t 1 = 20000" using step [of 0] by (simp add: now_def turns)
  have t2: "?t 2 = 40000" using step [of 1] t1 by (simp add: now_def turns numeral_2_eq_2 del: task_anchor.simps)
  have t3: "?t 3 = 75000" using step [of 2] t2 by (simp add: now_def turns del: task_anchor.simps)
  have t4: "?t 4 = 95000" using step [of 3] t3 by (simp add: now_def turns del: task_anchor.simps)
  have t0: "?t 0 = 0" by simp
  note t = t0 t1 t2 t3 t4
  have run: "\<forall>n < 5. unat (?t n) \<le> now n \<and> now n + unat (20 :: u32) * 1000 < 2 ^ 62"
  proof (intro allI impI)
    fix n :: nat
    assume "n < 5"
    then have "n = 0 \<or> n = 1 \<or> n = 2 \<or> n = 3 \<or> n = 4" by auto
    then show "unat (?t n) \<le> now n \<and> now n + unat (20 :: u32) * 1000 < 2 ^ 62"
      by (elim disjE) (simp_all only: t, simp_all add: now_def)
  qed
  have "{3 .. 4 :: nat} = {3, 4}" by auto
  then have "\<forall>i \<in> {3 .. 4}. now i < unat (?t i) + unat (20 :: u32) * 1000" using t by (simp add: now_def)
  moreover have "(4 :: nat) < 5" "(3 :: nat) \<le> 4" by simp_all
  ultimately have "unat (?t (Suc 4)) = unat (?t 3) + (Suc 4 - 3) * (unat (20 :: u32) * 1000)"
    using conjunct2 [OF periodic_task_does_not_drift [OF run]] by blast
  then have "unat (?t 5) = unat (?t 3) + 2 * 20000" by (simp del: task_anchor.simps)
  with t show ?thesis by simp
qed

section \<open>Divergences\<close>

text \<open>The tick alignment of a LIGHT period differs between the two entry points: the start
  rounds a period that is no multiple of the 10 ms tick up, a change to the same period rounds
  it down, so re-applying the current period makes the callback one tick faster.\<close>
lemma light_period_alignment_differs:
  assumes "10 < p" "p < 2 ^ 32 - 10" "p mod 10 \<noteq> 0"
  shows "ms_to_ticks (light_period (of_nat p)) = of_nat (p div 10 + 1)
    \<and> ms_to_ticks (of_nat p) = of_nat (p div 10)"
proof -
  have u: "unat (of_nat q :: u32) = q" if "q < 2 ^ 32" for q using that by (simp add: unat_of_nat)
  have dv: "of_nat q div WINK_RUNTIME_TICK_MS = (of_nat (q div 10) :: u32)" if "q < 2 ^ 32" for q
  proof -
    have "unat (of_nat q div WINK_RUNTIME_TICK_MS) = unat (of_nat (q div 10) :: u32)"
      using that u [of q] u [of "q div 10"] by (simp add: unat_div WINK_RUNTIME_TICK_MS_def)
    then show ?thesis by (simp only: word_unat_eq_iff)
  qed
  have nz: "(of_nat q :: u32) \<noteq> 0" if "q < 2 ^ 32" "0 < q" for q
  proof
    assume "(of_nat q :: u32) = 0"
    then have "unat (of_nat q :: u32) = 0" by (simp only: unat_0)
    with u [OF that(1)] that(2) show False by simp
  qed
  have up: "(p + 9) div 10 = p div 10 + 1"
  proof (rule div_nat_eqI)
    have "p div 10 * 10 + p mod 10 = p" "p mod 10 < 10" "0 < p mod 10" using assms(3) by simp_all
    then show "10 * (p div 10 + 1) \<le> p + 9" "p + 9 < 10 * Suc (p div 10 + 1)"
      by (simp_all only: distrib_left mult_Suc_right mult.commute [of 10 "p div 10"])
  qed
  have "of_nat p + WINK_RUNTIME_TICK_MS - 1 = (of_nat (p + 9) :: u32)"
    by (simp add: WINK_RUNTIME_TICK_MS_def)
  moreover have "of_nat (p + 9) div WINK_RUNTIME_TICK_MS = (of_nat (p div 10 + 1) :: u32)"
    using dv [of "p + 9"] assms(2) by (simp only: up)
  ultimately have "light_period (of_nat p) = of_nat (p div 10 + 1) * WINK_RUNTIME_TICK_MS"
    by (simp only: light_period_def)
  then have lp: "light_period (of_nat p) = of_nat ((p div 10 + 1) * 10)"
    by (simp add: WINK_RUNTIME_TICK_MS_def)
  have "p div 10 * 10 \<le> p" by (rule div_times_less_eq_dividend)
  with assms(2) have "(p div 10 + 1) * 10 < 2 ^ 32" by simp
  then have "ms_to_ticks (light_period (of_nat p)) = of_nat (p div 10 + 1)"
    using dv [of "(p div 10 + 1) * 10"] nz [of "p div 10 + 1"] lp by (simp add: ms_to_ticks_def Let_def)
  moreover have "ms_to_ticks (of_nat p) = of_nat (p div 10)"
    using dv [of p] nz [of "p div 10"] assms by (simp add: ms_to_ticks_def Let_def)
  ultimately show ?thesis by blast
qed

lemma light_period_alignment_differs_witness:
  "ms_to_ticks (light_period (of_nat 15)) = of_nat (15 div 10 + 1) \<and> ms_to_ticks (of_nat 15) = of_nat (15 div 10)"
  by (rule light_period_alignment_differs) simp_all

text \<open>The stop flag a running task reads from its entry.\<close>

definition task_stop_requested :: "periodic_state \<Rightarrow> nat \<Rightarrow> bool" where
  "task_stop_requested st slot =
     (case pe_u (ps_entries st ! slot) of U_task t \<Rightarrow> pt_stop_requested t | _ \<Rightarrow> False)"

lemma periodic_task_fn_unstopped:
  "periodic_task_fn (\<lambda>n. False) period now t fuel n next_wake = None"
  by (induction fuel arbitrary: n next_wake) (auto split: prod.split)

text \<open>Stopping a TASK clears its entry even when the task did not finish within the 500 ms it
  is given: the stop flag the task reads is false again, and a task that had not yet seen it
  never leaves its loop, for any number of turns, while its slot is free for another entry.\<close>
lemma stop_after_timeout_orphans_task:
  assumes "periodic_inv st" "slot < WINK_MAX_PERIODIC"
    and "pe_kind (ps_entries st ! slot) = PERIODIC_ENTRY_TASK"
    and "wink_periodic_stop (int (slot + 1)) st = (st', log)"
  shows "pe_kind (ps_entries st' ! slot) = PERIODIC_ENTRY_FREE
    \<and> periodic_task_fn (\<lambda>n. task_stop_requested st' slot) period now t fuel n next_wake = None"
proof -
  have "entry_ok (ps_timers st) slot (ps_entries st ! slot)" "slot < length (ps_entries st)"
    using assms(1,2) by (simp_all add: periodic_inv_def)
  then obtain u where u: "pe_u (ps_entries st ! slot) = U_task u" using assms(3) by (auto simp: entry_ok_def)
  then have "st' = put_entry slot entry_zero st"
    using assms(2-4) by (simp add: wink_periodic_stop_def Let_def)
  then have "ps_entries st' ! slot = entry_zero" using \<open>slot < length (ps_entries st)\<close> by simp
  then show ?thesis
    by (simp add: task_stop_requested_def entry_zero_def periodic_task_fn_unstopped)
qed

lemma stop_after_timeout_witness:
  "pe_kind (ps_entries (fst (wink_periodic_stop 1 (fst (snd (wink_periodic_start_ex demo_osal (Some ''t'')
     0 100 (Some 3) 4 0 2 0 demo_periodic))))) ! 0) = PERIODIC_ENTRY_FREE"
proof -
  let ?run = "wink_periodic_start_ex demo_osal (Some ''t'') 0 100 (Some 3) 4 0 2 0 demo_periodic"
  obtain st' log where stop: "wink_periodic_stop 1 (fst (snd ?run)) = (st', log)" by fastforce
  have kind: "pe_kind (ps_entries (fst (snd ?run)) ! 0) = PERIODIC_ENTRY_TASK" by code_simp
  obtain r s l where run: "?run = (r, s, l)" by (metis prod_cases3)
  have "periodic_inv s"
    using start_ex_cases [OF demo_periodic_inv run] demo_periodic_inv by auto
  with run have "periodic_inv (fst (snd ?run))" by simp
  from stop_after_timeout_orphans_task [OF this _ kind, of st' log] stop show ?thesis
    by (simp add: WINK_MAX_PERIODIC_def)
qed

end
