(* ===== verification/Sim_Responder.thy ===== *)
theory Sim_Responder
  imports Actuator_Registry
begin

text \<open>
  The virtual bus peripherals of \<^verbatim>\<open>targets/common/src/sim_responder.c\<close>: a table of pointers to
  responders found by bus, port and address, and the built-in AT24C02 EEPROM and MPU9250
  sensor. Responders live in a store indexed by their addresses, because the table aliases the
  objects of its clients; the two default devices are the statics of the C file. Transfers of a
  client's own responder are the parameter \<open>custom\<close>.
\<close>

section \<open>Data\<close>

datatype sim_bus_type_t = SIM_BUS_TYPE_I2C | SIM_BUS_TYPE_SPI | SIM_BUS_TYPE_UART

record at24c02 =
  ee_memory :: "u8 list"
  ee_word_addr :: u8

record mpu9250 =
  mp_registers :: "u8 list"
  mp_current_reg :: u8

text \<open>The transfer function of a responder together with the state it works on.\<close>

datatype sim_device =
    No_transfer
  | Custom nat
  | At24c02 at24c02
  | Mpu9250 mpu9250

record sim_responder_t =
  sr_bus_type :: sim_bus_type_t
  sr_port :: u8
  sr_address :: u16
  sr_in_use :: bool
  sr_device :: sim_device

record responders =
  rs_table :: "nat option list"
  rs_count :: nat
  rs_mem :: "nat \<Rightarrow> sim_responder_t"
  rs_mpu9250_inited :: bool
  rs_at24c02_inited :: bool

type_synonym buf = "u8 list option"
type_synonym custom_transfer =
  "nat \<Rightarrow> sim_responder_t \<Rightarrow> buf \<Rightarrow> nat \<Rightarrow> buf \<Rightarrow> nat \<Rightarrow> wink_status_t \<times> buf \<times> sim_responder_t"

definition SIM_MAX_RESPONDERS :: nat where "SIM_MAX_RESPONDERS = 16"
definition SIM_EEPROM_AT24C02_SIZE :: nat where "SIM_EEPROM_AT24C02_SIZE = 256"
definition SIM_MPU9250_REG_MAP_SIZE :: nat where "SIM_MPU9250_REG_MAP_SIZE = 128"

text \<open>The addresses of \<^verbatim>\<open>s_default_mpu9250\<close> and \<^verbatim>\<open>s_default_at24c02\<close>.\<close>

definition s_default_mpu9250 :: nat where "s_default_mpu9250 = 0"
definition s_default_at24c02 :: nat where "s_default_at24c02 = 1"

section \<open>Registration\<close>

definition same_place :: "sim_responder_t \<Rightarrow> sim_responder_t \<Rightarrow> bool" where
  "same_place a b \<longleftrightarrow> sr_bus_type a = sr_bus_type b \<and> sr_port a = sr_port b \<and> sr_address a = sr_address b"

abbreviation registered :: "responders \<Rightarrow> nat list" where
  "registered s \<equiv> map the (take (rs_count s) (rs_table s))"

text \<open>The search of the registration: the status of its early return, if it returns.\<close>

fun register_scan :: "(nat \<Rightarrow> sim_responder_t) \<Rightarrow> nat \<Rightarrow> nat list \<Rightarrow> wink_status_t option" where
  "register_scan mem p [] = None"
| "register_scan mem p (q # qs) =
     (if q = p then Some WINK_OK
      else if same_place (mem q) (mem p) then Some WINK_ERR_INVALID_STATE
      else register_scan mem p qs)"

definition sim_responder_register :: "nat option \<Rightarrow> responders \<Rightarrow> wink_status_t \<times> responders" where
  "sim_responder_register responder s =
    (case responder of None \<Rightarrow> (WINK_ERR_INVALID_ARG, s)
     | Some p \<Rightarrow>
       (case register_scan (rs_mem s) p (registered s) of Some st \<Rightarrow> (st, s)
        | None \<Rightarrow>
          if rs_count s \<ge> SIM_MAX_RESPONDERS then (WINK_ERR_NO_MEM, s)
          else (WINK_OK, s\<lparr> rs_mem := (rs_mem s)(p := (rs_mem s p)\<lparr> sr_in_use := True \<rparr>),
                            rs_table := (rs_table s)[rs_count s := Some p],
                            rs_count := rs_count s + 1 \<rparr>)))"

definition sim_responder_unregister :: "nat option \<Rightarrow> responders \<Rightarrow> wink_status_t \<times> responders" where
  "sim_responder_unregister responder s =
    (case responder of None \<Rightarrow> (WINK_ERR_INVALID_ARG, s)
     | Some p \<Rightarrow>
       (case first_slot (\<lambda>q. q = Some p) (take (rs_count s) (rs_table s)) of
          None \<Rightarrow> (WINK_ERR_NOT_FOUND, s)
        | Some i \<Rightarrow>
          (WINK_OK, s\<lparr> rs_mem := (rs_mem s)(p := (rs_mem s p)\<lparr> sr_in_use := False \<rparr>),
             rs_table := (shift_down (rs_count s - (i + 1)) (i + 1) (rs_table s))[rs_count s - 1 := None],
             rs_count := rs_count s - 1 \<rparr>)))"

definition clear_in_use :: "nat option \<Rightarrow> (nat \<Rightarrow> sim_responder_t) \<Rightarrow> nat \<Rightarrow> sim_responder_t" where
  "clear_in_use q mem = (case q of None \<Rightarrow> mem | Some p \<Rightarrow> mem(p := (mem p)\<lparr> sr_in_use := False \<rparr>))"

definition sim_responder_reset_all :: "responders \<Rightarrow> responders" where
  "sim_responder_reset_all s =
    s\<lparr> rs_mem := fold clear_in_use (take (rs_count s) (rs_table s)) (rs_mem s),
       rs_table := replicate (rs_count s) None @ drop (rs_count s) (rs_table s),
       rs_count := 0, rs_mpu9250_inited := False, rs_at24c02_inited := False \<rparr>"

section \<open>The EEPROM\<close>

fun eeprom_read :: "nat \<Rightarrow> nat \<Rightarrow> u8 list \<Rightarrow> at24c02 \<Rightarrow> u8 list \<times> at24c02" where
  "eeprom_read 0 i rb e = (rb, e)"
| "eeprom_read (Suc n) i rb e =
     eeprom_read n (Suc i) (rb[i := ee_memory e ! unat (ee_word_addr e)])
       (e\<lparr> ee_word_addr := ee_word_addr e + 1 \<rparr>)"

fun eeprom_write :: "u8 list \<Rightarrow> at24c02 \<Rightarrow> at24c02" where
  "eeprom_write [] e = e"
| "eeprom_write (b # bs) e =
     eeprom_write bs (e\<lparr> ee_memory := (ee_memory e)[unat (ee_word_addr e) := b],
                         ee_word_addr := ee_word_addr e + 1 \<rparr>)"

definition be16 :: "u8 \<Rightarrow> u8 \<Rightarrow> u8" where
  "be16 hi lo = ucast (push_bit 8 (ucast hi :: u16) OR ucast lo)"

definition at24c02_write_phase :: "at24c02 \<Rightarrow> buf \<Rightarrow> nat \<Rightarrow> at24c02" where
  "at24c02_write_phase e write_buf write_len =
    (case write_buf of None \<Rightarrow> e
     | Some wb \<Rightarrow>
       if write_len = 0 then e
       else if write_len = 1 then e\<lparr> ee_word_addr := wb ! 0 \<rparr>
       else if wb ! 0 = 0 \<and> write_len > 2
       then eeprom_write (drop 2 (take write_len wb)) (e\<lparr> ee_word_addr := be16 (wb ! 0) (wb ! 1) \<rparr>)
       else eeprom_write (drop 1 (take write_len wb)) (e\<lparr> ee_word_addr := wb ! 0 \<rparr>))"

definition at24c02_read_phase :: "at24c02 \<Rightarrow> buf \<Rightarrow> nat \<Rightarrow> u8 list \<Rightarrow> nat \<Rightarrow> u8 list \<times> at24c02" where
  "at24c02_read_phase e write_buf write_len rb read_len =
    (let e = (case write_buf of None \<Rightarrow> e
              | Some wb \<Rightarrow>
                if write_len = 0 then e
                else if write_len = 1 then e\<lparr> ee_word_addr := wb ! 0 \<rparr>
                else e\<lparr> ee_word_addr := be16 (wb ! (write_len - 2)) (wb ! (write_len - 1)) \<rparr>)
     in eeprom_read read_len 0 rb e)"

definition at24c02_transfer :: "at24c02 \<Rightarrow> buf \<Rightarrow> nat \<Rightarrow> buf \<Rightarrow> nat \<Rightarrow> wink_status_t \<times> buf \<times> at24c02" where
  "at24c02_transfer e write_buf write_len read_buf read_len =
    (if read_buf \<noteq> None \<and> read_len > 0
     then let (rb, e) = at24c02_read_phase e write_buf write_len (the read_buf) read_len
          in (WINK_OK, Some rb, e)
     else (WINK_OK, read_buf, at24c02_write_phase e write_buf write_len))"

definition sim_i2c_eeprom_at24c02_init ::
  "nat option \<Rightarrow> u8 \<Rightarrow> u16 \<Rightarrow> responders \<Rightarrow> wink_status_t \<times> responders" where
  "sim_i2c_eeprom_at24c02_init eeprom port address s =
    (case eeprom of None \<Rightarrow> (WINK_ERR_INVALID_ARG, s)
     | Some p \<Rightarrow>
       sim_responder_register (Some p)
         (s\<lparr> rs_mem := (rs_mem s)(p := \<lparr> sr_bus_type = SIM_BUS_TYPE_I2C, sr_port = port,
               sr_address = address, sr_in_use = False,
               sr_device = At24c02 \<lparr> ee_memory = replicate SIM_EEPROM_AT24C02_SIZE 0xFF,
                 ee_word_addr = 0 \<rparr> \<rparr>) \<rparr>))"

definition sim_i2c_eeprom_at24c02_reset :: "at24c02 \<Rightarrow> at24c02" where
  "sim_i2c_eeprom_at24c02_reset e =
    e\<lparr> ee_memory := replicate SIM_EEPROM_AT24C02_SIZE 0xFF, ee_word_addr := 0 \<rparr>"

section \<open>The inertial sensor\<close>

definition sim_i2c_sensor_mpu9250_reset :: "mpu9250 \<Rightarrow> mpu9250" where
  "sim_i2c_sensor_mpu9250_reset m =
    m\<lparr> mp_registers := (replicate SIM_MPU9250_REG_MAP_SIZE 0)[0x75 := 0x71, 0x6B := 0x01],
       mp_current_reg := 0 \<rparr>"

definition mpu_reg :: "mpu9250 \<Rightarrow> nat \<Rightarrow> u8" where
  "mpu_reg m i = (mp_current_reg m + of_nat i) AND 0x7F"

text \<open>The write loop from byte \<open>i + 1\<close> of the buffer on: a soft reset clears the register
  pointer the following bytes are placed by.\<close>

fun mpu_write :: "u8 list \<Rightarrow> nat \<Rightarrow> mpu9250 \<Rightarrow> mpu9250" where
  "mpu_write [] i m = m"
| "mpu_write (b # bs) i m =
     (let reg = mpu_reg m i;
          m = m\<lparr> mp_registers := (mp_registers m)[unat reg := b] \<rparr>;
          m = (if reg = 0x6B \<and> b AND 0x80 \<noteq> 0 then sim_i2c_sensor_mpu9250_reset m else m)
      in mpu_write bs (Suc i) m)"

fun mpu_read :: "nat \<Rightarrow> nat \<Rightarrow> u8 list \<Rightarrow> mpu9250 \<Rightarrow> u8 list" where
  "mpu_read 0 i rb m = rb"
| "mpu_read (Suc n) i rb m = mpu_read n (Suc i) (rb[i := mp_registers m ! unat (mpu_reg m i)]) m"

definition mpu9250_transfer :: "mpu9250 \<Rightarrow> buf \<Rightarrow> nat \<Rightarrow> buf \<Rightarrow> nat \<Rightarrow> wink_status_t \<times> buf \<times> mpu9250" where
  "mpu9250_transfer m write_buf write_len read_buf read_len =
    (let m = (case write_buf of None \<Rightarrow> m
              | Some wb \<Rightarrow>
                if write_len = 0 then m
                else mpu_write (drop 1 (take write_len wb)) 0 (m\<lparr> mp_current_reg := wb ! 0 AND 0x7F \<rparr>))
     in (WINK_OK, map_option (\<lambda>rb. mpu_read read_len 0 rb m) read_buf, m))"

definition sim_i2c_sensor_mpu9250_init ::
  "nat option \<Rightarrow> u8 \<Rightarrow> u16 \<Rightarrow> responders \<Rightarrow> wink_status_t \<times> responders" where
  "sim_i2c_sensor_mpu9250_init mpu port address s =
    (case mpu of None \<Rightarrow> (WINK_ERR_INVALID_ARG, s)
     | Some p \<Rightarrow>
       sim_responder_register (Some p)
         (s\<lparr> rs_mem := (rs_mem s)(p := \<lparr> sr_bus_type = SIM_BUS_TYPE_I2C, sr_port = port,
               sr_address = address, sr_in_use = False,
               sr_device = Mpu9250 (sim_i2c_sensor_mpu9250_reset
                 \<lparr> mp_registers = replicate SIM_MPU9250_REG_MAP_SIZE 0, mp_current_reg = 0 \<rparr>) \<rparr>) \<rparr>))"

section \<open>Dispatch\<close>

definition answers :: "sim_bus_type_t \<Rightarrow> u8 \<Rightarrow> u16 \<Rightarrow> sim_responder_t \<Rightarrow> bool" where
  "answers bus_type port address r \<longleftrightarrow> sr_in_use r \<and> sr_bus_type r = bus_type \<and> sr_port r = port
    \<and> sr_address r = address"

text \<open>The responder a transfer goes to, with the default devices created on demand.\<close>

definition dispatch_target ::
  "sim_bus_type_t \<Rightarrow> u8 \<Rightarrow> u16 \<Rightarrow> responders \<Rightarrow> nat option \<times> responders" where
  "dispatch_target bus_type port address s =
    (case first_slot (\<lambda>q. q \<noteq> None \<and> answers bus_type port address (rs_mem s (the q)))
            (take (rs_count s) (rs_table s)) of
       Some i \<Rightarrow> (rs_table s ! i, s)
     | None \<Rightarrow>
       if bus_type = SIM_BUS_TYPE_I2C \<and> (address = 0x68 \<or> address = 0x69)
       then (Some s_default_mpu9250,
             if rs_mpu9250_inited s then s
             else (snd (sim_i2c_sensor_mpu9250_init (Some s_default_mpu9250) port address s))
                    \<lparr> rs_mpu9250_inited := True \<rparr>)
       else if bus_type = SIM_BUS_TYPE_I2C \<and> address \<ge> 0x50 \<and> address \<le> 0x57
       then (Some s_default_at24c02,
             if rs_at24c02_inited s then s
             else (snd (sim_i2c_eeprom_at24c02_init (Some s_default_at24c02) port address s))
                    \<lparr> rs_at24c02_inited := True \<rparr>)
       else (None, s))"

definition responder_transfer ::
  "custom_transfer \<Rightarrow> sim_responder_t \<Rightarrow> buf \<Rightarrow> nat \<Rightarrow> buf \<Rightarrow> nat \<Rightarrow> wink_status_t \<times> buf \<times> sim_responder_t"
where
  "responder_transfer custom r write_buf write_len read_buf read_len =
    (case sr_device r of
       No_transfer \<Rightarrow> (WINK_OK, read_buf, r)
     | Custom f \<Rightarrow> custom f r write_buf write_len read_buf read_len
     | At24c02 e \<Rightarrow>
         let (st, rb, e) = at24c02_transfer e write_buf write_len read_buf read_len
         in (st, rb, r\<lparr> sr_device := At24c02 e \<rparr>)
     | Mpu9250 m \<Rightarrow>
         let (st, rb, m) = mpu9250_transfer m write_buf write_len read_buf read_len
         in (st, rb, r\<lparr> sr_device := Mpu9250 m \<rparr>))"

definition sim_responder_dispatch ::
  "custom_transfer \<Rightarrow> sim_bus_type_t \<Rightarrow> u8 \<Rightarrow> u16 \<Rightarrow> buf \<Rightarrow> nat \<Rightarrow> buf \<Rightarrow> nat \<Rightarrow> responders
    \<Rightarrow> wink_status_t \<times> buf \<times> responders" where
  "sim_responder_dispatch custom bus_type port address write_buf write_len read_buf read_len s =
    (case dispatch_target bus_type port address s of
       (None, s) \<Rightarrow> (WINK_ERR_NOT_FOUND, read_buf, s)
     | (Some p, s) \<Rightarrow>
       if write_len = 0 \<and> read_len = 0 then (WINK_OK, read_buf, s)
       else let (st, rb, r) = responder_transfer custom (rs_mem s p) write_buf write_len read_buf read_len
            in (st, rb, s\<lparr> rs_mem := (rs_mem s)(p := r) \<rparr>))"

section \<open>The table has one responder per place\<close>

definition place :: "sim_responder_t \<Rightarrow> sim_bus_type_t \<times> u8 \<times> u16" where
  "place r = (sr_bus_type r, sr_port r, sr_address r)"

lemma same_place_eq: "same_place a b \<longleftrightarrow> place a = place b"
  by (simp add: same_place_def place_def)

lemma place_in_use [simp]: "place (r\<lparr> sr_in_use := b \<rparr>) = place r" "place (r\<lparr> sr_device := d \<rparr>) = place r"
  by (simp_all add: place_def)

definition resp_inv :: "responders \<Rightarrow> bool" where
  "resp_inv s \<longleftrightarrow> length (rs_table s) = SIM_MAX_RESPONDERS \<and> rs_count s \<le> SIM_MAX_RESPONDERS
    \<and> None \<notin> set (take (rs_count s) (rs_table s))
    \<and> distinct (registered s)
    \<and> inj_on (\<lambda>p. place (rs_mem s p)) (set (registered s))
    \<and> (s_default_mpu9250 \<in> set (registered s) \<longrightarrow> rs_mpu9250_inited s)
    \<and> (s_default_at24c02 \<in> set (registered s) \<longrightarrow> rs_at24c02_inited s)"

lemma register_scan_None:
  "register_scan mem p qs = None \<longleftrightarrow> p \<notin> set qs \<and> place (mem p) \<notin> (\<lambda>q. place (mem q)) ` set qs"
  by (induction qs) (auto simp: same_place_eq)

lemma resp_inv_mem:
  assumes "resp_inv s" "\<And>q. q \<in> set (registered s) \<Longrightarrow> place (f q) = place (rs_mem s q)"
  shows "resp_inv (s\<lparr> rs_mem := f \<rparr>)"
proof -
  have "inj_on (\<lambda>p. place (f p)) (set (registered s)) = inj_on (\<lambda>p. place (rs_mem s p)) (set (registered s))"
    by (rule inj_on_cong) (rule assms(2))
  with assms(1) show ?thesis by (simp add: resp_inv_def)
qed

lemma resp_inv_register:
  assumes "resp_inv s"
    and "p = s_default_mpu9250 \<longrightarrow> rs_mpu9250_inited s" "p = s_default_at24c02 \<longrightarrow> rs_at24c02_inited s"
  shows "resp_inv (snd (sim_responder_register (Some p) s))"
proof (cases "register_scan (rs_mem s) p (registered s) = None \<and> rs_count s < SIM_MAX_RESPONDERS")
  case False
  with assms(1) show ?thesis by (auto simp: sim_responder_register_def split: option.split)
next
  case True
  then have new: "p \<notin> set (registered s)" "place (rs_mem s p) \<notin> (\<lambda>q. place (rs_mem s q)) ` set (registered s)"
    by (simp_all only: register_scan_None not_False_eq_True)
  let ?s = "snd (sim_responder_register (Some p) s)"
  have s: "?s = s\<lparr> rs_mem := (rs_mem s)(p := (rs_mem s p)\<lparr> sr_in_use := True \<rparr>),
      rs_table := (rs_table s)[rs_count s := Some p], rs_count := rs_count s + 1 \<rparr>"
    using True by (simp add: sim_responder_register_def)
  have tk: "take (rs_count ?s) (rs_table ?s) = take (rs_count s) (rs_table s) @ [Some p]"
    using True assms(1) by (simp add: s resp_inv_def take_Suc_conv_app_nth)
  then have reg: "registered ?s = registered s @ [p]" by simp
  have "(\<lambda>q. place (rs_mem ?s q)) = (\<lambda>q. place (rs_mem s q))"
    by (simp add: s fun_eq_iff)
  moreover have "inj_on (\<lambda>q. place (rs_mem s q)) (set (registered ?s))"
    using assms(1) new unfolding reg resp_inv_def by simp
  moreover have "distinct (registered ?s)" "None \<notin> set (take (rs_count ?s) (rs_table ?s))"
    using assms(1) new(1) reg tk by (simp_all add: resp_inv_def)
  moreover have "length (rs_table ?s) = SIM_MAX_RESPONDERS" "rs_count ?s \<le> SIM_MAX_RESPONDERS"
    "rs_mpu9250_inited ?s = rs_mpu9250_inited s" "rs_at24c02_inited ?s = rs_at24c02_inited s"
    using assms(1) True by (simp_all add: s resp_inv_def)
  ultimately show ?thesis
    using assms reg unfolding resp_inv_def by simp
qed

lemma unregister_take:
  assumes "resp_inv s" "first_slot (\<lambda>q. q = Some p) (take (rs_count s) (rs_table s)) = Some i"
  shows "take (rs_count s - 1) ((shift_down (rs_count s - (i + 1)) (i + 1) (rs_table s))[rs_count s - 1 := None])
      = take i (rs_table s) @ drop (Suc i) (take (rs_count s) (rs_table s))" "i < rs_count s"
    "rs_table s ! i = Some p"
proof -
  note i = first_slot_SomeD [OF assms(2)]
  show less: "i < rs_count s" using i(1) by simp
  show "rs_table s ! i = Some p" using i(2) less by simp
  have "rs_count s \<le> length (rs_table s)" using assms(1) by (simp add: resp_inv_def)
  from shift_down_removes [OF less this] less
  show "take (rs_count s - 1) ((shift_down (rs_count s - (i + 1)) (i + 1) (rs_table s))[rs_count s - 1 := None])
      = take i (rs_table s) @ drop (Suc i) (take (rs_count s) (rs_table s))"
    by (simp add: min_def)
qed

lemma resp_inv_unregister:
  assumes "resp_inv s"
  shows "resp_inv (snd (sim_responder_unregister (Some p) s))"
proof (cases "first_slot (\<lambda>q. q = Some p) (take (rs_count s) (rs_table s))")
  case None
  with assms show ?thesis by (simp add: sim_responder_unregister_def)
next
  case (Some i)
  let ?s = "snd (sim_responder_unregister (Some p) s)"
  let ?tk = "take (rs_count s) (rs_table s)"
  note u = unregister_take [OF assms Some]
  obtain A x B where split: "?tk = A @ x # B" and tk: "take (rs_count ?s) (rs_table ?s) = A @ B"
  proof
    show "?tk = take i ?tk @ ?tk ! i # drop (Suc i) ?tk"
      by (rule id_take_nth_drop) (use u(2) assms in \<open>simp add: resp_inv_def\<close>)
    show "take (rs_count ?s) (rs_table ?s) = take i ?tk @ drop (Suc i) ?tk"
      using Some u(1,2) by (simp add: sim_responder_unregister_def min_def)
  qed
  have "distinct (registered ?s)" "set (registered ?s) \<subseteq> set (registered s)"
    "None \<notin> set (take (rs_count ?s) (rs_table ?s))"
    using assms unfolding tk resp_inv_def split by auto
  moreover have "(\<lambda>q. place (rs_mem ?s q)) = (\<lambda>q. place (rs_mem s q))"
    using Some by (simp add: sim_responder_unregister_def fun_eq_iff)
  moreover have "length (rs_table ?s) = SIM_MAX_RESPONDERS" "rs_count ?s \<le> SIM_MAX_RESPONDERS"
    "rs_mpu9250_inited ?s = rs_mpu9250_inited s" "rs_at24c02_inited ?s = rs_at24c02_inited s"
    using Some assms by (auto simp: sim_responder_unregister_def resp_inv_def)
  ultimately show ?thesis using assms unfolding resp_inv_def
    by (auto intro: inj_on_subset)
qed

lemma resp_inv_reset: "resp_inv s \<Longrightarrow> resp_inv (sim_responder_reset_all s)"
  by (simp add: resp_inv_def sim_responder_reset_all_def)

lemma resp_inv_place:
  assumes "resp_inv s" "p \<notin> set (registered s)"
  shows "resp_inv (s\<lparr> rs_mem := (rs_mem s)(p := r) \<rparr>)"
  using assms by (intro resp_inv_mem) auto

lemma register_flags:
  "(snd (sim_responder_register r s))\<lparr> rs_mpu9250_inited := True \<rparr>
    = snd (sim_responder_register r (s\<lparr> rs_mpu9250_inited := True \<rparr>))"
  "(snd (sim_responder_register r s))\<lparr> rs_at24c02_inited := True \<rparr>
    = snd (sim_responder_register r (s\<lparr> rs_at24c02_inited := True \<rparr>))"
  by (auto simp: sim_responder_register_def split: option.split)

lemma resp_inv_flags:
  "resp_inv s \<Longrightarrow> resp_inv (s\<lparr> rs_mpu9250_inited := True \<rparr>)"
  "resp_inv s \<Longrightarrow> resp_inv (s\<lparr> rs_at24c02_inited := True \<rparr>)"
  by (simp_all add: resp_inv_def)

lemma defaults_distinct [simp]: "s_default_mpu9250 \<noteq> s_default_at24c02" "s_default_at24c02 \<noteq> s_default_mpu9250"
  by (simp_all add: s_default_mpu9250_def s_default_at24c02_def)

lemma resp_inv_target:
  assumes "resp_inv s"
  shows "resp_inv (snd (dispatch_target bus_type port address s))"
proof -
  have mpu: "resp_inv ((snd (sim_i2c_sensor_mpu9250_init (Some s_default_mpu9250) port address s))
      \<lparr> rs_mpu9250_inited := True \<rparr>)" if "\<not> rs_mpu9250_inited s" for address
  proof -
    have "s_default_mpu9250 \<notin> set (registered s)" using assms that by (auto simp: resp_inv_def)
    from resp_inv_flags(1) [OF resp_inv_place [OF assms this]] show ?thesis
      unfolding sim_i2c_sensor_mpu9250_init_def option.case register_flags
      by (rule resp_inv_register) simp_all
  qed
  have eeprom: "resp_inv ((snd (sim_i2c_eeprom_at24c02_init (Some s_default_at24c02) port address s))
      \<lparr> rs_at24c02_inited := True \<rparr>)" if "\<not> rs_at24c02_inited s" for address
  proof -
    have "s_default_at24c02 \<notin> set (registered s)" using assms that by (auto simp: resp_inv_def)
    from resp_inv_flags(2) [OF resp_inv_place [OF assms this]] show ?thesis
      unfolding sim_i2c_eeprom_at24c02_init_def option.case register_flags
      by (rule resp_inv_register) simp_all
  qed
  show ?thesis using assms by (auto simp: dispatch_target_def mpu eeprom split: option.split)
qed

lemma transfer_place:
  assumes "\<And>f r wb wl rb rl. place (snd (snd (custom f r wb wl rb rl))) = place r"
  shows "place (snd (snd (responder_transfer custom r wb wl rb rl))) = place r"
  using assms by (auto simp: responder_transfer_def split: sim_device.split prod.split)

lemma resp_inv_dispatch:
  assumes "\<And>f r wb wl rb rl. place (snd (snd (custom f r wb wl rb rl))) = place r" "resp_inv s"
  shows "resp_inv (snd (snd (sim_responder_dispatch custom bus_type port address wb wl rb rl s)))"
proof -
  obtain t s' where t: "dispatch_target bus_type port address s = (t, s')" by fastforce
  with resp_inv_target [OF assms(2), of bus_type port address] have inv: "resp_inv s'" by simp
  have "resp_inv (s'\<lparr> rs_mem := (rs_mem s')(p := snd (snd (responder_transfer custom (rs_mem s' p) wb wl rb rl))) \<rparr>)" for p
    by (rule resp_inv_mem [OF inv]) (auto simp: transfer_place [OF assms(1)])
  with t inv show ?thesis
    by (simp add: sim_responder_dispatch_def split: option.split prod.split) (metis snd_conv)
qed

section \<open>Reading back from the EEPROM\<close>

definition eeprom_ok :: "at24c02 \<Rightarrow> bool" where
  "eeprom_ok e \<longleftrightarrow> length (ee_memory e) = SIM_EEPROM_AT24C02_SIZE"

lemma u8_less_size [simp]: "unat (a :: u8) < SIM_EEPROM_AT24C02_SIZE"
  using unsigned_less [of a, where 'a = nat] by (simp add: SIM_EEPROM_AT24C02_SIZE_def)

text \<open>The cells a block write changes: cell \<open>a + i\<close> (modulo the size) holds byte \<open>i\<close>.\<close>

lemma u8_add_inj:
  assumes "j < 256" "k < 256" "(a :: u8) + of_nat j = a + of_nat k"
  shows "j = k"
proof -
  have "unat (of_nat n :: u8) = n" if "n < 256" for n using that by (simp add: unat_of_nat)
  with assms show ?thesis by (metis add_left_cancel)
qed

lemma eeprom_write_cells:
  assumes "eeprom_ok e" "length bs \<le> 256"
  shows "eeprom_ok (eeprom_write bs e)
    \<and> (\<forall>k < length bs. ee_memory (eeprom_write bs e) ! unat (ee_word_addr e + of_nat k) = bs ! k)"
  using assms
proof (induction bs arbitrary: e)
  case (Cons b bs)
  let ?e = "e\<lparr> ee_memory := (ee_memory e)[unat (ee_word_addr e) := b], ee_word_addr := ee_word_addr e + 1 \<rparr>"
  have ok: "eeprom_ok ?e" using Cons.prems by (simp add: eeprom_ok_def)
  note IH = Cons.IH [OF ok]
  have keep: "ee_memory (eeprom_write cs d) ! unat x = ee_memory d ! unat x"
    if "\<forall>k < length cs. ee_word_addr d + of_nat k \<noteq> x" for cs d and x :: u8
    using that
  proof (induction cs arbitrary: d)
    case (Cons c cs)
    let ?d = "d\<lparr> ee_memory := (ee_memory d)[unat (ee_word_addr d) := c], ee_word_addr := ee_word_addr d + 1 \<rparr>"
    have "ee_word_addr d \<noteq> x" using spec [OF Cons.prems, of 0] by simp
    moreover have "\<forall>k < length cs. ee_word_addr ?d + of_nat k \<noteq> x"
    proof (intro allI impI)
      fix k assume "k < length cs"
      then show "ee_word_addr ?d + of_nat k \<noteq> x" using spec [OF Cons.prems, of "Suc k"] by (simp add: add.assoc)
    qed
    moreover have "unat (ee_word_addr d) \<noteq> unat x" using calculation(1) by (simp add: word_unat_eq_iff)
    ultimately show ?case using Cons.IH [of ?d] by simp
  qed simp
  have "ee_memory (eeprom_write bs ?e) ! unat (ee_word_addr e) = b"
  proof -
    have "\<forall>k < length bs. ee_word_addr ?e + of_nat k \<noteq> ee_word_addr e"
    proof (intro allI impI notI)
      fix k assume k: "k < length bs" "ee_word_addr ?e + of_nat k = ee_word_addr e"
      then have "ee_word_addr e + of_nat (Suc k) = ee_word_addr e + of_nat 0" by (simp add: add.assoc)
      from u8_add_inj [OF _ _ this] k(1) Cons.prems(2) show False by simp
    qed
    from keep [OF this] show ?thesis using Cons.prems(1) by (simp add: eeprom_ok_def)
  qed
  moreover have "ee_memory (eeprom_write bs ?e) ! unat (ee_word_addr e + of_nat (Suc k)) = bs ! k"
    if "k < length bs" for k
    using IH Cons.prems(2) that by (simp add: add.assoc)
  ultimately show ?case using IH Cons.prems(2) by (auto simp: less_Suc_eq_0_disj)
qed simp

lemma eeprom_read_cells:
  "eeprom_read n i rb e = (rb', e') \<Longrightarrow> i + n \<le> length rb \<Longrightarrow>
    rb' = take i rb @ map (\<lambda>k. ee_memory e ! unat (ee_word_addr e + of_nat k)) [0 ..< n] @ drop (i + n) rb
    \<and> e' = e\<lparr> ee_word_addr := ee_word_addr e + of_nat n \<rparr>"
proof (induction n arbitrary: i rb e)
  case (Suc n)
  let ?f = "\<lambda>e k. ee_memory e ! unat (ee_word_addr e + of_nat k)"
  let ?rb = "rb[i := ee_memory e ! unat (ee_word_addr e)]" and ?e = "e\<lparr> ee_word_addr := ee_word_addr e + 1 \<rparr>"
  have "eeprom_read n (Suc i) ?rb ?e = (rb', e')" using Suc.prems(1) by simp
  from Suc.IH [OF this] Suc.prems(2)
  have r: "rb' = take (Suc i) ?rb @ map (?f ?e) [0 ..< n] @ drop (Suc i + n) ?rb"
    "e' = ?e\<lparr> ee_word_addr := ee_word_addr ?e + of_nat n \<rparr>" by simp_all
  have "take (Suc i) ?rb = take i rb @ [?f e 0]"
    using Suc.prems(2) by (simp add: take_Suc_conv_app_nth)
  moreover have "map (?f e) [0 ..< Suc n] = ?f e 0 # map (?f ?e) [0 ..< n]"
    by (rule nth_equalityI) (auto simp: nth_Cons add.assoc simp del: upt_Suc split: nat.split)
  ultimately show ?case using r by (simp add: add.assoc del: upt_Suc)
qed auto

lemma be16_lo [simp]: "be16 hi lo = lo"
  unfolding be16_def by (rule bit_word_eqI) (auto simp: bit_simps)

lemma transfer_write:
  assumes "bs \<noteq> []"
  shows "at24c02_transfer e (Some (0 # a # bs)) (length bs + 2) None 0
    = (WINK_OK, None, eeprom_write bs (e\<lparr> ee_word_addr := a \<rparr>))"
  using assms by (simp add: at24c02_transfer_def at24c02_write_phase_def)

lemma transfer_read:
  assumes "0 < n" "n \<le> length rb"
  shows "\<exists>e'. at24c02_transfer e (Some [hi, lo]) 2 (Some rb) n
    = (WINK_OK, Some (map (\<lambda>k. ee_memory e ! unat (lo + of_nat k)) [0 ..< n] @ drop n rb), e')
    \<and> ee_memory e' = ee_memory e"
proof -
  obtain rb' e' where r: "eeprom_read n 0 rb (e\<lparr> ee_word_addr := lo \<rparr>) = (rb', e')" by fastforce
  from eeprom_read_cells [OF this] assms(2) have "rb' = map (\<lambda>k. ee_memory e ! unat (lo + of_nat k)) [0 ..< n] @ drop n rb"
    "ee_memory e' = ee_memory e" by simp_all
  then show ?thesis using assms(1) r by (simp add: at24c02_transfer_def at24c02_read_phase_def)
qed

lemma transfer_roundtrip:
  assumes "eeprom_ok e" "0 < length bs" "length bs \<le> 256" "length bs \<le> length rb"
  shows "\<exists>e1 e2. at24c02_transfer e (Some (0 # a # bs)) (length bs + 2) None 0 = (WINK_OK, None, e1)
    \<and> eeprom_ok e1
    \<and> at24c02_transfer e1 (Some [hi, a]) 2 (Some rb) (length bs) = (WINK_OK, Some (bs @ drop (length bs) rb), e2)"
proof -
  let ?e = "e\<lparr> ee_word_addr := a \<rparr>" and ?e1 = "eeprom_write bs (e\<lparr> ee_word_addr := a \<rparr>)"
  have ok: "eeprom_ok ?e" using assms(1) by (simp add: eeprom_ok_def)
  note cells = eeprom_write_cells [OF ok assms(3)]
  from transfer_read [OF assms(2,4), of ?e1 hi a] obtain e2 where
    "at24c02_transfer ?e1 (Some [hi, a]) 2 (Some rb) (length bs)
      = (WINK_OK, Some (map (\<lambda>k. ee_memory ?e1 ! unat (a + of_nat k)) [0 ..< length bs] @ drop (length bs) rb), e2)" by blast
  moreover have "map (\<lambda>k. ee_memory ?e1 ! unat (a + of_nat k)) [0 ..< length bs] = bs"
    by (rule nth_equalityI) (use cells in simp_all)
  ultimately show ?thesis using transfer_write [of bs e a] assms(2) cells by auto
qed

lemma answers_upd:
  assumes "sr_in_use r = sr_in_use (mem p)" "place r = place (mem p)"
  shows "answers b po ad ((mem(p := r)) q) = answers b po ad (mem q)"
  using assms by (simp add: answers_def place_def)

abbreviation answering :: "sim_bus_type_t \<Rightarrow> u8 \<Rightarrow> u16 \<Rightarrow> responders \<Rightarrow> nat option" where
  "answering b po ad s \<equiv> first_slot (\<lambda>q. q \<noteq> None \<and> answers b po ad (rs_mem s (the q)))
     (take (rs_count s) (rs_table s))"

lemma answering_upd:
  assumes "sr_in_use r = sr_in_use (rs_mem s p)" "place r = place (rs_mem s p)"
  shows "answering b po ad (s\<lparr> rs_mem := (rs_mem s)(p := r) \<rparr>) = answering b po ad s"
  using answers_upd [where mem = "rs_mem s" and p = p and r = r, OF assms, of b po ad] by simp

lemma answering_init:
  assumes inv: "resp_inv s" and new: "p \<notin> set (registered s)" and none: "answering b po ad s = None"
    and r: "place r = (b, po, ad)"
    and t: "t = snd (sim_responder_register (Some p) (s\<lparr> rs_mem := (rs_mem s)(p := r) \<rparr>))"
  shows "answering b po ad t = None \<or> (\<exists>i. answering b po ad t = Some i \<and> rs_table t ! i = Some p)"
proof -
  let ?s = "s\<lparr> rs_mem := (rs_mem s)(p := r) \<rparr>"
  have old: "\<not> (q \<noteq> None \<and> answers b po ad (rs_mem s (the q)))" "the q \<noteq> p"
    if "q \<in> set (take (rs_count s) (rs_table s))" for q
    using none new that by (auto simp: first_slot_None)
  show ?thesis
  proof (cases "register_scan (rs_mem ?s) p (registered ?s) = None \<and> rs_count ?s < SIM_MAX_RESPONDERS")
    case False
    then have "t = ?s" by (auto simp: t sim_responder_register_def split: option.split)
    then have "answering b po ad t = None" using old by (auto simp: first_slot_None)
    then show ?thesis ..
  next
    case True
    then have t': "t = s\<lparr> rs_mem := (rs_mem s)(p := r\<lparr> sr_in_use := True \<rparr>),
        rs_table := (rs_table s)[rs_count s := Some p], rs_count := rs_count s + 1 \<rparr>"
      by (simp add: t sim_responder_register_def)
    have len: "rs_count s < length (rs_table s)" using True inv by (simp add: resp_inv_def)
    have "answers b po ad (r\<lparr> sr_in_use := True \<rparr>)" using r by (simp add: answers_def place_def)
    moreover have "rs_table s ! j \<in> set (take (rs_count s) (rs_table s))" if "j < rs_count s" for j
      using that len by (auto simp: in_set_conv_nth intro!: exI [of _ j])
    ultimately have "answering b po ad t = Some (rs_count s)"
      using len old unfolding first_slot_Some by (auto simp: t' nth_list_update)
    then show ?thesis using len by (simp add: t')
  qed
qed

text \<open>Once a transfer has found its responder, the next one to the same place finds it again,
  whatever the responder did to its own state.\<close>

lemma target_stable:
  assumes inv: "resp_inv s" and d: "dispatch_target b po ad s = (Some p, s1)"
    and r: "sr_in_use r = sr_in_use (rs_mem s1 p)" "place r = place (rs_mem s1 p)"
  shows "dispatch_target b po ad (s1\<lparr> rs_mem := (rs_mem s1)(p := r) \<rparr>)
    = (Some p, s1\<lparr> rs_mem := (rs_mem s1)(p := r) \<rparr>)"
proof -
  let ?s = "s1\<lparr> rs_mem := (rs_mem s1)(p := r) \<rparr>"
  note same = answering_upd [OF r, of b po ad]
  show ?thesis
  proof (cases "answering b po ad s")
    case (Some i)
    then have "s1 = s" "rs_table s ! i = Some p" using d by (auto simp: dispatch_target_def)
    with Some same show ?thesis by (simp add: dispatch_target_def)
  next
    case None
    have found: "dispatch_target b po ad ?s = (Some p, ?s)"
      if "answering b po ad s1 = None \<or> (\<exists>i. answering b po ad s1 = Some i \<and> rs_table s1 ! i = Some p)"
        "b = SIM_BUS_TYPE_I2C" "p = s_default_mpu9250 \<and> (ad = 0x68 \<or> ad = 0x69) \<and> rs_mpu9250_inited s1
          \<or> p = s_default_at24c02 \<and> ad \<noteq> 0x68 \<and> ad \<noteq> 0x69 \<and> ad \<ge> 0x50 \<and> ad \<le> 0x57 \<and> rs_at24c02_inited s1"
      using that same by (auto simp: dispatch_target_def)
    have b: "b = SIM_BUS_TYPE_I2C"
      and which: "(ad = 0x68 \<or> ad = 0x69) \<or> (ad \<noteq> 0x68 \<and> ad \<noteq> 0x69 \<and> ad \<ge> 0x50 \<and> ad \<le> 0x57)"
      using d None by (auto simp: dispatch_target_def split: if_splits)
    show ?thesis
    proof (cases "ad = 0x68 \<or> ad = 0x69")
      case True
      then have p: "p = s_default_mpu9250" and s1: "s1 = (if rs_mpu9250_inited s then s
          else (snd (sim_i2c_sensor_mpu9250_init (Some s_default_mpu9250) po ad s))\<lparr> rs_mpu9250_inited := True \<rparr>)"
        using d None b by (auto simp: dispatch_target_def)
      show ?thesis
      proof (rule found [OF _ b])
        show "answering b po ad s1 = None \<or> (\<exists>i. answering b po ad s1 = Some i \<and> rs_table s1 ! i = Some p)"
        proof (cases "rs_mpu9250_inited s")
          case False
          then have new: "p \<notin> set (registered s)" using inv p by (auto simp: resp_inv_def)
          show ?thesis using answering_init [OF inv new None _ refl] s1 False p b
            by (simp add: sim_i2c_sensor_mpu9250_init_def place_def)
        qed (use None s1 in simp)
        show "p = s_default_mpu9250 \<and> (ad = 0x68 \<or> ad = 0x69) \<and> rs_mpu9250_inited s1
          \<or> p = s_default_at24c02 \<and> ad \<noteq> 0x68 \<and> ad \<noteq> 0x69 \<and> ad \<ge> 0x50 \<and> ad \<le> 0x57 \<and> rs_at24c02_inited s1"
          using p True s1 by simp
      qed
    next
      case False
      then have p: "p = s_default_at24c02" and s1: "s1 = (if rs_at24c02_inited s then s
          else (snd (sim_i2c_eeprom_at24c02_init (Some s_default_at24c02) po ad s))\<lparr> rs_at24c02_inited := True \<rparr>)"
        using d None b which by (auto simp: dispatch_target_def)
      show ?thesis
      proof (rule found [OF _ b])
        show "answering b po ad s1 = None \<or> (\<exists>i. answering b po ad s1 = Some i \<and> rs_table s1 ! i = Some p)"
        proof (cases "rs_at24c02_inited s")
          case False
          then have new: "p \<notin> set (registered s)" using inv p by (auto simp: resp_inv_def)
          show ?thesis using answering_init [OF inv new None _ refl] s1 False p b
            by (simp add: sim_i2c_eeprom_at24c02_init_def place_def)
        qed (use None s1 in simp)
        show "p = s_default_mpu9250 \<and> (ad = 0x68 \<or> ad = 0x69) \<and> rs_mpu9250_inited s1
          \<or> p = s_default_at24c02 \<and> ad \<noteq> 0x68 \<and> ad \<noteq> 0x69 \<and> ad \<ge> 0x50 \<and> ad \<le> 0x57 \<and> rs_at24c02_inited s1"
          using p False which s1 by simp
      qed
    qed
  qed
qed

lemma eeprom_bus_roundtrip:
  assumes "resp_inv s" "dispatch_target SIM_BUS_TYPE_I2C port address s = (Some p, s1)"
    and "sr_device (rs_mem s1 p) = At24c02 e" "eeprom_ok e"
    and "0 < length bs" "length bs \<le> 256" "length bs \<le> length rb"
  shows "\<exists>s2 s3. sim_responder_dispatch custom SIM_BUS_TYPE_I2C port address
        (Some (0 # a # bs)) (length bs + 2) None 0 s = (WINK_OK, None, s2)
    \<and> sim_responder_dispatch custom SIM_BUS_TYPE_I2C port address (Some [hi, a]) 2 (Some rb) (length bs) s2
      = (WINK_OK, Some (bs @ drop (length bs) rb), s3)"
proof -
  from transfer_roundtrip [OF assms(4-7), of a hi] obtain e1 e2 where e:
    "at24c02_transfer e (Some (0 # a # bs)) (length bs + 2) None 0 = (WINK_OK, None, e1)"
    "at24c02_transfer e1 (Some [hi, a]) 2 (Some rb) (length bs) = (WINK_OK, Some (bs @ drop (length bs) rb), e2)" by blast
  let ?r = "(rs_mem s1 p)\<lparr> sr_device := At24c02 e1 \<rparr>"
  let ?s2 = "s1\<lparr> rs_mem := (rs_mem s1)(p := ?r) \<rparr>"
  have again: "dispatch_target SIM_BUS_TYPE_I2C port address ?s2 = (Some p, ?s2)"
    by (rule target_stable [OF assms(1,2)]) simp_all
  have "sim_responder_dispatch custom SIM_BUS_TYPE_I2C port address
      (Some (0 # a # bs)) (length bs + 2) None 0 s = (WINK_OK, None, ?s2)"
    using assms(2,3,5) e(1) unfolding sim_responder_dispatch_def
    by (simp add: responder_transfer_def)
  moreover have "\<exists>s3. sim_responder_dispatch custom SIM_BUS_TYPE_I2C port address
      (Some [hi, a]) 2 (Some rb) (length bs) ?s2 = (WINK_OK, Some (bs @ drop (length bs) rb), s3)"
    using again e(2) unfolding sim_responder_dispatch_def
    by (simp add: responder_transfer_def)
  ultimately show ?thesis by blast
qed

section \<open>Defects\<close>

text \<open>A page write to address 0 with the one-byte address a real AT24C02 takes is read as a
  two-byte address: the first data byte becomes the address.\<close>

lemma address_zero_write_misplaced:
  assumes "eeprom_ok e" "bs \<noteq> []"
  shows "at24c02_transfer e (Some (0 # b # bs)) (length bs + 2) None 0
    = (WINK_OK, None, eeprom_write bs (e\<lparr> ee_word_addr := b \<rparr>))"
  by (rule transfer_write [OF assms(2)])

text \<open>All addresses of the default EEPROM share one memory.\<close>

lemma default_eeprom_aliases:
  assumes "rs_at24c02_inited s" "answering SIM_BUS_TYPE_I2C port a s = None"
    "answering SIM_BUS_TYPE_I2C port' a' s = None" "a \<in> {0x50 .. 0x57}" "a' \<in> {0x50 .. 0x57}"
  shows "dispatch_target SIM_BUS_TYPE_I2C port a s = (Some s_default_at24c02, s)
    \<and> dispatch_target SIM_BUS_TYPE_I2C port' a' s = (Some s_default_at24c02, s)"
proof -
  have "a \<noteq> 0x68" "a \<noteq> 0x69" "a' \<noteq> 0x68" "a' \<noteq> 0x69" using assms(4,5) by auto
  with assms show ?thesis by (simp add: dispatch_target_def)
qed

text \<open>Initialising an EEPROM that is already registered wipes its \<^verbatim>\<open>in_use\<close> flag, and the
  registration, finding its pointer in the table, does not set it again.\<close>

lemma reinit_disconnects:
  assumes "resp_inv s" "i < rs_count s" "rs_table s ! i = Some p"
    and "\<And>q. q \<in> set (registered s) \<Longrightarrow> q \<noteq> p \<Longrightarrow> place (rs_mem s q) \<noteq> (SIM_BUS_TYPE_I2C, port, address)"
  shows "fst (sim_i2c_eeprom_at24c02_init (Some p) port address s) = WINK_OK
    \<and> answering SIM_BUS_TYPE_I2C port address (snd (sim_i2c_eeprom_at24c02_init (Some p) port address s)) = None"
proof -
  let ?r = "\<lparr> sr_bus_type = SIM_BUS_TYPE_I2C, sr_port = port, sr_address = address, sr_in_use = False,
    sr_device = At24c02 \<lparr> ee_memory = replicate SIM_EEPROM_AT24C02_SIZE 0xFF, ee_word_addr = 0 \<rparr> \<rparr>"
  let ?mem = "(rs_mem s)(p := ?r)"
  have mem: "p \<in> set (registered s)"
  proof -
    have "take (rs_count s) (rs_table s) ! i = Some p" "i < length (take (rs_count s) (rs_table s))"
      using assms(1-3) by (simp_all add: resp_inv_def)
    then have "Some p \<in> set (take (rs_count s) (rs_table s))" by (metis nth_mem)
    then show ?thesis by (metis image_eqI list.set_map option.sel)
  qed
  have scan: "register_scan ?mem p qs = Some WINK_OK" if "p \<in> set qs" "set qs \<subseteq> set (registered s)" for qs
    using that assms(4) by (induction qs) (auto simp: same_place_eq place_def)
  have "sim_i2c_eeprom_at24c02_init (Some p) port address s = (WINK_OK, s\<lparr> rs_mem := ?mem \<rparr>)"
    using scan [OF mem subset_refl]
    by (simp add: sim_i2c_eeprom_at24c02_init_def sim_responder_register_def)
  moreover have "answering SIM_BUS_TYPE_I2C port address (s\<lparr> rs_mem := ?mem \<rparr>) = None"
    using assms(4) by (auto simp: first_slot_None answers_def place_def image_iff)
  ultimately show ?thesis by simp
qed

section \<open>Properties\<close>

text \<open>Registering, unregistering, resetting and dispatching (the demand creation of the
  default devices included) keep the table well formed when transfers do not move responders:
  no gaps, no repetitions, one responder per bus, port and address; so at most one responder
  answers a transfer.\<close>
lemma responder_table_unique:
  assumes "resp_inv s" "p \<notin> {s_default_mpu9250, s_default_at24c02}"
    and "\<And>f r wb wl rb rl. place (snd (snd (custom f r wb wl rb rl))) = place r"
  shows "resp_inv (snd (sim_responder_register (Some p) s))
    \<and> resp_inv (snd (sim_responder_unregister (Some p) s))
    \<and> resp_inv (sim_responder_reset_all s)
    \<and> resp_inv (snd (snd (sim_responder_dispatch custom b po ad wb wl rb rl s)))
    \<and> (\<forall>x \<in> set (registered s). \<forall>y \<in> set (registered s).
         answers b po ad (rs_mem s x) \<longrightarrow> answers b po ad (rs_mem s y) \<longrightarrow> x = y)"
proof -
  have "x = y" if "x \<in> set (registered s)" "y \<in> set (registered s)"
    "answers b po ad (rs_mem s x)" "answers b po ad (rs_mem s y)" for x y
  proof -
    have "place (rs_mem s x) = place (rs_mem s y)" using that(3,4) by (simp add: answers_def place_def)
    moreover have "inj_on (\<lambda>p. place (rs_mem s p)) (set (registered s))" using assms(1) by (simp add: resp_inv_def)
    ultimately show ?thesis using that(1,2) unfolding inj_on_def by blast
  qed
  then show ?thesis
    using resp_inv_register [OF assms(1)] resp_inv_unregister [OF assms(1)] resp_inv_reset [OF assms(1)]
      resp_inv_dispatch [OF assms(3,1)] assms(2) by auto
qed

definition demo_responders :: responders where
  "demo_responders = \<lparr> rs_table = replicate 16 None, rs_count = 0,
     rs_mem = (\<lambda>p. \<lparr> sr_bus_type = SIM_BUS_TYPE_SPI, sr_port = 0, sr_address = 7, sr_in_use = False,
       sr_device = No_transfer \<rparr>),
     rs_mpu9250_inited = False, rs_at24c02_inited = False \<rparr>"

lemma demo_responders_inv: "resp_inv demo_responders"
  by (simp add: resp_inv_def demo_responders_def SIM_MAX_RESPONDERS_def)

lemma responder_table_unique_witness:
  "resp_inv (snd (sim_responder_register (Some 9) demo_responders))
    \<and> resp_inv (snd (snd (sim_responder_dispatch (\<lambda>f r wb wl rb rl. (WINK_OK, rb, r))
        SIM_BUS_TYPE_I2C 0 0x50 None 0 None 0 demo_responders)))"
  using responder_table_unique [OF demo_responders_inv, of 9 "\<lambda>f r wb wl rb rl. (WINK_OK, rb, r)"
      SIM_BUS_TYPE_I2C 0 "0x50" None 0 None 0]
  by (simp add: s_default_mpu9250_def s_default_at24c02_def)

end
