(* ===== verification/Resource.thy ===== *)
theory Resource
  imports Wink_Prelude
begin

text \<open>
  The hardware claim table of \<^verbatim>\<open>targets/common/src/pal_resource.c\<close>: at most 64 claims of
  (type, id) pairs, each with the name of its owner. Releasing moves the last claim into the
  freed position. The locale \<open>claim_table\<close> is the contract the drivers rely on: a bounded
  finite map from resources to owners.
\<close>

section \<open>Data and operations\<close>

datatype pal_resource_type_t =
    PAL_RESOURCE_GPIO_PIN | PAL_RESOURCE_PWM_CHANNEL | PAL_RESOURCE_I2C_PORT | PAL_RESOURCE_I2C_ADDR
  | PAL_RESOURCE_UART_PORT | PAL_RESOURCE_ADC_CHANNEL | PAL_RESOURCE_SPI_BUS | PAL_RESOURCE_SPI_CS
  | PAL_RESOURCE_PCNT_UNIT | PAL_RESOURCE_PCNT_CHAN | PAL_RESOURCE_RMT_CHAN | PAL_RESOURCE_HWTIMER
  | PAL_RESOURCE_MCPWM_UNIT | PAL_RESOURCE_MCPWM_TIMER | PAL_RESOURCE_MCPWM_OPERATOR
  | PAL_RESOURCE_MCPWM_COMPARATOR | PAL_RESOURCE_MCPWM_SYNC_GPIO | PAL_RESOURCE_GDMA_CHAN

record pal_resource_claim_t =
  rc_type :: pal_resource_type_t
  rc_id :: u32
  rc_owner :: string

record resource_table =
  rt_claims :: "pal_resource_claim_t list"
  rt_count :: nat

definition PAL_RESOURCE_MAX_CLAIMS :: nat where "PAL_RESOURCE_MAX_CLAIMS = 64"
definition PAL_RESOURCE_UNLIMITED_MAX :: u32 where "PAL_RESOURCE_UNLIMITED_MAX = 0xFFFFFFFF"

definition pal_resource_reset :: "resource_table \<Rightarrow> resource_table" where
  "pal_resource_reset t = t\<lparr> rt_count := 0 \<rparr>"

primrec pal_resource_max :: "pal_resource_type_t \<Rightarrow> u32" where
  "pal_resource_max PAL_RESOURCE_SPI_BUS = 2"
| "pal_resource_max PAL_RESOURCE_PCNT_UNIT = 8"
| "pal_resource_max PAL_RESOURCE_PCNT_CHAN = 2"
| "pal_resource_max PAL_RESOURCE_RMT_CHAN = 8"
| "pal_resource_max PAL_RESOURCE_HWTIMER = 4"
| "pal_resource_max PAL_RESOURCE_MCPWM_UNIT = 2"
| "pal_resource_max PAL_RESOURCE_MCPWM_TIMER = 3"
| "pal_resource_max PAL_RESOURCE_MCPWM_OPERATOR = 3"
| "pal_resource_max PAL_RESOURCE_MCPWM_COMPARATOR = 2"
| "pal_resource_max PAL_RESOURCE_UART_PORT = 3"
| "pal_resource_max PAL_RESOURCE_ADC_CHANNEL = 10"
| "pal_resource_max PAL_RESOURCE_PWM_CHANNEL = 8"
| "pal_resource_max PAL_RESOURCE_GPIO_PIN = 50"
| "pal_resource_max PAL_RESOURCE_I2C_PORT = 2"
| "pal_resource_max PAL_RESOURCE_I2C_ADDR = PAL_RESOURCE_UNLIMITED_MAX"
| "pal_resource_max PAL_RESOURCE_SPI_CS = PAL_RESOURCE_UNLIMITED_MAX"
| "pal_resource_max PAL_RESOURCE_MCPWM_SYNC_GPIO = PAL_RESOURCE_UNLIMITED_MAX"
| "pal_resource_max PAL_RESOURCE_GDMA_CHAN = PAL_RESOURCE_UNLIMITED_MAX"

definition id_invalid :: "pal_resource_type_t \<Rightarrow> u32 \<Rightarrow> bool" where
  "id_invalid ty rid \<longleftrightarrow> (let max_id = pal_resource_max ty
     in max_id \<noteq> PAL_RESOURCE_UNLIMITED_MAX \<and> rid \<ge> max_id)"

definition claim_slot :: "pal_resource_type_t \<Rightarrow> u32 \<Rightarrow> resource_table \<Rightarrow> nat option" where
  "claim_slot ty rid t = first_slot (\<lambda>c. rc_type c = ty \<and> rc_id c = rid) (take (rt_count t) (rt_claims t))"

definition pal_resource_claim ::
  "pal_resource_type_t \<Rightarrow> u32 \<Rightarrow> string option \<Rightarrow> resource_table \<Rightarrow> wink_status_t \<times> resource_table" where
  "pal_resource_claim ty rid owner t =
    (case owner of None \<Rightarrow> (WINK_ERR_INVALID_ARG, t)
     | Some ow \<Rightarrow>
       if id_invalid ty rid then (WINK_ERR_INVALID_ARG, t)
       else case claim_slot ty rid t of
              Some i \<Rightarrow> if rc_owner (rt_claims t ! i) = ow then (WINK_OK, t) else (WINK_ERR_BUSY, t)
            | None \<Rightarrow>
                if rt_count t \<ge> PAL_RESOURCE_MAX_CLAIMS then (WINK_ERR_RESOURCE_EXHAUSTED, t)
                else (WINK_OK, t\<lparr> rt_claims := (rt_claims t)[rt_count t :=
                         \<lparr> rc_type = ty, rc_id = rid, rc_owner = ow \<rparr>],
                       rt_count := rt_count t + 1 \<rparr>))"

definition pal_resource_release ::
  "pal_resource_type_t \<Rightarrow> u32 \<Rightarrow> string option \<Rightarrow> resource_table \<Rightarrow> wink_status_t \<times> resource_table" where
  "pal_resource_release ty rid owner t =
    (case owner of None \<Rightarrow> (WINK_ERR_INVALID_ARG, t)
     | Some ow \<Rightarrow>
       if id_invalid ty rid then (WINK_ERR_INVALID_ARG, t)
       else case claim_slot ty rid t of
              Some i \<Rightarrow>
                if rc_owner (rt_claims t ! i) \<noteq> ow then (WINK_ERR_INVALID_ARG, t)
                else (WINK_OK, t\<lparr> rt_count := rt_count t - 1,
                       rt_claims := (rt_claims t)[i := rt_claims t ! (rt_count t - 1)] \<rparr>)
            | None \<Rightarrow> (WINK_ERR_INVALID_ARG, t))"

definition pal_resource_is_claimed :: "pal_resource_type_t \<Rightarrow> u32 \<Rightarrow> resource_table \<Rightarrow> bool" where
  "pal_resource_is_claimed ty rid t \<longleftrightarrow> claim_slot ty rid t \<noteq> None"

section \<open>The table as a map\<close>

definition claim_key :: "pal_resource_claim_t \<Rightarrow> pal_resource_type_t \<times> u32" where
  "claim_key c = (rc_type c, rc_id c)"

abbreviation live :: "resource_table \<Rightarrow> pal_resource_claim_t list" where
  "live t \<equiv> take (rt_count t) (rt_claims t)"

definition res_inv :: "resource_table \<Rightarrow> bool" where
  "res_inv t \<longleftrightarrow> length (rt_claims t) = PAL_RESOURCE_MAX_CLAIMS \<and> rt_count t \<le> PAL_RESOURCE_MAX_CLAIMS
     \<and> distinct (map claim_key (live t))"

definition claims :: "resource_table \<Rightarrow> pal_resource_type_t \<times> u32 \<rightharpoonup> string" where
  "claims t = map_of (map (\<lambda>c. (claim_key c, rc_owner c)) (live t))"

lemma claim_slot_eq: "claim_slot ty rid t = first_slot (\<lambda>c. claim_key c = (ty, rid)) (live t)"
  by (simp add: claim_slot_def claim_key_def)

lemma distinct_keys_map_of:
  "distinct (map claim_key cs) \<Longrightarrow>
   map_of (map (\<lambda>c. (claim_key c, rc_owner c)) cs) k = Some ow \<longleftrightarrow> (\<exists>c \<in> set cs. claim_key c = k \<and> rc_owner c = ow)"
  by (subst map_of_eq_Some_iff) (auto simp: comp_def)

lemma claims_Some_iff:
  "res_inv t \<Longrightarrow> claims t k = Some ow \<longleftrightarrow> (\<exists>c \<in> set (live t). claim_key c = k \<and> rc_owner c = ow)"
  unfolding claims_def by (rule distinct_keys_map_of) (simp add: res_inv_def)

lemma claims_None_iff: "claims t k = None \<longleftrightarrow> (\<forall>c \<in> set (live t). claim_key c \<noteq> k)"
  unfolding claims_def map_of_eq_None_iff by force

lemma claim_slot_None: "claim_slot ty rid t = None \<longleftrightarrow> claims t (ty, rid) = None"
  by (simp add: claim_slot_eq first_slot_None claims_None_iff)

lemma claim_slot_Some:
  assumes "res_inv t" "claim_slot ty rid t = Some i"
  shows "i < rt_count t" "claim_key (rt_claims t ! i) = (ty, rid)"
    "claims t (ty, rid) = Some (rc_owner (rt_claims t ! i))"
proof -
  note f = first_slot_SomeD(1,2) [OF assms(2) [unfolded claim_slot_eq]]
  then show i: "i < rt_count t" and k: "claim_key (rt_claims t ! i) = (ty, rid)" by simp_all
  have "rt_claims t ! i \<in> set (live t)" using f(1) i by (metis nth_mem nth_take)
  with assms(1) k show "claims t (ty, rid) = Some (rc_owner (rt_claims t ! i))"
    by (auto simp: claims_Some_iff)
qed

lemma res_claim_new:
  assumes "res_inv t" "rt_count t < PAL_RESOURCE_MAX_CLAIMS" "claims t k = None" "claim_key c = k"
  defines "t' \<equiv> t\<lparr> rt_claims := (rt_claims t)[rt_count t := c], rt_count := rt_count t + 1 \<rparr>"
  shows "res_inv t'" "claims t' = (claims t)(k \<mapsto> rc_owner c)" "rt_count t' = Suc (rt_count t)"
proof -
  have live': "live t' = live t @ [c]"
    using assms(1,2) by (simp add: t'_def res_inv_def take_Suc_conv_app_nth)
  show "rt_count t' = Suc (rt_count t)" by (simp add: t'_def)
  have nk: "k \<notin> claim_key ` set (live t)" using assms(3) by (auto simp: claims_None_iff)
  show inv: "res_inv t'"
    using assms(1,2,4) nk unfolding res_inv_def live' by (auto simp: t'_def)
  show "claims t' = (claims t)(k \<mapsto> rc_owner c)"
  proof (rule ext)
    fix j
    have "claims t' j = (map_of [(k, rc_owner c)] ++ claims t) j"
      unfolding claims_def live' by (simp add: assms(4))
    then show "claims t' j = ((claims t)(k \<mapsto> rc_owner c)) j"
      using assms(3) by (cases "j = k") (auto simp: map_add_def split: option.splits)
  qed
qed

lemma res_release_slot:
  assumes inv: "res_inv t" and i: "i < rt_count t"
  defines "t' \<equiv> t\<lparr> rt_count := rt_count t - 1, rt_claims := (rt_claims t)[i := rt_claims t ! (rt_count t - 1)] \<rparr>"
  shows "res_inv t'" "claims t' = (claims t)(claim_key (rt_claims t ! i) := None)"
proof -
  let ?n = "rt_count t - 1" and ?cs = "rt_claims t"
  have n: "?n < length ?cs" "Suc ?n = rt_count t" "i < length ?cs" using inv i by (auto simp: res_inv_def)
  have nth': "live t' ! j = (if j = i then ?cs ! ?n else ?cs ! j)" if "j < ?n" for j
    using that n by (simp add: t'_def nth_list_update)
  have len': "length (live t') = ?n" using n by (simp add: t'_def)
  have dist: "claim_key (?cs ! a) \<noteq> claim_key (?cs ! b)"
    if "a < rt_count t" "b < rt_count t" "a \<noteq> b" for a b
    using inv that by (auto simp: res_inv_def distinct_conv_nth)
  have set': "set (live t') = {?cs ! j | j. j < rt_count t \<and> j \<noteq> i}"
  proof
    show "set (live t') \<subseteq> {?cs ! j | j. j < rt_count t \<and> j \<noteq> i}"
    proof
      fix c assume "c \<in> set (live t')"
      then obtain j where j: "j < ?n" "c = live t' ! j" using len' by (metis in_set_conv_nth)
      with nth' [OF j(1)] have c: "c = (if j = i then ?cs ! ?n else ?cs ! j)" by simp
      show "c \<in> {?cs ! j | j. j < rt_count t \<and> j \<noteq> i}"
      proof (cases "j = i")
        case True
        then have "c = ?cs ! ?n" "?n < rt_count t" "?n \<noteq> i" using c j n by auto
        then show ?thesis by blast
      next
        case False
        then have "c = ?cs ! j" "j < rt_count t" "j \<noteq> i" using c j n by auto
        then show ?thesis by blast
      qed
    qed
    show "{?cs ! j | j. j < rt_count t \<and> j \<noteq> i} \<subseteq> set (live t')"
    proof clarify
      fix j assume j: "j < rt_count t" "j \<noteq> i"
      show "?cs ! j \<in> set (live t')"
      proof (cases "j = ?n")
        case True
        then have "i < ?n" using j i n by auto
        then show ?thesis using nth' [of i] len' True by (metis nth_mem)
      next
        case False
        then have "j < ?n" using j n by auto
        then show ?thesis using nth' [of j] len' j by (metis nth_mem)
      qed
    qed
  qed
  have "distinct (map claim_key (live t'))"
    unfolding distinct_conv_nth length_map len'
  proof (intro allI impI)
    fix a b assume ab: "a < ?n" "b < ?n" "a \<noteq> b"
    have "(if a = i then ?n else a) \<noteq> (if b = i then ?n else b)" using ab by auto
    then have "claim_key (?cs ! (if a = i then ?n else a)) \<noteq> claim_key (?cs ! (if b = i then ?n else b))"
      using ab n by (intro dist) auto
    then show "map claim_key (live t') ! a \<noteq> map claim_key (live t') ! b"
      using nth' [OF ab(1)] nth' [OF ab(2)] ab len' by (auto split: if_splits)
  qed
  then show inv': "res_inv t'" using inv by (auto simp: res_inv_def t'_def)
  show "claims t' = (claims t)(claim_key (?cs ! i) := None)"
  proof (rule ext)
    fix k
    have "claims t' k = Some ow \<longleftrightarrow> ((claims t)(claim_key (?cs ! i) := None)) k = Some ow" for ow
    proof -
      have "claims t' k = Some ow \<longleftrightarrow> (\<exists>j < rt_count t. j \<noteq> i \<and> claim_key (?cs ! j) = k \<and> rc_owner (?cs ! j) = ow)"
        unfolding claims_Some_iff [OF inv'] set' by blast
      also have "\<dots> \<longleftrightarrow> k \<noteq> claim_key (?cs ! i) \<and> (\<exists>c \<in> set (live t). claim_key c = k \<and> rc_owner c = ow)"
      proof
        assume "\<exists>j < rt_count t. j \<noteq> i \<and> claim_key (?cs ! j) = k \<and> rc_owner (?cs ! j) = ow"
        then obtain j where j: "j < rt_count t" "j \<noteq> i" "claim_key (?cs ! j) = k" "rc_owner (?cs ! j) = ow"
          by blast
        moreover have "?cs ! j \<in> set (live t)" using j(1) n by (auto simp: in_set_conv_nth)
        ultimately show "k \<noteq> claim_key (?cs ! i) \<and> (\<exists>c \<in> set (live t). claim_key c = k \<and> rc_owner c = ow)"
          using dist [OF j(1) i j(2)] by blast
      next
        assume "k \<noteq> claim_key (?cs ! i) \<and> (\<exists>c \<in> set (live t). claim_key c = k \<and> rc_owner c = ow)"
        then show "\<exists>j < rt_count t. j \<noteq> i \<and> claim_key (?cs ! j) = k \<and> rc_owner (?cs ! j) = ow"
          by (auto simp: in_set_conv_nth) (metis)
      qed
      also have "\<dots> \<longleftrightarrow> ((claims t)(claim_key (?cs ! i) := None)) k = Some ow"
        using claims_Some_iff [OF inv, of k ow] by auto
      finally show ?thesis .
    qed
    then show "claims t' k = ((claims t)(claim_key (?cs ! i) := None)) k"
      by (metis option.exhaust)
  qed
qed

section \<open>The contract of a claim table\<close>

type_synonym resource_key = "pal_resource_type_t \<times> u32"

locale claim_table =
  fixes inv :: "'t \<Rightarrow> bool"
    and view :: "'t \<Rightarrow> resource_key \<rightharpoonup> string"
    and room :: "'t \<Rightarrow> bool"
    and valid :: "resource_key \<Rightarrow> bool"
    and claim :: "resource_key \<Rightarrow> string \<Rightarrow> 't \<Rightarrow> wink_status_t \<times> 't"
    and release :: "resource_key \<Rightarrow> string \<Rightarrow> 't \<Rightarrow> wink_status_t \<times> 't"
  assumes claim_new: "inv t \<Longrightarrow> valid k \<Longrightarrow> view t k = None \<Longrightarrow> room t \<Longrightarrow>
      \<exists>t'. claim k ow t = (WINK_OK, t') \<and> inv t' \<and> view t' = (view t)(k \<mapsto> ow)"
    and claim_no_room: "inv t \<Longrightarrow> valid k \<Longrightarrow> view t k = None \<Longrightarrow> \<not> room t \<Longrightarrow>
      claim k ow t = (WINK_ERR_RESOURCE_EXHAUSTED, t)"
    and claim_held: "inv t \<Longrightarrow> valid k \<Longrightarrow> view t k = Some ow' \<Longrightarrow>
      claim k ow t = (if ow' = ow then WINK_OK else WINK_ERR_BUSY, t)"
    and claim_invalid: "\<not> valid k \<Longrightarrow> claim k ow t = (WINK_ERR_INVALID_ARG, t)"
    and release_own: "inv t \<Longrightarrow> valid k \<Longrightarrow> view t k = Some ow \<Longrightarrow>
      \<exists>t'. release k ow t = (WINK_OK, t') \<and> inv t' \<and> view t' = (view t)(k := None)"
    and release_not_own: "inv t \<Longrightarrow> \<not> valid k \<or> view t k \<noteq> Some ow \<Longrightarrow>
      release k ow t = (WINK_ERR_INVALID_ARG, t)"
begin

text \<open>Every operation keeps the invariant and all foreign claims.\<close>

lemma claim_inv: "inv t \<Longrightarrow> inv (snd (claim k ow t))"
  using claim_new [of t k ow] claim_no_room [of t k ow] claim_held [of t k _ ow] claim_invalid [of k ow t]
  by (cases "valid k"; cases "view t k"; cases "room t") auto

lemma release_inv: "inv t \<Longrightarrow> inv (snd (release k ow t))"
  using release_own [of t k ow] release_not_own [of t k ow]
  by (cases "valid k \<and> view t k = Some ow") auto

lemma claim_ok_iff:
  "inv t \<Longrightarrow> fst (claim k ow t) = WINK_OK
    \<longleftrightarrow> valid k \<and> (view t k = Some ow \<or> view t k = None \<and> room t)"
  using claim_new [of t k ow] claim_no_room [of t k ow] claim_held [of t k _ ow] claim_invalid [of k ow t]
  by (cases "valid k"; cases "view t k"; cases "room t") auto

lemma claim_view:
  "inv t \<Longrightarrow> view (snd (claim k ow t))
    = (if fst (claim k ow t) = WINK_OK then (view t)(k \<mapsto> ow) else view t)"
  using claim_new [of t k ow] claim_no_room [of t k ow] claim_held [of t k _ ow] claim_invalid [of k ow t]
  by (cases "valid k"; cases "view t k"; cases "room t") (auto simp: fun_upd_idem)

lemma release_view:
  "inv t \<Longrightarrow> view (snd (release k ow t)) = (if valid k \<and> view t k = Some ow then (view t)(k := None) else view t)"
  using release_own [of t k ow] release_not_own [of t k ow]
  by (cases "valid k \<and> view t k = Some ow") auto

lemma claim_exclusive:
  assumes "inv t" "fst (claim k ow t) = WINK_OK" "ow' \<noteq> ow"
  shows "claim k ow' (snd (claim k ow t)) = (WINK_ERR_BUSY, snd (claim k ow t))"
    and "release k ow' (snd (claim k ow t)) = (WINK_ERR_INVALID_ARG, snd (claim k ow t))"
proof -
  let ?t = "snd (claim k ow t)"
  have v: "valid k" using assms claim_ok_iff by blast
  have i: "inv ?t" using assms(1) by (rule claim_inv)
  have "view ?t k = Some ow" using claim_view [OF assms(1), of k ow] assms(2) by simp
  with claim_held [OF i v, of ow ow'] release_not_own [OF i, of k ow'] assms(3)
  show "claim k ow' ?t = (WINK_ERR_BUSY, ?t)" "release k ow' ?t = (WINK_ERR_INVALID_ARG, ?t)" by auto
qed

lemma claim_release_view:
  assumes "inv t" "view t k = None" "fst (claim k ow t) = WINK_OK"
  shows "fst (release k ow (snd (claim k ow t))) = WINK_OK"
    and "view (snd (release k ow (snd (claim k ow t)))) = view t"
proof -
  let ?t = "snd (claim k ow t)"
  have v: "valid k" using assms claim_ok_iff by blast
  have i: "inv ?t" using assms(1) by (rule claim_inv)
  have w: "view ?t = (view t)(k \<mapsto> ow)" using claim_view [OF assms(1), of k ow] assms(3) by simp
  then show "fst (release k ow ?t) = WINK_OK" using release_own [OF i v, of ow] by auto
  show "view (snd (release k ow ?t)) = view t"
    using release_view [OF i, of k ow] w v assms(2) by (simp add: fun_upd_idem)
qed

end

section \<open>The simulation table provides it\<close>

definition res_claim :: "resource_key \<Rightarrow> string \<Rightarrow> resource_table \<Rightarrow> wink_status_t \<times> resource_table" where
  "res_claim k ow t = pal_resource_claim (fst k) (snd k) (Some ow) t"

definition res_release :: "resource_key \<Rightarrow> string \<Rightarrow> resource_table \<Rightarrow> wink_status_t \<times> resource_table" where
  "res_release k ow t = pal_resource_release (fst k) (snd k) (Some ow) t"

definition res_room :: "resource_table \<Rightarrow> bool" where
  "res_room t \<longleftrightarrow> rt_count t < PAL_RESOURCE_MAX_CLAIMS"

definition res_valid :: "resource_key \<Rightarrow> bool" where
  "res_valid k \<longleftrightarrow> \<not> id_invalid (fst k) (snd k)"

lemmas res_ops = res_claim_def res_release_def res_room_def res_valid_def
  pal_resource_claim_def pal_resource_release_def

interpretation rct: claim_table res_inv claims res_room res_valid res_claim res_release
proof (unfold_locales, goal_cases)
  case (1 t k ow)
  obtain ty rid where k: "k = (ty, rid)" by fastforce
  let ?c = "\<lparr> rc_type = ty, rc_id = rid, rc_owner = ow \<rparr>"
  have key: "claim_key ?c = k" by (simp add: claim_key_def k)
  from 1(2,4) have v: "\<not> id_invalid ty rid" and r: "rt_count t < PAL_RESOURCE_MAX_CLAIMS"
    by (simp_all add: res_valid_def res_room_def k)
  have "res_claim k ow t = (WINK_OK, t\<lparr> rt_claims := (rt_claims t)[rt_count t := ?c],
      rt_count := rt_count t + 1 \<rparr>)"
    using 1(3) v r claim_slot_None [of ty rid t] by (simp add: res_claim_def pal_resource_claim_def k)
  with res_claim_new [OF 1(1) r 1(3) key] show ?case by auto
next
  case (2 t k ow) then show ?case
    using claim_slot_None [of "fst k" "snd k" t] by (simp add: res_ops)
next
  case (3 t k ow' ow)
  then obtain i where i: "claim_slot (fst k) (snd k) t = Some i"
    using claim_slot_None [of "fst k" "snd k" t] by fastforce
  from claim_slot_Some [OF 3(1) i] 3(2,3) i show ?case by (simp add: res_ops)
next
  case (4 k ow t) then show ?case by (simp add: res_ops)
next
  case (5 t k ow)
  then obtain i where i: "claim_slot (fst k) (snd k) t = Some i"
    using claim_slot_None [of "fst k" "snd k" t] by fastforce
  note ci = claim_slot_Some [OF 5(1) i]
  have "res_release k ow t = (WINK_OK, t\<lparr> rt_count := rt_count t - 1,
      rt_claims := (rt_claims t)[i := rt_claims t ! (rt_count t - 1)] \<rparr>)"
    using i ci(3) 5(2,3) by (simp add: res_release_def pal_resource_release_def res_valid_def)
  with res_release_slot [OF 5(1) ci(1)] ci(2) show ?case by simp
next
  case (6 t k ow)
  show ?case
  proof (cases "claim_slot (fst k) (snd k) t")
    case None
    then show ?thesis by (simp add: res_ops)
  next
    case (Some i)
    from claim_slot_Some [OF 6(1) Some] Some 6(2) show ?thesis by (auto simp: res_ops)
  qed
qed

section \<open>Properties\<close>

text \<open>C11: the claim table is a bounded map from resources to owners: a free valid resource is
  granted while fewer than 64 are held, a held one is refused to anybody else and granted again
  to its owner, only its owner can release it, and a release frees exactly that resource, although
  the table is compacted by moving its last entry.\<close>
theorem resource_table_is_exclusive_map:
  assumes "res_inv t"
  shows "res_inv (snd (pal_resource_claim ty rid (Some ow) t))
    \<and> res_inv (snd (pal_resource_release ty rid (Some ow) t))
    \<and> (fst (pal_resource_claim ty rid (Some ow) t) = WINK_OK \<longleftrightarrow> \<not> id_invalid ty rid
         \<and> (claims t (ty, rid) = Some ow \<or> claims t (ty, rid) = None \<and> rt_count t < 64))
    \<and> (fst (pal_resource_claim ty rid (Some ow) t) = WINK_OK \<longrightarrow>
         claims (snd (pal_resource_claim ty rid (Some ow) t)) = (claims t)((ty, rid) \<mapsto> ow)
         \<and> (\<forall>ow'. ow' \<noteq> ow \<longrightarrow>
              fst (pal_resource_claim ty rid (Some ow') (snd (pal_resource_claim ty rid (Some ow) t)))
                = WINK_ERR_BUSY))
    \<and> claims (snd (pal_resource_release ty rid (Some ow) t))
        = (if \<not> id_invalid ty rid \<and> claims t (ty, rid) = Some ow
           then (claims t)((ty, rid) := None) else claims t)"
proof -
  have c: "res_claim (ty, rid) o' u = pal_resource_claim ty rid (Some o') u"
    and r: "res_release (ty, rid) o' u = pal_resource_release ty rid (Some o') u" for o' u
    by (simp_all add: res_claim_def res_release_def)
  show ?thesis
    using rct.claim_inv [OF assms, of "(ty, rid)" ow] rct.release_inv [OF assms, of "(ty, rid)" ow]
      rct.claim_ok_iff [OF assms, of "(ty, rid)" ow] rct.claim_view [OF assms, of "(ty, rid)" ow]
      rct.claim_exclusive(1) [OF assms, of "(ty, rid)" ow] rct.release_view [OF assms, of "(ty, rid)" ow]
    by (auto simp: c r res_valid_def res_room_def PAL_RESOURCE_MAX_CLAIMS_def)
qed

definition demo_table :: resource_table where
  "demo_table = \<lparr> rt_claims = replicate 64 \<lparr> rc_type = PAL_RESOURCE_GPIO_PIN, rc_id = 0, rc_owner = [] \<rparr>,
     rt_count = 0 \<rparr>"

lemma demo_table_inv: "res_inv demo_table"
  by (simp add: res_inv_def demo_table_def PAL_RESOURCE_MAX_CLAIMS_def)

lemma resource_table_witness:
  "fst (pal_resource_claim PAL_RESOURCE_GPIO_PIN 4 (Some ''b'')
     (snd (pal_resource_claim PAL_RESOURCE_GPIO_PIN 4 (Some ''a'') demo_table))) = WINK_ERR_BUSY"
  using resource_table_is_exclusive_map [OF demo_table_inv, of PAL_RESOURCE_GPIO_PIN 4 "''a''"]
  by (simp add: id_invalid_def claims_def demo_table_def)

definition pal_resource_mcpwm_id :: "u8 \<Rightarrow> u8 \<Rightarrow> u32" where
  "pal_resource_mcpwm_id unit sub_id = push_bit 8 (ucast unit) OR ucast sub_id"

definition pal_resource_i2c_id :: "u8 \<Rightarrow> u16 \<Rightarrow> u32" where
  "pal_resource_i2c_id port addr = push_bit 16 (ucast port) OR ucast addr"

text \<open>The identifier \<^verbatim>\<open>targets/host/pal_hal_mcpwm_host.c\<close> claims for timer \<open>timer_id\<close> of a unit.\<close>

definition mcpwm_timer_claim_id :: "u8 \<Rightarrow> u8 \<Rightarrow> u32" where
  "mcpwm_timer_claim_id mcpwm_unit timer_id = ucast mcpwm_unit * 3 + ucast timer_id"

text \<open>No timer of MCPWM unit 1 can ever be claimed: the timer driver numbers the timers of
  both units consecutively, while the table bounds the identifier by the three timers of one
  unit, so all three are refused as invalid arguments.\<close>
lemma mcpwm_unit1_timers_unclaimable:
  assumes "timer_id \<le> 2"
  shows "pal_resource_claim PAL_RESOURCE_MCPWM_TIMER (mcpwm_timer_claim_id 1 timer_id) (Some ow) t
    = (WINK_ERR_INVALID_ARG, t)"
proof -
  have "timer_id = 0 \<or> timer_id = 1 \<or> timer_id = 2"
  proof -
    have "unat timer_id \<le> 2" using assms by (simp add: word_le_nat_alt)
    then have "unat timer_id = 0 \<or> unat timer_id = 1 \<or> unat timer_id = 2" by arith
    then show ?thesis by (auto simp: word_unat_eq_iff)
  qed
  then show ?thesis
    by (auto simp: pal_resource_claim_def id_invalid_def mcpwm_timer_claim_id_def
        PAL_RESOURCE_UNLIMITED_MAX_def)
qed

lemma mcpwm_unit1_witness:
  "pal_resource_claim PAL_RESOURCE_MCPWM_TIMER (mcpwm_timer_claim_id 1 2) (Some ''pal_mcpwm_host'') demo_table
    = (WINK_ERR_INVALID_ARG, demo_table)"
  by (rule mcpwm_unit1_timers_unclaimable) simp

end
