(* ===== verification/Dal_Eeprom.thy ===== *)
theory Dal_Eeprom
  imports Sim_Responder Resource
begin

text \<open>
  The EEPROM driver of \<^verbatim>\<open>dal/src/storage/dal_eeprom.c\<close> and the host's I2C transfer
  (\<^verbatim>\<open>targets/host/pal_hal_i2c_host.c\<close>) it runs on. The driver takes the transfer as an argument;
  the locale \<open>i2c_memory\<close> states what it relies on, and the host bus with a simulated AT24C02
  provides it. A result \<open>None\<close> of \<open>dal_eeprom_request_write\<close> is undefined behaviour of the C
  code (a \<^verbatim>\<open>memcpy\<close> beyond its buffers).
\<close>

section \<open>The host's I2C bus\<close>

record i2c_host =
  ih_inited :: "bool list"
  ih_responders :: responders
  ih_log :: "(u8 \<times> u16 \<times> u32) list"

definition PAL_I2C_PORTS :: u8 where "PAL_I2C_PORTS = 2"

definition pal_i2c_bus_init :: "u8 \<Rightarrow> i2c_host \<Rightarrow> wink_status_t \<times> i2c_host" where
  "pal_i2c_bus_init port h =
    (if port \<ge> PAL_I2C_PORTS then (WINK_ERR_INVALID_ARG, h)
     else (WINK_OK, h\<lparr> ih_inited := (ih_inited h)[unat port := True] \<rparr>))"

definition pal_i2c_bus_deinit :: "u8 \<Rightarrow> i2c_host \<Rightarrow> wink_status_t \<times> i2c_host" where
  "pal_i2c_bus_deinit port h =
    (if port \<ge> PAL_I2C_PORTS then (WINK_ERR_INVALID_ARG, h)
     else (WINK_OK, h\<lparr> ih_inited := (ih_inited h)[unat port := False] \<rparr>))"

definition pal_i2c_bus_recover :: "u8 \<Rightarrow> wink_status_t" where
  "pal_i2c_bus_recover port = (if port \<ge> PAL_I2C_PORTS then WINK_ERR_INVALID_ARG else WINK_OK)"

definition pal_i2c_transfer_timeout ::
  "custom_transfer \<Rightarrow> u8 \<Rightarrow> u16 \<Rightarrow> buf \<Rightarrow> u32 \<Rightarrow> buf \<Rightarrow> u32 \<Rightarrow> u32 \<Rightarrow> i2c_host
    \<Rightarrow> wink_status_t \<times> buf \<times> i2c_host" where
  "pal_i2c_transfer_timeout custom port addr w wl r rl timeout_ms h =
    (if port \<ge> PAL_I2C_PORTS then (WINK_ERR_INVALID_ARG, r, h)
     else let h = h\<lparr> ih_inited := (ih_inited h)[unat port := True] \<rparr>;
              (resp_st, r', s) = sim_responder_dispatch custom SIM_BUS_TYPE_I2C port addr w (unat wl)
                                   r (unat rl) (ih_responders h);
              h = h\<lparr> ih_responders := s, ih_log := (port, addr, wl) # ih_log h \<rparr>
          in if resp_st \<noteq> WINK_ERR_NOT_FOUND then (resp_st, r', h)
             else (WINK_OK,
                   if rl > 0 then map_option (\<lambda>b. replicate (unat rl) 0 @ drop (unat rl) b) r' else r', h))"

definition pal_i2c_transfer ::
  "custom_transfer \<Rightarrow> u8 \<Rightarrow> u16 \<Rightarrow> buf \<Rightarrow> u32 \<Rightarrow> buf \<Rightarrow> u32 \<Rightarrow> i2c_host \<Rightarrow> wink_status_t \<times> buf \<times> i2c_host"
where
  "pal_i2c_transfer custom port addr w wl r rl h = pal_i2c_transfer_timeout custom port addr w wl r rl 1000 h"

definition pal_i2c_scan :: "u8 \<Rightarrow> u8 \<Rightarrow> u8 \<Rightarrow> buf \<Rightarrow> nat \<Rightarrow> i2c_host \<Rightarrow> wink_status_t \<times> buf \<times> i2c_host" where
  "pal_i2c_scan port start_addr end_addr bitmap bitmap_bytes h =
    (if bitmap = None \<or> bitmap_bytes < 16 then (WINK_ERR_INVALID_ARG, bitmap, h)
     else if port \<ge> PAL_I2C_PORTS then (WINK_ERR_INVALID_ARG, bitmap, h)
     else let h = h\<lparr> ih_inited := (ih_inited h)[unat port := True] \<rparr>
          in if start_addr > end_addr \<or> end_addr > 0x7F then (WINK_ERR_INVALID_ARG, bitmap, h)
             else (WINK_OK, map_option (\<lambda>b. replicate 16 0 @ drop 16 b) bitmap, h))"

section \<open>The driver\<close>

type_synonym 'b i2c_transfer = "u8 \<Rightarrow> u16 \<Rightarrow> buf \<Rightarrow> u32 \<Rightarrow> buf \<Rightarrow> u32 \<Rightarrow> 'b \<Rightarrow> wink_status_t \<times> buf \<times> 'b"

datatype dal_eeprom_state_t = DAL_EEPROM_IDLE | DAL_EEPROM_BUSY | DAL_EEPROM_READY | DAL_EEPROM_ERROR

record dal_eeprom_config_t =
  ec_owner :: "string option"
  ec_capacity_bytes :: u32
  ec_i2c_addr :: u16
  ec_page_size :: u16
  ec_write_time_ms :: u16
  ec_i2c_port :: u8

record dal_eeprom_t =
  ed_config :: dal_eeprom_config_t
  ed_state :: dal_eeprom_state_t
  ed_last_status :: wink_status_t
  ed_req_addr :: u32
  ed_req_len :: u32
  ed_req_buf :: buf
  ed_initialized :: bool

text \<open>What the driver works on: the claims, the bus, and the receive buffer all handles share.\<close>

record 'b eeprom_world =
  ew_claims :: resource_table
  ew_bus :: 'b
  ew_rx_buf :: "u8 list"

definition EEPROM_INTERNAL_BUF_MAX :: u32 where "EEPROM_INTERNAL_BUF_MAX = 128"

definition eeprom_zero :: dal_eeprom_t where
  "eeprom_zero = \<lparr> ed_config = \<lparr> ec_owner = None, ec_capacity_bytes = 0, ec_i2c_addr = 0,
       ec_page_size = 0, ec_write_time_ms = 0, ec_i2c_port = 0 \<rparr>,
     ed_state = DAL_EEPROM_IDLE, ed_last_status = WINK_OK, ed_req_addr = 0, ed_req_len = 0,
     ed_req_buf = None, ed_initialized = False \<rparr>"

definition dal_eeprom_init ::
  "dal_eeprom_t option \<Rightarrow> dal_eeprom_config_t option \<Rightarrow> 'b eeprom_world
    \<Rightarrow> wink_status_t \<times> dal_eeprom_t option \<times> 'b eeprom_world" where
  "dal_eeprom_init dev cfg w =
    (case (dev, cfg) of
       (Some d, Some c) \<Rightarrow>
         if ec_owner c = None then (WINK_ERR_INVALID_ARG, dev, w)
         else if ed_initialized d then (WINK_ERR_ALREADY_INITIALIZED, dev, w)
         else let res_id = pal_resource_i2c_id (ec_i2c_port c) (ec_i2c_addr c);
                  (rs, t) = pal_resource_claim PAL_RESOURCE_I2C_ADDR res_id (ec_owner c) (ew_claims w);
                  w = w\<lparr> ew_claims := t \<rparr>
              in if rs \<noteq> WINK_OK then (rs, dev, w)
                 else (WINK_OK, Some (eeprom_zero\<lparr> ed_config := c, ed_state := DAL_EEPROM_IDLE,
                                                   ed_initialized := True \<rparr>), w)
     | _ \<Rightarrow> (WINK_ERR_INVALID_ARG, dev, w))"

definition addr_hi :: "u32 \<Rightarrow> u8" where "addr_hi addr = ucast (drop_bit 8 addr AND 0xFF)"
definition addr_lo :: "u32 \<Rightarrow> u8" where "addr_lo addr = ucast (addr AND 0xFF)"

definition dal_eeprom_request_read ::
  "'b i2c_transfer \<Rightarrow> dal_eeprom_t option \<Rightarrow> u32 \<Rightarrow> u32 \<Rightarrow> 'b eeprom_world
    \<Rightarrow> wink_status_t \<times> dal_eeprom_t option \<times> 'b eeprom_world" where
  "dal_eeprom_request_read xfer dev addr len w =
    (case dev of None \<Rightarrow> (WINK_ERR_INVALID_ARG, dev, w)
     | Some d \<Rightarrow>
       if \<not> ed_initialized d then (WINK_ERR_NOT_INITIALIZED, dev, w)
       else if addr + len > ec_capacity_bytes (ed_config d) \<or> len = 0 \<or> len > EEPROM_INTERNAL_BUF_MAX
       then (WINK_ERR_OUT_OF_RANGE, dev, w)
       else if ed_state d = DAL_EEPROM_BUSY then (WINK_ERR_BUSY, dev, w)
       else let d = d\<lparr> ed_req_addr := addr, ed_req_len := len \<rparr>;
                dst = (if ed_req_buf d \<noteq> None then ed_req_buf d else Some (ew_rx_buf w));
                (st, dst, b) = xfer (ec_i2c_port (ed_config d)) (ec_i2c_addr (ed_config d))
                                 (Some [addr_hi addr, addr_lo addr]) 2 dst len (ew_bus w);
                w = w\<lparr> ew_bus := b \<rparr>;
                w = (if ed_req_buf d \<noteq> None then w else w\<lparr> ew_rx_buf := the dst \<rparr>);
                d = (if ed_req_buf d \<noteq> None then d\<lparr> ed_req_buf := dst \<rparr> else d);
                d = d\<lparr> ed_last_status := st,
                       ed_state := (if st = WINK_OK then DAL_EEPROM_READY else DAL_EEPROM_ERROR) \<rparr>
            in (st, Some d, w))"

definition dal_eeprom_request_write ::
  "'b i2c_transfer \<Rightarrow> dal_eeprom_t option \<Rightarrow> u32 \<Rightarrow> buf \<Rightarrow> u32 \<Rightarrow> 'b eeprom_world
    \<Rightarrow> (wink_status_t \<times> dal_eeprom_t option \<times> 'b eeprom_world) option" where
  "dal_eeprom_request_write xfer dev addr bf len w =
    (case (dev, bf) of
       (Some d, Some bs) \<Rightarrow>
         if \<not> ed_initialized d then Some (WINK_ERR_NOT_INITIALIZED, dev, w)
         else if addr + len > ec_capacity_bytes (ed_config d) \<or> len = 0 then Some (WINK_ERR_OUT_OF_RANGE, dev, w)
         else if ed_state d = DAL_EEPROM_BUSY then Some (WINK_ERR_BUSY, dev, w)
         else if len + 2 > EEPROM_INTERNAL_BUF_MAX + 2 then Some (WINK_ERR_OUT_OF_RANGE, dev, w)
         else if unat len > unat EEPROM_INTERNAL_BUF_MAX \<or> unat len > length bs then None
         else let tx_buf = addr_hi addr # addr_lo addr # take (unat len) bs;
                  (st, _, b) = xfer (ec_i2c_port (ed_config d)) (ec_i2c_addr (ed_config d))
                                 (Some tx_buf) (len + 2) None 0 (ew_bus w);
                  d = d\<lparr> ed_last_status := st,
                         ed_state := (if st = WINK_OK then DAL_EEPROM_READY else DAL_EEPROM_ERROR) \<rparr>
              in Some (st, Some d, w\<lparr> ew_bus := b \<rparr>)
     | _ \<Rightarrow> Some (WINK_ERR_INVALID_ARG, dev, w))"

definition dal_eeprom_poll :: "dal_eeprom_t option \<Rightarrow> wink_status_t" where
  "dal_eeprom_poll dev =
    (case dev of None \<Rightarrow> WINK_ERR_INVALID_ARG
     | Some d \<Rightarrow> if \<not> ed_initialized d then WINK_ERR_NOT_INITIALIZED else WINK_OK)"

definition dal_eeprom_get_status ::
  "dal_eeprom_t option \<Rightarrow> dal_eeprom_state_t option \<Rightarrow> wink_status_t \<times> dal_eeprom_state_t option" where
  "dal_eeprom_get_status dev out_state =
    (case dev of None \<Rightarrow> (WINK_ERR_INVALID_ARG, out_state)
     | Some d \<Rightarrow>
       if out_state = None then (WINK_ERR_INVALID_ARG, out_state)
       else if \<not> ed_initialized d then (WINK_ERR_NOT_INITIALIZED, out_state)
       else (WINK_OK, Some (ed_state d)))"

definition dal_eeprom_get_read_result ::
  "dal_eeprom_t option \<Rightarrow> buf \<Rightarrow> u32 \<Rightarrow> 'b eeprom_world \<Rightarrow> wink_status_t \<times> buf \<times> dal_eeprom_t option" where
  "dal_eeprom_get_read_result dev bf len w =
    (case (dev, bf) of
       (Some d, Some bs) \<Rightarrow>
         if \<not> ed_initialized d then (WINK_ERR_NOT_INITIALIZED, bf, dev)
         else if ed_state d \<noteq> DAL_EEPROM_READY then (WINK_ERR_INVALID_STATE, bf, dev)
         else let copy_len = (if len < ed_req_len d then len else ed_req_len d);
                  src = (case ed_req_buf d of Some b \<Rightarrow> b | None \<Rightarrow> ew_rx_buf w)
              in (WINK_OK, Some (take (unat copy_len) src @ drop (unat copy_len) bs),
                  Some (d\<lparr> ed_state := DAL_EEPROM_IDLE \<rparr>))
     | _ \<Rightarrow> (WINK_ERR_INVALID_ARG, bf, dev))"

definition dal_eeprom_read_blocking ::
  "'b i2c_transfer \<Rightarrow> dal_eeprom_t option \<Rightarrow> u32 \<Rightarrow> buf \<Rightarrow> u32 \<Rightarrow> 'b eeprom_world
    \<Rightarrow> wink_status_t \<times> buf \<times> dal_eeprom_t option \<times> 'b eeprom_world" where
  "dal_eeprom_read_blocking xfer dev addr bf len w =
    (case (dev, bf) of
       (Some d, Some bs) \<Rightarrow>
         let (st, dev, w) = dal_eeprom_request_read xfer (Some (d\<lparr> ed_req_buf := Some bs \<rparr>)) addr len w;
             bf = ed_req_buf (the dev);
             d = (the dev)\<lparr> ed_req_buf := None \<rparr>
         in if st \<noteq> WINK_OK then (st, bf, Some d, w)
            else (WINK_OK, bf, Some (d\<lparr> ed_state := DAL_EEPROM_IDLE \<rparr>), w)
     | _ \<Rightarrow> (WINK_ERR_INVALID_ARG, bf, dev, w))"

definition dal_eeprom_write_blocking ::
  "'b i2c_transfer \<Rightarrow> dal_eeprom_t option \<Rightarrow> u32 \<Rightarrow> buf \<Rightarrow> u32 \<Rightarrow> 'b eeprom_world
    \<Rightarrow> (wink_status_t \<times> dal_eeprom_t option \<times> 'b eeprom_world) option" where
  "dal_eeprom_write_blocking xfer dev addr bf len w =
    (if dev = None \<or> bf = None then Some (WINK_ERR_INVALID_ARG, dev, w)
     else dal_eeprom_request_write xfer dev addr bf len w)"

definition dal_eeprom_deinit ::
  "dal_eeprom_t option \<Rightarrow> 'b eeprom_world \<Rightarrow> wink_status_t \<times> dal_eeprom_t option \<times> 'b eeprom_world" where
  "dal_eeprom_deinit dev w =
    (case dev of None \<Rightarrow> (WINK_ERR_INVALID_ARG, dev, w)
     | Some d \<Rightarrow>
       if \<not> ed_initialized d then (WINK_OK, dev, w)
       else let res_id = pal_resource_i2c_id (ec_i2c_port (ed_config d)) (ec_i2c_addr (ed_config d));
                (_, t) = pal_resource_release PAL_RESOURCE_I2C_ADDR res_id (ec_owner (ed_config d)) (ew_claims w)
            in (WINK_OK, Some eeprom_zero, w\<lparr> ew_claims := t \<rparr>))"

section \<open>The contract of a memory on the bus\<close>

text \<open>A memory answers at a place: what is written with a two-byte address in the first 256 cells
  is read back from there, into the front of the reader's buffer.\<close>

locale i2c_memory =
  fixes xfer :: "'b i2c_transfer"
    and ready :: "u8 \<Rightarrow> u16 \<Rightarrow> 'b \<Rightarrow> bool"
  assumes read_back: "ready port ad b \<Longrightarrow> 0 < length bs \<Longrightarrow> length bs \<le> 128 \<Longrightarrow> length bs \<le> length rb \<Longrightarrow>
      \<exists>b1 b2. xfer port ad (Some (0 # lo # bs)) (of_nat (length bs) + 2) None 0 b = (WINK_OK, None, b1)
        \<and> xfer port ad (Some [hi, lo]) 2 (Some rb) (of_nat (length bs)) b1
            = (WINK_OK, Some (bs @ drop (length bs) rb), b2)"
begin

lemma write_then_read:
  assumes dev: "ed_initialized d" "ed_state d \<noteq> DAL_EEPROM_BUSY" "ed_req_buf d = None"
    and ready: "ready (ec_i2c_port (ed_config d)) (ec_i2c_addr (ed_config d)) (ew_bus w)"
    and len: "0 < length bs" "length bs \<le> 128" and cap: "addr + of_nat (length bs) \<le> ec_capacity_bytes (ed_config d)"
    and addr: "addr < 256" and out: "length rb = length bs"
  shows "\<exists>d1 w1 d2 w2. dal_eeprom_write_blocking xfer (Some d) addr (Some bs) (of_nat (length bs)) w
        = Some (WINK_OK, Some d1, w1)
    \<and> dal_eeprom_read_blocking xfer (Some d1) addr (Some rb) (of_nat (length bs)) w1
        = (WINK_OK, Some bs, Some d2, w2)
    \<and> ed_config d2 = ed_config d \<and> ed_initialized d2 \<and> ed_state d2 = DAL_EEPROM_IDLE \<and> ed_req_buf d2 = None"
proof -
  let ?n = "of_nat (length bs) :: u32"
  have n: "unat ?n = length bs" using len(2) by (simp add: unat_of_nat)
  have n2: "unat (?n + 2) = length bs + 2" using n len(2) by (simp add: unat_word_ariths)
  have nz: "?n \<noteq> 0" using n len(1) by (metis less_irrefl unat_0)
  have small: "\<not> ?n + 2 > EEPROM_INTERNAL_BUF_MAX + 2" "\<not> ?n > EEPROM_INTERNAL_BUF_MAX"
    "\<not> unat ?n > unat EEPROM_INTERNAL_BUF_MAX"
    using n n2 len(2) by (simp_all add: EEPROM_INTERNAL_BUF_MAX_def word_less_nat_alt)
  have hi: "addr_hi addr = 0"
  proof -
    have "unat (addr div 256) = 0" using addr by (simp add: unat_div word_less_nat_alt)
    then have "drop_bit 8 addr = 0" by (simp add: drop_bit_eq_div word_unat_eq_iff)
    then show ?thesis by (simp add: addr_hi_def)
  qed
  from read_back [OF ready len, of rb "addr_lo addr" "addr_hi addr"] out obtain b1 b2 where x:
    "xfer (ec_i2c_port (ed_config d)) (ec_i2c_addr (ed_config d)) (Some (0 # addr_lo addr # bs)) (?n + 2)
       None 0 (ew_bus w) = (WINK_OK, None, b1)"
    "xfer (ec_i2c_port (ed_config d)) (ec_i2c_addr (ed_config d)) (Some [addr_hi addr, addr_lo addr]) 2
       (Some rb) ?n b1 = (WINK_OK, Some bs, b2)" by auto
  let ?d = "d\<lparr> ed_last_status := WINK_OK, ed_state := DAL_EEPROM_READY \<rparr>"
  let ?w = "w\<lparr> ew_bus := b1 \<rparr>"
  have "dal_eeprom_write_blocking xfer (Some d) addr (Some bs) ?n w = Some (WINK_OK, Some ?d, ?w)"
    using dev cap nz small x(1) n len(2)
    by (simp add: dal_eeprom_write_blocking_def dal_eeprom_request_write_def Let_def hi not_less)
  moreover have "\<exists>d2 w2. dal_eeprom_read_blocking xfer (Some ?d) addr (Some rb) ?n ?w
      = (WINK_OK, Some bs, Some d2, w2) \<and> ed_config d2 = ed_config d \<and> ed_initialized d2
      \<and> ed_state d2 = DAL_EEPROM_IDLE \<and> ed_req_buf d2 = None"
    using dev cap nz small x(2)
    by (simp add: dal_eeprom_read_blocking_def dal_eeprom_request_read_def Let_def not_less)
  ultimately show ?thesis by blast
qed

end

section \<open>The host bus provides it\<close>

definition eeprom_at :: "u8 \<Rightarrow> u16 \<Rightarrow> i2c_host \<Rightarrow> bool" where
  "eeprom_at port ad h \<longleftrightarrow> port < PAL_I2C_PORTS \<and> resp_inv (ih_responders h)
    \<and> (\<exists>p s e. dispatch_target SIM_BUS_TYPE_I2C port ad (ih_responders h) = (Some p, s)
         \<and> sr_device (rs_mem s p) = At24c02 e \<and> eeprom_ok e)"

interpretation hbus: i2c_memory "pal_i2c_transfer custom" eeprom_at for custom
proof (unfold_locales, goal_cases)
  case (1 port ad h bs rb lo hi)
  have port: "\<not> port \<ge> PAL_I2C_PORTS" using 1(1) by (simp add: eeprom_at_def not_le)
  obtain p s e where t: "resp_inv (ih_responders h)"
    "dispatch_target SIM_BUS_TYPE_I2C port ad (ih_responders h) = (Some p, s)"
    "sr_device (rs_mem s p) = At24c02 e" "eeprom_ok e" using 1(1) by (auto simp: eeprom_at_def)
  have n: "unat (of_nat (length bs) :: u32) = length bs" using 1(3) by (simp add: unat_of_nat)
  have n2: "unat (of_nat (length bs) + 2 :: u32) = length bs + 2" using n 1(3) by (simp add: unat_word_ariths)
  have le: "length bs \<le> 256" using 1(3) by simp
  from eeprom_bus_roundtrip [OF t 1(2) le 1(4), of custom lo hi] obtain s2 s3 where
    "sim_responder_dispatch custom SIM_BUS_TYPE_I2C port ad (Some (0 # lo # bs)) (length bs + 2) None 0
       (ih_responders h) = (WINK_OK, None, s2)"
    "sim_responder_dispatch custom SIM_BUS_TYPE_I2C port ad (Some [hi, lo]) 2 (Some rb) (length bs) s2
       = (WINK_OK, Some (bs @ drop (length bs) rb), s3)" by blast
  then show ?case using port n n2
    by (simp add: pal_i2c_transfer_def pal_i2c_transfer_timeout_def Let_def)
qed

section \<open>Properties\<close>

text \<open>C17: through the driver, the host's I2C bus and the simulated AT24C02, what is written
  is read back: up to 128 bytes at an address below 256 within the capacity, whatever responder
  table the device was found in or created on demand for. Both calls return \<open>WINK_OK\<close> and the
  handle ends idle.\<close>
theorem eeprom_end_to_end_roundtrip:
  assumes "ed_initialized d" "ed_state d \<noteq> DAL_EEPROM_BUSY" "ed_req_buf d = None"
    and "eeprom_at (ec_i2c_port (ed_config d)) (ec_i2c_addr (ed_config d)) (ew_bus w)"
    and "0 < length bs" "length bs \<le> 128" "addr + of_nat (length bs) \<le> ec_capacity_bytes (ed_config d)"
    and "addr < 256" "length rb = length bs"
  shows "\<exists>d1 w1 d2 w2. dal_eeprom_write_blocking (pal_i2c_transfer custom) (Some d) addr (Some bs)
        (of_nat (length bs)) w = Some (WINK_OK, Some d1, w1)
    \<and> dal_eeprom_read_blocking (pal_i2c_transfer custom) (Some d1) addr (Some rb)
        (of_nat (length bs)) w1 = (WINK_OK, Some bs, Some d2, w2)
    \<and> ed_config d2 = ed_config d \<and> ed_initialized d2 \<and> ed_state d2 = DAL_EEPROM_IDLE \<and> ed_req_buf d2 = None"
  by (rule hbus.write_then_read [OF assms])

definition demo_eeprom :: dal_eeprom_t where
  "demo_eeprom = eeprom_zero\<lparr> ed_config := \<lparr> ec_owner = Some ''cfg'', ec_capacity_bytes = 256,
     ec_i2c_addr = 0x50, ec_page_size = 8, ec_write_time_ms = 5, ec_i2c_port = 0 \<rparr>, ed_initialized := True \<rparr>"

definition demo_bus :: "i2c_host eeprom_world" where
  "demo_bus = \<lparr> ew_claims = demo_table, ew_bus = \<lparr> ih_inited = [False, False],
     ih_responders = demo_responders, ih_log = [] \<rparr>, ew_rx_buf = replicate 128 0 \<rparr>"

lemma demo_bus_eeprom: "eeprom_at 0 0x50 (ew_bus demo_bus)"
proof -
  have "dispatch_target SIM_BUS_TYPE_I2C 0 0x50 demo_responders
      = (Some s_default_at24c02, (snd (sim_i2c_eeprom_at24c02_init (Some s_default_at24c02) 0 0x50
          demo_responders))\<lparr> rs_at24c02_inited := True \<rparr>)"
    by (simp add: dispatch_target_def demo_responders_def)
  then show ?thesis
    using demo_responders_inv
    by (simp add: eeprom_at_def PAL_I2C_PORTS_def demo_bus_def sim_i2c_eeprom_at24c02_init_def
        sim_responder_register_def demo_responders_def SIM_MAX_RESPONDERS_def eeprom_ok_def)
qed

lemma eeprom_end_to_end_roundtrip_witness:
  "\<exists>d1 w1 d2 w2. dal_eeprom_write_blocking (pal_i2c_transfer (\<lambda>f r wb wl rb rl. (WINK_OK, rb, r)))
      (Some demo_eeprom) 250 (Some [1, 2, 3]) 3 demo_bus = Some (WINK_OK, Some d1, w1)
    \<and> dal_eeprom_read_blocking (pal_i2c_transfer (\<lambda>f r wb wl rb rl. (WINK_OK, rb, r)))
      (Some d1) 250 (Some [0, 0, 0]) 3 w1 = (WINK_OK, Some [1, 2, 3], Some d2, w2)"
  using eeprom_end_to_end_roundtrip [of demo_eeprom demo_bus "[1, 2, 3]" 250 "[0, 0, 0]"
      "\<lambda>f r wb wl rb rl. (WINK_OK, rb, r)"] demo_bus_eeprom
  by (auto simp: demo_eeprom_def eeprom_zero_def)

text \<open>The range check of a write adds address and length modulo \<open>2 ^ 32\<close>. Where the sum
  does not wrap the write stays within its buffers; a write of \<open>2 ^ 32 - 2\<close> bytes to address 2
  passes every check of any idle device and copies beyond the 130-byte stack buffer.\<close>
lemma eeprom_write_bounds_wrap:
  assumes "ed_initialized d" "ed_state d \<noteq> DAL_EEPROM_BUSY"
  shows "(unat addr + unat len < 2 ^ 32 \<longrightarrow> unat len + 2 < 2 ^ 32 \<longrightarrow> unat len \<le> length bs
      \<longrightarrow> dal_eeprom_request_write xfer (Some d) addr (Some bs) len w \<noteq> None)
    \<and> dal_eeprom_request_write xfer (Some d) 2 (Some bs) 0xFFFFFFFE w = None"
proof
  show "unat addr + unat len < 2 ^ 32 \<longrightarrow> unat len + 2 < 2 ^ 32 \<longrightarrow> unat len \<le> length bs
      \<longrightarrow> dal_eeprom_request_write xfer (Some d) addr (Some bs) len w \<noteq> None"
  proof (intro impI)
    assume small: "unat len + 2 < 2 ^ 32" and bs: "unat len \<le> length bs"
    have "unat (len + 2) = unat len + 2" using small by (simp add: unat_word_ariths)
    then have "unat len \<le> unat EEPROM_INTERNAL_BUF_MAX" if "\<not> len + 2 > EEPROM_INTERNAL_BUF_MAX + 2"
      using that by (simp add: EEPROM_INTERNAL_BUF_MAX_def word_less_nat_alt)
    then show "dal_eeprom_request_write xfer (Some d) addr (Some bs) len w \<noteq> None"
      using bs by (auto simp: dal_eeprom_request_write_def Let_def split: prod.split)
  qed
  have "dal_eeprom_request_write xfer (Some d) a (Some bs) n w = None"
    if "a + n = 0" "n + 2 = 0" "n \<noteq> 0" "unat n > 128" for a n
    using assms that by (simp add: dal_eeprom_request_write_def EEPROM_INTERNAL_BUF_MAX_def)
  then show "dal_eeprom_request_write xfer (Some d) 2 (Some bs) 0xFFFFFFFE w = None" by simp
qed

lemma eeprom_write_bounds_wrap_witness:
  "dal_eeprom_request_write (pal_i2c_transfer (\<lambda>f r wb wl rb rl. (WINK_OK, rb, r)))
     (Some demo_eeprom) 2 (Some [7]) 0xFFFFFFFE demo_bus = None"
  using eeprom_write_bounds_wrap [of demo_eeprom 0 0 "[7]"
      "pal_i2c_transfer (\<lambda>f r wb wl rb rl. (WINK_OK, rb, r))" demo_bus]
  by (simp add: demo_eeprom_def eeprom_zero_def)

text \<open>All handles share one receive buffer: a second device's read replaces the pending result
  of the first.\<close>

lemma shared_receive_buffer:
  assumes "ed_initialized d" "ed_state d = DAL_EEPROM_READY" "ed_req_buf d = None" "ed_req_len d = len"
    "length bs = unat len"
  shows "fst (snd (dal_eeprom_get_read_result (Some d) (Some bs) len w)) = Some (take (unat len) (ew_rx_buf w))"
  using assms by (simp add: dal_eeprom_get_read_result_def)

end
