(* ===== verification/Sim_Scheduler.thy ===== *)
theory Sim_Scheduler
  imports Wink_Prelude
begin

text \<open>
  The cooperative scheduler of the simulation targets, \<^verbatim>\<open>targets/common/src/wink_sim_scheduler.c\<close>:
  sixteen static task slots on one virtual core, a bounded trace of scheduling events, timed
  wake-ups and round-robin selection with precedence for tasks woken by interrupts. Slots are
  naturals, the sentinel \<^verbatim>\<open>SIM_SCHED_NO_READY\<close> is \<open>None\<close>. Fibers (\<^verbatim>\<open>sim_ctx_t\<close>) belong to the
  platform: their creation is a parameter and the operations return the handles they destroy.
  The clock and the interrupt flag are arguments of the operations that read them.
\<close>

section \<open>Data\<close>

datatype wink_sim_wake_reason_t =
  WINK_SIM_WAKE_NONE | WINK_SIM_WAKE_IRQ | WINK_SIM_WAKE_SYNC_RES | WINK_SIM_WAKE_TIMEOUT | WINK_SIM_WAKE_DIRECT

datatype wink_sim_trace_event_type_t =
    WINK_SIM_TRACE_EVENT_NONE
  | WINK_SIM_TRACE_EVENT_IRQ_DISPATCH
  | WINK_SIM_TRACE_EVENT_TASK_WOKEN
  | WINK_SIM_TRACE_EVENT_TASK_SWITCH_IN
  | WINK_SIM_TRACE_EVENT_TASK_BLOCK
  | WINK_SIM_TRACE_EVENT_TASK_YIELD

datatype sim_task_state_t =
    SIM_TASK_STATE_INVALID
  | SIM_TASK_STATE_READY
  | SIM_TASK_STATE_WAITING
  | SIM_TASK_STATE_BLOCKED
  | SIM_TASK_STATE_ZOMBIE
  | SIM_TASK_STATE_TERMINATED

record wink_sim_trace_entry_t =
  te_virtual_time_us :: u64
  te_sequence :: u32
  te_task_id :: u32
  te_task_slot :: nat
  te_resource_id :: u32
  te_wake_reason :: wink_sim_wake_reason_t
  te_event_type :: wink_sim_trace_event_type_t
  te_task_name :: string

record sim_task_t =
  tk_func :: nat
  tk_arg :: nat
  tk_priority :: int
  tk_core_id :: int
  tk_wakeup_us :: u64
  tk_runtime_us :: u64
  tk_blocked_on :: u32
  tk_timeout_fired :: bool
  tk_last_wake_reason :: wink_sim_wake_reason_t
  tk_state :: sim_task_state_t
  tk_id :: u32
  tk_name :: string
  tk_ctx :: "nat option"

record sim_sched =
  ss_tasks :: "sim_task_t list"
  ss_task_id_counter :: u32
  ss_current :: "nat option"
  ss_prng_state :: u32
  ss_last_scheduled :: "nat option"
  ss_trace :: "wink_sim_trace_entry_t list"
  ss_trace_sequence :: u32
  ss_trace_enabled :: bool
  ss_main_ctx :: "nat option"

definition WINK_SIM_MAX_TASKS :: nat where "WINK_SIM_MAX_TASKS = 16"
definition WINK_SIM_TRACE_CAPACITY :: nat where "WINK_SIM_TRACE_CAPACITY = 128"
definition WINK_SIM_STACK_MIN :: u32 where "WINK_SIM_STACK_MIN = 32768"

definition task_zero :: sim_task_t where
  "task_zero = \<lparr> tk_func = 0, tk_arg = 0, tk_priority = 0, tk_core_id = 0, tk_wakeup_us = 0,
     tk_runtime_us = 0, tk_blocked_on = 0, tk_timeout_fired = False,
     tk_last_wake_reason = WINK_SIM_WAKE_NONE, tk_state = SIM_TASK_STATE_INVALID, tk_id = 0,
     tk_name = [], tk_ctx = None \<rparr>"

definition slot_free :: "sim_task_t \<Rightarrow> bool" where
  "slot_free t \<longleftrightarrow> tk_state t = SIM_TASK_STATE_INVALID \<or> tk_state t = SIM_TASK_STATE_TERMINATED"

abbreviation upd_task :: "nat \<Rightarrow> (sim_task_t \<Rightarrow> sim_task_t) \<Rightarrow> sim_sched \<Rightarrow> sim_sched" where
  "upd_task i f s \<equiv> s\<lparr> ss_tasks := (ss_tasks s)[i := f (ss_tasks s ! i)] \<rparr>"

section \<open>The event trace\<close>

definition sim_scheduler_trace_enable :: "bool \<Rightarrow> sim_sched \<Rightarrow> sim_sched" where
  "sim_scheduler_trace_enable enable s = s\<lparr> ss_trace_enabled := enable \<rparr>"

definition sim_scheduler_trace_is_enabled :: "sim_sched \<Rightarrow> bool" where
  "sim_scheduler_trace_is_enabled s = ss_trace_enabled s"

definition sim_scheduler_trace_reset :: "sim_sched \<Rightarrow> sim_sched" where
  "sim_scheduler_trace_reset s = s\<lparr> ss_trace := [], ss_trace_sequence := 0 \<rparr>"

definition sim_scheduler_trace_count :: "sim_sched \<Rightarrow> nat" where
  "sim_scheduler_trace_count s = length (ss_trace s)"

definition sim_scheduler_trace_get :: "nat \<Rightarrow> sim_sched \<Rightarrow> wink_sim_trace_entry_t option" where
  "sim_scheduler_trace_get index s =
    (if index \<ge> length (ss_trace s) \<or> index \<ge> WINK_SIM_TRACE_CAPACITY then None
     else Some (ss_trace s ! index))"

definition sim_scheduler_trace_record ::
  "u64 \<Rightarrow> u64 \<Rightarrow> nat \<Rightarrow> u32 \<Rightarrow> wink_sim_wake_reason_t \<Rightarrow> wink_sim_trace_event_type_t
    \<Rightarrow> sim_sched \<Rightarrow> sim_sched" where
  "sim_scheduler_trace_record clock virtual_time_us task_slot resource_id wake_reason event_type s =
    (if \<not> ss_trace_enabled s then s
     else if length (ss_trace s) \<ge> WINK_SIM_TRACE_CAPACITY then s
     else let live = task_slot < WINK_SIM_MAX_TASKS \<and> \<not> slot_free (ss_tasks s ! task_slot);
              entry = \<lparr> te_virtual_time_us = (if virtual_time_us > 0 then virtual_time_us else clock),
                        te_sequence = ss_trace_sequence s + 1,
                        te_task_id = (if live then tk_id (ss_tasks s ! task_slot) else 0),
                        te_task_slot = task_slot, te_resource_id = resource_id,
                        te_wake_reason = wake_reason, te_event_type = event_type,
                        te_task_name = (if live then take 15 (tk_name (ss_tasks s ! task_slot)) else []) \<rparr>
          in s\<lparr> ss_trace := ss_trace s @ [entry], ss_trace_sequence := ss_trace_sequence s + 1 \<rparr>)"

section \<open>Tasks\<close>

definition sim_prng_next :: "sim_sched \<Rightarrow> u32 \<times> sim_sched" where
  "sim_prng_next s =
    (let x = ss_prng_state s;
         x = x XOR push_bit 13 x;
         x = x XOR drop_bit 17 x;
         x = x XOR push_bit 5 x
     in (x, s\<lparr> ss_prng_state := x \<rparr>))"

text \<open>Reset also returns the fibers it destroys.\<close>

definition sim_scheduler_reset :: "u32 \<Rightarrow> sim_sched \<Rightarrow> sim_sched \<times> nat list" where
  "sim_scheduler_reset prng_seed s =
    (sim_scheduler_trace_reset (s\<lparr> ss_tasks := replicate WINK_SIM_MAX_TASKS task_zero,
       ss_task_id_counter := 0, ss_current := None, ss_last_scheduled := None,
       ss_prng_state := (if prng_seed \<noteq> 0 then prng_seed else 42) \<rparr>),
     concat (map (\<lambda>t. if slot_free t then [] else case tk_ctx t of Some c \<Rightarrow> [c] | None \<Rightarrow> [])
               (ss_tasks s)))"

definition sim_scheduler_register ::
  "(u32 \<Rightarrow> nat option) \<Rightarrow> nat \<Rightarrow> nat \<Rightarrow> string \<Rightarrow> int \<Rightarrow> int \<Rightarrow> u32 \<Rightarrow> sim_sched
    \<Rightarrow> (wink_status_t + nat) \<times> sim_sched" where
  "sim_scheduler_register sim_ctx_create func arg name priority core_id stack_depth s =
    (case first_slot slot_free (ss_tasks s) of
       None \<Rightarrow> (Inl WINK_ERR_NO_MEM, s)
     | Some slot \<Rightarrow>
         let eff_stack = (if stack_depth < WINK_SIM_STACK_MIN then WINK_SIM_STACK_MIN else stack_depth)
         in case sim_ctx_create eff_stack of
              None \<Rightarrow> (Inl WINK_ERR_NO_MEM, s)
            | Some ctx \<Rightarrow>
                (Inr slot, (upd_task slot (\<lambda>t. t\<lparr> tk_func := func, tk_arg := arg, tk_priority := priority,
                   tk_core_id := core_id, tk_wakeup_us := 0, tk_runtime_us := 0, tk_blocked_on := 0,
                   tk_timeout_fired := False, tk_last_wake_reason := WINK_SIM_WAKE_NONE,
                   tk_state := SIM_TASK_STATE_READY, tk_id := ss_task_id_counter s, tk_ctx := Some ctx,
                   tk_name := take 15 name \<rparr>) s)\<lparr> ss_task_id_counter := ss_task_id_counter s + 1 \<rparr>))"

definition sim_scheduler_mark_zombie :: "nat \<Rightarrow> sim_sched \<Rightarrow> sim_sched" where
  "sim_scheduler_mark_zombie task_id s =
    (if task_id < WINK_SIM_MAX_TASKS \<and> \<not> slot_free (ss_tasks s ! task_id)
     then upd_task task_id (\<lambda>t. t\<lparr> tk_state := SIM_TASK_STATE_ZOMBIE \<rparr>) s else s)"

definition gc_task :: "sim_task_t \<Rightarrow> sim_task_t" where
  "gc_task t = (if tk_state t = SIM_TASK_STATE_ZOMBIE
     then t\<lparr> tk_ctx := None, tk_state := SIM_TASK_STATE_TERMINATED \<rparr> else t)"

definition sim_scheduler_gc_zombies :: "sim_sched \<Rightarrow> sim_sched \<times> nat list" where
  "sim_scheduler_gc_zombies s =
    (s\<lparr> ss_tasks := map gc_task (ss_tasks s) \<rparr>,
     concat (map (\<lambda>t. if tk_state t = SIM_TASK_STATE_ZOMBIE
                      then case tk_ctx t of Some c \<Rightarrow> [c] | None \<Rightarrow> [] else []) (ss_tasks s)))"

definition due :: "u64 \<Rightarrow> sim_task_t \<Rightarrow> bool" where
  "due now_us t \<longleftrightarrow> (tk_state t = SIM_TASK_STATE_WAITING \<or> tk_state t = SIM_TASK_STATE_BLOCKED)
     \<and> tk_wakeup_us t > 0 \<and> tk_wakeup_us t \<le> now_us"

definition wake_timeout :: "sim_task_t \<Rightarrow> sim_task_t" where
  "wake_timeout t =
    (let was_blocked = (tk_state t = SIM_TASK_STATE_BLOCKED);
         t = t\<lparr> tk_state := SIM_TASK_STATE_READY, tk_wakeup_us := 0 \<rparr>;
         t = (if was_blocked then t\<lparr> tk_timeout_fired := True, tk_blocked_on := 0 \<rparr> else t)
     in t\<lparr> tk_last_wake_reason := WINK_SIM_WAKE_TIMEOUT \<rparr>)"

definition wakeup_slot :: "u64 \<Rightarrow> u64 \<Rightarrow> nat \<Rightarrow> nat \<times> sim_sched \<Rightarrow> nat \<times> sim_sched" where
  "wakeup_slot clock now_us i = (\<lambda>(count, s).
     let t = ss_tasks s ! i
     in if due now_us t
        then (count + 1, sim_scheduler_trace_record clock now_us i (tk_blocked_on t)
                WINK_SIM_WAKE_TIMEOUT WINK_SIM_TRACE_EVENT_TASK_WOKEN (upd_task i wake_timeout s))
        else (count, s))"

definition sim_scheduler_wakeup_by_time :: "u64 \<Rightarrow> u64 \<Rightarrow> sim_sched \<Rightarrow> nat \<times> sim_sched" where
  "sim_scheduler_wakeup_by_time clock now_us s =
     fold (wakeup_slot clock now_us) [0 ..< WINK_SIM_MAX_TASKS] (0, s)"

definition ready :: "sim_task_t \<Rightarrow> bool" where
  "ready t \<longleftrightarrow> tk_state t = SIM_TASK_STATE_READY"

definition ready_irq :: "sim_task_t \<Rightarrow> bool" where
  "ready_irq t \<longleftrightarrow> ready t \<and> tk_last_wake_reason t = WINK_SIM_WAKE_IRQ"

definition start_id :: "sim_sched \<Rightarrow> nat" where
  "start_id s = (case ss_last_scheduled s of None \<Rightarrow> 0 | Some l \<Rightarrow> (l + 1) mod WINK_SIM_MAX_TASKS)"

definition sim_scheduler_pick_next :: "sim_sched \<Rightarrow> nat option \<times> sim_sched" where
  "sim_scheduler_pick_next s =
    (case first_slot ready_irq (ss_tasks s) of
       Some i \<Rightarrow> (Some i, s\<lparr> ss_last_scheduled := Some i \<rparr>)
     | None \<Rightarrow>
         case find (\<lambda>i. ready (ss_tasks s ! i))
                (map (\<lambda>i. (start_id s + i) mod WINK_SIM_MAX_TASKS) [0 ..< WINK_SIM_MAX_TASKS]) of
           Some i \<Rightarrow> (Some i, s\<lparr> ss_last_scheduled := Some i \<rparr>)
         | None \<Rightarrow> (None, s))"

definition sim_scheduler_yield_timed :: "u64 \<Rightarrow> nat \<Rightarrow> u64 \<Rightarrow> u64 \<Rightarrow> sim_sched \<Rightarrow> sim_sched" where
  "sim_scheduler_yield_timed clock task_id now_us duration_us s =
    (if task_id < WINK_SIM_MAX_TASKS
     then sim_scheduler_trace_record clock now_us task_id 0 WINK_SIM_WAKE_NONE
            WINK_SIM_TRACE_EVENT_TASK_YIELD
            (upd_task task_id (\<lambda>t. t\<lparr> tk_state := SIM_TASK_STATE_WAITING,
               tk_wakeup_us := now_us + duration_us, tk_last_wake_reason := WINK_SIM_WAKE_NONE \<rparr>) s)
     else s)"

definition sim_scheduler_block :: "u64 \<Rightarrow> nat \<Rightarrow> u32 \<Rightarrow> u64 \<Rightarrow> u64 \<Rightarrow> sim_sched \<Rightarrow> sim_sched" where
  "sim_scheduler_block clock task_id resource_id now_us timeout_us s =
    (if task_id < WINK_SIM_MAX_TASKS
     then sim_scheduler_trace_record clock now_us task_id resource_id WINK_SIM_WAKE_NONE
            WINK_SIM_TRACE_EVENT_TASK_BLOCK
            (upd_task task_id (\<lambda>t. t\<lparr> tk_state := SIM_TASK_STATE_BLOCKED, tk_blocked_on := resource_id,
               tk_wakeup_us := (if timeout_us = 0 then 0 else now_us + timeout_us),
               tk_timeout_fired := False, tk_last_wake_reason := WINK_SIM_WAKE_NONE \<rparr>) s)
     else s)"

definition sim_scheduler_resume :: "u64 \<Rightarrow> bool \<Rightarrow> nat \<Rightarrow> sim_sched \<Rightarrow> sim_sched" where
  "sim_scheduler_resume clock in_isr task_id s =
    (if task_id < WINK_SIM_MAX_TASKS \<and> tk_state (ss_tasks s ! task_id) = SIM_TASK_STATE_BLOCKED
     then let res_id = tk_blocked_on (ss_tasks s ! task_id);
              reason = (if in_isr then WINK_SIM_WAKE_IRQ else WINK_SIM_WAKE_SYNC_RES)
          in sim_scheduler_trace_record clock clock task_id res_id reason WINK_SIM_TRACE_EVENT_TASK_WOKEN
               (upd_task task_id (\<lambda>t. t\<lparr> tk_state := SIM_TASK_STATE_READY, tk_blocked_on := 0,
                  tk_wakeup_us := 0, tk_timeout_fired := False, tk_last_wake_reason := reason \<rparr>) s)
     else s)"

definition sleeping :: "sim_task_t \<Rightarrow> bool" where
  "sleeping t \<longleftrightarrow> (tk_state t = SIM_TASK_STATE_WAITING \<or> tk_state t = SIM_TASK_STATE_BLOCKED)
     \<and> tk_wakeup_us t > 0"

definition min_wakeup :: "sim_task_t \<Rightarrow> u64 \<Rightarrow> u64" where
  "min_wakeup t m = (if sleeping t then (if tk_wakeup_us t < m then tk_wakeup_us t else m) else m)"

definition sim_scheduler_next_wakeup_us :: "sim_sched \<Rightarrow> u64" where
  "sim_scheduler_next_wakeup_us s = fold min_wakeup (ss_tasks s) 0xFFFFFFFFFFFFFFFF"

definition sim_scheduler_task_count :: "sim_sched \<Rightarrow> nat" where
  "sim_scheduler_task_count s = length (filter (\<lambda>t. \<not> slot_free t) (ss_tasks s))"

definition sim_scheduler_get :: "nat \<Rightarrow> sim_sched \<Rightarrow> sim_task_t option" where
  "sim_scheduler_get task_id s = (if task_id < WINK_SIM_MAX_TASKS then Some (ss_tasks s ! task_id) else None)"

definition sim_scheduler_current_id :: "sim_sched \<Rightarrow> nat option" where
  "sim_scheduler_current_id s = ss_current s"

definition sim_scheduler_set_current :: "nat option \<Rightarrow> sim_sched \<Rightarrow> sim_sched" where
  "sim_scheduler_set_current task_id s = s\<lparr> ss_current := task_id \<rparr>"

definition sim_scheduler_current_ctx :: "sim_sched \<Rightarrow> nat option" where
  "sim_scheduler_current_ctx s =
    (case ss_current s of
       None \<Rightarrow> None
     | Some i \<Rightarrow> if i \<ge> WINK_SIM_MAX_TASKS then None else tk_ctx (ss_tasks s ! i))"

definition sim_scheduler_set_main_ctx :: "nat option \<Rightarrow> sim_sched \<Rightarrow> sim_sched" where
  "sim_scheduler_set_main_ctx ctx s = s\<lparr> ss_main_ctx := ctx \<rparr>"

definition sim_scheduler_main_ctx :: "sim_sched \<Rightarrow> nat option" where
  "sim_scheduler_main_ctx s = ss_main_ctx s"

definition sim_scheduler_accumulate_runtime :: "nat \<Rightarrow> u64 \<Rightarrow> sim_sched \<Rightarrow> sim_sched" where
  "sim_scheduler_accumulate_runtime task_id delta_us s =
    (if task_id < WINK_SIM_MAX_TASKS \<and> \<not> slot_free (ss_tasks s ! task_id)
     then upd_task task_id (\<lambda>t. t\<lparr> tk_runtime_us := tk_runtime_us t + delta_us \<rparr>) s else s)"

definition sim_scheduler_get_runtime_us :: "nat \<Rightarrow> sim_sched \<Rightarrow> u64" where
  "sim_scheduler_get_runtime_us task_id s =
    (if task_id < WINK_SIM_MAX_TASKS \<and> tk_state (ss_tasks s ! task_id) \<noteq> SIM_TASK_STATE_INVALID
     then tk_runtime_us (ss_tasks s ! task_id) else 0)"

definition sim_scheduler_reset_runtime :: "sim_sched \<Rightarrow> sim_sched" where
  "sim_scheduler_reset_runtime s = s\<lparr> ss_tasks := map (\<lambda>t. t\<lparr> tk_runtime_us := 0 \<rparr>) (ss_tasks s) \<rparr>"

lemma wake_timeout_awake: "\<not> sleeping (wake_timeout t)" "ready (wake_timeout t)"
  by (simp_all add: sleeping_def ready_def wake_timeout_def Let_def)

section \<open>Invariant\<close>

definition sched_inv :: "sim_sched \<Rightarrow> bool" where
  "sched_inv s \<longleftrightarrow> length (ss_tasks s) = WINK_SIM_MAX_TASKS \<and> length (ss_trace s) \<le> WINK_SIM_TRACE_CAPACITY
     \<and> (\<forall>l. ss_last_scheduled s = Some l \<longrightarrow> l < WINK_SIM_MAX_TASKS)"

lemma trace_record_simps [simp]:
  "ss_tasks (sim_scheduler_trace_record c v i r w e s) = ss_tasks s"
  "ss_last_scheduled (sim_scheduler_trace_record c v i r w e s) = ss_last_scheduled s"
  "ss_current (sim_scheduler_trace_record c v i r w e s) = ss_current s"
  "ss_task_id_counter (sim_scheduler_trace_record c v i r w e s) = ss_task_id_counter s"
  by (simp_all add: sim_scheduler_trace_record_def Let_def)

lemma sched_inv_trace [simp]: "sched_inv s \<Longrightarrow> sched_inv (sim_scheduler_trace_record c v i r w e s)"
  by (auto simp: sched_inv_def sim_scheduler_trace_record_def Let_def)

lemma sched_inv_upd [simp]: "sched_inv (s\<lparr> ss_tasks := (ss_tasks s)[i := t] \<rparr>) = sched_inv s"
  by (simp add: sched_inv_def)

section \<open>Selection\<close>

lemma find_rotate:
  assumes "start < n" "i < n" "P i"
  shows "\<exists>j d. find P (map (\<lambda>i. (start + i) mod n) [0 ..< n]) = Some j \<and> P j \<and> j < n
    \<and> j = (start + d) mod n \<and> d < n \<and> (\<forall>d' < d. \<not> P ((start + d') mod n))
    \<and> d \<le> (i + n - start) mod n"
proof -
  let ?f = "\<lambda>d. (start + d) mod n"
  have fi: "?f ((i + n - start) mod n) = i"
  proof -
    have "?f ((i + n - start) mod n) = (start + (i + n - start)) mod n" by (simp only: mod_add_right_eq)
    also have "\<dots> = i" using assms by simp
    finally show ?thesis .
  qed
  define d where "d = (LEAST d. P (?f d))"
  have pd: "P (?f d)" unfolding d_def by (rule LeastI [of _ "(i + n - start) mod n"]) (simp only: fi assms(3))
  have least: "\<not> P (?f d')" if "d' < d" for d' using that not_less_Least d_def by blast
  have le: "d \<le> (i + n - start) mod n"
    unfolding d_def by (rule Least_le) (simp only: fi assms(3))
  then have dn: "d < n" using mod_less_divisor [of n "i + n - start"] assms(1) by linarith
  have "find P (map ?f [0 ..< n]) = Some (?f d)"
    unfolding find_Some_iff using dn pd least by (intro exI [of _ d]) simp
  then show ?thesis using pd least dn le assms(1) by (intro exI [of _ "?f d"] exI [of _ d]) simp
qed

lemma start_id_less: "sched_inv s \<Longrightarrow> start_id s < WINK_SIM_MAX_TASKS"
  by (simp add: start_id_def WINK_SIM_MAX_TASKS_def split: option.split)

lemma pick_next_none_iff:
  assumes "sched_inv s"
  shows "fst (sim_scheduler_pick_next s) = None \<longleftrightarrow> (\<forall>t \<in> set (ss_tasks s). \<not> ready t)"
proof
  assume n: "fst (sim_scheduler_pick_next s) = None"
  show "\<forall>t \<in> set (ss_tasks s). \<not> ready t"
  proof
    fix t assume "t \<in> set (ss_tasks s)"
    then obtain i where i: "i < WINK_SIM_MAX_TASKS" "ss_tasks s ! i = t"
      using assms by (auto simp: sched_inv_def in_set_conv_nth)
    show "\<not> ready t"
    proof
      assume "ready t"
      with i find_rotate [OF start_id_less [OF assms] i(1), of "\<lambda>i. ready (ss_tasks s ! i)"] n
      show False by (auto simp: sim_scheduler_pick_next_def split: option.splits)
    qed
  qed
next
  assume a: "\<forall>t \<in> set (ss_tasks s). \<not> ready t"
  have "first_slot ready_irq (ss_tasks s) = None" using a by (simp add: first_slot_None ready_irq_def)
  moreover have "find (\<lambda>i. ready (ss_tasks s ! i))
      (map (\<lambda>i. (start_id s + i) mod WINK_SIM_MAX_TASKS) [0 ..< WINK_SIM_MAX_TASKS]) = None"
    using a assms by (auto simp: find_None_iff sched_inv_def WINK_SIM_MAX_TASKS_def)
  ultimately show "fst (sim_scheduler_pick_next s) = None" by (simp add: sim_scheduler_pick_next_def)
qed

text \<open>The number of slots the round robin passes before it reaches slot \<open>i\<close>.\<close>

definition distance :: "sim_sched \<Rightarrow> nat \<Rightarrow> nat" where
  "distance s i = (i + WINK_SIM_MAX_TASKS - start_id s) mod WINK_SIM_MAX_TASKS"

lemma distance_less: "distance s i < WINK_SIM_MAX_TASKS"
  by (simp add: distance_def WINK_SIM_MAX_TASKS_def)

lemma pick_next_ready:
  assumes "sched_inv s" "sim_scheduler_pick_next s = (Some i, s')"
  shows "i < WINK_SIM_MAX_TASKS" "ready (ss_tasks s ! i)" "s' = s\<lparr> ss_last_scheduled := Some i \<rparr>"
    "(\<exists>t \<in> set (ss_tasks s). ready_irq t) \<longrightarrow> ready_irq (ss_tasks s ! i)"
proof -
  show "i < WINK_SIM_MAX_TASKS"
  proof (cases "first_slot ready_irq (ss_tasks s)")
    case None
    with assms have "i \<in> set (map (\<lambda>i. (start_id s + i) mod WINK_SIM_MAX_TASKS) [0 ..< WINK_SIM_MAX_TASKS])"
      by (auto simp: sim_scheduler_pick_next_def find_Some_iff split: option.splits)
    then show ?thesis by (auto simp: WINK_SIM_MAX_TASKS_def)
  next
    case (Some j)
    with assms first_slot_SomeD(1) [OF Some] show ?thesis
      by (simp add: sim_scheduler_pick_next_def sched_inv_def)
  qed
  show "ready (ss_tasks s ! i)" "s' = s\<lparr> ss_last_scheduled := Some i \<rparr>"
    using assms first_slot_SomeD(2) [of ready_irq "ss_tasks s"]
    by (auto simp: sim_scheduler_pick_next_def ready_irq_def find_Some_iff split: option.splits)
  show "(\<exists>t \<in> set (ss_tasks s). ready_irq t) \<longrightarrow> ready_irq (ss_tasks s ! i)"
    using assms first_slot_SomeD(2) [of ready_irq "ss_tasks s"] first_slot_None [of ready_irq "ss_tasks s"]
    by (auto simp: sim_scheduler_pick_next_def split: option.splits)
qed

lemma pick_next_distance:
  assumes inv: "sched_inv s" and pick: "sim_scheduler_pick_next s = (Some j, s')"
    and i: "i < WINK_SIM_MAX_TASKS" "ready (ss_tasks s ! i)" and ne: "j \<noteq> i"
    and no_irq: "\<forall>t \<in> set (ss_tasks s). \<not> ready_irq t"
  shows "distance s' i < distance s i"
proof -
  let ?n = WINK_SIM_MAX_TASKS and ?st = "start_id s"
  have irq: "first_slot ready_irq (ss_tasks s) = None" using no_irq by (simp add: first_slot_None)
  from find_rotate [where P = "\<lambda>i. ready (ss_tasks s ! i)", OF start_id_less [OF inv] i(1,2)]
  obtain d where d: "j = (?st + d) mod ?n" "d < ?n" "d \<le> (i + ?n - ?st) mod ?n"
    using pick irq by (auto simp: sim_scheduler_pick_next_def)
  have s': "start_id s' = (j + 1) mod ?n"
    using pick_next_ready(3) [OF inv pick] by (simp add: start_id_def)
  define D where "D = distance s i"
  have st: "?st < ?n" using inv by (rule start_id_less)
  have iD: "i = (?st + D) mod ?n"
  proof -
    have "(?st + D) mod ?n = (?st + (i + ?n - ?st)) mod ?n"
      unfolding D_def distance_def by (simp only: mod_add_right_eq)
    then show ?thesis using st i(1) by simp
  qed
  have "d \<noteq> D" using ne d(1) iD by auto
  moreover have "d \<le> D" using d(3) by (simp add: D_def distance_def)
  ultimately have dD: "d < D" by simp
  have "distance s' i = D - d - 1"
  proof -
    have Dn: "D < ?n" by (simp add: D_def distance_less)
    have n: "?n = 16" by (simp add: WINK_SIM_MAX_TASKS_def)
    have "start_id s' = (?st + d + 1) mod 16" unfolding s' d(1) n by (simp add: mod_add_left_eq mod_simps)
    then have dist: "distance s' i = ((?st + D) mod 16 + 16 - (?st + d + 1) mod 16) mod 16"
      by (simp only: distance_def iD n mod_mod_trivial)
    have m: "x mod 16 = (if x < 16 then x else x - 16)" if "x < 32" for x :: nat
      using that by (simp add: mod_if)
    have "(?st + D) mod 16 = (if ?st + D < 16 then ?st + D else ?st + D - 16)"
      "(?st + d + 1) mod 16 = (if ?st + d + 1 < 16 then ?st + d + 1 else ?st + d + 1 - 16)"
      using st Dn dD n by (intro m; simp)+
    moreover have "?st < 16" "D < 16" using st Dn n by simp_all
    moreover have "(D + 16 - Suc d) mod 16 = D - Suc d"
    proof -
      have "D + 16 - Suc d = D - Suc d + 16" using dD by simp
      then show ?thesis using \<open>D < 16\<close> by (simp only: mod_add_self2) simp
    qed
    ultimately show ?thesis unfolding dist using dD
      by (auto simp: add.commute [of 15 D] split: if_splits)
  qed
  then show ?thesis using dD by (simp add: D_def)
qed

text \<open>C12: the scheduler always runs a ready task when there is one, an interrupt-woken one if any,
  and without interrupt-woken tasks it is fair: a task that stays ready is selected within
  sixteen selections, whatever the other tasks do in between.\<close>
theorem pick_next_fair:
  assumes "\<forall>k. sched_inv (s k)" "i < WINK_SIM_MAX_TASKS"
    and "\<forall>k. ready (ss_tasks (s k) ! i)" "\<forall>k. \<forall>t \<in> set (ss_tasks (s k)). \<not> ready_irq t"
    and "\<forall>k. ss_last_scheduled (s (Suc k)) = ss_last_scheduled (snd (sim_scheduler_pick_next (s k)))"
  shows "\<exists>k < 16. fst (sim_scheduler_pick_next (s k)) = Some i"
proof (rule ccontr)
  assume no: "\<not> (\<exists>k < 16. fst (sim_scheduler_pick_next (s k)) = Some i)"
  have "k \<le> 16 \<Longrightarrow> distance (s k) i + k < 16" for k
  proof (induction k)
    case 0
    then show ?case using distance_less [of "s 0" i] by (simp add: WINK_SIM_MAX_TASKS_def)
  next
    case (Suc k)
    obtain r s' where p: "sim_scheduler_pick_next (s k) = (r, s')" by fastforce
    have "ss_tasks (s k) ! i \<in> set (ss_tasks (s k))"
      using assms(1,2) by (simp add: sched_inv_def)
    with assms(1,3) pick_next_none_iff [of "s k"] p obtain j where j: "r = Some j" by (cases r) auto
    have "k < 16" using Suc.prems by simp
    with no p j have "j \<noteq> i" by (metis fst_conv)
    from pick_next_distance [OF _ p [unfolded j] assms(2) _ this] assms(1,3,4)
    have "distance s' i < distance (s k) i" by blast
    moreover have "distance (s (Suc k)) i = distance s' i"
      using assms(5) p by (simp add: distance_def start_id_def)
    ultimately show ?case using Suc by simp
  qed
  from this [of 16] show False by simp
qed

definition demo_sched :: "sim_sched" where
  "demo_sched = \<lparr> ss_tasks = (replicate 16 task_zero)[3 := task_zero\<lparr> tk_state := SIM_TASK_STATE_READY \<rparr>,
       9 := task_zero\<lparr> tk_state := SIM_TASK_STATE_READY \<rparr>],
     ss_task_id_counter = 2, ss_current = None, ss_prng_state = 42, ss_last_scheduled = None,
     ss_trace = [], ss_trace_sequence = 0, ss_trace_enabled = True, ss_main_ctx = None \<rparr>"

lemma pick_next_state:
  assumes "sched_inv s"
  shows "ss_tasks (snd (sim_scheduler_pick_next s)) = ss_tasks s"
    "sched_inv (snd (sim_scheduler_pick_next s))"
proof -
  obtain r s' where p: "sim_scheduler_pick_next s = (r, s')" by fastforce
  show "ss_tasks (snd (sim_scheduler_pick_next s)) = ss_tasks s"
    by (simp add: sim_scheduler_pick_next_def split: option.split)
  show "sched_inv (snd (sim_scheduler_pick_next s))"
  proof (cases r)
    case None
    with p have "s' = s" by (auto simp: sim_scheduler_pick_next_def split: option.splits)
    with p assms show ?thesis by simp
  next
    case (Some i)
    from pick_next_ready(1,3) [OF assms p [unfolded Some]] p assms show ?thesis
      by (simp add: sched_inv_def)
  qed
qed

lemma pick_next_fair_witness:
  "\<exists>k < 16. fst (sim_scheduler_pick_next (((\<lambda>s. snd (sim_scheduler_pick_next s)) ^^ k) demo_sched)) = Some 9"
proof -
  let ?s = "\<lambda>k. ((\<lambda>s. snd (sim_scheduler_pick_next s)) ^^ k) demo_sched"
  have st: "sched_inv (?s k) \<and> ss_tasks (?s k) = ss_tasks demo_sched" for k
  proof (induction k)
    case 0
    then show ?case
      by (simp add: sched_inv_def demo_sched_def WINK_SIM_MAX_TASKS_def WINK_SIM_TRACE_CAPACITY_def)
  next
    case (Suc k)
    then show ?case using pick_next_state [of "?s k"] by simp
  qed
  have "ready (ss_tasks demo_sched ! 9)" by (simp add: demo_sched_def ready_def)
  moreover have "\<forall>t \<in> set (ss_tasks demo_sched). \<not> ready_irq t"
    by (auto simp: demo_sched_def ready_irq_def ready_def task_zero_def
        dest!: set_update_subset_insert [THEN subsetD])
  ultimately show ?thesis
    using st by (intro pick_next_fair) (auto simp: WINK_SIM_MAX_TASKS_def)
qed

section \<open>Timed wake-ups\<close>

lemma wakeup_fold:
  assumes "length (ss_tasks s) = WINK_SIM_MAX_TASKS" "k \<le> WINK_SIM_MAX_TASKS"
  shows "\<exists>c s'. fold (wakeup_slot clock now) [0 ..< k] (n, s) = (c, s')
    \<and> c = n + length (filter (\<lambda>j. due now (ss_tasks s ! j)) [0 ..< k])
    \<and> length (ss_tasks s') = WINK_SIM_MAX_TASKS
    \<and> (\<forall>j < WINK_SIM_MAX_TASKS. ss_tasks s' ! j
        = (if j < k \<and> due now (ss_tasks s ! j) then wake_timeout (ss_tasks s ! j) else ss_tasks s ! j))"
  using assms(2)
proof (induction k)
  case 0
  then show ?case using assms(1) by simp
next
  case (Suc k)
  then obtain c s' where IH: "fold (wakeup_slot clock now) [0 ..< k] (n, s) = (c, s')"
    "c = n + length (filter (\<lambda>j. due now (ss_tasks s ! j)) [0 ..< k])"
    "length (ss_tasks s') = WINK_SIM_MAX_TASKS"
    "\<forall>j < WINK_SIM_MAX_TASKS. ss_tasks s' ! j
        = (if j < k \<and> due now (ss_tasks s ! j) then wake_timeout (ss_tasks s ! j) else ss_tasks s ! j)"
    by auto
  have k: "k < WINK_SIM_MAX_TASKS" using Suc.prems by simp
  then have same: "ss_tasks s' ! k = ss_tasks s ! k" using IH(4) by simp
  have "fold (wakeup_slot clock now) [0 ..< Suc k] (n, s) = wakeup_slot clock now k (c, s')"
    using IH(1) by simp
  moreover have "\<exists>c' t'. wakeup_slot clock now k (c, s') = (c', t')
    \<and> c' = n + length (filter (\<lambda>j. due now (ss_tasks s ! j)) [0 ..< Suc k])
    \<and> length (ss_tasks t') = WINK_SIM_MAX_TASKS
    \<and> (\<forall>j < WINK_SIM_MAX_TASKS. ss_tasks t' ! j
        = (if j < Suc k \<and> due now (ss_tasks s ! j) then wake_timeout (ss_tasks s ! j) else ss_tasks s ! j))"
    using IH(2-4) k same by (auto simp: wakeup_slot_def Let_def nth_list_update less_Suc_eq)
  ultimately show ?case by (simp only:)
qed

lemma count_due:
  "length (filter (\<lambda>j. P (xs ! j)) [0 ..< length xs]) = length (filter P xs)"
proof -
  have "filter P xs = map (\<lambda>j. xs ! j) (filter (\<lambda>j. P (xs ! j)) [0 ..< length xs])"
    by (metis (no_types, lifting) comp_apply filter_cong filter_map map_nth)
  then show ?thesis by simp
qed

lemma wakeup_by_time_tasks:
  assumes "sched_inv s" "sim_scheduler_wakeup_by_time clock now s = (c, s')"
  shows "c = length (filter (due now) (ss_tasks s))"
    and "ss_tasks s' = map (\<lambda>t. if due now t then wake_timeout t else t) (ss_tasks s)"
proof -
  have len: "length (ss_tasks s) = WINK_SIM_MAX_TASKS" using assms(1) by (simp add: sched_inv_def)
  obtain c1 s1 where w: "fold (wakeup_slot clock now) [0 ..< WINK_SIM_MAX_TASKS] (0, s) = (c1, s1)"
    "c1 = 0 + length (filter (\<lambda>j. due now (ss_tasks s ! j)) [0 ..< WINK_SIM_MAX_TASKS])"
    "length (ss_tasks s1) = WINK_SIM_MAX_TASKS"
    "\<forall>j < WINK_SIM_MAX_TASKS. ss_tasks s1 ! j = (if j < WINK_SIM_MAX_TASKS \<and> due now (ss_tasks s ! j)
        then wake_timeout (ss_tasks s ! j) else ss_tasks s ! j)"
    using wakeup_fold [OF len order_refl, of clock now 0] by blast
  have eq: "c1 = c" "s1 = s'" using w(1) assms(2) by (simp_all add: sim_scheduler_wakeup_by_time_def)
  show "c = length (filter (due now) (ss_tasks s))"
    using w(2) count_due [of "due now" "ss_tasks s"] len eq by simp
  show "ss_tasks s' = map (\<lambda>t. if due now t then wake_timeout t else t) (ss_tasks s)"
    using w(3,4) len eq by (intro nth_equalityI) simp_all
qed

lemma min_wakeup_le: "min_wakeup t m \<le> m" "sleeping t \<Longrightarrow> min_wakeup t m \<le> tk_wakeup_us t"
  by (auto simp: min_wakeup_def)

lemma next_wakeup_fold_le: "fold min_wakeup ts m \<le> m"
  by (induction ts arbitrary: m) (auto intro: order_trans min_wakeup_le(1))

lemma next_wakeup_fold_lower: "t \<in> set ts \<Longrightarrow> sleeping t \<Longrightarrow> fold min_wakeup ts m \<le> tk_wakeup_us t"
  by (induction ts arbitrary: m) (auto intro: order_trans next_wakeup_fold_le min_wakeup_le(2))

lemma next_wakeup_fold_cases:
  "fold min_wakeup ts m = m \<or> (\<exists>t \<in> set ts. sleeping t \<and> fold min_wakeup ts m = tk_wakeup_us t)"
proof (induction ts arbitrary: m)
  case (Cons t ts)
  have "min_wakeup t m = m \<or> sleeping t \<and> min_wakeup t m = tk_wakeup_us t" by (auto simp: min_wakeup_def)
  with Cons [of "min_wakeup t m"] show ?case by auto
qed simp

lemma next_wakeup_spec:
  "\<forall>t \<in> set (ss_tasks s). sleeping t \<longrightarrow> sim_scheduler_next_wakeup_us s \<le> tk_wakeup_us t"
  "sim_scheduler_next_wakeup_us s = 0xFFFFFFFFFFFFFFFF
    \<or> (\<exists>t \<in> set (ss_tasks s). sleeping t \<and> sim_scheduler_next_wakeup_us s = tk_wakeup_us t)"
  using next_wakeup_fold_cases [of "ss_tasks s" "0xFFFFFFFFFFFFFFFF"]
  by (auto simp: sim_scheduler_next_wakeup_us_def next_wakeup_fold_lower)

text \<open>Advancing the clock to the announced next wake-up wakes somebody, and waking by time
  misses and disturbs nobody: it counts the due tasks, makes each ready (marking a blocked one
  as timed out), leaves all others as they were, and afterwards the next announced wake-up lies
  in the future.\<close>
lemma timed_wakeup_complete:
  assumes "sched_inv s" "sim_scheduler_wakeup_by_time clock now s = (c, s')" "now < 0xFFFFFFFFFFFFFFFF"
  shows "c = length (filter (due now) (ss_tasks s))
    \<and> ss_tasks s' = map (\<lambda>t. if due now t then wake_timeout t else t) (ss_tasks s)
    \<and> now < sim_scheduler_next_wakeup_us s'
    \<and> (now = sim_scheduler_next_wakeup_us s \<longrightarrow> 0 < c)"
proof -
  note w = wakeup_by_time_tasks [OF assms(1,2)]
  have "now < sim_scheduler_next_wakeup_us s'"
  proof (cases "sim_scheduler_next_wakeup_us s' = 0xFFFFFFFFFFFFFFFF")
    case True
    then show ?thesis using assms(3) by simp
  next
    case False
    with next_wakeup_spec(2) [of s'] obtain t where
      t: "t \<in> set (ss_tasks s')" "sleeping t" "sim_scheduler_next_wakeup_us s' = tk_wakeup_us t" by blast
    from t(1) have "t \<in> (\<lambda>t. if due now t then wake_timeout t else t) ` set (ss_tasks s)"
      by (simp only: w(2) list.set_map)
    then obtain u where u: "t = (if due now u then wake_timeout u else u)" by (rule imageE)
    have "\<not> due now u" using t(2) u by (auto simp: wake_timeout_awake)
    then show ?thesis using t u by (auto simp: sleeping_def due_def not_le)
  qed
  moreover have "0 < c" if "now = sim_scheduler_next_wakeup_us s"
  proof -
    from next_wakeup_spec(2) [of s] that assms(3) obtain t where
      "t \<in> set (ss_tasks s)" "sleeping t" "tk_wakeup_us t = now" by auto
    then have "t \<in> set (filter (due now) (ss_tasks s))" by (auto simp: sleeping_def due_def)
    then show ?thesis using w(1) by (metis length_greater_0_conv list.set(1) empty_iff)
  qed
  ultimately show ?thesis using w by blast
qed

lemma timed_wakeup_complete_witness:
  "10 < sim_scheduler_next_wakeup_us (snd (sim_scheduler_wakeup_by_time 10 10
     (sim_scheduler_yield_timed 5 3 5 5 demo_sched)))"
proof -
  let ?s = "sim_scheduler_yield_timed 5 3 5 5 demo_sched"
  have inv: "sched_inv ?s"
    by (simp add: sim_scheduler_yield_timed_def sched_inv_def demo_sched_def WINK_SIM_MAX_TASKS_def
        WINK_SIM_TRACE_CAPACITY_def sim_scheduler_trace_record_def Let_def)
  obtain c s' where "sim_scheduler_wakeup_by_time 10 10 ?s = (c, s')" by fastforce
  with timed_wakeup_complete [OF inv this] show ?thesis by simp
qed

end
