(* ===== verification/Osal_Sync.thy ===== *)
theory Osal_Sync
  imports Sim_Scheduler
begin

text \<open>
  The mutexes and binary semaphores of the simulation OSAL, \<^verbatim>\<open>osal/wasm/pal_osal_wasm.c\<close>: static
  pools whose objects hold a circular queue of waiting tasks. A blocking call is modelled in the
  two halves its fiber switch divides it into: what runs before the task is blocked, and what
  runs when the scheduler comes back to it. Handles are positive naturals, 0 is \<^verbatim>\<open>NULL\<close>.
\<close>

section \<open>Queues of waiting tasks\<close>

record wait_queue =
  wq_waiters :: "nat list"
  wq_head :: nat
  wq_tail :: nat
  wq_count :: nat

definition wq_empty :: "wait_queue \<Rightarrow> wait_queue" where
  "wq_empty q = q\<lparr> wq_head := 0, wq_tail := 0, wq_count := 0 \<rparr>"

definition wq_push :: "nat \<Rightarrow> wait_queue \<Rightarrow> wait_queue" where
  "wq_push tid q =
    (if wq_count q \<ge> WINK_SIM_MAX_TASKS then q
     else q\<lparr> wq_waiters := (wq_waiters q)[wq_tail q := tid],
             wq_tail := (wq_tail q + 1) mod WINK_SIM_MAX_TASKS, wq_count := wq_count q + 1 \<rparr>)"

definition wq_pop :: "wait_queue \<Rightarrow> nat option \<times> wait_queue" where
  "wq_pop q =
    (if wq_count q = 0 then (None, q)
     else (Some (wq_waiters q ! wq_head q),
           q\<lparr> wq_head := (wq_head q + 1) mod WINK_SIM_MAX_TASKS, wq_count := wq_count q - 1 \<rparr>))"

text \<open>The compaction loop of the removal: \<open>i\<close> is read, \<open>w\<close> written, \<open>n\<close> iterations are left.\<close>

fun wq_remove_loop :: "nat \<Rightarrow> nat \<Rightarrow> nat \<Rightarrow> nat \<Rightarrow> nat \<Rightarrow> nat list \<Rightarrow> nat \<times> nat list" where
  "wq_remove_loop 0 i w head tid ws = (w, ws)"
| "wq_remove_loop (Suc n) i w head tid ws =
     (let t = ws ! ((head + i) mod WINK_SIM_MAX_TASKS)
      in if t \<noteq> tid
         then wq_remove_loop n (Suc i) (Suc w) head tid (ws[(head + w) mod WINK_SIM_MAX_TASKS := t])
         else wq_remove_loop n (Suc i) w head tid ws)"

definition wq_remove :: "nat \<Rightarrow> wait_queue \<Rightarrow> wait_queue" where
  "wq_remove tid q =
    (if wq_count q = 0 then q
     else let (w, ws) = wq_remove_loop (wq_count q) 0 0 (wq_head q) tid (wq_waiters q)
          in q\<lparr> wq_waiters := ws, wq_tail := (wq_head q + w) mod WINK_SIM_MAX_TASKS, wq_count := w \<rparr>)"

definition wq_inv :: "wait_queue \<Rightarrow> bool" where
  "wq_inv q \<longleftrightarrow> length (wq_waiters q) = WINK_SIM_MAX_TASKS \<and> wq_count q \<le> WINK_SIM_MAX_TASKS
     \<and> wq_head q < WINK_SIM_MAX_TASKS \<and> wq_tail q = (wq_head q + wq_count q) mod WINK_SIM_MAX_TASKS"

definition wq_list :: "wait_queue \<Rightarrow> nat list" where
  "wq_list q = ring_read (wq_waiters q) (wq_head q) (wq_count q)"

lemma wq_push_list:
  assumes "wq_inv q" "wq_count q < WINK_SIM_MAX_TASKS"
  shows "wq_inv (wq_push tid q)" "wq_list (wq_push tid q) = wq_list q @ [tid]"
  using assms ring_read_push [of "wq_count q" "wq_waiters q" "wq_head q" tid]
  by (auto simp: wq_inv_def wq_push_def wq_list_def mod_Suc_eq)

lemma wq_pop_list:
  assumes "wq_inv q"
  shows "case wq_list q of
      [] \<Rightarrow> wq_pop q = (None, q)
    | t # ts \<Rightarrow> \<exists>q'. wq_pop q = (Some t, q') \<and> wq_inv q' \<and> wq_list q' = ts"
proof (cases "wq_count q")
  case 0
  then show ?thesis by (simp add: wq_list_def wq_pop_def)
next
  case (Suc n)
  have len: "length (wq_waiters q) = WINK_SIM_MAX_TASKS" using assms by (simp add: wq_inv_def)
  have l: "wq_list q = wq_waiters q ! wq_head q # ring_read (wq_waiters q) (Suc (wq_head q)) n"
    using assms Suc len by (simp add: wq_list_def ring_read_Suc wq_inv_def)
  have "ring_read (wq_waiters q) (Suc (wq_head q) mod WINK_SIM_MAX_TASKS) n
      = ring_read (wq_waiters q) (Suc (wq_head q)) n"
    by (rule ring_read_mod) (simp add: len)
  moreover have "(Suc (wq_head q) mod WINK_SIM_MAX_TASKS + n) mod WINK_SIM_MAX_TASKS
      = (wq_head q + Suc n) mod WINK_SIM_MAX_TASKS"
    by (simp add: mod_add_left_eq)
  ultimately show ?thesis
    using assms Suc l by (auto simp: wq_pop_def wq_inv_def wq_list_def WINK_SIM_MAX_TASKS_def)
qed

lemma wq_remove_loop_spec:
  assumes "length ws = WINK_SIM_MAX_TASKS" "i + n \<le> WINK_SIM_MAX_TASKS" "w \<le> i"
    and "wq_remove_loop n i w head tid ws = (w', ws')"
  shows "length ws' = WINK_SIM_MAX_TASKS \<and> w' \<le> i + n \<and>
    ring_read ws' head w' = ring_read ws head w
      @ filter (\<lambda>t. t \<noteq> tid) (map (\<lambda>j. ws ! ((head + j) mod WINK_SIM_MAX_TASKS)) [i ..< i + n])"
  using assms
proof (induction n arbitrary: i w ws)
  case (Suc n)
  let ?M = WINK_SIM_MAX_TASKS
  let ?t = "ws ! ((head + i) mod ?M)"
  have split: "map (\<lambda>j. ws ! ((head + j) mod ?M)) [i ..< i + Suc n]
      = ?t # map (\<lambda>j. ws ! ((head + j) mod ?M)) [Suc i ..< Suc i + n]"
    by (simp add: upt_conv_Cons del: upt_Suc)
  show ?case
  proof (cases "?t \<noteq> tid")
    case True
    let ?ws = "ws[(head + w) mod ?M := ?t]"
    from Suc.prems True have run: "wq_remove_loop n (Suc i) (Suc w) head tid ?ws = (w', ws')"
      by (simp add: Let_def)
    have unread: "?ws ! ((head + j) mod ?M) = ws ! ((head + j) mod ?M)" if "Suc i \<le> j" "j < Suc i + n" for j
    proof -
      have "(head + w) mod ?M \<noteq> (head + j) mod ?M"
        using ring_index_inj [of head w ?M j] that Suc.prems by auto
      then show ?thesis by simp
    qed
    have "ring_read ?ws head (Suc w) = ring_read ws head w @ [?t]"
      using ring_read_push [of w ws head ?t] Suc.prems by simp
    moreover have "map (\<lambda>j. ?ws ! ((head + j) mod ?M)) [Suc i ..< Suc i + n]
        = map (\<lambda>j. ws ! ((head + j) mod ?M)) [Suc i ..< Suc i + n]"
      by (rule map_cong) (use unread in auto)
    ultimately show ?thesis
      using Suc.IH [of ?ws "Suc i" "Suc w"] run Suc.prems split True
      by (simp del: upt_Suc map_eq_conv)
  next
    case False
    then show ?thesis using Suc.IH [of ws "Suc i" w] Suc.prems split by (simp add: Let_def)
  qed
qed simp

lemma wq_remove_list:
  assumes "wq_inv q"
  shows "wq_inv (wq_remove tid q)" "wq_list (wq_remove tid q) = filter (\<lambda>t. t \<noteq> tid) (wq_list q)"
proof -
  obtain w ws where r: "wq_remove_loop (wq_count q) 0 0 (wq_head q) tid (wq_waiters q) = (w, ws)"
    by fastforce
  have len: "length (wq_waiters q) = WINK_SIM_MAX_TASKS" "0 + wq_count q \<le> WINK_SIM_MAX_TASKS"
    using assms by (simp_all add: wq_inv_def)
  note s = wq_remove_loop_spec [OF len le0 r]
  show "wq_inv (wq_remove tid q)" using assms s by (auto simp: wq_remove_def r wq_inv_def)
  show "wq_list (wq_remove tid q) = filter (\<lambda>t. t \<noteq> tid) (wq_list q)"
    using s len by (auto simp: wq_remove_def r wq_list_def ring_read_def)
qed

lemma wq_list_length: "length (wq_list q) = wq_count q"
  by (simp add: wq_list_def)

section \<open>Mutexes\<close>

text \<open>The owner field: free (\<^verbatim>\<open>WASM_MUTEX_NO_OWNER\<close>), the main thread outside any task
  (\<^verbatim>\<open>SIM_SCHED_NO_READY\<close>) or a task slot.\<close>

datatype mutex_owner = No_owner | Main_thread | Task nat

record wasm_mutex =
  mx_used :: bool
  mx_owner :: mutex_owner
  mx_queue :: wait_queue

record wasm_sem =
  sm_used :: bool
  sm_count :: nat
  sm_queue :: wait_queue

record osal_sync =
  sy_mutexes :: "wasm_mutex list"
  sy_sems :: "wasm_sem list"
  sy_sched :: sim_sched

datatype block_result = Returned wink_status_t | Blocked

definition WASM_POOL_SIZE :: nat where "WASM_POOL_SIZE = 16"
definition SYNC_WAIT_FOREVER :: u32 where "SYNC_WAIT_FOREVER = 0xFFFFFFFF"

definition self_owner :: "nat option \<Rightarrow> mutex_owner" where
  "self_owner self = (case self of None \<Rightarrow> Main_thread | Some t \<Rightarrow> Task t)"

definition wasm_mtx_from_handle :: "nat \<Rightarrow> osal_sync \<Rightarrow> nat option" where
  "wasm_mtx_from_handle h y =
    (if h = 0 then None else if h - 1 \<ge> WASM_POOL_SIZE then None
     else if \<not> mx_used (sy_mutexes y ! (h - 1)) then None else Some (h - 1))"

definition wasm_sem_from_handle :: "nat \<Rightarrow> osal_sync \<Rightarrow> nat option" where
  "wasm_sem_from_handle h y =
    (if h = 0 then None else if h - 1 \<ge> WASM_POOL_SIZE then None
     else if \<not> sm_used (sy_sems y ! (h - 1)) then None else Some (h - 1))"

abbreviation put_mutex :: "nat \<Rightarrow> wasm_mutex \<Rightarrow> osal_sync \<Rightarrow> osal_sync" where
  "put_mutex i m y \<equiv> y\<lparr> sy_mutexes := (sy_mutexes y)[i := m] \<rparr>"

abbreviation put_sem :: "nat \<Rightarrow> wasm_sem \<Rightarrow> osal_sync \<Rightarrow> osal_sync" where
  "put_sem i s y \<equiv> y\<lparr> sy_sems := (sy_sems y)[i := s] \<rparr>"

definition pal_os_mutex_create :: "osal_sync \<Rightarrow> nat \<times> osal_sync" where
  "pal_os_mutex_create y =
    (case first_slot (\<lambda>m. \<not> mx_used m) (sy_mutexes y) of
       None \<Rightarrow> (0, y)
     | Some i \<Rightarrow>
         let m = sy_mutexes y ! i
         in (i + 1, put_mutex i (m\<lparr> mx_used := True, mx_owner := No_owner, mx_queue := wq_empty (mx_queue m) \<rparr>) y))"

definition wait_us :: "u32 \<Rightarrow> u64" where
  "wait_us timeout_ms = (if timeout_ms = SYNC_WAIT_FOREVER then 0 else ucast timeout_ms * 1000)"

definition pal_os_mutex_lock :: "u64 \<Rightarrow> nat \<Rightarrow> u32 \<Rightarrow> osal_sync \<Rightarrow> block_result \<times> osal_sync" where
  "pal_os_mutex_lock clock mutex timeout_ms y =
    (case wasm_mtx_from_handle mutex y of
       None \<Rightarrow> (Returned WINK_ERR_INVALID_ARG, y)
     | Some i \<Rightarrow>
         let m = sy_mutexes y ! i
         in case sim_scheduler_current_id (sy_sched y) of
              None \<Rightarrow>
                if mx_owner m = No_owner then (Returned WINK_OK, put_mutex i (m\<lparr> mx_owner := Main_thread \<rparr>) y)
                else (Returned WINK_ERR_TIMEOUT, y)
            | Some self \<Rightarrow>
                if mx_owner m = No_owner then (Returned WINK_OK, put_mutex i (m\<lparr> mx_owner := Task self \<rparr>) y)
                else if mx_owner m = Task self then (Returned WINK_ERR_BUSY, y)
                else (Blocked,
                  (put_mutex i (m\<lparr> mx_queue := wq_push self (mx_queue m) \<rparr>) y)
                    \<lparr> sy_sched := sim_scheduler_block clock self (of_nat mutex) clock (wait_us timeout_ms)
                        (sy_sched y) \<rparr>))"

text \<open>The second half of a lock, run by task \<open>self\<close> when it is scheduled again.\<close>

definition mutex_lock_resume :: "nat \<Rightarrow> nat \<Rightarrow> osal_sync \<Rightarrow> wink_status_t \<times> osal_sync" where
  "mutex_lock_resume i self y =
    (let m = sy_mutexes y ! i
     in if tk_timeout_fired (ss_tasks (sy_sched y) ! self)
        then (WINK_ERR_TIMEOUT, put_mutex i (m\<lparr> mx_queue := wq_remove self (mx_queue m) \<rparr>) y)
        else if mx_owner m \<noteq> Task self then (WINK_ERR_IO, y)
        else (WINK_OK, y))"

definition pal_os_mutex_unlock :: "u64 \<Rightarrow> bool \<Rightarrow> nat \<Rightarrow> osal_sync \<Rightarrow> wink_status_t \<times> osal_sync" where
  "pal_os_mutex_unlock clock in_isr mutex y =
    (case wasm_mtx_from_handle mutex y of
       None \<Rightarrow> (WINK_ERR_INVALID_ARG, y)
     | Some i \<Rightarrow>
         let m = sy_mutexes y ! i
         in if mx_owner m = No_owner then (WINK_ERR_INVALID_STATE, y)
            else if mx_owner m \<noteq> self_owner (sim_scheduler_current_id (sy_sched y))
            then (WINK_ERR_PERMISSION, y)
            else case wq_pop (mx_queue m) of
                   (Some waiter, q) \<Rightarrow>
                     (WINK_OK, (put_mutex i (m\<lparr> mx_owner := Task waiter, mx_queue := q \<rparr>) y)
                        \<lparr> sy_sched := sim_scheduler_resume clock in_isr waiter (sy_sched y) \<rparr>)
                 | (None, q) \<Rightarrow> (WINK_OK, put_mutex i (m\<lparr> mx_owner := No_owner, mx_queue := q \<rparr>) y))"

definition pal_os_mutex_destroy :: "nat \<Rightarrow> osal_sync \<Rightarrow> osal_sync" where
  "pal_os_mutex_destroy mutex y =
    (case wasm_mtx_from_handle mutex y of
       None \<Rightarrow> y
     | Some i \<Rightarrow> put_mutex i ((sy_mutexes y ! i)\<lparr> mx_used := False \<rparr>) y)"

section \<open>Binary semaphores\<close>

definition pal_os_sem_create :: "osal_sync \<Rightarrow> nat \<times> osal_sync" where
  "pal_os_sem_create y =
    (case first_slot (\<lambda>s. \<not> sm_used s) (sy_sems y) of
       None \<Rightarrow> (0, y)
     | Some i \<Rightarrow>
         let s = sy_sems y ! i
         in (i + 1, put_sem i (s\<lparr> sm_used := True, sm_count := 0, sm_queue := wq_empty (sm_queue s) \<rparr>) y))"

definition pal_os_sem_take :: "u64 \<Rightarrow> nat \<Rightarrow> u32 \<Rightarrow> osal_sync \<Rightarrow> block_result \<times> osal_sync" where
  "pal_os_sem_take clock sem timeout_ms y =
    (case wasm_sem_from_handle sem y of
       None \<Rightarrow> (Returned WINK_ERR_INVALID_ARG, y)
     | Some i \<Rightarrow>
         let s = sy_sems y ! i
         in if sm_count s > 0 then (Returned WINK_OK, put_sem i (s\<lparr> sm_count := 0 \<rparr>) y)
            else case sim_scheduler_current_id (sy_sched y) of
                   None \<Rightarrow> (Returned WINK_ERR_TIMEOUT, y)
                 | Some self \<Rightarrow>
                     (Blocked, (put_sem i (s\<lparr> sm_queue := wq_push self (sm_queue s) \<rparr>) y)
                        \<lparr> sy_sched := sim_scheduler_block clock self (of_nat sem + 0x10000) clock
                            (wait_us timeout_ms) (sy_sched y) \<rparr>))"

definition sem_take_resume :: "nat \<Rightarrow> nat \<Rightarrow> osal_sync \<Rightarrow> wink_status_t \<times> osal_sync" where
  "sem_take_resume i self y =
    (let s = sy_sems y ! i
     in if tk_timeout_fired (ss_tasks (sy_sched y) ! self)
        then (WINK_ERR_TIMEOUT, put_sem i (s\<lparr> sm_queue := wq_remove self (sm_queue s) \<rparr>) y)
        else (WINK_OK, y))"

definition pal_os_sem_give :: "u64 \<Rightarrow> bool \<Rightarrow> nat \<Rightarrow> osal_sync \<Rightarrow> wink_status_t \<times> osal_sync" where
  "pal_os_sem_give clock in_isr sem y =
    (case wasm_sem_from_handle sem y of
       None \<Rightarrow> (WINK_ERR_INVALID_ARG, y)
     | Some i \<Rightarrow>
         let s = sy_sems y ! i
         in case wq_pop (sm_queue s) of
              (Some next_task, q) \<Rightarrow>
                (WINK_OK, (put_sem i (s\<lparr> sm_queue := q \<rparr>) y)
                   \<lparr> sy_sched := sim_scheduler_resume clock in_isr next_task (sy_sched y) \<rparr>)
            | (None, q) \<Rightarrow> (WINK_OK, put_sem i (s\<lparr> sm_count := 1, sm_queue := q \<rparr>) y))"

definition pal_os_sem_give_isr :: "u64 \<Rightarrow> bool \<Rightarrow> nat \<Rightarrow> osal_sync \<Rightarrow> wink_status_t \<times> osal_sync" where
  "pal_os_sem_give_isr clock in_isr sem y = pal_os_sem_give clock in_isr sem y"

definition pal_os_sem_destroy :: "nat \<Rightarrow> osal_sync \<Rightarrow> osal_sync" where
  "pal_os_sem_destroy sem y =
    (case wasm_sem_from_handle sem y of
       None \<Rightarrow> y
     | Some i \<Rightarrow> put_sem i ((sy_sems y ! i)\<lparr> sm_used := False \<rparr>) y)"

section \<open>Properties\<close>

definition sync_inv :: "osal_sync \<Rightarrow> bool" where
  "sync_inv y \<longleftrightarrow> length (sy_mutexes y) = WASM_POOL_SIZE \<and> length (sy_sems y) = WASM_POOL_SIZE
     \<and> sched_inv (sy_sched y) \<and> (\<forall>m \<in> set (sy_mutexes y). wq_inv (mx_queue m))
     \<and> (\<forall>s \<in> set (sy_sems y). wq_inv (sm_queue s))"

lemma wasm_mtx_from_handle_sched [simp]:
  "wasm_mtx_from_handle h (y\<lparr> sy_sched := s \<rparr>) = wasm_mtx_from_handle h y"
  by (simp add: wasm_mtx_from_handle_def)

lemma mtx_handle:
  assumes "sync_inv y" "wasm_mtx_from_handle h y = Some i"
  shows "i < length (sy_mutexes y)" "wq_inv (mx_queue (sy_mutexes y ! i))"
proof -
  show i: "i < length (sy_mutexes y)"
    using assms by (auto simp: wasm_mtx_from_handle_def sync_inv_def split: if_splits)
  then show "wq_inv (mx_queue (sy_mutexes y ! i))" using assms(1) by (simp add: sync_inv_def)
qed

lemma sem_handle:
  assumes "sync_inv y" "wasm_sem_from_handle h y = Some i"
  shows "i < length (sy_sems y)" "wq_inv (sm_queue (sy_sems y ! i))"
proof -
  show i: "i < length (sy_sems y)"
    using assms by (auto simp: wasm_sem_from_handle_def sync_inv_def split: if_splits)
  then show "wq_inv (sm_queue (sy_sems y ! i))" using assms(1) by (simp add: sync_inv_def)
qed

lemma resume_task:
  assumes "sched_inv s" "w < WINK_SIM_MAX_TASKS"
  shows "ss_tasks (sim_scheduler_resume clock isr w s) ! w =
    (if tk_state (ss_tasks s ! w) = SIM_TASK_STATE_BLOCKED
     then (ss_tasks s ! w)\<lparr> tk_state := SIM_TASK_STATE_READY, tk_blocked_on := 0, tk_wakeup_us := 0,
            tk_timeout_fired := False,
            tk_last_wake_reason := (if isr then WINK_SIM_WAKE_IRQ else WINK_SIM_WAKE_SYNC_RES) \<rparr>
     else ss_tasks s ! w)"
  using assms by (simp add: sim_scheduler_resume_def Let_def sched_inv_def)

lemma resume_current [simp]:
  "ss_current (sim_scheduler_resume clock isr w s) = ss_current s"
  by (simp add: sim_scheduler_resume_def Let_def)

text \<open>C13: unlocking hands the mutex directly to the task that has waited longest, in first-in
  first-out order, and makes it ready if it is still blocked: its lock call then returns
  \<open>WINK_OK\<close> as the owner; with no waiter the mutex becomes free; nobody but the owner can
  unlock.\<close>
theorem mutex_unlock_hands_over_in_order:
  assumes "sync_inv y" "wasm_mtx_from_handle h y = Some i"
    and "mx_owner (sy_mutexes y ! i) = Task owner" "sim_scheduler_current_id (sy_sched y) = Some self"
  shows "if self \<noteq> owner then pal_os_mutex_unlock clock isr h y = (WINK_ERR_PERMISSION, y)
    else case wq_list (mx_queue (sy_mutexes y ! i)) of
      [] \<Rightarrow> mx_owner (sy_mutexes (snd (pal_os_mutex_unlock clock isr h y)) ! i) = No_owner
    | t # ts \<Rightarrow>
        fst (pal_os_mutex_unlock clock isr h y) = WINK_OK
        \<and> mx_owner (sy_mutexes (snd (pal_os_mutex_unlock clock isr h y)) ! i) = Task t
        \<and> wq_list (mx_queue (sy_mutexes (snd (pal_os_mutex_unlock clock isr h y)) ! i)) = ts
        \<and> (t < WINK_SIM_MAX_TASKS \<and> tk_state (ss_tasks (sy_sched y) ! t) = SIM_TASK_STATE_BLOCKED \<longrightarrow>
             ready (ss_tasks (sy_sched (snd (pal_os_mutex_unlock clock isr h y))) ! t)
             \<and> fst (mutex_lock_resume i t (snd (pal_os_mutex_unlock clock isr h y))) = WINK_OK)"
proof -
  note mh = mtx_handle [OF assms(1,2)]
  let ?q = "mx_queue (sy_mutexes y ! i)"
  have si: "sched_inv (sy_sched y)" using assms(1) by (simp add: sync_inv_def)
  show ?thesis
  proof (cases "self = owner")
    case False
    then show ?thesis using assms by (simp add: pal_os_mutex_unlock_def Let_def self_owner_def)
  next
    case True
    show ?thesis
    proof (cases "wq_list ?q")
      case Nil
      with wq_pop_list [OF mh(2)] have "wq_pop ?q = (None, ?q)" by simp
      with True Nil assms mh(1) show ?thesis by (simp add: pal_os_mutex_unlock_def Let_def self_owner_def)
    next
      case (Cons t ts)
      with wq_pop_list [OF mh(2)] obtain q' where q': "wq_pop ?q = (Some t, q')" "wq_list q' = ts" by auto
      have un: "pal_os_mutex_unlock clock isr h y = (WINK_OK,
          (put_mutex i ((sy_mutexes y ! i)\<lparr> mx_owner := Task t, mx_queue := q' \<rparr>) y)
            \<lparr> sy_sched := sim_scheduler_resume clock isr t (sy_sched y) \<rparr>)"
        using True assms q' by (simp add: pal_os_mutex_unlock_def Let_def self_owner_def)
      show ?thesis
        using True Cons q' mh(1) resume_task [OF si, of t clock isr]
        by (auto simp: un mutex_lock_resume_def Let_def ready_def)
    qed
  qed
qed

text \<open>A task whose lock timed out can still be handed the mutex: when the owner unlocks after
  the timeout fired but before the waiter has run, the waiter becomes the owner, its call reports
  \<open>WINK_ERR_TIMEOUT\<close>, and it stays the owner without knowing: every later lock of the mutex
  blocks or is refused, the waiter's own included.\<close>
lemma timed_out_waiter_keeps_mutex:
  assumes "sync_inv y" "wasm_mtx_from_handle h y = Some i"
    and "mx_owner (sy_mutexes y ! i) = Task owner" "sim_scheduler_current_id (sy_sched y) = Some owner"
    and "wq_list (mx_queue (sy_mutexes y ! i)) = w # ts" "w < WINK_SIM_MAX_TASKS"
    and "tk_state (ss_tasks (sy_sched y) ! w) = SIM_TASK_STATE_BLOCKED" "due now (ss_tasks (sy_sched y) ! w)"
  defines "y1 \<equiv> y\<lparr> sy_sched := snd (sim_scheduler_wakeup_by_time now now (sy_sched y)) \<rparr>"
  defines "y2 \<equiv> snd (pal_os_mutex_unlock now False h y1)"
  shows "fst (pal_os_mutex_unlock now False h y1) = WINK_OK
    \<and> fst (mutex_lock_resume i w y2) = WINK_ERR_TIMEOUT
    \<and> mx_owner (sy_mutexes (snd (mutex_lock_resume i w y2)) ! i) = Task w"
proof -
  obtain c s1 where s1: "sim_scheduler_wakeup_by_time now now (sy_sched y) = (c, s1)" by fastforce
  have si: "sched_inv (sy_sched y)" using assms(1) by (simp add: sync_inv_def)
  then have len: "length (ss_tasks (sy_sched y)) = WINK_SIM_MAX_TASKS" by (simp add: sched_inv_def)
  have tw: "ss_tasks s1 ! w = wake_timeout (ss_tasks (sy_sched y) ! w)"
    using wakeup_by_time_tasks(2) [OF si s1] assms(6,8) len by simp
  have cur: "ss_current s1 = ss_current (sy_sched y)"
  proof -
    have "ss_current (snd (fold (wakeup_slot now now) js (n, s))) = ss_current s" for js n s
      by (induction js arbitrary: n s) (auto simp: wakeup_slot_def Let_def)
    from this [of "[0 ..< WINK_SIM_MAX_TASKS]" 0 "sy_sched y"] s1 show ?thesis
      by (simp add: sim_scheduler_wakeup_by_time_def)
  qed
  note mh = mtx_handle [OF assms(1,2)]
  from wq_pop_list [OF mh(2)] assms(5) obtain q' where q': "wq_pop (mx_queue (sy_mutexes y ! i)) = (Some w, q')"
    by auto
  have "wasm_mtx_from_handle h y1 = Some i" using assms(2) by (simp add: y1_def)
  then have un: "pal_os_mutex_unlock now False h y1 = (WINK_OK,
      (put_mutex i ((sy_mutexes y ! i)\<lparr> mx_owner := Task w, mx_queue := q' \<rparr>) y1)
        \<lparr> sy_sched := sim_scheduler_resume now False w s1 \<rparr>)"
    using assms(3,4) q' cur s1
    by (simp add: pal_os_mutex_unlock_def Let_def self_owner_def y1_def sim_scheduler_current_id_def)
  have "sim_scheduler_resume now False w s1 = s1"
    using tw wake_timeout_awake(2) [of "ss_tasks (sy_sched y) ! w"]
    by (simp add: sim_scheduler_resume_def ready_def)
  then have y2: "y2 = (put_mutex i ((sy_mutexes y ! i)\<lparr> mx_owner := Task w, mx_queue := q' \<rparr>) y1)
      \<lparr> sy_sched := s1 \<rparr>"
    by (simp add: y2_def un)
  have "tk_timeout_fired (ss_tasks s1 ! w)" using tw assms(7) by (simp add: wake_timeout_def Let_def)
  then have "fst (mutex_lock_resume i w y2) = WINK_ERR_TIMEOUT
      \<and> mx_owner (sy_mutexes (snd (mutex_lock_resume i w y2)) ! i) = Task w"
    using mh(1) by (simp add: mutex_lock_resume_def Let_def y2 y1_def)
  moreover have "fst (pal_os_mutex_unlock now False h y1) = WINK_OK" by (simp only: un fst_conv)
  ultimately show ?thesis by blast
qed

text \<open>A timeout of 0 milliseconds waits forever: a task that tries a held mutex, or a
  semaphore that is not available, with timeout 0 is blocked without a wake-up time, so no
  passage of time ever wakes it.\<close>
lemma zero_timeout_blocks_forever:
  assumes "sync_inv y" "sim_scheduler_current_id (sy_sched y) = Some self" "self < WINK_SIM_MAX_TASKS"
    and "wasm_mtx_from_handle h y = Some i" "mx_owner (sy_mutexes y ! i) = Task owner" "owner \<noteq> self"
    and "wasm_sem_from_handle g y = Some j" "sm_count (sy_sems y ! j) = 0"
  shows "fst (pal_os_mutex_lock clock h 0 y) = Blocked
    \<and> \<not> due now (ss_tasks (sy_sched (snd (pal_os_mutex_lock clock h 0 y))) ! self)
    \<and> fst (pal_os_sem_take clock g 0 y) = Blocked
    \<and> \<not> due now (ss_tasks (sy_sched (snd (pal_os_sem_take clock g 0 y))) ! self)"
proof -
  have len: "self < length (ss_tasks (sy_sched y))"
    using assms(1,3) by (simp add: sync_inv_def sched_inv_def)
  have "\<not> due now (ss_tasks (sim_scheduler_block clock self r clock (wait_us 0) (sy_sched y)) ! self)" for r
    using assms(3) len by (simp add: sim_scheduler_block_def wait_us_def SYNC_WAIT_FOREVER_def due_def)
  then show ?thesis
    using assms by (simp add: pal_os_mutex_lock_def pal_os_sem_take_def Let_def)
qed

text \<open>A semaphore given to a waiter whose timeout has fired but who has not run yet is lost:
  the give is acknowledged, the waiter reports a timeout, and the semaphore stays unavailable.\<close>
lemma give_to_timed_out_waiter_is_lost:
  fixes clock :: u64 and isr :: bool
  assumes "sync_inv y" "wasm_sem_from_handle g y = Some j" "sm_count (sy_sems y ! j) = 0"
    and "wq_list (sm_queue (sy_sems y ! j)) = w # ts"
    and "tk_state (ss_tasks (sy_sched y) ! w) = SIM_TASK_STATE_READY"
      "tk_timeout_fired (ss_tasks (sy_sched y) ! w)"
  defines "y1 \<equiv> snd (pal_os_sem_give clock isr g y)"
  shows "fst (pal_os_sem_give clock isr g y) = WINK_OK
    \<and> fst (sem_take_resume j w y1) = WINK_ERR_TIMEOUT
    \<and> sm_count (sy_sems (snd (sem_take_resume j w y1)) ! j) = 0"
proof -
  note sh = sem_handle [OF assms(1,2)]
  from wq_pop_list [OF sh(2)] assms(4) obtain q' where q': "wq_pop (sm_queue (sy_sems y ! j)) = (Some w, q')"
    by auto
  have "sim_scheduler_resume clock isr w (sy_sched y) = sy_sched y"
    using assms(5) by (simp add: sim_scheduler_resume_def)
  then have give: "pal_os_sem_give clock isr g y
      = (WINK_OK, put_sem j ((sy_sems y ! j)\<lparr> sm_queue := q' \<rparr>) y)"
    using assms(2) q' by (simp add: pal_os_sem_give_def Let_def)
  show ?thesis using sh(1) assms(3,6) by (simp add: sem_take_resume_def Let_def give y1_def)
qed

section \<open>A concrete schedule\<close>

definition demo_queue_of :: "nat list \<Rightarrow> wait_queue" where
  "demo_queue_of ws = fold wq_push ws
     \<lparr> wq_waiters = replicate 16 0, wq_head = 0, wq_tail = 0, wq_count = 0 \<rparr>"

text \<open>Task 3 holds mutex 1 and runs; \<open>t\<close> is task 9, which waits for the mutex and the semaphore
  unless \<open>ws\<close> is empty.\<close>

definition demo_sync :: "sim_task_t \<Rightarrow> nat list \<Rightarrow> nat \<Rightarrow> osal_sync" where
  "demo_sync t ws cur = \<lparr>
     sy_mutexes = (replicate 16 \<lparr> mx_used = False, mx_owner = No_owner, mx_queue = demo_queue_of [] \<rparr>)
       [0 := \<lparr> mx_used = True, mx_owner = Task 3, mx_queue = demo_queue_of ws \<rparr>],
     sy_sems = (replicate 16 \<lparr> sm_used = False, sm_count = 0, sm_queue = demo_queue_of [] \<rparr>)
       [0 := \<lparr> sm_used = True, sm_count = 0, sm_queue = demo_queue_of ws \<rparr>],
     sy_sched = demo_sched\<lparr> ss_tasks := (ss_tasks demo_sched)[9 := t], ss_current := Some cur \<rparr> \<rparr>"

definition blocked_task :: sim_task_t where
  "blocked_task = task_zero\<lparr> tk_state := SIM_TASK_STATE_BLOCKED, tk_wakeup_us := 10 \<rparr>"

lemma demo_queue_of_simps:
  "wq_inv (demo_queue_of [])" "wq_list (demo_queue_of []) = []"
  "wq_inv (demo_queue_of [9])" "wq_list (demo_queue_of [9]) = [9]"
  by (simp_all add: demo_queue_of_def wq_push_def wq_inv_def wq_list_def ring_read_def WINK_SIM_MAX_TASKS_def)

lemma demo_sync_inv: "ws = [] \<or> ws = [9] \<Longrightarrow> sync_inv (demo_sync t ws cur)"
  by (auto simp: sync_inv_def demo_sync_def WASM_POOL_SIZE_def sched_inv_def demo_sched_def
      WINK_SIM_MAX_TASKS_def WINK_SIM_TRACE_CAPACITY_def demo_queue_of_simps
      dest!: set_update_subset_insert [THEN subsetD])

lemma demo_sync_facts:
  "wasm_mtx_from_handle 1 (demo_sync t ws cur) = Some 0"
  "wasm_sem_from_handle 1 (demo_sync t ws cur) = Some 0"
  "mx_owner (sy_mutexes (demo_sync t ws cur) ! 0) = Task 3"
  "mx_queue (sy_mutexes (demo_sync t ws cur) ! 0) = demo_queue_of ws"
  "sm_queue (sy_sems (demo_sync t ws cur) ! 0) = demo_queue_of ws"
  "sm_count (sy_sems (demo_sync t ws cur) ! 0) = 0"
  "sim_scheduler_current_id (sy_sched (demo_sync t ws cur)) = Some cur"
  "ss_tasks (sy_sched (demo_sync t ws cur)) ! 9 = t"
  by (simp_all add: demo_sync_def wasm_mtx_from_handle_def wasm_sem_from_handle_def WASM_POOL_SIZE_def
      sim_scheduler_current_id_def demo_sched_def)

lemma mutex_unlock_hands_over_witness:
  "mx_owner (sy_mutexes (snd (pal_os_mutex_unlock 0 False 1 (demo_sync blocked_task [9] 3))) ! 0) = Task 9"
  using mutex_unlock_hands_over_in_order [OF demo_sync_inv [of "[9]" blocked_task 3] demo_sync_facts(1,3,7),
      where clock = 0 and isr = False]
  by (simp add: demo_sync_facts demo_queue_of_simps)

lemma timed_out_waiter_witness:
  "mx_owner (sy_mutexes (snd (mutex_lock_resume 0 9 (snd (pal_os_mutex_unlock 10 False 1
     ((demo_sync blocked_task [9] 3)\<lparr> sy_sched := snd (sim_scheduler_wakeup_by_time 10 10
        (sy_sched (demo_sync blocked_task [9] 3))) \<rparr>))))) ! 0) = Task 9"
  using timed_out_waiter_keeps_mutex [OF demo_sync_inv [of "[9]" blocked_task 3] demo_sync_facts(1,3,7),
      where w = 9 and ts = "[]" and now = 10]
  by (simp add: demo_sync_facts demo_queue_of_simps blocked_task_def WINK_SIM_MAX_TASKS_def due_def)

lemma zero_timeout_witness:
  "fst (pal_os_mutex_lock 5 1 0 (demo_sync blocked_task [] 9)) = Blocked"
  using zero_timeout_blocks_forever [OF demo_sync_inv [of "[]" blocked_task 9] demo_sync_facts(7) _
      demo_sync_facts(1,3) _ demo_sync_facts(2,6), where clock = 5]
  by (simp add: WINK_SIM_MAX_TASKS_def)

lemma give_to_timed_out_witness:
  "fst (sem_take_resume 0 9 (snd (pal_os_sem_give 10 False 1 (demo_sync (wake_timeout blocked_task) [9] 3))))
    = WINK_ERR_TIMEOUT"
  using give_to_timed_out_waiter_is_lost [OF demo_sync_inv [of "[9]" "wake_timeout blocked_task" 3]
      demo_sync_facts(2,6), where w = 9 and ts = "[]" and clock = 10 and isr = False]
  by (simp add: demo_sync_facts demo_queue_of_simps wake_timeout_def blocked_task_def Let_def)

end
