(* ===== verification/Lockfree_Pipeline.thy ===== *)
theory Lockfree_Pipeline
  imports Wink_Prelude
begin

text \<open>
  The double-buffered pipeline of \<^verbatim>\<open>pal/include/osal/pal_lockfree_pipeline.h\<close> between a slow
  task and a fast interrupt handler on one core: the handler runs to completion, the task can be
  interrupted between any two of its memory accesses. Commands go from the task to the handler,
  status records the other way. The task's side of each direction is a sequence of single
  accesses; the step relation \<open>cmd_step\<close> and the function \<open>consume_status_steps\<close> interleave it
  with the handler's.
\<close>

section \<open>Data\<close>

record foc_slow_to_fast_cmd_t =
  fc_target_speed_q15 :: "16 word"
  fc_target_angle_q15 :: "16 word"
  fc_seq_id :: u32

record foc_fast_to_slow_status_t =
  fs_actual_current_q15 :: "16 word"
  fs_actual_velocity_q15 :: "16 word"
  fs_fault_flags :: u16
  fs_seq_id :: u32

record foc_pipeline_t =
  fp_cmd_slot :: "foc_slow_to_fast_cmd_t list"
  fp_cmd_idx :: u8
  fp_stat_slot :: "foc_fast_to_slow_status_t list"
  fp_stat_idx :: u8

definition cmd_zero :: foc_slow_to_fast_cmd_t where
  "cmd_zero = \<lparr> fc_target_speed_q15 = 0, fc_target_angle_q15 = 0, fc_seq_id = 0 \<rparr>"

definition stat_zero :: foc_fast_to_slow_status_t where
  "stat_zero = \<lparr> fs_actual_current_q15 = 0, fs_actual_velocity_q15 = 0, fs_fault_flags = 0, fs_seq_id = 0 \<rparr>"

definition foc_pipeline_init :: "foc_pipeline_t option \<Rightarrow> foc_pipeline_t option" where
  "foc_pipeline_init p =
    (case p of None \<Rightarrow> None
     | Some p \<Rightarrow> Some (p\<lparr> fp_cmd_idx := 0, fp_stat_idx := 0,
         fp_cmd_slot := (fp_cmd_slot p)[0 := cmd_zero, 1 := cmd_zero],
         fp_stat_slot := (fp_stat_slot p)[0 := stat_zero, 1 := stat_zero] \<rparr>))"

section \<open>Commands\<close>

definition upd_cmd ::
  "u8 \<Rightarrow> (foc_slow_to_fast_cmd_t \<Rightarrow> foc_slow_to_fast_cmd_t) \<Rightarrow> foc_pipeline_t \<Rightarrow> foc_pipeline_t" where
  "upd_cmd w f p = p\<lparr> fp_cmd_slot := (fp_cmd_slot p)[unat w := f (fp_cmd_slot p ! unat w)] \<rparr>"

definition foc_publish_cmd :: "foc_slow_to_fast_cmd_t \<Rightarrow> foc_pipeline_t \<Rightarrow> foc_pipeline_t" where
  "foc_publish_cmd cmd p =
    (let w = 1 - fp_cmd_idx p;
         p = upd_cmd w (\<lambda>s. s\<lparr> fc_target_speed_q15 := fc_target_speed_q15 cmd \<rparr>) p;
         p = upd_cmd w (\<lambda>s. s\<lparr> fc_target_angle_q15 := fc_target_angle_q15 cmd \<rparr>) p;
         p = upd_cmd w (\<lambda>s. s\<lparr> fc_seq_id := fc_seq_id cmd \<rparr>) p
     in p\<lparr> fp_cmd_idx := w \<rparr>)"

definition foc_consume_cmd :: "foc_pipeline_t \<Rightarrow> foc_slow_to_fast_cmd_t" where
  "foc_consume_cmd p =
    (let i = fp_cmd_idx p; s = fp_cmd_slot p ! unat i
     in \<lparr> fc_target_speed_q15 = fc_target_speed_q15 s, fc_target_angle_q15 = fc_target_angle_q15 s,
          fc_seq_id = fc_seq_id s \<rparr>)"

text \<open>Where the publishing task stands: before which of its accesses it can be interrupted.\<close>

datatype publisher =
    Idle
  | Write_speed u8 foc_slow_to_fast_cmd_t
  | Write_angle u8 foc_slow_to_fast_cmd_t
  | Write_seq u8 foc_slow_to_fast_cmd_t
  | Store_idx u8 foc_slow_to_fast_cmd_t

record cmd_state =
  cs_pipe :: foc_pipeline_t
  cs_pub :: publisher
  cs_sent :: "foc_slow_to_fast_cmd_t list"

datatype cmd_event = Task | Handler foc_slow_to_fast_cmd_t

inductive cmd_step :: "cmd_state \<Rightarrow> cmd_event \<Rightarrow> cmd_state \<Rightarrow> bool" where
  load: "cs_pub s = Idle \<Longrightarrow>
    cmd_step s Task (s\<lparr> cs_pub := Write_speed (1 - fp_cmd_idx (cs_pipe s)) m \<rparr>)"
| speed: "cs_pub s = Write_speed w m \<Longrightarrow>
    cmd_step s Task (s\<lparr> cs_pipe := upd_cmd w (\<lambda>c. c\<lparr> fc_target_speed_q15 := fc_target_speed_q15 m \<rparr>) (cs_pipe s),
      cs_pub := Write_angle w m \<rparr>)"
| angle: "cs_pub s = Write_angle w m \<Longrightarrow>
    cmd_step s Task (s\<lparr> cs_pipe := upd_cmd w (\<lambda>c. c\<lparr> fc_target_angle_q15 := fc_target_angle_q15 m \<rparr>) (cs_pipe s),
      cs_pub := Write_seq w m \<rparr>)"
| seq: "cs_pub s = Write_seq w m \<Longrightarrow>
    cmd_step s Task (s\<lparr> cs_pipe := upd_cmd w (\<lambda>c. c\<lparr> fc_seq_id := fc_seq_id m \<rparr>) (cs_pipe s),
      cs_pub := Store_idx w m \<rparr>)"
| store: "cs_pub s = Store_idx w m \<Longrightarrow>
    cmd_step s Task (s\<lparr> cs_pipe := (cs_pipe s)\<lparr> fp_cmd_idx := w \<rparr>, cs_pub := Idle, cs_sent := cs_sent s @ [m] \<rparr>)"
| consume: "cmd_step s (Handler (foc_consume_cmd (cs_pipe s))) s"

inductive_cases task_stepE: "cmd_step s Task t"
inductive_cases handler_stepE: "cmd_step s (Handler c) t"

inductive cmd_run :: "cmd_state \<Rightarrow> cmd_event list \<Rightarrow> cmd_state \<Rightarrow> bool" where
  done_run: "cmd_run s [] s"
| more_run: "cmd_run s es t \<Longrightarrow> cmd_step t e u \<Longrightarrow> cmd_run s (es @ [e]) u"

inductive_simps cmd_run_Nil [simp]: "cmd_run s [] t"

text \<open>The five accesses in a row are the C function.\<close>

lemma publish_steps:
  assumes "cs_pub s = Idle"
  shows "cmd_run s [Task, Task, Task, Task, Task]
    (s\<lparr> cs_pipe := foc_publish_cmd m (cs_pipe s), cs_pub := Idle, cs_sent := cs_sent s @ [m] \<rparr>)"
proof -
  define w where "w = 1 - fp_cmd_idx (cs_pipe s)"
  define p1 where "p1 = upd_cmd w (\<lambda>c. c\<lparr> fc_target_speed_q15 := fc_target_speed_q15 m \<rparr>) (cs_pipe s)"
  define p2 where "p2 = upd_cmd w (\<lambda>c. c\<lparr> fc_target_angle_q15 := fc_target_angle_q15 m \<rparr>) p1"
  define p3 where "p3 = upd_cmd w (\<lambda>c. c\<lparr> fc_seq_id := fc_seq_id m \<rparr>) p2"
  note p = p1_def p2_def p3_def w_def
  have "cmd_run s ([] @ [Task]) (s\<lparr> cs_pub := Write_speed w m \<rparr>)"
    using more_run [OF done_run load [OF assms, of m]] by (simp add: w_def)
  from more_run [OF this speed [of _ w m]] have "cmd_run s (([] @ [Task]) @ [Task])
      (s\<lparr> cs_pipe := p1, cs_pub := Write_angle w m \<rparr>)" by (simp add: p1_def)
  from more_run [OF this angle [of _ w m]] have "cmd_run s ((([] @ [Task]) @ [Task]) @ [Task])
      (s\<lparr> cs_pipe := p2, cs_pub := Write_seq w m \<rparr>)" by (simp add: p2_def)
  from more_run [OF this seq [of _ w m]] have "cmd_run s (((([] @ [Task]) @ [Task]) @ [Task]) @ [Task])
      (s\<lparr> cs_pipe := p3, cs_pub := Store_idx w m \<rparr>)" by (simp add: p3_def)
  from more_run [OF this store [of _ w m]] show ?thesis
    using assms by (simp add: foc_publish_cmd_def Let_def p)
qed

text \<open>The index is 0 or 1, the task only writes the slot the index does not select, and the
  selected slot holds the last command whose publication is complete.\<close>

definition slot_ok :: "u8 \<Rightarrow> foc_slow_to_fast_cmd_t \<Rightarrow> (foc_slow_to_fast_cmd_t \<Rightarrow> bool) \<Rightarrow> foc_pipeline_t \<Rightarrow> bool"
where
  "slot_ok w m good p \<longleftrightarrow> w = 1 - fp_cmd_idx p \<and> good (fp_cmd_slot p ! unat w)"

definition cmd_inv :: "cmd_state \<Rightarrow> bool" where
  "cmd_inv s \<longleftrightarrow> length (fp_cmd_slot (cs_pipe s)) = 2 \<and> fp_cmd_idx (cs_pipe s) \<in> {0, 1}
    \<and> fp_cmd_slot (cs_pipe s) ! unat (fp_cmd_idx (cs_pipe s)) = last (cmd_zero # cs_sent s)
    \<and> (case cs_pub s of
         Idle \<Rightarrow> True
       | Write_speed w m \<Rightarrow> slot_ok w m (\<lambda>c. True) (cs_pipe s)
       | Write_angle w m \<Rightarrow> slot_ok w m (\<lambda>c. fc_target_speed_q15 c = fc_target_speed_q15 m) (cs_pipe s)
       | Write_seq w m \<Rightarrow> slot_ok w m (\<lambda>c. fc_target_speed_q15 c = fc_target_speed_q15 m
           \<and> fc_target_angle_q15 c = fc_target_angle_q15 m) (cs_pipe s)
       | Store_idx w m \<Rightarrow> slot_ok w m (\<lambda>c. c = m) (cs_pipe s))"

lemma cmd_step_inv:
  assumes "cmd_step s e t" "cmd_inv s"
  shows "cmd_inv t"
  using assms
  by cases (auto simp: cmd_inv_def slot_ok_def upd_cmd_def nth_list_update)

lemma cmd_run_inv: "cmd_run s es t \<Longrightarrow> cmd_inv s \<Longrightarrow> cmd_inv t"
  by (induction rule: cmd_run.induct) (auto intro: cmd_step_inv)

lemma cmd_run_init:
  assumes "length (fp_cmd_slot p) = 2" "foc_pipeline_init (Some p) = Some q"
  shows "cmd_inv \<lparr> cs_pipe = q, cs_pub = Idle, cs_sent = [] \<rparr>"
proof -
  obtain a b where "fp_cmd_slot p = [a, b]" using assms(1) by (auto simp: length_Suc_conv numeral_2_eq_2)
  then show ?thesis using assms(2) by (auto simp: foc_pipeline_init_def cmd_inv_def)
qed

section \<open>Status records\<close>

definition foc_publish_status :: "foc_fast_to_slow_status_t \<Rightarrow> foc_pipeline_t \<Rightarrow> foc_pipeline_t" where
  "foc_publish_status st p =
    (let w = 1 - fp_stat_idx p;
         s = fp_stat_slot p ! unat w;
         s = s\<lparr> fs_actual_current_q15 := fs_actual_current_q15 st \<rparr>;
         s = s\<lparr> fs_actual_velocity_q15 := fs_actual_velocity_q15 st \<rparr>;
         s = s\<lparr> fs_fault_flags := fs_fault_flags st \<rparr>;
         s = s\<lparr> fs_seq_id := fs_seq_id st \<rparr>
     in p\<lparr> fp_stat_slot := (fp_stat_slot p)[unat w := s], fp_stat_idx := w \<rparr>)"

definition foc_consume_status :: "foc_pipeline_t \<Rightarrow> foc_fast_to_slow_status_t" where
  "foc_consume_status p =
    (let i = fp_stat_idx p; s = fp_stat_slot p ! unat i
     in \<lparr> fs_actual_current_q15 = fs_actual_current_q15 s, fs_actual_velocity_q15 = fs_actual_velocity_q15 s,
          fs_fault_flags = fs_fault_flags s, fs_seq_id = fs_seq_id s \<rparr>)"

text \<open>The same function run by the task, with the status records the handler publishes before
  each of its four field reads (and after it has loaded the index).\<close>

definition consume_status_steps ::
  "foc_fast_to_slow_status_t list \<Rightarrow> foc_fast_to_slow_status_t list \<Rightarrow> foc_fast_to_slow_status_t list
    \<Rightarrow> foc_fast_to_slow_status_t list \<Rightarrow> foc_pipeline_t \<Rightarrow> foc_fast_to_slow_status_t" where
  "consume_status_steps h1 h2 h3 h4 p =
    (let i = unat (fp_stat_idx p);
         p = fold foc_publish_status h1 p; current = fs_actual_current_q15 (fp_stat_slot p ! i);
         p = fold foc_publish_status h2 p; velocity = fs_actual_velocity_q15 (fp_stat_slot p ! i);
         p = fold foc_publish_status h3 p; flags = fs_fault_flags (fp_stat_slot p ! i);
         p = fold foc_publish_status h4 p; seq = fs_seq_id (fp_stat_slot p ! i)
     in \<lparr> fs_actual_current_q15 = current, fs_actual_velocity_q15 = velocity, fs_fault_flags = flags,
          fs_seq_id = seq \<rparr>)"

definition stat_wf :: "foc_pipeline_t \<Rightarrow> bool" where
  "stat_wf p \<longleftrightarrow> length (fp_stat_slot p) = 2 \<and> fp_stat_idx p \<in> {0, 1}"

lemma publish_status:
  assumes "stat_wf p"
  shows "stat_wf (foc_publish_status st p)" "fp_stat_idx (foc_publish_status st p) = 1 - fp_stat_idx p"
    "foc_consume_status (foc_publish_status st p) = st"
    "fp_stat_slot (foc_publish_status st p) ! unat (fp_stat_idx p) = fp_stat_slot p ! unat (fp_stat_idx p)"
    "fp_stat_slot (foc_publish_status st p) ! unat (1 - fp_stat_idx p) = st"
  using assms by (auto simp: stat_wf_def foc_publish_status_def foc_consume_status_def Let_def nth_list_update)

lemma consume_status_uninterrupted: "consume_status_steps [] [] [] [] p = foc_consume_status p"
  by (simp add: consume_status_steps_def foc_consume_status_def Let_def)

section \<open>Properties\<close>

text \<open>C19: commands are never torn: in every interleaving of the publishing task with the handler,
  what the handler consumes is the last command whose publication is complete (the zero command
  before the first).\<close>
theorem consumed_command_is_last_published:
  assumes "length (fp_cmd_slot p) = 2" "foc_pipeline_init (Some p) = Some q"
    and "cmd_run \<lparr> cs_pipe = q, cs_pub = Idle, cs_sent = [] \<rparr> es s" "cmd_step s (Handler c) t"
  shows "c = last (cmd_zero # cs_sent s) \<and> t = s"
  using cmd_run_inv [OF assms(3) cmd_run_init [OF assms(1,2)]] assms(4)
  by (auto simp: cmd_inv_def foc_consume_cmd_def Let_def elim: handler_stepE)

definition demo_pipe :: foc_pipeline_t where
  "demo_pipe = \<lparr> fp_cmd_slot = [cmd_zero, cmd_zero], fp_cmd_idx = 0,
     fp_stat_slot = [stat_zero, stat_zero], fp_stat_idx = 0 \<rparr>"

definition demo_cmd :: foc_slow_to_fast_cmd_t where
  "demo_cmd = \<lparr> fc_target_speed_q15 = 5, fc_target_angle_q15 = 6, fc_seq_id = 7 \<rparr>"

lemma consumed_command_witness:
  "foc_consume_cmd (foc_publish_cmd demo_cmd demo_pipe) = demo_cmd"
proof -
  let ?s = "\<lparr> cs_pipe = demo_pipe, cs_pub = Idle, cs_sent = [] \<rparr>"
  have init: "foc_pipeline_init (Some demo_pipe) = Some demo_pipe" "length (fp_cmd_slot demo_pipe) = 2"
    by (simp_all add: foc_pipeline_init_def demo_pipe_def)
  have run: "cmd_run ?s [Task, Task, Task, Task, Task]
      \<lparr> cs_pipe = foc_publish_cmd demo_cmd demo_pipe, cs_pub = Idle, cs_sent = [demo_cmd] \<rparr>"
    using publish_steps [of ?s demo_cmd] by simp
  from consumed_command_is_last_published [OF init(2,1) run consume] show ?thesis by simp
qed

text \<open>A status record read by the task is intact if at most one record is published while it
  reads. Two publications between its accesses reuse the slot it reads: the result mixes fields of
  the old record with fields of the second new one.\<close>
lemma status_read_torn_by_two_publications:
  assumes "stat_wf p"
  shows "(length (h1 @ h2 @ h3 @ h4) \<le> 1 \<longrightarrow> consume_status_steps h1 h2 h3 h4 p = foc_consume_status p)
    \<and> consume_status_steps [] [] [a, b] [] p
      = (foc_consume_status p)\<lparr> fs_fault_flags := fs_fault_flags b, fs_seq_id := fs_seq_id b \<rparr>"
proof
  have keep: "fp_stat_slot (fold foc_publish_status h p) ! unat (fp_stat_idx p)
      = fp_stat_slot p ! unat (fp_stat_idx p)" if "length h \<le> 1" for h
    using that publish_status(4) [OF assms] by (cases h) auto
  show "length (h1 @ h2 @ h3 @ h4) \<le> 1 \<longrightarrow> consume_status_steps h1 h2 h3 h4 p = foc_consume_status p"
  proof
    assume len: "length (h1 @ h2 @ h3 @ h4) \<le> 1"
    have k: "length h1 \<le> 1" "length (h1 @ h2) \<le> 1" "length (h1 @ h2 @ h3) \<le> 1" using len by simp_all
    show "consume_status_steps h1 h2 h3 h4 p = foc_consume_status p"
      using keep [OF k(1)] keep [OF k(2)] keep [OF k(3)] keep [OF len]
      by (simp add: consume_status_steps_def foc_consume_status_def Let_def)
  qed
  let ?p = "foc_publish_status a p"
  have "fp_stat_slot (foc_publish_status b ?p) ! unat (fp_stat_idx p) = b"
    using publish_status(5) [OF publish_status(1) [OF assms], of b a] publish_status(2) [OF assms, of a]
    by simp
  then show "consume_status_steps [] [] [a, b] [] p
      = (foc_consume_status p)\<lparr> fs_fault_flags := fs_fault_flags b, fs_seq_id := fs_seq_id b \<rparr>"
    by (simp add: consume_status_steps_def foc_consume_status_def Let_def)
qed

lemma status_read_torn_witness:
  "consume_status_steps [] [] [stat_zero\<lparr> fs_seq_id := 1 \<rparr>, stat_zero\<lparr> fs_seq_id := 2, fs_actual_current_q15 := 9 \<rparr>] []
     demo_pipe = stat_zero\<lparr> fs_seq_id := 2 \<rparr>"
  using status_read_torn_by_two_publications [of demo_pipe "[]" "[]" "[]" "[]" "stat_zero\<lparr> fs_seq_id := 1 \<rparr>"
      "stat_zero\<lparr> fs_seq_id := 2, fs_actual_current_q15 := 9 \<rparr>"]
  by (simp add: stat_wf_def demo_pipe_def foc_consume_status_def stat_zero_def)

end
