(* ===== verification/Sim_Physical.thy ===== *)
theory Sim_Physical
  imports Wink_Prelude
begin

text \<open>
  The physical imperfections of \<^verbatim>\<open>targets/common/src/wink_sim_physical.c\<close> that are computed in
  integers: contact bounce of an input, the warm-up and sampling interval of a sensor, and the
  generator's seed. The low-pass filter, the noise and the bus drop decision are floating-point
  computations and are left out.
\<close>

record wink_phys_debounce_ctx_t =
  db_stable_level :: bool
  db_in_bounce :: bool
  db_bounce_start_us :: u64
  db_bounce_flip :: bool

text \<open>The seed after one step of \<^verbatim>\<open>wink_phys_prng_next\<close>; its float result is \<open>(seed >> 8) / 2 ^ 23\<close>.\<close>

definition wink_phys_prng_seed :: "u32 \<Rightarrow> u32" where
  "wink_phys_prng_seed seed = (seed * 1103515245 + 12345) AND 0x7FFFFFFF"

definition wink_phys_debounce_step ::
  "wink_phys_debounce_ctx_t option \<Rightarrow> bool \<Rightarrow> u64 \<Rightarrow> u32 \<Rightarrow> bool \<times> wink_phys_debounce_ctx_t option" where
  "wink_phys_debounce_step ctx target_level now_us bounce_us =
    (case ctx of None \<Rightarrow> (target_level, None)
     | Some c \<Rightarrow>
       if bounce_us = 0
       then (target_level, Some (c\<lparr> db_stable_level := target_level, db_in_bounce := False \<rparr>))
       else if target_level \<noteq> db_stable_level c
       then let c = (if \<not> db_in_bounce c
                     then c\<lparr> db_bounce_start_us := now_us, db_in_bounce := True, db_bounce_flip := False \<rparr>
                     else c);
                c = (if now_us < db_bounce_start_us c then c\<lparr> db_bounce_start_us := now_us \<rparr> else c)
            in if now_us - db_bounce_start_us c < ucast bounce_us
               then let c = c\<lparr> db_bounce_flip := \<not> db_bounce_flip c \<rparr>
                    in (if db_bounce_flip c then target_level else \<not> target_level, Some c)
               else (target_level, Some (c\<lparr> db_stable_level := target_level, db_in_bounce := False \<rparr>))
       else (db_stable_level c, Some (c\<lparr> db_in_bounce := False \<rparr>)))"

definition wink_phys_warmup_check ::
  "u64 \<Rightarrow> u64 \<Rightarrow> u32 \<Rightarrow> u32 \<Rightarrow> u64 option \<Rightarrow> wink_status_t \<times> u64 option" where
  "wink_phys_warmup_check now_us power_on_us warmup_us sample_interval_us last_sample_us =
    (if now_us < power_on_us \<or> now_us - power_on_us < ucast warmup_us then (WINK_ERR_BUSY, last_sample_us)
     else case last_sample_us of
       None \<Rightarrow> (WINK_OK, None)
     | Some t \<Rightarrow>
       if sample_interval_us > 0
       then if now_us < t then (WINK_OK, Some now_us)
            else if now_us - t < ucast sample_interval_us then (WINK_ERR_TIMEOUT, Some t)
            else (WINK_OK, Some now_us)
       else (WINK_OK, Some t))"

section \<open>A held level settles\<close>

text \<open>The outputs of successive samples of a level that does not change any more.\<close>

fun bounce_samples :: "u32 \<Rightarrow> bool \<Rightarrow> u64 list \<Rightarrow> wink_phys_debounce_ctx_t \<Rightarrow> bool list" where
  "bounce_samples bounce_us level [] c = []"
| "bounce_samples bounce_us level (t # ts) c =
     (let (out, c') = wink_phys_debounce_step (Some c) level t bounce_us
      in out # bounce_samples bounce_us level ts (the c'))"

lemma settled_samples:
  assumes "db_stable_level c = level"
  shows "bounce_samples b level ts c = replicate (length ts) level"
  using assms
proof (induction ts arbitrary: c)
  case (Cons t ts)
  have "wink_phys_debounce_step (Some c) level t b
      = (level, Some (c\<lparr> db_stable_level := level, db_in_bounce := False \<rparr>))
    \<or> wink_phys_debounce_step (Some c) level t b = (level, Some (c\<lparr> db_in_bounce := False \<rparr>))"
    using Cons.prems by (auto simp: wink_phys_debounce_step_def)
  then show ?case using Cons by auto
qed simp

lemma bouncing_samples:
  assumes "db_stable_level c = (\<not> level)" "db_in_bounce c" "db_bounce_start_us c = t0"
    and "sorted (t0 # ts)" "b \<noteq> 0"
  shows "\<forall>k < length ts. bounce_samples b level ts c ! k
    = (if ts ! k - t0 < ucast b then (level \<longleftrightarrow> (db_bounce_flip c \<longleftrightarrow> odd k)) else level)"
  using assms
proof (induction ts arbitrary: c)
  case (Cons t ts)
  have t: "\<not> t < t0" using Cons.prems(4) by auto
  show ?case
  proof (cases "t - t0 < ucast b")
    case True
    let ?c = "c\<lparr> db_bounce_flip := \<not> db_bounce_flip c \<rparr>"
    have "wink_phys_debounce_step (Some c) level t b
        = (if \<not> db_bounce_flip c then level else \<not> level, Some ?c)"
      using Cons.prems True t by (simp add: wink_phys_debounce_step_def)
    moreover have "\<forall>k < length ts. bounce_samples b level ts ?c ! k
        = (if ts ! k - t0 < ucast b then (level \<longleftrightarrow> (db_bounce_flip ?c \<longleftrightarrow> odd k)) else level)"
      by (rule Cons.IH) (use Cons.prems in auto)
    ultimately show ?thesis using True by (auto simp: nth_Cons split: nat.split)
  next
    case False
    let ?c = "c\<lparr> db_stable_level := level, db_in_bounce := False \<rparr>"
    have "wink_phys_debounce_step (Some c) level t b = (level, Some ?c)"
      using Cons.prems False t by (auto simp: wink_phys_debounce_step_def)
    moreover have "bounce_samples b level ts ?c = replicate (length ts) level"
      by (rule settled_samples) simp
    moreover have "\<not> ts ! k - t0 < ucast b" if "k < length ts" for k
    proof -
      have "t0 \<le> t" "t \<le> ts ! k" using Cons.prems(4) that by auto
      then have "t - t0 \<le> ts ! k - t0" by (simp add: word_le_nat_alt unat_sub)
      with False show ?thesis by auto
    qed
    ultimately show ?thesis using False by (auto simp: nth_Cons split: nat.split)
  qed
qed simp

text \<open>When an input changes and then holds its new level, its samples alternate, starting
  with the new level, for less than the bounce time after the first of them, and are the new
  level from then on.\<close>
lemma debounce_settles:
  assumes "db_stable_level c = (\<not> level)" "\<not> db_in_bounce c" "b \<noteq> 0" "sorted (t0 # ts)" "k < Suc (length ts)"
  shows "bounce_samples b level (t0 # ts) c ! k
    = (if (t0 # ts) ! k - t0 < ucast b then (level \<longleftrightarrow> even k) else level)"
proof -
  let ?c = "c\<lparr> db_bounce_start_us := t0, db_in_bounce := True, db_bounce_flip := True \<rparr>"
  have b: "ucast b \<noteq> (0 :: u64)" using assms(3) by (metis unat_0 unat_eq_zero unat_ucast_u64)
  then have "wink_phys_debounce_step (Some c) level t0 b = (level, Some ?c)"
    using assms(1-3) by (auto simp: wink_phys_debounce_step_def Let_def word_gt_0)
  moreover have "\<forall>k < length ts. bounce_samples b level ts ?c ! k
      = (if ts ! k - t0 < ucast b then (level \<longleftrightarrow> (db_bounce_flip ?c \<longleftrightarrow> odd k)) else level)"
    by (rule bouncing_samples) (use assms in auto)
  ultimately show ?thesis using assms(5) b by (auto simp: nth_Cons word_gt_0 split: nat.split)
qed

lemma debounce_settles_witness:
  "bounce_samples 5 True [10, 11, 12, 20] \<lparr> db_stable_level = False, db_in_bounce = False,
     db_bounce_start_us = 0, db_bounce_flip = False \<rparr> ! 1 = False"
  using debounce_settles [of "\<lparr> db_stable_level = False, db_in_bounce = False,
     db_bounce_start_us = 0, db_bounce_flip = False \<rparr>" True 5 10 "[11, 12, 20]" 1] by simp

end
