(* ===== verification/Host_Gpio.thy ===== *)
theory Host_Gpio
  imports Resource Sim_Physical
begin

text \<open>
  The GPIO port of the host simulation: \<^verbatim>\<open>targets/host/pal_hal_gpio_host.c\<close> with the injected
  input levels and the simulated clock of \<^verbatim>\<open>osal/host/pal_osal_host.c\<close>. Pins are integers, as
  \<^verbatim>\<open>wink_pin_t\<close> is signed and \<open>-1\<close> means no pin. The build modelled defines \<^verbatim>\<open>NDEBUG\<close>, where a
  full table of injected levels drops the level. The time hook of the test harness is a
  parameter.
\<close>

section \<open>Data\<close>

datatype pal_gpio_mode_t =
    PAL_GPIO_INPUT
  | PAL_GPIO_INPUT_PULLUP
  | PAL_GPIO_INPUT_PULLDOWN
  | PAL_GPIO_OUTPUT_PUSH_PULL
  | PAL_GPIO_OUTPUT_OPEN_DRAIN
  | PAL_GPIO_INPUT_OUTPUT

record host_loopback =
  lb_pin_out :: int
  lb_pin_in :: int
  lb_active :: bool

record host_rmt =
  rm_pin :: int
  rm_armed :: bool
  rm_last_rise_us :: u64
  rm_last_pulse_us :: u32

record gpio_ideal =
  gi_set :: bool
  gi_pin :: u16
  gi_ideal :: bool
  gi_ctx :: wink_phys_debounce_ctx_t

record host_gpio =
  hg_claims :: resource_table
  hg_mode :: "pal_gpio_mode_t list"
  hg_mode_known :: "bool list"
  hg_out_level :: "bool list"
  hg_out_known :: "bool list"
  hg_loopbacks :: "host_loopback list"
  hg_rmt :: host_rmt
  hg_ideal :: "gpio_ideal list"
  hg_bounce_us :: u32
  hg_time_us :: u64
  hg_hook :: "(u64 \<times> nat) option"
  hg_echo_pin :: u16
  hg_echo_rise_us :: u64
  hg_echo_high_us :: u64

definition HOST_MAX_GPIO_PIN :: int where "HOST_MAX_GPIO_PIN = 50"
definition HOST_MAX_LOOPBACKS :: nat where "HOST_MAX_LOOPBACKS = 8"
definition SIM_GPIO_IDEAL_SLOTS :: nat where "SIM_GPIO_IDEAL_SLOTS = 4"
definition ECHO_POLL_WINDOW_US :: u64 where "ECHO_POLL_WINDOW_US = 30000"

definition pin_bad :: "int \<Rightarrow> bool" where
  "pin_bad pin \<longleftrightarrow> pin < 0 \<or> pin \<ge> HOST_MAX_GPIO_PIN"

section \<open>The simulated environment\<close>

definition host_sim_advance_to :: "(nat \<Rightarrow> host_gpio \<Rightarrow> host_gpio) \<Rightarrow> u64 \<Rightarrow> host_gpio \<Rightarrow> host_gpio" where
  "host_sim_advance_to call_hook us h =
    (if us > hg_time_us h
     then let h = (case hg_hook h of
                None \<Rightarrow> h
              | Some (target, fn) \<Rightarrow>
                if hg_time_us h < target \<and> us \<ge> target
                then call_hook fn (h\<lparr> hg_time_us := target, hg_hook := None \<rparr>) else h)
          in h\<lparr> hg_time_us := us \<rparr>
     else h)"

definition ideal_slot :: "u16 \<Rightarrow> host_gpio \<Rightarrow> nat option" where
  "ideal_slot pin h = first_slot (\<lambda>g. gi_set g \<and> gi_pin g = pin) (hg_ideal h)"

definition sim_set_gpio_ideal :: "u16 \<Rightarrow> bool \<Rightarrow> host_gpio \<Rightarrow> host_gpio" where
  "sim_set_gpio_ideal pin level h =
    (case ideal_slot pin h of
       Some i \<Rightarrow> h\<lparr> hg_ideal := (hg_ideal h)[i := (hg_ideal h ! i)\<lparr> gi_ideal := level \<rparr>] \<rparr>
     | None \<Rightarrow>
       (case first_slot (\<lambda>g. \<not> gi_set g) (hg_ideal h) of
          Some i \<Rightarrow> h\<lparr> hg_ideal := (hg_ideal h)[i := \<lparr> gi_set = True, gi_pin = pin, gi_ideal = level,
             gi_ctx = \<lparr> db_stable_level = level, db_in_bounce = False, db_bounce_start_us = 0,
               db_bounce_flip = False \<rparr> \<rparr>] \<rparr>
        | None \<Rightarrow> h))"

definition sim_clear_gpio_ideal :: "host_gpio \<Rightarrow> host_gpio" where
  "sim_clear_gpio_ideal h = h\<lparr> hg_ideal := map (\<lambda>g. g\<lparr> gi_set := False \<rparr>) (hg_ideal h) \<rparr>"

definition host_gpio_read_debounced :: "u16 \<Rightarrow> host_gpio \<Rightarrow> bool option \<times> host_gpio" where
  "host_gpio_read_debounced pin h =
    (case ideal_slot pin h of None \<Rightarrow> (None, h)
     | Some i \<Rightarrow>
       let g = hg_ideal h ! i;
           (level, ctx) = wink_phys_debounce_step (Some (gi_ctx g)) (gi_ideal g) (hg_time_us h) (hg_bounce_us h)
       in (Some level, h\<lparr> hg_ideal := (hg_ideal h)[i := g\<lparr> gi_ctx := the ctx \<rparr>] \<rparr>))"

section \<open>Pins\<close>

definition pal_gpio_mode_idle_level :: "pal_gpio_mode_t \<Rightarrow> bool" where
  "pal_gpio_mode_idle_level mode \<longleftrightarrow> mode = PAL_GPIO_INPUT_PULLUP"

definition claim_gpio :: "int \<Rightarrow> host_gpio \<Rightarrow> host_gpio" where
  "claim_gpio pin h = h\<lparr> hg_claims :=
     snd (pal_resource_claim PAL_RESOURCE_GPIO_PIN (word_of_int pin) (Some ''pal_gpio'') (hg_claims h)) \<rparr>"

definition pal_gpio_init :: "int \<Rightarrow> pal_gpio_mode_t \<Rightarrow> host_gpio \<Rightarrow> wink_status_t \<times> host_gpio" where
  "pal_gpio_init pin mode h =
    (if \<not> pin_bad pin
     then let h = claim_gpio pin h
          in (WINK_OK, h\<lparr> hg_mode := (hg_mode h)[nat pin := mode],
                          hg_mode_known := (hg_mode_known h)[nat pin := True] \<rparr>)
     else (WINK_OK, h))"

definition pal_gpio_init_output ::
  "int \<Rightarrow> pal_gpio_mode_t \<Rightarrow> bool \<Rightarrow> host_gpio \<Rightarrow> wink_status_t \<times> host_gpio" where
  "pal_gpio_init_output pin mode initial_level h =
    (if pin_bad pin then (WINK_ERR_INVALID_ARG, h)
     else if mode \<noteq> PAL_GPIO_OUTPUT_PUSH_PULL \<and> mode \<noteq> PAL_GPIO_OUTPUT_OPEN_DRAIN
     then (WINK_ERR_INVALID_ARG, h)
     else let h = claim_gpio pin h
          in (WINK_OK, h\<lparr> hg_mode := (hg_mode h)[nat pin := mode],
                          hg_mode_known := (hg_mode_known h)[nat pin := True],
                          hg_out_level := (hg_out_level h)[nat pin := initial_level],
                          hg_out_known := (hg_out_known h)[nat pin := True] \<rparr>))"

definition pal_gpio_set_hold :: "int \<Rightarrow> bool \<Rightarrow> wink_status_t" where
  "pal_gpio_set_hold pin hold_enable = (if pin_bad pin then WINK_ERR_INVALID_ARG else WINK_OK)"

definition pal_gpio_deinit :: "int \<Rightarrow> host_gpio \<Rightarrow> wink_status_t \<times> host_gpio" where
  "pal_gpio_deinit pin h =
    (if \<not> pin_bad pin
     then (WINK_OK, h\<lparr> hg_mode_known := (hg_mode_known h)[nat pin := False],
             hg_out_known := (hg_out_known h)[nat pin := False],
             hg_claims := snd (pal_resource_release PAL_RESOURCE_GPIO_PIN (word_of_int pin)
                            (Some ''pal_gpio'') (hg_claims h)) \<rparr>)
     else (WINK_OK, h))"

definition pal_gpio_reset_pin :: "int \<Rightarrow> host_gpio \<Rightarrow> host_gpio" where
  "pal_gpio_reset_pin pin h = snd (pal_gpio_deinit pin h)"

definition pal_host_get_gpio_level :: "int \<Rightarrow> bool option \<Rightarrow> host_gpio \<Rightarrow> bool \<times> bool option" where
  "pal_host_get_gpio_level pin out_level h =
    (if pin_bad pin \<or> out_level = None then (False, map_option (\<lambda>_. False) out_level)
     else if \<not> hg_out_known h ! nat pin then (False, Some False)
     else (True, Some (hg_out_level h ! nat pin)))"

definition pal_host_reset_gpio_levels :: "host_gpio \<Rightarrow> host_gpio" where
  "pal_host_reset_gpio_levels h =
    h\<lparr> hg_out_level := replicate (nat HOST_MAX_GPIO_PIN) False,
       hg_out_known := replicate (nat HOST_MAX_GPIO_PIN) False \<rparr>"

definition host_rmt_note_edge :: "bool \<Rightarrow> host_gpio \<Rightarrow> host_gpio" where
  "host_rmt_note_edge level h =
    (let m = hg_rmt h; now = hg_time_us h
     in if \<not> rm_armed m then h
        else if level then h\<lparr> hg_rmt := m\<lparr> rm_last_rise_us := now \<rparr> \<rparr>
        else if rm_last_rise_us m > 0 \<and> now > rm_last_rise_us m
        then let diff = now - rm_last_rise_us m
             in h\<lparr> hg_rmt := m\<lparr> rm_last_pulse_us := (if diff > 0xFFFFFFFF then 0xFFFFFFFF else ucast diff) \<rparr> \<rparr>
        else h)"

text \<open>The level reaches every loopback that starts at the pin.\<close>

definition drive_loopback :: "int \<Rightarrow> bool \<Rightarrow> nat \<Rightarrow> host_gpio \<Rightarrow> host_gpio" where
  "drive_loopback pin level i h =
    (let l = hg_loopbacks h ! i
     in if lb_active l \<and> lb_pin_out l = pin
        then let h = sim_set_gpio_ideal (word_of_int (lb_pin_in l)) level h
             in if rm_armed (hg_rmt h) \<and> lb_pin_in l = rm_pin (hg_rmt h) then host_rmt_note_edge level h else h
        else h)"

definition pal_gpio_write :: "int \<Rightarrow> bool \<Rightarrow> host_gpio \<Rightarrow> wink_status_t \<times> host_gpio" where
  "pal_gpio_write pin level h =
    (if pin_bad pin then (WINK_ERR_INVALID_ARG, h)
     else if \<not> pal_resource_is_claimed PAL_RESOURCE_GPIO_PIN (word_of_int pin) (hg_claims h)
     then (WINK_ERR_INVALID_STATE, h)
     else let h = h\<lparr> hg_out_level := (hg_out_level h)[nat pin := level],
                     hg_out_known := (hg_out_known h)[nat pin := True] \<rparr>
          in (WINK_OK, fold (drive_loopback pin level) [0 ..< HOST_MAX_LOOPBACKS] h))"

text \<open>Reading the echo pin waits, by advancing the clock, for the next edge of the echo.\<close>

definition read_echo :: "(nat \<Rightarrow> host_gpio \<Rightarrow> host_gpio) \<Rightarrow> host_gpio \<Rightarrow> bool \<times> host_gpio" where
  "read_echo call_hook h =
    (let t = hg_time_us h; rise = hg_echo_rise_us h; high = hg_echo_high_us h
     in if t < rise
        then let target = (if rise - t > ECHO_POLL_WINDOW_US then t + ECHO_POLL_WINDOW_US else rise)
             in (target \<ge> rise, host_sim_advance_to call_hook target h)
        else if t < rise + high then (False, host_sim_advance_to call_hook (rise + high) h)
        else (False, h))"

definition pal_gpio_read ::
  "(nat \<Rightarrow> host_gpio \<Rightarrow> host_gpio) \<Rightarrow> int \<Rightarrow> bool option \<Rightarrow> host_gpio \<Rightarrow> wink_status_t \<times> bool option \<times> host_gpio"
where
  "pal_gpio_read call_hook pin out_level h =
    (if out_level = None then (WINK_ERR_INVALID_ARG, None, h)
     else if pin_bad pin then (WINK_ERR_INVALID_ARG, Some False, h)
     else if \<not> pal_resource_is_claimed PAL_RESOURCE_GPIO_PIN (word_of_int pin) (hg_claims h)
     then (WINK_ERR_INVALID_STATE, Some False, h)
     else case host_gpio_read_debounced (word_of_int pin) h of
            (Some level, h) \<Rightarrow> (WINK_OK, Some level, h)
          | (None, h) \<Rightarrow>
            if pin \<noteq> sint (hg_echo_pin h)
            then if hg_mode_known h ! nat pin
                 then if hg_mode h ! nat pin = PAL_GPIO_INPUT then (WINK_ERR_DISCONNECTED, Some False, h)
                      else (WINK_OK, Some (pal_gpio_mode_idle_level (hg_mode h ! nat pin)), h)
                 else (WINK_OK, Some False, h)
            else let (level, h) = read_echo call_hook h in (WINK_OK, Some level, h))"

section \<open>Loopbacks and pulse capture\<close>

definition loopback_is :: "int \<Rightarrow> int \<Rightarrow> host_loopback \<Rightarrow> bool" where
  "loopback_is pin_out pin_in l \<longleftrightarrow> lb_active l \<and> lb_pin_out l = pin_out \<and> lb_pin_in l = pin_in"

definition pal_test_enable_hardware_loopback :: "int \<Rightarrow> int \<Rightarrow> host_gpio \<Rightarrow> wink_status_t \<times> host_gpio" where
  "pal_test_enable_hardware_loopback pin_out pin_in h =
    (if pin_bad pin_out \<or> pin_bad pin_in then (WINK_ERR_INVALID_ARG, h)
     else if first_slot (loopback_is pin_out pin_in) (hg_loopbacks h) \<noteq> None then (WINK_OK, h)
     else case first_slot (\<lambda>l. \<not> lb_active l) (hg_loopbacks h) of
            None \<Rightarrow> (WINK_ERR_RESOURCE_EXHAUSTED, h)
          | Some i \<Rightarrow> (WINK_OK, h\<lparr> hg_loopbacks := (hg_loopbacks h)[i :=
                         \<lparr> lb_pin_out = pin_out, lb_pin_in = pin_in, lb_active = True \<rparr>] \<rparr>))"

definition pal_test_disable_hardware_loopback :: "int \<Rightarrow> int \<Rightarrow> host_gpio \<Rightarrow> wink_status_t \<times> host_gpio" where
  "pal_test_disable_hardware_loopback pin_out pin_in h =
    (if pin_bad pin_out \<or> pin_bad pin_in then (WINK_ERR_INVALID_ARG, h)
     else case first_slot (loopback_is pin_out pin_in) (hg_loopbacks h) of
            None \<Rightarrow> (WINK_OK, h)
          | Some i \<Rightarrow> (WINK_OK, h\<lparr> hg_loopbacks :=
              (hg_loopbacks h)[i := (hg_loopbacks h ! i)\<lparr> lb_active := False \<rparr>] \<rparr>))"

definition pal_rmt_pulse_capture_init :: "int \<Rightarrow> host_gpio \<Rightarrow> wink_status_t \<times> host_gpio" where
  "pal_rmt_pulse_capture_init pin h =
    (if pin_bad pin then (WINK_ERR_INVALID_ARG, h)
     else (WINK_OK, h\<lparr> hg_rmt := \<lparr> rm_pin = pin, rm_armed = False, rm_last_rise_us = 0,
                                 rm_last_pulse_us = 0 \<rparr> \<rparr>))"

definition pal_rmt_pulse_capture_arm :: "host_gpio \<Rightarrow> wink_status_t \<times> host_gpio" where
  "pal_rmt_pulse_capture_arm h =
    (if rm_pin (hg_rmt h) < 0 then (WINK_ERR_INVALID_ARG, h)
     else (WINK_OK, h\<lparr> hg_rmt := (hg_rmt h)\<lparr> rm_last_rise_us := 0, rm_last_pulse_us := 0,
                                             rm_armed := True \<rparr> \<rparr>))"

text \<open>\<open>pulse_in\<close> stands for \<^verbatim>\<open>pal_gpio_pulse_in\<close>, whose loopback case computes in floating point.\<close>

definition pal_rmt_pulse_capture_wait_armed ::
  "(int \<Rightarrow> u32 \<Rightarrow> host_gpio \<Rightarrow> wink_status_t \<times> u32) \<Rightarrow> u32 \<Rightarrow> u32 option \<Rightarrow> host_gpio
    \<Rightarrow> wink_status_t \<times> u32 option \<times> host_gpio" where
  "pal_rmt_pulse_capture_wait_armed pulse_in timeout_us pulse_us_out h =
    (let m = hg_rmt h
     in if pulse_us_out = None then (WINK_ERR_INVALID_ARG, None, h)
        else if rm_pin m < 0 then (WINK_ERR_INVALID_STATE, pulse_us_out, h)
        else if rm_armed m \<and> rm_last_pulse_us m > 0
        then let p = rm_last_pulse_us m;
                 h = h\<lparr> hg_rmt := m\<lparr> rm_armed := False, rm_last_pulse_us := 0, rm_last_rise_us := 0 \<rparr> \<rparr>
             in if p \<ge> timeout_us then (WINK_ERR_TIMEOUT, Some 0, h) else (WINK_OK, Some p, h)
        else let h = h\<lparr> hg_rmt := m\<lparr> rm_armed := False \<rparr> \<rparr>;
                 (st, p) = pulse_in (rm_pin m) timeout_us h
             in if st = WINK_ERR_UNSUPPORTED then (WINK_ERR_TIMEOUT, Some p, h) else (st, Some p, h))"

definition pal_rmt_pulse_capture_wait ::
  "(int \<Rightarrow> u32 \<Rightarrow> host_gpio \<Rightarrow> wink_status_t \<times> u32) \<Rightarrow> u32 \<Rightarrow> u32 option \<Rightarrow> host_gpio
    \<Rightarrow> wink_status_t \<times> u32 option \<times> host_gpio" where
  "pal_rmt_pulse_capture_wait pulse_in timeout_us pulse_us_out h =
    (if pulse_us_out = None then (WINK_ERR_INVALID_ARG, None, h)
     else if rm_pin (hg_rmt h) < 0 then (WINK_ERR_INVALID_STATE, pulse_us_out, h)
     else let (s, h) = pal_rmt_pulse_capture_arm h
          in if wink_status_is_error s then (s, Some 0, h)
             else pal_rmt_pulse_capture_wait_armed pulse_in timeout_us (Some 0) h)"

definition pal_rmt_pulse_capture_deinit :: "host_gpio \<Rightarrow> host_gpio" where
  "pal_rmt_pulse_capture_deinit h =
    h\<lparr> hg_rmt := \<lparr> rm_pin = -1, rm_armed = False, rm_last_rise_us = 0, rm_last_pulse_us = 0 \<rparr> \<rparr>"

definition pal_rmt_pulse_capture_is_active :: "host_gpio \<Rightarrow> bool" where
  "pal_rmt_pulse_capture_is_active h \<longleftrightarrow> rm_pin (hg_rmt h) \<ge> 0"

section \<open>What the operations leave alone\<close>

definition gpio_ok :: "host_gpio \<Rightarrow> bool" where
  "gpio_ok h \<longleftrightarrow> res_inv (hg_claims h) \<and> length (hg_mode h) = 50 \<and> length (hg_mode_known h) = 50
    \<and> length (hg_out_level h) = 50 \<and> length (hg_out_known h) = 50"

text \<open>The level an output pin was last driven to.\<close>

definition pin_level :: "host_gpio \<Rightarrow> int \<Rightarrow> bool option" where
  "pin_level h pin = (if \<not> pin_bad pin \<and> hg_out_known h ! nat pin then Some (hg_out_level h ! nat pin) else None)"

definition gpio_key :: "int \<Rightarrow> resource_key" where
  "gpio_key pin = (PAL_RESOURCE_GPIO_PIN, word_of_int pin)"

definition same_pins :: "host_gpio \<Rightarrow> host_gpio \<Rightarrow> bool" where
  "same_pins h h' \<longleftrightarrow> hg_claims h' = hg_claims h \<and> hg_mode h' = hg_mode h \<and> hg_mode_known h' = hg_mode_known h
    \<and> hg_out_level h' = hg_out_level h \<and> hg_out_known h' = hg_out_known h \<and> hg_time_us h' = hg_time_us h"

lemma same_pins_loopback: "same_pins h (drive_loopback pin level i h)"
  by (auto simp: drive_loopback_def sim_set_gpio_ideal_def host_rmt_note_edge_def Let_def same_pins_def
      split: option.split)

lemma same_pins_loopbacks: "same_pins h (fold (drive_loopback pin level) is h)"
proof (induction "is" arbitrary: h)
  case (Cons i "is")
  show ?case using Cons [of "drive_loopback pin level i h"] same_pins_loopback [of h pin level i]
    by (simp add: same_pins_def)
qed (simp add: same_pins_def)

lemma pin_good_nat: "\<not> pin_bad p \<Longrightarrow> nat p < 50"
  by (auto simp: pin_bad_def HOST_MAX_GPIO_PIN_def)

lemma pin_good_inj: "\<not> pin_bad p \<Longrightarrow> \<not> pin_bad q \<Longrightarrow> nat p = nat q \<longleftrightarrow> p = q"
  by (auto simp: pin_bad_def)

lemma pin_word:
  assumes "\<not> pin_bad p"
  shows "unat (word_of_int p :: u32) = nat p"
proof -
  have p: "0 \<le> p" "nat p < 50" using assms pin_good_nat by (auto simp: pin_bad_def)
  then have "(word_of_int p :: u32) = of_nat (nat p)" by simp
  moreover have "unat (of_nat (nat p) :: u32) = nat p" using p(2) by (simp add: unat_of_nat)
  ultimately show ?thesis by (rule ssubst)
qed

lemma gpio_key_valid: "\<not> pin_bad p \<Longrightarrow> res_valid (gpio_key p)"
  using pin_word [of p] pin_good_nat [of p]
  by (simp add: res_valid_def gpio_key_def id_invalid_def word_le_nat_alt PAL_RESOURCE_UNLIMITED_MAX_def)

lemma gpio_key_inj: "\<not> pin_bad p \<Longrightarrow> \<not> pin_bad q \<Longrightarrow> gpio_key p = gpio_key q \<longleftrightarrow> p = q"
  using pin_word [of p] pin_word [of q] by (auto simp: gpio_key_def pin_bad_def)

lemma write_pin:
  assumes "gpio_ok h" "\<not> pin_bad pin" "claims (hg_claims h) (gpio_key pin) \<noteq> None"
  shows "\<exists>h'. pal_gpio_write pin level h = (WINK_OK, h') \<and> gpio_ok h' \<and> hg_claims h' = hg_claims h
    \<and> hg_time_us h' = hg_time_us h \<and> pin_level h' = (pin_level h)(pin \<mapsto> level)"
proof -
  let ?h = "h\<lparr> hg_out_level := (hg_out_level h)[nat pin := level],
    hg_out_known := (hg_out_known h)[nat pin := True] \<rparr>"
  let ?h' = "fold (drive_loopback pin level) [0 ..< HOST_MAX_LOOPBACKS] ?h"
  have same: "same_pins ?h ?h'" by (rule same_pins_loopbacks)
  have "pal_resource_is_claimed PAL_RESOURCE_GPIO_PIN (word_of_int pin) (hg_claims h)"
    using assms(3) by (simp add: pal_resource_is_claimed_def claim_slot_None gpio_key_def)
  then have w: "pal_gpio_write pin level h = (WINK_OK, ?h')"
    using assms(2) by (simp add: pal_gpio_write_def Let_def)
  have "pin_level ?h' q = ((pin_level h)(pin \<mapsto> level)) q" for q
  proof (cases "q = pin")
    case True
    then show ?thesis using same assms(1,2) pin_good_nat [of pin]
      by (simp add: pin_level_def same_pins_def gpio_ok_def)
  next
    case False
    then have "\<not> pin_bad q \<Longrightarrow> nat q \<noteq> nat pin" using assms(2) pin_good_inj by blast
    with False same show ?thesis by (cases "pin_bad q") (simp_all add: pin_level_def same_pins_def)
  qed
  then have "pin_level ?h' = (pin_level h)(pin \<mapsto> level)" by (rule ext)
  moreover have "gpio_ok ?h'" "hg_claims ?h' = hg_claims h" "hg_time_us ?h' = hg_time_us h"
    using same assms(1) by (auto simp: same_pins_def gpio_ok_def)
  ultimately show ?thesis using w by blast
qed

lemma write_pin_unclaimed:
  assumes "pin_bad pin \<or> claims (hg_claims h) (gpio_key pin) = None"
  shows "pal_gpio_write pin level h = (if pin_bad pin then WINK_ERR_INVALID_ARG else WINK_ERR_INVALID_STATE, h)"
  using assms by (auto simp: pal_gpio_write_def pal_resource_is_claimed_def claim_slot_None gpio_key_def)

lemma init_pin:
  assumes "gpio_ok h" "claims (hg_claims h) (gpio_key pin) \<noteq> None"
  shows "\<exists>h'. pal_gpio_init pin mode h = (WINK_OK, h') \<and> gpio_ok h' \<and> hg_claims h' = hg_claims h
    \<and> hg_time_us h' = hg_time_us h \<and> pin_level h' = pin_level h"
proof -
  have "snd (pal_resource_claim PAL_RESOURCE_GPIO_PIN (word_of_int pin) (Some ''pal_gpio'') (hg_claims h))
      = hg_claims h" if "\<not> pin_bad pin"
  proof -
    have inv: "res_inv (hg_claims h)" using assms(1) by (simp add: gpio_ok_def)
    obtain ow where "claims (hg_claims h) (gpio_key pin) = Some ow" using assms(2) by auto
    from rct.claim_held [OF inv gpio_key_valid [OF that] this, of "''pal_gpio''"] show ?thesis
      by (simp add: res_claim_def gpio_key_def)
  qed
  then show ?thesis using assms(1)
    by (auto simp: pal_gpio_init_def claim_gpio_def Let_def gpio_ok_def pin_level_def fun_eq_iff)
qed

lemma reset_pin:
  assumes "gpio_ok h" "claims (hg_claims h) (gpio_key pin) \<noteq> Some ''pal_gpio''" "\<not> pin_bad pin"
  shows "gpio_ok (pal_gpio_reset_pin pin h)" "hg_claims (pal_gpio_reset_pin pin h) = hg_claims h"
    "hg_time_us (pal_gpio_reset_pin pin h) = hg_time_us h"
    "pin_level (pal_gpio_reset_pin pin h) = (pin_level h)(pin := None)"
proof -
  let ?h = "pal_gpio_reset_pin pin h"
  have inv: "res_inv (hg_claims h)" using assms(1) by (simp add: gpio_ok_def)
  have keep: "snd (pal_resource_release PAL_RESOURCE_GPIO_PIN (word_of_int pin) (Some ''pal_gpio'') (hg_claims h))
      = hg_claims h"
    using rct.release_not_own [OF inv, of "gpio_key pin" "''pal_gpio''"] assms(2)
    by (simp add: res_release_def gpio_key_def)
  then show "gpio_ok ?h" "hg_claims ?h = hg_claims h" "hg_time_us ?h = hg_time_us h"
    using assms(1) by (auto simp: pal_gpio_reset_pin_def pal_gpio_deinit_def gpio_ok_def)
  have "pin_level ?h q = ((pin_level h)(pin := None)) q" for q
  proof (cases "q = pin")
    case True
    then show ?thesis using assms(1,3) pin_good_nat [of pin]
      by (simp add: pin_level_def pal_gpio_reset_pin_def pal_gpio_deinit_def gpio_ok_def)
  next
    case False
    then have "\<not> pin_bad q \<Longrightarrow> nat q \<noteq> nat pin" using assms(3) pin_good_inj by blast
    with False show ?thesis
      by (cases "pin_bad q") (simp_all add: pin_level_def pal_gpio_reset_pin_def pal_gpio_deinit_def)
  qed
  then show "pin_level ?h = (pin_level h)(pin := None)" by (rule ext)
qed

end
