(* ===== verification/Host_Irq.thy ===== *)
theory Host_Irq
  imports Sim_Scheduler Host_Gpio
begin

text \<open>
  The interrupt controller of the host simulation, in \<^verbatim>\<open>targets/host/pal_hal_gpio_host.c\<close>: the
  GPIO handlers with their stack of deferred interrupts, the logical interrupts with their ring of
  pending numbers, and the nesting interrupt lock. Handlers are numbered; what a handler does is a
  parameter that may call anything, so it takes and returns the whole state, whose extension
  \<open>more\<close> is the program around the controller, and \<open>None\<close> means that it does not return.
\<close>

section \<open>Data\<close>

datatype pal_irq_prio_t = PAL_IRQ_PRIO_LOW | PAL_IRQ_PRIO_NORMAL | PAL_IRQ_PRIO_HIGH | PAL_IRQ_PRIO_COUNT

primrec irq_prio_code :: "pal_irq_prio_t \<Rightarrow> int" where
  "irq_prio_code PAL_IRQ_PRIO_LOW = 1"
| "irq_prio_code PAL_IRQ_PRIO_NORMAL = 2"
| "irq_prio_code PAL_IRQ_PRIO_HIGH = 3"
| "irq_prio_code PAL_IRQ_PRIO_COUNT = 4"

record host_irq =
  hi_gpio_isr :: "nat option list"
  hi_gpio_arg :: "nat option list"
  hi_gpio_calls :: "u32 list"
  hi_service_init :: bool
  hi_service_prio :: pal_irq_prio_t
  hi_pending :: "u32 list"
  hi_pending_count :: nat
  hi_depth :: int
  hi_table :: "nat option list"
  hi_arg :: "nat option list"
  hi_calls :: "u32 list"
  hi_queue :: "u32 list"
  hi_head :: nat
  hi_count :: nat
  hi_overflow :: u32
  hi_in_isr :: bool
  hi_time_us :: u64
  hi_sched :: sim_sched

definition HOST_MAX_PENDING :: nat where "HOST_MAX_PENDING = 64"
definition HOST_MAX_IRQ :: nat where "HOST_MAX_IRQ = 32"
definition HOST_MAX_PENDING_IRQ :: nat where "HOST_MAX_PENDING_IRQ = 64"

type_synonym 'a isr = "nat \<Rightarrow> nat option \<Rightarrow> 'a host_irq_scheme \<Rightarrow> 'a host_irq_scheme option"

section \<open>GPIO interrupts\<close>

definition run_gpio_isr :: "'a isr \<Rightarrow> nat \<Rightarrow> 'a host_irq_scheme \<Rightarrow> 'a host_irq_scheme option" where
  "run_gpio_isr isr pin h =
    (let h = h\<lparr> hi_gpio_calls := (hi_gpio_calls h)[pin := hi_gpio_calls h ! pin + 1], hi_in_isr := True \<rparr>
     in map_option (\<lambda>h. h\<lparr> hi_in_isr := False \<rparr>) (isr (the (hi_gpio_isr h ! pin)) (hi_gpio_arg h ! pin) h))"

partial_function (option) flush_pending_interrupts ::
  "'a isr \<Rightarrow> 'a host_irq_scheme \<Rightarrow> 'a host_irq_scheme option" where
  "flush_pending_interrupts isr h =
    (if hi_pending_count h > 0
     then let n = hi_pending_count h - 1;
              pin = unat (hi_pending h ! n);
              h = h\<lparr> hi_pending_count := n \<rparr>
          in Option.bind (if pin < nat HOST_MAX_GPIO_PIN \<and> hi_gpio_isr h ! pin \<noteq> None then run_gpio_isr isr pin h else Some h)
               (flush_pending_interrupts isr)
     else Some h)"

definition pal_gpio_enable_interrupt_ex ::
  "int \<Rightarrow> pal_irq_prio_t \<Rightarrow> nat option \<Rightarrow> nat option \<Rightarrow> 'a host_irq_scheme \<Rightarrow> wink_status_t \<times> 'a host_irq_scheme"
where
  "pal_gpio_enable_interrupt_ex pin prio callback arg h =
    (if pin_bad pin then (WINK_ERR_INVALID_ARG, h)
     else if callback = None then (WINK_ERR_INVALID_ARG, h)
     else if hi_service_init h \<and> prio \<noteq> hi_service_prio h then (WINK_ERR_INVALID_ARG, h)
     else let h = (if hi_service_init h then h else h\<lparr> hi_service_prio := prio, hi_service_init := True \<rparr>)
          in (WINK_OK, h\<lparr> hi_gpio_isr := (hi_gpio_isr h)[nat pin := callback],
                          hi_gpio_arg := (hi_gpio_arg h)[nat pin := arg] \<rparr>))"

definition pal_gpio_disable_interrupt :: "int \<Rightarrow> 'a host_irq_scheme \<Rightarrow> wink_status_t \<times> 'a host_irq_scheme" where
  "pal_gpio_disable_interrupt pin h =
    (if pin_bad pin then (WINK_ERR_INVALID_ARG, h)
     else (WINK_OK, h\<lparr> hi_gpio_isr := (hi_gpio_isr h)[nat pin := None],
                      hi_gpio_arg := (hi_gpio_arg h)[nat pin := None] \<rparr>))"

definition pal_gpio_synchronize_interrupt :: "int \<Rightarrow> wink_status_t" where
  "pal_gpio_synchronize_interrupt pin = (if pin_bad pin then WINK_ERR_INVALID_ARG else WINK_OK)"

definition pal_host_trigger_gpio_interrupt ::
  "'a isr \<Rightarrow> int \<Rightarrow> 'a host_irq_scheme \<Rightarrow> 'a host_irq_scheme option" where
  "pal_host_trigger_gpio_interrupt isr pin h =
    (if pin_bad pin then Some h
     else if hi_gpio_isr h ! nat pin = None then Some h
     else if hi_depth h > 0
     then if hi_pending_count h < HOST_MAX_PENDING
          then Some (h\<lparr> hi_pending := (hi_pending h)[hi_pending_count h := word_of_int pin],
                       hi_pending_count := hi_pending_count h + 1 \<rparr>)
          else Some h
     else run_gpio_isr isr (nat pin) h)"

definition pal_host_get_gpio_isr_count :: "int \<Rightarrow> 'a host_irq_scheme \<Rightarrow> u32" where
  "pal_host_get_gpio_isr_count pin h = (if pin_bad pin then 0 else hi_gpio_calls h ! nat pin)"

definition pal_host_reset_gpio_isr_count :: "int \<Rightarrow> 'a host_irq_scheme \<Rightarrow> 'a host_irq_scheme" where
  "pal_host_reset_gpio_isr_count pin h =
    (if pin_bad pin then h else h\<lparr> hi_gpio_calls := (hi_gpio_calls h)[nat pin := 0] \<rparr>)"

section \<open>Logical interrupts\<close>

definition host_sw_enqueue :: "u32 \<Rightarrow> 'a host_irq_scheme \<Rightarrow> 'a host_irq_scheme" where
  "host_sw_enqueue irq_num h =
    (let h = (if hi_count h \<ge> HOST_MAX_PENDING_IRQ
              then h\<lparr> hi_head := (hi_head h + 1) mod HOST_MAX_PENDING_IRQ, hi_count := hi_count h - 1,
                      hi_overflow := hi_overflow h + 1 \<rparr>
              else h);
         tail = (hi_head h + hi_count h) mod HOST_MAX_PENDING_IRQ
     in h\<lparr> hi_queue := (hi_queue h)[tail := irq_num], hi_count := hi_count h + 1 \<rparr>)"

definition host_sw_dequeue :: "'a host_irq_scheme \<Rightarrow> u32 option \<times> 'a host_irq_scheme" where
  "host_sw_dequeue h =
    (if hi_count h = 0 then (None, h)
     else (Some (hi_queue h ! hi_head h),
           h\<lparr> hi_head := (hi_head h + 1) mod HOST_MAX_PENDING_IRQ, hi_count := hi_count h - 1 \<rparr>))"

definition irq_registered :: "u32 \<Rightarrow> 'a host_irq_scheme \<Rightarrow> bool" where
  "irq_registered irq_num h \<longleftrightarrow> unat irq_num < HOST_MAX_IRQ \<and> hi_table h ! unat irq_num \<noteq> None"

definition pal_irq_set_pending :: "u32 \<Rightarrow> 'a host_irq_scheme \<Rightarrow> 'a host_irq_scheme" where
  "pal_irq_set_pending irq_num h = (if irq_registered irq_num h then host_sw_enqueue irq_num h else h)"

definition pal_irq_clear_pending :: "u32 \<Rightarrow> 'a host_irq_scheme \<Rightarrow> 'a host_irq_scheme" where
  "pal_irq_clear_pending irq_num h = h"

definition run_irq :: "'a isr \<Rightarrow> u32 \<Rightarrow> 'a host_irq_scheme \<Rightarrow> 'a host_irq_scheme option" where
  "run_irq isr irq_num h =
    (let i = unat irq_num;
         h = h\<lparr> hi_in_isr := True, hi_calls := (hi_calls h)[i := hi_calls h ! i + 1],
                hi_sched := sim_scheduler_trace_record (hi_time_us h) (hi_time_us h) 0 irq_num
                  WINK_SIM_WAKE_IRQ WINK_SIM_TRACE_EVENT_IRQ_DISPATCH (hi_sched h) \<rparr>
     in map_option (\<lambda>h. h\<lparr> hi_in_isr := False \<rparr>) (isr (the (hi_table h ! i)) (hi_arg h ! i) h))"

partial_function (option) dispatch_loop ::
  "'a isr \<Rightarrow> i32 \<Rightarrow> 'a host_irq_scheme \<Rightarrow> (i32 \<times> 'a host_irq_scheme) option" where
  "dispatch_loop isr count h =
    (case host_sw_dequeue h of
       (None, h) \<Rightarrow> Some (count, h)
     | (Some irq_num, h) \<Rightarrow>
         if irq_registered irq_num h then Option.bind (run_irq isr irq_num h) (dispatch_loop isr (count + 1))
         else dispatch_loop isr count h)"

definition pal_host_dispatch_pending_interrupts ::
  "'a isr \<Rightarrow> 'a host_irq_scheme \<Rightarrow> (i32 \<times> 'a host_irq_scheme) option" where
  "pal_host_dispatch_pending_interrupts isr h =
    (if hi_depth h > 0 then Some (-1, h) else dispatch_loop isr 0 h)"

definition pal_irq_enable ::
  "u32 \<Rightarrow> int \<Rightarrow> nat option \<Rightarrow> nat option \<Rightarrow> 'a host_irq_scheme \<Rightarrow> wink_status_t \<times> 'a host_irq_scheme" where
  "pal_irq_enable irq_num prio handler arg h =
    (if unat irq_num \<ge> HOST_MAX_IRQ \<or> handler = None \<or> prio < irq_prio_code PAL_IRQ_PRIO_LOW
        \<or> prio > irq_prio_code PAL_IRQ_PRIO_HIGH
     then (WINK_ERR_INVALID_ARG, h)
     else (WINK_OK, h\<lparr> hi_table := (hi_table h)[unat irq_num := handler],
                      hi_arg := (hi_arg h)[unat irq_num := arg] \<rparr>))"

definition pal_irq_disable :: "u32 \<Rightarrow> 'a host_irq_scheme \<Rightarrow> wink_status_t \<times> 'a host_irq_scheme" where
  "pal_irq_disable irq_num h =
    (if unat irq_num \<ge> HOST_MAX_IRQ then (WINK_ERR_INVALID_ARG, h)
     else (WINK_OK, h\<lparr> hi_table := (hi_table h)[unat irq_num := None],
                      hi_arg := (hi_arg h)[unat irq_num := None] \<rparr>))"

definition pal_host_trigger_logical_interrupt ::
  "'a isr \<Rightarrow> u32 \<Rightarrow> 'a host_irq_scheme \<Rightarrow> 'a host_irq_scheme option" where
  "pal_host_trigger_logical_interrupt isr irq_num h =
    (if irq_registered irq_num h
     then let i = unat irq_num;
              h = h\<lparr> hi_calls := (hi_calls h)[i := hi_calls h ! i + 1], hi_in_isr := True \<rparr>
          in map_option (\<lambda>h. h\<lparr> hi_in_isr := False \<rparr>) (isr (the (hi_table h ! i)) (hi_arg h ! i) h)
     else Some h)"

definition pal_host_get_logical_isr_call_count :: "u32 \<Rightarrow> 'a host_irq_scheme \<Rightarrow> u32" where
  "pal_host_get_logical_isr_call_count irq_num h =
    (if unat irq_num \<ge> HOST_MAX_IRQ then 0 else hi_calls h ! unat irq_num)"

section \<open>The interrupt lock\<close>

definition pal_irq_save :: "'a host_irq_scheme \<Rightarrow> u32 \<times> 'a host_irq_scheme" where
  "pal_irq_save h = (word_of_int (hi_depth h), h\<lparr> hi_depth := hi_depth h + 1 \<rparr>)"

definition pal_irq_save_rtos_safe :: "'a host_irq_scheme \<Rightarrow> u32 \<times> 'a host_irq_scheme" where
  "pal_irq_save_rtos_safe h = pal_irq_save h"

definition pal_irq_restore :: "'a isr \<Rightarrow> u32 \<Rightarrow> 'a host_irq_scheme \<Rightarrow> 'a host_irq_scheme option" where
  "pal_irq_restore isr saved h =
    (if hi_depth h \<le> 0 then Some h
     else let h = h\<lparr> hi_depth := hi_depth h - 1 \<rparr>
          in if hi_depth h = 0 \<and> saved = 0
             then Option.bind (flush_pending_interrupts isr h)
                    (\<lambda>h. map_option snd (pal_host_dispatch_pending_interrupts isr h))
             else Some h)"

definition pal_host_reset_all_gpio_interrupts :: "'a host_irq_scheme \<Rightarrow> 'a host_irq_scheme" where
  "pal_host_reset_all_gpio_interrupts h =
    h\<lparr> hi_gpio_calls := replicate (nat HOST_MAX_GPIO_PIN) 0, hi_calls := replicate HOST_MAX_IRQ 0,
       hi_table := replicate HOST_MAX_IRQ None, hi_arg := replicate HOST_MAX_IRQ None,
       hi_queue := replicate HOST_MAX_PENDING_IRQ 0, hi_head := 0, hi_count := 0, hi_overflow := 0,
       hi_pending_count := 0, hi_depth := 0, hi_service_init := False,
       hi_service_prio := PAL_IRQ_PRIO_NORMAL,
       hi_gpio_isr := replicate (nat HOST_MAX_GPIO_PIN) None, hi_gpio_arg := replicate (nat HOST_MAX_GPIO_PIN) None \<rparr>"

definition pal_host_reset_isr_stats :: "'a host_irq_scheme \<Rightarrow> 'a host_irq_scheme" where
  "pal_host_reset_isr_stats h = (pal_host_reset_all_gpio_interrupts h)
     \<lparr> hi_service_init := False, hi_service_prio := PAL_IRQ_PRIO_NORMAL \<rparr>"

section \<open>The ring of pending numbers\<close>

definition irq_ok :: "'a host_irq_scheme \<Rightarrow> bool" where
  "irq_ok h \<longleftrightarrow> length (hi_queue h) = 64 \<and> hi_head h < 64 \<and> hi_count h \<le> 64
    \<and> length (hi_pending h) = 64 \<and> hi_pending_count h \<le> 64"

text \<open>The pending logical interrupts, oldest first, and the deferred GPIO interrupts, latest first.\<close>

definition irq_view :: "'a host_irq_scheme \<Rightarrow> u32 list" where
  "irq_view h = ring_read (hi_queue h) (hi_head h) (hi_count h)"

definition gpio_view :: "'a host_irq_scheme \<Rightarrow> u32 list" where
  "gpio_view h = rev (take (hi_pending_count h) (hi_pending h))"

lemma length_irq_view [simp]: "length (irq_view h) = hi_count h"
  by (simp add: irq_view_def)

lemma enqueue_view:
  assumes "irq_ok h"
  shows "irq_ok (host_sw_enqueue n h)"
    and "irq_view (host_sw_enqueue n h) = (if length (irq_view h) = 64 then tl (irq_view h) else irq_view h) @ [n]"
proof -
  show "irq_ok (host_sw_enqueue n h)"
    using assms by (auto simp: irq_ok_def host_sw_enqueue_def HOST_MAX_PENDING_IRQ_def Let_def)
  show "irq_view (host_sw_enqueue n h) = (if length (irq_view h) = 64 then tl (irq_view h) else irq_view h) @ [n]"
  proof (cases "hi_count h = 64")
    case False
    then have "hi_count h < 64" using assms by (simp add: irq_ok_def)
    then show ?thesis using assms ring_read_push [of "hi_count h" "hi_queue h" "hi_head h" n]
      by (simp add: irq_view_def host_sw_enqueue_def HOST_MAX_PENDING_IRQ_def irq_ok_def)
  next
    case True
    let ?q = "hi_queue h" and ?t = "hi_head h"
    have l: "length ?q = 64" using assms by (simp add: irq_ok_def)
    have idx: "(Suc ?t mod 64 + 63) mod 64 = (64 + ?t) mod length ?q"
      using mod_add_left_eq [of "Suc ?t" 64 63] l by simp
    have full: "tl (ring_read ?q ?t 64) = ring_read ?q (Suc ?t) 63"
      using ring_read_Suc [of ?q ?t 63] by simp
    have "irq_view (host_sw_enqueue n h)
        = ring_read (?q[(Suc ?t + 63) mod length ?q := n]) ((?t + 1) mod 64) (Suc 63)"
      using True by (simp add: irq_view_def host_sw_enqueue_def HOST_MAX_PENDING_IRQ_def idx)
    also have "\<dots> = ring_read (?q[(Suc ?t + 63) mod length ?q := n]) (Suc ?t) (Suc 63)"
      by (rule ring_read_mod) (simp add: l)
    also have "\<dots> = ring_read ?q (Suc ?t) 63 @ [n]" by (rule ring_read_push) (simp add: l)
    finally show ?thesis using True full by (simp add: irq_view_def)
  qed
qed

lemma dequeue_view:
  assumes "irq_ok h"
  shows "case irq_view h of
      [] \<Rightarrow> host_sw_dequeue h = (None, h)
    | n # ns \<Rightarrow> \<exists>a b. host_sw_dequeue h = (Some n, h\<lparr> hi_head := a, hi_count := b \<rparr>)
        \<and> irq_ok (h\<lparr> hi_head := a, hi_count := b \<rparr>) \<and> irq_view (h\<lparr> hi_head := a, hi_count := b \<rparr>) = ns"
proof (cases "hi_count h")
  case 0
  then show ?thesis by (simp add: irq_view_def host_sw_dequeue_def)
next
  case (Suc k)
  let ?h = "h\<lparr> hi_head := (hi_head h + 1) mod 64, hi_count := k \<rparr>"
  have l: "length (hi_queue h) = 64" "hi_head h < 64" using assms by (auto simp: irq_ok_def)
  have v: "irq_view h = hi_queue h ! hi_head h # ring_read (hi_queue h) (Suc (hi_head h)) k"
    using ring_read_Suc [of "hi_queue h" "hi_head h" k] l Suc by (simp add: irq_view_def)
  have "irq_view ?h = ring_read (hi_queue h) (Suc (hi_head h)) k"
    using ring_read_mod [of "Suc (hi_head h) mod 64" "hi_queue h" "Suc (hi_head h)" k] l by (simp add: irq_view_def)
  moreover have "host_sw_dequeue h = (Some (hi_queue h ! hi_head h), ?h)"
    using Suc by (simp add: host_sw_dequeue_def HOST_MAX_PENDING_IRQ_def)
  moreover have "irq_ok ?h" using assms Suc by (simp add: irq_ok_def)
  ultimately show ?thesis using v by auto
qed

section \<open>What the lock delivers\<close>

text \<open>Handlers that act on the program around the controller only.\<close>

definition act_isr :: "(nat \<Rightarrow> nat option \<Rightarrow> 'a \<Rightarrow> 'a) \<Rightarrow> 'a isr" where
  "act_isr act f a h = Some (host_irq.more_update (act f a) h)"

definition gpio_on :: "'a host_irq_scheme \<Rightarrow> u32 \<Rightarrow> bool" where
  "gpio_on h n \<longleftrightarrow> unat n < nat HOST_MAX_GPIO_PIN \<and> hi_gpio_isr h ! unat n \<noteq> None"

definition gpio_act :: "(nat \<Rightarrow> nat option \<Rightarrow> 'a \<Rightarrow> 'a) \<Rightarrow> 'a host_irq_scheme \<Rightarrow> u32 \<Rightarrow> 'a \<Rightarrow> 'a" where
  "gpio_act act h n = act (the (hi_gpio_isr h ! unat n)) (hi_gpio_arg h ! unat n)"

definition irq_act :: "(nat \<Rightarrow> nat option \<Rightarrow> 'a \<Rightarrow> 'a) \<Rightarrow> 'a host_irq_scheme \<Rightarrow> u32 \<Rightarrow> 'a \<Rightarrow> 'a" where
  "irq_act act h n = act (the (hi_table h ! unat n)) (hi_arg h ! unat n)"

definition same_handlers :: "'a host_irq_scheme \<Rightarrow> 'a host_irq_scheme \<Rightarrow> bool" where
  "same_handlers h h' \<longleftrightarrow> hi_gpio_isr h' = hi_gpio_isr h \<and> hi_gpio_arg h' = hi_gpio_arg h
    \<and> hi_table h' = hi_table h \<and> hi_arg h' = hi_arg h \<and> hi_depth h' = hi_depth h"

lemma same_handlers_trans: "same_handlers h h' \<Longrightarrow> same_handlers h' h'' \<Longrightarrow> same_handlers h h''"
  by (simp add: same_handlers_def)

lemma same_handlers_cong:
  assumes "same_handlers h h'"
  shows "gpio_on h' = gpio_on h" "gpio_act act h' = gpio_act act h" "irq_act act h' = irq_act act h"
    "irq_registered n h' = irq_registered n h" "hi_depth h' = hi_depth h"
  using assms by (simp_all add: same_handlers_def gpio_on_def gpio_act_def irq_act_def irq_registered_def fun_eq_iff)

lemma run_gpio_act:
  "\<exists>h'. run_gpio_isr (act_isr act) (unat n) h = Some h' \<and> host_irq.more h' = gpio_act act h n (host_irq.more h)
    \<and> same_handlers h h' \<and> irq_ok h' = irq_ok h \<and> gpio_view h' = gpio_view h \<and> irq_view h' = irq_view h
    \<and> hi_pending_count h' = hi_pending_count h"
  by (simp add: run_gpio_isr_def act_isr_def gpio_act_def same_handlers_def irq_ok_def gpio_view_def irq_view_def)

lemma run_irq_act:
  "\<exists>h'. run_irq (act_isr act) n h = Some h' \<and> host_irq.more h' = irq_act act h n (host_irq.more h)
    \<and> same_handlers h h' \<and> irq_ok h' = irq_ok h \<and> irq_view h' = irq_view h
    \<and> hi_pending_count h' = hi_pending_count h"
  by (simp add: run_irq_def act_isr_def irq_act_def same_handlers_def irq_ok_def irq_view_def Let_def)

lemma flush_delivers:
  assumes "irq_ok h"
  shows "\<exists>h'. flush_pending_interrupts (act_isr act) h = Some h' \<and> irq_ok h' \<and> same_handlers h h'
    \<and> hi_pending_count h' = 0 \<and> irq_view h' = irq_view h
    \<and> host_irq.more h' = fold (gpio_act act h) (filter (gpio_on h) (gpio_view h)) (host_irq.more h)"
  using assms
proof (induction "hi_pending_count h" arbitrary: h)
  case 0
  then show ?case
    by (subst flush_pending_interrupts.simps) (simp add: gpio_view_def same_handlers_def)
next
  case (Suc k)
  let ?h = "h\<lparr> hi_pending_count := k \<rparr>" and ?n = "hi_pending h ! k"
  have "k < length (hi_pending h)" using Suc.hyps(2) Suc.prems by (simp add: irq_ok_def)
  then have view: "gpio_view h = ?n # gpio_view ?h"
    by (simp add: gpio_view_def take_Suc_conv_app_nth flip: Suc.hyps(2))
  have pre: "irq_ok ?h" "same_handlers h ?h" "irq_view ?h = irq_view h"
    using Suc.hyps(2) Suc.prems by (simp_all add: irq_ok_def same_handlers_def irq_view_def)
  have "\<exists>h1. (if gpio_on h ?n then run_gpio_isr (act_isr act) (unat ?n) ?h else Some ?h) = Some h1
      \<and> irq_ok h1 \<and> same_handlers h h1 \<and> hi_pending_count h1 = k \<and> irq_view h1 = irq_view h
      \<and> gpio_view h1 = gpio_view ?h
      \<and> host_irq.more h1 = (if gpio_on h ?n then gpio_act act h ?n (host_irq.more h) else host_irq.more h)"
  proof (cases "gpio_on h ?n")
    case True
    with run_gpio_act [of act ?n ?h] pre same_handlers_cong(2) [OF pre(2), of act] show ?thesis
      by (auto simp: same_handlers_def)
  next
    case False
    with pre show ?thesis by simp
  qed
  then obtain h1 where h1: "(if gpio_on h ?n then run_gpio_isr (act_isr act) (unat ?n) ?h else Some ?h) = Some h1"
      "irq_ok h1" "same_handlers h h1" "k = hi_pending_count h1" "irq_view h1 = irq_view h"
      "gpio_view h1 = gpio_view ?h"
      "host_irq.more h1 = (if gpio_on h ?n then gpio_act act h ?n (host_irq.more h) else host_irq.more h)"
    by blast
  have step: "flush_pending_interrupts (act_isr act) h = flush_pending_interrupts (act_isr act) h1"
    using h1(1) Suc.hyps(2)
    by (subst flush_pending_interrupts.simps) (simp add: Let_def gpio_on_def flip: Suc.hyps(2))
  note cong = same_handlers_cong [OF h1(3)]
  from Suc.hyps(1) [OF h1(4) h1(2)] obtain h' where
    h': "flush_pending_interrupts (act_isr act) h1 = Some h'" "irq_ok h'" "same_handlers h1 h'"
      "hi_pending_count h' = 0" "irq_view h' = irq_view h1"
      "host_irq.more h' = fold (gpio_act act h1) (filter (gpio_on h1) (gpio_view h1)) (host_irq.more h1)" by blast
  have "host_irq.more h' = fold (gpio_act act h) (filter (gpio_on h) (gpio_view h)) (host_irq.more h)"
    unfolding h'(6) view cong h1(6,7) by simp
  with h' h1(5) step same_handlers_trans [OF h1(3) h'(3)] show ?case by (intro exI [of _ h']) simp
qed

lemma dispatch_delivers:
  assumes "irq_ok h"
  shows "\<exists>h' k. dispatch_loop (act_isr act) c h = Some (k, h') \<and> irq_ok h' \<and> same_handlers h h'
    \<and> hi_count h' = 0 \<and> hi_pending_count h' = hi_pending_count h
    \<and> host_irq.more h' = fold (irq_act act h) (filter (\<lambda>n. irq_registered n h) (irq_view h)) (host_irq.more h)"
  using assms
proof (induction "irq_view h" arbitrary: h c)
  case Nil
  then have "host_sw_dequeue h = (None, h)" "hi_count h = 0"
    using dequeue_view [of h] length_irq_view [of h] by (auto split: list.splits)
  with Nil show ?case by (subst dispatch_loop.simps) (simp add: same_handlers_def)
next
  case (Cons n ns)
  from dequeue_view [OF Cons.prems] Cons.hyps(2) [symmetric] obtain a b where
    ab: "host_sw_dequeue h = (Some n, h\<lparr> hi_head := a, hi_count := b \<rparr>)"
      "irq_ok (h\<lparr> hi_head := a, hi_count := b \<rparr>)" "irq_view (h\<lparr> hi_head := a, hi_count := b \<rparr>) = ns"
    by auto
  obtain h1 where h1: "host_sw_dequeue h = (Some n, h1)" "irq_ok h1" "ns = irq_view h1"
      "same_handlers h h1" "host_irq.more h1 = host_irq.more h" "hi_pending_count h1 = hi_pending_count h"
    using that [OF ab(1,2)] ab(3) by (simp add: same_handlers_def)
  note pre = h1(4-6)
  have "\<exists>h2 c'. dispatch_loop (act_isr act) c h = dispatch_loop (act_isr act) c' h2 \<and> irq_ok h2
      \<and> same_handlers h h2 \<and> ns = irq_view h2 \<and> hi_pending_count h2 = hi_pending_count h
      \<and> host_irq.more h2 = (if irq_registered n h then irq_act act h n (host_irq.more h) else host_irq.more h)"
  proof (cases "irq_registered n h")
    case True
    from run_irq_act [of act n h1] obtain h2 where
      h2: "run_irq (act_isr act) n h1 = Some h2" "host_irq.more h2 = irq_act act h1 n (host_irq.more h1)"
        "same_handlers h1 h2" "irq_ok h2 = irq_ok h1" "irq_view h2 = irq_view h1"
        "hi_pending_count h2 = hi_pending_count h1" by blast
    have "dispatch_loop (act_isr act) c h = dispatch_loop (act_isr act) (c + 1) h2"
      using h1(1) h2(1) True same_handlers_cong [OF pre(1)] by (subst dispatch_loop.simps) simp
    with h2 h1(2,3) pre True same_handlers_trans [OF pre(1) h2(3)] same_handlers_cong(3) [OF pre(1), of act]
    show ?thesis by (intro exI [of _ h2] exI [of _ "c + 1"]) simp
  next
    case False
    have "dispatch_loop (act_isr act) c h = dispatch_loop (act_isr act) c h1"
      using h1(1) False same_handlers_cong [OF pre(1)] by (subst dispatch_loop.simps) simp
    with h1(2,3) pre False show ?thesis by (intro exI [of _ h1] exI [of _ c]) simp
  qed
  then obtain h2 c' where h2: "dispatch_loop (act_isr act) c h = dispatch_loop (act_isr act) c' h2"
      "irq_ok h2" "same_handlers h h2" "ns = irq_view h2" "hi_pending_count h2 = hi_pending_count h"
      "host_irq.more h2 = (if irq_registered n h then irq_act act h n (host_irq.more h) else host_irq.more h)"
    by blast
  note cong = same_handlers_cong [OF h2(3)]
  from Cons.hyps(1) [OF h2(4) h2(2), of c'] obtain h' k where
    h': "dispatch_loop (act_isr act) c' h2 = Some (k, h')" "irq_ok h'" "same_handlers h2 h'"
      "hi_count h' = 0" "hi_pending_count h' = hi_pending_count h2"
      "host_irq.more h' = fold (irq_act act h2) (filter (\<lambda>n. irq_registered n h2) (irq_view h2)) (host_irq.more h2)"
    by blast
  have "host_irq.more h' = fold (irq_act act h) (filter (\<lambda>n. irq_registered n h) (irq_view h)) (host_irq.more h)"
    unfolding h'(6) cong h2(6) Cons.hyps(2) [symmetric] h2(4) by simp
  with h' h2(1,5) same_handlers_trans [OF h2(3) h'(3)] show ?case
    by (intro exI [of _ h'] exI [of _ k]) simp
qed

text \<open>What is raised inside a critical section: a GPIO edge or a logical interrupt.\<close>

primrec raise_all :: "'a isr \<Rightarrow> (int + u32) list \<Rightarrow> 'a host_irq_scheme \<Rightarrow> 'a host_irq_scheme option" where
  "raise_all isr [] h = Some h"
| "raise_all isr (e # es) h = Option.bind
     (case e of Inl pin \<Rightarrow> pal_host_trigger_gpio_interrupt isr pin h | Inr n \<Rightarrow> Some (pal_irq_set_pending n h))
     (raise_all isr es)"

fun raised_gpio :: "'a host_irq_scheme \<Rightarrow> (int + u32) list \<Rightarrow> u32 list" where
  "raised_gpio h [] = []"
| "raised_gpio h (Inl p # es) =
     (if \<not> pin_bad p \<and> hi_gpio_isr h ! nat p \<noteq> None then [word_of_int p] else []) @ raised_gpio h es"
| "raised_gpio h (Inr n # es) = raised_gpio h es"

fun raised_irq :: "'a host_irq_scheme \<Rightarrow> (int + u32) list \<Rightarrow> u32 list" where
  "raised_irq h [] = []"
| "raised_irq h (Inl p # es) = raised_irq h es"
| "raised_irq h (Inr n # es) = (if irq_registered n h then [n] else []) @ raised_irq h es"

definition latest :: "nat \<Rightarrow> 'a list \<Rightarrow> 'a list" where
  "latest n xs = drop (length xs - n) xs"

lemma latest_all: "length xs \<le> n \<Longrightarrow> latest n xs = xs"
  by (simp add: latest_def)

lemma latest_latest: "latest n (latest n xs @ ys) = latest n (xs @ ys)"
  by (cases "length xs \<le> n") (auto simp: latest_def min_def ac_simps)

lemma latest_snoc: "0 < n \<Longrightarrow> length xs \<le> n \<Longrightarrow> latest n (xs @ [x]) = (if length xs = n then tl xs else xs) @ [x]"
  by (cases xs) (auto simp: latest_def)

lemma raised_cong:
  assumes "same_handlers h h'"
  shows "raised_gpio h' es = raised_gpio h es" "raised_irq h' es = raised_irq h es"
proof -
  have g: "hi_gpio_isr h' = hi_gpio_isr h" using assms by (simp add: same_handlers_def)
  show "raised_gpio h' es = raised_gpio h es"
  proof (induction es)
    case (Cons e es) then show ?case by (cases e) (simp_all add: g)
  qed simp
  show "raised_irq h' es = raised_irq h es"
  proof (induction es)
    case (Cons e es) then show ?case by (cases e) (simp_all add: same_handlers_cong(4) [OF assms])
  qed simp
qed

lemma raised_gpio_on: "n \<in> set (raised_gpio h es) \<Longrightarrow> gpio_on h n"
proof (induction h es rule: raised_gpio.induct)
  case (2 h p es)
  have "nat p < nat HOST_MAX_GPIO_PIN" if "\<not> pin_bad p"
    using pin_good_nat [OF that] by (simp add: HOST_MAX_GPIO_PIN_def)
  with 2 pin_word [of p] show ?case by (auto simp: gpio_on_def split: if_splits)
qed simp_all

lemma raised_irq_on: "n \<in> set (raised_irq h es) \<Longrightarrow> irq_registered n h"
  by (induction h es rule: raised_irq.induct) (auto split: if_splits)

lemma defer_gpio:
  assumes "irq_ok h" "hi_depth h > 0"
  shows "\<exists>h'. pal_host_trigger_gpio_interrupt isr p h = Some h' \<and> irq_ok h' \<and> same_handlers h h'
    \<and> host_irq.more h' = host_irq.more h \<and> irq_view h' = irq_view h
    \<and> rev (gpio_view h') = take 64 (rev (gpio_view h) @ raised_gpio h [Inl p])"
proof -
  let ?n = "hi_pending_count h" and ?q = "hi_pending h"
  have len: "length ?q = 64" "?n \<le> 64" using assms(1) by (simp_all add: irq_ok_def)
  have "take (Suc ?n) (?q[?n := x]) = take ?n ?q @ [x]" if "?n < 64" for x
    using that len by (simp add: take_Suc_conv_app_nth)
  then show ?thesis using assms len
    by (auto simp: pal_host_trigger_gpio_interrupt_def irq_ok_def same_handlers_def gpio_view_def irq_view_def
        HOST_MAX_PENDING_def)
qed

lemma defer_irq:
  assumes "irq_ok h"
  shows "irq_ok (pal_irq_set_pending n h)" "same_handlers h (pal_irq_set_pending n h)"
    "host_irq.more (pal_irq_set_pending n h) = host_irq.more h" "gpio_view (pal_irq_set_pending n h) = gpio_view h"
    "irq_view (pal_irq_set_pending n h) = latest 64 (irq_view h @ raised_irq h [Inr n])"
proof -
  have l: "length (irq_view h) \<le> 64" using assms by (simp add: irq_ok_def)
  show "irq_ok (pal_irq_set_pending n h)" using assms enqueue_view(1) [OF assms, of n] by (simp add: pal_irq_set_pending_def)
  show "same_handlers h (pal_irq_set_pending n h)" "host_irq.more (pal_irq_set_pending n h) = host_irq.more h"
    "gpio_view (pal_irq_set_pending n h) = gpio_view h"
    by (simp_all add: pal_irq_set_pending_def host_sw_enqueue_def same_handlers_def gpio_view_def Let_def)
  show "irq_view (pal_irq_set_pending n h) = latest 64 (irq_view h @ raised_irq h [Inr n])"
    using enqueue_view(2) [OF assms, of n] l latest_snoc [OF _ l, of n] latest_all [OF l]
    by (simp add: pal_irq_set_pending_def del: length_irq_view)
qed

lemma raise_deferred:
  assumes "irq_ok h" "hi_depth h > 0"
  shows "\<exists>h'. raise_all isr es h = Some h' \<and> irq_ok h' \<and> same_handlers h h' \<and> host_irq.more h' = host_irq.more h
    \<and> rev (gpio_view h') = take 64 (rev (gpio_view h) @ raised_gpio h es)
    \<and> irq_view h' = latest 64 (irq_view h @ raised_irq h es)"
  using assms
proof (induction es arbitrary: h)
  case Nil
  then show ?case by (simp add: same_handlers_def irq_ok_def latest_def gpio_view_def)
next
  case (Cons e es)
  have "\<exists>h1. raise_all isr (e # es) h = raise_all isr es h1 \<and> irq_ok h1 \<and> same_handlers h h1
      \<and> host_irq.more h1 = host_irq.more h
      \<and> rev (gpio_view h1) = take 64 (rev (gpio_view h) @ raised_gpio h [e])
      \<and> irq_view h1 = latest 64 (irq_view h @ raised_irq h [e])"
  proof (cases e)
    case (Inl p)
    have "length (irq_view h) \<le> 64" using Cons.prems(1) by (simp add: irq_ok_def)
    with Inl defer_gpio [OF Cons.prems, of isr p] show ?thesis by (auto simp: latest_all)
  next
    case (Inr n)
    have "rev (gpio_view h) = take 64 (rev (gpio_view h))" using Cons.prems(1) by (simp add: gpio_view_def irq_ok_def)
    with Inr defer_irq [OF Cons.prems(1), of n] show ?thesis
      by (intro exI [of _ "pal_irq_set_pending n h"]) simp
  qed
  then obtain h1 where h1: "raise_all isr (e # es) h = raise_all isr es h1" "irq_ok h1" "same_handlers h h1"
      "host_irq.more h1 = host_irq.more h" "rev (gpio_view h1) = take 64 (rev (gpio_view h) @ raised_gpio h [e])"
      "irq_view h1 = latest 64 (irq_view h @ raised_irq h [e])" by blast
  have d: "hi_depth h1 > 0" using h1(3) Cons.prems(2) by (simp add: same_handlers_def)
  have split: "raised_gpio h [e] @ raised_gpio h es = raised_gpio h (e # es)"
      "raised_irq h [e] @ raised_irq h es = raised_irq h (e # es)" by (cases e; simp)+
  from Cons.IH [OF h1(2) d] obtain h' where h': "raise_all isr es h1 = Some h'" "irq_ok h'" "same_handlers h1 h'"
      "host_irq.more h' = host_irq.more h1" "rev (gpio_view h') = take 64 (rev (gpio_view h1) @ raised_gpio h1 es)"
      "irq_view h' = latest 64 (irq_view h1 @ raised_irq h1 es)" by blast
  have "rev (gpio_view h') = take 64 ((rev (gpio_view h) @ raised_gpio h [e]) @ raised_gpio h es)"
    unfolding h'(5) h1(5) raised_cong [OF h1(3)] by (simp add: min_def)
  moreover have "irq_view h' = latest 64 ((irq_view h @ raised_irq h [e]) @ raised_irq h es)"
    unfolding h'(6) h1(6) raised_cong [OF h1(3)] by (rule latest_latest)
  ultimately show ?case using h1(1,4) h'(1-4) same_handlers_trans [OF h1(3) h'(3)] split by simp
qed

lemma restore_delivers:
  assumes "irq_ok h" "hi_depth h = 1"
  shows "\<exists>h'. pal_irq_restore (act_isr act) 0 h = Some h' \<and> irq_ok h' \<and> hi_depth h' = 0
    \<and> hi_pending_count h' = 0 \<and> hi_count h' = 0
    \<and> host_irq.more h' = fold (irq_act act h) (filter (\<lambda>n. irq_registered n h) (irq_view h))
        (fold (gpio_act act h) (filter (gpio_on h) (gpio_view h)) (host_irq.more h))"
proof -
  let ?h = "h\<lparr> hi_depth := 0 \<rparr>"
  have pre: "irq_ok ?h" "irq_view ?h = irq_view h" "gpio_view ?h = gpio_view h" "gpio_on ?h = gpio_on h"
      "gpio_act act ?h = gpio_act act h" "irq_act act ?h = irq_act act h" "irq_registered n ?h = irq_registered n h" for n
    using assms(1) by (simp_all add: irq_ok_def irq_view_def gpio_view_def gpio_on_def gpio_act_def irq_act_def
        irq_registered_def fun_eq_iff)
  from flush_delivers [OF pre(1), of act] obtain h1 where
    h1: "flush_pending_interrupts (act_isr act) ?h = Some h1" "irq_ok h1" "same_handlers ?h h1"
      "hi_pending_count h1 = 0" "irq_view h1 = irq_view h"
      "host_irq.more h1 = fold (gpio_act act h) (filter (gpio_on h) (gpio_view h)) (host_irq.more h)"
    unfolding pre by auto
  note cong = same_handlers_cong [OF h1(3)]
  have d: "hi_depth h1 = 0" using cong(5) by simp
  from dispatch_delivers [OF h1(2), of act 0] obtain h2 k where
    h2: "dispatch_loop (act_isr act) 0 h1 = Some (k, h2)" "irq_ok h2" "same_handlers h1 h2" "hi_count h2 = 0"
      "hi_pending_count h2 = 0" "host_irq.more h2 = fold (irq_act act h)
        (filter (\<lambda>n. irq_registered n h) (irq_view h)) (host_irq.more h1)"
    unfolding cong pre h1(4,5) by auto
  have "pal_irq_restore (act_isr act) 0 h = Some h2"
    using assms(2) h1(1) h2(1) d
    by (simp add: pal_irq_restore_def pal_host_dispatch_pending_interrupts_def)
  with h1(6) h2 d same_handlers_cong(5) [OF h2(3)] show ?thesis by (intro exI [of _ h2]) simp
qed

section \<open>Properties\<close>

text \<open>C20: whatever is raised inside a critical section runs no handler before the section ends;
  the outermost restore then runs the handlers of the first 64 GPIO edges, the latest edge first,
  and after them those of the last 64 logical interrupts in the order they were raised, each
  exactly once, and leaves nothing pending.\<close>
theorem critical_section_defers_interrupts:
  assumes "irq_ok h" "hi_depth h = 0" "hi_pending_count h = 0" "hi_count h = 0"
  shows "\<exists>h'. raise_all (act_isr act) es (snd (pal_irq_save h)) = Some h'
    \<and> host_irq.more h' = host_irq.more h
    \<and> (\<exists>h''. pal_irq_restore (act_isr act) (fst (pal_irq_save h)) h' = Some h''
         \<and> hi_depth h'' = 0 \<and> hi_pending_count h'' = 0 \<and> hi_count h'' = 0
         \<and> host_irq.more h'' = fold (irq_act act h) (latest 64 (raised_irq h es))
             (fold (gpio_act act h) (rev (take 64 (raised_gpio h es))) (host_irq.more h)))"
proof -
  let ?s = "h\<lparr> hi_depth := 1 \<rparr>"
  have save: "pal_irq_save h = (0, ?s)" using assms(2) by (simp add: pal_irq_save_def)
  have s: "irq_ok ?s" "hi_depth ?s > 0" using assms(1) by (simp_all add: irq_ok_def)
  have v: "gpio_view ?s = []" "irq_view ?s = []" using assms(3,4) by (simp_all add: gpio_view_def irq_view_def)
  have acts: "gpio_act act ?s = gpio_act act h" "irq_act act ?s = irq_act act h" "gpio_on ?s = gpio_on h"
      "irq_registered n ?s = irq_registered n h" for n
    by (simp_all add: gpio_act_def irq_act_def gpio_on_def irq_registered_def fun_eq_iff)
  have r: "raised_gpio ?s es = raised_gpio h es" "raised_irq ?s es = raised_irq h es"
  proof -
    show "raised_gpio ?s es = raised_gpio h es"
    proof (induction es)
      case (Cons e es) then show ?case by (cases e) simp_all
    qed simp
    show "raised_irq ?s es = raised_irq h es"
    proof (induction es)
      case (Cons e es) then show ?case by (cases e) (simp_all add: acts)
    qed simp
  qed
  from raise_deferred [OF s, of "act_isr act" es] obtain h' where
    h': "raise_all (act_isr act) es ?s = Some h'" "irq_ok h'" "same_handlers ?s h'"
      "host_irq.more h' = host_irq.more h" "rev (gpio_view h') = take 64 (raised_gpio h es)"
      "irq_view h' = latest 64 (raised_irq h es)"
    unfolding v r by auto
  note cong = same_handlers_cong [OF h'(3)]
  have g: "gpio_view h' = rev (take 64 (raised_gpio h es))" using h'(5) by (metis rev_rev_ident)
  have fg: "filter (gpio_on h) (gpio_view h') = gpio_view h'"
    unfolding g using raised_gpio_on by (auto simp: filter_id_conv dest: in_set_takeD)
  have fi: "filter (\<lambda>n. irq_registered n h) (irq_view h') = irq_view h'"
    unfolding h'(6) latest_def using raised_irq_on by (auto simp: filter_id_conv dest: in_set_dropD)
  have "hi_depth h' = 1" using cong(5) by simp
  from restore_delivers [OF h'(2) this, of act] show ?thesis
    unfolding cong acts fg fi g [symmetric] h'(6) [symmetric] using h'(1,4) save by auto
qed

definition demo_irq :: "nat list host_irq_scheme" where
  "demo_irq = \<lparr> hi_gpio_isr = (replicate 50 None)[3 := Some 33, 5 := Some 55], hi_gpio_arg = replicate 50 None,
     hi_gpio_calls = replicate 50 0, hi_service_init = True, hi_service_prio = PAL_IRQ_PRIO_NORMAL,
     hi_pending = replicate 64 0, hi_pending_count = 0, hi_depth = 0,
     hi_table = (replicate 32 None)[1 := Some 11], hi_arg = replicate 32 None, hi_calls = replicate 32 0,
     hi_queue = replicate 64 0, hi_head = 60, hi_count = 0, hi_overflow = 0, hi_in_isr = False, hi_time_us = 7,
     hi_sched = \<lparr> ss_tasks = [], ss_task_id_counter = 0, ss_current = None, ss_prng_state = 0,
       ss_last_scheduled = None, ss_trace = [], ss_trace_sequence = 0, ss_trace_enabled = False,
       ss_main_ctx = None \<rparr>, \<dots> = [] \<rparr>"

lemma critical_section_witness:
  "\<exists>h' h''. raise_all (act_isr (\<lambda>f a log. log @ [f])) [Inl 3, Inr 1, Inl 5, Inl 4] (snd (pal_irq_save demo_irq))
      = Some h' \<and> host_irq.more h' = []
    \<and> pal_irq_restore (act_isr (\<lambda>f a log. log @ [f])) 0 h' = Some h'' \<and> host_irq.more h'' = [55, 33, 11]"
proof -
  have ok: "irq_ok demo_irq" "hi_depth demo_irq = 0" "hi_pending_count demo_irq = 0" "hi_count demo_irq = 0"
    "host_irq.more demo_irq = []" "fst (pal_irq_save demo_irq) = 0"
    by (simp_all add: demo_irq_def irq_ok_def pal_irq_save_def)
  have r: "raised_gpio demo_irq [Inl 3, Inr 1, Inl 5, Inl 4] = [3, 5]"
    "raised_irq demo_irq [Inl 3, Inr 1, Inl 5, Inl 4] = [1]"
    by (simp_all add: demo_irq_def irq_registered_def pin_bad_def HOST_MAX_GPIO_PIN_def HOST_MAX_IRQ_def)
  from critical_section_defers_interrupts [OF ok(1-4), of "\<lambda>f a log. log @ [f]" "[Inl 3, Inr 1, Inl 5, Inl 4]"]
  show ?thesis unfolding r ok(5,6)
    by (auto simp: latest_def gpio_act_def irq_act_def demo_irq_def)
qed

text \<open>Inside a nested section the inner restore runs nothing.\<close>

lemma inner_restore_runs_nothing:
  assumes "hi_depth h > 0"
  shows "pal_irq_restore isr (fst (pal_irq_save h)) (snd (pal_irq_save h)) = Some h"
  using assms by (simp add: pal_irq_restore_def pal_irq_save_def)

text \<open>The priority tier of the GPIO service is fixed by its first registration.\<close>

lemma tier_locked:
  assumes "hi_service_init h" "prio \<noteq> hi_service_prio h"
  shows "pal_gpio_enable_interrupt_ex pin prio callback arg h = (WINK_ERR_INVALID_ARG, h)"
  using assms by (simp add: pal_gpio_enable_interrupt_ex_def)

end
