(* ===== verification/Gpio_Pal.thy ===== *)
theory Gpio_Pal
  imports Host_Irq
begin

text \<open>
  The pins as a device driver sees them: the calls of \<^verbatim>\<open>pal/include/hal/pal_gpio.h\<close>,
  \<^verbatim>\<open>pal_resource.h\<close> and \<^verbatim>\<open>pal_irq.h\<close> the drivers of \<^verbatim>\<open>dal/\<close> are written against, as a record of
  operations on the state of a board, so that one model of a driver serves every port. The locale
  states what a port promises of claims and output levels; the host simulation provides it.
\<close>

section \<open>The operations\<close>

record 'w gpio_pal =
  gp_claim :: "pal_resource_type_t \<Rightarrow> u32 \<Rightarrow> string option \<Rightarrow> 'w \<Rightarrow> wink_status_t \<times> 'w"
  gp_release :: "pal_resource_type_t \<Rightarrow> u32 \<Rightarrow> string option \<Rightarrow> 'w \<Rightarrow> wink_status_t \<times> 'w"
  gp_init :: "int \<Rightarrow> pal_gpio_mode_t \<Rightarrow> 'w \<Rightarrow> wink_status_t \<times> 'w"
  gp_write :: "int \<Rightarrow> bool \<Rightarrow> 'w \<Rightarrow> wink_status_t \<times> 'w"
  gp_read :: "int \<Rightarrow> 'w \<Rightarrow> wink_status_t \<times> bool \<times> 'w"
  gp_reset :: "int \<Rightarrow> 'w \<Rightarrow> 'w"
  gp_ms :: "'w \<Rightarrow> u64"
  gp_irq_on :: "int \<Rightarrow> nat \<Rightarrow> nat \<Rightarrow> 'w \<Rightarrow> wink_status_t \<times> 'w"
  gp_irq_off :: "int \<Rightarrow> 'w \<Rightarrow> wink_status_t \<times> 'w"
  gp_irq_sync :: "int \<Rightarrow> 'w \<Rightarrow> wink_status_t"

abbreviation claim_pin :: "'w gpio_pal \<Rightarrow> int \<Rightarrow> string option \<Rightarrow> 'w \<Rightarrow> wink_status_t \<times> 'w" where
  "claim_pin pal pin ow \<equiv> gp_claim pal PAL_RESOURCE_GPIO_PIN (word_of_int pin) ow"

abbreviation release_pin :: "'w gpio_pal \<Rightarrow> int \<Rightarrow> string option \<Rightarrow> 'w \<Rightarrow> wink_status_t \<times> 'w" where
  "release_pin pal pin ow \<equiv> gp_release pal PAL_RESOURCE_GPIO_PIN (word_of_int pin) ow"

section \<open>The contract of a board\<close>

lemma pin16_claim: "0 \<le> sint (p :: u16) \<Longrightarrow> (ucast p :: u32) = word_of_int (sint p)"
proof -
  assume p: "0 \<le> sint p"
  have "take_bit LENGTH(16) (sint p) = sint p"
    by (rule take_bit_int_eq_self) (use p sint_lt [of p] in simp_all)
  then have "uint p = sint p" by (simp only: uint_sint)
  then have "word_of_int (sint p) = (word_of_int (uint p) :: u32)" by simp
  then show ?thesis by simp
qed


text \<open>\<open>held w p\<close> is the owner of pin \<open>p\<close> and \<open>level w p\<close> the level it is driven to. The owner
  \<open>reserved\<close> is the port itself, whose claim a reset gives up.\<close>

locale gpio_board =
  fixes pal :: "'w gpio_pal"
    and ok :: "'w \<Rightarrow> bool"
    and good :: "int \<Rightarrow> bool"
    and held :: "'w \<Rightarrow> int \<Rightarrow> string option"
    and level :: "'w \<Rightarrow> int \<Rightarrow> bool option"
    and room :: "'w \<Rightarrow> bool"
    and reserved :: string
  assumes good_pin: "good p \<Longrightarrow> 0 \<le> p \<and> p < 2 ^ 15"
    and claim_free: "ok w \<Longrightarrow> good p \<Longrightarrow> held w p = None \<Longrightarrow> room w \<Longrightarrow>
      \<exists>w'. claim_pin pal p (Some ow) w = (WINK_OK, w') \<and> ok w' \<and> held w' = (held w)(p := Some ow)
        \<and> level w' = level w \<and> gp_ms pal w' = gp_ms pal w"
    and claim_taken: "ok w \<Longrightarrow> good p \<Longrightarrow> held w p = Some ow' \<Longrightarrow> ow' \<noteq> ow \<Longrightarrow>
      claim_pin pal p (Some ow) w = (WINK_ERR_BUSY, w)"
    and claim_full: "ok w \<Longrightarrow> good p \<Longrightarrow> held w p = None \<Longrightarrow> \<not> room w \<Longrightarrow>
      claim_pin pal p (Some ow) w = (WINK_ERR_RESOURCE_EXHAUSTED, w)"
    and release_own: "ok w \<Longrightarrow> good p \<Longrightarrow> held w p = Some ow \<Longrightarrow>
      \<exists>w'. release_pin pal p (Some ow) w = (WINK_OK, w') \<and> ok w' \<and> held w' = (held w)(p := None)
        \<and> level w' = level w \<and> gp_ms pal w' = gp_ms pal w"
    and init_held: "ok w \<Longrightarrow> good p \<Longrightarrow> held w p \<noteq> None \<Longrightarrow>
      \<exists>w'. gp_init pal p mode w = (WINK_OK, w') \<and> ok w' \<and> held w' = held w
        \<and> level w' = level w \<and> gp_ms pal w' = gp_ms pal w"
    and write_held: "ok w \<Longrightarrow> good p \<Longrightarrow> held w p \<noteq> None \<Longrightarrow>
      \<exists>w'. gp_write pal p v w = (WINK_OK, w') \<and> ok w' \<and> held w' = held w
        \<and> level w' = (level w)(p := Some v) \<and> gp_ms pal w' = gp_ms pal w"
    and write_free: "ok w \<Longrightarrow> held w p = None \<Longrightarrow> \<exists>st. gp_write pal p v w = (st, w) \<and> st \<noteq> WINK_OK"
    and reset_held: "ok w \<Longrightarrow> good p \<Longrightarrow> held w p = Some ow \<Longrightarrow> ow \<noteq> reserved \<Longrightarrow>
      ok (gp_reset pal p w) \<and> held (gp_reset pal p w) = held w
        \<and> level (gp_reset pal p w) = (level w)(p := None) \<and> gp_ms pal (gp_reset pal p w) = gp_ms pal w"
begin

text \<open>A pin number kept in an unsigned 16-bit field reaches the claim table and the port alike.\<close>

lemma good_u16: "good (sint (p :: u16)) \<Longrightarrow> (ucast p :: u32) = word_of_int (sint p)"
  using good_pin [of "sint p"] pin16_claim [of p] by simp

text \<open>The effect of a call as equations on the state it leaves, for a pin the driver holds.\<close>

lemma write_held_simps:
  assumes "ok w" "good p" "held w p \<noteq> None"
  shows "fst (gp_write pal p v w) = WINK_OK" "ok (snd (gp_write pal p v w))"
    "held (snd (gp_write pal p v w)) = held w" "level (snd (gp_write pal p v w)) = (level w)(p := Some v)"
    "gp_ms pal (snd (gp_write pal p v w)) = gp_ms pal w"
  using write_held [OF assms, of v] by auto

lemma init_held_simps:
  assumes "ok w" "good p" "held w p \<noteq> None"
  shows "fst (gp_init pal p mode w) = WINK_OK" "ok (snd (gp_init pal p mode w))"
    "held (snd (gp_init pal p mode w)) = held w" "level (snd (gp_init pal p mode w)) = level w"
    "gp_ms pal (snd (gp_init pal p mode w)) = gp_ms pal w"
  using init_held [OF assms, of mode] by auto

lemma release_own_simps:
  assumes "ok w" "good p" "held w p = Some ow"
  shows "fst (release_pin pal p (Some ow) w) = WINK_OK" "ok (snd (release_pin pal p (Some ow) w))"
    "held (snd (release_pin pal p (Some ow) w)) = (held w)(p := None)"
    "level (snd (release_pin pal p (Some ow) w)) = level w"
    "gp_ms pal (snd (release_pin pal p (Some ow) w)) = gp_ms pal w"
  using release_own [OF assms] by auto

lemma reset_held_simps:
  assumes "ok w" "good p" "held w p = Some ow" "ow \<noteq> reserved"
  shows "ok (gp_reset pal p w)" "held (gp_reset pal p w) = held w"
    "level (gp_reset pal p w) = (level w)(p := None)" "gp_ms pal (gp_reset pal p w) = gp_ms pal w"
  using reset_held [OF assms] by auto

text \<open>A claim either takes a free pin, or is the driver's own already, or changes nothing.\<close>

lemma claim_cases:
  assumes "ok w" "good p" "held w p \<noteq> Some ow"
  obtains w' where "claim_pin pal p (Some ow) w = (WINK_OK, w')" "ok w'" "held w p = None"
      "held w' = (held w)(p := Some ow)" "level w' = level w" "gp_ms pal w' = gp_ms pal w"
    | st where "claim_pin pal p (Some ow) w = (st, w)" "st \<noteq> WINK_OK"
proof (cases "held w p")
  case None
  then show ?thesis
    using that claim_free [OF assms(1,2), of ow] claim_full [OF assms(1,2), of ow] by (cases "room w") auto
next
  case (Some ow')
  then show ?thesis using that(2) claim_taken [OF assms(1,2) Some, of ow] assms(3) by auto
qed

end

text \<open>\<open>handler w p\<close> is the handler of the edges of pin \<open>p\<close> with its argument. Registering it may be
  refused and then changes nothing; no other call touches it.\<close>

locale irq_board = gpio_board pal ok good held level room reserved
  for pal :: "'w gpio_pal" and ok good held level room reserved +
  fixes handler :: "'w \<Rightarrow> int \<Rightarrow> (nat \<times> nat) option"
  assumes irq_on: "ok w \<Longrightarrow> good p \<Longrightarrow>
      (\<exists>w'. gp_irq_on pal p f a w = (WINK_OK, w') \<and> ok w' \<and> held w' = held w \<and> level w' = level w
         \<and> handler w' = (handler w)(p := Some (f, a)))
      \<or> (\<exists>st. gp_irq_on pal p f a w = (st, w) \<and> st \<noteq> WINK_OK)"
    and irq_off: "ok w \<Longrightarrow> good p \<Longrightarrow>
      \<exists>w'. gp_irq_off pal p w = (WINK_OK, w') \<and> ok w' \<and> held w' = held w \<and> level w' = level w
        \<and> handler w' = (handler w)(p := None)"
    and keeps_handler:
      "handler (snd (gp_claim pal ty rid ow w)) = handler w" "handler (snd (gp_release pal ty rid ow w)) = handler w"
      "handler (snd (gp_init pal p mode w)) = handler w" "handler (gp_reset pal p w) = handler w"
begin

lemma irq_off_simps:
  assumes "ok w" "good p"
  shows "ok (snd (gp_irq_off pal p w))" "held (snd (gp_irq_off pal p w)) = held w"
    "level (snd (gp_irq_off pal p w)) = level w" "handler (snd (gp_irq_off pal p w)) = (handler w)(p := None)"
  using irq_off [OF assms] by auto

end

section \<open>The host simulation as a board\<close>

record host_board =
  hb_gpio :: host_gpio
  hb_irq :: host_irq

definition on_gpio :: "(host_gpio \<Rightarrow> wink_status_t \<times> host_gpio) \<Rightarrow> host_board \<Rightarrow> wink_status_t \<times> host_board" where
  "on_gpio f b = (let (st, h) = f (hb_gpio b) in (st, b\<lparr> hb_gpio := h \<rparr>))"

definition on_irq :: "(host_irq \<Rightarrow> wink_status_t \<times> host_irq) \<Rightarrow> host_board \<Rightarrow> wink_status_t \<times> host_board" where
  "on_irq f b = (let (st, h) = f (hb_irq b) in (st, b\<lparr> hb_irq := h \<rparr>))"

definition on_claims ::
  "(resource_table \<Rightarrow> wink_status_t \<times> resource_table) \<Rightarrow> host_board \<Rightarrow> wink_status_t \<times> host_board" where
  "on_claims f = on_gpio (\<lambda>h. let (st, t) = f (hg_claims h) in (st, h\<lparr> hg_claims := t \<rparr>))"

definition host_pal :: "(nat \<Rightarrow> host_gpio \<Rightarrow> host_gpio) \<Rightarrow> host_board gpio_pal" where
  "host_pal hook = \<lparr>
     gp_claim = (\<lambda>ty rid ow. on_claims (pal_resource_claim ty rid ow)),
     gp_release = (\<lambda>ty rid ow. on_claims (pal_resource_release ty rid ow)),
     gp_init = (\<lambda>pin mode. on_gpio (pal_gpio_init pin mode)),
     gp_write = (\<lambda>pin v. on_gpio (pal_gpio_write pin v)),
     gp_read = (\<lambda>pin b. let (st, v, h) = pal_gpio_read hook pin (Some False) (hb_gpio b)
                        in (st, the v, b\<lparr> hb_gpio := h \<rparr>)),
     gp_reset = (\<lambda>pin b. b\<lparr> hb_gpio := pal_gpio_reset_pin pin (hb_gpio b) \<rparr>),
     gp_ms = (\<lambda>b. hg_time_us (hb_gpio b) div 1000),
     gp_irq_on = (\<lambda>pin callback arg.
       on_irq (pal_gpio_enable_interrupt_ex pin PAL_IRQ_PRIO_NORMAL (Some callback) (Some arg))),
     gp_irq_off = (\<lambda>pin. on_irq (pal_gpio_disable_interrupt pin)),
     gp_irq_sync = (\<lambda>pin b. pal_gpio_synchronize_interrupt pin) \<rparr>"

definition host_ok :: "host_board \<Rightarrow> bool" where
  "host_ok b \<longleftrightarrow> gpio_ok (hb_gpio b) \<and> length (hi_gpio_isr (hb_irq b)) = nat HOST_MAX_GPIO_PIN
    \<and> length (hi_gpio_arg (hb_irq b)) = nat HOST_MAX_GPIO_PIN"

definition host_held :: "host_board \<Rightarrow> int \<Rightarrow> string option" where
  "host_held b p = (if pin_bad p then None else claims (hg_claims (hb_gpio b)) (gpio_key p))"

definition host_level :: "host_board \<Rightarrow> int \<Rightarrow> bool option" where
  "host_level b = pin_level (hb_gpio b)"

definition host_room :: "host_board \<Rightarrow> bool" where
  "host_room b \<longleftrightarrow> res_room (hg_claims (hb_gpio b))"

definition host_handler :: "host_board \<Rightarrow> int \<Rightarrow> (nat \<times> nat) option" where
  "host_handler b p =
    (if pin_bad p then None
     else case (hi_gpio_isr (hb_irq b) ! nat p, hi_gpio_arg (hb_irq b) ! nat p) of
            (Some f, Some a) \<Rightarrow> Some (f, a) | _ \<Rightarrow> None)"

lemmas host_view = host_ok_def host_held_def host_level_def host_room_def

lemma host_held_cong: "hg_claims h = hg_claims (hb_gpio b) \<Longrightarrow> host_held (b\<lparr> hb_gpio := h \<rparr>) = host_held b"
  by (simp add: host_held_def fun_eq_iff)

lemma res_claim_pin: "pal_resource_claim PAL_RESOURCE_GPIO_PIN (word_of_int p) (Some ow) t = res_claim (gpio_key p) ow t"
  and res_release_pin: "pal_resource_release PAL_RESOURCE_GPIO_PIN (word_of_int p) (Some ow) t = res_release (gpio_key p) ow t"
  by (simp_all add: res_claim_def res_release_def gpio_key_def)

lemma pin_level_claims [simp]: "pin_level (h\<lparr> hg_claims := t \<rparr>) = pin_level h"
  by (simp add: pin_level_def fun_eq_iff)

lemma held_upd:
  assumes "claims t = (claims (hg_claims (hb_gpio b)))(gpio_key p := x)" "\<not> pin_bad p"
  shows "host_held (b\<lparr> hb_gpio := (hb_gpio b)\<lparr> hg_claims := t \<rparr> \<rparr>) = (host_held b)(p := x)"
proof (rule ext)
  fix q show "host_held (b\<lparr> hb_gpio := (hb_gpio b)\<lparr> hg_claims := t \<rparr> \<rparr>) q = ((host_held b)(p := x)) q"
  proof (cases "pin_bad q")
    case True then show ?thesis using assms(2) by (auto simp: host_held_def)
  next
    case False then show ?thesis using assms gpio_key_inj [OF False assms(2)] by (simp add: host_held_def)
  qed
qed

interpretation host: gpio_board "host_pal hook" host_ok "\<lambda>p. \<not> pin_bad p" host_held host_level host_room "''pal_gpio''"
  for hook
proof (unfold_locales, goal_cases)
  case (1 p)
  then show ?case by (simp add: pin_bad_def HOST_MAX_GPIO_PIN_def)
next
  case (2 w p ow)
  then have inv: "res_inv (hg_claims (hb_gpio w))" and n: "claims (hg_claims (hb_gpio w)) (gpio_key p) = None"
    and r: "res_room (hg_claims (hb_gpio w))"
    by (simp_all add: host_view gpio_ok_def)
  from rct.claim_new [OF inv gpio_key_valid [OF 2(2)] n r, of ow] obtain t where
    t: "res_claim (gpio_key p) ow (hg_claims (hb_gpio w)) = (WINK_OK, t)" "res_inv t"
      "claims t = (claims (hg_claims (hb_gpio w)))(gpio_key p := Some ow)" by auto
  show ?case using t 2 held_upd [OF t(3) 2(2)]
    by (simp add: host_pal_def on_claims_def on_gpio_def res_claim_pin host_ok_def host_level_def gpio_ok_def)
next
  case (3 w p ow' ow)
  then have inv: "res_inv (hg_claims (hb_gpio w))" and n: "claims (hg_claims (hb_gpio w)) (gpio_key p) = Some ow'"
    by (simp_all add: host_view gpio_ok_def)
  from rct.claim_held [OF inv gpio_key_valid [OF 3(2)] n, of ow] 3(4) show ?case
    by (simp add: host_pal_def on_claims_def on_gpio_def res_claim_pin)
next
  case (4 w p ow)
  then have inv: "res_inv (hg_claims (hb_gpio w))" and n: "claims (hg_claims (hb_gpio w)) (gpio_key p) = None"
    and r: "\<not> res_room (hg_claims (hb_gpio w))"
    by (simp_all add: host_view gpio_ok_def)
  from rct.claim_no_room [OF inv gpio_key_valid [OF 4(2)] n r, of ow] show ?case
    by (simp add: host_pal_def on_claims_def on_gpio_def res_claim_pin)
next
  case (5 w p ow)
  then have inv: "res_inv (hg_claims (hb_gpio w))" and n: "claims (hg_claims (hb_gpio w)) (gpio_key p) = Some ow"
    by (simp_all add: host_view gpio_ok_def)
  from rct.release_own [OF inv gpio_key_valid [OF 5(2)] n] obtain t where
    t: "res_release (gpio_key p) ow (hg_claims (hb_gpio w)) = (WINK_OK, t)" "res_inv t"
      "claims t = (claims (hg_claims (hb_gpio w)))(gpio_key p := None)" by auto
  show ?case using t 5 held_upd [OF t(3) 5(2)]
    by (simp add: host_pal_def on_claims_def on_gpio_def res_release_pin host_ok_def host_level_def gpio_ok_def)
next
  case (6 w p mode)
  then have "gpio_ok (hb_gpio w)" "claims (hg_claims (hb_gpio w)) (gpio_key p) \<noteq> None"
    by (simp_all add: host_view)
  from init_pin [OF this, of mode] 6(1) show ?case
    by (auto simp: host_pal_def on_gpio_def host_ok_def host_level_def host_held_cong)
next
  case (7 w p v)
  then have "gpio_ok (hb_gpio w)" "claims (hg_claims (hb_gpio w)) (gpio_key p) \<noteq> None"
    by (simp_all add: host_view)
  from write_pin [OF this(1) 7(2) this(2), of v] 7(1) show ?case
    by (auto simp: host_pal_def on_gpio_def host_ok_def host_level_def host_held_cong)
next
  case (8 w p v)
  then have "pin_bad p \<or> claims (hg_claims (hb_gpio w)) (gpio_key p) = None" by (auto simp: host_view split: if_splits)
  from write_pin_unclaimed [OF this, of v] show ?case
    by (auto simp: host_pal_def on_gpio_def)
next
  case (9 w p ow)
  then have g: "gpio_ok (hb_gpio w)" and n: "claims (hg_claims (hb_gpio w)) (gpio_key p) \<noteq> Some ''pal_gpio''"
    by (simp_all add: host_view)
  from reset_pin [OF g n 9(2)] 9(1) show ?case
    by (auto simp: host_pal_def host_ok_def host_level_def host_held_cong)
qed

lemma host_handler_upd:
  assumes "host_ok b" "\<not> pin_bad p" "hi_gpio_isr h = (hi_gpio_isr (hb_irq b))[nat p := map_option fst x]"
    "hi_gpio_arg h = (hi_gpio_arg (hb_irq b))[nat p := map_option snd x]"
  shows "host_handler (b\<lparr> hb_irq := h \<rparr>) = (host_handler b)(p := x)" "host_ok (b\<lparr> hb_irq := h \<rparr>)"
    "host_held (b\<lparr> hb_irq := h \<rparr>) = host_held b" "host_level (b\<lparr> hb_irq := h \<rparr>) = host_level b"
proof -
  show "host_ok (b\<lparr> hb_irq := h \<rparr>)" "host_held (b\<lparr> hb_irq := h \<rparr>) = host_held b"
    "host_level (b\<lparr> hb_irq := h \<rparr>) = host_level b"
    using assms by (simp_all add: host_view fun_eq_iff)
  have n: "nat p < nat HOST_MAX_GPIO_PIN" using pin_good_nat [OF assms(2)] by (simp add: HOST_MAX_GPIO_PIN_def)
  show "host_handler (b\<lparr> hb_irq := h \<rparr>) = (host_handler b)(p := x)"
  proof (rule ext)
    fix q show "host_handler (b\<lparr> hb_irq := h \<rparr>) q = ((host_handler b)(p := x)) q"
      using assms n pin_good_inj [of p q]
      by (cases "p = q"; cases x) (auto simp: host_handler_def host_ok_def nth_list_update)
  qed
qed

interpretation host_irqs: irq_board "host_pal hook" host_ok "\<lambda>p. \<not> pin_bad p" host_held host_level host_room
    "''pal_gpio''" host_handler for hook
proof (unfold_locales, goal_cases)
  case (1 w p f a)
  let ?q = "\<lambda>h. h\<lparr> hi_gpio_isr := (hi_gpio_isr (hb_irq w))[nat p := Some f],
      hi_gpio_arg := (hi_gpio_arg (hb_irq w))[nat p := Some a] \<rparr>"
  show ?case
    using 1 host_handler_upd [of w p "?q (hb_irq w)" "Some (f, a)"]
      host_handler_upd [of w p "?q ((hb_irq w)\<lparr> hi_service_prio := PAL_IRQ_PRIO_NORMAL, hi_service_init := True \<rparr>)"
        "Some (f, a)"]
    by (simp add: host_pal_def on_irq_def pal_gpio_enable_interrupt_ex_def Let_def)
next
  case (2 w p)
  then show ?case
    using host_handler_upd [of w p "(hb_irq w)\<lparr> hi_gpio_isr := (hi_gpio_isr (hb_irq w))[nat p := None],
      hi_gpio_arg := (hi_gpio_arg (hb_irq w))[nat p := None] \<rparr>" None]
    by (simp add: host_pal_def on_irq_def pal_gpio_disable_interrupt_def)
next
  case (3 ty rid ow w)
  then show ?case by (simp add: host_pal_def on_claims_def on_gpio_def host_handler_def split_def Let_def fun_eq_iff)
next
  case (4 ty rid ow w)
  then show ?case by (simp add: host_pal_def on_claims_def on_gpio_def host_handler_def split_def Let_def fun_eq_iff)
next
  case (5 p mode w)
  then show ?case by (simp add: host_pal_def on_gpio_def host_handler_def split_def Let_def fun_eq_iff)
next
  case (6 p w)
  then show ?case by (simp add: host_pal_def host_handler_def fun_eq_iff)
qed

section \<open>A board at rest\<close>

definition demo_gpio :: host_gpio where
  "demo_gpio = \<lparr> hg_claims = demo_table, hg_mode = replicate 50 PAL_GPIO_INPUT, hg_mode_known = replicate 50 False,
     hg_out_level = replicate 50 False, hg_out_known = replicate 50 False,
     hg_loopbacks = replicate 8 \<lparr> lb_pin_out = 0, lb_pin_in = 0, lb_active = False \<rparr>,
     hg_rmt = \<lparr> rm_pin = -1, rm_armed = False, rm_last_rise_us = 0, rm_last_pulse_us = 0 \<rparr>,
     hg_ideal = replicate 4 \<lparr> gi_set = False, gi_pin = 0, gi_ideal = False, gi_ctx = \<lparr> db_stable_level = False,
       db_in_bounce = False, db_bounce_start_us = 0, db_bounce_flip = False \<rparr> \<rparr>,
     hg_bounce_us = 0, hg_time_us = 5000, hg_hook = None, hg_echo_pin = 0xFFFF, hg_echo_rise_us = 0,
     hg_echo_high_us = 0 \<rparr>"

definition demo_board :: host_board where
  "demo_board = \<lparr> hb_gpio = demo_gpio, hb_irq = \<lparr> hi_gpio_isr = replicate 50 None, hi_gpio_arg = replicate 50 None,
     hi_gpio_calls = replicate 50 0, hi_service_init = False, hi_service_prio = PAL_IRQ_PRIO_NORMAL,
     hi_pending = replicate 64 0, hi_pending_count = 0, hi_depth = 0, hi_table = replicate 32 None,
     hi_arg = replicate 32 None, hi_calls = replicate 32 0, hi_queue = replicate 64 0, hi_head = 0,
     hi_count = 0, hi_overflow = 0, hi_in_isr = False, hi_time_us = 0,
     hi_sched = \<lparr> ss_tasks = [], ss_task_id_counter = 0, ss_current = None, ss_prng_state = 0,
       ss_last_scheduled = None, ss_trace = [], ss_trace_sequence = 0, ss_trace_enabled = False,
       ss_main_ctx = None \<rparr> \<rparr> \<rparr>"

lemma demo_board_ok: "host_ok demo_board"
  using demo_table_inv by (simp add: host_ok_def gpio_ok_def demo_board_def demo_gpio_def HOST_MAX_GPIO_PIN_def)

lemma demo_board_free: "host_held demo_board p = None"
  by (simp add: host_held_def demo_board_def demo_gpio_def demo_table_def claims_def)

lemma demo_board_room: "host_room demo_board"
  by (simp add: host_room_def demo_board_def demo_gpio_def demo_table_def res_room_def PAL_RESOURCE_MAX_CLAIMS_def)

end
