(* ===== verification/Dal_Outputs.thy ===== *)
theory Dal_Outputs
  imports Gpio_Pal
begin

text \<open>
  The drivers of switched outputs: \<^verbatim>\<open>dal/src/output/dal_led.c\<close> and \<^verbatim>\<open>dal/src/output/dal_relay.c\<close>,
  against the pins of \<^theory_text>\<open>Gpio_Pal\<close>. A null pointer is \<open>None\<close>; the log is left out.
\<close>

section \<open>LED\<close>

record dal_led_config_t =
  lc_owner :: "string option"
  lc_pin :: u16
  lc_active_high :: bool

record dal_led_t =
  ld_config :: dal_led_config_t
  ld_is_on :: bool
  ld_initialized :: bool

definition led_zero :: dal_led_t where
  "led_zero = \<lparr> ld_config = \<lparr> lc_owner = None, lc_pin = 0, lc_active_high = False \<rparr>,
     ld_is_on = False, ld_initialized = False \<rparr>"

text \<open>Gives the claim of a pin up; a failure is logged only.\<close>

definition release_gpio_claim :: "'w gpio_pal \<Rightarrow> int \<Rightarrow> string option \<Rightarrow> 'w \<Rightarrow> 'w" where
  "release_gpio_claim pal pin owner w = (if pin < 0 then w else snd (release_pin pal pin owner w))"

definition dal_led_init ::
  "'w gpio_pal \<Rightarrow> dal_led_t option \<Rightarrow> dal_led_config_t option \<Rightarrow> 'w \<Rightarrow> wink_status_t \<times> dal_led_t option \<times> 'w"
where
  "dal_led_init pal dev cfg w =
    (case (dev, cfg) of (Some d, Some c) \<Rightarrow>
       if lc_owner c = None then (WINK_ERR_INVALID_ARG, dev, w)
       else if ld_initialized d then (WINK_ERR_ALREADY_INITIALIZED, dev, w)
       else let (rs, w) = gp_claim pal PAL_RESOURCE_GPIO_PIN (ucast (lc_pin c)) (lc_owner c) w
            in if wink_status_is_error rs then (rs, dev, w)
       else let (st, w) = gp_init pal (sint (lc_pin c)) PAL_GPIO_OUTPUT_PUSH_PULL w
            in if wink_status_is_error st
               then (st, dev, release_gpio_claim pal (sint (lc_pin c)) (lc_owner c) w)
       else let d = d\<lparr> ld_config := c, ld_is_on := False \<rparr>;
                off_level = (if lc_active_high c then False else True);
                (st, w) = gp_write pal (sint (lc_pin c)) off_level w
            in if wink_status_is_error st
               then (st, Some d, release_gpio_claim pal (sint (lc_pin c)) (lc_owner c)
                      (gp_reset pal (sint (lc_pin c)) w))
               else (WINK_OK, Some (d\<lparr> ld_initialized := True \<rparr>), w)
     | _ \<Rightarrow> (WINK_ERR_INVALID_ARG, dev, w))"

definition dal_led_set ::
  "'w gpio_pal \<Rightarrow> bool \<Rightarrow> dal_led_t option \<Rightarrow> 'w \<Rightarrow> wink_status_t \<times> dal_led_t option \<times> 'w" where
  "dal_led_set pal on dev w =
    (case dev of None \<Rightarrow> (WINK_ERR_INVALID_ARG, dev, w)
     | Some d \<Rightarrow>
       if \<not> ld_initialized d then (WINK_ERR_NOT_INITIALIZED, dev, w)
       else let level = (if on then lc_active_high (ld_config d) else \<not> lc_active_high (ld_config d));
                (s, w) = gp_write pal (sint (lc_pin (ld_config d))) level w
            in if wink_status_is_error s then (s, dev, w) else (WINK_OK, Some (d\<lparr> ld_is_on := on \<rparr>), w))"

definition dal_led_on :: "'w gpio_pal \<Rightarrow> dal_led_t option \<Rightarrow> 'w \<Rightarrow> wink_status_t \<times> dal_led_t option \<times> 'w" where
  "dal_led_on pal = dal_led_set pal True"

definition dal_led_off :: "'w gpio_pal \<Rightarrow> dal_led_t option \<Rightarrow> 'w \<Rightarrow> wink_status_t \<times> dal_led_t option \<times> 'w" where
  "dal_led_off pal = dal_led_set pal False"

definition dal_led_toggle :: "'w gpio_pal \<Rightarrow> dal_led_t option \<Rightarrow> 'w \<Rightarrow> wink_status_t \<times> dal_led_t option \<times> 'w" where
  "dal_led_toggle pal dev w =
    (case dev of None \<Rightarrow> (WINK_ERR_INVALID_ARG, dev, w)
     | Some d \<Rightarrow> if \<not> ld_initialized d then (WINK_ERR_NOT_INITIALIZED, dev, w)
                else dal_led_set pal (\<not> ld_is_on d) dev w)"

definition dal_led_safe_off :: "'w gpio_pal \<Rightarrow> dal_led_t option \<Rightarrow> 'w \<Rightarrow> wink_status_t \<times> dal_led_t option \<times> 'w" where
  "dal_led_safe_off pal dev w =
    (case dev of None \<Rightarrow> (WINK_ERR_INVALID_ARG, dev, w)
     | Some d \<Rightarrow> if \<not> ld_initialized d then (WINK_OK, dev, w) else (WINK_OK, snd (dal_led_off pal dev w)))"

definition dal_led_deinit :: "'w gpio_pal \<Rightarrow> dal_led_t option \<Rightarrow> 'w \<Rightarrow> wink_status_t \<times> dal_led_t option \<times> 'w" where
  "dal_led_deinit pal dev w =
    (case dev of None \<Rightarrow> (WINK_ERR_INVALID_ARG, dev, w)
     | Some d \<Rightarrow>
       if \<not> ld_initialized d then (WINK_OK, dev, w)
       else let (_, _, w) = dal_led_off pal dev w;
                pin = sint (lc_pin (ld_config d));
                w = gp_reset pal pin w;
                w = release_gpio_claim pal pin (lc_owner (ld_config d)) w
            in (WINK_OK, Some led_zero, w))"

section \<open>Relay\<close>

text \<open>The variant is an integer, as the configuration may hold a value that names none.\<close>

record dal_relay_config_t =
  rc_owner_name :: "string option"
  rc_pin :: u16
  rc_reset_pin :: int
  rc_pulse_duration_ms :: u16
  rc_variant :: int
  rc_active_low :: bool
  rc_initial_state :: bool

record dal_relay_t =
  rd_config :: dal_relay_config_t
  rd_pulse_start_ms :: u32
  rd_is_on :: bool
  rd_pulse_active :: bool
  rd_initialized :: bool
  rd_last_status :: wink_status_t

definition DAL_RELAY_VARIANT_DIRECT_GPIO :: int where "DAL_RELAY_VARIANT_DIRECT_GPIO = 0"
definition DAL_RELAY_VARIANT_LATCHING_DUAL_PIN :: int where "DAL_RELAY_VARIANT_LATCHING_DUAL_PIN = 1"
definition DAL_RELAY_DEFAULT_PULSE_MS :: u16 where "DAL_RELAY_DEFAULT_PULSE_MS = 50"
definition DAL_RELAY_MAX_PULSE_MS :: u16 where "DAL_RELAY_MAX_PULSE_MS = 1000"

definition relay_zero :: dal_relay_t where
  "relay_zero = \<lparr> rd_config = \<lparr> rc_owner_name = None, rc_pin = 0, rc_reset_pin = 0, rc_pulse_duration_ms = 0,
       rc_variant = 0, rc_active_low = False, rc_initial_state = False \<rparr>,
     rd_pulse_start_ms = 0, rd_is_on = False, rd_pulse_active = False, rd_initialized = False,
     rd_last_status = WINK_OK \<rparr>"

abbreviation coil_pin :: "dal_relay_config_t \<Rightarrow> int" where
  "coil_pin c \<equiv> sint (rc_pin c)"

definition release_relay_claims :: "'w gpio_pal \<Rightarrow> dal_relay_config_t \<Rightarrow> 'w \<Rightarrow> 'w" where
  "release_relay_claims pal c w =
    (if rc_owner_name c = None then w
     else let w = snd (gp_release pal PAL_RESOURCE_GPIO_PIN (ucast (rc_pin c)) (rc_owner_name c) w)
          in if rc_reset_pin c \<ge> 0 then snd (release_pin pal (rc_reset_pin c) (rc_owner_name c) w) else w)"

definition relay_write_both_inactive :: "'w gpio_pal \<Rightarrow> dal_relay_config_t \<Rightarrow> 'w \<Rightarrow> 'w" where
  "relay_write_both_inactive pal c w =
    (let inactive = rc_active_low c;
         w = snd (gp_write pal (coil_pin c) inactive w)
     in if rc_reset_pin c \<ge> 0 then snd (gp_write pal (rc_reset_pin c) inactive w) else w)"

definition relay_start_pulse ::
  "'w gpio_pal \<Rightarrow> bool \<Rightarrow> dal_relay_t \<Rightarrow> 'w \<Rightarrow> wink_status_t \<times> dal_relay_t \<times> 'w" where
  "relay_start_pulse pal on d w =
    (let c = rd_config d;
         active = (\<not> rc_active_low c);
         target = (if on then coil_pin c else rc_reset_pin c);
         (st, w) = gp_write pal target active w
     in if wink_status_is_error st then (st, d, w)
        else (WINK_OK, d\<lparr> rd_pulse_start_ms := ucast (gp_ms pal w), rd_pulse_active := True \<rparr>, w))"

definition reset_relay_pins :: "'w gpio_pal \<Rightarrow> dal_relay_config_t \<Rightarrow> 'w \<Rightarrow> 'w" where
  "reset_relay_pins pal c w =
    (let w = gp_reset pal (coil_pin c) w
     in if rc_reset_pin c \<ge> 0 then gp_reset pal (rc_reset_pin c) w else w)"

text \<open>The claims of both pins.\<close>

definition claim_relay_pins :: "'w gpio_pal \<Rightarrow> dal_relay_config_t \<Rightarrow> 'w \<Rightarrow> wink_status_t \<times> 'w" where
  "claim_relay_pins pal c w =
    (let (rs, w) = gp_claim pal PAL_RESOURCE_GPIO_PIN (ucast (rc_pin c)) (rc_owner_name c) w
     in if wink_status_is_error rs then (rs, w)
        else if rc_reset_pin c \<ge> 0
        then let (rs, w) = claim_pin pal (rc_reset_pin c) (rc_owner_name c) w
             in if wink_status_is_error rs
                then (rs, snd (gp_release pal PAL_RESOURCE_GPIO_PIN (ucast (rc_pin c)) (rc_owner_name c) w))
                else (WINK_OK, w)
        else (WINK_OK, w))"

text \<open>Both pins become outputs.\<close>

definition init_relay_pins :: "'w gpio_pal \<Rightarrow> dal_relay_config_t \<Rightarrow> 'w \<Rightarrow> wink_status_t \<times> 'w" where
  "init_relay_pins pal c w =
    (let (st, w) = gp_init pal (coil_pin c) PAL_GPIO_OUTPUT_PUSH_PULL w
     in if wink_status_is_error st then (st, release_relay_claims pal c w)
        else if rc_reset_pin c \<ge> 0
        then let (st, w) = gp_init pal (rc_reset_pin c) PAL_GPIO_OUTPUT_PUSH_PULL w
             in if wink_status_is_error st
                then (st, release_relay_claims pal c (gp_reset pal (coil_pin c) w))
                else (WINK_OK, w)
        else (WINK_OK, w))"

text \<open>The first state of the contact: a level for a direct relay, a pulse for a latching one.\<close>

definition start_relay :: "'w gpio_pal \<Rightarrow> dal_relay_t \<Rightarrow> 'w \<Rightarrow> wink_status_t \<times> dal_relay_t \<times> 'w" where
  "start_relay pal d w =
    (let c = rd_config d
     in if rc_variant c \<noteq> DAL_RELAY_VARIANT_LATCHING_DUAL_PIN
        then let active = (\<not> rc_active_low c);
                 (st, w) = gp_write pal (coil_pin c) (if rd_is_on d then active else \<not> active) w
             in (st, d, w)
        else relay_start_pulse pal (rd_is_on d) d (relay_write_both_inactive pal c w))"

definition dal_relay_init ::
  "'w gpio_pal \<Rightarrow> dal_relay_t option \<Rightarrow> dal_relay_config_t option \<Rightarrow> 'w
    \<Rightarrow> wink_status_t \<times> dal_relay_t option \<times> 'w" where
  "dal_relay_init pal dev cfg w =
    (case (dev, cfg) of (Some d, Some c) \<Rightarrow>
       if rc_owner_name c = None then (WINK_ERR_INVALID_ARG, dev, w)
       else if rd_initialized d then (WINK_ERR_ALREADY_INITIALIZED, dev, w)
       else if rc_variant c \<noteq> DAL_RELAY_VARIANT_DIRECT_GPIO \<and> rc_variant c \<noteq> DAL_RELAY_VARIANT_LATCHING_DUAL_PIN
       then (WINK_ERR_INVALID_ARG, dev, w)
       else if rc_variant c = DAL_RELAY_VARIANT_LATCHING_DUAL_PIN \<and> rc_reset_pin c < 0
       then (WINK_ERR_INVALID_ARG, dev, w)
       else if rc_pulse_duration_ms c > DAL_RELAY_MAX_PULSE_MS then (WINK_ERR_INVALID_ARG, dev, w)
       else let pulse_ms = (if rc_pulse_duration_ms c = 0 then DAL_RELAY_DEFAULT_PULSE_MS else rc_pulse_duration_ms c);
                (rs, w) = claim_relay_pins pal c w
            in if wink_status_is_error rs then (rs, dev, w)
       else let (st, w) = init_relay_pins pal c w
            in if wink_status_is_error st then (st, dev, w)
       else let d = d\<lparr> rd_config := c\<lparr> rc_pulse_duration_ms := pulse_ms \<rparr>, rd_pulse_start_ms := 0,
                      rd_pulse_active := False, rd_is_on := rc_initial_state c \<rparr>;
                (st, d, w) = start_relay pal d w
            in if wink_status_is_error st
               then (st, Some d, release_relay_claims pal c (reset_relay_pins pal (rd_config d) w))
               else (WINK_OK, Some (d\<lparr> rd_initialized := True, rd_last_status := WINK_OK \<rparr>), w)
     | _ \<Rightarrow> (WINK_ERR_INVALID_ARG, dev, w))"

definition dal_relay_set ::
  "'w gpio_pal \<Rightarrow> bool \<Rightarrow> dal_relay_t option \<Rightarrow> 'w \<Rightarrow> wink_status_t \<times> dal_relay_t option \<times> 'w" where
  "dal_relay_set pal on dev w =
    (case dev of None \<Rightarrow> (WINK_ERR_INVALID_ARG, dev, w)
     | Some d \<Rightarrow>
       if \<not> rd_initialized d
       then (WINK_ERR_NOT_INITIALIZED, Some (d\<lparr> rd_last_status := WINK_ERR_NOT_INITIALIZED \<rparr>), w)
       else let c = rd_config d;
                (st, d, w) =
                  (if rc_variant c = DAL_RELAY_VARIANT_DIRECT_GPIO
                   then let active = (\<not> rc_active_low c);
                            (st, w) = gp_write pal (coil_pin c) (if on then active else \<not> active) w
                        in (st, d, w)
                   else if rc_variant c = DAL_RELAY_VARIANT_LATCHING_DUAL_PIN
                   then relay_start_pulse pal on d (relay_write_both_inactive pal c w)
                   else (WINK_ERR_INVALID_ARG, d, w));
                d = (if \<not> wink_status_is_error st then d\<lparr> rd_is_on := on \<rparr> else d)
            in (st, Some (d\<lparr> rd_last_status := st \<rparr>), w))"

definition dal_relay_on :: "'w gpio_pal \<Rightarrow> dal_relay_t option \<Rightarrow> 'w \<Rightarrow> wink_status_t \<times> dal_relay_t option \<times> 'w" where
  "dal_relay_on pal = dal_relay_set pal True"

definition dal_relay_off :: "'w gpio_pal \<Rightarrow> dal_relay_t option \<Rightarrow> 'w \<Rightarrow> wink_status_t \<times> dal_relay_t option \<times> 'w" where
  "dal_relay_off pal = dal_relay_set pal False"

definition dal_relay_toggle ::
  "'w gpio_pal \<Rightarrow> dal_relay_t option \<Rightarrow> 'w \<Rightarrow> wink_status_t \<times> dal_relay_t option \<times> 'w" where
  "dal_relay_toggle pal dev w =
    (case dev of None \<Rightarrow> (WINK_ERR_INVALID_ARG, dev, w)
     | Some d \<Rightarrow>
       if \<not> rd_initialized d
       then (WINK_ERR_NOT_INITIALIZED, Some (d\<lparr> rd_last_status := WINK_ERR_NOT_INITIALIZED \<rparr>), w)
       else dal_relay_set pal (\<not> rd_is_on d) dev w)"

definition dal_relay_is_on :: "dal_relay_t option \<Rightarrow> bool option \<Rightarrow> wink_status_t \<times> bool option" where
  "dal_relay_is_on dev out_on =
    (case (dev, out_on) of (Some d, Some _) \<Rightarrow>
       if \<not> rd_initialized d then (WINK_ERR_NOT_INITIALIZED, out_on) else (WINK_OK, Some (rd_is_on d))
     | _ \<Rightarrow> (WINK_ERR_INVALID_ARG, out_on))"

definition dal_relay_get_last_status :: "dal_relay_t option \<Rightarrow> wink_status_t" where
  "dal_relay_get_last_status dev =
    (case dev of None \<Rightarrow> WINK_ERR_INVALID_ARG
     | Some d \<Rightarrow> if \<not> rd_initialized d then WINK_ERR_NOT_INITIALIZED else rd_last_status d)"

definition dal_relay_poll :: "'w gpio_pal \<Rightarrow> dal_relay_t option \<Rightarrow> 'w \<Rightarrow> wink_status_t \<times> dal_relay_t option \<times> 'w" where
  "dal_relay_poll pal dev w =
    (case dev of None \<Rightarrow> (WINK_ERR_INVALID_ARG, dev, w)
     | Some d \<Rightarrow>
       if \<not> rd_initialized d then (WINK_OK, dev, w)
       else if rd_pulse_active d
       then let now = ucast (gp_ms pal w);
                elapsed = now - rd_pulse_start_ms d
            in if elapsed \<ge> ucast (rc_pulse_duration_ms (rd_config d))
               then (WINK_OK, Some (d\<lparr> rd_pulse_active := False \<rparr>), relay_write_both_inactive pal (rd_config d) w)
               else (WINK_OK, dev, w)
       else (WINK_OK, dev, w))"

definition dal_relay_safe_off ::
  "'w gpio_pal \<Rightarrow> dal_relay_t option \<Rightarrow> 'w \<Rightarrow> wink_status_t \<times> dal_relay_t option \<times> 'w" where
  "dal_relay_safe_off pal dev w =
    (case dev of None \<Rightarrow> (WINK_ERR_INVALID_ARG, dev, w)
     | Some d \<Rightarrow> if \<not> rd_initialized d then (WINK_OK, dev, w) else (WINK_OK, snd (dal_relay_off pal dev w)))"

definition dal_relay_deinit ::
  "'w gpio_pal \<Rightarrow> dal_relay_t option \<Rightarrow> 'w \<Rightarrow> wink_status_t \<times> dal_relay_t option \<times> 'w" where
  "dal_relay_deinit pal dev w =
    (case dev of None \<Rightarrow> (WINK_ERR_INVALID_ARG, dev, w)
     | Some d \<Rightarrow>
       if \<not> rd_initialized d then (WINK_OK, dev, w)
       else let (_, _, w) = dal_relay_off pal dev w;
                w = relay_write_both_inactive pal (rd_config d) w;
                w = reset_relay_pins pal (rd_config d) w
            in (WINK_OK, Some relay_zero, release_relay_claims pal (rd_config d) w))"

section \<open>What the drivers do on a board\<close>

text \<open>What the initialisation demands of a configuration.\<close>

definition relay_config_ok :: "dal_relay_config_t \<Rightarrow> bool" where
  "relay_config_ok c \<longleftrightarrow> (rc_variant c = DAL_RELAY_VARIANT_DIRECT_GPIO \<or> rc_variant c = DAL_RELAY_VARIANT_LATCHING_DUAL_PIN)
    \<and> (rc_variant c = DAL_RELAY_VARIANT_LATCHING_DUAL_PIN \<longrightarrow> \<not> rc_reset_pin c < 0)
    \<and> \<not> rc_pulse_duration_ms c > DAL_RELAY_MAX_PULSE_MS"

context gpio_board begin

lemma led_init_cases:
  assumes "ok w" "good (sint (lc_pin c))" "lc_owner c = Some ow" "held w (sint (lc_pin c)) \<noteq> Some ow"
    "\<not> ld_initialized d"
  obtains w' where "dal_led_init pal (Some d) (Some c) w
        = (WINK_OK, Some \<lparr> ld_config = c, ld_is_on = False, ld_initialized = True \<rparr>, w')" "ok w'"
      "held w (sint (lc_pin c)) = None" "held w' = (held w)(sint (lc_pin c) := Some ow)"
      "level w' = (level w)(sint (lc_pin c) := Some (\<not> lc_active_high c))"
    | st where "dal_led_init pal (Some d) (Some c) w = (st, Some d, w)" "st \<noteq> WINK_OK"
proof -
  let ?p = "sint (lc_pin c)"
  note claim = good_u16 [OF assms(2)]
  from assms(1-2,4) show ?thesis
  proof (cases rule: claim_cases)
    case (1 w1)
    have h: "held w1 ?p \<noteq> None" using 1(4) by simp
    from init_held [OF 1(2) assms(2) h, of PAL_GPIO_OUTPUT_PUSH_PULL] obtain w2 where
      w2: "gp_init pal ?p PAL_GPIO_OUTPUT_PUSH_PULL w1 = (WINK_OK, w2)" "ok w2" "held w2 = held w1" "level w2 = level w1"
      by blast
    have h2: "held w2 ?p \<noteq> None" using h w2 by simp
    from write_held [OF w2(2) assms(2) h2, of "\<not> lc_active_high c"] obtain w3 where
      w3: "gp_write pal ?p (\<not> lc_active_high c) w2 = (WINK_OK, w3)" "ok w3" "held w3 = held w2"
        "level w3 = (level w2)(?p := Some (\<not> lc_active_high c))" by blast
    have "(if lc_active_high c then False else True) = (\<not> lc_active_high c)" by simp
    then have "dal_led_init pal (Some d) (Some c) w
        = (WINK_OK, Some \<lparr> ld_config = c, ld_is_on = False, ld_initialized = True \<rparr>, w3)"
      using 1(1) w2(1) w3(1) assms(3,5) claim by (simp only: dal_led_init_def) simp
    then show ?thesis by (rule that(1)) (use 1 w2 w3 in simp_all)
  next
    case (2 st)
    show ?thesis by (rule that(2)) (use 2 assms(3,5) claim in \<open>simp_all add: dal_led_init_def\<close>)
  qed
qed

lemma led_set_drives_pin:
  assumes "ok w" "good (sint (lc_pin (ld_config d)))" "held w (sint (lc_pin (ld_config d))) \<noteq> None" "ld_initialized d"
  shows "\<exists>w'. dal_led_set pal on (Some d) w = (WINK_OK, Some (d\<lparr> ld_is_on := on \<rparr>), w') \<and> ok w' \<and> held w' = held w
    \<and> level w' = (level w)(sint (lc_pin (ld_config d)) := Some (on = lc_active_high (ld_config d)))"
  using write_held_simps [OF assms(1-3), of "on = lc_active_high (ld_config d)"] assms(4)
  by (auto simp: dal_led_set_def Let_def case_prod_beta)

lemma led_deinit_releases:
  assumes "ok w" "good (sint (lc_pin (ld_config d)))" "lc_owner (ld_config d) = Some ow" "ow \<noteq> reserved"
    "held w (sint (lc_pin (ld_config d))) = Some ow" "ld_initialized d"
  shows "\<exists>w'. dal_led_deinit pal (Some d) w = (WINK_OK, Some led_zero, w') \<and> ok w'
    \<and> held w' = (held w)(sint (lc_pin (ld_config d)) := None)
    \<and> level w' = (level w)(sint (lc_pin (ld_config d)) := None)"
proof -
  let ?p = "sint (lc_pin (ld_config d))"
  have h: "held w ?p \<noteq> None" using assms(5) by simp
  from led_set_drives_pin [OF assms(1,2) h assms(6), of False] obtain w1 where
    w1: "dal_led_set pal False (Some d) w = (WINK_OK, Some (d\<lparr> ld_is_on := False \<rparr>), w1)" "ok w1" "held w1 = held w"
      "level w1 = (level w)(?p := Some (False = lc_active_high (ld_config d)))" by blast
  have h1: "held w1 ?p = Some ow" using w1(3) assms(5) by simp
  note r = reset_held_simps [OF w1(2) assms(2) h1 assms(4)]
  have h2: "held (gp_reset pal ?p w1) ?p = Some ow" using r(2) h1 by simp
  note l = release_own_simps [OF r(1) assms(2) h2]
  have "0 \<le> ?p" using good_pin [OF assms(2)] by simp
  then show ?thesis using assms(3,6) w1 r l
    by (simp add: dal_led_deinit_def dal_led_off_def release_gpio_claim_def fun_eq_iff)
qed

text \<open>A live relay holds its pins, and they are driven as its state says: a direct relay's pin
  follows the contact, a coil of a latching relay is energised exactly during the pulse that
  moves the contact its way.\<close>

definition relay_pins :: "dal_relay_config_t \<Rightarrow> string \<Rightarrow> 'w \<Rightarrow> bool" where
  "relay_pins c ow w \<longleftrightarrow> ok w \<and> rc_owner_name c = Some ow \<and> ow \<noteq> reserved
     \<and> good (coil_pin c) \<and> held w (coil_pin c) = Some ow
     \<and> (rc_reset_pin c \<ge> 0 \<longrightarrow> good (rc_reset_pin c) \<and> rc_reset_pin c \<noteq> coil_pin c \<and> held w (rc_reset_pin c) = Some ow)
     \<and> (rc_variant c = DAL_RELAY_VARIANT_DIRECT_GPIO
         \<or> rc_variant c = DAL_RELAY_VARIANT_LATCHING_DUAL_PIN \<and> rc_reset_pin c \<ge> 0)"

definition relay_driven :: "dal_relay_t \<Rightarrow> 'w \<Rightarrow> bool" where
  "relay_driven d w \<longleftrightarrow> (let c = rd_config d in
     if rc_variant c = DAL_RELAY_VARIANT_DIRECT_GPIO
     then level w (coil_pin c) = Some (rd_is_on d \<noteq> rc_active_low c) \<and> \<not> rd_pulse_active d
     else level w (coil_pin c) = Some ((rd_pulse_active d \<and> rd_is_on d) \<noteq> rc_active_low c)
        \<and> level w (rc_reset_pin c) = Some ((rd_pulse_active d \<and> \<not> rd_is_on d) \<noteq> rc_active_low c))"

definition relay_live :: "string \<Rightarrow> dal_relay_t \<Rightarrow> 'w \<Rightarrow> bool" where
  "relay_live ow d w \<longleftrightarrow> rd_initialized d \<and> relay_pins (rd_config d) ow w \<and> relay_driven d w"

lemma relay_pins_keep: "relay_pins c ow w \<Longrightarrow> ok w' \<Longrightarrow> held w' = held w \<Longrightarrow> relay_pins c ow w'"
  by (simp add: relay_pins_def)

lemma relay_write:
  assumes "relay_pins c ow w" "p = coil_pin c \<or> p = rc_reset_pin c \<and> rc_reset_pin c \<ge> 0"
  shows "\<exists>w'. gp_write pal p v w = (WINK_OK, w') \<and> relay_pins c ow w' \<and> held w' = held w
    \<and> level w' = (level w)(p := Some v) \<and> gp_ms pal w' = gp_ms pal w"
proof -
  have "ok w" "good p" "held w p \<noteq> None" using assms by (auto simp: relay_pins_def)
  from write_held [OF this, of v] relay_pins_keep [OF assms(1)] show ?thesis by auto
qed

lemma relay_inactive:
  assumes "relay_pins c ow w"
  shows "relay_pins c ow (relay_write_both_inactive pal c w)"
    "held (relay_write_both_inactive pal c w) = held w"
    "level (relay_write_both_inactive pal c w) = (if rc_reset_pin c \<ge> 0
       then (level w)(coil_pin c := Some (rc_active_low c), rc_reset_pin c := Some (rc_active_low c))
       else (level w)(coil_pin c := Some (rc_active_low c)))"
    "gp_ms pal (relay_write_both_inactive pal c w) = gp_ms pal w"
proof -
  from relay_write [OF assms, of "coil_pin c" "rc_active_low c"] obtain w1 where
    w1: "gp_write pal (coil_pin c) (rc_active_low c) w = (WINK_OK, w1)" "relay_pins c ow w1" "held w1 = held w"
      "level w1 = (level w)(coil_pin c := Some (rc_active_low c))" "gp_ms pal w1 = gp_ms pal w" by blast
  let ?w = "relay_write_both_inactive pal c w"
  have "relay_pins c ow ?w \<and> held ?w = held w \<and> gp_ms pal ?w = gp_ms pal w
      \<and> level ?w = (if rc_reset_pin c \<ge> 0
         then (level w)(coil_pin c := Some (rc_active_low c), rc_reset_pin c := Some (rc_active_low c))
         else (level w)(coil_pin c := Some (rc_active_low c)))"
  proof (cases "rc_reset_pin c \<ge> 0")
    case True
    with relay_write [OF w1(2), of "rc_reset_pin c" "rc_active_low c"] w1 show ?thesis
      by (auto simp: relay_write_both_inactive_def)
  next
    case False
    with w1 show ?thesis by (simp add: relay_write_both_inactive_def)
  qed
  then show "relay_pins c ow ?w" "held ?w = held w" "gp_ms pal ?w = gp_ms pal w"
    "level ?w = (if rc_reset_pin c \<ge> 0
       then (level w)(coil_pin c := Some (rc_active_low c), rc_reset_pin c := Some (rc_active_low c))
       else (level w)(coil_pin c := Some (rc_active_low c)))" by blast+
qed

text \<open>A pulse after both coils were released energises the one coil.\<close>

lemma relay_pulse:
  assumes "relay_pins (rd_config d) ow w" "rc_variant (rd_config d) = DAL_RELAY_VARIANT_LATCHING_DUAL_PIN"
  defines "c \<equiv> rd_config d"
  shows "\<exists>w'. relay_start_pulse pal on d (relay_write_both_inactive pal c w)
      = (WINK_OK, d\<lparr> rd_pulse_start_ms := ucast (gp_ms pal w), rd_pulse_active := True \<rparr>, w')
    \<and> relay_pins c ow w' \<and> held w' = held w \<and> gp_ms pal w' = gp_ms pal w
    \<and> level w' = (level w)(coil_pin c := Some (on \<noteq> rc_active_low c), rc_reset_pin c := Some ((\<not> on) \<noteq> rc_active_low c))"
proof -
  let ?w1 = "relay_write_both_inactive pal c w" and ?p = "if on then coil_pin c else rc_reset_pin c"
  have r: "rc_reset_pin c \<ge> 0" "rc_reset_pin c \<noteq> coil_pin c"
    using assms by (auto simp: relay_pins_def DAL_RELAY_VARIANT_DIRECT_GPIO_def DAL_RELAY_VARIANT_LATCHING_DUAL_PIN_def)
  note i = relay_inactive [OF assms(1), folded c_def]
  have p: "?p = coil_pin c \<or> ?p = rc_reset_pin c \<and> rc_reset_pin c \<ge> 0" using r(1) by simp
  from relay_write [OF i(1) p, of "\<not> rc_active_low c"] obtain w' where
    w': "gp_write pal ?p (\<not> rc_active_low c) ?w1 = (WINK_OK, w')" "relay_pins c ow w'" "held w' = held ?w1"
      "level w' = (level ?w1)(?p := Some (\<not> rc_active_low c))" "gp_ms pal w' = gp_ms pal ?w1" by blast
  have "level w' = (level w)(coil_pin c := Some (on \<noteq> rc_active_low c), rc_reset_pin c := Some ((\<not> on) \<noteq> rc_active_low c))"
    unfolding w'(4) i(3) using r by (auto simp: fun_eq_iff)
  with w' i show ?thesis by (auto simp: relay_start_pulse_def Let_def simp flip: c_def)
qed

lemma relay_set_live:
  assumes "relay_live ow d w"
  shows "\<exists>d' w'. dal_relay_set pal on (Some d) w = (WINK_OK, Some d', w') \<and> relay_live ow d' w' \<and> held w' = held w
    \<and> rd_config d' = rd_config d \<and> rd_is_on d' = on \<and> gp_ms pal w' = gp_ms pal w"
proof (cases "rc_variant (rd_config d) = DAL_RELAY_VARIANT_DIRECT_GPIO")
  case True
  let ?c = "rd_config d"
  have pins: "relay_pins ?c ow w" using assms by (simp add: relay_live_def)
  from relay_write [OF pins, of "coil_pin ?c" "on \<noteq> rc_active_low ?c"] obtain w' where
    w': "gp_write pal (coil_pin ?c) (on \<noteq> rc_active_low ?c) w = (WINK_OK, w')" "relay_pins ?c ow w'" "held w' = held w"
      "level w' = (level w)(coil_pin ?c := Some (on \<noteq> rc_active_low ?c))" "gp_ms pal w' = gp_ms pal w" by blast
  have "(if on then \<not> rc_active_low ?c else \<not> \<not> rc_active_low ?c) = (on \<noteq> rc_active_low ?c)" by simp
  with True w' assms show ?thesis
    by (simp add: dal_relay_set_def relay_live_def relay_driven_def Let_def)
next
  case False
  let ?c = "rd_config d"
  have pins: "relay_pins ?c ow w" using assms by (simp add: relay_live_def)
  with False have v: "rc_variant ?c = DAL_RELAY_VARIANT_LATCHING_DUAL_PIN" by (simp add: relay_pins_def)
  have ne: "rc_reset_pin ?c \<noteq> coil_pin ?c" using pins False by (auto simp: relay_pins_def)
  from relay_pulse [OF pins v, of on] show ?thesis using False v assms ne
    by (auto simp: dal_relay_set_def relay_live_def relay_driven_def)
qed

lemma relay_poll_live:
  assumes "relay_live ow d w"
  shows "\<exists>d' w'. dal_relay_poll pal (Some d) w = (WINK_OK, Some d', w') \<and> relay_live ow d' w' \<and> held w' = held w
    \<and> rd_config d' = rd_config d \<and> rd_is_on d' = rd_is_on d
    \<and> (rd_pulse_active d' \<longrightarrow> d' = d \<and> w' = w
        \<and> ucast (gp_ms pal w) - rd_pulse_start_ms d < ucast (rc_pulse_duration_ms (rd_config d)))"
proof -
  let ?c = "rd_config d"
  have pins: "relay_pins ?c ow w" and "rd_initialized d" using assms by (simp_all add: relay_live_def)
  note i = relay_inactive [OF pins]
  show ?thesis
  proof (cases "rc_variant ?c = DAL_RELAY_VARIANT_DIRECT_GPIO")
    case True
    with assms show ?thesis by (simp add: dal_relay_poll_def relay_live_def relay_driven_def Let_def)
  next
    case False
    then have "rc_reset_pin ?c \<ge> 0" "rc_reset_pin ?c \<noteq> coil_pin ?c" using pins by (auto simp: relay_pins_def)
    with i assms False show ?thesis
      by (auto simp: dal_relay_poll_def relay_live_def relay_driven_def Let_def not_le)
  qed
qed

lemma relay_claims:
  assumes "ok w" "good (coil_pin c)" "rc_owner_name c = Some ow" "held w (coil_pin c) \<noteq> Some ow"
    "rc_reset_pin c \<ge> 0 \<longrightarrow> good (rc_reset_pin c) \<and> rc_reset_pin c \<noteq> coil_pin c \<and> held w (rc_reset_pin c) \<noteq> Some ow"
  shows "\<exists>st w'. claim_relay_pins pal c w = (st, w') \<and> ok w' \<and> level w' = level w
    \<and> (if st = WINK_OK
       then held w' (coil_pin c) = Some ow \<and> (rc_reset_pin c \<ge> 0 \<longrightarrow> held w' (rc_reset_pin c) = Some ow)
       else held w' = held w)"
proof -
  note pin = good_u16 [OF assms(2)]
  from assms(1,2,4) show ?thesis
  proof (cases rule: claim_cases)
    case (1 w1)
    show ?thesis
    proof (cases "rc_reset_pin c \<ge> 0")
      case True
      let ?r = "rc_reset_pin c"
      have r: "good ?r" "?r \<noteq> coil_pin c" "held w1 ?r \<noteq> Some ow" using assms(5) True 1(4) by auto
      from 1(2) r(1,3) show ?thesis
      proof (cases rule: claim_cases)
        case (1 w2)
        with \<open>claim_pin pal (coil_pin c) (Some ow) w = (WINK_OK, w1)\<close> \<open>held w1 = (held w)(coil_pin c \<mapsto> ow)\<close>
          \<open>level w1 = level w\<close> True pin assms(3) r(2)
        show ?thesis by (simp add: claim_relay_pins_def)
      next
        case (2 st)
        have h: "held w1 (coil_pin c) = Some ow" using 1(4) by simp
        from release_own [OF 1(2) assms(2) h] obtain w2 where
          w2: "release_pin pal (coil_pin c) (Some ow) w1 = (WINK_OK, w2)" "ok w2"
            "held w2 = (held w1)(coil_pin c := None)" "level w2 = level w1" by blast
        have "held w2 = held w" unfolding w2(3) 1(4) using 1(3) by (simp add: fun_upd_idem)
        with 1 2 w2 True pin assms(3) show ?thesis by (simp add: claim_relay_pins_def)
      qed
    next
      case False
      with 1 pin assms(3) show ?thesis by (simp add: claim_relay_pins_def)
    qed
  next
    case (2 st)
    with pin assms(1,3) show ?thesis by (simp add: claim_relay_pins_def)
  qed
qed

lemma relay_pin_modes:
  assumes "relay_pins c ow w"
  shows "\<exists>w'. init_relay_pins pal c w = (WINK_OK, w') \<and> relay_pins c ow w'"
proof -
  have p: "ok w" "good (coil_pin c)" "held w (coil_pin c) \<noteq> None" using assms by (auto simp: relay_pins_def)
  from init_held [OF p, of PAL_GPIO_OUTPUT_PUSH_PULL] obtain w1 where
    w1: "gp_init pal (coil_pin c) PAL_GPIO_OUTPUT_PUSH_PULL w = (WINK_OK, w1)" "ok w1" "held w1 = held w" by blast
  note p1 = relay_pins_keep [OF assms w1(2,3)]
  show ?thesis
  proof (cases "rc_reset_pin c \<ge> 0")
    case True
    then have r: "good (rc_reset_pin c)" "held w1 (rc_reset_pin c) \<noteq> None" using p1 by (auto simp: relay_pins_def)
    from init_held [OF w1(2) r, of PAL_GPIO_OUTPUT_PUSH_PULL] obtain w2 where
      w2: "gp_init pal (rc_reset_pin c) PAL_GPIO_OUTPUT_PUSH_PULL w1 = (WINK_OK, w2)" "ok w2" "held w2 = held w1" by blast
    from relay_pins_keep [OF p1 w2(2,3)] w1(1) w2(1) True show ?thesis by (simp add: init_relay_pins_def)
  next
    case False
    with w1(1) p1 show ?thesis by (simp add: init_relay_pins_def)
  qed
qed

lemma relay_start_driven:
  assumes "relay_pins (rd_config d) ow w" "\<not> rd_pulse_active d"
  shows "\<exists>d' w'. start_relay pal d w = (WINK_OK, d', w') \<and> relay_pins (rd_config d') ow w' \<and> relay_driven d' w'
    \<and> rd_config d' = rd_config d \<and> rd_is_on d' = rd_is_on d"
proof (cases "rc_variant (rd_config d) = DAL_RELAY_VARIANT_DIRECT_GPIO")
  case True
  let ?c = "rd_config d"
  have "rc_variant ?c \<noteq> DAL_RELAY_VARIANT_LATCHING_DUAL_PIN"
    using True by (simp add: DAL_RELAY_VARIANT_DIRECT_GPIO_def DAL_RELAY_VARIANT_LATCHING_DUAL_PIN_def)
  moreover have "(if rd_is_on d then \<not> rc_active_low ?c else \<not> \<not> rc_active_low ?c) = (rd_is_on d \<noteq> rc_active_low ?c)"
    by simp
  moreover from relay_write [OF assms(1), of "coil_pin ?c" "rd_is_on d \<noteq> rc_active_low ?c"] obtain w' where
    "gp_write pal (coil_pin ?c) (rd_is_on d \<noteq> rc_active_low ?c) w = (WINK_OK, w')" "relay_pins ?c ow w'"
    "level w' = (level w)(coil_pin ?c := Some (rd_is_on d \<noteq> rc_active_low ?c))" by blast
  ultimately show ?thesis using True assms(2) by (simp add: start_relay_def relay_driven_def Let_def)
next
  case False
  let ?c = "rd_config d"
  have v: "rc_variant ?c = DAL_RELAY_VARIANT_LATCHING_DUAL_PIN" and "rc_reset_pin ?c \<noteq> coil_pin ?c"
    using assms(1) False by (auto simp: relay_pins_def)
  let ?d = "d\<lparr> rd_pulse_start_ms := ucast (gp_ms pal w), rd_pulse_active := True \<rparr>"
  from relay_pulse [OF assms(1) v, of "rd_is_on d"] obtain w' where
    w': "relay_start_pulse pal (rd_is_on d) d (relay_write_both_inactive pal ?c w) = (WINK_OK, ?d, w')"
      "relay_pins ?c ow w'" "level w' = (level w)(coil_pin ?c := Some (rd_is_on d \<noteq> rc_active_low ?c),
         rc_reset_pin ?c := Some ((\<not> rd_is_on d) \<noteq> rc_active_low ?c))" by blast
  have "start_relay pal d w = (WINK_OK, ?d, w')" using v w'(1) by (simp add: start_relay_def)
  moreover have "relay_driven ?d w'"
    using w'(3) False \<open>rc_reset_pin ?c \<noteq> coil_pin ?c\<close> by (simp add: relay_driven_def Let_def)
  ultimately show ?thesis using w'(2) by simp
qed

lemma relay_init_result:
  assumes "ok w" "good (coil_pin c)" "rc_owner_name c = Some ow" "ow \<noteq> reserved" "held w (coil_pin c) \<noteq> Some ow"
    "rc_reset_pin c \<ge> 0 \<longrightarrow> good (rc_reset_pin c) \<and> rc_reset_pin c \<noteq> coil_pin c \<and> held w (rc_reset_pin c) \<noteq> Some ow"
    "\<not> rd_initialized d"
  shows "\<exists>st d' w'. dal_relay_init pal (Some d) (Some c) w = (st, Some d', w')
    \<and> (relay_config_ok c \<and> fst (claim_relay_pins pal c w) = WINK_OK \<longrightarrow> st = WINK_OK)
    \<and> (if st = WINK_OK
       then relay_live ow d' w' \<and> rd_is_on d' = rc_initial_state c
         \<and> rd_config d' = c\<lparr> rc_pulse_duration_ms := rc_pulse_duration_ms (rd_config d') \<rparr>
       else d' = d \<and> ok w' \<and> held w' = held w \<and> level w' = level w)"
proof -
  from relay_claims [OF assms(1-3,5,6)] obtain rs w1 where
    cl: "claim_relay_pins pal c w = (rs, w1)" "ok w1" "level w1 = level w"
      "if rs = WINK_OK then held w1 (coil_pin c) = Some ow \<and> (rc_reset_pin c \<ge> 0 \<longrightarrow> held w1 (rc_reset_pin c) = Some ow)
       else held w1 = held w" by blast
  show ?thesis
  proof (cases "relay_config_ok c \<and> rs = WINK_OK")
    case False
    then show ?thesis using cl assms(1,3,7) by (auto simp: dal_relay_init_def relay_config_ok_def)
  next
    case True
    let ?pulse = "if rc_pulse_duration_ms c = 0 then DAL_RELAY_DEFAULT_PULSE_MS else rc_pulse_duration_ms c"
    let ?d = "d\<lparr> rd_config := c\<lparr> rc_pulse_duration_ms := ?pulse \<rparr>, rd_pulse_start_ms := 0,
      rd_pulse_active := False, rd_is_on := rc_initial_state c \<rparr>"
    have "relay_pins c ow w1" using True cl assms(2-4,6) by (auto simp: relay_pins_def relay_config_ok_def)
    from relay_pin_modes [OF this] obtain w2 where w2: "init_relay_pins pal c w1 = (WINK_OK, w2)" "relay_pins c ow w2"
      by blast
    have "relay_pins (rd_config ?d) ow w2" "\<not> rd_pulse_active ?d" using w2(2) by (simp_all add: relay_pins_def)
    from relay_start_driven [OF this] obtain d' w' where
      s: "start_relay pal ?d w2 = (WINK_OK, d', w')" "relay_pins (rd_config d') ow w'" "relay_driven d' w'"
        "rd_config d' = rd_config ?d" "rd_is_on d' = rd_is_on ?d" by blast
    have "dal_relay_init pal (Some d) (Some c) w
        = (WINK_OK, Some (d'\<lparr> rd_initialized := True, rd_last_status := WINK_OK \<rparr>), w')"
      using True cl(1) w2(1) s(1) assms(3,7) by (simp add: dal_relay_init_def relay_config_ok_def)
    then show ?thesis using s by (auto simp: relay_live_def relay_driven_def)
  qed
qed

text \<open>Deinitialising gives everything back. A latching relay is sent its reset pulse and has both
  coils released again at the same instant, so that the pulse has no length.\<close>

lemma relay_deinit_result:
  assumes "relay_live ow d w" "rc_variant (rd_config d) = DAL_RELAY_VARIANT_LATCHING_DUAL_PIN"
  defines "p \<equiv> coil_pin (rd_config d)" and "r \<equiv> rc_reset_pin (rd_config d)"
  shows "\<exists>w1 w'. dal_relay_off pal (Some d) w = (WINK_OK, Some (d\<lparr> rd_pulse_start_ms := ucast (gp_ms pal w),
        rd_pulse_active := True, rd_is_on := False, rd_last_status := WINK_OK \<rparr>), w1)
    \<and> level w1 r = Some (\<not> rc_active_low (rd_config d)) \<and> gp_ms pal w1 = gp_ms pal w
    \<and> dal_relay_deinit pal (Some d) w = (WINK_OK, Some relay_zero, w') \<and> ok w'
    \<and> gp_ms pal w' = gp_ms pal w1 \<and> held w' = (held w)(p := None, r := None)
    \<and> level w' = (level w)(p := None, r := None)"
proof -
  let ?c = "rd_config d"
  have pins: "relay_pins ?c ow w" and init: "rd_initialized d" using assms(1) by (simp_all add: relay_live_def)
  from pins have ow: "rc_owner_name ?c = Some ow" "ow \<noteq> reserved" "good p" "held w p = Some ow"
    by (simp_all add: relay_pins_def p_def)
  have dv: "rc_variant ?c \<noteq> DAL_RELAY_VARIANT_DIRECT_GPIO"
    using assms(2) by (simp add: DAL_RELAY_VARIANT_DIRECT_GPIO_def DAL_RELAY_VARIANT_LATCHING_DUAL_PIN_def)
  from pins dv have r: "r \<ge> 0" "good r" "r \<noteq> p" "held w r = Some ow" by (auto simp: relay_pins_def p_def r_def)
  let ?d = "d\<lparr> rd_pulse_start_ms := ucast (gp_ms pal w), rd_pulse_active := True \<rparr>"
  from relay_pulse [OF pins assms(2), of False] obtain w1 where
    w1: "relay_start_pulse pal False d (relay_write_both_inactive pal ?c w) = (WINK_OK, ?d, w1)" "relay_pins ?c ow w1"
      "held w1 = held w" "gp_ms pal w1 = gp_ms pal w"
      "level w1 = (level w)(p := Some (rc_active_low ?c), r := Some (\<not> rc_active_low ?c))"
    unfolding p_def r_def by auto
  have off: "dal_relay_off pal (Some d) w = (WINK_OK, Some (?d\<lparr> rd_is_on := False, rd_last_status := WINK_OK \<rparr>), w1)"
    using w1(1) init dv assms(2) by (simp add: dal_relay_off_def dal_relay_set_def)
  let ?w2 = "relay_write_both_inactive pal ?c w1"
  note w2 = relay_inactive [OF w1(2)]
  have ok2: "ok ?w2" and h2: "held ?w2 p = Some ow" using w2(1) by (simp_all add: relay_pins_def p_def)
  note r3 = reset_held_simps [OF ok2 ow(3) h2 ow(2)]
  have h3: "held (gp_reset pal p ?w2) r = Some ow" using r3(2) w2(2) w1(3) r(4) by simp
  note r4 = reset_held_simps [OF r3(1) r(2) h3 ow(2)]
  let ?w4 = "gp_reset pal r (gp_reset pal p ?w2)"
  have w4: "reset_relay_pins pal ?c ?w2 = ?w4" using r(1) by (simp add: reset_relay_pins_def p_def r_def)
  have h4: "held ?w4 p = Some ow" using r4(2) r3(2) h2 by simp
  note r5 = release_own_simps [OF r4(1) ow(3) h4]
  let ?w5 = "snd (release_pin pal p (Some ow) ?w4)"
  have h5: "held ?w5 r = Some ow" using r5(3) r4(2) r3(2) w2(2) w1(3) r(3,4) by simp
  note r6 = release_own_simps [OF r5(2) r(2) h5]
  let ?w6 = "snd (release_pin pal r (Some ow) ?w5)"
  have rel: "release_relay_claims pal ?c ?w4 = ?w6"
    using ow(1) r(1) good_u16 [of "rc_pin ?c"] ow(3) by (simp add: release_relay_claims_def p_def r_def)
  have deinit: "dal_relay_deinit pal (Some d) w = (WINK_OK, Some relay_zero, ?w6)"
    using init off w4 rel by (simp add: dal_relay_deinit_def)
  have "held ?w6 = (held w)(p := None, r := None)"
    using r6(3) r5(3) r4(2) r3(2) w2(2) w1(3) by simp
  moreover have "level ?w6 = (level w)(p := None, r := None)"
    using r6(4) r5(4) r4(3) r3(3) w2(3) w1(5) r(1,3) by (simp add: fun_eq_iff p_def r_def)
  moreover have "gp_ms pal ?w6 = gp_ms pal w1" using r6(5) r5(5) r4(4) r3(4) w2(4) by simp
  ultimately show ?thesis using off deinit r6(2) w1(4,5) r(3)
    by (intro exI [of _ w1] exI [of _ ?w6]) simp
qed

end

section \<open>Histories of a relay\<close>

datatype relay_op = Relay_set bool | Relay_toggle | Relay_poll | Relay_safe_off

primrec relay_do :: "'w gpio_pal \<Rightarrow> relay_op \<Rightarrow> dal_relay_t option \<Rightarrow> 'w \<Rightarrow> wink_status_t \<times> dal_relay_t option \<times> 'w" where
  "relay_do pal (Relay_set on) = dal_relay_set pal on"
| "relay_do pal Relay_toggle = dal_relay_toggle pal"
| "relay_do pal Relay_poll = dal_relay_poll pal"
| "relay_do pal Relay_safe_off = dal_relay_safe_off pal"

text \<open>What can become of a relay that was initialised on the board \<open>w0\<close>: calls of the driver in
  any order, and steps \<open>env\<close> of the world around it.\<close>

inductive relay_reach ::
  "'w gpio_pal \<Rightarrow> ('w \<Rightarrow> 'w \<Rightarrow> bool) \<Rightarrow> dal_relay_config_t \<Rightarrow> 'w \<Rightarrow> dal_relay_t \<Rightarrow> 'w \<Rightarrow> bool"
  for pal env c w0 where
  relay_begin: "dal_relay_init pal (Some d0) (Some c) w0 = (WINK_OK, Some d, w) \<Longrightarrow> relay_reach pal env c w0 d w"
| relay_call: "relay_reach pal env c w0 d w \<Longrightarrow> relay_do pal op (Some d) w = (st, Some d', w') \<Longrightarrow>
    relay_reach pal env c w0 d' w'"
| relay_env: "relay_reach pal env c w0 d w \<Longrightarrow> env w w' \<Longrightarrow> relay_reach pal env c w0 d w'"

inductive_cases relay_reachE: "relay_reach pal env c w0 d w"

context gpio_board begin

lemma relay_do_live:
  assumes "relay_live ow d w"
  shows "\<exists>d' w'. relay_do pal op (Some d) w = (WINK_OK, Some d', w') \<and> relay_live ow d' w' \<and> rd_config d' = rd_config d"
proof (cases op)
  case (Relay_set on)
  with relay_set_live [OF assms, of on] show ?thesis by auto
next
  case Relay_toggle
  with relay_set_live [OF assms, of "\<not> rd_is_on d"] assms show ?thesis
    by (auto simp: dal_relay_toggle_def relay_live_def)
next
  case Relay_poll
  with relay_poll_live [OF assms] show ?thesis by auto
next
  case Relay_safe_off
  with relay_set_live [OF assms, of False] assms show ?thesis
    by (auto simp: dal_relay_safe_off_def dal_relay_off_def relay_live_def)
qed

lemma relay_reach_live:
  assumes "relay_reach pal env c w0 d w"
    and "\<And>w w'. env w w' \<Longrightarrow> ok w \<Longrightarrow> ok w' \<and> held w' = held w \<and> level w' = level w"
    and "ok w0" "good (coil_pin c)" "rc_owner_name c = Some ow" "ow \<noteq> reserved" "held w0 (coil_pin c) \<noteq> Some ow"
    and "rc_reset_pin c \<ge> 0 \<longrightarrow> good (rc_reset_pin c) \<and> rc_reset_pin c \<noteq> coil_pin c \<and> held w0 (rc_reset_pin c) \<noteq> Some ow"
  shows "relay_live ow d w \<and> rd_config d = c\<lparr> rc_pulse_duration_ms := rc_pulse_duration_ms (rd_config d) \<rparr>"
  using assms(1)
proof induction
  case (relay_begin d0 d w)
  have n: "\<not> rd_initialized d0" using relay_begin assms(5) by (auto simp: dal_relay_init_def)
  from relay_init_result [OF assms(3-8) n] relay_begin show ?case by auto
next
  case (relay_call d w op st d' w')
  with relay_do_live [of ow d w op] show ?case by auto
next
  case (relay_env d w w')
  then have "ok w" by (simp add: relay_live_def relay_pins_def)
  with assms(2) [OF relay_env(2)] relay_env(3) show ?case
    by (auto simp: relay_live_def relay_driven_def relay_pins_def Let_def)
qed

end

text \<open>On the host, time passes between the calls.\<close>

definition host_elapse :: "host_board \<Rightarrow> host_board \<Rightarrow> bool" where
  "host_elapse b b' \<longleftrightarrow> hg_time_us (hb_gpio b) \<le> hg_time_us (hb_gpio b')
    \<and> b' = b\<lparr> hb_gpio := (hb_gpio b)\<lparr> hg_time_us := hg_time_us (hb_gpio b') \<rparr> \<rparr>"

lemma host_elapse_keeps:
  assumes "host_elapse b b'" "host_ok b"
  shows "host_ok b' \<and> host_held b' = host_held b \<and> host_level b' = host_level b"
proof -
  obtain t where "b' = b\<lparr> hb_gpio := (hb_gpio b)\<lparr> hg_time_us := t \<rparr> \<rparr>" using assms(1) by (auto simp: host_elapse_def)
  then show ?thesis using assms(2)
    by (simp add: host_ok_def gpio_ok_def host_held_cong host_level_def pin_level_def fun_eq_iff)
qed

text \<open>C21: after any sequence of calls of the relay driver, polls and waiting times on a board
  where the pins were free, a direct relay's pin follows the contact; of a latching relay the set
  coil is energised exactly during a pulse towards closed and the reset coil exactly during a
  pulse towards open, so that never both are, and a poll after the pulse time releases both.\<close>
theorem relay_pins_follow_state:
  assumes "relay_reach (host_pal hook) host_elapse c b0 d b" "host_ok b0"
    and "rc_owner_name c = Some ow" "ow \<noteq> ''pal_gpio''"
    and "\<not> pin_bad (coil_pin c)" "host_held b0 (coil_pin c) \<noteq> Some ow"
    and "rc_reset_pin c \<ge> 0 \<longrightarrow>
      \<not> pin_bad (rc_reset_pin c) \<and> rc_reset_pin c \<noteq> coil_pin c \<and> host_held b0 (rc_reset_pin c) \<noteq> Some ow"
  shows "if rc_variant c = DAL_RELAY_VARIANT_DIRECT_GPIO
    then host_level b (coil_pin c) = Some (rd_is_on d \<noteq> rc_active_low c)
    else host_level b (coil_pin c) = Some ((rd_pulse_active d \<and> rd_is_on d) \<noteq> rc_active_low c)
      \<and> host_level b (rc_reset_pin c) = Some ((rd_pulse_active d \<and> \<not> rd_is_on d) \<noteq> rc_active_low c)
      \<and> (ucast (hg_time_us (hb_gpio b) div 1000) - rd_pulse_start_ms d \<ge> ucast (rc_pulse_duration_ms (rd_config d))
          \<longrightarrow> (\<exists>d' b'. dal_relay_poll (host_pal hook) (Some d) b = (WINK_OK, Some d', b')
                \<and> \<not> rd_pulse_active d' \<and> rd_is_on d' = rd_is_on d))"
proof -
  from host.relay_reach_live [OF assms(1) host_elapse_keeps assms(2,5,3,4,6,7)]
  have l: "host.relay_live ow d b" and c: "rd_config d = c\<lparr> rc_pulse_duration_ms := rc_pulse_duration_ms (rd_config d) \<rparr>"
    by blast+
  have "rc_variant (rd_config d) = rc_variant c" "coil_pin (rd_config d) = coil_pin c"
    "rc_reset_pin (rd_config d) = rc_reset_pin c" "rc_active_low (rd_config d) = rc_active_low c"
    by (subst c, simp)+
  note cfg = this
  have ms: "gp_ms (host_pal hook) b = hg_time_us (hb_gpio b) div 1000" by (simp add: host_pal_def)
  from host.relay_poll_live [OF l, of hook] obtain d' b' where
    p: "dal_relay_poll (host_pal hook) (Some d) b = (WINK_OK, Some d', b')" "rd_is_on d' = rd_is_on d"
      "rd_pulse_active d' \<longrightarrow> ucast (gp_ms (host_pal hook) b) - rd_pulse_start_ms d
         < ucast (rc_pulse_duration_ms (rd_config d))" by blast
  have "host.relay_driven d b" using l by (simp add: host.relay_live_def)
  then show ?thesis using p unfolding ms by (auto simp: host.relay_driven_def cfg not_le Let_def)
qed

definition demo_relay :: dal_relay_config_t where
  "demo_relay = \<lparr> rc_owner_name = Some ''lock'', rc_pin = 4, rc_reset_pin = 5, rc_pulse_duration_ms = 0,
     rc_variant = 1, rc_active_low = False, rc_initial_state = True \<rparr>"

lemma relay_witness:
  "\<exists>d b. relay_reach (host_pal (\<lambda>_ h. h)) host_elapse demo_relay demo_board d b
    \<and> host_level b 4 = Some (rd_pulse_active d \<and> rd_is_on d)
    \<and> host_level b 5 = Some (rd_pulse_active d \<and> \<not> rd_is_on d)"
proof -
  have c: "fst (claim_relay_pins (host_pal (\<lambda>_ h. h)) demo_relay demo_board) = WINK_OK" by code_simp
  have cfg: "relay_config_ok demo_relay"
    by (simp add: relay_config_ok_def demo_relay_def DAL_RELAY_VARIANT_LATCHING_DUAL_PIN_def DAL_RELAY_MAX_PULSE_MS_def)
  have pins: "\<not> pin_bad (coil_pin demo_relay)" "\<not> pin_bad (rc_reset_pin demo_relay)"
    "rc_reset_pin demo_relay \<noteq> coil_pin demo_relay" "rc_owner_name demo_relay = Some ''lock''"
    by (simp_all add: demo_relay_def pin_bad_def HOST_MAX_GPIO_PIN_def)
  from host.relay_init_result [OF demo_board_ok pins(1,4), of relay_zero "\<lambda>_ h. h"] cfg c pins
  obtain d b where "dal_relay_init (host_pal (\<lambda>_ h. h)) (Some relay_zero) (Some demo_relay) demo_board
      = (WINK_OK, Some d, b)"
    by (auto simp: demo_board_free relay_zero_def)
  then have r: "relay_reach (host_pal (\<lambda>_ h. h)) host_elapse demo_relay demo_board d b" by (rule relay_begin)
  have "if rc_variant demo_relay = DAL_RELAY_VARIANT_DIRECT_GPIO
    then host_level b (coil_pin demo_relay) = Some (rd_is_on d \<noteq> rc_active_low demo_relay)
    else host_level b (coil_pin demo_relay) = Some ((rd_pulse_active d \<and> rd_is_on d) \<noteq> rc_active_low demo_relay)
      \<and> host_level b (rc_reset_pin demo_relay) = Some ((rd_pulse_active d \<and> \<not> rd_is_on d) \<noteq> rc_active_low demo_relay)"
    using relay_pins_follow_state [OF r demo_board_ok, of "''lock''"]
    by (simp add: demo_relay_def demo_board_free pin_bad_def HOST_MAX_GPIO_PIN_def DAL_RELAY_VARIANT_DIRECT_GPIO_def)
  then show ?thesis using r by (auto simp: demo_relay_def DAL_RELAY_VARIANT_DIRECT_GPIO_def)
qed

end
