(* ===== verification/Fail_Safe.thy ===== *)
theory Fail_Safe
  imports Dal_Outputs Actuator_Registry
begin

text \<open>
  The fail-safe path end to end: the sweep of \<^verbatim>\<open>runtime/src/wink_actuator_registry.c\<close> through the
  safe-off functions of the output drivers, down to the pins of a board. The registry holds the
  drivers' functions with the device as context; here the context is the index of the device in a
  bank of devices.
\<close>

section \<open>Banks of outputs\<close>

datatype out_dev = Led_dev dal_led_t | Relay_dev dal_relay_t

primrec out_safe_off :: "'w gpio_pal \<Rightarrow> out_dev \<Rightarrow> 'w \<Rightarrow> wink_status_t \<times> out_dev \<times> 'w" where
  "out_safe_off pal (Led_dev l) w = (let (st, l', w) = dal_led_safe_off pal (Some l) w in (st, Led_dev (the l'), w))"
| "out_safe_off pal (Relay_dev r) w = (let (st, r', w) = dal_relay_safe_off pal (Some r) w in (st, Relay_dev (the r'), w))"

definition safe_off_call ::
  "'w gpio_pal \<Rightarrow> nat \<Rightarrow> nat \<Rightarrow> out_dev list \<times> 'w \<Rightarrow> wink_status_t \<times> out_dev list \<times> 'w" where
  "safe_off_call pal fn ctx s =
    (let (ds, w) = s; (st, d, w) = out_safe_off pal (ds ! ctx) w in (st, ds[ctx := d], w))"

primrec out_pins :: "out_dev \<Rightarrow> int set" where
  "out_pins (Led_dev l) = {sint (lc_pin (ld_config l))}"
| "out_pins (Relay_dev r) = (if rc_variant (rd_config r) = DAL_RELAY_VARIANT_DIRECT_GPIO then {coil_pin (rd_config r)}
     else {coil_pin (rd_config r), rc_reset_pin (rd_config r)})"

text \<open>The levels of an output that is off: the pin of an LED or a direct relay is inactive; a
  latching relay has its set coil released and its reset coil in the pulse that opens the contact.\<close>

primrec out_off :: "(int \<Rightarrow> bool option) \<Rightarrow> out_dev \<Rightarrow> bool" where
  "out_off lev (Led_dev l) \<longleftrightarrow> lev (sint (lc_pin (ld_config l))) = Some (\<not> lc_active_high (ld_config l))"
| "out_off lev (Relay_dev r) \<longleftrightarrow> lev (coil_pin (rd_config r)) = Some (rc_active_low (rd_config r))
     \<and> \<not> rd_is_on r
     \<and> (rc_variant (rd_config r) \<noteq> DAL_RELAY_VARIANT_DIRECT_GPIO \<longrightarrow> rd_pulse_active r
          \<and> lev (rc_reset_pin (rd_config r)) = Some (\<not> rc_active_low (rd_config r)))"

lemma out_off_cong: "\<forall>p \<in> out_pins d. lev' p = lev p \<Longrightarrow> out_off lev' d = out_off lev d"
  by (cases d) auto

context gpio_board begin

primrec out_live :: "'w \<Rightarrow> out_dev \<Rightarrow> bool" where
  "out_live w (Led_dev l) \<longleftrightarrow> ld_initialized l \<and> ok w \<and> good (sint (lc_pin (ld_config l)))
     \<and> held w (sint (lc_pin (ld_config l))) \<noteq> None"
| "out_live w (Relay_dev r) \<longleftrightarrow> rd_initialized r \<and> (\<exists>ow. relay_pins (rd_config r) ow w)"

lemma out_live_keep:
  assumes "out_live w d" "ok w'" "held w' = held w"
  shows "out_live w' d"
  using assms(1) relay_pins_keep [OF _ assms(2,3)] assms(2,3) by (cases d) auto

lemma out_safe_off_live:
  assumes "out_live w d"
  shows "\<exists>d' w'. out_safe_off pal d w = (WINK_OK, d', w') \<and> ok w' \<and> held w' = held w \<and> out_live w' d'
    \<and> out_pins d' = out_pins d \<and> out_off (level w') d' \<and> (\<forall>p. p \<notin> out_pins d \<longrightarrow> level w' p = level w p)"
proof (cases d)
  case (Led_dev l)
  then have l: "ok w" "good (sint (lc_pin (ld_config l)))" "held w (sint (lc_pin (ld_config l))) \<noteq> None" "ld_initialized l"
    using assms by simp_all
  from led_set_drives_pin [OF l, of False] l Led_dev show ?thesis
    by (auto simp: dal_led_safe_off_def dal_led_off_def)
next
  case (Relay_dev r)
  let ?c = "rd_config r"
  from assms Relay_dev obtain ow where pins: "relay_pins ?c ow w" and "rd_initialized r" by auto
  show ?thesis
  proof (cases "rc_variant ?c = DAL_RELAY_VARIANT_DIRECT_GPIO")
    case True
    let ?r = "r\<lparr> rd_is_on := False, rd_last_status := WINK_OK \<rparr>"
    from relay_write [OF pins, of "coil_pin ?c" "rc_active_low ?c"] obtain w' where
      w': "gp_write pal (coil_pin ?c) (rc_active_low ?c) w = (WINK_OK, w')" "relay_pins ?c ow w'" "held w' = held w"
        "level w' = (level w)(coil_pin ?c := Some (rc_active_low ?c))" by blast
    have "dal_relay_safe_off pal (Some r) w = (WINK_OK, Some ?r, w')"
      using w'(1) True \<open>rd_initialized r\<close> by (simp add: dal_relay_safe_off_def dal_relay_off_def dal_relay_set_def)
    then show ?thesis using Relay_dev True w' \<open>rd_initialized r\<close> by (auto simp: relay_pins_def)
  next
    case False
    then have v: "rc_variant ?c = DAL_RELAY_VARIANT_LATCHING_DUAL_PIN" "rc_reset_pin ?c \<noteq> coil_pin ?c"
      using pins by (auto simp: relay_pins_def)
    let ?r = "r\<lparr> rd_pulse_start_ms := ucast (gp_ms pal w), rd_pulse_active := True, rd_is_on := False,
      rd_last_status := WINK_OK \<rparr>"
    from relay_pulse [OF pins v(1), of False] obtain w' where
      w': "relay_start_pulse pal False r (relay_write_both_inactive pal ?c w)
          = (WINK_OK, r\<lparr> rd_pulse_start_ms := ucast (gp_ms pal w), rd_pulse_active := True \<rparr>, w')"
        "relay_pins ?c ow w'" "held w' = held w"
        "level w' = (level w)(coil_pin ?c := Some (rc_active_low ?c), rc_reset_pin ?c := Some (\<not> rc_active_low ?c))"
      by auto
    have "dal_relay_safe_off pal (Some r) w = (WINK_OK, Some ?r, w')"
      using w'(1) v(1) False \<open>rd_initialized r\<close>
      by (simp add: dal_relay_safe_off_def dal_relay_off_def dal_relay_set_def)
    then show ?thesis using Relay_dev False v(2) w' \<open>rd_initialized r\<close> by (auto simp: relay_pins_def)
  qed
qed

text \<open>A bank is live when its devices are and no two share a pin.\<close>

definition bank_live :: "out_dev list \<Rightarrow> 'w \<Rightarrow> bool" where
  "bank_live ds w \<longleftrightarrow> (\<forall>d \<in> set ds. out_live w d)
    \<and> (\<forall>i < length ds. \<forall>j < length ds. i \<noteq> j \<longrightarrow> out_pins (ds ! i) \<inter> out_pins (ds ! j) = {})"

lemma bank_step:
  assumes "bank_live ds w" "i < length ds"
  shows "\<exists>d' w'. safe_off_call pal fn i (ds, w) = (WINK_OK, ds[i := d'], w') \<and> bank_live (ds[i := d']) w'
    \<and> out_off (level w') d' \<and> (\<forall>j < length ds. j \<noteq> i \<longrightarrow> out_off (level w') (ds ! j) = out_off (level w) (ds ! j))"
proof -
  have live: "out_live w (ds ! i)" using assms by (simp add: bank_live_def)
  from out_safe_off_live [OF live] obtain d' w' where
    s: "out_safe_off pal (ds ! i) w = (WINK_OK, d', w')" "ok w'" "held w' = held w" "out_live w' d'"
      "out_pins d' = out_pins (ds ! i)" "out_off (level w') d'"
      "\<forall>p. p \<notin> out_pins (ds ! i) \<longrightarrow> level w' p = level w p" by blast
  have same: "\<forall>p \<in> out_pins (ds ! j). level w' p = level w p" if "j < length ds" "j \<noteq> i" for j
    using assms that s(7) unfolding bank_live_def by blast
  have "out_live w' (ds[i := d'] ! j)" if "j < length ds" for j
    using that s(4) out_live_keep [OF _ s(2,3), of "ds ! j"] assms(1)
    by (cases "j = i") (simp_all add: bank_live_def)
  then have "\<forall>d \<in> set (ds[i := d']). out_live w' d" by (auto simp: in_set_conv_nth)
  moreover have "out_pins (ds[i := d'] ! j) = out_pins (ds ! j)" if "j < length ds" for j
    using that s(5) by (cases "j = i") simp_all
  ultimately have "bank_live (ds[i := d']) w'" using assms(1) by (simp add: bank_live_def)
  moreover have "safe_off_call pal fn i (ds, w) = (WINK_OK, ds[i := d'], w')" using s(1) by (simp add: safe_off_call_def)
  ultimately show ?thesis using s(6) out_off_cong [OF same] by blast
qed

lemma sweep_turns_off:
  assumes "bank_live ds w" "\<forall>(fn, ctx) \<in> set es. ctx < length ds"
  shows "\<exists>rcs ds' w'. call_all (safe_off_call pal) es (ds, w) = (rcs, ds', w') \<and> set rcs \<subseteq> {WINK_OK}
    \<and> length ds' = length ds \<and> bank_live ds' w'
    \<and> (\<forall>i < length ds. i \<in> snd ` set es \<or> out_off (level w) (ds ! i) \<longrightarrow> out_off (level w') (ds' ! i))"
  using assms
proof (induction es arbitrary: ds w)
  case (Cons e es)
  obtain fn i where e: "e = (fn, i)" by fastforce
  with Cons.prems have i: "i < length ds" by simp
  from bank_step [OF Cons.prems(1) i, of fn] obtain d1 w1 where
    s: "safe_off_call pal fn i (ds, w) = (WINK_OK, ds[i := d1], w1)" "bank_live (ds[i := d1]) w1" "out_off (level w1) d1"
      "\<forall>j < length ds. j \<noteq> i \<longrightarrow> out_off (level w1) (ds ! j) = out_off (level w) (ds ! j)" by blast
  from Cons.IH [OF s(2)] Cons.prems(2) obtain rcs ds' w' where
    r: "call_all (safe_off_call pal) es (ds[i := d1], w1) = (rcs, ds', w')" "set rcs \<subseteq> {WINK_OK}"
      "length ds' = length ds" "bank_live ds' w'"
      "\<forall>j < length ds. j \<in> snd ` set es \<or> out_off (level w1) (ds[i := d1] ! j) \<longrightarrow> out_off (level w') (ds' ! j)"
    by auto
  have "out_off (level w') (ds' ! j)"
    if "j < length ds" "j \<in> snd ` set (e # es) \<or> out_off (level w) (ds ! j)" for j
    using r(5) that s(3,4) e by (cases "j = i") auto
  then show ?case using r s(1) e by auto
qed simp

end

section \<open>The host simulation\<close>

text \<open>An output in service: initialised, its pins its own.\<close>

primrec host_ready :: "host_board \<Rightarrow> out_dev \<Rightarrow> bool" where
  "host_ready b (Led_dev l) \<longleftrightarrow> ld_initialized l \<and> host_ok b \<and> \<not> pin_bad (sint (lc_pin (ld_config l)))
     \<and> host_held b (sint (lc_pin (ld_config l))) \<noteq> None"
| "host_ready b (Relay_dev r) \<longleftrightarrow> rd_initialized r \<and> (let c = rd_config r in \<exists>ow. host_ok b
     \<and> rc_owner_name c = Some ow \<and> ow \<noteq> ''pal_gpio''
     \<and> \<not> pin_bad (coil_pin c) \<and> host_held b (coil_pin c) = Some ow
     \<and> (rc_reset_pin c \<ge> 0 \<longrightarrow> \<not> pin_bad (rc_reset_pin c) \<and> rc_reset_pin c \<noteq> coil_pin c
          \<and> host_held b (rc_reset_pin c) = Some ow)
     \<and> (rc_variant c = DAL_RELAY_VARIANT_DIRECT_GPIO
         \<or> rc_variant c = DAL_RELAY_VARIANT_LATCHING_DUAL_PIN \<and> rc_reset_pin c \<ge> 0))"

definition disjoint_pins :: "out_dev list \<Rightarrow> bool" where
  "disjoint_pins ds \<longleftrightarrow>
    (\<forall>i < length ds. \<forall>j < length ds. i \<noteq> j \<longrightarrow> out_pins (ds ! i) \<inter> out_pins (ds ! j) = {})"

lemma host_ready_live: "host.out_live b d = host_ready b d"
  by (cases d) (simp_all add: host.relay_pins_def Let_def)

text \<open>C22: with outputs in service on distinct pins, whatever state they are in, the fail-safe sweep
  leaves every registered one off: the pins of LEDs and direct relays inactive, the contact of a
  latching relay on its way open. All outputs stay in service and no fault is recorded.\<close>
theorem fail_safe_turns_outputs_off:
  assumes "\<forall>d \<in> set ds. host_ready b d" "disjoint_pins ds" "\<forall>(fn, ctx) \<in> set (ar_list r). ctx < length ds"
  shows "\<exists>ds' b'. wink_actuator_safe_off_all (safe_off_call (host_pal hook)) r ((ds, b), tr) = ((ds', b'), tr)
    \<and> length ds' = length ds \<and> (\<forall>d \<in> set ds'. host_ready b' d)
    \<and> (\<forall>(fn, ctx) \<in> set (ar_list r). out_off (host_level b') (ds' ! ctx))"
proof -
  have "host.bank_live ds b" using assms(1,2) by (simp add: host.bank_live_def disjoint_pins_def host_ready_live)
  from host.sweep_turns_off [OF this assms(3), of hook] obtain rcs ds' b' where
    s: "call_all (safe_off_call (host_pal hook)) (ar_list r) (ds, b) = (rcs, ds', b')" "set rcs \<subseteq> {WINK_OK}"
      "length ds' = length ds" "host.bank_live ds' b'"
      "\<forall>i < length ds. i \<in> snd ` set (ar_list r) \<or> out_off (host_level b) (ds ! i) \<longrightarrow> out_off (host_level b') (ds' ! i)"
    by blast
  have "filter (\<lambda>(j, rc). rc \<noteq> WINK_OK) (zip [0 ..< length rcs] rcs) = []"
    using s(2) by (auto simp: filter_empty_conv dest!: set_zip_rightD)
  then have "fault_codes 0 rcs = []" by (simp add: fault_codes_def)
  then have "wink_actuator_safe_off_all (safe_off_call (host_pal hook)) r ((ds, b), tr) = ((ds', b'), tr)"
    using s(1) by (simp add: wink_actuator_safe_off_all_def safe_off_loop_spec ar_list_def)
  moreover have "\<forall>d \<in> set ds'. host_ready b' d" using s(4) by (simp add: host.bank_live_def host_ready_live)
  moreover have "out_off (host_level b') (ds' ! ctx)" if "(fn, ctx) \<in> set (ar_list r)" for fn ctx
    using that s(5) assms(3) by force
  ultimately show ?thesis using s(3) by blast
qed

definition demo_led :: dal_led_t where
  "demo_led = \<lparr> ld_config = \<lparr> lc_owner = Some ''led'', lc_pin = 4, lc_active_high = True \<rparr>,
     ld_is_on = True, ld_initialized = True \<rparr>"

definition demo_registry :: actuator_registry where
  "demo_registry = \<lparr> ar_entries = replicate 16 \<lparr> ae_fn = 1, ae_ctx = 0 \<rparr>, ar_count = 1 \<rparr>"

definition demo_trace :: wink_trace where
  "demo_trace = \<lparr> tr_buffer = replicate 32 0, tr_count = 0, tr_head = 0, tr_warn_count = 0 \<rparr>"

lemma fail_safe_witness:
  "\<exists>b ds' b'. wink_actuator_safe_off_all (safe_off_call (host_pal (\<lambda>_ h. h))) demo_registry
      (([Led_dev demo_led], b), demo_trace) = ((ds', b'), demo_trace) \<and> out_off (host_level b') (ds' ! 0)"
proof -
  have "\<not> pin_bad 4" by (simp add: pin_bad_def HOST_MAX_GPIO_PIN_def)
  from host.claim_free [OF demo_board_ok this demo_board_free demo_board_room, of "\<lambda>_ h. h" "''led''"]
  obtain b where b: "host_ok b" "host_held b = (host_held demo_board)(4 := Some ''led'')" by blast
  have ready: "\<forall>d \<in> set [Led_dev demo_led]. host_ready b d"
    using b by (simp add: demo_led_def pin_bad_def HOST_MAX_GPIO_PIN_def)
  have reg: "ar_list demo_registry = [(1, 0)]" by (simp add: ar_list_def demo_registry_def)
  from fail_safe_turns_outputs_off [OF ready, of demo_registry "\<lambda>_ h. h" demo_trace] show ?thesis
    by (auto simp: disjoint_pins_def reg)
qed

text \<open>The drivers report success to the sweep even when a pin cannot be written, so that no fault
  is recorded for an output that stays on.\<close>

lemma safe_off_hides_write_errors:
  "dal_led_safe_off pal (Some l) w = (WINK_OK, snd (dal_led_safe_off pal (Some l) w))"
  "dal_relay_safe_off pal (Some r) w = (WINK_OK, snd (dal_relay_safe_off pal (Some r) w))"
  by (simp_all add: dal_led_safe_off_def dal_relay_safe_off_def)

end
