(* ===== verification/Dal_Button.thy ===== *)
theory Dal_Button
  imports Gpio_Pal
begin

text \<open>
  The button driver \<^verbatim>\<open>dal/src/input/dal_button.c\<close>, against the pins of \<^theory_text>\<open>Gpio_Pal\<close>: debouncing by
  counting samples, press, release and long-press events, and the edge counter of the interrupt.
  An event callback may use the driver and the board, so it acts on the application's state, the
  device and the board together. The bodies of critical sections are single steps.
\<close>

section \<open>Data\<close>

datatype dal_button_event_t = DAL_BUTTON_EVT_PRESS | DAL_BUTTON_EVT_RELEASE | DAL_BUTTON_EVT_LONG_PRESS

record dal_button_config_t =
  bc_owner :: "string option"
  bc_pin :: u16
  bc_active_low :: bool
  bc_pull :: u8

record dal_button_t =
  bt_config :: dal_button_config_t
  bt_stable_pressed :: bool
  bt_last_reported :: bool
  bt_initialized :: bool
  bt_debounce_counter :: u8
  bt_debounce_threshold :: u8
  bt_event_cb :: "nat option"
  bt_event_cb_ctx :: nat
  bt_long_press_fired :: bool
  bt_prev_pressed_for_event :: bool
  bt_long_press_ms :: u32
  bt_press_start_ms :: u64
  bt_last_status :: wink_status_t
  bt_isr_counter_enabled :: bool
  bt_edge_count :: u32
  bt_event_backend :: u8
  bt_gpio_isr_registered :: bool
  bt_irq_pending :: bool

definition DAL_BUTTON_PULL_AUTO :: u8 where "DAL_BUTTON_PULL_AUTO = 0"
definition DAL_BUTTON_PULL_UP :: u8 where "DAL_BUTTON_PULL_UP = 1"
definition DAL_BUTTON_PULL_DOWN :: u8 where "DAL_BUTTON_PULL_DOWN = 2"
definition DAL_BUTTON_PULL_NONE :: u8 where "DAL_BUTTON_PULL_NONE = 3"
definition DAL_BUTTON_BACKEND_NONE :: u8 where "DAL_BUTTON_BACKEND_NONE = 0"
definition DAL_BUTTON_BACKEND_IRQ :: u8 where "DAL_BUTTON_BACKEND_IRQ = 2"
definition DAL_BUTTON_DEBOUNCE_THRESHOLD :: u8 where "DAL_BUTTON_DEBOUNCE_THRESHOLD = 3"
definition DAL_BUTTON_DEFAULT_LONG_PRESS_MS :: u32 where "DAL_BUTTON_DEFAULT_LONG_PRESS_MS = 3000"

definition button_zero :: dal_button_t where
  "button_zero = \<lparr> bt_config = \<lparr> bc_owner = None, bc_pin = 0, bc_active_low = False, bc_pull = 0 \<rparr>,
     bt_stable_pressed = False, bt_last_reported = False, bt_initialized = False, bt_debounce_counter = 0,
     bt_debounce_threshold = 0, bt_event_cb = None, bt_event_cb_ctx = 0, bt_long_press_fired = False,
     bt_prev_pressed_for_event = False, bt_long_press_ms = 0, bt_press_start_ms = 0, bt_last_status = WINK_OK,
     bt_isr_counter_enabled = False, bt_edge_count = 0, bt_event_backend = 0, bt_gpio_isr_registered = False,
     bt_irq_pending = False \<rparr>"

section \<open>Initialisation\<close>

definition button_raw_pressed :: "bool \<Rightarrow> bool \<Rightarrow> bool" where
  "button_raw_pressed raw_level active_low \<longleftrightarrow> raw_level \<noteq> active_low"

definition button_pull_valid :: "u8 \<Rightarrow> bool" where
  "button_pull_valid pull \<longleftrightarrow> pull \<le> DAL_BUTTON_PULL_NONE"

definition button_gpio_mode :: "dal_button_config_t \<Rightarrow> pal_gpio_mode_t" where
  "button_gpio_mode cfg =
    (if bc_pull cfg = DAL_BUTTON_PULL_AUTO
     then if bc_active_low cfg then PAL_GPIO_INPUT_PULLUP else PAL_GPIO_INPUT_PULLDOWN
     else if bc_pull cfg = DAL_BUTTON_PULL_UP then PAL_GPIO_INPUT_PULLUP
     else if bc_pull cfg = DAL_BUTTON_PULL_DOWN then PAL_GPIO_INPUT_PULLDOWN
     else PAL_GPIO_INPUT)"

definition dal_button_init ::
  "'w gpio_pal \<Rightarrow> dal_button_t option \<Rightarrow> dal_button_config_t option \<Rightarrow> 'w
    \<Rightarrow> wink_status_t \<times> dal_button_t option \<times> 'w" where
  "dal_button_init pal dev cfg w =
    (case (dev, cfg) of (Some d, Some c) \<Rightarrow>
       if bc_owner c = None then (WINK_ERR_INVALID_ARG, dev, w)
       else if bt_initialized d then (WINK_ERR_ALREADY_INITIALIZED, dev, w)
       else if \<not> button_pull_valid (bc_pull c) then (WINK_ERR_INVALID_ARG, dev, w)
       else let d = d\<lparr> bt_initialized := False \<rparr>;
                (rc, w) = gp_claim pal PAL_RESOURCE_GPIO_PIN (ucast (bc_pin c)) (bc_owner c) w
            in if wink_status_is_error rc then (rc, Some d, w)
       else let (rc, w) = gp_init pal (sint (bc_pin c)) (button_gpio_mode c) w
            in if wink_status_is_error rc
               then (rc, Some d, snd (gp_release pal PAL_RESOURCE_GPIO_PIN (ucast (bc_pin c)) (bc_owner c) w))
       else (WINK_OK, Some \<lparr> bt_config = c, bt_stable_pressed = False, bt_last_reported = False,
               bt_initialized = True, bt_debounce_counter = 0, bt_debounce_threshold = DAL_BUTTON_DEBOUNCE_THRESHOLD,
               bt_event_cb = None, bt_event_cb_ctx = 0, bt_long_press_fired = False,
               bt_prev_pressed_for_event = False, bt_long_press_ms = DAL_BUTTON_DEFAULT_LONG_PRESS_MS,
               bt_press_start_ms = 0, bt_last_status = WINK_OK, bt_isr_counter_enabled = False, bt_edge_count = 0,
               bt_event_backend = DAL_BUTTON_BACKEND_NONE, bt_gpio_isr_registered = False,
               bt_irq_pending = False \<rparr>, w)
     | _ \<Rightarrow> (WINK_ERR_INVALID_ARG, dev, w))"

section \<open>Polling\<close>

definition button_debounce :: "bool \<Rightarrow> dal_button_t \<Rightarrow> dal_button_t" where
  "button_debounce now_pressed d =
    (if now_pressed = bt_stable_pressed d then d\<lparr> bt_debounce_counter := 0 \<rparr>
     else let d = d\<lparr> bt_debounce_counter := bt_debounce_counter d + 1 \<rparr>
          in if bt_debounce_counter d \<ge> bt_debounce_threshold d
             then d\<lparr> bt_stable_pressed := now_pressed, bt_debounce_counter := 0 \<rparr> else d)"

type_synonym ('a, 'w) button_call = "nat \<Rightarrow> dal_button_event_t \<Rightarrow> nat \<Rightarrow> 'a \<times> dal_button_t \<times> 'w \<Rightarrow> 'a \<times> dal_button_t \<times> 'w"

definition fire_event ::
  "('a, 'w) button_call \<Rightarrow> dal_button_event_t \<Rightarrow> 'a \<times> dal_button_t \<times> 'w \<Rightarrow> 'a \<times> dal_button_t \<times> 'w" where
  "fire_event call evt s = (let (a, d, w) = s in call (the (bt_event_cb d)) evt (bt_event_cb_ctx d) s)"

definition button_edge_event ::
  "'w gpio_pal \<Rightarrow> ('a, 'w) button_call \<Rightarrow> 'a \<times> dal_button_t \<times> 'w \<Rightarrow> 'a \<times> dal_button_t \<times> 'w" where
  "button_edge_event pal call s =
    (let (a, d, w) = s
     in if bt_event_cb d \<noteq> None \<and> bt_stable_pressed d \<noteq> bt_prev_pressed_for_event d
        then let d = d\<lparr> bt_prev_pressed_for_event := bt_stable_pressed d \<rparr>
             in if bt_stable_pressed d
                then fire_event call DAL_BUTTON_EVT_PRESS
                       (a, d\<lparr> bt_press_start_ms := gp_ms pal w, bt_long_press_fired := False \<rparr>, w)
                else fire_event call DAL_BUTTON_EVT_RELEASE (a, d\<lparr> bt_long_press_fired := False \<rparr>, w)
        else s)"

definition button_long_event ::
  "'w gpio_pal \<Rightarrow> ('a, 'w) button_call \<Rightarrow> 'a \<times> dal_button_t \<times> 'w \<Rightarrow> 'a \<times> dal_button_t \<times> 'w" where
  "button_long_event pal call s =
    (let (a, d, w) = s
     in if bt_event_cb d \<noteq> None \<and> bt_stable_pressed d \<and> \<not> bt_long_press_fired d
        then let held_ms = gp_ms pal w - bt_press_start_ms d
             in if held_ms \<ge> ucast (bt_long_press_ms d)
                then fire_event call DAL_BUTTON_EVT_LONG_PRESS (a, d\<lparr> bt_long_press_fired := True \<rparr>, w)
                else s
        else s)"

definition dal_button_poll ::
  "'w gpio_pal \<Rightarrow> ('a, 'w) button_call \<Rightarrow> 'a \<Rightarrow> dal_button_t option \<Rightarrow> 'w
    \<Rightarrow> wink_status_t \<times> 'a \<times> dal_button_t option \<times> 'w" where
  "dal_button_poll pal call a dev w =
    (case dev of None \<Rightarrow> (WINK_ERR_INVALID_ARG, a, dev, w)
     | Some d \<Rightarrow>
       if \<not> bt_initialized d then (WINK_ERR_NOT_INITIALIZED, a, dev, w)
       else let (s, raw, w) = gp_read pal (sint (bc_pin (bt_config d))) w
            in if wink_status_is_error s then (s, a, Some (d\<lparr> bt_last_status := s \<rparr>), w)
               else let d = d\<lparr> bt_last_status := WINK_OK \<rparr>;
                        d = button_debounce (button_raw_pressed raw (bc_active_low (bt_config d))) d;
                        (a, d, w) = button_long_event pal call (button_edge_event pal call (a, d, w))
                    in (WINK_OK, a, Some d, w))"

section \<open>Queries and settings\<close>

definition dal_button_is_pressed :: "dal_button_t option \<Rightarrow> bool option \<Rightarrow> wink_status_t \<times> bool option" where
  "dal_button_is_pressed dev out =
    (case (dev, out) of (Some d, Some _) \<Rightarrow>
       if \<not> bt_initialized d then (WINK_ERR_NOT_INITIALIZED, out) else (WINK_OK, Some (bt_stable_pressed d))
     | _ \<Rightarrow> (WINK_ERR_INVALID_ARG, out))"

definition dal_button_get_status ::
  "dal_button_t option \<Rightarrow> wink_status_t option \<Rightarrow> wink_status_t \<times> wink_status_t option" where
  "dal_button_get_status dev out =
    (case (dev, out) of (Some d, Some _) \<Rightarrow>
       if \<not> bt_initialized d then (WINK_ERR_NOT_INITIALIZED, out) else (WINK_OK, Some (bt_last_status d))
     | _ \<Rightarrow> (WINK_ERR_INVALID_ARG, out))"

definition dal_button_was_pressed ::
  "dal_button_t option \<Rightarrow> bool option \<Rightarrow> wink_status_t \<times> dal_button_t option \<times> bool option" where
  "dal_button_was_pressed dev out =
    (case (dev, out) of (Some d, Some _) \<Rightarrow>
       if \<not> bt_initialized d then (WINK_ERR_NOT_INITIALIZED, dev, out)
       else let event = (bt_stable_pressed d \<and> \<not> bt_last_reported d)
            in (WINK_OK, Some (d\<lparr> bt_last_reported := bt_stable_pressed d \<rparr>), Some event)
     | _ \<Rightarrow> (WINK_ERR_INVALID_ARG, dev, out))"

definition dal_button_on_event ::
  "nat option \<Rightarrow> nat \<Rightarrow> dal_button_t option \<Rightarrow> wink_status_t \<times> dal_button_t option" where
  "dal_button_on_event cb ctx dev =
    (case dev of None \<Rightarrow> (WINK_ERR_INVALID_ARG, dev)
     | Some d \<Rightarrow>
       if \<not> bt_initialized d then (WINK_ERR_NOT_INITIALIZED, dev)
       else (WINK_OK, Some (d\<lparr> bt_event_cb := cb, bt_event_cb_ctx := ctx,
               bt_prev_pressed_for_event := bt_stable_pressed d, bt_long_press_fired := False \<rparr>)))"

definition dal_button_set_long_press_ms :: "u32 \<Rightarrow> dal_button_t option \<Rightarrow> wink_status_t \<times> dal_button_t option" where
  "dal_button_set_long_press_ms ms dev =
    (case dev of None \<Rightarrow> (WINK_ERR_INVALID_ARG, dev)
     | Some d \<Rightarrow>
       if \<not> bt_initialized d then (WINK_ERR_NOT_INITIALIZED, dev)
       else if ms = 0 then (WINK_ERR_INVALID_ARG, dev)
       else (WINK_OK, Some (d\<lparr> bt_long_press_ms := ms \<rparr>)))"

definition dal_button_set_debounce_ms :: "u32 \<Rightarrow> dal_button_t option \<Rightarrow> wink_status_t \<times> dal_button_t option" where
  "dal_button_set_debounce_ms ms dev =
    (case dev of None \<Rightarrow> (WINK_ERR_INVALID_ARG, dev)
     | Some d \<Rightarrow>
       if \<not> bt_initialized d then (WINK_ERR_NOT_INITIALIZED, dev)
       else if ms = 0 then (WINK_ERR_INVALID_ARG, dev)
       else let samples = ms div 10;
                samples = (if samples < 1 then 1 else samples);
                samples = (if samples > 255 then 255 else samples)
            in (WINK_OK, Some (d\<lparr> bt_debounce_threshold := ucast samples, bt_debounce_counter := 0 \<rparr>)))"

section \<open>The interrupt\<close>

record button_static =
  bs_irq_hook :: "nat option"
  bs_irq_hook_ctx :: nat

definition dal_button_gpio_isr ::
  "(nat \<Rightarrow> nat \<Rightarrow> 'w \<Rightarrow> 'w) \<Rightarrow> button_static \<Rightarrow> dal_button_t \<Rightarrow> 'w \<Rightarrow> dal_button_t \<times> 'w" where
  "dal_button_gpio_isr call_hook st d w =
    (let d = (if bt_isr_counter_enabled d then d\<lparr> bt_edge_count := bt_edge_count d + 1 \<rparr> else d)
     in if bt_event_backend d = DAL_BUTTON_BACKEND_IRQ
        then (d\<lparr> bt_irq_pending := True \<rparr>,
              case bs_irq_hook st of Some hook \<Rightarrow> call_hook hook (bs_irq_hook_ctx st) w | None \<Rightarrow> w)
        else (d, w))"

text \<open>\<open>isr\<close> and \<open>self\<close> are the numbers of the interrupt routine and of the device, its argument.\<close>

definition dal_button_enable_gpio_isr ::
  "'w gpio_pal \<Rightarrow> nat \<Rightarrow> nat \<Rightarrow> dal_button_t option \<Rightarrow> 'w \<Rightarrow> wink_status_t \<times> dal_button_t option \<times> 'w" where
  "dal_button_enable_gpio_isr pal isr self dev w =
    (case dev of None \<Rightarrow> (WINK_ERR_INVALID_ARG, dev, w)
     | Some d \<Rightarrow>
       if \<not> bt_initialized d then (WINK_ERR_NOT_INITIALIZED, dev, w)
       else if bt_gpio_isr_registered d then (WINK_OK, dev, w)
       else let (st, w) = gp_irq_on pal (sint (bc_pin (bt_config d))) isr self w
            in if wink_status_is_error st then (st, dev, w)
               else (WINK_OK, Some (d\<lparr> bt_gpio_isr_registered := True \<rparr>), w))"

definition dal_button_disable_gpio_isr :: "'w gpio_pal \<Rightarrow> dal_button_t option \<Rightarrow> 'w \<Rightarrow> dal_button_t option \<times> 'w" where
  "dal_button_disable_gpio_isr pal dev w =
    (case dev of None \<Rightarrow> (dev, w)
     | Some d \<Rightarrow>
       if \<not> bt_initialized d \<or> \<not> bt_gpio_isr_registered d \<or> bt_isr_counter_enabled d
          \<or> bt_event_backend d = DAL_BUTTON_BACKEND_IRQ
       then (dev, w)
       else (Some (d\<lparr> bt_gpio_isr_registered := False \<rparr>), snd (gp_irq_off pal (sint (bc_pin (bt_config d))) w)))"

definition dal_button_enable_isr_counter ::
  "'w gpio_pal \<Rightarrow> nat \<Rightarrow> nat \<Rightarrow> dal_button_t option \<Rightarrow> 'w \<Rightarrow> wink_status_t \<times> dal_button_t option \<times> 'w" where
  "dal_button_enable_isr_counter pal isr self dev w =
    (case dev of None \<Rightarrow> (WINK_ERR_INVALID_ARG, dev, w)
     | Some d \<Rightarrow>
       if \<not> bt_initialized d then (WINK_ERR_NOT_INITIALIZED, dev, w)
       else if bt_isr_counter_enabled d then (WINK_OK, dev, w)
       else let (st, dev, w) = dal_button_enable_gpio_isr pal isr self
                  (Some (d\<lparr> bt_edge_count := 0, bt_isr_counter_enabled := True \<rparr>)) w
            in if wink_status_is_error st
               then (st, map_option (\<lambda>d. d\<lparr> bt_isr_counter_enabled := False \<rparr>) dev, w)
               else (WINK_OK, dev, w))"

definition dal_button_get_edge_count :: "dal_button_t option \<Rightarrow> u32 option \<Rightarrow> wink_status_t \<times> u32 option" where
  "dal_button_get_edge_count dev out =
    (case (dev, out) of (Some d, Some _) \<Rightarrow>
       if \<not> bt_initialized d then (WINK_ERR_NOT_INITIALIZED, out) else (WINK_OK, Some (bt_edge_count d))
     | _ \<Rightarrow> (WINK_ERR_INVALID_ARG, out))"

definition dal_button_reset_edge_count :: "dal_button_t option \<Rightarrow> wink_status_t \<times> dal_button_t option" where
  "dal_button_reset_edge_count dev =
    (case dev of None \<Rightarrow> (WINK_ERR_INVALID_ARG, dev)
     | Some d \<Rightarrow> if \<not> bt_initialized d then (WINK_ERR_NOT_INITIALIZED, dev)
                else (WINK_OK, Some (d\<lparr> bt_edge_count := 0 \<rparr>)))"

definition dal_button_set_event_backend :: "u8 \<Rightarrow> dal_button_t option \<Rightarrow> dal_button_t option" where
  "dal_button_set_event_backend backend dev = map_option (\<lambda>d. d\<lparr> bt_event_backend := backend \<rparr>) dev"

definition dal_button_consume_irq_pending ::
  "dal_button_t option \<Rightarrow> bool option \<Rightarrow> wink_status_t \<times> dal_button_t option \<times> bool option" where
  "dal_button_consume_irq_pending dev out =
    (case (dev, out) of (Some d, Some _) \<Rightarrow>
       if \<not> bt_initialized d then (WINK_ERR_NOT_INITIALIZED, dev, out)
       else (WINK_OK, Some (d\<lparr> bt_irq_pending := False \<rparr>), Some (bt_irq_pending d))
     | _ \<Rightarrow> (WINK_ERR_INVALID_ARG, dev, out))"

definition dal_button_set_irq_hook :: "nat option \<Rightarrow> nat \<Rightarrow> button_static \<Rightarrow> button_static" where
  "dal_button_set_irq_hook fn ctx st = st\<lparr> bs_irq_hook_ctx := ctx, bs_irq_hook := fn \<rparr>"

section \<open>Deinitialisation\<close>

text \<open>The macro evaluates its expression once for the test, again for the result to keep and, when
  the log is compiled in, a third time for the message.\<close>

definition logw_if_rc ::
  "bool \<Rightarrow> ('w \<Rightarrow> wink_status_t \<times> 'w) \<Rightarrow> wink_status_t \<times> 'w \<Rightarrow> wink_status_t \<times> 'w" where
  "logw_if_rc log_on expr s =
    (let (first_err, w) = s; (rc, w) = expr w
     in if wink_status_is_error rc \<and> \<not> wink_status_is_error first_err
        then let (rc, w) = expr w in (rc, if log_on then snd (expr w) else w)
        else (first_err, w))"

definition dal_button_deinit ::
  "'w gpio_pal \<Rightarrow> bool \<Rightarrow> dal_button_t option \<Rightarrow> 'w \<Rightarrow> wink_status_t \<times> dal_button_t option \<times> 'w" where
  "dal_button_deinit pal log_on dev w =
    (case dev of None \<Rightarrow> (WINK_ERR_INVALID_ARG, dev, w)
     | Some d \<Rightarrow>
       if \<not> bt_initialized d then (WINK_OK, dev, w)
       else let pin = bc_pin (bt_config d);
                s = (WINK_OK, w);
                s = (if bt_gpio_isr_registered d
                     then logw_if_rc log_on (\<lambda>w. (gp_irq_sync pal (sint pin) w, w))
                            (logw_if_rc log_on (gp_irq_off pal (sint pin)) s)
                     else s);
                s = (fst s, gp_reset pal (sint pin) (snd s));
                (first_err, w) = logw_if_rc log_on
                  (gp_release pal PAL_RESOURCE_GPIO_PIN (ucast pin) (bc_owner (bt_config d))) s
            in (first_err, Some button_zero, w))"

section \<open>Debouncing\<close>

text \<open>The stable state after each prefix of a sequence of samples.\<close>

definition stable_after :: "dal_button_t \<Rightarrow> bool list \<Rightarrow> nat \<Rightarrow> bool" where
  "stable_after d xs n = bt_stable_pressed (fold button_debounce (take n xs) d)"

text \<open>The counter is the length of the run of samples at the end that differ from the stable state.\<close>

definition debounce_inv :: "bool list \<Rightarrow> nat \<Rightarrow> dal_button_t \<Rightarrow> bool" where
  "debounce_inv xs n d \<longleftrightarrow> (let c = unat (bt_debounce_counter d) in
     c < unat (bt_debounce_threshold d) \<and> c \<le> n
     \<and> (\<forall>i. n \<le> i + c \<and> i < n \<longrightarrow> xs ! i \<noteq> bt_stable_pressed d)
     \<and> (c < n \<longrightarrow> xs ! (n - c - 1) = bt_stable_pressed d))"

lemma unat_Suc_u8:
  fixes x y :: u8
  assumes "unat x < unat y"
  shows "unat (x + 1) = Suc (unat x)"
proof -
  have "unat y < 2 ^ LENGTH(8)" by (rule unsigned_less)
  then have "Suc (unat x) < 256" using assms by simp
  then show ?thesis by (simp add: unat_word_ariths)
qed

lemma debounce_step:
  assumes "debounce_inv xs n d" "n < length xs"
  shows "debounce_inv xs (Suc n) (button_debounce (xs ! n) d)
    \<and> bt_debounce_threshold (button_debounce (xs ! n) d) = bt_debounce_threshold d
    \<and> (bt_stable_pressed (button_debounce (xs ! n) d) \<noteq> bt_stable_pressed d
        \<longleftrightarrow> unat (bt_debounce_threshold d) \<le> Suc n
          \<and> (\<forall>i. Suc n \<le> i + unat (bt_debounce_threshold d) \<and> i \<le> n \<longrightarrow> xs ! i \<noteq> bt_stable_pressed d))"
proof -
  let ?c = "unat (bt_debounce_counter d)" and ?k = "unat (bt_debounce_threshold d)" and ?s = "bt_stable_pressed d"
  have c: "?c < ?k" "?c \<le> n" and run: "\<And>i. n \<le> i + ?c \<Longrightarrow> i < n \<Longrightarrow> xs ! i \<noteq> ?s"
    and start: "?c < n \<Longrightarrow> xs ! (n - ?c - 1) = ?s"
    using assms(1) by (auto simp: debounce_inv_def Let_def)
  show ?thesis
  proof (cases "xs ! n = ?s")
    case True
    then have "button_debounce (xs ! n) d = d\<lparr> bt_debounce_counter := 0 \<rparr>" by (simp add: button_debounce_def)
    moreover have "\<not> (\<forall>i. Suc n \<le> i + ?k \<and> i \<le> n \<longrightarrow> xs ! i \<noteq> ?s)"
    proof
      assume a: "\<forall>i. Suc n \<le> i + ?k \<and> i \<le> n \<longrightarrow> xs ! i \<noteq> ?s"
      have "Suc n \<le> n + ?k" using c by simp
      with a True show False by blast
    qed
    ultimately show ?thesis using True c by (auto simp: debounce_inv_def)
  next
    case False
    have u: "unat (bt_debounce_counter d + 1) = Suc ?c" using c(1) by (rule unat_Suc_u8)
    have ne: "xs ! i \<noteq> ?s" if "n \<le> i + ?c" "i \<le> n" for i
      using that False run by (cases "i = n") auto
    show ?thesis
    proof (cases "Suc ?c = ?k")
      case True
      then have "button_debounce (xs ! n) d = d\<lparr> bt_stable_pressed := xs ! n, bt_debounce_counter := 0 \<rparr>"
        using False u by (simp add: button_debounce_def word_le_nat_alt)
      moreover have "xs ! i \<noteq> ?s" if "Suc n \<le> i + ?k" "i \<le> n" for i
        using that True by (intro ne) auto
      ultimately show ?thesis using False True c by (auto simp: debounce_inv_def)
    next
      case less: False
      then have lt: "Suc ?c < ?k" using c by simp
      then have b: "button_debounce (xs ! n) d = d\<lparr> bt_debounce_counter := bt_debounce_counter d + 1 \<rparr>"
        using False u by (simp add: button_debounce_def word_le_nat_alt)
      have "\<exists>i. Suc n \<le> i + ?k \<and> i \<le> n \<and> xs ! i = ?s" if "?k \<le> Suc n"
        using start that lt by (intro exI [of _ "n - ?c - 1"]) auto
      moreover have "debounce_inv xs (Suc n) (d\<lparr> bt_debounce_counter := bt_debounce_counter d + 1 \<rparr>)"
        using lt c ne start by (auto simp: debounce_inv_def u Let_def)
      ultimately show ?thesis using b by auto
    qed
  qed
qed

lemma debounce_prefix:
  assumes "debounce_inv xs 0 d" "n \<le> length xs"
  shows "debounce_inv xs n (fold button_debounce (take n xs) d)
    \<and> bt_debounce_threshold (fold button_debounce (take n xs) d) = bt_debounce_threshold d"
  using assms(2)
proof (induction n)
  case 0 then show ?case using assms(1) by simp
next
  case (Suc n)
  then have n: "n < length xs" by simp
  with Suc debounce_step [OF _ n, of "fold button_debounce (take n xs) d"] show ?case
    by (simp add: take_Suc_conv_app_nth)
qed

text \<open>C23: debouncing is what it should be: with a threshold of \<open>k\<close> samples the stable state
  changes with a sample exactly when that sample and the \<open>k - 1\<close> before it all differ from it.\<close>
theorem debounce_is_run_detection:
  assumes "bt_debounce_counter d = 0" "0 < bt_debounce_threshold d" "n < length xs"
  shows "stable_after d xs (Suc n) \<noteq> stable_after d xs n
    \<longleftrightarrow> unat (bt_debounce_threshold d) \<le> Suc n
      \<and> (\<forall>i. Suc n \<le> i + unat (bt_debounce_threshold d) \<and> i \<le> n \<longrightarrow> xs ! i \<noteq> stable_after d xs n)"
proof -
  have "0 < unat (bt_debounce_threshold d)" using assms(2) by (simp add: word_less_nat_alt)
  then have inv: "debounce_inv xs 0 d" using assms(1) by (simp add: debounce_inv_def)
  from debounce_prefix [OF inv, of n] assms(3)
  have p: "debounce_inv xs n (fold button_debounce (take n xs) d)"
    and t: "bt_debounce_threshold (fold button_debounce (take n xs) d) = bt_debounce_threshold d" by auto
  from debounce_step [OF p assms(3)] show ?thesis
    by (simp add: stable_after_def t take_Suc_conv_app_nth [OF assms(3)])
qed

definition demo_button :: dal_button_t where
  "demo_button = button_zero\<lparr> bt_config := \<lparr> bc_owner = Some ''key'', bc_pin = 4, bc_active_low = True, bc_pull = 0 \<rparr>,
     bt_initialized := True, bt_debounce_threshold := 3, bt_long_press_ms := 3000 \<rparr>"

lemma debounce_witness: "stable_after demo_button [True, False, True, True, True] 5 \<noteq> stable_after demo_button [True, False, True, True, True] 4"
proof -
  have "stable_after demo_button [True, False, True, True, True] 4 = False" by code_simp
  moreover have "[True, False, True, True, True] ! i" if "5 \<le> i + 3" "i \<le> 4" for i :: nat
  proof -
    have "i = 2 \<or> i = 3 \<or> i = 4" using that by auto
    then show ?thesis by auto
  qed
  moreover have "bt_debounce_counter demo_button = 0" "bt_debounce_threshold demo_button = 3"
    by (simp_all add: demo_button_def button_zero_def)
  ultimately show ?thesis
    using debounce_is_run_detection [of demo_button 4 "[True, False, True, True, True]"] by simp
qed

section \<open>Events\<close>

text \<open>What an application may see: presses and releases in turn, and at most one long press while
  the button is held.\<close>

fun button_protocol :: "bool \<times> bool \<Rightarrow> dal_button_event_t list \<Rightarrow> (bool \<times> bool) option" where
  "button_protocol s [] = Some s"
| "button_protocol (p, l) (DAL_BUTTON_EVT_PRESS # es) = (if p then None else button_protocol (True, False) es)"
| "button_protocol (p, l) (DAL_BUTTON_EVT_RELEASE # es) = (if p then button_protocol (False, False) es else None)"
| "button_protocol (p, l) (DAL_BUTTON_EVT_LONG_PRESS # es) = (if p \<and> \<not> l then button_protocol (True, True) es else None)"

lemma protocol_append: "button_protocol s (es @ es') = Option.bind (button_protocol s es) (\<lambda>s. button_protocol s es')"
  by (induction s es rule: button_protocol.induct) simp_all

text \<open>A callback that records its events, and polls in a world that changes between them.\<close>

definition log_call :: "(dal_button_event_t list, 'w) button_call" where
  "log_call fn evt ctx s = (let (log, d, w) = s in (log @ [evt], d, w))"

primrec button_polls ::
  "'w gpio_pal \<Rightarrow> ('w \<Rightarrow> 'w) list \<Rightarrow> dal_button_event_t list \<times> dal_button_t option \<times> 'w
    \<Rightarrow> dal_button_event_t list \<times> dal_button_t option \<times> 'w" where
  "button_polls pal [] s = s"
| "button_polls pal (env # envs) s =
     (let (log, dev, w) = s; (st, log, dev, w) = dal_button_poll pal log_call log dev (env w)
      in button_polls pal envs (log, dev, w))"

definition protocol_inv :: "bool \<times> bool \<Rightarrow> dal_button_event_t list \<Rightarrow> dal_button_t \<Rightarrow> bool" where
  "protocol_inv s log d \<longleftrightarrow> bt_event_cb d \<noteq> None
    \<and> button_protocol s log = Some (bt_prev_pressed_for_event d, bt_long_press_fired d)
    \<and> (bt_long_press_fired d \<longrightarrow> bt_prev_pressed_for_event d)"

lemma debounce_keeps:
  "bt_event_cb (button_debounce x d) = bt_event_cb d"
  "bt_prev_pressed_for_event (button_debounce x d) = bt_prev_pressed_for_event d"
  "bt_long_press_fired (button_debounce x d) = bt_long_press_fired d"
  by (simp_all add: button_debounce_def Let_def)

lemma poll_keeps_protocol:
  assumes "protocol_inv s log d"
  shows "\<exists>st log' d' w'. dal_button_poll pal log_call log (Some d) w = (st, log', Some d', w') \<and> protocol_inv s log' d'"
proof -
  obtain st raw w1 where r: "gp_read pal (sint (bc_pin (bt_config d))) w = (st, raw, w1)" by (rule prod_cases3)
  let ?d = "button_debounce (button_raw_pressed raw (bc_active_low (bt_config d))) (d\<lparr> bt_last_status := WINK_OK \<rparr>)"
  have inv: "protocol_inv s log ?d" using assms by (simp add: protocol_inv_def debounce_keeps)
  obtain log1 d1 w2 where e: "button_edge_event pal log_call (log, ?d, w1) = (log1, d1, w2)" by (rule prod_cases3)
  have 1: "protocol_inv s log1 d1 \<and> bt_stable_pressed d1 = bt_prev_pressed_for_event d1"
    using e inv
    by (auto simp: button_edge_event_def fire_event_def log_call_def protocol_inv_def protocol_append Let_def
        split: if_splits)
  obtain log2 d2 w3 where l: "button_long_event pal log_call (log1, d1, w2) = (log2, d2, w3)" by (rule prod_cases3)
  have 2: "protocol_inv s log2 d2"
    using l 1
    by (auto simp: button_long_event_def fire_event_def log_call_def protocol_inv_def protocol_append Let_def
        split: if_splits)
  show ?thesis
  proof (cases "bt_initialized d \<and> st = WINK_OK")
    case True
    with r e l 2 show ?thesis by (simp add: dal_button_poll_def)
  next
    case False
    with r assms show ?thesis by (auto simp: dal_button_poll_def protocol_inv_def)
  qed
qed

lemma polls_keep_protocol:
  assumes "protocol_inv s log d"
  shows "\<exists>log' d' w'. button_polls pal envs (log, Some d, w) = (log', Some d', w') \<and> protocol_inv s log' d'"
  using assms
proof (induction envs arbitrary: log d w)
  case (Cons env envs)
  from poll_keeps_protocol [OF Cons.prems, of pal "env w"] obtain st log1 d1 w1 where
    "dal_button_poll pal log_call log (Some d) (env w) = (st, log1, Some d1, w1)" "protocol_inv s log1 d1" by blast
  with Cons.IH [of log1 d1 w1] show ?case by simp
qed simp

text \<open>C24: however the pin, the clock and read errors behave between the polls, an application
  that registers its callback while the button is released sees presses and releases in turn,
  beginning with a press, and at most one long press between a press and its release.\<close>
theorem button_events_well_formed:
  assumes "bt_initialized d" "\<not> bt_stable_pressed d" "dal_button_on_event (Some f) ctx (Some d) = (WINK_OK, Some d')"
  shows "\<exists>log d'' w'. button_polls pal envs ([], Some d', w) = (log, Some d'', w')
    \<and> button_protocol (False, False) log = Some (bt_prev_pressed_for_event d'', bt_long_press_fired d'')"
proof -
  have "protocol_inv (False, False) [] d'" using assms by (auto simp: dal_button_on_event_def protocol_inv_def)
  from polls_keep_protocol [OF this, of pal envs w] show ?thesis by (auto simp: protocol_inv_def)
qed

lemma button_events_witness:
  "\<exists>log d'' w'. button_polls (host_pal (\<lambda>_ h. h)) [\<lambda>w. w, \<lambda>w. w]
      ([], snd (dal_button_on_event (Some 7) 0 (Some demo_button)), demo_board) = (log, Some d'', w')
    \<and> button_protocol (False, False) log \<noteq> None"
proof -
  let ?d = "the (snd (dal_button_on_event (Some 7) 0 (Some demo_button)))"
  have d: "bt_initialized demo_button" "\<not> bt_stable_pressed demo_button"
    "dal_button_on_event (Some 7) 0 (Some demo_button) = (WINK_OK, Some ?d)"
    by (simp_all add: demo_button_def button_zero_def dal_button_on_event_def)
  from button_events_well_formed [OF d, of "host_pal (\<lambda>_ h. h)" "[\<lambda>w. w, \<lambda>w. w]" demo_board] d(3)
  show ?thesis by (metis option.distinct(1) snd_conv)
qed

text \<open>A callback registered while the button is held reports a long press at the next poll, for
  the press began before anybody recorded its time.\<close>

lemma spurious_long_press:
  assumes "bt_initialized d" "bt_stable_pressed d" "bt_press_start_ms d = 0" "bt_debounce_counter d = 0"
    and "dal_button_on_event (Some f) ctx (Some d) = (WINK_OK, Some d')"
    and "gp_read pal (sint (bc_pin (bt_config d))) w = (WINK_OK, \<not> bc_active_low (bt_config d), w')"
    and "gp_ms pal w' \<ge> ucast (bt_long_press_ms d)"
  shows "\<exists>st dev w''. dal_button_poll pal log_call [] (Some d') w = (st, [DAL_BUTTON_EVT_LONG_PRESS], dev, w'')"
  using assms
  by (auto simp: dal_button_on_event_def dal_button_poll_def button_raw_pressed_def button_debounce_def
      button_edge_event_def button_long_event_def fire_event_def log_call_def)

end
