(* ===== verification/Dal_Keypad.thy ===== *)
theory Dal_Keypad
  imports Gpio_Pal
begin

text \<open>
  The matrix keypad driver \<^verbatim>\<open>dal/src/input/dal_keypad.c\<close>, against the pins of \<^theory_text>\<open>Gpio_Pal\<close>: the
  columns are driven low one at a time and the rows read. A pin of \<open>-1\<close> is unused; no key is the
  character \<open>0\<close>.
\<close>

section \<open>Data\<close>

datatype dal_keypad_variant_t =
  DAL_KEYPAD_VARIANT_MATRIX_4X4 | DAL_KEYPAD_VARIANT_MATRIX_3X4 | DAL_KEYPAD_VARIANT_CUSTOM

record dal_keypad_config_t =
  kc_owner :: "string option"
  kc_custom_keymap :: "string option"
  kc_debounce_ms :: u16
  kc_row_pins :: "int list"
  kc_col_pins :: "int list"
  kc_variant :: dal_keypad_variant_t
  kc_num_rows :: nat
  kc_num_cols :: nat
  kc_active_low :: bool

record dal_keypad_t =
  kp_config :: dal_keypad_config_t
  kp_last_scan_ms :: u32
  kp_last_key :: char
  kp_last_row :: nat
  kp_last_col :: nat
  kp_is_pressed :: bool
  kp_initialized :: bool
  kp_last_status :: wink_status_t

definition DAL_KEYPAD_MAX_ROWS :: nat where "DAL_KEYPAD_MAX_ROWS = 4"
definition DAL_KEYPAD_MAX_COLS :: nat where "DAL_KEYPAD_MAX_COLS = 4"

abbreviation no_key :: char where "no_key \<equiv> CHR 0x00"

definition s_keymap_4x4 :: "string list" where
  "s_keymap_4x4 = [''123A'', ''456B'', ''789C'', ''*0#D'']"

definition s_keymap_3x4 :: "string list" where
  "s_keymap_3x4 = [''123'', ''456'', ''789'', ''*0#'']"

definition keypad_zero :: dal_keypad_t where
  "keypad_zero = \<lparr> kp_config = \<lparr> kc_owner = None, kc_custom_keymap = None, kc_debounce_ms = 0,
       kc_row_pins = [0, 0, 0, 0], kc_col_pins = [0, 0, 0, 0], kc_variant = DAL_KEYPAD_VARIANT_MATRIX_4X4,
       kc_num_rows = 0, kc_num_cols = 0, kc_active_low = False \<rparr>,
     kp_last_scan_ms = 0, kp_last_key = no_key, kp_last_row = 0, kp_last_col = 0, kp_is_pressed = False,
     kp_initialized = False, kp_last_status = WINK_OK \<rparr>"

section \<open>Keys\<close>

definition dal_keypad_lookup_char :: "dal_keypad_config_t \<Rightarrow> nat \<Rightarrow> nat \<Rightarrow> char" where
  "dal_keypad_lookup_char cfg row col =
    (if row \<ge> DAL_KEYPAD_MAX_ROWS \<or> col \<ge> DAL_KEYPAD_MAX_COLS then no_key
     else if kc_custom_keymap cfg \<noteq> None \<or> kc_variant cfg = DAL_KEYPAD_VARIANT_CUSTOM
     then case kc_custom_keymap cfg of None \<Rightarrow> no_key
          | Some keymap \<Rightarrow> let idx = row * kc_num_cols cfg + col
                          in if idx < length keymap then keymap ! idx else no_key
     else if kc_variant cfg = DAL_KEYPAD_VARIANT_MATRIX_3X4
     then if col \<ge> 3 then no_key else s_keymap_3x4 ! row ! col
     else s_keymap_4x4 ! row ! col)"

fun scan_rows :: "'w gpio_pal \<Rightarrow> int list \<Rightarrow> nat \<Rightarrow> 'w \<Rightarrow> nat option \<times> 'w" where
  "scan_rows pal [] r w = (None, w)"
| "scan_rows pal (p # ps) r w =
     (if p < 0 then scan_rows pal ps (Suc r) w
      else let (st, level, w) = gp_read pal p w
           in if wink_status_is_success st \<and> \<not> level then (Some r, w) else scan_rows pal ps (Suc r) w)"

fun scan_cols :: "'w gpio_pal \<Rightarrow> int list \<Rightarrow> int list \<Rightarrow> nat \<Rightarrow> 'w \<Rightarrow> (nat \<times> nat) option \<times> 'w" where
  "scan_cols pal rows [] c w = (None, w)"
| "scan_cols pal rows (p # ps) c w =
     (if p < 0 then scan_cols pal rows ps (Suc c) w
      else let w = snd (gp_write pal p False w);
               (hit, w) = scan_rows pal rows 0 w;
               w = snd (gp_write pal p True w)
           in case hit of Some r \<Rightarrow> (Some (r, c), w) | None \<Rightarrow> scan_cols pal rows ps (Suc c) w)"

definition dal_keypad_scan_matrix :: "'w gpio_pal \<Rightarrow> dal_keypad_t \<Rightarrow> 'w \<Rightarrow> char \<times> nat \<times> nat \<times> 'w" where
  "dal_keypad_scan_matrix pal d w =
    (let c = kp_config d;
         (hit, w) = scan_cols pal (take (kc_num_rows c) (kc_row_pins c)) (take (kc_num_cols c) (kc_col_pins c)) 0 w
     in case hit of Some (row, col) \<Rightarrow> (dal_keypad_lookup_char c row col, row, col, w)
        | None \<Rightarrow> (no_key, 0xFF, 0xFF, w))"

section \<open>Initialisation\<close>

text \<open>Claims the used pins in order; the count is that of the pins claimed, not of the pins passed.\<close>

fun claim_pins :: "'w gpio_pal \<Rightarrow> string option \<Rightarrow> int list \<Rightarrow> nat \<Rightarrow> 'w \<Rightarrow> wink_status_t \<times> nat \<times> 'w" where
  "claim_pins pal ow [] claimed w = (WINK_OK, claimed, w)"
| "claim_pins pal ow (p # ps) claimed w =
     (if p < 0 then claim_pins pal ow ps claimed w
      else let (st, w) = claim_pin pal p ow w
           in if wink_status_is_error st then (st, claimed, w) else claim_pins pal ow ps (claimed + 1) w)"

definition release_pins :: "'w gpio_pal \<Rightarrow> string option \<Rightarrow> int list \<Rightarrow> 'w \<Rightarrow> 'w" where
  "release_pins pal ow ps w = fold (\<lambda>p w. if p \<ge> 0 then snd (release_pin pal p ow w) else w) ps w"

definition dal_keypad_init ::
  "'w gpio_pal \<Rightarrow> dal_keypad_t option \<Rightarrow> dal_keypad_config_t option \<Rightarrow> 'w
    \<Rightarrow> wink_status_t \<times> dal_keypad_t option \<times> 'w" where
  "dal_keypad_init pal dev cfg w =
    (case (dev, cfg) of (Some d, Some c) \<Rightarrow>
       if kc_owner c = None then (WINK_ERR_INVALID_ARG, dev, w)
       else if kp_initialized d then (WINK_ERR_ALREADY_INITIALIZED, dev, w)
       else let num_rows = (if kc_num_rows c > 0 \<and> kc_num_rows c \<le> DAL_KEYPAD_MAX_ROWS then kc_num_rows c
                            else DAL_KEYPAD_MAX_ROWS);
                num_cols = (if kc_num_cols c > 0 \<and> kc_num_cols c \<le> DAL_KEYPAD_MAX_COLS then kc_num_cols c
                            else if kc_variant c = DAL_KEYPAD_VARIANT_MATRIX_3X4 then 3 else DAL_KEYPAD_MAX_COLS);
                rows = take num_rows (kc_row_pins c); cols = take num_cols (kc_col_pins c);
                (st, claimed_rows, w) = claim_pins pal (kc_owner c) rows 0 w
            in if wink_status_is_error st
               then (st, dev, release_pins pal (kc_owner c) (take claimed_rows (kc_row_pins c)) w)
       else let (st, claimed_cols, w) = claim_pins pal (kc_owner c) cols 0 w
            in if wink_status_is_error st
               then (st, dev, release_pins pal (kc_owner c) rows
                       (release_pins pal (kc_owner c) (take claimed_cols (kc_col_pins c)) w))
       else let w = fold (\<lambda>p w. if p \<ge> 0 then snd (gp_init pal p PAL_GPIO_INPUT_PULLUP w) else w) rows w;
                w = fold (\<lambda>p w. if p \<ge> 0
                       then snd (gp_write pal p True (snd (gp_init pal p PAL_GPIO_OUTPUT_PUSH_PULL w))) else w) cols w
            in (WINK_OK, Some \<lparr> kp_config = c\<lparr> kc_num_rows := num_rows, kc_num_cols := num_cols,
                  kc_debounce_ms := (if kc_debounce_ms c = 0 then 10 else kc_debounce_ms c) \<rparr>,
                  kp_last_scan_ms = 0, kp_last_key = no_key, kp_last_row = 0xFF, kp_last_col = 0xFF,
                  kp_is_pressed = False, kp_initialized = True, kp_last_status = WINK_OK \<rparr>, w)
     | _ \<Rightarrow> (WINK_ERR_INVALID_ARG, dev, w))"

definition dal_keypad_deinit ::
  "'w gpio_pal \<Rightarrow> dal_keypad_t option \<Rightarrow> 'w \<Rightarrow> wink_status_t \<times> dal_keypad_t option \<times> 'w" where
  "dal_keypad_deinit pal dev w =
    (case dev of None \<Rightarrow> (WINK_ERR_INVALID_ARG, dev, w)
     | Some d \<Rightarrow>
       if \<not> kp_initialized d then (WINK_OK, dev, w)
       else let c = kp_config d;
                w = release_pins pal (kc_owner c) (take (kc_num_rows c) (kc_row_pins c)) w;
                w = fold (\<lambda>p w. if p \<ge> 0 then snd (release_pin pal p (kc_owner c) (snd (gp_write pal p True w))) else w)
                      (take (kc_num_cols c) (kc_col_pins c)) w
            in (WINK_OK, Some keypad_zero, w))"

section \<open>Reading\<close>

definition keypad_seen :: "char \<times> nat \<times> nat \<Rightarrow> dal_keypad_t \<Rightarrow> dal_keypad_t" where
  "keypad_seen k d = (let (key, r, c) = k
     in d\<lparr> kp_last_key := key, kp_last_row := r, kp_last_col := c, kp_is_pressed := (key \<noteq> no_key),
           kp_last_status := WINK_OK \<rparr>)"

definition dal_keypad_get_key ::
  "'w gpio_pal \<Rightarrow> dal_keypad_t option \<Rightarrow> char option \<Rightarrow> 'w \<Rightarrow> wink_status_t \<times> dal_keypad_t option \<times> char option \<times> 'w"
where
  "dal_keypad_get_key pal dev out w =
    (case (dev, out) of (Some d, Some _) \<Rightarrow>
       if \<not> kp_initialized d then (WINK_ERR_NOT_INITIALIZED, dev, out, w)
       else let (key, r, c, w) = dal_keypad_scan_matrix pal d w
            in (WINK_OK, Some (keypad_seen (key, r, c) d), Some key, w)
     | _ \<Rightarrow> (WINK_ERR_INVALID_ARG, dev, out, w))"

definition dal_keypad_is_pressed ::
  "'w gpio_pal \<Rightarrow> dal_keypad_t option \<Rightarrow> bool option \<Rightarrow> 'w \<Rightarrow> wink_status_t \<times> bool option \<times> 'w" where
  "dal_keypad_is_pressed pal dev out w =
    (case (dev, out) of (Some d, Some _) \<Rightarrow>
       if \<not> kp_initialized d then (WINK_ERR_NOT_INITIALIZED, out, w)
       else let (key, r, c, w) = dal_keypad_scan_matrix pal d w in (WINK_OK, Some (key \<noteq> no_key), w)
     | _ \<Rightarrow> (WINK_ERR_INVALID_ARG, out, w))"

definition dal_keypad_poll ::
  "'w gpio_pal \<Rightarrow> dal_keypad_t option \<Rightarrow> bool option \<Rightarrow> char option \<Rightarrow> 'w
    \<Rightarrow> wink_status_t \<times> dal_keypad_t option \<times> bool option \<times> char option \<times> 'w" where
  "dal_keypad_poll pal dev out_changed out_key w =
    (case (dev, out_changed, out_key) of (Some d, Some _, Some _) \<Rightarrow>
       if \<not> kp_initialized d then (WINK_ERR_NOT_INITIALIZED, dev, out_changed, out_key, w)
       else let prev_key = kp_last_key d; now = ucast (gp_ms pal w)
            in if now - kp_last_scan_ms d < ucast (kc_debounce_ms (kp_config d))
               then (WINK_OK, dev, Some False, Some prev_key, w)
               else let d = d\<lparr> kp_last_scan_ms := now \<rparr>;
                        (key, r, c, w) = dal_keypad_scan_matrix pal d w
                    in (WINK_OK, Some (keypad_seen (key, r, c) d), Some (key \<noteq> prev_key), Some key, w)
     | _ \<Rightarrow> (WINK_ERR_INVALID_ARG, dev, out_changed, out_key, w))"

definition dal_keypad_get_status ::
  "dal_keypad_t option \<Rightarrow> wink_status_t option \<Rightarrow> wink_status_t \<times> wink_status_t option" where
  "dal_keypad_get_status dev out =
    (case (dev, out) of (Some d, Some _) \<Rightarrow>
       if \<not> kp_initialized d then (WINK_ERR_NOT_INITIALIZED, out) else (WINK_OK, Some (kp_last_status d))
     | _ \<Rightarrow> (WINK_ERR_INVALID_ARG, out))"

section \<open>Failed initialisation\<close>

abbreviation used :: "int list \<Rightarrow> int list" where "used \<equiv> filter (\<lambda>p. 0 \<le> p)"

definition owned :: "string option \<Rightarrow> int list \<Rightarrow> (int \<Rightarrow> string option) \<Rightarrow> int \<Rightarrow> string option" where
  "owned ow ps h = (\<lambda>p. if p \<in> set ps then ow else h p)"

text \<open>No unused pin comes before a used one.\<close>

definition unused_last :: "int list \<Rightarrow> bool" where
  "unused_last ps \<longleftrightarrow> (\<exists>n. \<forall>i < length ps. 0 \<le> ps ! i \<longleftrightarrow> i < n)"

lemma unused_last_Cons: "unused_last (p # ps) \<Longrightarrow> unused_last ps \<and> (p < 0 \<longrightarrow> used ps = [])"
proof -
  assume "unused_last (p # ps)"
  then obtain n where n: "\<And>i. i < length (p # ps) \<Longrightarrow> 0 \<le> (p # ps) ! i \<longleftrightarrow> i < n" by (auto simp: unused_last_def)
  have "0 \<le> ps ! i \<longleftrightarrow> i < n - 1" if "i < length ps" for i using n [of "Suc i"] that by auto
  moreover have "used ps = []" if "p < 0" using n [of 0] n [of "Suc _"] that
    by (auto simp: filter_empty_conv in_set_conv_nth)
  ultimately show ?thesis by (auto simp: unused_last_def)
qed

lemma take_used:
  assumes "unused_last ps" "n \<le> length (used ps)"
  shows "take n ps = take n (used ps)"
  using assms
proof (induction ps arbitrary: n)
  case (Cons p ps)
  note u = unused_last_Cons [OF Cons.prems(1)]
  show ?case
  proof (cases "p < 0")
    case True
    with u Cons.prems(2) show ?thesis by simp
  next
    case False
    with u Cons show ?thesis by (cases n) auto
  qed
qed simp

context gpio_board begin

lemma claim_pins_spec:
  assumes "ok w" "\<forall>p \<in> set (used ps). good p \<and> held w p \<noteq> Some ow" "distinct (used ps)"
  shows "\<exists>st n w'. claim_pins pal (Some ow) ps k w = (st, k + n, w') \<and> ok w' \<and> n \<le> length (used ps)
    \<and> (st = WINK_OK \<longrightarrow> n = length (used ps))
    \<and> (\<forall>p \<in> set (take n (used ps)). held w p = None) \<and> held w' = owned (Some ow) (take n (used ps)) (held w)"
  using assms
proof (induction ps arbitrary: k w)
  case Nil then show ?case by (simp add: owned_def)
next
  case (Cons p ps)
  show ?case
  proof (cases "p < 0")
    case True
    with Cons show ?thesis by simp
  next
    case False
    then have p: "good p" "held w p \<noteq> Some ow" using Cons.prems(2) by simp_all
    from Cons.prems(1) p show ?thesis
    proof (cases rule: claim_cases)
      case (1 w1)
      have "\<forall>q \<in> set (used ps). good q \<and> held w1 q \<noteq> Some ow"
        using Cons.prems(2,3) 1(4) False by auto
      with Cons.IH [OF 1(2), of "k + 1"] Cons.prems(3) False obtain st n w' where
        r: "claim_pins pal (Some ow) ps (k + 1) w1 = (st, k + 1 + n, w')" "ok w'" "n \<le> length (used ps)"
          "st = WINK_OK \<longrightarrow> n = length (used ps)" "\<forall>q \<in> set (take n (used ps)). held w1 q = None"
          "held w' = owned (Some ow) (take n (used ps)) (held w1)" by auto
      have "\<forall>q \<in> set (take (Suc n) (used (p # ps))). held w q = None"
        using r(5) 1(3,4) False Cons.prems(3) by (auto dest: in_set_takeD split: if_splits)
      moreover have "held w' = owned (Some ow) (take (Suc n) (used (p # ps))) (held w)"
        using r(6) 1(4) False by (auto simp: owned_def fun_eq_iff)
      ultimately show ?thesis using r 1(1) False by (intro exI [of _ st] exI [of _ "Suc n"] exI [of _ w']) simp
    next
      case (2 st)
      with False Cons.prems(1) show ?thesis by (intro exI [of _ st] exI [of _ 0]) (simp add: owned_def)
    qed
  qed
qed

lemma release_pins_spec:
  assumes "ok w" "\<forall>p \<in> set (used ps). good p \<and> held w p = Some ow" "distinct (used ps)"
  shows "ok (release_pins pal (Some ow) ps w) \<and> held (release_pins pal (Some ow) ps w) = owned None (used ps) (held w)"
  using assms
proof (induction ps arbitrary: w)
  case Nil then show ?case by (simp add: release_pins_def owned_def)
next
  case (Cons p ps)
  show ?case
  proof (cases "p < 0")
    case True
    with Cons show ?thesis by (simp add: release_pins_def)
  next
    case False
    then have p: "good p" "held w p = Some ow" using Cons.prems(2) by simp_all
    from release_own [OF Cons.prems(1) p] obtain w1 where
      w1: "release_pin pal p (Some ow) w = (WINK_OK, w1)" "ok w1" "held w1 = (held w)(p := None)" by blast
    have "\<forall>q \<in> set (used ps). good q \<and> held w1 q = Some ow" using Cons.prems(2,3) w1(3) False by auto
    with Cons.IH [OF w1(2)] Cons.prems(3) False w1(1,3) show ?thesis
      by (auto simp: release_pins_def owned_def fun_eq_iff)
  qed
qed

lemma owned_back: "\<forall>p \<in> set ps. h p = None \<Longrightarrow> owned None ps (owned (Some ow) ps h) = h"
  by (auto simp: owned_def fun_eq_iff)

text \<open>Releasing what a run of claims took.\<close>

lemma claims_undone:
  assumes "ok w1" "held w1 = owned (Some ow) (take n (used ps)) h" "\<forall>p \<in> set (take n (used ps)). h p = None"
    and "unused_last ps" "n \<le> length (used ps)" "\<forall>p \<in> set (used ps). good p" "distinct (used ps)"
  shows "ok (release_pins pal (Some ow) (take n ps) w1) \<and> held (release_pins pal (Some ow) (take n ps) w1) = h"
proof -
  have t: "take n ps = take n (used ps)" by (rule take_used [OF assms(4,5)])
  have u: "used (take n (used ps)) = take n (used ps)"
    by (auto simp: filter_id_conv dest!: in_set_takeD)
  have "\<forall>p \<in> set (used (take n (used ps))). good p \<and> held w1 p = Some ow"
    unfolding u assms(2) using assms(6) by (auto simp: owned_def dest: in_set_takeD)
  moreover have "distinct (used (take n (used ps)))" unfolding u using assms(7) by simp
  ultimately have "ok (release_pins pal (Some ow) (take n (used ps)) w1)
      \<and> held (release_pins pal (Some ow) (take n (used ps)) w1) = owned None (take n (used ps)) (held w1)"
    using release_pins_spec [OF assms(1), of "take n (used ps)" ow] u by simp
  then show ?thesis unfolding t assms(2) owned_back [OF assms(3)] by simp
qed

lemma keypad_init_failure:
  assumes "ok w" "kc_owner c = Some ow" "\<not> kp_initialized d"
    and "unused_last (kc_row_pins c)" "unused_last (kc_col_pins c)" "distinct (used (kc_row_pins c @ kc_col_pins c))"
    and "\<forall>p \<in> set (used (kc_row_pins c @ kc_col_pins c)). good p \<and> held w p \<noteq> Some ow"
    and "dal_keypad_init pal (Some d) (Some c) w = (st, d', w')" "st \<noteq> WINK_OK"
  shows "held w' = held w \<and> d' = Some d"
proof -
  define nr where "nr = (if kc_num_rows c > 0 \<and> kc_num_rows c \<le> DAL_KEYPAD_MAX_ROWS then kc_num_rows c
    else DAL_KEYPAD_MAX_ROWS)"
  define nc where "nc = (if kc_num_cols c > 0 \<and> kc_num_cols c \<le> DAL_KEYPAD_MAX_COLS then kc_num_cols c
    else if kc_variant c = DAL_KEYPAD_VARIANT_MATRIX_3X4 then 3 else DAL_KEYPAD_MAX_COLS)"
  let ?rows = "take nr (kc_row_pins c)" and ?cols = "take nc (kc_col_pins c)"
  have pre: "unused_last (take n ps)" if "unused_last ps" for n ps using that by (auto simp: unused_last_def)
  have "used ps = used (take n ps) @ used (drop n ps)" for n ps
    by (metis append_take_drop_id filter_append)
  then have sub: "set (used (take n ps)) \<subseteq> set (used ps)" "distinct (used ps) \<Longrightarrow> distinct (used (take n ps))" for n ps
    by (auto dest: in_set_takeD) (metis distinct_append)
  have tk: "take n (take m ps) = take n ps" if "n \<le> length (used (take m ps))" for n m and ps :: "int list"
  proof -
    have "n \<le> m" using that length_filter_le [of "\<lambda>p. 0 \<le> p" "take m ps"] by simp
    then show ?thesis by (simp add: min_def)
  qed
  have rows: "\<forall>p \<in> set (used ?rows). good p \<and> held w p \<noteq> Some ow" "distinct (used ?rows)"
    using assms(6,7) sub by auto
  from claim_pins_spec [OF assms(1) rows, of 0] obtain st1 n1 w1 where
    r: "claim_pins pal (Some ow) ?rows 0 w = (st1, n1, w1)" "ok w1" "n1 \<le> length (used ?rows)"
      "st1 = WINK_OK \<longrightarrow> n1 = length (used ?rows)" "\<forall>p \<in> set (take n1 (used ?rows)). held w p = None"
      "held w1 = owned (Some ow) (take n1 (used ?rows)) (held w)" by auto
  have grows: "\<forall>p \<in> set (used ?rows). good p" using rows by blast
  note undo_rows = claims_undone [OF _ _ r(5) pre [OF assms(4)] r(3) grows rows(2)]
  show ?thesis
  proof (cases "st1 = WINK_OK")
    case False
    then have "w' = release_pins pal (Some ow) (take n1 (kc_row_pins c)) w1 \<and> d' = Some d"
      using assms(2,3,8) r(1) by (simp add: dal_keypad_init_def nr_def nc_def)
    with undo_rows [OF r(2,6)] tk [OF r(3)] show ?thesis by simp
  next
    case True
    have "set (used ?rows) \<inter> set (used ?cols) = {}"
      using assms(6) sub(1) [of nr "kc_row_pins c"] sub(1) [of nc "kc_col_pins c"] by auto
    moreover have all: "take n1 (used ?rows) = used ?rows" using r(4) True by simp
    ultimately have "held w1 p = held w p" if "p \<in> set (used ?cols)" for p
      unfolding r(6) owned_def using that by auto
    then have cols: "\<forall>p \<in> set (used ?cols). good p \<and> held w1 p \<noteq> Some ow"
      using assms(7) sub(1) [of nc "kc_col_pins c"] by auto
    have dcols: "distinct (used ?cols)" using assms(6) sub(2) [of "kc_col_pins c" nc] by simp
    from claim_pins_spec [OF r(2) cols dcols, of 0] obtain st2 n2 w2 where
      c: "claim_pins pal (Some ow) ?cols 0 w1 = (st2, n2, w2)" "ok w2" "n2 \<le> length (used ?cols)"
        "\<forall>p \<in> set (take n2 (used ?cols)). held w1 p = None" "held w2 = owned (Some ow) (take n2 (used ?cols)) (held w1)"
      by auto
    have gcols: "\<forall>p \<in> set (used ?cols). good p" using cols by blast
    from claims_undone [OF c(2,5,4) pre [OF assms(5)] c(3) gcols dcols] tk [OF c(3)]
    have u2: "ok (release_pins pal (Some ow) (take n2 (kc_col_pins c)) w2)"
      "held (release_pins pal (Some ow) (take n2 (kc_col_pins c)) w2) = held w1" by simp_all
    have "st2 \<noteq> WINK_OK" using assms(2,3,8,9) r(1) c(1) True by (auto simp: dal_keypad_init_def nr_def nc_def Let_def)
    then have w': "w' = release_pins pal (Some ow) ?rows (release_pins pal (Some ow) (take n2 (kc_col_pins c)) w2)"
      and "d' = Some d"
      using assms(2,3,8) r(1) c(1) True by (simp_all add: dal_keypad_init_def nr_def nc_def)
    have "\<forall>p \<in> set (used ?rows). good p \<and> held (release_pins pal (Some ow) (take n2 (kc_col_pins c)) w2) p = Some ow"
      unfolding u2(2) r(6) all using grows by (simp add: owned_def)
    from release_pins_spec [OF u2(1) this rows(2)] have "held w' = owned None (used ?rows) (held w1)"
      unfolding w' u2(2) by blast
    also have "\<dots> = held w" unfolding r(6) all by (rule owned_back) (use r(5) all in simp)
    finally show ?thesis using \<open>d' = Some d\<close> by simp
  qed
qed

end

section \<open>Properties\<close>

text \<open>C25: an initialisation that fails gives back every pin it claimed and leaves the device
  alone, whichever claim fails, if in the lists of rows and columns the unused pins come last.\<close>
theorem keypad_failed_init_gives_pins_back:
  assumes "host_ok b" "kc_owner c = Some ow" "\<not> kp_initialized d"
    and "unused_last (kc_row_pins c)" "unused_last (kc_col_pins c)" "distinct (used (kc_row_pins c @ kc_col_pins c))"
    and "\<forall>p \<in> set (used (kc_row_pins c @ kc_col_pins c)). \<not> pin_bad p \<and> host_held b p \<noteq> Some ow"
    and "dal_keypad_init (host_pal hook) (Some d) (Some c) b = (st, d', b')" "st \<noteq> WINK_OK"
  shows "host_held b' = host_held b \<and> d' = Some d"
  by (rule host.keypad_init_failure [OF assms])

text \<open>The order matters: with an unused pin first, a pin claimed before the failure stays claimed.\<close>

lemma keypad_failed_init_leaks_pin:
  assumes "host_ok b" "\<not> pin_bad p" "\<not> pin_bad q" "host_held b p = None" "host_room b" "host_held b q = Some ow'"
    and "ow' \<noteq> ow" "kc_owner c = Some ow" "kc_row_pins c = [-1, p, q, r]" "kc_num_rows c = 4" "\<not> kp_initialized d"
  shows "\<exists>b'. dal_keypad_init (host_pal hook) (Some d) (Some c) b = (WINK_ERR_BUSY, Some d, b')
    \<and> host_held b' p = Some ow"
proof -
  have pq: "p \<noteq> q" "0 \<le> p" "0 \<le> q" using assms(2-4,6) by (auto simp: pin_bad_def)
  from host.claim_free [OF assms(1,2,4,5), of hook ow] obtain b1 where
    b1: "claim_pin (host_pal hook) p (Some ow) b = (WINK_OK, b1)" "host_ok b1" "host_held b1 = (host_held b)(p := Some ow)"
    by blast
  have "host_held b1 q = Some ow'" using b1(3) pq assms(6) by simp
  from host.claim_taken [OF b1(2) assms(3) this assms(7)]
  have "claim_pin (host_pal hook) q (Some ow) b1 = (WINK_ERR_BUSY, b1)" .
  with b1 pq assms(8-11) show ?thesis
    by (simp add: dal_keypad_init_def DAL_KEYPAD_MAX_ROWS_def release_pins_def)
qed

definition demo_keypad :: dal_keypad_config_t where
  "demo_keypad = \<lparr> kc_owner = Some ''pad'', kc_custom_keymap = None, kc_debounce_ms = 0,
     kc_row_pins = [4, 5, 6, -1], kc_col_pins = [7, 8, -1, -1], kc_variant = DAL_KEYPAD_VARIANT_MATRIX_4X4,
     kc_num_rows = 4, kc_num_cols = 4, kc_active_low = True \<rparr>"

lemma keypad_failed_init_witness:
  "\<exists>b b'. host_held b 8 = Some ''led''
    \<and> dal_keypad_init (host_pal (\<lambda>_ h. h)) (Some keypad_zero) (Some demo_keypad) b = (WINK_ERR_BUSY, Some keypad_zero, b')
    \<and> host_held b' 4 = None"
proof -
  let ?pal = "host_pal (\<lambda>_ h. h)"
  let ?b = "snd (claim_pin ?pal 8 (Some ''led'') demo_board)"
  have "\<not> pin_bad 8" by (simp add: pin_bad_def HOST_MAX_GPIO_PIN_def)
  from host.claim_free [OF demo_board_ok this demo_board_free demo_board_room, of "\<lambda>_ h. h" "''led''"]
  have b: "host_ok ?b" "host_held ?b = (host_held demo_board)(8 := Some ''led'')" by auto
  let ?rows = "claim_pins ?pal (Some ''pad'') [4, 5, 6, -1] 0 ?b"
  have "fst ?rows = WINK_OK" by code_simp
  moreover have "fst (claim_pins ?pal (Some ''pad'') [7, 8, -1, -1] 0 (snd (snd ?rows))) = WINK_ERR_BUSY" by code_simp
  ultimately have st: "fst (dal_keypad_init ?pal (Some keypad_zero) (Some demo_keypad) ?b) = WINK_ERR_BUSY"
    by (simp add: dal_keypad_init_def demo_keypad_def keypad_zero_def DAL_KEYPAD_MAX_ROWS_def DAL_KEYPAD_MAX_COLS_def
        case_prod_beta Let_def del: claim_pins.simps)
  obtain d' b' where r: "dal_keypad_init ?pal (Some keypad_zero) (Some demo_keypad) ?b = (WINK_ERR_BUSY, d', b')"
    using st by (metis prod.collapse)
  have "unused_last [4, 5, 6, -1]"
    unfolding unused_last_def by (rule exI [of _ 3]) (auto simp: less_Suc_eq)
  moreover have "unused_last [7, 8, -1, -1]"
    unfolding unused_last_def by (rule exI [of _ 2]) (auto simp: less_Suc_eq)
  ultimately have "host_held b' = host_held ?b \<and> d' = Some keypad_zero"
    using keypad_failed_init_gives_pins_back [OF b(1) _ _ _ _ _ _ r, of "''pad''"] b(2)
    by (simp add: demo_keypad_def keypad_zero_def demo_board_free pin_bad_def HOST_MAX_GPIO_PIN_def)
  with r b(2) show ?thesis by (intro exI [of _ ?b] exI [of _ b']) (simp add: demo_board_free)
qed

end
