(* ===== verification/Pwm_Router.thy ===== *)
theory Pwm_Router
  imports Wink_Prelude
begin

text \<open>
  The PWM timer router of \<^verbatim>\<open>pal/src/pal_pwm_router.c\<close>: eight channels share four hardware
  timers, a timer is shared by the channels that asked for the same frequency, resolution and
  clock. On top of it the integer part of the host's PWM driver
  (\<^verbatim>\<open>targets/host/pal_hal_pwm_host.c\<close>). The floating-point helpers
  (\<^verbatim>\<open>pal_pwm_percent_to_raw\<close>, \<^verbatim>\<open>pal_pwm_set_duty\<close>) are left out.
\<close>

section \<open>Data\<close>

record pal_pwm_timer_profile_t =
  pf_freq_hz :: u32
  pf_resolution_bits :: u8
  pf_clock_source :: u8

record pwm_timer_slot_t =
  ts_profile :: pal_pwm_timer_profile_t
  ts_ref_count :: u8

record pwm_router =
  pr_slots :: "pwm_timer_slot_t list"
  pr_channel_init :: "bool list"
  pr_channel_profile :: "pal_pwm_timer_profile_t list"
  pr_channel_timer :: "u8 list"

definition PAL_PWM_TIMERS :: nat where "PAL_PWM_TIMERS = 4"
definition PAL_PWM_CHANNELS :: nat where "PAL_PWM_CHANNELS = 8"

definition profile_zero :: pal_pwm_timer_profile_t where
  "profile_zero = \<lparr> pf_freq_hz = 0, pf_resolution_bits = 0, pf_clock_source = 0 \<rparr>"

definition pal_pwm_timer_profile_default :: "u32 \<Rightarrow> pal_pwm_timer_profile_t" where
  "pal_pwm_timer_profile_default freq_hz =
    \<lparr> pf_freq_hz = freq_hz, pf_resolution_bits = 13, pf_clock_source = 0 \<rparr>"

section \<open>Operations\<close>

definition pwm_profile_valid :: "pal_pwm_timer_profile_t option \<Rightarrow> bool" where
  "pwm_profile_valid p \<longleftrightarrow>
    (case p of None \<Rightarrow> False
     | Some p \<Rightarrow> pf_freq_hz p > 0 \<and> pf_resolution_bits p > 0 \<and> pf_resolution_bits p \<le> 20
         \<and> pf_clock_source p \<le> 1)"

definition pwm_profiles_equal :: "pal_pwm_timer_profile_t \<Rightarrow> pal_pwm_timer_profile_t \<Rightarrow> bool" where
  "pwm_profiles_equal a b \<longleftrightarrow> pf_freq_hz a = pf_freq_hz b
    \<and> pf_resolution_bits a = pf_resolution_bits b \<and> pf_clock_source a = pf_clock_source b"

definition pal_pwm_router_reset :: pwm_router where
  "pal_pwm_router_reset =
    \<lparr> pr_slots = replicate PAL_PWM_TIMERS \<lparr> ts_profile = profile_zero, ts_ref_count = 0 \<rparr>,
      pr_channel_init = replicate PAL_PWM_CHANNELS False,
      pr_channel_profile = replicate PAL_PWM_CHANNELS profile_zero,
      pr_channel_timer = replicate PAL_PWM_CHANNELS 0xFF \<rparr>"

text \<open>The search for a timer from slot \<open>t\<close> on, with the first free slot seen so far.\<close>

fun find_slot_loop ::
  "pal_pwm_timer_profile_t \<Rightarrow> nat \<Rightarrow> nat option \<Rightarrow> pwm_timer_slot_t list \<Rightarrow> nat option" where
  "find_slot_loop p t free_slot [] = free_slot"
| "find_slot_loop p t free_slot (s # ss) =
     (if ts_ref_count s > 0 \<and> pwm_profiles_equal (ts_profile s) p then Some t
      else find_slot_loop p (Suc t)
             (if ts_ref_count s = 0 \<and> free_slot = None then Some t else free_slot) ss)"

definition pwm_router_find_slot :: "pal_pwm_timer_profile_t \<Rightarrow> pwm_router \<Rightarrow> nat option" where
  "pwm_router_find_slot p r = find_slot_loop p 0 None (pr_slots r)"

definition take_slot :: "nat \<Rightarrow> u8 \<Rightarrow> pal_pwm_timer_profile_t \<Rightarrow> pwm_router \<Rightarrow> pwm_router" where
  "take_slot slot channel p r =
    (let s = pr_slots r ! slot;
         s = (if ts_ref_count s = 0 then s\<lparr> ts_profile := p \<rparr> else s);
         s = s\<lparr> ts_ref_count := ts_ref_count s + 1 \<rparr>
     in r\<lparr> pr_slots := (pr_slots r)[slot := s],
           pr_channel_init := (pr_channel_init r)[unat channel := True],
           pr_channel_profile := (pr_channel_profile r)[unat channel := p],
           pr_channel_timer := (pr_channel_timer r)[unat channel := of_nat slot] \<rparr>)"

definition pal_pwm_router_acquire ::
  "u8 \<Rightarrow> pal_pwm_timer_profile_t option \<Rightarrow> u8 option \<Rightarrow> pwm_router
    \<Rightarrow> wink_status_t \<times> u8 option \<times> pwm_router" where
  "pal_pwm_router_acquire channel profile out_timer_num r =
    (if unat channel \<ge> PAL_PWM_CHANNELS \<or> out_timer_num = None \<or> \<not> pwm_profile_valid profile
     then (WINK_ERR_INVALID_ARG, out_timer_num, r)
     else let p = the profile
          in if pr_channel_init r ! unat channel
             then if pwm_profiles_equal (pr_channel_profile r ! unat channel) p
                  then (WINK_OK, Some (pr_channel_timer r ! unat channel), r)
                  else (WINK_ERR_BUSY, out_timer_num, r)
             else case pwm_router_find_slot p r of
                    None \<Rightarrow> (WINK_ERR_RESOURCE_EXHAUSTED, out_timer_num, r)
                  | Some slot \<Rightarrow> (WINK_OK, Some (of_nat slot), take_slot slot channel p r))"

definition drop_ref :: "nat \<Rightarrow> pwm_router \<Rightarrow> pwm_router" where
  "drop_ref t r =
    (let s = pr_slots r ! t;
         s = s\<lparr> ts_ref_count := ts_ref_count s - 1 \<rparr>;
         s = (if ts_ref_count s = 0 then s\<lparr> ts_profile := profile_zero \<rparr> else s)
     in r\<lparr> pr_slots := (pr_slots r)[t := s] \<rparr>)"

definition pal_pwm_router_release :: "u8 \<Rightarrow> pwm_router \<Rightarrow> pwm_router" where
  "pal_pwm_router_release channel r =
    (if unat channel \<ge> PAL_PWM_CHANNELS \<or> \<not> pr_channel_init r ! unat channel then r
     else let t = unat (pr_channel_timer r ! unat channel);
              r = (if t < PAL_PWM_TIMERS \<and> ts_ref_count (pr_slots r ! t) > 0 then drop_ref t r else r)
          in r\<lparr> pr_channel_init := (pr_channel_init r)[unat channel := False],
                pr_channel_profile := (pr_channel_profile r)[unat channel := profile_zero],
                pr_channel_timer := (pr_channel_timer r)[unat channel := 0xFF] \<rparr>)"

definition pal_pwm_router_channel_ready :: "u8 \<Rightarrow> pwm_router \<Rightarrow> bool" where
  "pal_pwm_router_channel_ready channel r \<longleftrightarrow>
    unat channel < PAL_PWM_CHANNELS \<and> pr_channel_init r ! unat channel"

definition pal_pwm_router_set_freq :: "u8 \<Rightarrow> u32 \<Rightarrow> pwm_router \<Rightarrow> wink_status_t \<times> pwm_router" where
  "pal_pwm_router_set_freq channel freq_hz r =
    (if unat channel \<ge> PAL_PWM_CHANNELS \<or> \<not> pr_channel_init r ! unat channel \<or> freq_hz = 0
     then (WINK_ERR_INVALID_ARG, r)
     else let c = unat channel;
              r = r\<lparr> pr_channel_profile := (pr_channel_profile r)[c :=
                       (pr_channel_profile r ! c)\<lparr> pf_freq_hz := freq_hz \<rparr>] \<rparr>;
              t = unat (pr_channel_timer r ! c);
              s = pr_slots r ! t
          in (WINK_OK,
              if t < PAL_PWM_TIMERS
              then r\<lparr> pr_slots := (pr_slots r)[t := s\<lparr> ts_profile := (ts_profile s)\<lparr> pf_freq_hz := freq_hz \<rparr> \<rparr>] \<rparr>
              else r))"

definition pal_pwm_router_channel_timer :: "u8 \<Rightarrow> pwm_router \<Rightarrow> u8" where
  "pal_pwm_router_channel_timer channel r =
    (if \<not> pal_pwm_router_channel_ready channel r then 0xFF else pr_channel_timer r ! unat channel)"

section \<open>The host's PWM driver\<close>

datatype pal_pwm_clock_requirement_t = PAL_PWM_CLOCK_AUTO | PAL_PWM_CLOCK_STABLE_REQUIRED

record pal_pwm_config_t =
  pw_freq_hz :: u32
  pw_pin :: int
  pw_resolution_bits :: u8
  pw_clock_requirement :: pal_pwm_clock_requirement_t

text \<open>The duties are recorded in basis points.\<close>

record host_pwm =
  hp_router :: pwm_router
  hp_pins :: "int list"
  hp_recorded :: "(u8 \<times> u16) list"

definition WINK_PIN_NC :: int where "WINK_PIN_NC = -1"

definition pal_pwm_init_ex :: "u8 \<Rightarrow> pal_pwm_config_t option \<Rightarrow> host_pwm \<Rightarrow> wink_status_t \<times> host_pwm" where
  "pal_pwm_init_ex channel cfg h =
    (case cfg of None \<Rightarrow> (WINK_ERR_INVALID_ARG, h)
     | Some c \<Rightarrow>
       if unat channel \<ge> PAL_PWM_CHANNELS \<or> pw_freq_hz c = 0 then (WINK_ERR_INVALID_ARG, h)
       else if pw_clock_requirement c = PAL_PWM_CLOCK_STABLE_REQUIRED then (WINK_ERR_UNSUPPORTED, h)
       else let bits = (if pw_resolution_bits c \<noteq> 0 then pw_resolution_bits c else 13)
            in if bits = 0 \<or> bits > 20 then (WINK_ERR_INVALID_ARG, h)
               else let pin = (if pw_pin c \<noteq> WINK_PIN_NC then pw_pin c else hp_pins h ! unat channel);
                        h = (if pin \<ge> 0 then h\<lparr> hp_pins := (hp_pins h)[unat channel := pin] \<rparr> else h);
                        (rs, _, r) = pal_pwm_router_acquire channel
                          (Some \<lparr> pf_freq_hz = pw_freq_hz c, pf_resolution_bits = bits, pf_clock_source = 0 \<rparr>)
                          (Some 0) (hp_router h);
                        h = h\<lparr> hp_router := r \<rparr>
                    in if wink_status_is_error rs then (rs, h) else (WINK_OK, h))"

definition pal_pwm_init :: "u8 \<Rightarrow> u32 \<Rightarrow> host_pwm \<Rightarrow> wink_status_t \<times> host_pwm" where
  "pal_pwm_init channel freq h =
    pal_pwm_init_ex channel (Some \<lparr> pw_freq_hz = freq, pw_pin = WINK_PIN_NC, pw_resolution_bits = 0,
      pw_clock_requirement = PAL_PWM_CLOCK_AUTO \<rparr>) h"

definition pal_pwm_set_duty_bp :: "u8 \<Rightarrow> u16 \<Rightarrow> host_pwm \<Rightarrow> wink_status_t \<times> host_pwm" where
  "pal_pwm_set_duty_bp channel basis_points h =
    (if unat channel \<ge> PAL_PWM_CHANNELS then (WINK_ERR_INVALID_ARG, h)
     else if \<not> pal_pwm_router_channel_ready channel (hp_router h) then (WINK_ERR_INVALID_STATE, h)
     else if basis_points > 10000 then (WINK_ERR_INVALID_ARG, h)
     else (WINK_OK, h\<lparr> hp_recorded := (channel, basis_points) # hp_recorded h \<rparr>))"

definition pal_pwm_set_freq :: "u8 \<Rightarrow> u32 \<Rightarrow> host_pwm \<Rightarrow> wink_status_t \<times> host_pwm" where
  "pal_pwm_set_freq channel freq_hz h =
    (if unat channel \<ge> PAL_PWM_CHANNELS then (WINK_ERR_INVALID_ARG, h)
     else if \<not> pal_pwm_router_channel_ready channel (hp_router h) \<or> freq_hz = 0 then (WINK_ERR_INVALID_ARG, h)
     else let (st, r) = pal_pwm_router_set_freq channel freq_hz (hp_router h)
          in (st, h\<lparr> hp_router := r \<rparr>))"

definition pal_pwm_deinit :: "u8 \<Rightarrow> host_pwm \<Rightarrow> wink_status_t \<times> host_pwm" where
  "pal_pwm_deinit channel h =
    (if unat channel \<ge> PAL_PWM_CHANNELS then (WINK_ERR_INVALID_ARG, h)
     else if \<not> pal_pwm_router_channel_ready channel (hp_router h) then (WINK_ERR_INVALID_STATE, h)
     else (WINK_OK, h\<lparr> hp_router := pal_pwm_router_release channel (hp_router h) \<rparr>))"

definition pal_pwm_channel_pin :: "u8 \<Rightarrow> int option \<Rightarrow> host_pwm \<Rightarrow> wink_status_t \<times> int option" where
  "pal_pwm_channel_pin channel out_pin h =
    (if out_pin = None then (WINK_ERR_INVALID_ARG, out_pin)
     else if unat channel \<ge> PAL_PWM_CHANNELS then (WINK_ERR_INVALID_ARG, out_pin)
     else if hp_pins h ! unat channel < 0 then (WINK_ERR_UNSUPPORTED, out_pin)
     else (WINK_OK, Some (hp_pins h ! unat channel)))"

section \<open>Reference counts\<close>

definition users :: "pwm_router \<Rightarrow> nat \<Rightarrow> nat set" where
  "users r t = {c. c < PAL_PWM_CHANNELS \<and> pr_channel_init r ! c \<and> unat (pr_channel_timer r ! c) = t}"

text \<open>Every timer counts its channels, every ready channel has a timer; and, without a change
  of frequency, the channels of a timer run with its profile.\<close>

definition router_inv :: "pwm_router \<Rightarrow> bool" where
  "router_inv r \<longleftrightarrow> length (pr_slots r) = PAL_PWM_TIMERS \<and> length (pr_channel_init r) = PAL_PWM_CHANNELS
    \<and> length (pr_channel_profile r) = PAL_PWM_CHANNELS \<and> length (pr_channel_timer r) = PAL_PWM_CHANNELS
    \<and> (\<forall>t < PAL_PWM_TIMERS. unat (ts_ref_count (pr_slots r ! t)) = card (users r t))
    \<and> (\<forall>c < PAL_PWM_CHANNELS. pr_channel_init r ! c \<longrightarrow> unat (pr_channel_timer r ! c) < PAL_PWM_TIMERS)"

definition profiles_agree :: "pwm_router \<Rightarrow> bool" where
  "profiles_agree r \<longleftrightarrow> (\<forall>c < PAL_PWM_CHANNELS. pr_channel_init r ! c \<longrightarrow>
     ts_profile (pr_slots r ! unat (pr_channel_timer r ! c)) = pr_channel_profile r ! c)"

lemma profiles_equal_iff [simp]: "pwm_profiles_equal a b \<longleftrightarrow> a = b"
  by (cases a; cases b) (auto simp: pwm_profiles_equal_def)

lemma finite_users [simp]: "finite (users r t)"
  by (simp add: users_def)

lemma card_users: "card (users r t) \<le> PAL_PWM_CHANNELS"
proof -
  have "users r t \<subseteq> {..< PAL_PWM_CHANNELS}" by (auto simp: users_def)
  from card_mono [OF _ this] show ?thesis by simp
qed

lemma find_slot_loop_Some:
  "find_slot_loop p t f ss = Some k \<Longrightarrow>
    f = Some k \<or> (\<exists>j < length ss. k = t + j \<and> (ts_ref_count (ss ! j) = 0 \<or> ts_profile (ss ! j) = p))"
proof (induction ss arbitrary: t f)
  case (Cons s ss)
  show ?case
  proof (cases "ts_ref_count s > 0 \<and> ts_profile s = p")
    case True
    with Cons.prems show ?thesis by auto
  next
    case False
    with Cons.prems have "find_slot_loop p (Suc t)
        (if ts_ref_count s = 0 \<and> f = None then Some t else f) ss = Some k" by (auto split: if_splits)
    from Cons.IH [OF this] show ?thesis by (auto split: if_splits)
  qed
qed simp

lemma find_slot_loop_None:
  "find_slot_loop p t f ss = None \<longleftrightarrow> f = None \<and> (\<forall>s \<in> set ss. ts_ref_count s \<noteq> 0 \<and> ts_profile s \<noteq> p)"
  by (induction ss arbitrary: t f) (auto simp: word_gt_0)

lemma find_slot_Some:
  assumes "pwm_router_find_slot p r = Some k" "length (pr_slots r) = PAL_PWM_TIMERS"
  shows "k < PAL_PWM_TIMERS" "ts_ref_count (pr_slots r ! k) = 0 \<or> ts_profile (pr_slots r ! k) = p"
  using find_slot_loop_Some [of p 0 None "pr_slots r" k] assms by (auto simp: pwm_router_find_slot_def)

lemma router_reset: "router_inv pal_pwm_router_reset" "profiles_agree pal_pwm_router_reset"
  by (auto simp: router_inv_def profiles_agree_def pal_pwm_router_reset_def users_def)

lemma users_take:
  assumes "router_inv r" "unat channel < PAL_PWM_CHANNELS" "\<not> pr_channel_init r ! unat channel"
    "slot < PAL_PWM_TIMERS"
  shows "users (take_slot slot channel p r) t = (if t = slot then insert (unat channel) (users r t) else users r t)"
proof -
  have "unat (of_nat slot :: u8) = slot" using assms(4) by (simp add: unat_of_nat PAL_PWM_TIMERS_def)
  then show ?thesis
    using assms by (auto simp: users_def take_slot_def Let_def router_inv_def nth_list_update)
qed

lemma router_take:
  assumes inv: "router_inv r" and c: "unat channel < PAL_PWM_CHANNELS" "\<not> pr_channel_init r ! unat channel"
    and slot: "slot < PAL_PWM_TIMERS"
  shows "router_inv (take_slot slot channel p r)"
proof -
  let ?r = "take_slot slot channel p r"
  have new: "unat channel \<notin> users r slot" using c(2) by (simp add: users_def)
  have "Suc (card (users r slot)) \<le> PAL_PWM_CHANNELS"
    using card_users [of ?r slot] new by (simp add: users_take [OF assms])
  then have cnt: "unat (ts_ref_count (pr_slots r ! slot) + 1) = Suc (card (users r slot))"
    using inv slot by (simp add: router_inv_def unat_word_ariths PAL_PWM_CHANNELS_def)
  have "unat (ts_ref_count (pr_slots ?r ! t)) = card (users ?r t)" if "t < PAL_PWM_TIMERS" for t
    unfolding users_take [OF assms]
    using that inv new cnt slot by (auto simp: take_slot_def Let_def router_inv_def nth_list_update)
  moreover have "unat (pr_channel_timer ?r ! k) < PAL_PWM_TIMERS"
    if "k < PAL_PWM_CHANNELS" "pr_channel_init ?r ! k" for k
  proof (cases "k = unat channel")
    case True
    then show ?thesis using inv c(1) slot
      by (simp add: take_slot_def Let_def router_inv_def unat_of_nat PAL_PWM_TIMERS_def)
  next
    case False
    then show ?thesis using inv that by (simp add: take_slot_def Let_def router_inv_def)
  qed
  moreover have "length (pr_slots ?r) = length (pr_slots r)" "length (pr_channel_init ?r) = length (pr_channel_init r)"
    "length (pr_channel_profile ?r) = length (pr_channel_profile r)"
    "length (pr_channel_timer ?r) = length (pr_channel_timer r)"
    by (simp_all add: take_slot_def Let_def)
  ultimately show ?thesis using inv unfolding router_inv_def by simp
qed

lemma profiles_take:
  assumes "router_inv r" "profiles_agree r" "unat channel < PAL_PWM_CHANNELS" "\<not> pr_channel_init r ! unat channel"
    "slot < PAL_PWM_TIMERS" "ts_ref_count (pr_slots r ! slot) = 0 \<or> ts_profile (pr_slots r ! slot) = p"
  shows "profiles_agree (take_slot slot channel p r)"
proof -
  have s: "unat (of_nat slot :: u8) = slot" using assms(5) by (simp add: unat_of_nat PAL_PWM_TIMERS_def)
  have free: "users r slot = {}" if "ts_ref_count (pr_slots r ! slot) = 0"
  proof -
    have "card (users r slot) = 0" using assms(1,5) that by (metis router_inv_def unat_0)
    then show ?thesis by simp
  qed
  let ?r = "take_slot slot channel p r"
  have prof: "ts_profile (pr_slots ?r ! t) = (if t = slot \<and> ts_ref_count (pr_slots r ! slot) = 0 then p
      else ts_profile (pr_slots r ! t))" if "t < PAL_PWM_TIMERS" for t
    using that assms(1) by (cases "t = slot") (simp_all add: take_slot_def Let_def router_inv_def)
  have "ts_profile (pr_slots ?r ! unat (pr_channel_timer ?r ! k)) = pr_channel_profile ?r ! k"
    if k: "k < PAL_PWM_CHANNELS" "pr_channel_init ?r ! k" for k
  proof (cases "k = unat channel")
    case True
    then have "unat (pr_channel_timer ?r ! k) = slot" "pr_channel_profile ?r ! k = p"
      using assms(1,3) s by (simp_all add: take_slot_def Let_def router_inv_def)
    then show ?thesis using prof [OF assms(5)] assms(6) by auto
  next
    case False
    then have old: "pr_channel_timer ?r ! k = pr_channel_timer r ! k" "pr_channel_profile ?r ! k = pr_channel_profile r ! k"
      "pr_channel_init r ! k"
      using k by (simp_all add: take_slot_def Let_def)
    have "k \<in> users r (unat (pr_channel_timer r ! k))" using k(1) old(3) by (simp add: users_def)
    then have "unat (pr_channel_timer r ! k) = slot \<longrightarrow> ts_ref_count (pr_slots r ! slot) \<noteq> 0" using free by auto
    moreover have "unat (pr_channel_timer r ! k) < PAL_PWM_TIMERS"
      using assms(1) k(1) old(3) by (simp add: router_inv_def)
    ultimately show ?thesis using prof old assms(2) k(1) by (auto simp: profiles_agree_def)
  qed
  then show ?thesis by (simp add: profiles_agree_def)
qed

lemma router_acquire:
  assumes "router_inv r"
  shows "router_inv (snd (snd (pal_pwm_router_acquire channel prof out r)))"
    and "profiles_agree r \<Longrightarrow> profiles_agree (snd (snd (pal_pwm_router_acquire channel prof out r)))"
proof -
  have len: "length (pr_slots r) = PAL_PWM_TIMERS" using assms by (simp add: router_inv_def)
  show "router_inv (snd (snd (pal_pwm_router_acquire channel prof out r)))"
    using router_take [OF assms] find_slot_Some(1) [OF _ len] assms
    by (auto simp: pal_pwm_router_acquire_def Let_def not_le split: option.split)
  show "profiles_agree (snd (snd (pal_pwm_router_acquire channel prof out r)))" if "profiles_agree r"
    using profiles_take [OF assms that] find_slot_Some [OF _ len] that
    by (auto simp: pal_pwm_router_acquire_def Let_def not_le split: option.split)
qed

lemma router_release:
  assumes inv: "router_inv r"
  shows "router_inv (pal_pwm_router_release channel r)"
    and "profiles_agree r \<Longrightarrow> profiles_agree (pal_pwm_router_release channel r)"
    and "unat channel < PAL_PWM_CHANNELS \<Longrightarrow> \<not> pr_channel_init (pal_pwm_router_release channel r) ! unat channel"
proof -
  let ?c = "unat channel"
  have "router_inv (pal_pwm_router_release channel r)
      \<and> (profiles_agree r \<longrightarrow> profiles_agree (pal_pwm_router_release channel r))
      \<and> (?c < PAL_PWM_CHANNELS \<longrightarrow> \<not> pr_channel_init (pal_pwm_router_release channel r) ! ?c)"
  proof (cases "?c < PAL_PWM_CHANNELS \<and> pr_channel_init r ! ?c")
    case False
    then show ?thesis using inv by (auto simp: pal_pwm_router_release_def)
  next
    case True
    let ?t = "unat (pr_channel_timer r ! ?c)"
    let ?r = "pal_pwm_router_release channel r"
    have t: "?t < PAL_PWM_TIMERS" using inv True by (simp add: router_inv_def)
    have mem: "?c \<in> users r ?t" using True by (simp add: users_def)
    have cnt: "unat (ts_ref_count (pr_slots r ! ?t)) = card (users r ?t)" using inv t by (simp add: router_inv_def)
    have pos: "0 < card (users r ?t)" using mem by (auto simp: card_gt_0_iff)
    then have nz: "ts_ref_count (pr_slots r ! ?t) \<noteq> 0" using cnt by (metis less_irrefl unat_0)
    have r: "?r = (drop_ref ?t r)\<lparr> pr_channel_init := (pr_channel_init r)[?c := False],
        pr_channel_profile := (pr_channel_profile r)[?c := profile_zero],
        pr_channel_timer := (pr_channel_timer r)[?c := 0xFF] \<rparr>"
      using True t nz by (simp add: pal_pwm_router_release_def Let_def drop_ref_def word_gt_0)
    have ch: "pr_channel_init ?r ! k = (k \<noteq> ?c \<and> pr_channel_init r ! k)"
      "k \<noteq> ?c \<Longrightarrow> pr_channel_timer ?r ! k = pr_channel_timer r ! k"
      "k \<noteq> ?c \<Longrightarrow> pr_channel_profile ?r ! k = pr_channel_profile r ! k" if "k < PAL_PWM_CHANNELS" for k
      using that inv by (cases "k = ?c"; simp add: r router_inv_def drop_ref_def Let_def)+
    have us: "users ?r t' = users r t' - {?c}" for t'
      using ch by (auto simp: users_def)
    have same: "users r t' - {?c} = users r t'" if "t' \<noteq> ?t" for t'
      using that by (auto simp: users_def)
    have dec: "unat (ts_ref_count (pr_slots r ! ?t) - 1) = card (users r ?t) - 1"
      using nz cnt by (simp add: unat_minus_one)
    have slots: "ts_ref_count (pr_slots ?r ! t') = (if t' = ?t then ts_ref_count (pr_slots r ! ?t) - 1
        else ts_ref_count (pr_slots r ! t'))" if "t' < PAL_PWM_TIMERS" for t'
      using that inv by (simp add: r drop_ref_def Let_def router_inv_def)
    have refs: "unat (ts_ref_count (pr_slots ?r ! t')) = card (users ?r t')" if "t' < PAL_PWM_TIMERS" for t'
    proof (cases "t' = ?t")
      case True
      then show ?thesis using dec mem unfolding us slots [OF that] by simp
    next
      case False
      then show ?thesis using that inv unfolding us slots [OF that] same [OF False] router_inv_def by simp
    qed
    have prof: "ts_profile (pr_slots ?r ! t') = ts_profile (pr_slots r ! t')"
      if "k \<in> users r t' - {?c}" for t' k
    proof (cases "t' = ?t")
      case True
      have "card (users ?r t') \<noteq> 0" using that by (auto simp: us)
      then have "ts_ref_count (pr_slots ?r ! t') \<noteq> 0" using refs [of t'] t True by (metis unat_0)
      then show ?thesis using True inv t by (auto simp: r drop_ref_def Let_def router_inv_def)
    next
      case False
      then show ?thesis by (simp add: r drop_ref_def Let_def)
    qed
    have "router_inv ?r"
      using inv refs ch unfolding router_inv_def by (simp add: r drop_ref_def Let_def)
    moreover have "profiles_agree ?r" if "profiles_agree r"
      using that ch prof by (auto simp: profiles_agree_def users_def)
    ultimately show ?thesis using ch True by simp
  qed
  then show "router_inv (pal_pwm_router_release channel r)"
    "profiles_agree r \<Longrightarrow> profiles_agree (pal_pwm_router_release channel r)"
    "?c < PAL_PWM_CHANNELS \<Longrightarrow> \<not> pr_channel_init (pal_pwm_router_release channel r) ! ?c" by auto
qed

lemma router_set_freq:
  assumes "router_inv r"
  shows "router_inv (snd (pal_pwm_router_set_freq channel freq r))"
proof -
  have "users (snd (pal_pwm_router_set_freq channel freq r)) t = users r t" for t
    by (simp add: users_def pal_pwm_router_set_freq_def Let_def)
  then show ?thesis
    using assms by (auto simp: router_inv_def pal_pwm_router_set_freq_def Let_def nth_list_update)
qed

section \<open>Properties\<close>

text \<open>C18: acquiring, releasing and changing a frequency keep the reference counts exact: a timer
  counts the ready channels mapped to it, so it is free exactly when no channel uses it.
  Acquiring and releasing also keep every ready channel on a timer with its own profile.\<close>
theorem pwm_router_refcounts_exact:
  assumes "router_inv r"
  shows "router_inv (snd (snd (pal_pwm_router_acquire channel prof out r)))
    \<and> router_inv (pal_pwm_router_release channel r)
    \<and> router_inv (snd (pal_pwm_router_set_freq channel freq r))
    \<and> (profiles_agree r \<longrightarrow> profiles_agree (snd (snd (pal_pwm_router_acquire channel prof out r)))
         \<and> profiles_agree (pal_pwm_router_release channel r))"
  using router_acquire [OF assms] router_release [OF assms] router_set_freq [OF assms] by blast

lemma pwm_router_refcounts_exact_witness:
  "router_inv (pal_pwm_router_release 3 (snd (snd (pal_pwm_router_acquire 3
      (Some (pal_pwm_timer_profile_default 50)) (Some 0) pal_pwm_router_reset))))"
proof -
  note pwm_router_refcounts_exact [OF router_reset(1), of 3 "Some (pal_pwm_timer_profile_default 50)" "Some 0" 0,
      THEN conjunct1]
  from pwm_router_refcounts_exact [OF this, of 3 None None 0] show ?thesis by blast
qed

text \<open>Changing the frequency of one channel changes the timer of every channel that shares
  it, while their recorded profiles keep the old frequency: asked again for the old profile,
  such a channel answers \<open>WINK_OK\<close> with a timer that runs at another frequency.\<close>
lemma pwm_set_freq_leaks_to_shared_channels:
  assumes "router_inv r" "profiles_agree r"
    and "unat a < PAL_PWM_CHANNELS" "unat b < PAL_PWM_CHANNELS" "a \<noteq> b"
    and "pr_channel_init r ! unat a" "pr_channel_init r ! unat b"
    and "pr_channel_timer r ! unat a = pr_channel_timer r ! unat b"
    and "freq \<noteq> 0" "pwm_profile_valid (Some (pr_channel_profile r ! unat b))"
    and "r' = snd (pal_pwm_router_set_freq a freq r)"
  shows "pal_pwm_router_acquire b (Some (pr_channel_profile r ! unat b)) (Some 0) r'
      = (WINK_OK, Some (pr_channel_timer r ! unat b), r')
    \<and> pf_freq_hz (ts_profile (pr_slots r' ! unat (pr_channel_timer r ! unat b))) = freq
    \<and> pf_freq_hz (pr_channel_profile r' ! unat b) = pf_freq_hz (pr_channel_profile r ! unat b)"
proof -
  have ab: "unat a \<noteq> unat b" using assms(5) by (simp add: word_unat_eq_iff)
  have t: "unat (pr_channel_timer r ! unat b) < PAL_PWM_TIMERS" "length (pr_slots r) = PAL_PWM_TIMERS"
    using assms(1,4,7) by (simp_all add: router_inv_def)
  show ?thesis
    using assms(3,4,6-11) ab t
    by (simp add: pal_pwm_router_set_freq_def pal_pwm_router_acquire_def Let_def)
qed

definition shared_router :: pwm_router where
  "shared_router = snd (snd (pal_pwm_router_acquire 2 (Some (pal_pwm_timer_profile_default 50)) (Some 0)
     (snd (snd (pal_pwm_router_acquire 1 (Some (pal_pwm_timer_profile_default 50)) (Some 0)
       pal_pwm_router_reset)))))"

lemma pwm_set_freq_leaks_witness:
  "pf_freq_hz (ts_profile (pr_slots (snd (pal_pwm_router_set_freq 1 1000 shared_router)) ! 0)) = 1000
    \<and> pf_freq_hz (pr_channel_profile (snd (pal_pwm_router_set_freq 1 1000 shared_router)) ! 2) = 50"
proof -
  have inv: "router_inv shared_router" "profiles_agree shared_router"
    unfolding shared_router_def by (intro router_acquire router_reset)+
  have "pr_channel_init shared_router ! 1" "pr_channel_init shared_router ! 2"
    "pr_channel_timer shared_router ! 1 = 0" "pr_channel_timer shared_router ! 2 = 0"
    "pr_channel_profile shared_router ! 2 = pal_pwm_timer_profile_default 50"
    by code_simp+
  then show ?thesis
    using pwm_set_freq_leaks_to_shared_channels [OF inv, of 1 2 1000] 
    by (simp add: PAL_PWM_CHANNELS_def pwm_profile_valid_def pal_pwm_timer_profile_default_def)
qed

end
