(* ===== verification/Dal_Servo.thy ===== *)
theory Dal_Servo
  imports Gpio_Pal Pwm_Router
begin

text \<open>
  The servo driver \<^verbatim>\<open>dal/src/actuator/dal_rc_servo.c\<close>, against the PWM calls of
  \<^verbatim>\<open>pal/include/hal/pal_pwm.h\<close>: an angle in tenths of a degree becomes a pulse width in
  microseconds and that a duty in basis points of the 20 ms period, in unsigned integers. The
  locale states what a port promises of channels and duties; the host simulation provides it.
\<close>

section \<open>The operations of a port\<close>

record 'w pwm_pal =
  pp_claim :: "pal_resource_type_t \<Rightarrow> u32 \<Rightarrow> string option \<Rightarrow> 'w \<Rightarrow> wink_status_t \<times> 'w"
  pp_release :: "pal_resource_type_t \<Rightarrow> u32 \<Rightarrow> string option \<Rightarrow> 'w \<Rightarrow> wink_status_t \<times> 'w"
  pp_init_ex :: "u8 \<Rightarrow> pal_pwm_config_t option \<Rightarrow> 'w \<Rightarrow> wink_status_t \<times> 'w"
  pp_set_duty_bp :: "u8 \<Rightarrow> u16 \<Rightarrow> 'w \<Rightarrow> wink_status_t \<times> 'w"
  pp_deinit :: "u8 \<Rightarrow> 'w \<Rightarrow> wink_status_t \<times> 'w"
  pp_channel_pin :: "u8 \<Rightarrow> 'w \<Rightarrow> wink_status_t \<times> int"
  pp_reset_pin :: "int \<Rightarrow> 'w \<Rightarrow> 'w"

section \<open>Data\<close>

record dal_rc_servo_config_t =
  sc_owner :: "string option"
  sc_min_pulse_us :: u16
  sc_max_pulse_us :: u16
  sc_max_angle_ddeg :: u16
  sc_pwm_channel :: u8
  sc_resolution_bits :: u8
  sc_clock_requirement :: u8

record dal_rc_servo_t =
  sv_config :: dal_rc_servo_config_t
  sv_current_angle_ddeg :: u16
  sv_initialized :: bool

definition SERVO_PWM_FREQ_HZ :: u32 where "SERVO_PWM_FREQ_HZ = 50"
definition SERVO_PERIOD_US :: u32 where "SERVO_PERIOD_US = 20000"
definition SERVO_DEFAULT_MAX_ANGLE_DDEG :: u16 where "SERVO_DEFAULT_MAX_ANGLE_DDEG = 1800"
definition SERVO_DEFAULT_MIN_PULSE_US :: u16 where "SERVO_DEFAULT_MIN_PULSE_US = 500"
definition SERVO_DEFAULT_MAX_PULSE_US :: u16 where "SERVO_DEFAULT_MAX_PULSE_US = 2500"
definition DAL_RC_SERVO_CLOCK_STABLE_REQUIRED :: u8 where "DAL_RC_SERVO_CLOCK_STABLE_REQUIRED = 1"

definition servo_zero :: dal_rc_servo_t where
  "servo_zero = \<lparr> sv_config = \<lparr> sc_owner = None, sc_min_pulse_us = 0, sc_max_pulse_us = 0, sc_max_angle_ddeg = 0,
       sc_pwm_channel = 0, sc_resolution_bits = 0, sc_clock_requirement = 0 \<rparr>,
     sv_current_angle_ddeg = 0, sv_initialized = False \<rparr>"

section \<open>Operations\<close>

definition servo_effective_max_angle_ddeg :: "dal_rc_servo_config_t option \<Rightarrow> u16" where
  "servo_effective_max_angle_ddeg cfg =
    (case cfg of None \<Rightarrow> SERVO_DEFAULT_MAX_ANGLE_DDEG
     | Some c \<Rightarrow> if sc_max_angle_ddeg c = 0 then SERVO_DEFAULT_MAX_ANGLE_DDEG else sc_max_angle_ddeg c)"

definition servo_map_pwm_config :: "dal_rc_servo_config_t \<Rightarrow> wink_status_t + pal_pwm_config_t" where
  "servo_map_pwm_config c =
    (if sc_clock_requirement c > DAL_RC_SERVO_CLOCK_STABLE_REQUIRED then Inl WINK_ERR_INVALID_ARG
     else Inr \<lparr> pw_freq_hz = SERVO_PWM_FREQ_HZ, pw_pin = WINK_PIN_NC, pw_resolution_bits = sc_resolution_bits c,
            pw_clock_requirement = (if sc_clock_requirement c = DAL_RC_SERVO_CLOCK_STABLE_REQUIRED
              then PAL_PWM_CLOCK_STABLE_REQUIRED else PAL_PWM_CLOCK_AUTO) \<rparr>)"

definition dal_rc_servo_init ::
  "'w pwm_pal \<Rightarrow> dal_rc_servo_t option \<Rightarrow> dal_rc_servo_config_t option \<Rightarrow> 'w
    \<Rightarrow> wink_status_t \<times> dal_rc_servo_t option \<times> 'w" where
  "dal_rc_servo_init pal dev cfg w =
    (case (dev, cfg) of (Some d, Some c) \<Rightarrow>
       if sc_owner c = None then (WINK_ERR_INVALID_ARG, dev, w)
       else if sv_initialized d then (WINK_ERR_ALREADY_INITIALIZED, dev, w)
       else if unat (sc_pwm_channel c) \<ge> PAL_PWM_CHANNELS then (WINK_ERR_INVALID_ARG, dev, w)
       else let min_pulse = (if sc_min_pulse_us c > 0 then sc_min_pulse_us c else SERVO_DEFAULT_MIN_PULSE_US);
                max_pulse = (if sc_max_pulse_us c > min_pulse then sc_max_pulse_us c else SERVO_DEFAULT_MAX_PULSE_US)
            in case servo_map_pwm_config c of Inl st \<Rightarrow> (st, dev, w) | Inr pwm_cfg \<Rightarrow>
            let (rs, w) = pp_claim pal PAL_RESOURCE_PWM_CHANNEL (ucast (sc_pwm_channel c)) (sc_owner c) w
            in if wink_status_is_error rs then (rs, dev, w)
       else let (st, w) = pp_init_ex pal (sc_pwm_channel c) (Some pwm_cfg) w
            in if wink_status_is_error st
               then (st, dev, snd (pp_release pal PAL_RESOURCE_PWM_CHANNEL (ucast (sc_pwm_channel c)) (sc_owner c) w))
       else (WINK_OK, Some \<lparr> sv_config = c\<lparr> sc_min_pulse_us := min_pulse, sc_max_pulse_us := max_pulse \<rparr>,
               sv_current_angle_ddeg = 0, sv_initialized = True \<rparr>, snd (pp_set_duty_bp pal (sc_pwm_channel c) 0 w))
     | _ \<Rightarrow> (WINK_ERR_INVALID_ARG, dev, w))"

text \<open>The duty of an angle that has been clamped to the stroke.\<close>

definition servo_duty :: "dal_rc_servo_config_t \<Rightarrow> u16 \<Rightarrow> u16 \<Rightarrow> u16" where
  "servo_duty c max_ddeg angle_ddeg =
    (let pulse_range_us = ucast (sc_max_pulse_us c) - ucast (sc_min_pulse_us c) :: u32;
         pulse_us = ucast (sc_min_pulse_us c) + (ucast angle_ddeg * pulse_range_us) div ucast max_ddeg
     in ucast ((pulse_us * 10000 + SERVO_PERIOD_US div 2) div SERVO_PERIOD_US))"

definition dal_rc_servo_set_angle ::
  "'w pwm_pal \<Rightarrow> u16 \<Rightarrow> dal_rc_servo_t option \<Rightarrow> 'w \<Rightarrow> wink_status_t \<times> dal_rc_servo_t option \<times> 'w" where
  "dal_rc_servo_set_angle pal angle_ddeg dev w =
    (case dev of None \<Rightarrow> (WINK_ERR_INVALID_ARG, dev, w)
     | Some d \<Rightarrow>
       if \<not> sv_initialized d then (WINK_ERR_NOT_INITIALIZED, dev, w)
       else let max_ddeg = servo_effective_max_angle_ddeg (Some (sv_config d));
                angle_ddeg = (if angle_ddeg > max_ddeg then max_ddeg else angle_ddeg);
                basis_points = servo_duty (sv_config d) max_ddeg angle_ddeg;
                (st, w) = pp_set_duty_bp pal (sc_pwm_channel (sv_config d)) basis_points w
            in if wink_status_is_error st then (st, dev, w)
               else (WINK_OK, Some (d\<lparr> sv_current_angle_ddeg := angle_ddeg \<rparr>), w))"

definition dal_rc_servo_safe_off :: "'w pwm_pal \<Rightarrow> dal_rc_servo_t option \<Rightarrow> 'w \<Rightarrow> wink_status_t \<times> 'w" where
  "dal_rc_servo_safe_off pal dev w =
    (case dev of None \<Rightarrow> (WINK_ERR_INVALID_ARG, w)
     | Some d \<Rightarrow> if \<not> sv_initialized d then (WINK_OK, w)
                else pp_set_duty_bp pal (sc_pwm_channel (sv_config d)) 0 w)"

text \<open>The parameters: channel, then minimum, maximum and stroke as little-endian 16-bit numbers.\<close>

definition dal_rc_servo_apply_override ::
  "dal_rc_servo_t option \<Rightarrow> u8 list option \<Rightarrow> u16 \<Rightarrow> wink_status_t \<times> dal_rc_servo_t option" where
  "dal_rc_servo_apply_override dev params len =
    (case (dev, params) of (Some s, Some bs) \<Rightarrow>
       if sv_initialized s then (WINK_ERR_INVALID_ARG, dev)
       else if len < 7 then (WINK_ERR_INVALID_ARG, dev)
       else let pwm_channel = bs ! 0;
                min_pulse_us = of_le_bytes (take 2 (drop 1 bs)); max_pulse_us = of_le_bytes (take 2 (drop 3 bs));
                max_angle_ddeg = of_le_bytes (take 2 (drop 5 bs))
            in if unat pwm_channel \<ge> PAL_PWM_CHANNELS then (WINK_ERR_INVALID_ARG, dev)
               else if min_pulse_us = 0 \<or> max_pulse_us \<le> min_pulse_us then (WINK_ERR_INVALID_ARG, dev)
               else (WINK_OK, Some (s\<lparr> sv_config := (sv_config s)\<lparr> sc_pwm_channel := pwm_channel,
                      sc_min_pulse_us := min_pulse_us, sc_max_pulse_us := max_pulse_us,
                      sc_max_angle_ddeg := max_angle_ddeg \<rparr> \<rparr>))
     | _ \<Rightarrow> (WINK_ERR_INVALID_ARG, dev))"

definition release_pwm_claim_logged :: "'w pwm_pal \<Rightarrow> u8 \<Rightarrow> string option \<Rightarrow> 'w \<Rightarrow> 'w" where
  "release_pwm_claim_logged pal channel owner w =
    (if unat channel \<ge> PAL_PWM_CHANNELS then w
     else snd (pp_release pal PAL_RESOURCE_PWM_CHANNEL (ucast channel) owner w))"

definition dal_rc_servo_deinit ::
  "'w pwm_pal \<Rightarrow> dal_rc_servo_t option \<Rightarrow> 'w \<Rightarrow> wink_status_t \<times> dal_rc_servo_t option \<times> 'w" where
  "dal_rc_servo_deinit pal dev w =
    (case dev of None \<Rightarrow> (WINK_ERR_INVALID_ARG, dev, w)
     | Some d \<Rightarrow>
       if \<not> sv_initialized d then (WINK_OK, dev, w)
       else let channel = sc_pwm_channel (sv_config d);
                w = snd (dal_rc_servo_safe_off pal dev w);
                w = snd (pp_deinit pal channel w);
                (st, pin) = pp_channel_pin pal channel w;
                w = (if st = WINK_OK \<and> pin \<ge> 0 then pp_reset_pin pal pin w else w)
            in (WINK_OK, Some servo_zero, release_pwm_claim_logged pal channel (sc_owner (sv_config d)) w))"

section \<open>The arithmetic\<close>

text \<open>No intermediate value overflows, and rounding to basis points halves the pulse width.\<close>

lemma servo_duty_value:
  assumes "sc_min_pulse_us c < sc_max_pulse_us c" "a \<le> m" "m \<noteq> 0"
  defines "lo \<equiv> unat (sc_min_pulse_us c)" and "hi \<equiv> unat (sc_max_pulse_us c)"
  shows "unat (servo_duty c m a) = (lo + unat a * (hi - lo) div unat m + 1) div 2"
    "lo + unat a * (hi - lo) div unat m \<le> hi"
proof -
  let ?p = "lo + unat a * (hi - lo) div unat m"
  have lt: "lo < hi" using assms(1) by (simp add: word_less_nat_alt lo_def hi_def)
  have am: "unat a \<le> unat m" "0 < unat m" using assms(2,3) by (simp_all add: word_le_nat_alt unat_gt_0)
  have "unat x < 2 ^ LENGTH(16)" for x :: u16 by (rule unsigned_less)
  then have bound: "unat x < 65536" for x :: u16 by simp
  then have small: "hi < 65536" "unat a < 65536" by (simp_all add: hi_def)
  have u16: "unat (ucast x :: u32) = unat x" for x :: u16
  proof -
    have "unat x < 2 ^ LENGTH(32)" using bound [of x] by simp
    then show ?thesis by (simp only: unsigned_ucast_eq take_bit_nat_eq_self)
  qed
  have prod: "unat a * (hi - lo) \<le> unat m * (hi - lo)" using am(1) by simp
  then have "unat a * (hi - lo) div unat m \<le> hi - lo"
    using am(2) by (metis div_le_mono nonzero_mult_div_cancel_left less_numeral_extra(3))
  then show le: "?p \<le> hi" using lt by simp
  have prod_small: "unat a * (hi - lo) < 4294967296"
  proof -
    have "unat a * (hi - lo) \<le> 65535 * 65535" using small by (intro mult_le_mono) auto
    then show ?thesis by simp
  qed
  let ?r = "ucast (sc_max_pulse_us c) - ucast (sc_min_pulse_us c) :: u32"
  have r: "unat ?r = hi - lo"
    using lt by (subst unat_sub) (simp_all add: word_le_nat_alt u16 lo_def hi_def)
  let ?q = "ucast (sc_min_pulse_us c) + (ucast a * ?r) div ucast m :: u32"
  have "unat (ucast a * ?r) = unat a * (hi - lo)"
    using prod_small by (simp add: unat_word_ariths r u16)
  then have "unat ((ucast a * ?r) div ucast m) = unat a * (hi - lo) div unat m" by (simp add: unat_div u16)
  then have q: "unat ?q = ?p" using le small by (simp add: unat_word_ariths u16 lo_def)
  have "unat (x * 10000 + 10000) = unat x * 10000 + 10000" if "unat x < 65536" for x :: u32
    using that by (simp add: unat_word_ariths)
  from this [of ?q] have "unat (?q * 10000 + SERVO_PERIOD_US div 2) = ?p * 10000 + 10000"
    using le small unfolding q by (simp add: SERVO_PERIOD_US_def)
  then have "unat ((?q * 10000 + SERVO_PERIOD_US div 2) div SERVO_PERIOD_US) = (?p * 10000 + 10000) div 20000"
    by (simp add: unat_div SERVO_PERIOD_US_def)
  also have "\<dots> = (?p + 1) div 2" by simp
  finally have d: "unat ((?q * 10000 + SERVO_PERIOD_US div 2) div SERVO_PERIOD_US) = (?p + 1) div 2" .
  then have "unat ((?q * 10000 + SERVO_PERIOD_US div 2) div SERVO_PERIOD_US) < 65536" using le small by simp
  then show "unat (servo_duty c m a) = (?p + 1) div 2"
    unfolding servo_duty_def Let_def using d by (simp add: unsigned_ucast_eq take_bit_nat_eq_self)
qed

section \<open>The contract of a port\<close>

locale pwm_port =
  fixes pal :: "'w pwm_pal"
    and ready :: "'w \<Rightarrow> u8 \<Rightarrow> bool"
    and duties :: "'w \<Rightarrow> (u8 \<times> u16) list"
  assumes set_duty: "ready w ch \<Longrightarrow> bp \<le> 10000 \<Longrightarrow>
      \<exists>w'. pp_set_duty_bp pal ch bp w = (WINK_OK, w') \<and> ready w' = ready w \<and> duties w' = (ch, bp) # duties w"
    and set_duty_refused: "\<not> ready w ch \<or> bp > 10000 \<Longrightarrow> \<exists>st. pp_set_duty_bp pal ch bp w = (st, w) \<and> st \<noteq> WINK_OK"
begin

lemma set_angle_result:
  fixes angle :: u16
  assumes "sv_initialized d" "ready w (sc_pwm_channel (sv_config d))"
  defines "c \<equiv> sv_config d" and "m \<equiv> servo_effective_max_angle_ddeg (Some (sv_config d))"
  defines "a \<equiv> min angle m"
  shows "\<exists>st w'. dal_rc_servo_set_angle pal angle (Some d) w
      = (st, Some (if servo_duty c m a \<le> 10000 then d\<lparr> sv_current_angle_ddeg := a \<rparr> else d), w')
    \<and> (servo_duty c m a \<le> 10000 \<longrightarrow> st = WINK_OK \<and> duties w' = (sc_pwm_channel c, servo_duty c m a) # duties w)
    \<and> (\<not> servo_duty c m a \<le> 10000 \<longrightarrow> st \<noteq> WINK_OK \<and> w' = w)"
proof -
  have "(if angle > m then m else angle) = a" by (auto simp: a_def min_def not_less)
  moreover consider "servo_duty c m a \<le> 10000" | "servo_duty c m a > 10000" by fastforce
  ultimately show ?thesis
    using set_duty [OF assms(2), of "servo_duty c m a"] set_duty_refused [of w "sc_pwm_channel c" "servo_duty c m a"] assms(1)
    by cases (auto simp: dal_rc_servo_set_angle_def Let_def c_def m_def not_le)
qed

end

section \<open>The host simulation as a port\<close>

record servo_board =
  sb_board :: host_board
  sb_pwm :: host_pwm

definition on_pwm :: "(host_pwm \<Rightarrow> wink_status_t \<times> host_pwm) \<Rightarrow> servo_board \<Rightarrow> wink_status_t \<times> servo_board" where
  "on_pwm f b = (let (st, h) = f (sb_pwm b) in (st, b\<lparr> sb_pwm := h \<rparr>))"

definition on_board :: "(host_board \<Rightarrow> wink_status_t \<times> host_board) \<Rightarrow> servo_board \<Rightarrow> wink_status_t \<times> servo_board" where
  "on_board f b = (let (st, h) = f (sb_board b) in (st, b\<lparr> sb_board := h \<rparr>))"

definition host_servo_pal :: "servo_board pwm_pal" where
  "host_servo_pal = \<lparr>
     pp_claim = (\<lambda>ty rid ow. on_board (on_claims (pal_resource_claim ty rid ow))),
     pp_release = (\<lambda>ty rid ow. on_board (on_claims (pal_resource_release ty rid ow))),
     pp_init_ex = (\<lambda>ch cfg. on_pwm (pal_pwm_init_ex ch cfg)),
     pp_set_duty_bp = (\<lambda>ch bp. on_pwm (pal_pwm_set_duty_bp ch bp)),
     pp_deinit = (\<lambda>ch. on_pwm (pal_pwm_deinit ch)),
     pp_channel_pin = (\<lambda>ch b. let (st, p) = pal_pwm_channel_pin ch (Some (-1)) (sb_pwm b) in (st, the p)),
     pp_reset_pin = (\<lambda>p b. b\<lparr> sb_board := (sb_board b)\<lparr> hb_gpio := pal_gpio_reset_pin p (hb_gpio (sb_board b)) \<rparr> \<rparr>) \<rparr>"

definition host_pwm_ready :: "servo_board \<Rightarrow> u8 \<Rightarrow> bool" where
  "host_pwm_ready b ch = pal_pwm_router_channel_ready ch (hp_router (sb_pwm b))"

interpretation host_pwm_port: pwm_port host_servo_pal host_pwm_ready "\<lambda>b. hp_recorded (sb_pwm b)"
proof (unfold_locales, goal_cases)
  case (1 w ch bp)
  then have "unat ch < PAL_PWM_CHANNELS" by (simp add: host_pwm_ready_def pal_pwm_router_channel_ready_def)
  with 1 show ?case
    by (simp add: host_servo_pal_def on_pwm_def pal_pwm_set_duty_bp_def host_pwm_ready_def fun_eq_iff not_le [symmetric])
next
  case (2 w ch bp)
  then show ?case by (auto simp: host_servo_pal_def on_pwm_def pal_pwm_set_duty_bp_def host_pwm_ready_def)
qed

text \<open>C29: with an ordered pulse range every angle, saturated at the stroke, is turned into exactly
  half its interpolated pulse width in basis points, rounded up, without overflow; the duty grows
  with the angle and is refused, changing nothing, only above the whole period.\<close>
theorem servo_angle_to_duty:
  fixes angle :: u16
  assumes "sv_initialized d" "host_pwm_ready b (sc_pwm_channel (sv_config d))"
    and "sc_min_pulse_us (sv_config d) < sc_max_pulse_us (sv_config d)"
  defines "m \<equiv> servo_effective_max_angle_ddeg (Some (sv_config d))"
    and "lo \<equiv> unat (sc_min_pulse_us (sv_config d))" and "hi \<equiv> unat (sc_max_pulse_us (sv_config d))"
  defines "bp \<equiv> (lo + unat (min angle m) * (hi - lo) div unat m + 1) div 2"
  shows "(lo + 1) div 2 \<le> bp \<and> bp \<le> (hi + 1) div 2
    \<and> (\<exists>st b'. dal_rc_servo_set_angle host_servo_pal angle (Some d) b
          = (st, Some (if bp \<le> 10000 then d\<lparr> sv_current_angle_ddeg := min angle m \<rparr> else d), b')
        \<and> (bp \<le> 10000 \<longrightarrow> st = WINK_OK
             \<and> hp_recorded (sb_pwm b') = (sc_pwm_channel (sv_config d), of_nat bp) # hp_recorded (sb_pwm b))
        \<and> (\<not> bp \<le> 10000 \<longrightarrow> st \<noteq> WINK_OK \<and> b' = b))"
proof -
  have m: "m \<noteq> 0"
    by (simp add: m_def servo_effective_max_angle_ddeg_def SERVO_DEFAULT_MAX_ANGLE_DDEG_def)
  have "min angle m \<le> m" by simp
  note v = servo_duty_value [OF assms(3) this m, folded lo_def hi_def]
  then have u: "unat (servo_duty (sv_config d) m (min angle m)) = bp" by (simp add: bp_def)
  then have e: "servo_duty (sv_config d) m (min angle m) = of_nat bp" unfolding u [symmetric] by simp
  have le: "servo_duty (sv_config d) m (min angle m) \<le> 10000 \<longleftrightarrow> bp \<le> 10000" by (simp add: word_le_nat_alt u)
  have "(lo + 1) div 2 \<le> bp" "bp \<le> (hi + 1) div 2" using v(2) by (auto simp: bp_def intro!: div_le_mono)
  with host_pwm_port.set_angle_result [OF assms(1,2), of angle, folded m_def] show ?thesis
    unfolding le unfolding e by simp
qed

definition demo_servo :: dal_rc_servo_t where
  "demo_servo = \<lparr> sv_config = \<lparr> sc_owner = Some ''arm'', sc_min_pulse_us = 500, sc_max_pulse_us = 2500,
       sc_max_angle_ddeg = 0, sc_pwm_channel = 2, sc_resolution_bits = 0, sc_clock_requirement = 0 \<rparr>,
     sv_current_angle_ddeg = 0, sv_initialized = True \<rparr>"

definition demo_servo_board :: servo_board where
  "demo_servo_board = \<lparr> sb_board = demo_board, sb_pwm = \<lparr> hp_router =
       \<lparr> pr_slots = [\<lparr> ts_profile = profile_zero, ts_ref_count = 1 \<rparr>], pr_channel_init = replicate 8 True,
         pr_channel_profile = replicate 8 profile_zero, pr_channel_timer = replicate 8 0 \<rparr>,
       hp_pins = replicate 8 (-1), hp_recorded = [] \<rparr> \<rparr>"

lemma servo_witness:
  "\<exists>b'. dal_rc_servo_set_angle host_servo_pal 900 (Some demo_servo) demo_servo_board
      = (WINK_OK, Some (demo_servo\<lparr> sv_current_angle_ddeg := 900 \<rparr>), b')
    \<and> hp_recorded (sb_pwm b') = [(2, 750)]"
proof -
  have d: "sv_initialized demo_servo" "host_pwm_ready demo_servo_board (sc_pwm_channel (sv_config demo_servo))"
    "sc_min_pulse_us (sv_config demo_servo) < sc_max_pulse_us (sv_config demo_servo)"
    by (simp_all add: demo_servo_def demo_servo_board_def host_pwm_ready_def pal_pwm_router_channel_ready_def
        PAL_PWM_CHANNELS_def)
  from servo_angle_to_duty [OF d, of 900] show ?thesis
    by (auto simp: demo_servo_def demo_servo_board_def servo_effective_max_angle_ddeg_def
        SERVO_DEFAULT_MAX_ANGLE_DDEG_def min_def)
qed

text \<open>A minimum above the default maximum, with no maximum given, is accepted and inverts the
  range: the difference of the pulse widths wraps and the duty of every angle is refused.\<close>

lemma servo_inverted_range:
  "servo_duty (sv_config demo_servo\<lparr> sc_min_pulse_us := 2600 \<rparr>) 1800 900 = 55043"
  "servo_duty (sv_config demo_servo\<lparr> sc_min_pulse_us := 2600 \<rparr>) 1800 1 = 55068"
  by (code_simp, code_simp)

text \<open>The override takes exactly the parameters that were encoded.\<close>

lemma servo_override_roundtrip:
  assumes "\<not> sv_initialized s" "unat ch < PAL_PWM_CHANNELS" "0 < lo" "lo < hi"
  shows "dal_rc_servo_apply_override (Some s) (Some (ch # le_bytes 2 lo @ le_bytes 2 hi @ le_bytes 2 stroke)) 7
    = (WINK_OK, Some (s\<lparr> sv_config := (sv_config s)\<lparr> sc_pwm_channel := ch, sc_min_pulse_us := lo,
        sc_max_pulse_us := hi, sc_max_angle_ddeg := stroke \<rparr> \<rparr>))"
proof -
  have rt: "of_le_bytes (le_bytes 2 x) = x" for x :: u16
    by (simp only: of_le_bytes_le_bytes) (simp add: take_bit_word_eq_self)
  show ?thesis using assms
    by (simp add: dal_rc_servo_apply_override_def Let_def rt not_le drop_Cons' del: le_bytes.simps)
qed

end
