(* ===== verification/Dal_Encoder.thy ===== *)
theory Dal_Encoder
  imports Gpio_Pal
begin

text \<open>
  The rotary encoder driver \<^verbatim>\<open>dal/src/sensor/dal_encoder.c\<close>, against the pins of \<^theory_text>\<open>Gpio_Pal\<close>, and
  its interrupt handler run by the controller of \<^theory_text>\<open>Host_Irq\<close> while a shaft turns. The variant and
  the pull are integers, as the configuration may hold a value that names none; a pin of \<open>-1\<close> is
  unused. The count wraps at 32 bits (in C its overflow is undefined).
\<close>

section \<open>Data\<close>

record dal_encoder_config_t =
  nc_owner :: "string option"
  nc_pin_a :: int
  nc_pin_b :: int
  nc_pull :: int
  nc_variant :: int
  nc_invert :: bool

record dal_encoder_t =
  en_config :: dal_encoder_config_t
  en_count :: i32
  en_initialized :: bool
  en_isr_registered :: bool

definition DAL_ENCODER_VARIANT_X1_RISING :: int where "DAL_ENCODER_VARIANT_X1_RISING = 0"
definition DAL_ENCODER_PULL_UP :: int where "DAL_ENCODER_PULL_UP = 0"
definition DAL_ENCODER_PULL_DOWN :: int where "DAL_ENCODER_PULL_DOWN = 1"
definition DAL_ENCODER_PULL_NONE :: int where "DAL_ENCODER_PULL_NONE = 2"

definition encoder_zero :: dal_encoder_t where
  "encoder_zero = \<lparr> en_config = \<lparr> nc_owner = None, nc_pin_a = 0, nc_pin_b = 0, nc_pull = 0, nc_variant = 0,
       nc_invert = False \<rparr>, en_count = 0, en_initialized = False, en_isr_registered = False \<rparr>"

definition encoder_map_pull :: "int \<Rightarrow> pal_gpio_mode_t option \<Rightarrow> wink_status_t \<times> pal_gpio_mode_t option" where
  "encoder_map_pull pull out_mode =
    (if out_mode = None then (WINK_ERR_INVALID_ARG, None)
     else if pull = DAL_ENCODER_PULL_UP then (WINK_OK, Some PAL_GPIO_INPUT_PULLUP)
     else if pull = DAL_ENCODER_PULL_DOWN then (WINK_OK, Some PAL_GPIO_INPUT_PULLDOWN)
     else if pull = DAL_ENCODER_PULL_NONE then (WINK_OK, Some PAL_GPIO_INPUT)
     else (WINK_ERR_INVALID_ARG, out_mode))"

definition release_gpio_claim_logged :: "'w gpio_pal \<Rightarrow> int \<Rightarrow> string option \<Rightarrow> 'w \<Rightarrow> 'w" where
  "release_gpio_claim_logged pal pin owner w = (if pin < 0 then w else snd (release_pin pal pin owner w))"

section \<open>Counting\<close>

definition dal_encoder_x1_delta :: "bool \<Rightarrow> bool \<Rightarrow> i32" where
  "dal_encoder_x1_delta val_b invert = (let delta = (if val_b then 1 else -1) in if invert then - delta else delta)"

text \<open>The interrupt handler, given the read call of the port.\<close>

definition dal_encoder_gpio_isr ::
  "(int \<Rightarrow> 'w \<Rightarrow> wink_status_t \<times> bool \<times> 'w) \<Rightarrow> dal_encoder_t \<Rightarrow> 'w \<Rightarrow> dal_encoder_t \<times> 'w" where
  "dal_encoder_gpio_isr rd dev w =
    (if nc_pin_b (en_config dev) \<ge> 0
     then let (st, val_b, w) = rd (nc_pin_b (en_config dev)) w
          in (if st = WINK_OK
              then dev\<lparr> en_count := en_count dev + dal_encoder_x1_delta val_b (nc_invert (en_config dev)) \<rparr>
              else dev, w)
     else (dev\<lparr> en_count := en_count dev + 1 \<rparr>, w))"

definition dal_encoder_get_count :: "dal_encoder_t option \<Rightarrow> i32 option \<Rightarrow> wink_status_t \<times> i32 option" where
  "dal_encoder_get_count dev out_count =
    (case (dev, out_count) of (Some d, Some _) \<Rightarrow>
       if \<not> en_initialized d then (WINK_ERR_NOT_INITIALIZED, out_count) else (WINK_OK, Some (en_count d))
     | _ \<Rightarrow> (WINK_ERR_INVALID_ARG, out_count))"

text \<open>The reset runs inside a critical section, which may run the handler of this encoder when it
  ends: the state is that of the whole program, the pointer a pair of accessors, and the section a
  parameter.\<close>

type_synonym 's encoder_ptr = "('s \<Rightarrow> dal_encoder_t) \<times> ((dal_encoder_t \<Rightarrow> dal_encoder_t) \<Rightarrow> 's \<Rightarrow> 's)"

definition dal_encoder_reset ::
  "(('s \<Rightarrow> 's) \<Rightarrow> 's \<Rightarrow> 's option) \<Rightarrow> 's encoder_ptr option \<Rightarrow> 's \<Rightarrow> (wink_status_t \<times> 's) option" where
  "dal_encoder_reset critical dev s =
    (case dev of None \<Rightarrow> Some (WINK_ERR_INVALID_ARG, s)
     | Some (get, upd) \<Rightarrow>
       if \<not> en_initialized (get s) then Some (WINK_ERR_NOT_INITIALIZED, s)
       else map_option (Pair WINK_OK) (critical (upd (\<lambda>d. d\<lparr> en_count := 0 \<rparr>)) s))"

section \<open>Initialisation\<close>

text \<open>\<open>isr\<close> is the handler and \<open>self\<close> the address of the device it is registered with.\<close>

definition dal_encoder_init ::
  "'w gpio_pal \<Rightarrow> nat \<Rightarrow> nat \<Rightarrow> dal_encoder_t option \<Rightarrow> dal_encoder_config_t option \<Rightarrow> 'w
    \<Rightarrow> wink_status_t \<times> dal_encoder_t option \<times> 'w" where
  "dal_encoder_init pal isr self dev cfg w =
    (case (dev, cfg) of (Some d, Some c) \<Rightarrow>
       let pin_a = nc_pin_a c; pin_b = nc_pin_b c; owner = nc_owner c;
           err_release = (\<lambda>st dev w. (st, dev,
             release_gpio_claim_logged pal pin_a owner (release_gpio_claim_logged pal pin_b owner w)))
       in if owner = None then (WINK_ERR_INVALID_ARG, dev, w)
       else if pin_a < 0 then (WINK_ERR_INVALID_ARG, dev, w)
       else if nc_variant c \<noteq> DAL_ENCODER_VARIANT_X1_RISING then (WINK_ERR_UNSUPPORTED, dev, w)
       else if en_initialized d then (WINK_ERR_ALREADY_INITIALIZED, dev, w)
       else let (map_st, pull_mode) = encoder_map_pull (nc_pull c) (Some PAL_GPIO_INPUT)
            in if wink_status_is_error map_st then (map_st, dev, w)
       else let (rs, w) = claim_pin pal pin_a owner w
            in if wink_status_is_error rs then (rs, dev, w)
       else let (rs, w) = (if pin_b \<ge> 0 then claim_pin pal pin_b owner w else (WINK_OK, w))
            in if wink_status_is_error rs then (rs, dev, release_gpio_claim_logged pal pin_a owner w)
       else let (st, w) = gp_init pal pin_a (the pull_mode) w
            in if wink_status_is_error st then err_release st dev w
       else let (st, w) = (if pin_b \<ge> 0 then gp_init pal pin_b (the pull_mode) w else (WINK_OK, w))
            in if wink_status_is_error st then err_release st dev (gp_reset pal pin_a w)
       else let d = d\<lparr> en_config := c, en_count := 0, en_isr_registered := False \<rparr>;
                (st, w) = gp_irq_on pal pin_a isr self w
            in if wink_status_is_error st
               then let w = gp_reset pal pin_a w;
                        w = (if pin_b \<ge> 0 then gp_reset pal pin_b w else w)
                    in err_release st (Some encoder_zero) w
               else (WINK_OK, Some (d\<lparr> en_isr_registered := True, en_initialized := True \<rparr>), w)
     | _ \<Rightarrow> (WINK_ERR_INVALID_ARG, dev, w))"

definition dal_encoder_deinit ::
  "'w gpio_pal \<Rightarrow> dal_encoder_t option \<Rightarrow> 'w \<Rightarrow> wink_status_t \<times> dal_encoder_t option \<times> 'w" where
  "dal_encoder_deinit pal dev w =
    (case dev of None \<Rightarrow> (WINK_ERR_INVALID_ARG, dev, w)
     | Some d \<Rightarrow>
       if \<not> en_initialized d then (WINK_OK, dev, w)
       else let pin_a = nc_pin_a (en_config d); pin_b = nc_pin_b (en_config d); owner = nc_owner (en_config d);
                w = (if en_isr_registered d then snd (gp_irq_off pal pin_a w) else w);
                w = gp_reset pal pin_a w;
                w = (if pin_b \<ge> 0 then gp_reset pal pin_b w else w);
                w = release_gpio_claim_logged pal pin_a owner w;
                w = release_gpio_claim_logged pal pin_b owner w
            in (WINK_OK, Some encoder_zero, w))"

section \<open>What the board holds\<close>

context irq_board
begin

lemma reset_two:
  assumes "ok w" "good a" "good b" "held w a = Some ow" "held w b = Some ow" "ow \<noteq> reserved"
  defines "w' \<equiv> gp_reset pal b (gp_reset pal a w)"
  shows "ok w'" "held w' = held w" "level w' = (level w)(a := None, b := None)" "handler w' = handler w"
proof -
  note ra = reset_held_simps [OF assms(1,2,4,6)]
  have "held (gp_reset pal a w) b = Some ow" using ra(2) assms(5) by simp
  note rb = reset_held_simps [OF ra(1) assms(3) this assms(6)]
  show "ok w'" "held w' = held w" "level w' = (level w)(a := None, b := None)" "handler w' = handler w"
    using ra rb by (simp_all add: w'_def keeps_handler)
qed

lemma release_two:
  assumes "ok w" "good a" "good b" "a \<noteq> b" "held w a = Some ow" "held w b = Some ow"
  defines "w' \<equiv> snd (release_pin pal b (Some ow) (snd (release_pin pal a (Some ow) w)))"
  shows "ok w'" "held w' = (held w)(a := None, b := None)" "level w' = level w" "handler w' = handler w"
proof -
  note la = release_own_simps [OF assms(1,2,5)]
  have "held (snd (release_pin pal a (Some ow) w)) b = Some ow" using la(3) assms(4,6) by simp
  note lb = release_own_simps [OF la(2) assms(3) this]
  show "ok w'" "held w' = (held w)(a := None, b := None)" "level w' = level w" "handler w' = handler w"
    using la lb by (simp_all add: w'_def keeps_handler)
qed

lemma give_back:
  assumes "ok w" "good a" "good b" "a \<noteq> b" "held w a = Some ow" "held w b = Some ow" "ow \<noteq> reserved"
  defines "w' \<equiv> snd (release_pin pal a (Some ow) (snd (release_pin pal b (Some ow) (gp_reset pal b (gp_reset pal a w)))))"
  shows "ok w'" "held w' = (held w)(a := None, b := None)" "level w' = (level w)(a := None, b := None)"
    "handler w' = handler w"
proof -
  note r = reset_two [OF assms(1-3,5-7)]
  note l = release_two [OF r(1) assms(3,2) assms(4) [symmetric] trans [OF fun_cong [OF r(2)] assms(6)]
      trans [OF fun_cong [OF r(2)] assms(5)]]
  show "ok w'" "held w' = (held w)(a := None, b := None)" "level w' = (level w)(a := None, b := None)"
    "handler w' = handler w"
    using r l assms(4) by (simp_all add: w'_def fun_upd_twist)
qed

text \<open>The initialisation either takes the pins and the interrupt and starts at zero, or gives
  everything back.\<close>

lemma encoder_init_result:
  assumes w: "ok w" and c: "nc_owner c = Some ow" "ow \<noteq> reserved" "good (nc_pin_a c)"
      "nc_pin_b c < 0 \<or> good (nc_pin_b c)" "nc_pin_b c \<noteq> nc_pin_a c"
    and free: "\<forall>p \<in> {nc_pin_a c, nc_pin_b c}. held w p \<noteq> Some ow \<and> level w p = None"
    and d: "\<not> en_initialized d"
  obtains w' where
    "dal_encoder_init pal isr self (Some d) (Some c) w
       = (WINK_OK, Some \<lparr> en_config = c, en_count = 0, en_initialized = True, en_isr_registered = True \<rparr>, w')"
    "ok w'" "level w' = level w" "handler w' = (handler w)(nc_pin_a c := Some (isr, self))"
    "held w (nc_pin_a c) = None" "nc_pin_b c \<ge> 0 \<longrightarrow> held w (nc_pin_b c) = None"
    "held w' = (if nc_pin_b c \<ge> 0 then (held w)(nc_pin_a c := Some ow, nc_pin_b c := Some ow)
                else (held w)(nc_pin_a c := Some ow))"
  | st dev w' where
    "dal_encoder_init pal isr self (Some d) (Some c) w = (st, dev, w')" "st \<noteq> WINK_OK"
    "dev = Some d \<or> dev = Some encoder_zero" "ok w'" "held w' = held w" "level w' = level w"
    "handler w' = handler w"
proof -
  let ?a = "nc_pin_a c" and ?b = "nc_pin_b c"
  note init = dal_encoder_init_def Let_def
  have a0: "0 \<le> ?a" "(?a < 0) = False" using good_pin [OF c(3)] by simp_all
  have free_a: "held w ?a \<noteq> Some ow" "level w ?a = None" and free_b: "held w ?b \<noteq> Some ow" "level w ?b = None"
    using free by auto
  show thesis
  proof (cases "nc_variant c = DAL_ENCODER_VARIANT_X1_RISING \<and> fst (encoder_map_pull (nc_pull c) (Some PAL_GPIO_INPUT)) = WINK_OK")
    case False
    then have "\<exists>st. dal_encoder_init pal isr self (Some d) (Some c) w = (st, Some d, w) \<and> st \<noteq> WINK_OK"
      using c(1) a0 d by (cases "encoder_map_pull (nc_pull c) (Some PAL_GPIO_INPUT)") (auto simp: init)
    then show thesis using that(2) w by blast
  next
    case True
    then obtain m where m: "encoder_map_pull (nc_pull c) (Some PAL_GPIO_INPUT) = (WINK_OK, m)"
      and v: "nc_variant c = DAL_ENCODER_VARIANT_X1_RISING"
      by (cases "encoder_map_pull (nc_pull c) (Some PAL_GPIO_INPUT)") auto
    note start = init c(1) a0 d m v
    from w c(3) free_a(1) show thesis
    proof (cases rule: claim_cases)
      case (2 st)
      then have "dal_encoder_init pal isr self (Some d) (Some c) w = (st, Some d, w)" by (simp add: start)
      with 2 w show thesis using that(2) by blast
    next
      case (1 w1)
      note h1 = keeps_handler(1) [of PAL_RESOURCE_GPIO_PIN "word_of_int ?a" "Some ow" w, unfolded 1(1), simplified]
      show thesis
      proof (cases "?b \<ge> 0")
        case False
        then have b: "(?b < 0) = True" "(0 \<le> ?b) = False" by simp_all
        have i: "held w1 ?a \<noteq> None" using 1(4) by simp
        obtain w2 where w2: "gp_init pal ?a (the m) w1 = (WINK_OK, w2)" "ok w2" "held w2 = held w1" "level w2 = level w1"
          using init_held [OF 1(2) c(3) i] by blast
        note h2 = keeps_handler(3) [of ?a "the m" w1, unfolded w2(1), simplified]
        from irq_on [OF w2(2) c(3), of isr self] show thesis
        proof (elim disjE exE conjE)
          fix w3 assume w3: "gp_irq_on pal ?a isr self w2 = (WINK_OK, w3)" "ok w3" "held w3 = held w2"
            "level w3 = level w2" "handler w3 = (handler w2)(?a := Some (isr, self))"
          show thesis
            by (rule that(1) [of w3]) (use w2 w3 1 h1 h2 b in \<open>simp_all add: start\<close>)
        next
          fix st assume st: "gp_irq_on pal ?a isr self w2 = (st, w2)" "st \<noteq> WINK_OK"
          have o: "held w2 ?a = Some ow" using w2(3) 1(4) by simp
          note r = reset_held_simps [OF w2(2) c(3) o c(2)]
          have "held (gp_reset pal ?a w2) ?a = Some ow" using r(2) o by simp
          note rl = release_own_simps [OF r(1) c(3) this]
          note kh = keeps_handler(2,4)
          show thesis
            by (rule that(2) [of st "Some encoder_zero" "snd (release_pin pal ?a (Some ow) (gp_reset pal ?a w2))"])
              (use w2 st 1 h1 h2 b r rl kh free_a in \<open>simp_all add: start release_gpio_claim_logged_def fun_upd_idem\<close>)
        qed
      next
        case True
        then have b: "(?b < 0) = False" "(0 \<le> ?b) = True" by simp_all
        have gb: "good ?b" using True c(4) by simp
        have "held w1 ?b \<noteq> Some ow" using 1(4) c(5) free_b(1) by simp
        from 1(2) gb this show thesis
        proof (cases rule: claim_cases)
          case (2 st)
          have o: "held w1 ?a = Some ow" using 1(4) by simp
          note rl = release_own_simps [OF 1(2) c(3) o]
          show thesis
            by (rule that(2) [of st "Some d" "snd (release_pin pal ?a (Some ow) w1)"])
              (use 1 2 h1 b rl keeps_handler(2) in \<open>simp_all add: start release_gpio_claim_logged_def fun_upd_idem\<close>)
        next
          case B: (1 w2)
          note h2 = keeps_handler(1) [of PAL_RESOURCE_GPIO_PIN "word_of_int ?b" "Some ow" w1, unfolded B(1), simplified]
          have i: "held w2 ?a \<noteq> None" using 1(4) B(4) c(5) by simp
          obtain w3 where w3: "gp_init pal ?a (the m) w2 = (WINK_OK, w3)" "ok w3" "held w3 = held w2" "level w3 = level w2"
            using init_held [OF B(2) c(3) i] by blast
          note h3 = keeps_handler(3) [of ?a "the m" w2, unfolded w3(1), simplified]
          have j: "held w3 ?b \<noteq> None" using w3(3) B(4) by simp
          obtain w4 where w4: "gp_init pal ?b (the m) w3 = (WINK_OK, w4)" "ok w4" "held w4 = held w3" "level w4 = level w3"
            using init_held [OF w3(2) gb j] by blast
          note h4 = keeps_handler(3) [of ?b "the m" w3, unfolded w4(1), simplified]
          from irq_on [OF w4(2) c(3), of isr self] show thesis
          proof (elim disjE exE conjE)
            fix w5 assume w5: "gp_irq_on pal ?a isr self w4 = (WINK_OK, w5)" "ok w5" "held w5 = held w4"
              "level w5 = level w4" "handler w5 = (handler w4)(?a := Some (isr, self))"
            show thesis
              by (rule that(1) [of w5]) (use w3 w4 w5 1 B h1 h2 h3 h4 b c(5) in \<open>simp_all add: start\<close>)
          next
            fix st assume st: "gp_irq_on pal ?a isr self w4 = (st, w4)" "st \<noteq> WINK_OK"
            obtain w' where w': "ok w'" "held w' = held w" "level w' = level w" "handler w' = handler w"
              "w' = snd (release_pin pal ?a (Some ow) (snd (release_pin pal ?b (Some ow)
                 (gp_reset pal ?b (gp_reset pal ?a w4)))))"
              using give_back [of w4 ?a ?b ow] w4 w3 1 B h1 h2 h3 h4 b c gb free_a free_b
              by (simp add: fun_upd_idem fun_upd_twist)
            show thesis
              by (rule that(2) [of st "Some encoder_zero" w'])
                (use w' st 1 B w3 w4 b in \<open>simp_all add: start release_gpio_claim_logged_def\<close>)
          qed
        qed
      qed
    qed
  qed
qed

text \<open>The deinitialisation of a running encoder releases the pins and the interrupt.\<close>

lemma encoder_deinit_result:
  assumes w: "ok w" and c: "nc_owner (en_config d) = Some ow" "ow \<noteq> reserved" "good (nc_pin_a (en_config d))"
      "nc_pin_b (en_config d) < 0 \<or> good (nc_pin_b (en_config d))" "nc_pin_b (en_config d) \<noteq> nc_pin_a (en_config d)"
    and d: "en_initialized d" "en_isr_registered d"
    and h: "held w (nc_pin_a (en_config d)) = Some ow"
      "nc_pin_b (en_config d) \<ge> 0 \<longrightarrow> held w (nc_pin_b (en_config d)) = Some ow"
  obtains w' where "dal_encoder_deinit pal (Some d) w = (WINK_OK, Some encoder_zero, w')" "ok w'"
    "handler w' = (handler w)(nc_pin_a (en_config d) := None)"
    "held w' = (if nc_pin_b (en_config d) \<ge> 0
       then (held w)(nc_pin_a (en_config d) := None, nc_pin_b (en_config d) := None)
       else (held w)(nc_pin_a (en_config d) := None))"
proof -
  let ?a = "nc_pin_a (en_config d)" and ?b = "nc_pin_b (en_config d)"
  let ?w = "snd (gp_irq_off pal ?a w)"
  note off = irq_off_simps [OF w c(3)]
  have a0: "(?a < 0) = False" using good_pin [OF c(3)] by simp
  have ha: "held ?w ?a = Some ow" using off(2) h(1) by simp
  note start = dal_encoder_deinit_def Let_def release_gpio_claim_logged_def d a0 c(1)
  show thesis
  proof (cases "?b \<ge> 0")
    case False
    note r = reset_held_simps [OF off(1) c(3) ha c(2)]
    note l = release_own_simps [OF r(1) c(3) trans [OF fun_cong [OF r(2)] ha]]
    show thesis
      by (rule that [of "snd (release_pin pal ?a (Some ow) (gp_reset pal ?a ?w))"])
        (use False off r l in \<open>simp_all add: start keeps_handler\<close>)
  next
    case True
    then have gb: "good ?b" and hb: "held ?w ?b = Some ow" using c(4) off(2) h(2) by simp_all
    note r = reset_two [OF off(1) c(3) gb ha hb c(2)]
    note l = release_two [OF r(1) c(3) gb c(5) [symmetric] trans [OF fun_cong [OF r(2)] ha] trans [OF fun_cong [OF r(2)] hb]]
    show thesis
      by (rule that [of "snd (release_pin pal ?b (Some ow) (snd (release_pin pal ?a (Some ow)
          (gp_reset pal ?b (gp_reset pal ?a ?w)))))"])
        (use True off r l in \<open>simp_all add: start\<close>)
  qed
qed

end

section \<open>A turning shaft\<close>

text \<open>The two outputs of the encoder as square waves of the position, a quarter period apart.\<close>

definition phase_a :: "int \<Rightarrow> bool" where "phase_a p \<longleftrightarrow> p mod 4 = 2 \<or> p mod 4 = 3"
definition phase_b :: "int \<Rightarrow> bool" where "phase_b p \<longleftrightarrow> p mod 4 = 1 \<or> p mod 4 = 2"

definition moved :: "bool \<Rightarrow> int \<Rightarrow> int" where
  "moved forward p = (if forward then p + 1 else p - 1)"

primrec shaft :: "bool list \<Rightarrow> int \<Rightarrow> int" where
  "shaft [] p = p"
| "shaft (d # ds) p = shaft ds (moved d p)"

text \<open>What counting at the rising edges of A makes of a movement: the position rises past one or
  falls below a multiple of four.\<close>

definition quad_delta :: "bool \<Rightarrow> int \<Rightarrow> int" where
  "quad_delta forward p = (if forward \<and> p mod 4 = 1 then 1 else if \<not> forward \<and> p mod 4 = 0 then -1 else 0)"

primrec quad_count :: "bool list \<Rightarrow> int \<Rightarrow> int" where
  "quad_count [] p = 0"
| "quad_count (d # ds) p = quad_delta d p + quad_count ds (moved d p)"

primrec forward_runs :: "bool \<Rightarrow> bool list \<Rightarrow> int" where
  "forward_runs running [] = 0"
| "forward_runs running (d # ds) = (if d \<and> \<not> running then 1 else 0) + forward_runs d ds"

lemma rising_edge:
  "\<not> phase_a p \<and> phase_a (moved d p) \<longleftrightarrow> quad_delta d p \<noteq> 0"
  "quad_delta d p \<noteq> 0 \<Longrightarrow> quad_delta d p = (if phase_b (moved d p) then 1 else -1)"
proof -
  have "p mod 4 = 0 \<or> p mod 4 = 1 \<or> p mod 4 = 2 \<or> p mod 4 = 3" by presburger
  moreover have "(p + 1) mod 4 = (p mod 4 + 1) mod 4" "(p - 1) mod 4 = (p mod 4 - 1) mod 4"
    by (simp_all add: mod_add_left_eq mod_diff_left_eq)
  ultimately show "\<not> phase_a p \<and> phase_a (moved d p) \<longleftrightarrow> quad_delta d p \<noteq> 0"
    "quad_delta d p \<noteq> 0 \<Longrightarrow> quad_delta d p = (if phase_b (moved d p) then 1 else -1)"
    by (auto simp: phase_a_def phase_b_def moved_def quad_delta_def)
qed

text \<open>Within a run in one direction the count keeps step with the position; each run forward may
  gain or lose one against it.\<close>

lemma quad_delta_div:
  "quad_delta d p = moved d p div 4 - p div 4
    + (if d then (if phase_a (moved d p) then 1 else 0) - (if phase_a p then 1 else 0) else 0)"
proof -
  obtain q r where p: "p = 4 * q + r" and r: "r = 0 \<or> r = 1 \<or> r = 2 \<or> r = 3"
  proof
    show "p = 4 * (p div 4) + p mod 4" by simp
    show "p mod 4 = 0 \<or> p mod 4 = 1 \<or> p mod 4 = 2 \<or> p mod 4 = 3" by presburger
  qed
  have m: "(4 * q + k) div 4 = q" "(4 * q + k) mod 4 = k" if "0 \<le> k" "k < 4" for k q :: int
    using that by (simp_all add: div_add1_eq)
  have step: "4 * q + 3 + 1 = 4 * (q + 1) + 0" "4 * q + 2 + 1 = 4 * q + 3" "4 * q + 1 + 1 = 4 * q + 2"
    "4 * q + 0 + 1 = 4 * q + 1" "4 * q + 0 - 1 = 4 * (q - 1) + 3" "4 * q + 1 - 1 = 4 * q + 0"
    "4 * q + 2 - 1 = 4 * q + 1" "4 * q + 3 - 1 = 4 * q + 2" by simp_all
  show ?thesis
    using r unfolding p quad_delta_def moved_def phase_a_def
    by (elim disjE; cases d; simp only: if_True if_False step m simp_thms; simp)
qed

lemma quad_count_tracks:
  "let e = quad_count ds p - (shaft ds p div 4 - p div 4) + (if running \<and> phase_a p then 1 else 0)
   in - forward_runs running ds \<le> e \<and> e \<le> forward_runs running ds + (if running then 1 else 0)"
proof (induction ds arbitrary: p running)
  case Nil
  then show ?case by simp
next
  case (Cons d ds)
  show ?case using Cons.IH [of "moved d p" d] quad_delta_div [of d p] by (auto simp: Let_def)
qed

section \<open>The encoder on the host simulation\<close>

text \<open>The program around the interrupt controller is the port and the device; the handler
  registered for pin A is that of the encoder. A movement of the shaft sets the level of pin B and
  raises the interrupt of pin A when A rises.\<close>

definition host_read ::
  "(nat \<Rightarrow> host_gpio \<Rightarrow> host_gpio) \<Rightarrow> int \<Rightarrow> host_gpio \<Rightarrow> wink_status_t \<times> bool \<times> host_gpio" where
  "host_read hook pin g = (let (st, v, g) = pal_gpio_read hook pin (Some False) g in (st, the v, g))"

definition encoder_act ::
  "(nat \<Rightarrow> host_gpio \<Rightarrow> host_gpio) \<Rightarrow> nat \<Rightarrow> nat option \<Rightarrow> host_gpio \<times> dal_encoder_t \<Rightarrow> host_gpio \<times> dal_encoder_t"
where
  "encoder_act hook f a s = (let (g, d) = s; (d, g) = dal_encoder_gpio_isr (host_read hook) d g in (g, d))"

type_synonym encoder_host = "(host_gpio \<times> dal_encoder_t) host_irq_scheme"

abbreviation encoder_of :: "encoder_host \<Rightarrow> dal_encoder_t" where
  "encoder_of h \<equiv> snd (host_irq.more h)"

definition turn_step ::
  "(nat \<Rightarrow> host_gpio \<Rightarrow> host_gpio) \<Rightarrow> bool \<Rightarrow> int \<Rightarrow> encoder_host \<Rightarrow> encoder_host option" where
  "turn_step hook forward p h =
    (let c = en_config (encoder_of h); p' = moved forward p;
         h = host_irq.more_update (apfst (sim_set_gpio_ideal (word_of_int (nc_pin_b c)) (phase_b p'))) h
     in if \<not> phase_a p \<and> phase_a p'
        then pal_host_trigger_gpio_interrupt (act_isr (encoder_act hook)) (nc_pin_a c) h else Some h)"

primrec turn ::
  "(nat \<Rightarrow> host_gpio \<Rightarrow> host_gpio) \<Rightarrow> bool list \<Rightarrow> int \<Rightarrow> encoder_host \<Rightarrow> encoder_host option" where
  "turn hook [] p h = Some h"
| "turn hook (d # ds) p h = Option.bind (turn_step hook d p h) (turn hook ds (moved d p))"

text \<open>A claimed input whose level is injected without bounce.\<close>

definition wired :: "int \<Rightarrow> host_gpio \<Rightarrow> bool" where
  "wired pin g \<longleftrightarrow> \<not> pin_bad pin \<and> hg_bounce_us g = 0
    \<and> pal_resource_is_claimed PAL_RESOURCE_GPIO_PIN (word_of_int pin) (hg_claims g)
    \<and> ideal_slot (word_of_int pin) g \<noteq> None"

definition sensed :: "int \<Rightarrow> host_gpio \<Rightarrow> bool" where
  "sensed pin g = gi_ideal (hg_ideal g ! the (ideal_slot (word_of_int pin) g))"

lemma ideal_slot_upd:
  assumes "ideal_slot pin g = Some i" "gi_set x = gi_set (hg_ideal g ! i)" "gi_pin x = gi_pin (hg_ideal g ! i)"
  shows "ideal_slot pin (g\<lparr> hg_ideal := (hg_ideal g)[i := x] \<rparr>) = Some i"
  using assms by (auto simp: ideal_slot_def first_slot_Some nth_list_update)

lemma wired_set:
  assumes "wired pin g"
  shows "wired pin (sim_set_gpio_ideal (word_of_int pin) v g)" "sensed pin (sim_set_gpio_ideal (word_of_int pin) v g) = v"
proof -
  obtain i where i: "ideal_slot (word_of_int pin) g = Some i" using assms by (auto simp: wired_def)
  then have "i < length (hg_ideal g)" by (simp add: ideal_slot_def first_slot_Some)
  with i ideal_slot_upd [OF i, of "(hg_ideal g ! i)\<lparr> gi_ideal := v \<rparr>"] assms
  show "wired pin (sim_set_gpio_ideal (word_of_int pin) v g)" "sensed pin (sim_set_gpio_ideal (word_of_int pin) v g) = v"
    by (simp_all add: wired_def sensed_def sim_set_gpio_ideal_def)
qed

lemma wired_read:
  assumes "wired pin g"
  shows "\<exists>g'. host_read hook pin g = (WINK_OK, sensed pin g, g') \<and> wired pin g'"
proof -
  obtain i where i: "ideal_slot (word_of_int pin) g = Some i" using assms by (auto simp: wired_def)
  then have "i < length (hg_ideal g)" by (simp add: ideal_slot_def first_slot_Some)
  let ?ctx = "(gi_ctx (hg_ideal g ! i))\<lparr> db_stable_level := sensed pin g, db_in_bounce := False \<rparr>"
  have "wink_phys_debounce_step (Some (gi_ctx (hg_ideal g ! i))) (sensed pin g) t 0 = (sensed pin g, Some ?ctx)" for t
    by (simp add: wink_phys_debounce_step_def)
  with i ideal_slot_upd [OF i, of "(hg_ideal g ! i)\<lparr> gi_ctx := ?ctx \<rparr>"] assms show ?thesis
    by (simp add: wired_def sensed_def host_read_def pal_gpio_read_def host_gpio_read_debounced_def Let_def)
qed

text \<open>The state in which the encoder is at work.\<close>

definition encoder_live :: "nat \<Rightarrow> encoder_host \<Rightarrow> bool" where
  "encoder_live isr h \<longleftrightarrow> (let c = en_config (encoder_of h) in
     nc_pin_b c \<ge> 0 \<and> wired (nc_pin_b c) (fst (host_irq.more h)) \<and> \<not> pin_bad (nc_pin_a c)
     \<and> hi_gpio_isr h ! nat (nc_pin_a c) = Some isr \<and> hi_depth h = 0)"

definition counts_of :: "dal_encoder_t \<Rightarrow> int \<Rightarrow> dal_encoder_t" where
  "counts_of d n = d\<lparr> en_count := en_count d + of_int (if nc_invert (en_config d) then - n else n) \<rparr>"

lemma counts_of_simps [simp]:
  "counts_of d 0 = d" "en_config (counts_of d n) = en_config d" "counts_of (counts_of d m) n = counts_of d (m + n)"
  by (simp_all add: counts_of_def)

lemma encoder_act_wired:
  assumes "wired (nc_pin_b (en_config d)) g" "nc_pin_b (en_config d) \<ge> 0"
  shows "\<exists>g'. encoder_act hook f a (g, d) = (g', counts_of d (if sensed (nc_pin_b (en_config d)) g then 1 else -1))
    \<and> wired (nc_pin_b (en_config d)) g'"
  using wired_read [OF assms(1), of hook] assms(2)
  by (auto simp: encoder_act_def dal_encoder_gpio_isr_def counts_of_def dal_encoder_x1_delta_def Let_def)

lemma turn_step_counts:
  assumes "encoder_live isr h"
  shows "\<exists>h'. turn_step hook d p h = Some h' \<and> encoder_live isr h'
    \<and> encoder_of h' = counts_of (encoder_of h) (quad_delta d p)"
proof -
  let ?c = "en_config (encoder_of h)" and ?g = "fst (host_irq.more h)"
  let ?b = "nc_pin_b ?c" and ?a = "nc_pin_a ?c"
  let ?g1 = "sim_set_gpio_ideal (word_of_int ?b) (phase_b (moved d p)) ?g"
  let ?h1 = "host_irq.more_update (apfst (sim_set_gpio_ideal (word_of_int ?b) (phase_b (moved d p)))) h"
  have live: "?b \<ge> 0" "wired ?b ?g" "\<not> pin_bad ?a" "hi_gpio_isr h ! nat ?a = Some isr" "hi_depth h = 0"
    using assms by (auto simp: encoder_live_def Let_def)
  note w = wired_set [OF live(2), of "phase_b (moved d p)"]
  have m1: "host_irq.more ?h1 = (?g1, encoder_of h)" by (simp add: apfst_def map_prod_def split_def)
  show ?thesis
  proof (cases "\<not> phase_a p \<and> phase_a (moved d p)")
    case False
    then have "quad_delta d p = 0" using rising_edge(1) [of p d] by simp
    moreover have "turn_step hook d p h = Some ?h1" using False by (auto simp: turn_step_def Let_def)
    ultimately show ?thesis using live w m1 by (simp add: encoder_live_def Let_def)
  next
    case True
    then have q: "quad_delta d p = (if phase_b (moved d p) then 1 else -1)" using rising_edge(1) [of p d] rising_edge(2) [of d p] by simp
    from encoder_act_wired [of "encoder_of h" ?g1 hook isr "hi_gpio_arg h ! nat ?a"] w live(1) obtain g2 where
      g2: "encoder_act hook isr (hi_gpio_arg h ! nat ?a) (?g1, encoder_of h) = (g2, counts_of (encoder_of h) (quad_delta d p))"
        "wired ?b g2" by (auto simp: q)
    have n: "unat (word_of_int ?a :: u32) = nat ?a" using pin_word [OF live(3)] by simp
    from run_gpio_act [of "encoder_act hook" "word_of_int ?a" ?h1] obtain h2 where
      h2: "run_gpio_isr (act_isr (encoder_act hook)) (nat ?a) ?h1 = Some h2"
        "host_irq.more h2 = (g2, counts_of (encoder_of h) (quad_delta d p))" "same_handlers ?h1 h2"
      unfolding n gpio_act_def m1 using live(4) g2(1) by auto
    have "turn_step hook d p h = Some h2"
      using True h2(1) live by (simp add: turn_step_def Let_def pal_host_trigger_gpio_interrupt_def)
    with h2 g2(2) live show ?thesis by (simp add: encoder_live_def Let_def same_handlers_def)
  qed
qed

lemma turn_counts:
  assumes "encoder_live isr h"
  shows "\<exists>h'. turn hook ds p h = Some h' \<and> encoder_live isr h'
    \<and> encoder_of h' = counts_of (encoder_of h) (quad_count ds p)"
  using assms
proof (induction ds arbitrary: p h)
  case Nil
  then show ?case by simp
next
  case (Cons d ds)
  from turn_step_counts [OF Cons.prems, of hook d p] obtain h1 where
    h1: "turn_step hook d p h = Some h1" "encoder_live isr h1"
      "encoder_of h1 = counts_of (encoder_of h) (quad_delta d p)" by blast
  from Cons.IH [OF h1(2), of "moved d p"] h1 show ?case by auto
qed

section \<open>Properties\<close>

text \<open>C30: while a shaft turns, in any sequence of single steps forward and back, the interrupts of
  the encoder change its count by the position divided by four, rounded down, up to one for every
  run forward: the direction and its inversion are right, and only a reversal can miscount.\<close>
theorem encoder_counts_quadrature:
  assumes "encoder_live isr h"
  shows "\<exists>h' n. turn hook ds p h = Some h'
    \<and> en_count (encoder_of h') = en_count (encoder_of h)
        + of_int (if nc_invert (en_config (encoder_of h)) then - n else n)
    \<and> \<bar>n - (shaft ds p div 4 - p div 4)\<bar> \<le> forward_runs False ds"
proof -
  from turn_counts [OF assms, of hook ds p] obtain h' where
    "turn hook ds p h = Some h'" "encoder_of h' = counts_of (encoder_of h) (quad_count ds p)" by blast
  moreover have "\<bar>quad_count ds p - (shaft ds p div 4 - p div 4)\<bar> \<le> forward_runs False ds"
    using quad_count_tracks [of ds p False] by (auto simp: Let_def)
  ultimately show ?thesis by (intro exI [of _ h'] exI [of _ "quad_count ds p"]) (simp add: counts_of_def)
qed

definition demo_encoder_host :: encoder_host where
  "demo_encoder_host = host_irq.extend ((hb_irq demo_board)\<lparr> hi_gpio_isr := (replicate 50 None)[6 := Some 1] \<rparr>)
     (sim_set_gpio_ideal 7 False (demo_gpio\<lparr> hg_claims :=
        snd (pal_resource_claim PAL_RESOURCE_GPIO_PIN 7 (Some ''knob'') demo_table) \<rparr>),
      \<lparr> en_config = \<lparr> nc_owner = Some ''knob'', nc_pin_a = 6, nc_pin_b = 7, nc_pull = 0, nc_variant = 0,
          nc_invert = False \<rparr>, en_count = 10, en_initialized = True, en_isr_registered = True \<rparr>)"

lemma demo_encoder_live: "encoder_live 1 demo_encoder_host"
proof -
  have "pal_resource_is_claimed PAL_RESOURCE_GPIO_PIN 7
      (snd (pal_resource_claim PAL_RESOURCE_GPIO_PIN 7 (Some ''knob'') demo_table))"
    by code_simp
  then show ?thesis
    by (simp add: encoder_live_def demo_encoder_host_def host_irq.defs demo_board_def wired_def pin_bad_def
        HOST_MAX_GPIO_PIN_def demo_gpio_def sim_set_gpio_ideal_def ideal_slot_def Let_def numeral_eq_Suc)
qed

text \<open>Eight steps back are two counts down.\<close>

lemma encoder_counts_witness:
  "\<exists>h'. turn (\<lambda>_ g. g) (replicate 8 False) 0 demo_encoder_host = Some h' \<and> en_count (encoder_of h') = 8"
proof -
  have v: "forward_runs False (replicate 8 False) = 0" "shaft (replicate 8 False) 0 div 4 - 0 div 4 = -2"
    "en_count (encoder_of demo_encoder_host) = 10" "nc_invert (en_config (encoder_of demo_encoder_host)) = False"
    by (simp_all add: numeral_eq_Suc moved_def demo_encoder_host_def host_irq.defs)
  obtain h' n where "turn (\<lambda>_ g. g) (replicate 8 False) 0 demo_encoder_host = Some h'"
      "en_count (encoder_of h') = 10 + of_int n" "\<bar>n - (-2)\<bar> \<le> 0"
    using encoder_counts_quadrature [OF demo_encoder_live, of "\<lambda>_ g. g" "replicate 8 False" 0]
    unfolding v by auto
  moreover from this(3) have "n = -2" by simp
  ultimately show ?thesis by simp
qed

text \<open>A shaft that trembles at a rising edge of A counts up without end: the bound is attained.\<close>

lemma trembling_counts_up:
  "quad_count (concat (replicate k [True, False])) 1 = int k"
  "shaft (concat (replicate k [True, False])) 1 = 1"
  "forward_runs False (concat (replicate k [True, False])) = int k"
  by (induction k) (simp_all add: quad_delta_def moved_def)

text \<open>On the host board the initialisation of an encoder is all or nothing: a failure, whichever
  step it happens at, leaves every claim, handler and level as it was and the device without its
  handler; a success registers the handler with a count of zero, and a later deinitialisation,
  whatever was counted, gives back every claim and handler.\<close>
lemma encoder_init_all_or_nothing:
  fixes c :: dal_encoder_config_t
  defines "a \<equiv> nc_pin_a c" and "b \<equiv> nc_pin_b c"
  assumes "host_ok w" "nc_owner c = Some ow" "ow \<noteq> ''pal_gpio''" "\<not> pin_bad a" "b < 0 \<or> \<not> pin_bad b" "b \<noteq> a"
    and "\<forall>p \<in> {a, b}. host_held w p \<noteq> Some ow \<and> host_level w p = None" "host_handler w a = None"
    and "\<not> en_initialized d"
  shows "\<exists>st dev w1. dal_encoder_init (host_pal hook) isr self (Some d) (Some c) w = (st, dev, w1)
    \<and> (st \<noteq> WINK_OK \<longrightarrow> dev \<in> {Some d, Some encoder_zero} \<and> host_held w1 = host_held w
         \<and> host_level w1 = host_level w \<and> host_handler w1 = host_handler w)
    \<and> (st = WINK_OK \<longrightarrow> (\<exists>d1. dev = Some d1 \<and> en_count d1 = 0 \<and> host_handler w1 a = Some (isr, self)
         \<and> (\<forall>n. \<exists>w2. dal_encoder_deinit (host_pal hook) (Some (d1\<lparr> en_count := n \<rparr>)) w1
              = (WINK_OK, Some encoder_zero, w2) \<and> host_held w2 = host_held w \<and> host_handler w2 = host_handler w)))"
proof (rule host_irqs.encoder_init_result [of w c ow d hook isr self], goal_cases)
  case (9 w1)
  let ?d = "\<lparr> en_config = c, en_count = 0, en_initialized = True, en_isr_registered = True \<rparr>"
  have "\<exists>w2. dal_encoder_deinit (host_pal hook) (Some (?d\<lparr> en_count := n \<rparr>)) w1 = (WINK_OK, Some encoder_zero, w2)
      \<and> host_held w2 = host_held w \<and> host_handler w2 = host_handler w" for n
    by (rule host_irqs.encoder_deinit_result [of w1 "?d\<lparr> en_count := n \<rparr>" ow hook])
      (use 9 assms in \<open>auto simp: fun_upd_idem fun_upd_twist\<close>)
  with 9 show ?thesis by (simp add: a_def)
next
  case (10 st dev w1)
  then show ?thesis by auto
qed (use assms in simp_all)

lemma encoder_init_witness:
  "\<exists>st dev w1. dal_encoder_init (host_pal (\<lambda>_ g. g)) 1 2 (Some encoder_zero)
       (Some (en_config (encoder_of demo_encoder_host))) demo_board = (st, dev, w1)
    \<and> (st \<noteq> WINK_OK \<longrightarrow> host_held w1 = host_held demo_board)
    \<and> (st = WINK_OK \<longrightarrow> host_handler w1 6 = Some (1, 2))"
proof -
  let ?c = "en_config (encoder_of demo_encoder_host)"
  have c: "nc_owner ?c = Some ''knob''" "nc_pin_a ?c = 6" "nc_pin_b ?c = 7"
    by (simp_all add: demo_encoder_host_def host_irq.defs)
  have h: "host_handler demo_board 6 = None" "host_level demo_board 6 = None" "host_level demo_board 7 = None"
    by (simp_all add: host_handler_def host_level_def pin_level_def demo_board_def demo_gpio_def pin_bad_def
        HOST_MAX_GPIO_PIN_def)
  show ?thesis
    using encoder_init_all_or_nothing [OF demo_board_ok c(1), of encoder_zero "\<lambda>_ g. g" 1 2] c h
    by (auto simp: demo_board_free pin_bad_def HOST_MAX_GPIO_PIN_def encoder_zero_def)
qed

end
