(* ===== verification/Bal_Led_Blink.thy ===== *)
theory Bal_Led_Blink
  imports Runtime_Tasks Dal_Outputs
begin

text \<open>
  The LED blinker \<^verbatim>\<open>bal/src/output/wink_led_blink.c\<close>: a pool of four slots, each toggling an LED from
  a periodic callback of \<^theory_text>\<open>Runtime_Tasks\<close>, down through the timers of \<^theory_text>\<open>Soft_Timer\<close> and the LED driver
  of \<^theory_text>\<open>Dal_Outputs\<close> to the pin. LEDs are numbered; \<open>NULL\<close> is \<open>None\<close>.
\<close>

section \<open>Data\<close>

record blink_ctx_t =
  bk_led :: "nat option"
  bk_period_h :: int

record wink_bal_opts_t =
  bo_stack_bytes :: u32
  bo_priority :: int
  bo_core_id :: int
  bo_flags :: u32

text \<open>The program below the timers: the periodic entries, the slots, the LEDs and the board.\<close>

record 'w blink_env =
  be_entries :: "periodic_entry_t list"
  be_slots :: "blink_ctx_t list"
  be_leds :: "dal_led_t list"
  be_board :: 'w

type_synonym 'w blink_world = "'w blink_env timer_world"

definition WINK_LED_BLINK_MAX :: nat where "WINK_LED_BLINK_MAX = 4"
definition WINK_PERIODIC_INVALID :: int where "WINK_PERIODIC_INVALID = 0"
definition WINK_BAL_CORE_0 :: int where "WINK_BAL_CORE_0 = 1"
definition WINK_BAL_CORE_1 :: int where "WINK_BAL_CORE_1 = 2"

definition WINK_BAL_OPTS_DEFAULT :: wink_bal_opts_t where
  "WINK_BAL_OPTS_DEFAULT = \<lparr> bo_stack_bytes = 0, bo_priority = -1, bo_core_id = -1, bo_flags = 0 \<rparr>"

text \<open>The callback as the periodic entries know it.\<close>

definition BLINK_TICK :: nat where "BLINK_TICK = 7"

definition map_core :: "int \<Rightarrow> int" where
  "map_core c = (if c = WINK_BAL_CORE_0 then PAL_OS_CORE_0
     else if c = WINK_BAL_CORE_1 then PAL_OS_CORE_1 else PAL_OS_CORE_ANY)"

definition find_free_slot :: "blink_ctx_t list \<Rightarrow> nat option" where
  "find_free_slot s_slots = first_slot (\<lambda>b. bk_led b = None) s_slots"

definition find_slot_by_handle :: "int \<Rightarrow> blink_ctx_t list \<Rightarrow> nat option" where
  "find_slot_by_handle h s_slots = first_slot (\<lambda>b. bk_led b \<noteq> None \<and> bk_period_h b = h) s_slots"

section \<open>Operations\<close>

text \<open>A driver call on one of the LEDs.\<close>

definition on_led ::
  "(dal_led_t option \<Rightarrow> 'w \<Rightarrow> wink_status_t \<times> dal_led_t option \<times> 'w) \<Rightarrow> nat \<Rightarrow> 'w blink_env \<Rightarrow> wink_status_t \<times> 'w blink_env"
where
  "on_led f l e =
    (let (st, d, w) = f (Some (be_leds e ! l)) (be_board e)
     in (st, e\<lparr> be_leds := (be_leds e)[l := the d], be_board := w \<rparr>))"

definition blink_tick :: "'w gpio_pal \<Rightarrow> nat \<Rightarrow> 'w blink_env \<Rightarrow> 'w blink_env" where
  "blink_tick pal ctx e =
    (let led = the (bk_led (be_slots e ! ctx));
         next_on = (\<not> ld_is_on (be_leds e ! led))
     in snd (on_led (dal_led_set pal next_on) led e))"

definition periodic_of :: "'w blink_world \<Rightarrow> periodic_state" where
  "periodic_of w = \<lparr> ps_entries = be_entries (w_env w), ps_timers = w_timers w \<rparr>"

definition put_periodic :: "periodic_state \<Rightarrow> 'w blink_world \<Rightarrow> 'w blink_world" where
  "put_periodic st w = w\<lparr> w_timers := ps_timers st, w_env := (w_env w)\<lparr> be_entries := ps_entries st \<rparr> \<rparr>"

definition set_slot :: "nat \<Rightarrow> blink_ctx_t \<Rightarrow> 'w blink_world \<Rightarrow> 'w blink_world" where
  "set_slot s b w = w\<lparr> w_env := (w_env w)\<lparr> be_slots := (be_slots (w_env w))[s := b] \<rparr> \<rparr>"

definition wink_led_blink_start_ex ::
  "osal_env \<Rightarrow> 'w gpio_pal \<Rightarrow> nat option \<Rightarrow> u32 \<Rightarrow> wink_bal_opts_t option \<Rightarrow> 'w blink_world
    \<Rightarrow> int \<times> 'w blink_world \<times> osal_call list" where
  "wink_led_blink_start_ex env pal led period_ms opts w =
    (case led of None \<Rightarrow> (status_code WINK_ERR_INVALID_ARG, w, [])
     | Some l \<Rightarrow>
       if period_ms = 0 then (status_code WINK_ERR_INVALID_ARG, w, [])
       else if first_slot (\<lambda>b. bk_led b = Some l) (be_slots (w_env w)) \<noteq> None
       then (status_code WINK_ERR_INVALID_STATE, w, [])
       else case find_free_slot (be_slots (w_env w)) of
         None \<Rightarrow> (status_code WINK_ERR_RESOURCE_EXHAUSTED, w, [])
       | Some free_idx \<Rightarrow>
         let effective = (case opts of None \<Rightarrow> WINK_BAL_OPTS_DEFAULT | Some q \<Rightarrow> q);
             flags = (if bo_flags effective = 0 then WINK_PERIODIC_LIGHT else bo_flags effective);
             half = period_ms div 2;
             half = (if half = 0 then 1 else half);
             stack = (if bo_stack_bytes effective \<noteq> 0 then bo_stack_bytes effective else 0);
             prio = (if bo_priority effective \<ge> 0 then bo_priority effective else WINK_PERIODIC_DEFAULT_PRIORITY);
             core = map_core (bo_core_id effective);
             w = set_slot free_idx \<lparr> bk_led = Some l, bk_period_h = WINK_PERIODIC_INVALID \<rparr> w;
             free = \<lparr> bk_led = None, bk_period_h = WINK_PERIODIC_INVALID \<rparr>;
             (st, e) = on_led (dal_led_on pal) l (w_env w);
             w = w\<lparr> w_env := e \<rparr>
         in if wink_status_is_error st then (status_code st, set_slot free_idx free w, [])
            else let (r, ps, log) = wink_periodic_start_ex env (Some ''blink'') stack half (Some BLINK_TICK)
                       free_idx flags prio core (periodic_of w);
                     w = put_periodic ps w;
                     h = (case r of Inl rc \<Rightarrow> status_code rc | Inr n \<Rightarrow> int n)
                 in if h < 0
                    then (h, set_slot free_idx free (w\<lparr> w_env := snd (on_led (dal_led_off pal) l (w_env w)) \<rparr>), log)
                    else (h, set_slot free_idx \<lparr> bk_led = Some l, bk_period_h = h \<rparr> w, log))"

definition wink_led_blink_start ::
  "osal_env \<Rightarrow> 'w gpio_pal \<Rightarrow> nat option \<Rightarrow> u32 \<Rightarrow> 'w blink_world \<Rightarrow> int \<times> 'w blink_world \<times> osal_call list" where
  "wink_led_blink_start env pal led period_ms w = wink_led_blink_start_ex env pal led period_ms None w"

definition wink_led_blink_stop :: "int \<Rightarrow> 'w blink_world \<Rightarrow> 'w blink_world \<times> osal_call list" where
  "wink_led_blink_stop handle w =
    (if handle \<le> 0 then (w, [])
     else case find_slot_by_handle handle (be_slots (w_env w)) of
       None \<Rightarrow> (let (ps, log) = wink_periodic_stop handle (periodic_of w) in (put_periodic ps w, log))
     | Some idx \<Rightarrow>
         (let (ps, log) = wink_periodic_stop (bk_period_h (be_slots (w_env w) ! idx)) (periodic_of w)
          in (set_slot idx \<lparr> bk_led = None, bk_period_h = WINK_PERIODIC_INVALID \<rparr> (put_periodic ps w), log)))"

section \<open>The timers' view of the program\<close>

text \<open>What the timers call: the trampoline of the periodic entries, which runs the blinker or
  another function; anything else is another timer. \<open>other_fn\<close> and \<open>other_timer\<close> are what those do and
  \<open>us\<close> the time a call takes.\<close>

definition blink_calls ::
  "'w gpio_pal \<Rightarrow> (nat \<Rightarrow> nat \<Rightarrow> 'w blink_env \<Rightarrow> 'w blink_env) \<Rightarrow> (nat \<Rightarrow> nat \<Rightarrow> 'w blink_env \<Rightarrow> 'w blink_env)
    \<Rightarrow> (nat \<Rightarrow> nat \<Rightarrow> 'w blink_world \<Rightarrow> u64) \<Rightarrow> 'w blink_env timer_calls" where
  "blink_calls pal other_fn other_timer us g b w =
    (if g = PERIODIC_LIGHT_CB
     then if b < length (be_entries (w_env w))
          then let (st, e) = periodic_light_cb (\<lambda>f. if f = BLINK_TICK then blink_tick pal else other_fn f)
                     (periodic_of w) b (w_env w)
               in (st, us g b w, w\<lparr> w_env := e \<rparr>)
          else (WINK_OK, us g b w, w)
     else (WINK_OK, us g b w, w\<lparr> w_env := other_timer g b (w_env w) \<rparr>))"

section \<open>Invariant\<close>

abbreviation led_pin :: "dal_led_t \<Rightarrow> int" where
  "led_pin d \<equiv> sint (lc_pin (ld_config d))"

text \<open>The LEDs are initialised and hold their own pins.\<close>

definition leds_ready ::
  "('w \<Rightarrow> bool) \<Rightarrow> (int \<Rightarrow> bool) \<Rightarrow> ('w \<Rightarrow> int \<Rightarrow> string option) \<Rightarrow> 'w blink_env \<Rightarrow> bool" where
  "leds_ready ok good held e \<longleftrightarrow> ok (be_board e) \<and> distinct (map led_pin (be_leds e))
     \<and> (\<forall>d \<in> set (be_leds e). ld_initialized d \<and> good (led_pin d) \<and> held (be_board e) (led_pin d) \<noteq> None)"

text \<open>Each busy slot has an LED of its own and a live entry that runs the blinker on it, and
  every such entry has its slot.\<close>

definition runs_slot :: "'w blink_env \<Rightarrow> nat \<Rightarrow> nat \<Rightarrow> bool" where
  "runs_slot e j s \<longleftrightarrow> j < WINK_MAX_PERIODIC \<and> pe_kind (be_entries e ! j) \<noteq> PERIODIC_ENTRY_FREE
     \<and> pe_fn (be_entries e ! j) = Some BLINK_TICK \<and> pe_ctx (be_entries e ! j) = s
     \<and> bk_period_h (be_slots e ! s) = int j + 1"

definition pool_ok :: "'w blink_env \<Rightarrow> bool" where
  "pool_ok e \<longleftrightarrow> length (be_slots e) = WINK_LED_BLINK_MAX \<and> length (be_entries e) = WINK_MAX_PERIODIC
     \<and> (\<forall>s < WINK_LED_BLINK_MAX. \<forall>l. bk_led (be_slots e ! s) = Some l \<longrightarrow> l < length (be_leds e)
          \<and> (\<forall>s' < WINK_LED_BLINK_MAX. bk_led (be_slots e ! s') = Some l \<longrightarrow> s' = s) \<and> (\<exists>j. runs_slot e j s))
     \<and> (\<forall>j < WINK_MAX_PERIODIC. pe_fn (be_entries e ! j) = Some BLINK_TICK \<longrightarrow>
          (\<exists>s < WINK_LED_BLINK_MAX. bk_led (be_slots e ! s) \<noteq> None \<and> runs_slot e j s))"

text \<open>Entry \<open>j\<close> blinks LED \<open>l\<close> from slot \<open>s\<close>.\<close>

definition blinking :: "('w blink_env \<Rightarrow> bool) \<Rightarrow> nat \<Rightarrow> nat \<Rightarrow> nat \<Rightarrow> 'w blink_env \<Rightarrow> bool" where
  "blinking rdy j s l e \<longleftrightarrow> rdy e \<and> pool_ok e \<and> s < WINK_LED_BLINK_MAX \<and> bk_led (be_slots e ! s) = Some l
     \<and> runs_slot e j s"

text \<open>A function that leaves LED \<open>l\<close> and the tables of the pool alone.\<close>

definition leaves_led ::
  "('w blink_env \<Rightarrow> bool) \<Rightarrow> ('w \<Rightarrow> int \<Rightarrow> bool option) \<Rightarrow> nat \<Rightarrow> ('w blink_env \<Rightarrow> 'w blink_env) \<Rightarrow> bool" where
  "leaves_led rdy level l f \<longleftrightarrow> (\<forall>e. rdy e \<longrightarrow> rdy (f e) \<and> be_entries (f e) = be_entries e
     \<and> be_slots (f e) = be_slots e \<and> length (be_leds (f e)) = length (be_leds e) \<and> be_leds (f e) ! l = be_leds e ! l
     \<and> level (be_board (f e)) (led_pin (be_leds e ! l)) = level (be_board e) (led_pin (be_leds e ! l)))"

lemma pool_ok_cong:
  "be_entries e' = be_entries e \<Longrightarrow> be_slots e' = be_slots e \<Longrightarrow> length (be_leds e') = length (be_leds e)
    \<Longrightarrow> pool_ok e' = pool_ok e"
  by (simp add: pool_ok_def runs_slot_def)

lemma runs_slot_cong:
  "be_entries e' = be_entries e \<Longrightarrow> be_slots e' = be_slots e \<Longrightarrow> runs_slot e' = runs_slot e"
  by (simp add: runs_slot_def fun_eq_iff)

lemma pool_slot:
  assumes "pool_ok e" "s < WINK_LED_BLINK_MAX" "bk_led (be_slots e ! s) = Some l"
  shows "l < length (be_leds e)" "s' < WINK_LED_BLINK_MAX \<Longrightarrow> bk_led (be_slots e ! s') = Some l \<Longrightarrow> s' = s"
    "\<exists>j. runs_slot e j s"
  using assms unfolding pool_ok_def by blast+

lemma pool_entry:
  assumes "pool_ok e" "j < WINK_MAX_PERIODIC" "pe_fn (be_entries e ! j) = Some BLINK_TICK"
  obtains s where "s < WINK_LED_BLINK_MAX" "bk_led (be_slots e ! s) \<noteq> None" "runs_slot e j s"
  using assms unfolding pool_ok_def by blast

lemma pool_lengths:
  "pool_ok e \<Longrightarrow> length (be_slots e) = WINK_LED_BLINK_MAX" "pool_ok e \<Longrightarrow> length (be_entries e) = WINK_MAX_PERIODIC"
  by (simp_all add: pool_ok_def)

text \<open>Another entry of the pool has another slot and another LED.\<close>

lemma pool_other_entry:
  assumes "blinking rdy j s l e" "j' < WINK_MAX_PERIODIC" "j' \<noteq> j" "pe_fn (be_entries e ! j') = Some BLINK_TICK"
  obtains l' where "bk_led (be_slots e ! pe_ctx (be_entries e ! j')) = Some l'" "l' < length (be_leds e)" "l' \<noteq> l"
proof -
  have e: "pool_ok e" "s < WINK_LED_BLINK_MAX" "bk_led (be_slots e ! s) = Some l" "runs_slot e j s"
    using assms(1) by (simp_all add: blinking_def)
  from pool_entry [OF e(1) assms(2,4)] obtain s' where
    s': "s' < WINK_LED_BLINK_MAX" "bk_led (be_slots e ! s') \<noteq> None" "runs_slot e j' s'" .
  then obtain l' where l': "bk_led (be_slots e ! s') = Some l'" by auto
  have "s' \<noteq> s" using assms(3) s'(3) e(4) by (auto simp: runs_slot_def)
  then have "l' \<noteq> l" using pool_slot(2) [OF e(1-3) s'(1)] l' by blast
  with that [of l'] pool_slot(1) [OF e(1) s'(1) l'] l' s'(3) show thesis by (simp add: runs_slot_def)
qed

definition led_view :: "('w \<Rightarrow> int \<Rightarrow> bool option) \<Rightarrow> nat \<Rightarrow> 'w blink_env \<Rightarrow> dal_led_t \<times> bool option" where
  "led_view level l e = (be_leds e ! l, level (be_board e) (led_pin (be_leds e ! l)))"

definition led_flip :: "dal_led_t \<times> bool option \<Rightarrow> dal_led_t \<times> bool option" where
  "led_flip v = (let d = fst v in (d\<lparr> ld_is_on := \<not> ld_is_on d \<rparr>, Some ((\<not> ld_is_on d) = lc_active_high (ld_config d))))"

lemma led_flips:
  "(led_flip ^^ n) (d\<lparr> ld_is_on := True \<rparr>, Some (lc_active_high (ld_config d)))
    = (d\<lparr> ld_is_on := even n \<rparr>, Some (even n = lc_active_high (ld_config d)))"
  by (induction n) (simp_all add: led_flip_def)

section \<open>Adding and removing a slot\<close>

lemma pool_ok_add:
  assumes e: "pool_ok e" "s < WINK_LED_BLINK_MAX" "bk_led (be_slots e ! s) = None" "l < length (be_leds e)"
    "\<And>s'. s' < WINK_LED_BLINK_MAX \<Longrightarrow> bk_led (be_slots e ! s') \<noteq> Some l"
    and j: "j < WINK_MAX_PERIODIC" "be_entries e ! j = entry_zero"
    and x: "pe_kind x \<noteq> PERIODIC_ENTRY_FREE" "pe_fn x = Some BLINK_TICK" "pe_ctx x = s"
    and e': "be_entries e' = (be_entries e)[j := x]" "length (be_leds e') = length (be_leds e)"
      "be_slots e' = (be_slots e)[s := \<lparr> bk_led = Some l, bk_period_h = int j + 1 \<rparr>]"
  shows "pool_ok e'" "runs_slot e' j s"
proof -
  note len = pool_lengths [OF e(1)]
  show run: "runs_slot e' j s" using j x e' len e(2) by (simp add: runs_slot_def)
  have old: "runs_slot e' j' s'" if "runs_slot e j' s'" "s' \<noteq> s" for j' s'
  proof -
    have "j' \<noteq> j" using that(1) j(2) by (auto simp: runs_slot_def entry_zero_def)
    with that show ?thesis using e' len by (simp add: runs_slot_def)
  qed
  have slot: "be_slots e' ! s' = (if s' = s then \<lparr> bk_led = Some l, bk_period_h = int j + 1 \<rparr> else be_slots e ! s')"
    if "s' < WINK_LED_BLINK_MAX" for s' using that e'(3) len by (simp add: nth_list_update)
  show "pool_ok e'"
    unfolding pool_ok_def
  proof (intro conjI allI impI)
    show "length (be_slots e') = WINK_LED_BLINK_MAX" "length (be_entries e') = WINK_MAX_PERIODIC" using e' len by simp_all
  next
    fix s1 l1 assume s1: "s1 < WINK_LED_BLINK_MAX" "bk_led (be_slots e' ! s1) = Some l1"
    then have c: "s1 = s \<and> l1 = l \<or> s1 \<noteq> s \<and> bk_led (be_slots e ! s1) = Some l1" by (auto simp: slot split: if_splits)
    show "l1 < length (be_leds e')" using c e(4) pool_slot(1) [OF e(1) s1(1)] e'(2) by auto
    show "\<exists>j. runs_slot e' j s1" using c run old pool_slot(3) [OF e(1) s1(1)] by blast
    fix s2 assume s2: "s2 < WINK_LED_BLINK_MAX" "bk_led (be_slots e' ! s2) = Some l1"
    then have "s2 = s \<and> l1 = l \<or> s2 \<noteq> s \<and> bk_led (be_slots e ! s2) = Some l1" by (auto simp: slot split: if_splits)
    with c show "s2 = s1" using e(5) s1(1) s2(1) pool_slot(2) [OF e(1) s1(1) _ s2(1)] by blast
  next
    fix j1 assume j1: "j1 < WINK_MAX_PERIODIC" "pe_fn (be_entries e' ! j1) = Some BLINK_TICK"
    show "\<exists>s1 < WINK_LED_BLINK_MAX. bk_led (be_slots e' ! s1) \<noteq> None \<and> runs_slot e' j1 s1"
    proof (cases "j1 = j")
      case True
      then show ?thesis using run e(2) slot [OF e(2)] by (intro exI [of _ s]) simp
    next
      case False
      then have "pe_fn (be_entries e ! j1) = Some BLINK_TICK" using j1(2) e'(1) by simp
      from pool_entry [OF e(1) j1(1) this] obtain s1 where
        "s1 < WINK_LED_BLINK_MAX" "bk_led (be_slots e ! s1) \<noteq> None" "runs_slot e j1 s1" .
      then show ?thesis using old [of j1 s1] slot [of s1] e(3) by (intro exI [of _ s1]) auto
    qed
  qed
qed

text \<open>An entry is cleared together with the slot it runs, if it runs one.\<close>

lemma pool_ok_remove:
  assumes e: "pool_ok e" and j: "j < WINK_MAX_PERIODIC"
    and s: "\<And>s. s < WINK_LED_BLINK_MAX \<Longrightarrow> bk_led (be_slots e ! s) \<noteq> None \<Longrightarrow> runs_slot e j s \<Longrightarrow> bk_led (be_slots e' ! s) = None"
    and e': "be_entries e' = (be_entries e)[j := entry_zero]" "length (be_leds e') = length (be_leds e)"
      "length (be_slots e') = length (be_slots e)"
      "\<And>s. s < WINK_LED_BLINK_MAX \<Longrightarrow> be_slots e' ! s = be_slots e ! s \<or> bk_led (be_slots e' ! s) = None \<and> runs_slot e j s"
  shows "pool_ok e'"
  unfolding pool_ok_def
proof (intro conjI allI impI)
  note len = pool_lengths [OF e]
  show "length (be_slots e') = WINK_LED_BLINK_MAX" "length (be_entries e') = WINK_MAX_PERIODIC" using e' len by simp_all
  have old: "runs_slot e' j' s'" if "runs_slot e j' s'" "j' \<noteq> j" "be_slots e' ! s' = be_slots e ! s'" for j' s'
    using that e'(1) len by (simp add: runs_slot_def)
  fix s1 l1 assume s1: "s1 < WINK_LED_BLINK_MAX" "bk_led (be_slots e' ! s1) = Some l1"
  then have same: "be_slots e' ! s1 = be_slots e ! s1" and busy: "bk_led (be_slots e ! s1) = Some l1" using e'(4) [of s1] by auto
  show "l1 < length (be_leds e')" using pool_slot(1) [OF e s1(1) busy] e'(2) by simp
  from pool_slot(3) [OF e s1(1) busy] obtain j1 where j1: "runs_slot e j1 s1" by blast
  moreover have "j1 \<noteq> j" using j1 s [OF s1(1)] busy s1(2) by auto
  ultimately show "\<exists>j. runs_slot e' j s1" using old same by blast
  fix s2 assume s2: "s2 < WINK_LED_BLINK_MAX" "bk_led (be_slots e' ! s2) = Some l1"
  then have "bk_led (be_slots e ! s2) = Some l1" using e'(4) [of s2] by auto
  then show "s2 = s1" using pool_slot(2) [OF e s1(1) busy s2(1)] by simp
next
  note len = pool_lengths [OF e]
  fix j1 assume j1: "j1 < WINK_MAX_PERIODIC" "pe_fn (be_entries e' ! j1) = Some BLINK_TICK"
  have ne: "j1 \<noteq> j" using j1 e'(1) j len by (auto simp: entry_zero_def)
  then have "pe_fn (be_entries e ! j1) = Some BLINK_TICK" using j1(2) e'(1) by simp
  from pool_entry [OF e j1(1) this] obtain s1 where
    s1: "s1 < WINK_LED_BLINK_MAX" "bk_led (be_slots e ! s1) \<noteq> None" "runs_slot e j1 s1" .
  have "\<not> runs_slot e j s1" using s1(3) ne by (auto simp: runs_slot_def)
  then have "be_slots e' ! s1 = be_slots e ! s1" using e'(4) [OF s1(1)] by blast
  with s1 ne e'(1) show "\<exists>s1 < WINK_LED_BLINK_MAX. bk_led (be_slots e' ! s1) \<noteq> None \<and> runs_slot e' j1 s1"
    by (intro exI [of _ s1]) (simp add: runs_slot_def)
qed

lemma pool_ok_free:
  assumes e: "pool_ok e" "bk_led (be_slots e ! s) = None" "bk_led b = None"
    and e': "be_entries e' = be_entries e" "length (be_leds e') = length (be_leds e)" "be_slots e' = (be_slots e)[s := b]"
  shows "pool_ok e'"
proof -
  have same: "s1 \<noteq> s \<Longrightarrow> be_slots e' ! s1 = be_slots e ! s1" "s1 \<noteq> s \<Longrightarrow> runs_slot e' j s1 = runs_slot e j s1" for s1 j
    using e' by (simp_all add: runs_slot_def)
  have free: "s < WINK_LED_BLINK_MAX \<Longrightarrow> bk_led (be_slots e' ! s) = None"
    using e(3) e'(3) pool_lengths(1) [OF e(1)] by simp
  have busy: "bk_led (be_slots e' ! s1) = Some l \<longleftrightarrow> bk_led (be_slots e ! s1) = Some l" if "s1 < WINK_LED_BLINK_MAX" for s1 l
    using that same(1) [of s1] free e(2) by (cases "s1 = s") auto
  have run: "runs_slot e' j s1 = runs_slot e j s1" if "s1 < WINK_LED_BLINK_MAX" "bk_led (be_slots e ! s1) \<noteq> None" for j s1
  proof -
    have "s1 \<noteq> s" using that(2) e(2) by auto
    then show ?thesis by (rule same(2))
  qed
  show ?thesis
    unfolding pool_ok_def
  proof (intro conjI allI impI)
    show "length (be_slots e') = WINK_LED_BLINK_MAX" "length (be_entries e') = WINK_MAX_PERIODIC"
      using e' pool_lengths [OF e(1)] by simp_all
  next
    fix s1 l1 assume s1: "s1 < WINK_LED_BLINK_MAX" "bk_led (be_slots e' ! s1) = Some l1"
    note b1 = iffD1 [OF busy [OF s1(1)] s1(2)]
    show "l1 < length (be_leds e')" using pool_slot(1) [OF e(1) s1(1) b1] e'(2) by simp
    show "\<exists>j. runs_slot e' j s1" using pool_slot(3) [OF e(1) s1(1) b1] run [OF s1(1)] b1 by simp
    fix s2 assume s2: "s2 < WINK_LED_BLINK_MAX" "bk_led (be_slots e' ! s2) = Some l1"
    show "s2 = s1" by (rule pool_slot(2) [OF e(1) s1(1) b1 s2(1) iffD1 [OF busy [OF s2(1)] s2(2)]])
  next
    fix j assume "j < WINK_MAX_PERIODIC" "pe_fn (be_entries e' ! j) = Some BLINK_TICK"
    with pool_entry [OF e(1), of j] e'(1) obtain s1 where
      s1: "s1 < WINK_LED_BLINK_MAX" "bk_led (be_slots e ! s1) \<noteq> None" "runs_slot e j s1" by auto
    then show "\<exists>s < WINK_LED_BLINK_MAX. bk_led (be_slots e' ! s) \<noteq> None \<and> runs_slot e' j s"
      using run [OF s1(1,2)] busy [OF s1(1)] by (intro exI [of _ s1]) auto
  qed
qed

lemma stop_entries:
  "ps_entries (fst (wink_periodic_stop h st)) = (if h \<le> 0 \<or> h - 1 \<ge> int WINK_MAX_PERIODIC
      \<or> pe_kind (ps_entries st ! nat (h - 1)) = PERIODIC_ENTRY_FREE then ps_entries st
    else (ps_entries st)[nat (h - 1) := entry_zero])"
  by (simp add: wink_periodic_stop_def Let_def split: periodic_union.split)

lemma start_error_code:
  "wink_periodic_start_ex env name stack period fn ctx flags prio core st = (Inl rc, st', log) \<Longrightarrow> status_code rc < 0"
proof -
  assume "wink_periodic_start_ex env name stack period fn ctx flags prio core st = (Inl rc, st', log)"
  then have "rc \<noteq> WINK_OK"
    by (auto simp: wink_periodic_start_ex_def Let_def start_task_entry_def start_light_entry_def
        split: if_splits option.splits sum.splits prod.splits)
  then show "status_code rc < 0" by (cases rc) simp_all
qed

section \<open>One toggle\<close>

context gpio_board
begin

abbreviation leds_up :: "'w blink_env \<Rightarrow> bool" where
  "leds_up \<equiv> leds_ready ok good held"

lemma on_led_set:
  assumes "leds_up e" "l < length (be_leds e)"
  obtains e' where "on_led (dal_led_set pal on) l e = (WINK_OK, e')" "leds_up e'"
    "be_entries e' = be_entries e" "be_slots e' = be_slots e" "length (be_leds e') = length (be_leds e)"
    "led_view level l e' = ((be_leds e ! l)\<lparr> ld_is_on := on \<rparr>, Some (on = lc_active_high (ld_config (be_leds e ! l))))"
    "\<And>k. k < length (be_leds e) \<Longrightarrow> k \<noteq> l \<Longrightarrow> led_view level k e' = led_view level k e"
proof -
  let ?d = "be_leds e ! l"
  have d: "ld_initialized ?d" "good (led_pin ?d)" "held (be_board e) (led_pin ?d) \<noteq> None" "ok (be_board e)"
    using assms by (auto simp: leds_ready_def)
  from led_set_drives_pin [OF d(4,2,3,1), of on] obtain w' where
    w': "dal_led_set pal on (Some ?d) (be_board e) = (WINK_OK, Some (?d\<lparr> ld_is_on := on \<rparr>), w')" "ok w'"
      "held w' = held (be_board e)"
      "level w' = (level (be_board e))(led_pin ?d := Some (on = lc_active_high (ld_config ?d)))" by blast
  let ?e = "e\<lparr> be_leds := (be_leds e)[l := ?d\<lparr> ld_is_on := on \<rparr>], be_board := w' \<rparr>"
  have pins: "map led_pin ((be_leds e)[l := ?d\<lparr> ld_is_on := on \<rparr>]) = map led_pin (be_leds e)"
    using assms(2) by (auto intro!: nth_equalityI simp: nth_list_update)
  have "leds_up ?e"
    using assms(1) w'(2,3) d pins
    by (auto simp: leds_ready_def simp del: map_update dest!: set_update_subset_insert [THEN subsetD])
  moreover have "led_view level k ?e = led_view level k e" if "k < length (be_leds e)" "k \<noteq> l" for k
  proof -
    have "led_pin (be_leds e ! k) \<noteq> led_pin ?d"
      using assms that by (auto simp: leds_ready_def distinct_conv_nth)
    with that w'(4) show ?thesis by (simp add: led_view_def)
  qed
  ultimately show thesis
    using that [of ?e] w' assms(2) by (simp add: on_led_def led_view_def)
qed

text \<open>A run of the callback flips the LED of its slot and no other.\<close>

lemma blink_tick_flips:
  assumes "leds_up e" "bk_led (be_slots e ! s) = Some l" "l < length (be_leds e)"
  obtains "leds_up (blink_tick pal s e)" "be_entries (blink_tick pal s e) = be_entries e"
    "be_slots (blink_tick pal s e) = be_slots e" "length (be_leds (blink_tick pal s e)) = length (be_leds e)"
    "led_view level l (blink_tick pal s e) = led_flip (led_view level l e)"
    "\<And>k. k < length (be_leds e) \<Longrightarrow> k \<noteq> l \<Longrightarrow> led_view level k (blink_tick pal s e) = led_view level k e"
proof -
  from on_led_set [OF assms(1,3), of "\<not> ld_is_on (be_leds e ! l)"] obtain e' where
    e': "on_led (dal_led_set pal (\<not> ld_is_on (be_leds e ! l))) l e = (WINK_OK, e')" "leds_up e'"
      "be_entries e' = be_entries e" "be_slots e' = be_slots e" "length (be_leds e') = length (be_leds e)"
      "led_view level l e' = ((be_leds e ! l)\<lparr> ld_is_on := \<not> ld_is_on (be_leds e ! l) \<rparr>,
         Some ((\<not> ld_is_on (be_leds e ! l)) = lc_active_high (ld_config (be_leds e ! l))))"
      "\<And>k. k < length (be_leds e) \<Longrightarrow> k \<noteq> l \<Longrightarrow> led_view level k e' = led_view level k e" by blast
  have "blink_tick pal s e = e'" using e'(1) assms(2) by (simp add: blink_tick_def)
  moreover have "led_view level l e' = led_flip (led_view level l e)"
    unfolding e'(6) by (simp add: led_flip_def led_view_def Let_def)
  ultimately show thesis using that e' by simp
qed

lemma blinking_cong:
  assumes "blinking leds_up j s l e" "leds_up e'" "be_entries e' = be_entries e" "be_slots e' = be_slots e"
    "length (be_leds e') = length (be_leds e)"
  shows "blinking leds_up j s l e'"
  using assms pool_ok_cong [OF assms(3-5)] runs_slot_cong [OF assms(3,4)] by (simp add: blinking_def)

text \<open>Among any other functions and timers that leave the LED alone, its trampoline is a step.\<close>

lemma blink_step_calls:
  assumes "\<And>f c. leaves_led leds_up level l (other_fn f c)" "\<And>g b. leaves_led leds_up level l (other_timer g b)"
  shows "step_calls (blink_calls pal other_fn other_timer us) (blinking leds_up j s l) (led_view level l) led_flip
    i PERIODIC_LIGHT_CB j"
proof (rule step_callsI)
  fix g b status t and w w' :: "'w blink_world"
  assume "blinking leds_up j s l (w_env w) \<and> blink_calls pal other_fn other_timer us g b w = (status, t, w')"
  then have live: "blinking leds_up j s l (w_env w)"
    and call: "blink_calls pal other_fn other_timer us g b w = (status, t, w')" by simp_all
  let ?e = "w_env w"
  have e: "leds_up ?e" "pool_ok ?e" "s < WINK_LED_BLINK_MAX" "bk_led (be_slots ?e ! s) = Some l" "runs_slot ?e j s"
    using live by (simp_all add: blinking_def)
  note l = pool_slot(1) [OF e(2-4)] and len = pool_lengths(2) [OF e(2)]
  have leaves: "blinking leds_up j s l (f ?e) \<and> led_view level l (f ?e) = led_view level l ?e"
    if f: "leaves_led leds_up level l f" for f
  proof -
    have k: "leds_up (f ?e)" "be_entries (f ?e) = be_entries ?e" "be_slots (f ?e) = be_slots ?e"
      "length (be_leds (f ?e)) = length (be_leds ?e)" "be_leds (f ?e) ! l = be_leds ?e ! l"
      "level (be_board (f ?e)) (led_pin (be_leds ?e ! l)) = level (be_board ?e) (led_pin (be_leds ?e ! l))"
      using f e(1) by (simp_all add: leaves_led_def)
    from blinking_cong [OF live k(1-4)] k(5,6) show ?thesis by (simp add: led_view_def)
  qed
  show "status = WINK_OK \<and> w_timers w' = w_timers w \<and> blinking leds_up j s l (w_env w')
    \<and> led_view level l (w_env w')
      = (if g = PERIODIC_LIGHT_CB \<and> b = j then led_flip (led_view level l ?e) else led_view level l ?e)"
  proof (cases "g = PERIODIC_LIGHT_CB \<and> b < WINK_MAX_PERIODIC")
    case False
    have "b \<noteq> j" if "g = PERIODIC_LIGHT_CB" using False that e(5) by (auto simp: runs_slot_def)
    then show ?thesis
      using False call leaves [OF assms(2), of g b] live len by (auto simp: blink_calls_def split: if_splits)
  next
    case True
    let ?fn = "pe_fn (be_entries ?e ! b)"
    have w': "status = WINK_OK" "w_timers w' = w_timers w" "w_env w' = (case ?fn of None \<Rightarrow> ?e | Some f \<Rightarrow>
        (if f = BLINK_TICK then blink_tick pal else other_fn f) (pe_ctx (be_entries ?e ! b)) ?e)"
      using True call len
      by (auto simp: blink_calls_def periodic_light_cb_def periodic_of_def split: option.splits)
    show ?thesis
    proof (cases "?fn = Some BLINK_TICK")
      case False
      have "b \<noteq> j" using False e(5) by (auto simp: runs_slot_def)
      with w' False leaves [OF assms(1)] live show ?thesis by (cases ?fn) auto
    next
      case tick: True
      show ?thesis
      proof (cases "b = j")
        case True
        then have c: "pe_ctx (be_entries ?e ! b) = s" using e(5) by (simp add: runs_slot_def)
        from blink_tick_flips [OF e(1,4) l] blinking_cong [OF live]
        have "blinking leds_up j s l (blink_tick pal s ?e)
          \<and> led_view level l (blink_tick pal s ?e) = led_flip (led_view level l ?e)" by metis
        with w' tick c True \<open>g = PERIODIC_LIGHT_CB \<and> _\<close> show ?thesis by simp
      next
        case False
        let ?c = "pe_ctx (be_entries ?e ! b)"
        from pool_other_entry [OF live _ False tick] True obtain l' where
          l': "bk_led (be_slots ?e ! ?c) = Some l'" "l' < length (be_leds ?e)" "l' \<noteq> l" by blast
        from blink_tick_flips [OF e(1) l'(1,2)] blinking_cong [OF live] l l'(3)
        have "blinking leds_up j s l (blink_tick pal ?c ?e)
          \<and> led_view level l (blink_tick pal ?c ?e) = led_view level l ?e" by metis
        with w' tick False show ?thesis by simp
      qed
    qed
  qed
qed

text \<open>What a start that returns the handle \<open>h\<close> has done: its entry blinks the LED, which is on, and
  with the default options it is a LIGHT callback of half the period.\<close>

definition blink_started ::
  "osal_env \<Rightarrow> nat \<Rightarrow> u32 \<Rightarrow> wink_bal_opts_t option \<Rightarrow> 'w blink_world \<Rightarrow> int \<Rightarrow> 'w blink_world \<Rightarrow> osal_call list \<Rightarrow> bool"
where
  "blink_started env l period_ms opts w h w' log \<longleftrightarrow> (\<exists>s. blinking leds_up (nat (h - 1)) s l (w_env w')
     \<and> led_view level l (w_env w') = ((be_leds (w_env w) ! l)\<lparr> ld_is_on := True \<rparr>,
         Some (lc_active_high (ld_config (be_leds (w_env w) ! l))))
     \<and> (opts = None \<longrightarrow> (\<exists>prio core. wink_periodic_start_ex env (Some ''blink'') 0
           (if period_ms div 2 = 0 then 1 else period_ms div 2) (Some BLINK_TICK) s WINK_PERIODIC_LIGHT prio core
           (periodic_of w) = (Inr (nat h), periodic_of w', log))))"

text \<open>A start keeps the pool.\<close>

lemma blink_start_result:
  assumes inv: "periodic_inv (periodic_of w)" "pool_ok (w_env w)" "leds_up (w_env w)" "l < length (be_leds (w_env w))"
    and run: "wink_led_blink_start_ex env pal (Some l) period_ms opts w = (h, w', log)"
  shows "periodic_inv (periodic_of w') \<and> pool_ok (w_env w') \<and> leds_up (w_env w')
    \<and> (h > 0 \<longrightarrow> blink_started env l period_ms opts w h w' log)"
proof (cases "period_ms = 0 \<or> first_slot (\<lambda>b. bk_led b = Some l) (be_slots (w_env w)) \<noteq> None \<or> find_free_slot (be_slots (w_env w)) = None")
  case True
  then have "w' = w" "h \<le> 0" using run by (auto simp: wink_led_blink_start_ex_def split: if_splits option.splits)
  with inv show ?thesis by simp
next
  case False
  then obtain s where pre: "period_ms \<noteq> 0" "first_slot (\<lambda>b. bk_led b = Some l) (be_slots (w_env w)) = None"
      "find_free_slot (be_slots (w_env w)) = Some s" by auto
  then have s: "s < WINK_LED_BLINK_MAX" "bk_led (be_slots (w_env w) ! s) = None"
    using pool_lengths(1) [OF inv(2)] by (auto simp: find_free_slot_def first_slot_Some)
  have new: "bk_led (be_slots (w_env w) ! s') \<noteq> Some l" if "s' < WINK_LED_BLINK_MAX" for s'
    using pre(2) that pool_lengths(1) [OF inv(2)] by (auto simp: first_slot_None)
  let ?half = "if period_ms div 2 = 0 then 1 else period_ms div 2"
  let ?o = "case opts of None \<Rightarrow> WINK_BAL_OPTS_DEFAULT | Some q \<Rightarrow> q"
  let ?flags = "if bo_flags ?o = 0 then WINK_PERIODIC_LIGHT else bo_flags ?o"
  let ?stack = "if bo_stack_bytes ?o \<noteq> 0 then bo_stack_bytes ?o else 0"
  let ?prio = "if bo_priority ?o \<ge> 0 then bo_priority ?o else WINK_PERIODIC_DEFAULT_PRIORITY"
  let ?core = "map_core (bo_core_id ?o)"
  let ?w1 = "set_slot s \<lparr> bk_led = Some l, bk_period_h = WINK_PERIODIC_INVALID \<rparr> w"
  have w1: "leds_up (w_env ?w1)" "be_leds (w_env ?w1) = be_leds (w_env w)" "be_entries (w_env ?w1) = be_entries (w_env w)"
      "be_slots (w_env ?w1) = (be_slots (w_env w))[s := \<lparr> bk_led = Some l, bk_period_h = WINK_PERIODIC_INVALID \<rparr>]"
      "w_timers ?w1 = w_timers w"
    using inv(3) by (simp_all add: set_slot_def leds_ready_def)
  from on_led_set [OF w1(1), of l True] inv(4) w1(2) obtain e2 where
    e2: "on_led (dal_led_on pal) l (w_env ?w1) = (WINK_OK, e2)" "leds_up e2" "be_entries e2 = be_entries (w_env w)"
      "be_slots e2 = (be_slots (w_env w))[s := \<lparr> bk_led = Some l, bk_period_h = WINK_PERIODIC_INVALID \<rparr>]"
      "length (be_leds e2) = length (be_leds (w_env w))" "led_view level l e2 = ((be_leds (w_env w) ! l)\<lparr> ld_is_on := True \<rparr>,
         Some (lc_active_high (ld_config (be_leds (w_env w) ! l))))"
    by (auto simp: dal_led_on_def w1)
  let ?w2 = "?w1\<lparr> w_env := e2 \<rparr>"
  have p2: "periodic_of ?w2 = periodic_of w" using e2(3) w1(5) by (simp add: periodic_of_def)
  obtain r ps lg where start: "wink_periodic_start_ex env (Some ''blink'') ?stack ?half (Some BLINK_TICK) s ?flags ?prio ?core
      (periodic_of w) = (r, ps, lg)" by (rule prod_cases3)
  let ?w3 = "put_periodic ps ?w2"
  let ?free = "\<lparr> bk_led = None, bk_period_h = WINK_PERIODIC_INVALID \<rparr>"
  let ?h = "case r of Inl rc \<Rightarrow> status_code rc | Inr n \<Rightarrow> int n"
  have res: "(h, w', log) = (if ?h < 0
      then (?h, set_slot s ?free (?w3\<lparr> w_env := snd (on_led (dal_led_off pal) l (w_env ?w3)) \<rparr>), lg)
      else (?h, set_slot s \<lparr> bk_led = Some l, bk_period_h = ?h \<rparr> ?w3, lg))"
    unfolding run [symmetric] wink_led_blink_start_ex_def option.case if_False pre(2,3) Let_def
    using pre(1) by (simp add: e2(1) p2 start)
  have w3: "periodic_of ?w3 = ps" "be_entries (w_env ?w3) = ps_entries ps" "be_slots (w_env ?w3) = be_slots e2"
      "be_leds (w_env ?w3) = be_leds e2" "leds_up (w_env ?w3)" "led_view level l (w_env ?w3) = led_view level l e2"
    using e2(2) by (simp_all add: periodic_of_def put_periodic_def leds_ready_def led_view_def)
  from start_ex_cases [OF inv(1) start] show ?thesis
  proof (elim disjE exE conjE)
    fix rc assume rc: "r = Inl rc" "ps = periodic_of w"
    then have neg: "?h < 0" using start_error_code [of env _ _ _ _ _ _ _ _ _ rc] start by simp
    have "l < length (be_leds (w_env ?w3))" using inv(4) w3(4) e2(5) by simp
    from on_led_set [OF w3(5) this, of False] obtain e4 where
      off: "on_led (dal_led_set pal False) l (w_env ?w3) = (WINK_OK, e4)" "leds_up e4"
        "be_entries e4 = be_entries (w_env ?w3)" "be_slots e4 = be_slots (w_env ?w3)"
        "length (be_leds e4) = length (be_leds (w_env ?w3))" by blast
    then have e4: "snd (on_led (dal_led_off pal) l (w_env ?w3)) = e4" "leds_up e4"
        "be_entries e4 = be_entries (w_env w)" "be_slots e4 = be_slots e2" "length (be_leds e4) = length (be_leds (w_env w))"
      using w3 e2(5) rc(2) by (simp_all add: dal_led_off_def periodic_of_def)
    have w': "w_timers w' = w_timers w" "be_entries (w_env w') = be_entries (w_env w)" "be_leds (w_env w') = be_leds e4"
        "be_board (w_env w') = be_board e4" "be_slots (w_env w') = (be_slots (w_env w))[s := ?free]" "h < 0"
      using res neg e4 e2(4) rc(2) by (simp_all add: set_slot_def put_periodic_def periodic_of_def)
    then have "periodic_of w' = periodic_of w" by (simp add: periodic_of_def)
    moreover have "pool_ok (w_env w')"
      by (rule pool_ok_free [OF inv(2) s(2), of ?free]) (use w' e4(5) in simp_all)
    moreover have "leds_up (w_env w')" using e4(2) w' by (simp add: leds_ready_def)
    ultimately show ?thesis using inv(1) w'(6) by simp
  next
    fix j x assume j: "first_slot (\<lambda>e. pe_kind e = PERIODIC_ENTRY_FREE) (ps_entries (periodic_of w)) = Some j"
      "r = Inr (j + 1)" "periodic_inv ps" "ps_entries ps = (ps_entries (periodic_of w))[j := x]"
      "pe_kind x \<noteq> PERIODIC_ENTRY_FREE" "pe_fn x = Some BLINK_TICK" "pe_ctx x = s"
    note fs = periodic_inv_free_slot [OF inv(1) j(1)]
    have w': "h = int j + 1" "log = lg" "w' = set_slot s \<lparr> bk_led = Some l, bk_period_h = int j + 1 \<rparr> ?w3"
      using res j(2) by (simp_all add: algebra_simps)
    have e': "be_entries (w_env w') = (be_entries (w_env w))[j := x]" "length (be_leds (w_env w')) = length (be_leds (w_env w))"
        "be_slots (w_env w') = (be_slots (w_env w))[s := \<lparr> bk_led = Some l, bk_period_h = int j + 1 \<rparr>]"
      using w'(3) w3 j(4) e2 by (simp_all add: set_slot_def periodic_of_def)
    have zero: "be_entries (w_env w) ! j = entry_zero" using fs(2) by (simp add: periodic_of_def)
    note add = pool_ok_add [OF inv(2) s inv(4) new fs(1) zero j(5-7) e']
    have up: "leds_up (w_env w')" using w3(5) w'(3) by (simp add: set_slot_def leds_ready_def)
    have per: "periodic_of w' = ps" using w3(1) w'(3) by (simp add: set_slot_def periodic_of_def)
    have "blinking leds_up (nat (h - 1)) s l (w_env w')"
      using add up s(1) e'(3) pool_lengths(1) [OF inv(2)] w'(1) by (simp add: blinking_def)
    moreover have "led_view level l (w_env w') = led_view level l e2"
      using w'(3) by (simp add: set_slot_def put_periodic_def led_view_def)
    moreover have "\<exists>prio core. wink_periodic_start_ex env (Some ''blink'') 0 ?half (Some BLINK_TICK) s
        WINK_PERIODIC_LIGHT prio core (periodic_of w) = (Inr (nat h), periodic_of w', log)" if "opts = None"
      using start that j(2) w'(1,2) per
      by (intro exI [of _ WINK_PERIODIC_DEFAULT_PRIORITY] exI [of _ "map_core (-1)"])
        (simp add: WINK_BAL_OPTS_DEFAULT_def nat_add_distrib)
    ultimately have "blink_started env l period_ms opts w h w' log"
      unfolding blink_started_def e2(6) by blast
    moreover have "periodic_inv (periodic_of w') \<and> pool_ok (w_env w') \<and> leds_up (w_env w')"
      using add(1) up per j(3) by simp
    ultimately show ?thesis by blast
  qed
qed

lemma blink_start_handle:
  assumes "leds_up (w_env w)" "l < length (be_leds (w_env w))" "period_ms \<noteq> 0"
    "first_slot (\<lambda>b. bk_led b = Some l) (be_slots (w_env w)) = None" "find_free_slot (be_slots (w_env w)) = Some s"
    "fst (wink_periodic_start_ex env (Some ''blink'') 0 (if period_ms div 2 = 0 then 1 else period_ms div 2)
       (Some BLINK_TICK) s WINK_PERIODIC_LIGHT WINK_PERIODIC_DEFAULT_PRIORITY (map_core (-1)) (periodic_of w)) = Inr n"
  shows "fst (wink_led_blink_start_ex env pal (Some l) period_ms None w) = int n"
proof -
  let ?w1 = "set_slot s \<lparr> bk_led = Some l, bk_period_h = WINK_PERIODIC_INVALID \<rparr> w"
  have "leds_up (w_env ?w1)" "l < length (be_leds (w_env ?w1))"
    using assms(1,2) by (simp_all add: set_slot_def leds_ready_def)
  from on_led_set [OF this, of True] obtain e2 where
    e2: "on_led (dal_led_on pal) l (w_env ?w1) = (WINK_OK, e2)" "be_entries e2 = be_entries (w_env w)"
    by (auto simp: dal_led_on_def set_slot_def)
  have "periodic_of (?w1\<lparr> w_env := e2 \<rparr>) = periodic_of w" using e2(2) by (simp add: periodic_of_def set_slot_def)
  then show ?thesis
    using assms(3-6) e2(1) by (simp add: wink_led_blink_start_ex_def Let_def WINK_BAL_OPTS_DEFAULT_def case_prod_beta)
qed

text \<open>A stop keeps the pool and frees the slot of its handle.\<close>

lemma blink_stop_result:
  assumes inv: "periodic_inv (periodic_of w)" "pool_ok (w_env w)" "leds_up (w_env w)"
  shows "periodic_inv (periodic_of (fst (wink_led_blink_stop h w))) \<and> pool_ok (w_env (fst (wink_led_blink_stop h w)))
    \<and> leds_up (w_env (fst (wink_led_blink_stop h w)))"
proof (cases "h \<le> 0")
  case True
  with inv show ?thesis by (simp add: wink_led_blink_stop_def)
next
  case False
  let ?e = "w_env w" and ?st = "periodic_of w"
  let ?ps = "fst (wink_periodic_stop h ?st)"
  note len = pool_lengths [OF inv(2)]
  have pinv: "periodic_inv ?ps" by (rule periodic_inv_stop [OF inv(1)])
  have entries: "ps_entries ?ps = be_entries ?e \<and> (h - 1 < int WINK_MAX_PERIODIC \<longrightarrow>
        pe_kind (be_entries ?e ! nat (h - 1)) = PERIODIC_ENTRY_FREE)
      \<or> ps_entries ?ps = (be_entries ?e)[nat (h - 1) := entry_zero] \<and> nat (h - 1) < WINK_MAX_PERIODIC"
    using stop_entries [of h ?st] False by (auto simp: periodic_of_def)
  have owner: "h = int j + 1" if "runs_slot ?e j s" "bk_period_h (be_slots ?e ! s) = h" for j s
    using that by (simp add: runs_slot_def)
  show ?thesis
  proof (cases "find_slot_by_handle h (be_slots ?e)")
    case None
    let ?w = "put_periodic ?ps w"
    have none: "\<not> runs_slot ?e (nat (h - 1)) s" if "s < WINK_LED_BLINK_MAX" "bk_led (be_slots ?e ! s) \<noteq> None" for s
    proof -
      have "be_slots ?e ! s \<in> set (be_slots ?e)" using that(1) len(1) by simp
      then have "bk_period_h (be_slots ?e ! s) \<noteq> h" using None that(2) by (auto simp: find_slot_by_handle_def first_slot_None)
      then show ?thesis using False by (auto simp: runs_slot_def)
    qed
    have "pool_ok (w_env ?w)"
      using entries
    proof (elim disjE conjE)
      assume "ps_entries ?ps = be_entries ?e"
      then show ?thesis using inv(2) pool_ok_cong [of "w_env ?w" ?e] by (simp add: put_periodic_def)
    next
      assume "ps_entries ?ps = (be_entries ?e)[nat (h - 1) := entry_zero]" "nat (h - 1) < WINK_MAX_PERIODIC"
      then show ?thesis
        using none by (intro pool_ok_remove [OF inv(2), of "nat (h - 1)" "w_env ?w"]) (auto simp: put_periodic_def)
    qed
    moreover have "leds_up (w_env ?w)" using inv(3) by (simp add: put_periodic_def leds_ready_def)
    moreover have "periodic_of ?w = ?ps" by (simp add: periodic_of_def put_periodic_def)
    moreover have "fst (wink_led_blink_stop h w) = ?w"
      using None False by (simp add: wink_led_blink_stop_def case_prod_beta)
    ultimately show ?thesis using pinv by simp
  next
    case (Some s)
    let ?free = "\<lparr> bk_led = None, bk_period_h = WINK_PERIODIC_INVALID \<rparr>"
    let ?w = "set_slot s ?free (put_periodic ?ps w)"
    have s: "s < WINK_LED_BLINK_MAX" "bk_led (be_slots ?e ! s) \<noteq> None" "bk_period_h (be_slots ?e ! s) = h"
      using Some len(1) by (auto simp: find_slot_by_handle_def first_slot_Some)
    from s(2) obtain l where "bk_led (be_slots ?e ! s) = Some l" by auto
    from pool_slot(3) [OF inv(2) s(1) this] obtain j where j: "runs_slot ?e j s" by blast
    then have h: "nat (h - 1) = j" "j < WINK_MAX_PERIODIC" "pe_kind (be_entries ?e ! j) \<noteq> PERIODIC_ENTRY_FREE"
      using owner [OF j s(3)] by (simp_all add: runs_slot_def)
    then have en: "ps_entries ?ps = (be_entries ?e)[j := entry_zero]" using entries owner [OF j s(3)] by auto
    have only: "s' = s" if "runs_slot ?e j s'" for s' using that j by (auto simp: runs_slot_def)
    have w: "be_leds (w_env ?w) = be_leds ?e" "be_entries (w_env ?w) = (be_entries ?e)[j := entry_zero]"
        "length (be_slots (w_env ?w)) = length (be_slots ?e)"
      using en by (simp_all add: put_periodic_def set_slot_def)
    have slot: "be_slots (w_env ?w) ! s' = (if s' = s then ?free else be_slots ?e ! s')" if "s' < WINK_LED_BLINK_MAX" for s'
      using that len(1) by (simp add: put_periodic_def set_slot_def nth_list_update)
    have "pool_ok (w_env ?w)"
    proof (rule pool_ok_remove [OF inv(2) h(2)])
      fix s' assume s': "s' < WINK_LED_BLINK_MAX" "runs_slot ?e j s'"
      show "bk_led (be_slots (w_env ?w) ! s') = None" using slot [OF s'(1)] only [OF s'(2)] by simp
    next
      fix s' assume s': "s' < WINK_LED_BLINK_MAX"
      show "be_slots (w_env ?w) ! s' = be_slots ?e ! s' \<or> bk_led (be_slots (w_env ?w) ! s') = None \<and> runs_slot ?e j s'"
        using slot [OF s'] j by (cases "s' = s") simp_all
    qed (use w in simp_all)
    moreover have "leds_up (w_env ?w)" using inv(3) by (simp add: put_periodic_def set_slot_def leds_ready_def)
    moreover have "periodic_of ?w = ?ps" by (simp add: periodic_of_def put_periodic_def set_slot_def)
    moreover have "fst (wink_led_blink_stop h w) = ?w"
      using Some False s(3) by (simp add: wink_led_blink_stop_def case_prod_beta)
    ultimately show ?thesis using pinv by simp
  qed
qed

end

section \<open>The square wave\<close>

text \<open>Every timer that runs the trampoline belongs to an entry that is in use.\<close>

definition light_timers_owned :: "periodic_state \<Rightarrow> bool" where
  "light_timers_owned st \<longleftrightarrow> (\<forall>tm \<in> set (st_timers (ps_timers st)).
     tm_callback tm = Some PERIODIC_LIGHT_CB \<longrightarrow> pe_kind (ps_entries st ! tm_arg tm) \<noteq> PERIODIC_ENTRY_FREE)"

lemma started_tracks:
  assumes inv: "periodic_inv st" "light_timers_owned st" "slot < WINK_MAX_PERIODIC" "ps_entries st ! slot = entry_zero"
    "i < WINK_MAX_SOFT_TIMERS" and st': "light_started slot i name fn ctx period st = periodic_of w"
    and alive: "alive (w_env w)"
  defines "p \<equiv> ms_to_ticks (light_period period)"
  shows "tracking alive obs i PERIODIC_LIGHT_CB slot p p (obs (w_env w)) w"
proof -
  let ?ts = "st_timers (ps_timers st)"
  have ini: "st_initialized (ps_timers st)" "length ?ts = WINK_MAX_SOFT_TIMERS"
    using inv(1) by (simp_all add: periodic_inv_def timers_wf_def)
  have w: "w_timers w = (ps_timers st)\<lparr> st_timers := ?ts[i := light_timer slot name p] \<rparr>"
    using arg_cong [OF st', of ps_timers] by (simp add: light_started_def periodic_of_def p_def)
  have "tm_callback (?ts ! j) \<noteq> Some PERIODIC_LIGHT_CB \<or> tm_arg (?ts ! j) \<noteq> slot" if "j < WINK_MAX_SOFT_TIMERS" for j
    using inv(2,4) that ini(2) by (auto simp: light_timers_owned_def entry_zero_def)
  then show ?thesis
    using ini inv(5) alive by (simp add: tracking_def Let_def w light_timer_def)
qed

text \<open>C31: a started blinker is a square wave at the pin: with the default options, after \<open>k\<close> ticks of
  the runtime the LED has been switched once per half period, rounded up to ticks, it is on in
  the even half periods, and the pin of the host board is driven accordingly; whatever the other
  timers and periodic functions do, as long as they leave this LED alone, and however many other
  blinkers run.\<close>
theorem led_blink_square_wave:
  fixes w :: "host_board blink_world" and hook and us :: "nat \<Rightarrow> nat \<Rightarrow> host_board blink_world \<Rightarrow> u64"
  defines "leds_fine \<equiv> leds_ready host_ok (\<lambda>p. \<not> pin_bad p) host_held"
  assumes inv: "periodic_inv (periodic_of w)" "light_timers_owned (periodic_of w)" "pool_ok (w_env w)" "leds_fine (w_env w)"
    and l: "l < length (be_leds (w_env w))"
    and run: "wink_led_blink_start env (host_pal hook) (Some l) period_ms w = (h, w', log)" "h > 0"
    and others: "\<And>f c. leaves_led leds_fine host_level l (other_fn f c)" "\<And>g b. leaves_led leds_fine host_level l (other_timer g b)"
  defines "half \<equiv> ms_to_ticks (light_period (if period_ms div 2 = 0 then 1 else period_ms div 2))"
    and "after k \<equiv> w_env ((wink_soft_timer_dispatch (blink_calls (host_pal hook) other_fn other_timer us) ^^ k) w')"
  shows "ld_is_on (be_leds (after k) ! l) = even (k div unat half)
    \<and> host_level (be_board (after k)) (led_pin (be_leds (w_env w) ! l))
        = Some (even (k div unat half) = lc_active_high (ld_config (be_leds (w_env w) ! l)))"
proof -
  let ?d = "be_leds (w_env w) ! l"
  note start = host.blink_start_result [OF inv(1,3) inv(4) [unfolded leds_fine_def] l
      run(1) [unfolded wink_led_blink_start_def]]
  with run(2) have "host.blink_started env l period_ms None w h w' log" by simp
  then obtain s prio core where b: "blinking leds_fine (nat (h - 1)) s l (w_env w')"
      "led_view host_level l (w_env w') = (?d\<lparr> ld_is_on := True \<rparr>, Some (lc_active_high (ld_config ?d)))"
      "wink_periodic_start_ex env (Some ''blink'') 0 (if period_ms div 2 = 0 then 1 else period_ms div 2)
         (Some BLINK_TICK) s WINK_PERIODIC_LIGHT prio core (periodic_of w) = (Inr (nat h), periodic_of w', log)"
    unfolding host.blink_started_def leds_fine_def by blast
  from light_start_shape [OF inv(1) b(3)] obtain slot i where
    sh: "slot < WINK_MAX_PERIODIC" "ps_entries (periodic_of w) ! slot = entry_zero" "nat h = slot + 1"
      "i < WINK_MAX_SOFT_TIMERS" "periodic_of w' = light_started slot i (Some ''blink'') (Some BLINK_TICK) s
         (if period_ms div 2 = 0 then 1 else period_ms div 2) (periodic_of w)" by metis
  have slot: "slot = nat (h - 1)" using sh(3) run(2) by linarith
  note tr = started_tracks [where alive = "blinking leds_fine slot s l" and obs = "led_view host_level l",
      OF inv(1,2) sh(1,2,4) sh(5) [symmetric] b(1) [folded slot], folded half_def]
  have half: "half \<noteq> 0" by (simp add: half_def)
  note steps = host.blink_step_calls [of l other_fn other_timer hook us slot s i, folded leds_fine_def, OF others]
  from dispatch_tracking_iter [OF steps tr sh(4) half, of k]
  have "led_view host_level l (after k) = (led_flip ^^ (k div unat half)) (?d\<lparr> ld_is_on := True \<rparr>, Some (lc_active_high (ld_config ?d)))"
    by (simp add: tracking_def Let_def after_def b(2))
  note view = this [unfolded led_flips led_view_def, simplified prod.inject]
  have "be_leds (after k) ! l = ?d\<lparr> ld_is_on := even (k div unat half) \<rparr>" using view by (rule conjunct1)
  then show ?thesis using conjunct2 [OF view] by simp
qed

definition demo_blink_led :: dal_led_t where
  "demo_blink_led = \<lparr> ld_config = \<lparr> lc_owner = Some ''led'', lc_pin = 4, lc_active_high = True \<rparr>,
     ld_is_on = False, ld_initialized = True \<rparr>"

definition demo_blink_world :: "host_board \<Rightarrow> host_board blink_world" where
  "demo_blink_world b = \<lparr> w_timers = ps_timers demo_periodic,
     w_trace = \<lparr> tr_buffer = replicate 32 0, tr_count = 0, tr_head = 0, tr_warn_count = 0 \<rparr>,
     w_env = \<lparr> be_entries = ps_entries demo_periodic,
       be_slots = replicate 4 \<lparr> bk_led = None, bk_period_h = 0 \<rparr>, be_leds = [demo_blink_led], be_board = b \<rparr> \<rparr>"

lemma led_blink_square_wave_witness:
  "\<exists>b w' log. wink_led_blink_start demo_osal (host_pal (\<lambda>_ h. h)) (Some 0) 40 (demo_blink_world b) = (1, w', log)
    \<and> host_level (be_board (w_env ((wink_soft_timer_dispatch (blink_calls (host_pal (\<lambda>_ h. h)) (\<lambda>_ _ e. e) (\<lambda>_ _ e. e)
         (\<lambda>_ _ _. 7)) ^^ 5) w'))) 4 = Some True"
proof -
  have pin: "\<not> pin_bad 4" by (simp add: pin_bad_def HOST_MAX_GPIO_PIN_def)
  from host.claim_free [OF demo_board_ok this demo_board_free demo_board_room, of "\<lambda>_ h. h" "''led''"]
  obtain b where b: "host_ok b" "host_held b = (host_held demo_board)(4 := Some ''led'')" by blast
  let ?w = "demo_blink_world b"
  have per: "periodic_of ?w = demo_periodic" by (simp add: periodic_of_def demo_blink_world_def)
  have inv: "periodic_inv (periodic_of ?w)" using demo_periodic_inv by (simp add: per)
  have own: "light_timers_owned (periodic_of ?w)"
    by (simp add: per light_timers_owned_def demo_periodic_def timer_zero_def)
  have pool: "pool_ok (w_env ?w)"
    by (simp add: pool_ok_def demo_blink_world_def demo_periodic_def WINK_LED_BLINK_MAX_def WINK_MAX_PERIODIC_def entry_zero_def)
  have up: "leds_ready host_ok (\<lambda>p. \<not> pin_bad p) host_held (w_env ?w)"
    using b pin by (simp add: leds_ready_def demo_blink_world_def demo_blink_led_def)
  have l: "0 < length (be_leds (w_env ?w))" by (simp add: demo_blink_world_def)
  have slots: "first_slot (\<lambda>b. bk_led b = Some 0) (be_slots (w_env ?w)) = None"
    "find_free_slot (be_slots (w_env ?w)) = Some 0"
    by (simp_all add: demo_blink_world_def find_free_slot_def first_slot_None first_slot_Some)
  have start: "fst (wink_periodic_start_ex demo_osal (Some ''blink'') 0 20 (Some BLINK_TICK) 0 WINK_PERIODIC_LIGHT
      WINK_PERIODIC_DEFAULT_PRIORITY (map_core (-1)) demo_periodic) = Inr 1" by code_simp
  obtain h w' log where run: "wink_led_blink_start demo_osal (host_pal (\<lambda>_ h. h)) (Some 0) 40 ?w = (h, w', log)"
    by (rule prod_cases3)
  have "h = 1"
    using host.blink_start_handle [OF up l, of 40 0 demo_osal 1 "\<lambda>_ h. h"] slots start run
    by (simp add: per wink_led_blink_start_def)
  have others: "leaves_led ready level 0 (\<lambda>e. e)" for ready :: "host_board blink_env \<Rightarrow> bool" and level
    by (simp add: leaves_led_def)
  have wave: "host_level (be_board (w_env ((wink_soft_timer_dispatch (blink_calls (host_pal (\<lambda>_ h. h)) (\<lambda>_ _ e. e)
      (\<lambda>_ _ e. e) (\<lambda>_ _ _. 7)) ^^ 5) w'))) 4 = Some True"
    using led_blink_square_wave [OF inv own pool up l run _ others others, of 5 "\<lambda>_ _ _. 7"] \<open>h = 1\<close>
    by (simp add: demo_blink_world_def demo_blink_led_def light_period_def ms_to_ticks_def WINK_RUNTIME_TICK_MS_def)
  with run \<open>h = 1\<close> show ?thesis by blast
qed

end
