(* ===== verification/Mcs51_Context.thy ===== *)
theory Mcs51_Context
  imports Event_Queue
begin

text \<open>
  The state of the 8051 emulation: \<^verbatim>\<open>frameworks/mcs51/include/mcs51_context.h\<close> and the families of
  \<^verbatim>\<open>mcs51_family.cpp\<close>. One record holds the context, the levels the host drives onto the pins
  (\<^verbatim>\<open>mcs51_uni_bridge.cpp\<close>), the mailbox whose events wake a sleeping core, and the memory of the
  firmware, which is a parameter. A register file indexed by a byte is a function on bytes. Sources,
  vectors, queue positions and depths are natural numbers where the code bounds them.
\<close>

section \<open>Families\<close>

record mcs51_family_desc_t =
  fd_id :: u8
  fd_name :: string
  fd_fosc_hz :: u32
  fd_ckcon_reset :: u8
  fd_xram_size :: u32
  fd_xsfr_base :: u32
  fd_xsfr_size :: u32
  fd_capabilities :: u32
  fd_port_pin_masks :: "u8 list"
  fd_irq_vectors :: "u8 list"
  fd_wdt_present :: bool
  fd_iap_present :: bool
  fd_uart_count :: u8
  fd_timer_caps :: u8

definition MCS51_FAMILY_CLASSIC :: u8 where "MCS51_FAMILY_CLASSIC = 0"
definition MCS51_FAMILY_CMS8S78XX :: u8 where "MCS51_FAMILY_CMS8S78XX = 1"
definition MCS51_CAP_UART_REMAP :: u32 where "MCS51_CAP_UART_REMAP = push_bit 5 1"

definition kFamilyDescs :: "mcs51_family_desc_t list" where
  "kFamilyDescs =
    [\<lparr> fd_id = MCS51_FAMILY_CLASSIC, fd_name = ''AT89C52/classic'', fd_fosc_hz = 0, fd_ckcon_reset = 0, fd_xram_size = 0, fd_xsfr_base = 0,
       fd_xsfr_size = 0, fd_capabilities = 0, fd_port_pin_masks = [8, 8, 8, 8],
       fd_irq_vectors = [0, 1, 2, 3, 4, 5],
       fd_wdt_present = False, fd_iap_present = False, fd_uart_count = 1, fd_timer_caps = 7 \<rparr>,
     \<lparr> fd_id = MCS51_FAMILY_CMS8S78XX, fd_name = ''CMS8S78xx'', fd_fosc_hz = 24000000, fd_ckcon_reset = 7, fd_xram_size = 1024,
       fd_xsfr_base = 0xF000, fd_xsfr_size = 0x1000, fd_capabilities = 0x7F, fd_port_pin_masks = [8, 8, 6, 4],
       fd_irq_vectors = [0, 1, 2, 3, 4, 5, 6, 7, 8, 9, 10, 11, 12, 13, 14, 15, 16, 17, 18, 19, 20, 21, 22, 23, 24,
         25, 26, 27],
       fd_wdt_present = True, fd_iap_present = True, fd_uart_count = 1, fd_timer_caps = 63 \<rparr>]"

definition mcs51_family_desc :: "u8 \<Rightarrow> mcs51_family_desc_t" where
  "mcs51_family_desc family =
    (case find (\<lambda>d. fd_id d = family) kFamilyDescs of Some d \<Rightarrow> d | None \<Rightarrow> kFamilyDescs ! 0)"

definition mcs51_family_count :: nat where "mcs51_family_count = length kFamilyDescs"

definition mcs51_family_has_xsfr :: "mcs51_family_desc_t \<Rightarrow> bool" where
  "mcs51_family_has_xsfr d \<longleftrightarrow> fd_xsfr_size d \<noteq> 0"

definition mcs51_family_port_pin_count :: "mcs51_family_desc_t \<Rightarrow> nat \<Rightarrow> u8" where
  "mcs51_family_port_pin_count d port = (if port < 4 then fd_port_pin_masks d ! port else 0)"

definition mcs51_family_pin_valid :: "mcs51_family_desc_t \<Rightarrow> u8 \<Rightarrow> u8 \<Rightarrow> bool" where
  "mcs51_family_pin_valid d port pin_bit \<longleftrightarrow> pin_bit < mcs51_family_port_pin_count d (unat port)"

section \<open>The context\<close>

record mcs51_irq_map_entry_t =
  im_vector :: u8
  im_ie_sfr :: u8
  im_ie_bit :: u8
  im_flag_sfr :: u8
  im_flag_bit :: u8
  im_prio_sfr :: u8
  im_prio_bit :: u8
  im_clear_mode :: u8

record McuEdgeEvent =
  me_fire_us :: u64
  me_pin :: u16
  me_level :: u8

record Mcu51TimerChannel =
  tc_running :: bool
  tc_external_clk :: bool
  tc_mode :: u8
  tc_next_ovf_us :: u64
  tc_tr_prev :: u8
  tc_last_pin_level :: u8

record Mcu51TimerState =
  ts_channels :: "Mcu51TimerChannel list"
  ts_t2_running :: bool
  ts_t2_next_ovf_us :: u64
  ts_t2_tr_prev :: u8
  ts_t2_last_pin_level :: u8
  ts_t0_ps_addr :: u16
  ts_t1_ps_addr :: u16
  ts_t2_ps_addr :: u16

record Mcu51ExtIntLine =
  xl_pin :: u16
  xl_fallback_pin :: u16
  xl_ps_addr :: u16
  xl_vector :: u8
  xl_it_bit :: u8
  xl_ie_bit :: u8
  xl_ex_bit :: u8
  xl_last_level :: u8
  xl_last_sample_us :: u64
  xl_have_sample :: bool

record Mcu51ExtIntState =
  xi_lines :: "Mcu51ExtIntLine list"
  xi_sample_due :: bool
  xi_in_poll :: bool

record Mcu51UartState =
  ur_capture :: "u8 list"
  ur_count :: u32
  ur_rx_fifo :: "u8 list"
  ur_rx_head :: u32
  ur_rx_tail :: u32
  ur_rx_dropped :: u32
  ur_rx_last_deliver_us :: u64
  ur_rx_have_delivered :: bool

text \<open>The clock beside its instant; whether the caller runs in a fiber of the scheduler, whether the
  timers are registered for catching up, and what was billed to the master clock.\<close>

record Mcs51Sched =
  sc_slice_start_us :: u64
  sc_quota_yields :: u32
  sc_step_count :: u32
  sc_microstep_us :: u32
  sc_in_fiber :: bool
  sc_catchup :: bool
  sc_bills :: "u32 list"

text \<open>The counters of the serial port that outlive a reset of the chip, its console, and the log of
  bytes handed to the host.\<close>

record Mcs51UartDiag =
  ud_notready :: "u32 list"
  ud_overwrite :: u32
  ud_last_baud_hz :: u32
  ud_console :: "u8 list"
  ud_tx_count :: u32
  ud_tx_port :: "u8 list"
  ud_tx_byte :: "u8 list"

record mcs51_pin_trap_t =
  pt_on_write :: "nat option"
  pt_on_read :: "nat option"

record Mcs51PwmMeter =
  pw_active :: bool
  pw_current_level :: u8
  pw_last_flip_us :: u64
  pw_high_time_us :: u64
  pw_low_time_us :: u64
  pw_transitions :: u32

record Mcs51ExtBusState =
  xb_xbus_used :: bool
  xb_gpio_bus_mask :: u32

record Mcs51Gpio =
  gp_traps :: "mcs51_pin_trap_t list list"
  gp_hooked :: bool
  gp_suppressed :: u32
  gp_analog_read :: u32
  gp_notifies :: u32
  gp_notify_pin :: "u16 list"
  gp_notify_level :: "u8 list"
  gp_notify_strength :: "u8 list"
  gp_releases :: u32
  gp_release_pin :: "u16 list"
  gp_meters :: "Mcs51PwmMeter list"

record Mcs51Xdata =
  xd_extbus :: Mcs51ExtBusState
  xd_bus_conflict :: u32
  xd_oob_count :: u32
  xd_unmodeled_count :: u32
  xd_unmodeled_first :: "u16 list"

record Mcs51Hooks =
  hk_sfr_write :: "u8 \<Rightarrow> nat option"
  hk_sfr_read :: "u8 \<Rightarrow> nat option"
  hk_write_notify :: "nat option"

record Mcs51Reset =
  rs_pending :: bool
  rs_reason :: u8
  rs_last_reason :: u8
  rs_guard :: bool
  rs_chip_models_missing :: u32

record Mcs51SpinDiag =
  sd_trips :: u32
  sd_trip_reads :: u32
  sd_trip_addr :: u8

record 'e mcs51 =
  mc_sfr :: "u8 \<Rightarrow> u8"
  mc_xdata :: "u16 \<Rightarrow> u8"
  mc_isr_table :: "nat option list"
  mc_pending :: u32
  mc_prio_stack :: "nat list"
  mc_depth :: nat
  mc_interrupts_enabled :: bool
  mc_reti_suppress :: bool
  mc_dispatch_count :: "u32 list"
  mc_irq_map :: "mcs51_irq_map_entry_t list"
  mc_duplicate_vectors :: u32
  mc_irq_map_extend :: bool
  mc_flag_predicate :: bool
  mc_virtual_us :: u64
  mc_clock_hz :: u32
  mc_timer :: Mcu51TimerState
  mc_extint :: Mcu51ExtIntState
  mc_uart :: Mcu51UartState
  mc_edge_queue :: "McuEdgeEvent list"
  mc_edge_head :: nat
  mc_edge_tail :: nat
  mc_family :: u8
  mc_spin_addrs :: "u8 list"
  mc_spin_addr_count :: nat
  mc_spin_tripped :: bool
  mc_spin_reads :: u32
  mc_spin_window_start_us :: u64
  mc_ext_pins :: "u8 list"
  mc_mailbox :: event_queue
  mc_wakes :: "sem_call list"
  mc_unsupported :: "u32 list"
  mc_caps_cache :: u32
  mc_uart_hooked :: bool
  mc_sched :: Mcs51Sched
  mc_uart_diag :: Mcs51UartDiag
  mc_gpio :: Mcs51Gpio
  mc_xdata_bus :: Mcs51Xdata
  mc_hooks :: Mcs51Hooks
  mc_reset :: Mcs51Reset
  mc_spin_diag :: Mcs51SpinDiag
  mc_app :: 'e

text \<open>The interrupt service routines of the firmware, by number; a routine may do anything.\<close>

type_synonym 'e mcs51_isrs = "nat \<Rightarrow> 'e mcs51 \<Rightarrow> 'e mcs51"

section \<open>Register bits\<close>

definition sfr_bit :: "'e mcs51 \<Rightarrow> u8 \<Rightarrow> u8 \<Rightarrow> bool" where
  "sfr_bit c a b = bit (mc_sfr c a) (unat b)"

definition sfr_set_bit :: "u8 \<Rightarrow> u8 \<Rightarrow> 'e mcs51 \<Rightarrow> 'e mcs51" where
  "sfr_set_bit a b c = c\<lparr> mc_sfr := (mc_sfr c)(a := set_bit (unat b) (mc_sfr c a)) \<rparr>"

definition sfr_clear_bit :: "u8 \<Rightarrow> u8 \<Rightarrow> 'e mcs51 \<Rightarrow> 'e mcs51" where
  "sfr_clear_bit a b c = c\<lparr> mc_sfr := (mc_sfr c)(a := unset_bit (unat b) (mc_sfr c a)) \<rparr>"

definition sfr_write :: "u8 \<Rightarrow> u8 \<Rightarrow> 'e mcs51 \<Rightarrow> 'e mcs51" where
  "sfr_write a v c = c\<lparr> mc_sfr := (mc_sfr c)(a := v) \<rparr>"

section \<open>Host pins\<close>

definition js_pal_gpio_read_state :: "u16 \<Rightarrow> 'e mcs51 \<Rightarrow> u8" where
  "js_pal_gpio_read_state pin c = (if pin < 32 then mc_ext_pins c ! unat pin else 2)"

definition wink_mcs51_host_set_ext_pin :: "u16 \<Rightarrow> u8 \<Rightarrow> 'e mcs51 \<Rightarrow> 'e mcs51" where
  "wink_mcs51_host_set_ext_pin pin st c =
    (if pin < 32 then c\<lparr> mc_ext_pins := (mc_ext_pins c)[unat pin := st] \<rparr> else c)"

section \<open>The spin guard\<close>

definition wink_mcs51_spin_guard_note_event :: "'e mcs51 \<Rightarrow> 'e mcs51" where
  "wink_mcs51_spin_guard_note_event c =
    c\<lparr> mc_spin_addr_count := 0, mc_spin_reads := 0, mc_spin_tripped := False,
       mc_spin_window_start_us := mc_virtual_us c \<rparr>"

section \<open>Clock and diagnostics\<close>

definition WINK_MCS51_DEFAULT_CLOCK_HZ :: u32 where "WINK_MCS51_DEFAULT_CLOCK_HZ = 12000000"

definition wink_mcs51_get_clock_hz :: "'e mcs51 \<Rightarrow> u32" where
  "wink_mcs51_get_clock_hz c = (if mc_clock_hz c \<noteq> 0 then mc_clock_hz c else WINK_MCS51_DEFAULT_CLOCK_HZ)"

definition wink_mcs51_virtual_us :: "'e mcs51 \<Rightarrow> u64" where
  "wink_mcs51_virtual_us c = mc_virtual_us c"

text \<open>The use of a feature that is not emulated is counted; an unknown number counts as zero.\<close>

definition wink_mcs51_unsupported :: "nat \<Rightarrow> 'e mcs51 \<Rightarrow> 'e mcs51" where
  "wink_mcs51_unsupported feature_id c =
    (let f = (if feature_id = 0 \<or> feature_id \<ge> 64 then 0 else feature_id)
     in c\<lparr> mc_unsupported := (mc_unsupported c)[f := mc_unsupported c ! f + 1] \<rparr>)"

definition wink_mcs51_unsupported_trigger_count :: "nat \<Rightarrow> 'e mcs51 \<Rightarrow> u32" where
  "wink_mcs51_unsupported_trigger_count feature_id c =
    (if feature_id \<ge> 64 then 0 else mc_unsupported c ! feature_id)"

definition wink_mcs51_unsupported_reset :: "'e mcs51 \<Rightarrow> 'e mcs51" where
  "wink_mcs51_unsupported_reset c = c\<lparr> mc_unsupported := replicate 64 0 \<rparr>"

section \<open>Traps and hooks\<close>

text \<open>A trap or hook is a function of the program, here its number; those of the core have fixed ones.\<close>

definition sfr_hook_timer :: nat where "sfr_hook_timer = 0"
definition sfr_hook_uart :: nat where "sfr_hook_uart = 1"
definition mcs51_on_pcon_write_hook :: nat where "mcs51_on_pcon_write_hook = 2"

definition upd_trap :: "u8 \<Rightarrow> u8 \<Rightarrow> (mcs51_pin_trap_t \<Rightarrow> mcs51_pin_trap_t) \<Rightarrow> 'e mcs51 \<Rightarrow> 'e mcs51" where
  "upd_trap port b f c =
    (let traps = gp_traps (mc_gpio c); p = unat port; i = unat b
     in c\<lparr> mc_gpio := (mc_gpio c)\<lparr> gp_traps := traps[p := (traps ! p)[i := f (traps ! p ! i)]] \<rparr> \<rparr>)"

definition mcs51_trap_register_write :: "u8 \<Rightarrow> u8 \<Rightarrow> nat option \<Rightarrow> 'e mcs51 \<Rightarrow> 'e mcs51" where
  "mcs51_trap_register_write port b fn c =
    (if port \<ge> 4 \<or> b \<ge> 8 then c else upd_trap port b (\<lambda>t. t\<lparr> pt_on_write := fn \<rparr>) c)"

definition mcs51_trap_register_read :: "u8 \<Rightarrow> u8 \<Rightarrow> nat option \<Rightarrow> 'e mcs51 \<Rightarrow> 'e mcs51" where
  "mcs51_trap_register_read port b fn c =
    (if port \<ge> 4 \<or> b \<ge> 8 then c else upd_trap port b (\<lambda>t. t\<lparr> pt_on_read := fn \<rparr>) c)"

definition mcs51_trap_clear_pin :: "u8 \<Rightarrow> u8 \<Rightarrow> 'e mcs51 \<Rightarrow> 'e mcs51" where
  "mcs51_trap_clear_pin port b c =
    (if port \<ge> 4 \<or> b \<ge> 8 then c else upd_trap port b (\<lambda>_. \<lparr> pt_on_write = None, pt_on_read = None \<rparr>) c)"

definition mcs51_trap_register_sfr_write :: "u8 \<Rightarrow> nat option \<Rightarrow> 'e mcs51 \<Rightarrow> 'e mcs51" where
  "mcs51_trap_register_sfr_write addr fn c =
    c\<lparr> mc_hooks := (mc_hooks c)\<lparr> hk_sfr_write := (hk_sfr_write (mc_hooks c))(addr := fn) \<rparr> \<rparr>"

definition mcs51_trap_register_sfr_read :: "u8 \<Rightarrow> nat option \<Rightarrow> 'e mcs51 \<Rightarrow> 'e mcs51" where
  "mcs51_trap_register_sfr_read addr fn c =
    c\<lparr> mc_hooks := (mc_hooks c)\<lparr> hk_sfr_read := (hk_sfr_read (mc_hooks c))(addr := fn) \<rparr> \<rparr>"

definition mcs51_trap_reset :: "'e mcs51 \<Rightarrow> 'e mcs51" where
  "mcs51_trap_reset c =
    c\<lparr> mc_gpio := (mc_gpio c)\<lparr> gp_traps := replicate 4 (replicate 8 \<lparr> pt_on_write = None, pt_on_read = None \<rparr>) \<rparr>,
       mc_hooks := \<lparr> hk_sfr_write = (\<lambda>_. None), hk_sfr_read = (\<lambda>_. None), hk_write_notify = None \<rparr> \<rparr>"

section \<open>Pin selectors\<close>

text \<open>The pin of a peripheral: fixed, or chosen by a selector register and legal in the family.\<close>

definition SELECTOR_NONE :: u16 where "SELECTOR_NONE = 0xFFFF"

definition resolve_selected_pin :: "u16 \<Rightarrow> u16 \<Rightarrow> 'e mcs51 \<Rightarrow> u16" where
  "resolve_selected_pin ps_addr fallback c =
    (if ps_addr = SELECTOR_NONE then fallback
     else let sel = mc_xdata c ps_addr;
              port = drop_bit 4 sel AND 7;
              pin_bit = sel AND 0xF
          in if mcs51_family_pin_valid (mcs51_family_desc (mc_family c)) port pin_bit
             then ucast (push_bit 3 port OR pin_bit) else fallback)"

end
