(* ===== verification/Mcs51_Irq.thy ===== *)
theory Mcs51_Irq
  imports Mcs51_Context
begin

text \<open>
  Interrupts of the 8051 emulation, \<^verbatim>\<open>frameworks/mcs51/src/mcs51_isr.cpp\<close>: a request is latched when a
  peripheral raises it and served at the next dispatch point, if its enable bit, its flag and the
  priority of the routine in service allow it. With it, the rows and the flag rule a CMS8S chip
  adds (\<^verbatim>\<open>cms8s_sys.cpp\<close>). The arbitration is compared with the minimum of a linear order of ranks,
  and nesting is a step relation.
\<close>

section \<open>Sources and their rows\<close>

definition IRQ_SOURCE_INT0 :: nat where "IRQ_SOURCE_INT0 = 0"
definition IRQ_SOURCE_TIMER0 :: nat where "IRQ_SOURCE_TIMER0 = 1"
definition IRQ_SOURCE_INT1 :: nat where "IRQ_SOURCE_INT1 = 2"
definition IRQ_SOURCE_TIMER1 :: nat where "IRQ_SOURCE_TIMER1 = 3"
definition IRQ_SOURCE_UART0 :: nat where "IRQ_SOURCE_UART0 = 4"
definition IRQ_SOURCE_TIMER2 :: nat where "IRQ_SOURCE_TIMER2 = 5"
definition IRQ_SOURCE_ADC :: nat where "IRQ_SOURCE_ADC = 6"
definition IRQ_SOURCE_PWM :: nat where "IRQ_SOURCE_PWM = 8"
definition IRQ_SOURCE_I2C :: nat where "IRQ_SOURCE_I2C = 9"
definition IRQ_SOURCE_SPI :: nat where "IRQ_SOURCE_SPI = 10"
definition IRQ_SOURCE_TIMER3 :: nat where "IRQ_SOURCE_TIMER3 = 11"
definition IRQ_SOURCE_TIMER4 :: nat where "IRQ_SOURCE_TIMER4 = 12"
definition IRQ_SOURCE_ACMP :: nat where "IRQ_SOURCE_ACMP = 13"
definition IRQ_SOURCE_WDT :: nat where "IRQ_SOURCE_WDT = 14"
definition IRQ_SOURCE_LVD :: nat where "IRQ_SOURCE_LVD = 15"
definition IRQ_SOURCE__COUNT :: nat where "IRQ_SOURCE__COUNT = 16"

definition WINK_MCS51_NUM_VECTORS :: nat where "WINK_MCS51_NUM_VECTORS = 28"
definition MCS51_IRQ_HW_AUTO_CLEAR :: u8 where "MCS51_IRQ_HW_AUTO_CLEAR = 0"
definition MCS51_IRQ_SW_CLEAR :: u8 where "MCS51_IRQ_SW_CLEAR = 1"
definition SFR_PCON :: u8 where "SFR_PCON = 0x87"
definition SFR_TCON :: u8 where "SFR_TCON = 0x88"
definition SFR_SCON :: u8 where "SFR_SCON = 0x98"
definition SFR_IE :: u8 where "SFR_IE = 0xA8"
definition SFR_IP :: u8 where "SFR_IP = 0xB8"
definition IE_EA :: u8 where "IE_EA = 7"

lemmas irq_source_defs = IRQ_SOURCE_INT0_def IRQ_SOURCE_TIMER0_def IRQ_SOURCE_INT1_def IRQ_SOURCE_TIMER1_def
  IRQ_SOURCE_UART0_def IRQ_SOURCE_TIMER2_def IRQ_SOURCE__COUNT_def

definition irq_row :: "u8 \<Rightarrow> u8 \<Rightarrow> u8 \<Rightarrow> u8 \<Rightarrow> u8 \<Rightarrow> u8 \<Rightarrow> u8 \<Rightarrow> u8 \<Rightarrow> mcs51_irq_map_entry_t" where
  "irq_row vec ie ieb fl flb pr prb clr =
    \<lparr> im_vector = vec, im_ie_sfr = ie, im_ie_bit = ieb, im_flag_sfr = fl, im_flag_bit = flb,
      im_prio_sfr = pr, im_prio_bit = prb, im_clear_mode = clr \<rparr>"

definition s_default_irq_map :: "mcs51_irq_map_entry_t list" where
  "s_default_irq_map =
    [irq_row 0 0xA8 0 0x88 1 0xB8 0 MCS51_IRQ_HW_AUTO_CLEAR,
     irq_row 1 0xA8 1 0x88 5 0xB8 1 MCS51_IRQ_HW_AUTO_CLEAR,
     irq_row 2 0xA8 2 0x88 3 0xB8 2 MCS51_IRQ_HW_AUTO_CLEAR,
     irq_row 3 0xA8 3 0x88 7 0xB8 3 MCS51_IRQ_HW_AUTO_CLEAR,
     irq_row 4 0xA8 4 0x98 0 0xB8 4 MCS51_IRQ_SW_CLEAR,
     irq_row 5 0xA8 5 0xC9 7 0xB8 5 MCS51_IRQ_SW_CLEAR]
    @ replicate 10 (irq_row 0xFF 0xFF 0 0xFF 0 0xFF 0 MCS51_IRQ_SW_CLEAR)"

definition kCms8sIrqExtensions :: "(nat \<times> mcs51_irq_map_entry_t) list" where
  "kCms8sIrqExtensions =
    [(IRQ_SOURCE_ADC, irq_row 19 0xAA 4 0xB2 4 0xBA 4 MCS51_IRQ_SW_CLEAR),
     (IRQ_SOURCE_PWM, irq_row 18 0xAA 3 0xB2 3 0xBA 3 MCS51_IRQ_SW_CLEAR),
     (IRQ_SOURCE_I2C, irq_row 21 0xAA 6 0xB2 6 0xBA 6 MCS51_IRQ_SW_CLEAR),
     (IRQ_SOURCE_SPI, irq_row 22 0xAA 7 0xB2 7 0xBA 7 MCS51_IRQ_SW_CLEAR),
     (IRQ_SOURCE_TIMER3, irq_row 15 0xAA 0 0xB2 0 0xBA 0 MCS51_IRQ_HW_AUTO_CLEAR),
     (IRQ_SOURCE_TIMER4, irq_row 16 0xAA 1 0xB2 1 0xBA 1 MCS51_IRQ_HW_AUTO_CLEAR),
     (IRQ_SOURCE_ACMP, irq_row 14 0xFF 0 0xFF 0 0xB9 7 MCS51_IRQ_SW_CLEAR),
     (IRQ_SOURCE_LVD, irq_row 26 0xFF 0 0xFF 0 0xBB 3 MCS51_IRQ_SW_CLEAR),
     (IRQ_SOURCE_WDT, irq_row 20 0xAA 5 0x97 3 0xBA 5 MCS51_IRQ_SW_CLEAR)]"

definition cms8s_irq_map_extend :: "'e mcs51 \<Rightarrow> 'e mcs51" where
  "cms8s_irq_map_extend c =
    c\<lparr> mc_irq_map := fold (\<lambda>(src, entry) m. m[src := entry]) kCms8sIrqExtensions (mc_irq_map c) \<rparr>"

definition cms8s_irq_flag_predicate :: "'e mcs51 \<Rightarrow> nat \<Rightarrow> mcs51_irq_map_entry_t \<Rightarrow> bool" where
  "cms8s_irq_flag_predicate c src entry =
    (let both = (\<lambda>a b. mc_xdata c a AND mc_xdata c b)
     in if src = IRQ_SOURCE_TIMER2 \<and> im_flag_sfr entry = 0xC9 then mc_sfr c 0xC9 AND mc_sfr c 0xCF \<noteq> 0
        else if src = IRQ_SOURCE_PWM
        then let fb = (if bit (mc_xdata c 0xF166) 6 \<and> bit (mc_xdata c 0xF166) 7 then 1 else 0)
             in both 0xF16D 0xF169 OR both 0xF16C 0xF168 OR both 0xF16E 0xF16A OR both 0xF16F 0xF16B OR fb \<noteq> 0
        else if src = IRQ_SOURCE_LVD
        then bit (mc_xdata c 0xF690) 3 \<and> bit (mc_xdata c 0xF690) 1 \<and> bit (mc_xdata c 0xF690) 0
        else if im_flag_sfr entry = 0xFF then True
        else sfr_bit c (im_flag_sfr entry) (im_flag_bit entry))"

definition family_vector_reachable :: "'e mcs51 \<Rightarrow> u8 \<Rightarrow> bool" where
  "family_vector_reachable c vector \<longleftrightarrow>
    unat vector < WINK_MCS51_NUM_VECTORS \<and> vector \<in> set (fd_irq_vectors (mcs51_family_desc (mc_family c)))"

section \<open>Vectors\<close>

definition wink_mcs51_set_isr :: "u8 \<Rightarrow> nat option \<Rightarrow> 'e mcs51 \<Rightarrow> 'e mcs51" where
  "wink_mcs51_set_isr v isr_fn c =
    (if unat v < WINK_MCS51_NUM_VECTORS
     then let c = (if mc_isr_table c ! unat v \<noteq> None
                   then c\<lparr> mc_duplicate_vectors := mc_duplicate_vectors c + 1 \<rparr> else c)
          in c\<lparr> mc_isr_table := (mc_isr_table c)[unat v := isr_fn] \<rparr>
     else c)"

definition wink_mcs51_duplicate_vector_count :: "'e mcs51 \<Rightarrow> u32" where
  "wink_mcs51_duplicate_vector_count c = mc_duplicate_vectors c"

definition wink_mcs51_get_isr :: "u8 \<Rightarrow> 'e mcs51 \<Rightarrow> nat option" where
  "wink_mcs51_get_isr v c = (if unat v < WINK_MCS51_NUM_VECTORS then mc_isr_table c ! unat v else None)"

definition wink_mcs51_isr_enable :: "'e mcs51 \<Rightarrow> 'e mcs51" where
  "wink_mcs51_isr_enable c = c\<lparr> mc_interrupts_enabled := True \<rparr>"

definition wink_mcs51_isr_disable :: "'e mcs51 \<Rightarrow> 'e mcs51" where
  "wink_mcs51_isr_disable c = c\<lparr> mc_interrupts_enabled := False \<rparr>"

definition wink_mcs51_in_isr :: "'e mcs51 \<Rightarrow> bool" where
  "wink_mcs51_in_isr c \<longleftrightarrow> mc_depth c > 0"

definition wink_mcs51_dispatch_vector :: "'e mcs51_isrs \<Rightarrow> u8 \<Rightarrow> 'e mcs51 \<Rightarrow> nat \<times> 'e mcs51" where
  "wink_mcs51_dispatch_vector isrs v c =
    (if \<not> mc_interrupts_enabled c \<or> unat v \<ge> WINK_MCS51_NUM_VECTORS then (0, c)
     else if \<not> family_vector_reachable c v then (0, c)
     else case mc_isr_table c ! unat v of
       None \<Rightarrow> (0, c)
     | Some fn \<Rightarrow>
         let c = c\<lparr> mc_dispatch_count := (mc_dispatch_count c)[unat v := mc_dispatch_count c ! unat v + 1] \<rparr>;
             pushed = (mc_depth c = 0);
             c = (if pushed then c\<lparr> mc_prio_stack := (mc_prio_stack c)[0 := 0], mc_depth := 1 \<rparr> else c);
             c = isrs fn c
         in (1, if pushed then c\<lparr> mc_depth := 0 \<rparr> else c))"

definition wink_mcs51_isr_dispatch_count :: "u8 \<Rightarrow> 'e mcs51 \<Rightarrow> u32" where
  "wink_mcs51_isr_dispatch_count v c =
    (if unat v \<ge> WINK_MCS51_NUM_VECTORS then 0 else mc_dispatch_count c ! unat v)"

section \<open>The table of rows and the request latch\<close>

definition wink_mcs51_reset_irq_map :: "'e mcs51 \<Rightarrow> 'e mcs51" where
  "wink_mcs51_reset_irq_map c =
    (let c = c\<lparr> mc_irq_map := s_default_irq_map \<rparr>
     in if mc_irq_map_extend c then cms8s_irq_map_extend c else c)"

definition wink_mcs51_reset_irq_state :: "'e mcs51 \<Rightarrow> 'e mcs51" where
  "wink_mcs51_reset_irq_state c =
    wink_mcs51_reset_irq_map
      (c\<lparr> mc_pending := 0, mc_depth := 0, mc_reti_suppress := False, mc_prio_stack := replicate 4 0 \<rparr>)"

definition wink_mcs51_reset_isrs :: "'e mcs51 \<Rightarrow> 'e mcs51" where
  "wink_mcs51_reset_isrs c =
    wink_mcs51_reset_irq_state
      (c\<lparr> mc_isr_table := replicate WINK_MCS51_NUM_VECTORS None,
         mc_dispatch_count := replicate WINK_MCS51_NUM_VECTORS 0, mc_interrupts_enabled := False \<rparr>)"

definition wink_mcs51_set_irq_map_entry :: "nat \<Rightarrow> mcs51_irq_map_entry_t option \<Rightarrow> 'e mcs51 \<Rightarrow> 'e mcs51" where
  "wink_mcs51_set_irq_map_entry src entry c =
    (case entry of Some e \<Rightarrow> if src < IRQ_SOURCE__COUNT then c\<lparr> mc_irq_map := (mc_irq_map c)[src := e] \<rparr> else c
     | None \<Rightarrow> c)"

definition wink_mcs51_get_irq_map_entry :: "nat \<Rightarrow> 'e mcs51 \<Rightarrow> mcs51_irq_map_entry_t option" where
  "wink_mcs51_get_irq_map_entry src c = (if src < IRQ_SOURCE__COUNT then Some (mc_irq_map c ! src) else None)"

definition wink_mcs51_suppress_next_irq :: "'e mcs51 \<Rightarrow> 'e mcs51" where
  "wink_mcs51_suppress_next_irq c = c\<lparr> mc_reti_suppress := True \<rparr>"

definition wink_mcs51_clear_reti_suppress :: "'e mcs51 \<Rightarrow> 'e mcs51" where
  "wink_mcs51_clear_reti_suppress c = c\<lparr> mc_reti_suppress := False \<rparr>"

definition wink_mcs51_clear_irq :: "nat \<Rightarrow> 'e mcs51 \<Rightarrow> 'e mcs51" where
  "wink_mcs51_clear_irq src c =
    (if src < IRQ_SOURCE__COUNT then c\<lparr> mc_pending := unset_bit src (mc_pending c) \<rparr> else c)"

definition wink_mcs51_get_pending_interrupts :: "'e mcs51 \<Rightarrow> u32" where
  "wink_mcs51_get_pending_interrupts c = mc_pending c"

definition wink_mcs51_get_in_service_depth :: "'e mcs51 \<Rightarrow> nat" where
  "wink_mcs51_get_in_service_depth c = mc_depth c"

definition wink_mcs51_get_in_service_prio :: "nat \<Rightarrow> 'e mcs51 \<Rightarrow> nat" where
  "wink_mcs51_get_in_service_prio i c = (if i < mc_depth c then mc_prio_stack c ! i else 0)"

text \<open>An event of type zero wakes the core out of a low-power wait.\<close>

definition post_wake_event :: "'e mcs51 \<Rightarrow> 'e mcs51" where
  "post_wake_event c =
    (let (_, q, sems) = wink_event_post False
           (Some \<lparr> ev_type = 0, ev_device = 0, ev_param = 0, ev_pad = 0, ev_timestamp = 0 \<rparr>) (mc_mailbox c)
     in c\<lparr> mc_mailbox := q, mc_wakes := mc_wakes c @ sems \<rparr>)"

definition irq_set_flag :: "nat \<Rightarrow> mcs51_irq_map_entry_t \<Rightarrow> 'e mcs51 \<Rightarrow> 'e mcs51" where
  "irq_set_flag src entry c =
    (let set = sfr_set_bit (im_flag_sfr entry) (im_flag_bit entry)
     in if im_flag_sfr entry \<noteq> 0xFF \<and> src \<noteq> IRQ_SOURCE_UART0 \<and> src \<noteq> IRQ_SOURCE_TIMER2
        then if src = IRQ_SOURCE_INT0 then (if sfr_bit c SFR_TCON 0 then set c else c)
             else if src = IRQ_SOURCE_INT1 then (if sfr_bit c SFR_TCON 2 then set c else c)
             else set c
        else c)"

definition mcs51_raise_irq :: "nat \<Rightarrow> 'e mcs51 \<Rightarrow> 'e mcs51" where
  "mcs51_raise_irq src c =
    (if src \<ge> IRQ_SOURCE__COUNT then c
     else let c = wink_mcs51_spin_guard_note_event c;
              entry = mc_irq_map c ! src
          in if \<not> family_vector_reachable c (im_vector entry) then c
             else let c = irq_set_flag src entry c;
                      c = c\<lparr> mc_pending := set_bit src (mc_pending c) \<rparr>
                  in if sfr_bit c SFR_PCON 0 then post_wake_event c
                     else if sfr_bit c SFR_PCON 1 \<and> sfr_bit c SFR_IE IE_EA
                       \<and> (src = IRQ_SOURCE_INT0 \<or> src = IRQ_SOURCE_INT1) then post_wake_event c
                     else c)"

section \<open>Arbitration and dispatch\<close>

definition irq_prio :: "'e mcs51 \<Rightarrow> mcs51_irq_map_entry_t \<Rightarrow> nat" where
  "irq_prio c entry =
    (if im_prio_sfr entry \<noteq> 0xFF then of_bool (sfr_bit c (im_prio_sfr entry) (im_prio_bit entry)) else 0)"

definition irq_flag_set :: "'e mcs51 \<Rightarrow> nat \<Rightarrow> mcs51_irq_map_entry_t \<Rightarrow> bool" where
  "irq_flag_set c s entry =
    (if s = IRQ_SOURCE_UART0 \<and> im_flag_sfr entry = SFR_SCON then sfr_bit c SFR_SCON 0 \<or> sfr_bit c SFR_SCON 1
     else if s = IRQ_SOURCE_INT0 then \<not> sfr_bit c SFR_TCON 0 \<or> sfr_bit c SFR_TCON 1
     else if s = IRQ_SOURCE_INT1 then \<not> sfr_bit c SFR_TCON 2 \<or> sfr_bit c SFR_TCON 3
     else if mc_flag_predicate c then cms8s_irq_flag_predicate c s entry
     else sfr_bit c (im_flag_sfr entry) (im_flag_bit entry))"

definition irq_enabled :: "'e mcs51 \<Rightarrow> mcs51_irq_map_entry_t \<Rightarrow> bool" where
  "irq_enabled c entry \<longleftrightarrow> im_ie_sfr entry = 0xFF \<or> sfr_bit c (im_ie_sfr entry) (im_ie_bit entry)"

definition irq_flag_valid :: "'e mcs51 \<Rightarrow> nat \<Rightarrow> mcs51_irq_map_entry_t \<Rightarrow> bool" where
  "irq_flag_valid c s entry \<longleftrightarrow> im_flag_sfr entry = 0xFF \<or> irq_flag_set c s entry"

definition irq_scan_step ::
  "int \<Rightarrow> nat \<Rightarrow> 'e mcs51 \<times> (nat \<times> nat \<times> u8) option \<Rightarrow> 'e mcs51 \<times> (nat \<times> nat \<times> u8) option" where
  "irq_scan_step current_prio s = (\<lambda>(c, best).
    if \<not> bit (mc_pending c) s then (c, best)
    else let entry = mc_irq_map c ! s
         in if \<not> family_vector_reachable c (im_vector entry)
            then (c\<lparr> mc_pending := unset_bit s (mc_pending c) \<rparr>, best)
            else if \<not> irq_enabled c entry then (c, best)
            else if \<not> irq_flag_valid c s entry then (c\<lparr> mc_pending := unset_bit s (mc_pending c) \<rparr>, best)
            else let prio = irq_prio c entry
                 in if int prio \<le> current_prio then (c, best)
                    else (c, case best of None \<Rightarrow> Some (s, prio, im_vector entry)
                          | Some (_, best_prio, best_vector) \<Rightarrow>
                              if prio > best_prio \<or> prio = best_prio \<and> im_vector entry < best_vector
                              then Some (s, prio, im_vector entry) else best))"

definition irq_scan :: "'e mcs51 \<Rightarrow> 'e mcs51 \<times> (nat \<times> nat \<times> u8) option" where
  "irq_scan c =
    (let current_prio = (if mc_depth c > 0 then int (mc_prio_stack c ! (mc_depth c - 1)) else -1)
     in fold (irq_scan_step current_prio) [0 ..< IRQ_SOURCE__COUNT] (c, None))"

text \<open>Before the routine: the request is taken back, its flag cleared by the hardware, its priority pushed.\<close>

definition irq_enter :: "nat \<Rightarrow> nat \<Rightarrow> 'e mcs51 \<Rightarrow> 'e mcs51" where
  "irq_enter s prio c =
    (let entry = mc_irq_map c ! s;
         c = c\<lparr> mc_pending := unset_bit s (mc_pending c) \<rparr>;
         c = (if im_clear_mode entry = MCS51_IRQ_HW_AUTO_CLEAR \<and> im_flag_sfr entry \<noteq> 0xFF
              then sfr_clear_bit (im_flag_sfr entry) (im_flag_bit entry) c else c)
     in if mc_depth c < 4
        then c\<lparr> mc_prio_stack := (mc_prio_stack c)[mc_depth c := prio], mc_depth := mc_depth c + 1 \<rparr> else c)"

text \<open>After it: the return from interrupt.\<close>

definition irq_leave :: "'e mcs51 \<Rightarrow> 'e mcs51" where
  "irq_leave c =
    (let c = (if mc_depth c > 0 then c\<lparr> mc_depth := mc_depth c - 1 \<rparr> else c) in c\<lparr> mc_reti_suppress := True \<rparr>)"

definition mcs51_irq_scan_and_dispatch :: "'e mcs51_isrs \<Rightarrow> 'e mcs51 \<Rightarrow> nat \<times> 'e mcs51" where
  "mcs51_irq_scan_and_dispatch isrs c =
    (if \<not> mc_interrupts_enabled c then (0, c)
     else if mc_reti_suppress c then (0, c\<lparr> mc_reti_suppress := False \<rparr>)
     else if \<not> sfr_bit c SFR_IE IE_EA then (0, c)
     else if mc_pending c = 0 then (0, c)
     else case irq_scan c of
       (c, None) \<Rightarrow> (0, c)
     | (c, Some (s, prio, _)) \<Rightarrow>
         let v = im_vector (mc_irq_map c ! s)
         in (1, irq_leave (snd (wink_mcs51_dispatch_vector isrs v (irq_enter s prio c)))))"

section \<open>Ranks\<close>

text \<open>A request ranks before another if its priority is higher, or if it is the same and its vector is
  lower, or if that is the same too and its source is lower.\<close>

datatype irq_rank = Irq_Rank (rk_prio: nat) (rk_vector: u8) (rk_source: nat)

instantiation irq_rank :: linorder
begin

definition less_eq_irq_rank :: "irq_rank \<Rightarrow> irq_rank \<Rightarrow> bool" where
  "less_eq_irq_rank a b \<longleftrightarrow> rk_prio b < rk_prio a \<or> rk_prio a = rk_prio b
     \<and> (rk_vector a < rk_vector b \<or> rk_vector a = rk_vector b \<and> rk_source a \<le> rk_source b)"

definition less_irq_rank :: "irq_rank \<Rightarrow> irq_rank \<Rightarrow> bool" where
  "less_irq_rank a b \<longleftrightarrow> rk_prio b < rk_prio a \<or> rk_prio a = rk_prio b
     \<and> (rk_vector a < rk_vector b \<or> rk_vector a = rk_vector b \<and> rk_source a < rk_source b)"

instance
  by standard (auto simp: less_eq_irq_rank_def less_irq_rank_def intro: irq_rank.expand)

end

text \<open>What the dispatch point asks of a request: that it may be served, that it is stale, its rank.\<close>

definition irq_running_prio :: "'e mcs51 \<Rightarrow> int" where
  "irq_running_prio c = (if mc_depth c > 0 then int (mc_prio_stack c ! (mc_depth c - 1)) else -1)"

definition irq_stale :: "'e mcs51 \<Rightarrow> nat \<Rightarrow> bool" where
  "irq_stale c s \<longleftrightarrow> bit (mc_pending c) s
     \<and> (\<not> family_vector_reachable c (im_vector (mc_irq_map c ! s)) \<or> irq_enabled c (mc_irq_map c ! s) \<and> \<not> irq_flag_valid c s (mc_irq_map c ! s))"

definition irq_eligible :: "'e mcs51 \<Rightarrow> nat \<Rightarrow> bool" where
  "irq_eligible c s \<longleftrightarrow> s < IRQ_SOURCE__COUNT \<and> bit (mc_pending c) s
     \<and> family_vector_reachable c (im_vector (mc_irq_map c ! s)) \<and> irq_enabled c (mc_irq_map c ! s)
     \<and> irq_flag_valid c s (mc_irq_map c ! s)
     \<and> irq_running_prio c < int (irq_prio c (mc_irq_map c ! s))"

definition irq_rank :: "'e mcs51 \<Rightarrow> nat \<Rightarrow> irq_rank" where
  "irq_rank c s = Irq_Rank (irq_prio c (mc_irq_map c ! s)) (im_vector (mc_irq_map c ! s)) s"

definition drop_stale :: "'e mcs51 \<Rightarrow> 'e mcs51" where
  "drop_stale c = c\<lparr> mc_pending := fold (\<lambda>s p. if irq_stale c s then unset_bit s p else p) [0 ..< IRQ_SOURCE__COUNT]
     (mc_pending c) \<rparr>"

text \<open>The scan: the stale requests are dropped and the least rank is chosen.\<close>

lemma sfr_bit_pending [simp]: "sfr_bit (c\<lparr> mc_pending := p \<rparr>) a b = sfr_bit c a b"
  by (simp add: sfr_bit_def)

lemma scan_views_pending [simp]:
  "family_vector_reachable (c\<lparr> mc_pending := p \<rparr>) v = family_vector_reachable c v"
  "irq_prio (c\<lparr> mc_pending := p \<rparr>) e = irq_prio c e"
  "irq_flag_valid (c\<lparr> mc_pending := p \<rparr>) s e = irq_flag_valid c s e"
  "irq_enabled (c\<lparr> mc_pending := p \<rparr>) e = irq_enabled c e"
  by (simp_all add: irq_enabled_def irq_flag_valid_def family_vector_reachable_def irq_prio_def irq_flag_set_def cms8s_irq_flag_predicate_def)

definition rank_best :: "irq_rank \<Rightarrow> nat \<times> nat \<times> u8" where
  "rank_best r = (rk_source r, rk_prio r, rk_vector r)"

definition min_rank :: "irq_rank set \<Rightarrow> irq_rank option" where
  "min_rank R = (if R = {} then None else Some (Min R))"

lemma min_rank_insert:
  "finite R \<Longrightarrow> min_rank (insert r R) = Some (case min_rank R of None \<Rightarrow> r | Some m \<Rightarrow> min r m)"
  by (simp add: min_rank_def Min_insert)

lemma bit_fold_unset:
  "bit (fold (\<lambda>s p. if P s then unset_bit s p else p) xs w) n \<longleftrightarrow> bit w n \<and> \<not> (n \<in> set xs \<and> P n)" for w :: u32
  by (induction xs arbitrary: w) (auto simp: bit_unset_bit_iff)

lemma rank_replaces:
  "\<not> (rk_prio m < p \<or> p = rk_prio m \<and> v < rk_vector m) \<Longrightarrow> rk_source m < n \<Longrightarrow> min (Irq_Rank p v n) m = m"
  "rk_prio m < p \<or> p = rk_prio m \<and> v < rk_vector m \<Longrightarrow> min (Irq_Rank p v n) m = Irq_Rank p v n"
  by (auto simp: min_def less_eq_irq_rank_def)

lemma min_rank_in: "finite R \<Longrightarrow> min_rank R = Some m \<Longrightarrow> m \<in> R"
  using Min_in by (auto simp: min_rank_def split: if_splits)

definition better :: "nat \<times> nat \<times> u8 \<Rightarrow> (nat \<times> nat \<times> u8) option \<Rightarrow> (nat \<times> nat \<times> u8) option" where
  "better new best = (case best of None \<Rightarrow> Some new
     | Some (_, p, v) \<Rightarrow> if fst (snd new) > p \<or> fst (snd new) = p \<and> snd (snd new) < v then Some new else best)"

lemma scan_step_eq:
  assumes "s < IRQ_SOURCE__COUNT" "bit p s = bit (mc_pending c) s"
  defines "e \<equiv> mc_irq_map c ! s"
  shows "irq_scan_step (irq_running_prio c) s (c\<lparr> mc_pending := p \<rparr>, best)
    = (c\<lparr> mc_pending := if irq_stale c s then unset_bit s p else p \<rparr>,
       if irq_eligible c s then better (s, irq_prio c e, im_vector e) best else best)"
proof -
  have "(case best of None \<Rightarrow> Some (s, irq_prio c e, im_vector e)
      | Some (uu, best_prio, best_vector) \<Rightarrow> if irq_prio c e > best_prio \<or> irq_prio c e = best_prio \<and> im_vector e < best_vector
            then Some (s, irq_prio c e, im_vector e) else best) = better (s, irq_prio c e, im_vector e) best"
    by (cases best) (auto simp: better_def)
  note better = this [unfolded e_def]
  show ?thesis
    using assms(1,2) by (auto simp: better irq_scan_step_def Let_def irq_stale_def irq_eligible_def e_def)
qed

lemma scan_prefix:
  assumes "n \<le> IRQ_SOURCE__COUNT"
  shows "fold (irq_scan_step (irq_running_prio c)) [0 ..< n] (c, None)
    = (c\<lparr> mc_pending := fold (\<lambda>s p. if irq_stale c s then unset_bit s p else p) [0 ..< n] (mc_pending c) \<rparr>,
       map_option rank_best (min_rank (irq_rank c ` {s. s < n \<and> irq_eligible c s})))"
  using assms
proof (induction n)
  case (Suc n)
  let ?p = "fold (\<lambda>s p. if irq_stale c s then unset_bit s p else p) [0 ..< n] (mc_pending c)"
  let ?e = "mc_irq_map c ! n" and ?R = "irq_rank c ` {s. s < n \<and> irq_eligible c s}"
  have p: "bit ?p n = bit (mc_pending c) n" by (simp add: bit_fold_unset)
  have n: "n < IRQ_SOURCE__COUNT" and fin: "finite ?R" using Suc.prems by simp_all
  have split: "{s. s < Suc n \<and> irq_eligible c s} = (if irq_eligible c n then insert n {s. s < n \<and> irq_eligible c s}
      else {s. s < n \<and> irq_eligible c s})" by (auto simp: less_Suc_eq)
  have best: "better (n, irq_prio c ?e, im_vector ?e) (map_option rank_best (min_rank ?R))
      = map_option rank_best (min_rank (insert (irq_rank c n) ?R))"
  proof (cases "min_rank ?R")
    case None
    then show ?thesis using fin by (simp add: min_rank_insert rank_best_def irq_rank_def better_def)
  next
    case (Some m)
    then have "rk_source m < n" using min_rank_in [OF fin Some] by (auto simp: irq_rank_def)
    with Some fin rank_replaces [of m "irq_prio c ?e" "im_vector ?e" n] show ?thesis
      by (auto simp: min_rank_insert rank_best_def irq_rank_def better_def)
  qed
  show ?case
    using Suc.IH n by (simp add: scan_step_eq [OF n p] best split)
qed (simp add: min_rank_def)

lemma irq_scan_eq: "irq_scan c = (drop_stale c, map_option rank_best (min_rank (irq_rank c ` {s. irq_eligible c s})))"
proof -
  have "{s. s < IRQ_SOURCE__COUNT \<and> irq_eligible c s} = {s. irq_eligible c s}" by (auto simp: irq_eligible_def)
  with scan_prefix [of IRQ_SOURCE__COUNT c] show ?thesis
    by (simp add: irq_scan_def drop_stale_def irq_running_prio_def)
qed

lemma drop_stale_pending:
  "bit (mc_pending (drop_stale c)) s \<longleftrightarrow> bit (mc_pending c) s \<and> \<not> (s < IRQ_SOURCE__COUNT \<and> irq_stale c s)"
  by (simp add: drop_stale_def bit_fold_unset)

lemma eligible_rank: "min_rank (irq_rank c ` {s. irq_eligible c s}) = Some r \<Longrightarrow> irq_eligible c (rk_source r) \<and> r = irq_rank c (rk_source r)"
proof -
  assume r: "min_rank (irq_rank c ` {s. irq_eligible c s}) = Some r"
  have "finite {s. irq_eligible c s}" by (rule finite_subset [of _ "{..< IRQ_SOURCE__COUNT}"]) (auto simp: irq_eligible_def)
  with r have "r \<in> irq_rank c ` {s. irq_eligible c s}" by (intro min_rank_in) simp_all
  then show ?thesis by (auto simp: irq_rank_def)
qed

text \<open>A single request, of a routine that works on the firmware's own memory.\<close>

lemma irq_scan_single:
  assumes "mc_depth c = 0" "s < IRQ_SOURCE__COUNT" "\<And>k. bit (mc_pending c) k \<longleftrightarrow> k = s"
    and "family_vector_reachable c (im_vector (mc_irq_map c ! s))" "irq_enabled c (mc_irq_map c ! s)"
    "irq_flag_valid c s (mc_irq_map c ! s)"
  shows "irq_scan c = (c, Some (s, irq_prio c (mc_irq_map c ! s), im_vector (mc_irq_map c ! s)))"
proof -
  have "\<not> irq_stale c k" for k using assms by (auto simp: irq_stale_def)
  then have "mc_pending (drop_stale c) = mc_pending c" by (intro bit_word_eqI) (simp add: drop_stale_pending)
  then have "drop_stale c = c" by (simp add: drop_stale_def)
  moreover have "{k. irq_eligible c k} = {s}" using assms by (auto simp: irq_eligible_def irq_running_prio_def)
  ultimately show ?thesis by (simp add: irq_scan_eq min_rank_def irq_rank_def rank_best_def)
qed

lemma serve_single:
  assumes gate: "mc_interrupts_enabled c" "\<not> mc_reti_suppress c" "sfr_bit c SFR_IE IE_EA"
    and one: "mc_depth c = 0" "s < IRQ_SOURCE__COUNT" "\<And>k. bit (mc_pending c) k \<longleftrightarrow> k = s"
    "family_vector_reachable c (im_vector (mc_irq_map c ! s))" "irq_enabled c (mc_irq_map c ! s)"
    "irq_flag_valid c s (mc_irq_map c ! s)"
    and row: "im_clear_mode (mc_irq_map c ! s) = MCS51_IRQ_HW_AUTO_CLEAR" "im_flag_sfr (mc_irq_map c ! s) \<noteq> 0xFF"
    and isr: "mc_isr_table c ! unat (im_vector (mc_irq_map c ! s)) = Some fn" "\<And>x. isrs fn x = x\<lparr> mc_app := body (mc_app x) \<rparr>"
  shows "\<exists>stk cnt. snd (mcs51_irq_scan_and_dispatch isrs c) = sfr_clear_bit (im_flag_sfr (mc_irq_map c ! s))
      (im_flag_bit (mc_irq_map c ! s)) (c\<lparr> mc_pending := 0, mc_prio_stack := stk, mc_dispatch_count := cnt,
        mc_app := body (mc_app c), mc_reti_suppress := True \<rparr>)"
proof -
  let ?e = "mc_irq_map c ! s"
  let ?f = "sfr_clear_bit (im_flag_sfr ?e) (im_flag_bit ?e) (c\<lparr> mc_pending := 0 \<rparr>)"
  have pend: "mc_pending c \<noteq> 0" using one(3) [of s] by auto
  have zero: "unset_bit s (mc_pending c) = 0" by (rule bit_word_eqI) (auto simp: bit_unset_bit_iff one(3))
  have enter: "irq_enter s (irq_prio c ?e) c
      = ?f\<lparr> mc_prio_stack := (mc_prio_stack c)[0 := irq_prio c ?e], mc_depth := 1 \<rparr>"
    using row one(1) by (simp add: irq_enter_def Let_def zero sfr_clear_bit_def)
  have vec: "unat (im_vector ?e) < WINK_MCS51_NUM_VECTORS" using one(4) by (simp add: family_vector_reachable_def)
  have reach: "family_vector_reachable (?f\<lparr> mc_prio_stack := x, mc_depth := n \<rparr>) (im_vector ?e)" for x n
    using one(4) by (simp add: family_vector_reachable_def sfr_clear_bit_def)
  have st: "\<exists>stk cnt. snd (wink_mcs51_dispatch_vector isrs (im_vector ?e) (irq_enter s (irq_prio c ?e) c))
      = ?f\<lparr> mc_prio_stack := stk, mc_depth := 1, mc_dispatch_count := cnt, mc_app := body (mc_app c) \<rparr>"
    unfolding enter using gate(1) vec reach isr
    by (auto simp: wink_mcs51_dispatch_vector_def Let_def sfr_clear_bit_def not_le)
  then obtain stk cnt where d: "snd (wink_mcs51_dispatch_vector isrs (im_vector ?e) (irq_enter s (irq_prio c ?e) c))
      = ?f\<lparr> mc_prio_stack := stk, mc_depth := 1, mc_dispatch_count := cnt, mc_app := body (mc_app c) \<rparr>" by blast
  have "snd (mcs51_irq_scan_and_dispatch isrs c) = irq_leave (?f\<lparr> mc_prio_stack := stk, mc_depth := 1, mc_dispatch_count := cnt,
      mc_app := body (mc_app c) \<rparr>)"
    using gate pend by (simp add: mcs51_irq_scan_and_dispatch_def irq_scan_single [OF one] d Let_def)
  also have "\<dots> = sfr_clear_bit (im_flag_sfr ?e) (im_flag_bit ?e) (c\<lparr> mc_pending := 0, mc_prio_stack := stk,
      mc_dispatch_count := cnt, mc_app := body (mc_app c), mc_reti_suppress := True \<rparr>)"
    using one(1) by (simp add: irq_leave_def sfr_clear_bit_def)
  finally show ?thesis by blast
qed

text \<open>C32: a dispatch point serves the first of the requests it may serve. It does nothing while dispatch is
  off or interrupts are disabled, and spends the suppression after a return; otherwise it drops the
  stale requests, and if any request is reachable in the family, enabled, flagged and of a higher
  priority than the routine in service, it runs the routine of the least rank among them, between
  the entry that takes the request back and the return.\<close>
theorem irq_dispatch_serves_least_rank:
  "mcs51_irq_scan_and_dispatch isrs c =
    (if \<not> mc_interrupts_enabled c then (0, c)
     else if mc_reti_suppress c then (0, c\<lparr> mc_reti_suppress := False \<rparr>)
     else if \<not> sfr_bit c SFR_IE IE_EA then (0, c)
     else case min_rank (irq_rank c ` {s. irq_eligible c s}) of
       None \<Rightarrow> (0, drop_stale c)
     | Some r \<Rightarrow> (1, irq_leave (snd (wink_mcs51_dispatch_vector isrs (rk_vector r)
                        (irq_enter (rk_source r) (rk_prio r) (drop_stale c))))))"
proof -
  have none: "\<not> irq_eligible c s" "drop_stale c = c" if "mc_pending c = 0" for s
  proof -
    show "\<not> irq_eligible c s" using that by (auto simp: irq_eligible_def)
    have "mc_pending (drop_stale c) = 0" by (rule bit_word_eqI) (simp add: drop_stale_pending that)
    then have "drop_stale c = c\<lparr> mc_pending := 0 \<rparr>" by (simp add: drop_stale_def)
    then show "drop_stale c = c" using that by simp
  qed
  have row: "im_vector (mc_irq_map (drop_stale c) ! rk_source r) = rk_vector r"
    if "min_rank (irq_rank c ` {s. irq_eligible c s}) = Some r" for r
    using arg_cong [OF conjunct2 [OF eligible_rank [OF that]], of rk_vector] by (simp add: drop_stale_def irq_rank_def)
  show ?thesis
    by (auto simp: mcs51_irq_scan_and_dispatch_def irq_scan_eq none row min_rank_def rank_best_def Let_def split: option.split)
qed

section \<open>Nesting\<close>

text \<open>What firmware and peripherals do between the dispatch points leaves the stack of priorities
  in service alone; routines begin at a dispatch point, or directly when none is running.\<close>

inductive irq_step :: "'e mcs51 \<Rightarrow> 'e mcs51 \<Rightarrow> bool" where
  work: "mc_depth c' = mc_depth c \<Longrightarrow> mc_prio_stack c' = mc_prio_stack c \<Longrightarrow> irq_step c c'"
| enter: "irq_scan c = (c', Some (s, prio, v)) \<Longrightarrow> irq_step c (irq_enter s prio c')"
| leave: "mc_depth c > 0 \<Longrightarrow> irq_step c (irq_leave c)"
| direct: "mc_depth c = 0 \<Longrightarrow> irq_step c (c\<lparr> mc_prio_stack := (mc_prio_stack c)[0 := 0], mc_depth := 1 \<rparr>)"

definition nesting_ok :: "'e mcs51 \<Rightarrow> bool" where
  "nesting_ok c \<longleftrightarrow> length (mc_prio_stack c) = 4 \<and> mc_depth c \<le> 2
     \<and> (\<forall>i < mc_depth c. mc_prio_stack c ! i \<le> 1) \<and> (mc_depth c = 2 \<longrightarrow> mc_prio_stack c ! 0 < mc_prio_stack c ! 1)"

lemma irq_enter_stack:
  assumes "mc_depth c < 4"
  shows "mc_depth (irq_enter s prio c) = mc_depth c + 1"
    "mc_prio_stack (irq_enter s prio c) = (mc_prio_stack c)[mc_depth c := prio]"
  using assms by (simp_all add: irq_enter_def Let_def sfr_clear_bit_def)

lemma irq_leave_stack [simp]:
  "mc_depth (irq_leave c) = mc_depth c - 1" "mc_prio_stack (irq_leave c) = mc_prio_stack c"
  by (simp_all add: irq_leave_def Let_def)

lemma drop_stale_stack [simp]: "mc_depth (drop_stale c) = mc_depth c" "mc_prio_stack (drop_stale c) = mc_prio_stack c"
  by (simp_all add: drop_stale_def)

lemma irq_scan_higher:
  assumes "irq_scan c = (c', Some (s, prio, v))"
  shows "c' = drop_stale c" "irq_running_prio c < int prio" "prio \<le> 1"
proof -
  from assms obtain r where r: "min_rank (irq_rank c ` {s. irq_eligible c s}) = Some r" "rank_best r = (s, prio, v)"
    and c': "c' = drop_stale c" by (auto simp: irq_scan_eq)
  from eligible_rank [OF r(1)] have e: "irq_eligible c (rk_source r)" "r = irq_rank c (rk_source r)" by simp_all
  from e(2) have "rk_prio r = irq_prio c (mc_irq_map c ! rk_source r)"
    unfolding irq_rank_def by (metis irq_rank.sel(1))
  then have p: "prio = irq_prio c (mc_irq_map c ! rk_source r)" using r(2) by (auto simp: rank_best_def)
  show "c' = drop_stale c" by (rule c')
  show "irq_running_prio c < int prio" using e(1) p by (simp add: irq_eligible_def)
  show "prio \<le> 1" by (simp add: p irq_prio_def)
qed

lemma nesting_ok_step:
  assumes "nesting_ok c" "irq_step c c'"
  shows "nesting_ok c'"
  using assms(2)
proof (cases rule: irq_step.cases)
  case work
  with assms(1) show ?thesis by (simp add: nesting_ok_def)
next
  case (enter d s prio v)
  note h = irq_scan_higher [OF enter(2)]
  have d: "mc_depth c < 2"
  proof (rule ccontr)
    assume "\<not> mc_depth c < 2"
    with assms(1) have "mc_depth c = 2" "mc_prio_stack c ! 0 < mc_prio_stack c ! 1" by (simp_all add: nesting_ok_def)
    with h(2,3) show False by (simp add: irq_running_prio_def)
  qed
  have st: "mc_depth c' = mc_depth c + 1" "mc_prio_stack c' = (mc_prio_stack c)[mc_depth c := prio]"
    using irq_enter_stack [of d s prio] d enter(1) h(1) by simp_all
  show ?thesis using assms(1) d st h(2,3)
    by (auto simp: nesting_ok_def irq_running_prio_def nth_list_update less_Suc_eq split: if_splits)
next
  case leave
  with assms(1) show ?thesis by (auto simp: nesting_ok_def)
next
  case direct
  with assms(1) show ?thesis by (simp add: nesting_ok_def)
qed

lemma nesting_ok_run: "irq_step\<^sup>*\<^sup>* c c' \<Longrightarrow> nesting_ok c \<Longrightarrow> nesting_ok c'"
  by (induction rule: rtranclp_induct) (auto intro: nesting_ok_step)

text \<open>A dispatch point is such a run itself, if the routines are.\<close>

lemma dispatch_vector_run:
  assumes "\<And>fn x. irq_step\<^sup>*\<^sup>* x (isrs fn x) \<and> mc_depth (isrs fn x) = mc_depth x" "mc_depth c > 0"
  shows "irq_step\<^sup>*\<^sup>* c (snd (wink_mcs51_dispatch_vector isrs v c)) \<and> mc_depth (snd (wink_mcs51_dispatch_vector isrs v c)) = mc_depth c"
proof -
  let ?n = "unat v"
  let ?c = "c\<lparr> mc_dispatch_count := (mc_dispatch_count c)[?n := mc_dispatch_count c ! ?n + 1] \<rparr>"
  have "irq_step c ?c" by (rule irq_step.work) simp_all
  then have "irq_step\<^sup>*\<^sup>* c (isrs fn ?c) \<and> mc_depth (isrs fn ?c) = mc_depth c" for fn
    using assms(1) [of ?c fn] by (auto intro: converse_rtranclp_into_rtranclp)
  then show ?thesis
    using assms(2) by (auto simp: wink_mcs51_dispatch_vector_def Let_def split: option.split)
qed

lemma dispatch_run:
  assumes isrs: "\<And>fn x. irq_step\<^sup>*\<^sup>* x (isrs fn x) \<and> mc_depth (isrs fn x) = mc_depth x" and c: "nesting_ok c"
  shows "irq_step\<^sup>*\<^sup>* c (snd (mcs51_irq_scan_and_dispatch isrs c))
    \<and> mc_depth (snd (mcs51_irq_scan_and_dispatch isrs c)) = mc_depth c"
proof (cases "irq_scan c")
  case (Pair d best)
  have work: "irq_step\<^sup>*\<^sup>* c d'" if "mc_depth d' = mc_depth c" "mc_prio_stack d' = mc_prio_stack c" for d'
    using irq_step.work [OF that] by blast
  have d: "d = drop_stale c" using Pair by (simp add: irq_scan_eq)
  show ?thesis
  proof (cases best)
    case None
    with Pair d work show ?thesis by (simp add: mcs51_irq_scan_and_dispatch_def)
  next
    case (Some b)
    obtain s prio v where b: "b = (s, prio, v)" by (cases b)
    let ?e = "irq_enter s prio d"
    let ?r = "snd (wink_mcs51_dispatch_vector isrs (im_vector (mc_irq_map d ! s)) ?e)"
    have depth: "mc_depth ?e = mc_depth c + 1" using c d by (simp add: irq_enter_stack nesting_ok_def)
    have "irq_step c ?e" using Pair Some b by (intro irq_step.enter) simp
    moreover have run: "irq_step\<^sup>*\<^sup>* ?e ?r \<and> mc_depth ?r = mc_depth ?e"
      by (rule dispatch_vector_run [OF isrs]) (simp add: depth)
    moreover have "irq_step ?r (irq_leave ?r)" using run depth by (intro irq_step.leave) simp
    ultimately have "irq_step\<^sup>*\<^sup>* c (irq_leave ?r) \<and> mc_depth (irq_leave ?r) = mc_depth c"
      using depth by (auto intro: converse_rtranclp_into_rtranclp rtranclp.rtrancl_into_rtrancl)
    then show ?thesis
      using Pair Some b work by (simp add: mcs51_irq_scan_and_dispatch_def Let_def)
  qed
qed

text \<open>C33: interrupts nest at most twice. In every history that begins with no routine in service,
  whatever firmware and peripherals do, at most two routines are in service and the one that
  interrupted is of the higher priority, so the four slots never overflow; a dispatch point is a
  step of such a history that ends at the depth it began with, if every routine is.\<close>
theorem irq_nesting_bounded:
  assumes "irq_step\<^sup>*\<^sup>* c0 c" "mc_depth c0 = 0" "length (mc_prio_stack c0) = 4"
    and "\<And>fn x. irq_step\<^sup>*\<^sup>* x (isrs fn x) \<and> mc_depth (isrs fn x) = mc_depth x"
  shows "mc_depth c \<le> 2 \<and> sorted_wrt (<) (take (mc_depth c) (mc_prio_stack c))
    \<and> irq_step\<^sup>*\<^sup>* c (snd (mcs51_irq_scan_and_dispatch isrs c))
    \<and> mc_depth (snd (mcs51_irq_scan_and_dispatch isrs c)) = mc_depth c"
proof -
  have ok: "nesting_ok c" using nesting_ok_run [OF assms(1)] assms(2,3) by (simp add: nesting_ok_def)
  then have "mc_depth c = 0 \<or> mc_depth c = 1 \<or> mc_depth c = 2" by (auto simp: nesting_ok_def)
  then have "sorted_wrt (<) (take (mc_depth c) (mc_prio_stack c))"
    using ok by (auto simp: nesting_ok_def sorted_wrt_iff_nth_less less_Suc_eq numeral_2_eq_2)
  with ok dispatch_run [OF assms(4) ok] show ?thesis by (simp add: nesting_ok_def)
qed

text \<open>A classic part with timer 0 enabled and its request pending.\<close>

definition demo_mcs51 :: "'e \<Rightarrow> 'e mcs51" where
  "demo_mcs51 app = \<lparr> mc_sfr = (\<lambda>_. 0)(0xA8 := 0x82, 0x88 := 0x20), mc_xdata = (\<lambda>_. 0),
     mc_isr_table = (replicate 28 None)[1 := Some 7], mc_pending = 2, mc_prio_stack = replicate 4 0, mc_depth = 0,
     mc_interrupts_enabled = True, mc_reti_suppress = False, mc_dispatch_count = replicate 28 0,
     mc_irq_map = s_default_irq_map, mc_duplicate_vectors = 0, mc_irq_map_extend = False, mc_flag_predicate = False,
     mc_virtual_us = 0, mc_clock_hz = 0,
     mc_timer = \<lparr> ts_channels = replicate 2 \<lparr> tc_running = False, tc_external_clk = False, tc_mode = 0,
         tc_next_ovf_us = -1, tc_tr_prev = 0, tc_last_pin_level = 0xFF \<rparr>,
       ts_t2_running = False, ts_t2_next_ovf_us = -1, ts_t2_tr_prev = 0, ts_t2_last_pin_level = 0xFF,
       ts_t0_ps_addr = 0xFFFF, ts_t1_ps_addr = 0xFFFF, ts_t2_ps_addr = 0xFFFF \<rparr>,
     mc_extint = \<lparr> xi_lines = [], xi_sample_due = False, xi_in_poll = False \<rparr>,
     mc_uart = \<lparr> ur_capture = replicate 4096 0, ur_count = 0, ur_rx_fifo = replicate 64 0, ur_rx_head = 0, ur_rx_tail = 0, ur_rx_dropped = 0,
       ur_rx_last_deliver_us = 0, ur_rx_have_delivered = False \<rparr>,
     mc_edge_queue = replicate 64 \<lparr> me_fire_us = 0, me_pin = 0, me_level = 0 \<rparr>, mc_edge_head = 0, mc_edge_tail = 0,
     mc_family = MCS51_FAMILY_CLASSIC, mc_spin_addrs = [0, 0, 0], mc_spin_addr_count = 0, mc_spin_tripped = False,
     mc_spin_reads = 0, mc_spin_window_start_us = 0, mc_ext_pins = replicate 32 2,
     mc_mailbox = \<lparr> eq_ringbuf = None, eq_sem = None, eq_capacity = 0, eq_initialized = False \<rparr>,
     mc_wakes = [], mc_unsupported = replicate 64 0,
     mc_caps_cache = 0, mc_uart_hooked = False,
     mc_sched = \<lparr> sc_slice_start_us = 0, sc_quota_yields = 0, sc_step_count = 0, sc_microstep_us = 0,
       sc_in_fiber = True, sc_catchup = True, sc_bills = [] \<rparr>,
     mc_uart_diag = \<lparr> ud_notready = replicate 4 0, ud_overwrite = 0, ud_last_baud_hz = 0, ud_console = [],
       ud_tx_count = 0, ud_tx_port = replicate 256 0, ud_tx_byte = replicate 256 0 \<rparr>,
     mc_gpio = \<lparr> gp_traps = replicate 4 (replicate 8 \<lparr> pt_on_write = None, pt_on_read = None \<rparr>), gp_hooked = False,
       gp_suppressed = 0, gp_analog_read = 0, gp_notifies = 0, gp_notify_pin = replicate 128 0,
       gp_notify_level = replicate 128 0, gp_notify_strength = replicate 128 0,
       gp_releases = 0, gp_release_pin = replicate 128 0,
       gp_meters = replicate 32 \<lparr> pw_active = False, pw_current_level = 0, pw_last_flip_us = 0, pw_high_time_us = 0,
         pw_low_time_us = 0, pw_transitions = 0 \<rparr> \<rparr>,
     mc_xdata_bus = \<lparr> xd_extbus = \<lparr> xb_xbus_used = False, xb_gpio_bus_mask = 0 \<rparr>, xd_bus_conflict = 0,
       xd_oob_count = 0, xd_unmodeled_count = 0, xd_unmodeled_first = [] \<rparr>,
     mc_hooks = \<lparr> hk_sfr_write = (\<lambda>_. None), hk_sfr_read = (\<lambda>_. None), hk_write_notify = None \<rparr>,
     mc_reset = \<lparr> rs_pending = False, rs_reason = 0, rs_last_reason = 0, rs_guard = False, rs_chip_models_missing = 0 \<rparr>,
     mc_spin_diag = \<lparr> sd_trips = 0, sd_trip_reads = 0, sd_trip_addr = 0xFF \<rparr>, mc_app = app \<rparr>"

lemma irq_nesting_bounded_witness:
  "\<exists>c. irq_step\<^sup>*\<^sup>* (demo_mcs51 ()) c \<and> mc_depth c = 1 \<and> mc_depth (snd (mcs51_irq_scan_and_dispatch (\<lambda>_ x. x) c)) = 1"
proof -
  have scan: "snd (irq_scan (demo_mcs51 ())) = Some (1, 0, 1)" by code_simp
  then obtain d where d: "irq_scan (demo_mcs51 ()) = (d, Some (1, 0, 1))" by (metis prod.collapse)
  let ?c = "irq_enter 1 0 d"
  from d have run: "irq_step\<^sup>*\<^sup>* (demo_mcs51 ()) ?c" by (blast intro: irq_step.enter)
  have z: "mc_depth (demo_mcs51 ()) = 0" "length (mc_prio_stack (demo_mcs51 ())) = 4" by (simp_all add: demo_mcs51_def)
  have "d = drop_stale (demo_mcs51 ())" using d by (simp add: irq_scan_eq)
  then have "mc_depth ?c = 1" using z by (simp add: irq_enter_stack)
  with irq_nesting_bounded [OF run z, of "\<lambda>_ x. x"] run show ?thesis by auto
qed

end
