(* ===== verification/Mcs51_Timer.thy ===== *)
theory Mcs51_Timer
  imports Mcs51_Irq
begin

text \<open>
  Timers 0, 1 and 2 of the 8051 emulation, \<^verbatim>\<open>frameworks/mcs51/src/mcs51_timer.cpp\<close>: overflows are
  scheduled as instants of the virtual clock and fired when it is advanced over them, each raising
  its interrupt and running the routine before the next; a counter clocked by a pin is advanced by
  pulses. The loop over due overflows is bounded by \<^verbatim>\<open>MAX_OVERFLOWS_PER_STEP\<close>, which is its fuel.
\<close>

section \<open>Registers\<close>

definition SFR_TMOD :: u8 where "SFR_TMOD = 0x89"
definition SFR_CKCON :: u8 where "SFR_CKCON = 0x8E"
definition CKCON_T0M :: u8 where "CKCON_T0M = 3"
definition CKCON_T1M :: u8 where "CKCON_T1M = 4"
definition SFR_TL0 :: u8 where "SFR_TL0 = 0x8A"
definition SFR_TL1 :: u8 where "SFR_TL1 = 0x8B"
definition SFR_TH0 :: u8 where "SFR_TH0 = 0x8C"
definition SFR_TH1 :: u8 where "SFR_TH1 = 0x8D"
definition SFR_T2CON :: u8 where "SFR_T2CON = 0xC8"
definition SFR_T2IF :: u8 where "SFR_T2IF = 0xC9"
definition SFR_RLDL :: u8 where "SFR_RLDL = 0xCA"
definition SFR_RLDH :: u8 where "SFR_RLDH = 0xCB"
definition SFR_TL2 :: u8 where "SFR_TL2 = 0xCC"
definition SFR_TH2 :: u8 where "SFR_TH2 = 0xCD"
definition SFR_T2IE :: u8 where "SFR_T2IE = 0xCF"
definition T2IF_T2F :: u8 where "T2IF_T2F = 7"
definition T2IE_T2OVIE :: u8 where "T2IE_T2OVIE = 7"
definition TCON_TR0 :: u8 where "TCON_TR0 = 4"
definition TCON_TF0 :: u8 where "TCON_TF0 = 5"
definition TCON_TR1 :: u8 where "TCON_TR1 = 6"
definition TCON_TF1 :: u8 where "TCON_TF1 = 7"
definition NO_OVERFLOW :: u64 where "NO_OVERFLOW = -1"
definition MAX_OVERFLOWS_PER_STEP :: nat where "MAX_OVERFLOWS_PER_STEP = 2 ^ 20"
definition MCS51_FEAT_TIMER_MODE3 :: nat where "MCS51_FEAT_TIMER_MODE3 = 9"

definition th_addr :: "nat \<Rightarrow> u8" where "th_addr t = (if t = 0 then SFR_TH0 else SFR_TH1)"
definition tl_addr :: "nat \<Rightarrow> u8" where "tl_addr t = (if t = 0 then SFR_TL0 else SFR_TL1)"

definition get_tm :: "nat \<Rightarrow> 'e mcs51 \<Rightarrow> Mcu51TimerChannel" where
  "get_tm t c = ts_channels (mc_timer c) ! t"

definition upd_tm :: "nat \<Rightarrow> (Mcu51TimerChannel \<Rightarrow> Mcu51TimerChannel) \<Rightarrow> 'e mcs51 \<Rightarrow> 'e mcs51" where
  "upd_tm t f c = c\<lparr> mc_timer := (mc_timer c)\<lparr> ts_channels := (ts_channels (mc_timer c))[t := f (get_tm t c)] \<rparr> \<rparr>"

definition upd_t2 :: "(Mcu51TimerState \<Rightarrow> Mcu51TimerState) \<Rightarrow> 'e mcs51 \<Rightarrow> 'e mcs51" where
  "upd_t2 f c = c\<lparr> mc_timer := f (mc_timer c) \<rparr>"

definition timer_mode :: "nat \<Rightarrow> 'e mcs51 \<Rightarrow> u8" where
  "timer_mode t c = drop_bit (if t = 0 then 0 else 4) (mc_sfr c SFR_TMOD) AND 3"

definition timer_external :: "nat \<Rightarrow> 'e mcs51 \<Rightarrow> bool" where
  "timer_external t c = sfr_bit c SFR_TMOD (if t = 0 then 2 else 6)"

definition timer_max_count :: "u8 \<Rightarrow> u32" where
  "timer_max_count mode = (if mode = 2 then 256 else if mode = 0 then 8192 else 65536)"

definition reload_counts :: "nat \<Rightarrow> u8 \<Rightarrow> 'e mcs51 \<Rightarrow> u32" where
  "reload_counts t mode c =
    (if mode = 2 then 256 - ucast (mc_sfr c (th_addr t))
     else let th = mc_sfr c (th_addr t);
              tl = mc_sfr c (tl_addr t);
              base = (if mode = 0 then push_bit 8 (ucast (th AND 0x1F)) OR ucast tl
                      else push_bit 8 (ucast th) OR ucast tl);
              period = timer_max_count mode - base
          in if period = 0 then timer_max_count mode else period)"

definition counts_to_us :: "nat \<Rightarrow> u32 \<Rightarrow> 'e mcs51 \<Rightarrow> u64" where
  "counts_to_us t counts c =
    (let divider = (if sfr_bit c SFR_CKCON (if t = 0 then CKCON_T0M else CKCON_T1M) then 4 else 12);
         us = (ucast counts * divider * 1000000) div ucast (wink_mcs51_get_clock_hz c)
     in if us = 0 then 1 else us)"

definition ext_counts_to_us :: "u32 \<Rightarrow> u32 \<Rightarrow> 'e mcs51 \<Rightarrow> u32" where
  "ext_counts_to_us counts divider c =
    (let us = (ucast counts * ucast divider * 1000000) div ucast (wink_mcs51_get_clock_hz c) :: u64
     in ucast (if us = 0 then 1 else us))"

definition timer2_counts_to_us :: "u32 \<Rightarrow> 'e mcs51 \<Rightarrow> u32" where
  "timer2_counts_to_us counts c = ext_counts_to_us counts (if sfr_bit c SFR_T2CON 7 then 24 else 12) c"

definition reload_period_us :: "nat \<Rightarrow> u8 \<Rightarrow> 'e mcs51 \<Rightarrow> u64" where
  "reload_period_us t mode c = counts_to_us t (reload_counts t mode c) c"

section \<open>Timers 0 and 1\<close>

definition schedule_from_reload :: "nat \<Rightarrow> u64 \<Rightarrow> 'e mcs51 \<Rightarrow> 'e mcs51" where
  "schedule_from_reload t from_us c =
    (let mode = timer_mode t c;
         ext = timer_external t c;
         c = upd_tm t (\<lambda>tm. tm\<lparr> tc_mode := mode, tc_external_clk := ext \<rparr>) c
     in if mode = 3
        then wink_mcs51_unsupported MCS51_FEAT_TIMER_MODE3
               (upd_tm t (\<lambda>tm. tm\<lparr> tc_running := False, tc_next_ovf_us := NO_OVERFLOW \<rparr>) c)
        else if ext then upd_tm t (\<lambda>tm. tm\<lparr> tc_running := True, tc_next_ovf_us := NO_OVERFLOW \<rparr>) c
        else upd_tm t (\<lambda>tm. tm\<lparr> tc_next_ovf_us := from_us + reload_period_us t mode c \<rparr>) c)"

definition timer_start :: "nat \<Rightarrow> u64 \<Rightarrow> 'e mcs51 \<Rightarrow> 'e mcs51" where
  "timer_start t now_us c = schedule_from_reload t now_us (upd_tm t (\<lambda>tm. tm\<lparr> tc_running := True \<rparr>) c)"

definition timer_stop :: "nat \<Rightarrow> 'e mcs51 \<Rightarrow> 'e mcs51" where
  "timer_stop t c = upd_tm t (\<lambda>tm. tm\<lparr> tc_running := False, tc_next_ovf_us := NO_OVERFLOW \<rparr>) c"

text \<open>Before the interrupt: the flag is set and the fired deadline is replaced.\<close>

definition consume_overflow :: "nat \<Rightarrow> u64 \<Rightarrow> 'e mcs51 \<Rightarrow> 'e mcs51" where
  "consume_overflow t at_us c =
    (let c = sfr_set_bit SFR_TCON (if t = 0 then TCON_TF0 else TCON_TF1) c;
         c = wink_mcs51_spin_guard_note_event c;
         tm = get_tm t c
     in if \<not> tc_running tm \<or> tc_external_clk tm then upd_tm t (\<lambda>tm. tm\<lparr> tc_next_ovf_us := NO_OVERFLOW \<rparr>) c
        else if tc_mode tm = 2
        then let c = sfr_write (tl_addr t) (mc_sfr c (th_addr t)) c
             in upd_tm t (\<lambda>tm. tm\<lparr> tc_next_ovf_us := at_us + reload_period_us t 2 c \<rparr>) c
        else upd_tm t (\<lambda>tm. tm\<lparr> tc_next_ovf_us := NO_OVERFLOW \<rparr>) c)"

definition on_overflow :: "'e mcs51_isrs \<Rightarrow> nat \<Rightarrow> u64 \<Rightarrow> 'e mcs51 \<Rightarrow> 'e mcs51" where
  "on_overflow isrs t at_us c =
    (let c = consume_overflow t at_us c;
         c = mcs51_raise_irq (if t = 0 then IRQ_SOURCE_TIMER0 else IRQ_SOURCE_TIMER1) c;
         c = wink_mcs51_clear_reti_suppress c;
         c = snd (mcs51_irq_scan_and_dispatch isrs c);
         tm = get_tm t c
     in if tc_running tm \<and> \<not> tc_external_clk tm \<and> tc_mode tm \<noteq> 2 then schedule_from_reload t at_us c else c)"

primrec step_loop :: "nat \<Rightarrow> 'e mcs51_isrs \<Rightarrow> nat \<Rightarrow> u64 \<Rightarrow> 'e mcs51 \<Rightarrow> 'e mcs51" where
  "step_loop 0 isrs t now_us c = c"
| "step_loop (Suc n) isrs t now_us c =
    (let at = tc_next_ovf_us (get_tm t c)
     in if at \<noteq> NO_OVERFLOW \<and> at \<le> now_us
        then let c = on_overflow isrs t at c
             in if n = 0 then timer_stop t c
                else if \<not> tc_running (get_tm t c) then c
                else step_loop n isrs t now_us c
        else c)"

definition step_timer :: "'e mcs51_isrs \<Rightarrow> nat \<Rightarrow> u64 \<Rightarrow> 'e mcs51 \<Rightarrow> 'e mcs51" where
  "step_timer isrs t now_us c =
    (if \<not> tc_running (get_tm t c) \<or> tc_next_ovf_us (get_tm t c) = NO_OVERFLOW then c
     else step_loop MAX_OVERFLOWS_PER_STEP isrs t now_us c)"

section \<open>Timer 2\<close>

definition timer2_period_of :: "u8 \<Rightarrow> u8 \<Rightarrow> 'e mcs51 \<Rightarrow> u32" where
  "timer2_period_of hi lo c =
    (let val = push_bit 8 (ucast (mc_sfr c hi)) OR ucast (mc_sfr c lo) :: u16;
         counts = 65536 - ucast val :: u32;
         counts = (if counts = 0 then 65536 else counts)
     in if sfr_bit c SFR_T2CON 7 then counts else timer2_counts_to_us counts c)"

definition timer2_reload_period :: "'e mcs51 \<Rightarrow> u32" where
  "timer2_reload_period c = timer2_period_of SFR_RLDH SFR_RLDL c"

definition timer2_current_period :: "'e mcs51 \<Rightarrow> u32" where
  "timer2_current_period c = timer2_period_of SFR_TH2 SFR_TL2 c"

definition timer2_mode :: "'e mcs51 \<Rightarrow> u8" where
  "timer2_mode c = mc_sfr c SFR_T2CON AND 3"

definition timer2_schedule_from_now :: "u64 \<Rightarrow> 'e mcs51 \<Rightarrow> 'e mcs51" where
  "timer2_schedule_from_now from_us c =
    upd_t2 (\<lambda>tm. tm\<lparr> ts_t2_next_ovf_us := from_us + ucast (timer2_current_period c) \<rparr>) c"

definition timer2_start :: "u64 \<Rightarrow> 'e mcs51 \<Rightarrow> 'e mcs51" where
  "timer2_start now_us c =
    (let c = upd_t2 (\<lambda>tm. tm\<lparr> ts_t2_running := True \<rparr>) c
     in if timer2_mode c = 1 then timer2_schedule_from_now now_us c
        else upd_t2 (\<lambda>tm. tm\<lparr> ts_t2_next_ovf_us := NO_OVERFLOW \<rparr>) c)"

definition timer2_stop :: "'e mcs51 \<Rightarrow> 'e mcs51" where
  "timer2_stop c = upd_t2 (\<lambda>tm. tm\<lparr> ts_t2_running := False, ts_t2_next_ovf_us := NO_OVERFLOW \<rparr>) c"

definition on_timer2_overflow :: "'e mcs51_isrs \<Rightarrow> u64 \<Rightarrow> 'e mcs51 \<Rightarrow> 'e mcs51" where
  "on_timer2_overflow isrs at_us c =
    (let c = sfr_set_bit SFR_T2IF T2IF_T2F c;
         c = wink_mcs51_spin_guard_note_event c;
         reload = (mc_sfr c SFR_T2CON AND 0x30 \<noteq> 0);
         c = (if reload then sfr_write SFR_TH2 (mc_sfr c SFR_RLDH) (sfr_write SFR_TL2 (mc_sfr c SFR_RLDL) c)
              else sfr_write SFR_TH2 0 (sfr_write SFR_TL2 0 c))
     in if \<not> ts_t2_running (mc_timer c) then upd_t2 (\<lambda>tm. tm\<lparr> ts_t2_next_ovf_us := NO_OVERFLOW \<rparr>) c
        else let next_us = (if timer2_mode c = 1 \<and> reload then at_us + ucast (timer2_reload_period c) else NO_OVERFLOW);
                 c = upd_t2 (\<lambda>tm. tm\<lparr> ts_t2_next_ovf_us := next_us \<rparr>) c
             in if sfr_bit c SFR_T2IE T2IE_T2OVIE
                then snd (mcs51_irq_scan_and_dispatch isrs
                       (wink_mcs51_clear_reti_suppress (mcs51_raise_irq IRQ_SOURCE_TIMER2 c)))
                else c)"

primrec step2_loop :: "nat \<Rightarrow> 'e mcs51_isrs \<Rightarrow> u64 \<Rightarrow> 'e mcs51 \<Rightarrow> 'e mcs51" where
  "step2_loop 0 isrs now_us c = c"
| "step2_loop (Suc n) isrs now_us c =
    (let at = ts_t2_next_ovf_us (mc_timer c)
     in if at \<noteq> NO_OVERFLOW \<and> at \<le> now_us
        then let c = on_timer2_overflow isrs at c
             in if n = 0 then timer2_stop c
                else if \<not> ts_t2_running (mc_timer c) then c
                else step2_loop n isrs now_us c
        else c)"

definition step_timer2 :: "'e mcs51_isrs \<Rightarrow> u64 \<Rightarrow> 'e mcs51 \<Rightarrow> 'e mcs51" where
  "step_timer2 isrs now_us c =
    (if \<not> ts_t2_running (mc_timer c) then c
     else if ts_t2_next_ovf_us (mc_timer c) = NO_OVERFLOW then c
     else step2_loop MAX_OVERFLOWS_PER_STEP isrs now_us c)"

definition wink_mcs51_timers_step_to :: "'e mcs51_isrs \<Rightarrow> u64 \<Rightarrow> 'e mcs51 \<Rightarrow> 'e mcs51" where
  "wink_mcs51_timers_step_to isrs now_us c = step_timer2 isrs now_us (step_timer isrs 1 now_us (step_timer isrs 0 now_us c))"

section \<open>Pulses\<close>

definition timer2_pulse :: "'e mcs51_isrs \<Rightarrow> 'e mcs51 \<Rightarrow> 'e mcs51" where
  "timer2_pulse isrs c =
    (if \<not> ts_t2_running (mc_timer c) \<or> timer2_mode c \<noteq> 2 then c
     else let val = (push_bit 8 (ucast (mc_sfr c SFR_TH2)) OR ucast (mc_sfr c SFR_TL2)) + 1 :: u16
          in if val = 0
             then on_timer2_overflow isrs (wink_mcs51_virtual_us c)
                    (sfr_write SFR_TL2 (mc_sfr c SFR_RLDL) (sfr_write SFR_TH2 (mc_sfr c SFR_RLDH) c))
             else sfr_write SFR_TL2 (ucast val) (sfr_write SFR_TH2 (ucast (drop_bit 8 val)) c))"

definition wink_mcs51_timer_pulse :: "'e mcs51_isrs \<Rightarrow> nat \<Rightarrow> 'e mcs51 \<Rightarrow> 'e mcs51" where
  "wink_mcs51_timer_pulse isrs t c =
    (if t = 2 then timer2_pulse isrs c
     else if t > 2 then c
     else let tm = get_tm t c; th = th_addr t; tl = tl_addr t; now = wink_mcs51_virtual_us c
          in if \<not> tc_running tm \<or> \<not> tc_external_clk tm then c
             else if tc_mode tm = 1
             then let val = (push_bit 8 (ucast (mc_sfr c th)) OR ucast (mc_sfr c tl)) + 1 :: u16;
                      c = sfr_write tl (ucast val) (sfr_write th (ucast (drop_bit 8 val)) c)
                  in if val = 0 then on_overflow isrs t now c else c
             else if tc_mode tm = 2
             then let val = mc_sfr c tl + 1
                  in if val = 0 then on_overflow isrs t now (sfr_write tl (mc_sfr c th) c) else sfr_write tl val c
             else if tc_mode tm = 0
             then let val = ((push_bit 8 (ucast (mc_sfr c th AND 0x1F)) OR ucast (mc_sfr c tl)) + 1) AND 0x1FFF :: u16;
                      c = sfr_write th ((mc_sfr c th AND 0xE0) OR (ucast (drop_bit 8 val) AND 0x1F)) c;
                      c = sfr_write tl (ucast val) c
                  in if val = 0 then on_overflow isrs t now c else c
             else c)"

section \<open>Reset, register accesses, polling\<close>

definition timer_channel_zero :: Mcu51TimerChannel where
  "timer_channel_zero = \<lparr> tc_running = False, tc_external_clk = False, tc_mode = 0, tc_next_ovf_us = NO_OVERFLOW,
     tc_tr_prev = 0, tc_last_pin_level = 0xFF \<rparr>"

definition mcs51_timer_reset :: "'e mcs51 \<Rightarrow> 'e mcs51" where
  "mcs51_timer_reset c =
    fold (\<lambda>a. mcs51_trap_register_sfr_write a (Some sfr_hook_timer))
      [SFR_TCON, SFR_TMOD, SFR_TL0, SFR_TL1, SFR_TH0, SFR_TH1, SFR_T2CON, SFR_TL2, SFR_TH2, SFR_RLDL, SFR_RLDH]
    (mcs51_trap_register_sfr_read SFR_TCON (Some sfr_hook_timer)
    (c\<lparr> mc_timer := \<lparr> ts_channels = [timer_channel_zero, timer_channel_zero], ts_t2_running = False,
        ts_t2_next_ovf_us = NO_OVERFLOW, ts_t2_tr_prev = 0, ts_t2_last_pin_level = 0xFF,
        ts_t0_ps_addr = SELECTOR_NONE, ts_t1_ps_addr = SELECTOR_NONE, ts_t2_ps_addr = SELECTOR_NONE \<rparr> \<rparr>))"

definition mcs51_timer_init :: "'e mcs51 \<Rightarrow> 'e mcs51" where
  "mcs51_timer_init c = mcs51_timer_reset c"

definition wink_mcs51_timer_on_read :: "'e mcs51_isrs \<Rightarrow> u8 \<Rightarrow> 'e mcs51 \<Rightarrow> 'e mcs51" where
  "wink_mcs51_timer_on_read isrs addr c =
    (if addr = SFR_TCON then wink_mcs51_timers_step_to isrs (wink_mcs51_virtual_us c) c else c)"

definition tcon_written :: "u8 \<Rightarrow> u64 \<Rightarrow> nat \<Rightarrow> 'e mcs51 \<Rightarrow> 'e mcs51" where
  "tcon_written tcon now t c =
    (let tr = drop_bit (unat (if t = 0 then TCON_TR0 else TCON_TR1)) tcon AND 1
     in if tr \<noteq> tc_tr_prev (get_tm t c)
        then let c = upd_tm t (\<lambda>tm. tm\<lparr> tc_tr_prev := tr \<rparr>) c
             in if tr \<noteq> 0 then timer_start t now c else timer_stop t c
        else c)"

definition reschedule_running :: "u64 \<Rightarrow> nat \<Rightarrow> 'e mcs51 \<Rightarrow> 'e mcs51" where
  "reschedule_running now t c = (if tc_running (get_tm t c) then schedule_from_reload t now c else c)"

definition wink_mcs51_timer_on_write :: "u8 \<Rightarrow> 'e mcs51 \<Rightarrow> 'e mcs51" where
  "wink_mcs51_timer_on_write addr c =
    (let now = wink_mcs51_virtual_us c
     in if addr = SFR_TCON then let tcon = mc_sfr c SFR_TCON in tcon_written tcon now 1 (tcon_written tcon now 0 c)
        else if addr = SFR_TMOD then reschedule_running now 1 (reschedule_running now 0 c)
        else if addr = SFR_CKCON then reschedule_running now 1 (reschedule_running now 0 c)
        else if addr = SFR_TH0 \<or> addr = SFR_TL0 \<or> addr = SFR_TH1 \<or> addr = SFR_TL1
        then reschedule_running now (if addr = SFR_TH0 \<or> addr = SFR_TL0 then 0 else 1) c
        else if addr = SFR_T2CON
        then let running = (if mc_sfr c SFR_T2CON AND 3 \<noteq> 0 then 1 else 0)
             in if running \<noteq> ts_t2_tr_prev (mc_timer c)
                then let c = upd_t2 (\<lambda>tm. tm\<lparr> ts_t2_tr_prev := running \<rparr>) c
                     in if running \<noteq> 0 then timer2_start now c else timer2_stop c
                else c
        else if addr = SFR_TL2 \<or> addr = SFR_TH2 \<or> addr = SFR_RLDL \<or> addr = SFR_RLDH
        then if ts_t2_running (mc_timer c) \<and> timer2_mode c = 1 then timer2_schedule_from_now now c else c
        else c)"

definition resolve_timer_pin :: "nat \<Rightarrow> 'e mcs51 \<Rightarrow> u16" where
  "resolve_timer_pin t c =
    resolve_selected_pin (if t = 0 then ts_t0_ps_addr (mc_timer c) else ts_t1_ps_addr (mc_timer c))
      (if t = 0 then 28 else 29) c"

definition resolve_timer2_pin :: "'e mcs51 \<Rightarrow> u16" where
  "resolve_timer2_pin c = resolve_selected_pin (ts_t2_ps_addr (mc_timer c)) 14 c"

definition poll_timer_pin :: "'e mcs51_isrs \<Rightarrow> nat \<Rightarrow> 'e mcs51 \<Rightarrow> 'e mcs51" where
  "poll_timer_pin isrs t c =
    (if tc_running (get_tm t c) \<and> tc_external_clk (get_tm t c)
     then let level = js_pal_gpio_read_state (resolve_timer_pin t c) c
          in if level \<le> 1
             then let last = tc_last_pin_level (get_tm t c);
                      c = upd_tm t (\<lambda>tm. tm\<lparr> tc_last_pin_level := level \<rparr>) c
                  in if last = 1 \<and> level = 0 then wink_mcs51_timer_pulse isrs t c else c
             else c
     else c)"

definition poll_timer2_pin :: "'e mcs51_isrs \<Rightarrow> 'e mcs51 \<Rightarrow> 'e mcs51" where
  "poll_timer2_pin isrs c =
    (if ts_t2_running (mc_timer c) \<and> timer2_mode c = 2
     then let level = js_pal_gpio_read_state (resolve_timer2_pin c) c
          in if level \<le> 1
             then let last = ts_t2_last_pin_level (mc_timer c);
                      c = upd_t2 (\<lambda>tm. tm\<lparr> ts_t2_last_pin_level := level \<rparr>) c
                  in if last = 1 \<and> level = 0 then wink_mcs51_timer_pulse isrs 2 c else c
             else c
     else c)"

definition mcs51_timer_poll :: "'e mcs51_isrs \<Rightarrow> 'e mcs51 \<Rightarrow> 'e mcs51" where
  "mcs51_timer_poll isrs c =
    poll_timer2_pin isrs (poll_timer_pin isrs 1 (poll_timer_pin isrs 0
      (wink_mcs51_timers_step_to isrs (mc_virtual_us c) c)))"

definition mcs51_timer_next_event_us :: "'e mcs51 \<Rightarrow> u64" where
  "mcs51_timer_next_event_us c =
    (let earlier = (\<lambda>running at earliest. if running \<and> at \<noteq> NO_OVERFLOW \<and> at < earliest then at else earliest);
         tms = ts_channels (mc_timer c)
     in earlier (ts_t2_running (mc_timer c)) (ts_t2_next_ovf_us (mc_timer c))
          (earlier (tc_running (tms ! 1)) (tc_next_ovf_us (tms ! 1))
            (earlier (tc_running (tms ! 0)) (tc_next_ovf_us (tms ! 0)) (-1))))"

section \<open>A timer that reloads itself\<close>






















section \<open>Where the emulation is not the silicon\<close>

text \<open>In mode 0 the high register holds the upper eight of the thirteen bits; the code takes the lower
  five of it and all of the low one. A reload for 1000 counts is run as 8168.\<close>

lemma mode0_reload_period: "mc_sfr c SFR_TH0 = 224 \<Longrightarrow> mc_sfr c SFR_TL0 = 24 \<Longrightarrow> reload_counts 0 0 c = 8168"
  by (simp add: reload_counts_def th_addr_def tl_addr_def timer_max_count_def Let_def)

text \<open>With the prescaler of timer 2 selected, the period does not depend on the clock.\<close>

lemma timer2_prescaled_period_ignores_clock:
  "sfr_bit c SFR_T2CON 7 \<Longrightarrow> timer2_reload_period (c\<lparr> mc_clock_hz := f \<rparr>) = timer2_reload_period c"
  by (simp add: timer2_reload_period_def timer2_period_of_def sfr_bit_def Let_def)

text \<open>The run bit of timer 2 on a classic part, bit 2 of its control register, does not start it.\<close>

lemma classic_timer2_not_started:
  "ts_t2_tr_prev (mc_timer c) = 0 \<Longrightarrow> mc_sfr c SFR_T2CON = 4 \<Longrightarrow> wink_mcs51_timer_on_write SFR_T2CON c = c"
  by (simp add: wink_mcs51_timer_on_write_def Let_def SFR_T2CON_def SFR_TCON_def SFR_TMOD_def SFR_CKCON_def SFR_TH0_def
      SFR_TL0_def SFR_TH1_def SFR_TL1_def)

end
