(* ===== verification/Mcs51_Frame.thy ===== *)
theory Mcs51_Frame
  imports Mcs51_Timer
begin

text \<open>
  What interrupts and timers leave alone. A view of the context that does not read the registers, the
  request latch, the stack of priorities, the timers, the diagnostics and the mailbox is kept by
  every operation of both, if the routines of the firmware keep it. A component states what it reads
  as a view and interprets the locale once.
\<close>

named_theorems frame_simps

definition keeps_view :: "('e mcs51 \<Rightarrow> 'v) \<Rightarrow> 'e mcs51_isrs \<Rightarrow> bool" where
  "keeps_view view isrs \<longleftrightarrow> (\<forall>fn c. view (isrs fn c) = view c)"

locale mcs51_frame =
  fixes view :: "'e mcs51 \<Rightarrow> 'v"
  assumes view_sfr: "view (c\<lparr> mc_sfr := r \<rparr>) = view c"
    and view_pending: "view (c\<lparr> mc_pending := p \<rparr>) = view c"
    and view_reti: "view (c\<lparr> mc_reti_suppress := b \<rparr>) = view c"
    and view_depth: "view (c\<lparr> mc_depth := d \<rparr>) = view c"
    and view_stack: "view (c\<lparr> mc_prio_stack := st \<rparr>) = view c"
    and view_dispatches: "view (c\<lparr> mc_dispatch_count := n \<rparr>) = view c"
    and view_unsupported: "view (c\<lparr> mc_unsupported := u \<rparr>) = view c"
    and view_timer: "view (c\<lparr> mc_timer := t \<rparr>) = view c"
    and view_spin: "view (c\<lparr> mc_spin_addr_count := k, mc_spin_reads := s, mc_spin_tripped := b, mc_spin_window_start_us := w \<rparr>) = view c"
    and view_mailbox: "view (c\<lparr> mc_mailbox := q, mc_wakes := ws \<rparr>) = view c"
begin

lemmas view_fields = view_sfr view_pending view_reti view_depth view_stack view_dispatches view_unsupported view_timer
  view_spin view_mailbox

lemma view_registers: "view (sfr_set_bit a b c) = view c" "view (sfr_clear_bit a b c) = view c" "view (sfr_write a v c) = view c"
  by (simp_all add: sfr_set_bit_def sfr_clear_bit_def sfr_write_def view_fields)

lemma view_note: "view (wink_mcs51_spin_guard_note_event c) = view c"
  by (simp add: wink_mcs51_spin_guard_note_event_def view_fields)

lemma view_clear_reti: "view (wink_mcs51_clear_reti_suppress c) = view c"
  by (simp add: wink_mcs51_clear_reti_suppress_def view_fields)

lemma view_upd: "view (upd_tm t f c) = view c" "view (upd_t2 g c) = view c"
  by (simp_all add: upd_tm_def upd_t2_def view_fields)

lemma view_feature: "view (wink_mcs51_unsupported n c) = view c"
  by (simp add: wink_mcs51_unsupported_def Let_def view_fields)

lemma view_wake: "view (post_wake_event c) = view c"
  by (simp add: post_wake_event_def view_fields split: prod.split)

lemma view_stale: "view (drop_stale c) = view c"
  by (simp add: drop_stale_def view_fields)

lemma view_clear_irq: "view (wink_mcs51_clear_irq s c) = view c"
  by (simp add: wink_mcs51_clear_irq_def view_fields)

lemmas view_basic = view_fields view_registers view_note view_clear_reti view_upd view_feature view_wake view_stale view_clear_irq

lemma view_raise: "view (mcs51_raise_irq s c) = view c"
  by (simp add: mcs51_raise_irq_def irq_set_flag_def Let_def view_basic)

lemma view_service: "view (irq_enter s p c) = view c" "view (irq_leave c) = view c"
proof -
  show "view (irq_enter s p c) = view c"
    using view_stack view_depth by (simp add: irq_enter_def Let_def view_basic)
  show "view (irq_leave c) = view c" by (simp add: irq_leave_def Let_def view_basic)
qed

lemma view_dispatch:
  assumes "keeps_view view isrs"
  shows "view (snd (wink_mcs51_dispatch_vector isrs v c)) = view c"
proof -
  have isr: "view (isrs fn x) = view x" for fn x using assms by (simp add: keeps_view_def)
  show ?thesis
    by (auto simp: wink_mcs51_dispatch_vector_def Let_def isr view_basic split: option.split)
qed

lemma view_scan:
  assumes "keeps_view view isrs"
  shows "view (snd (mcs51_irq_scan_and_dispatch isrs c)) = view c"
  by (auto simp: mcs51_irq_scan_and_dispatch_def irq_scan_eq Let_def view_basic view_service view_dispatch [OF assms]
      split: option.split prod.split)

lemma view_schedule: "view (schedule_from_reload t u c) = view c" "view (timer_stop t c) = view c"
  "view (timer2_stop c) = view c"
  by (simp_all add: schedule_from_reload_def timer_stop_def timer2_stop_def Let_def view_basic)

lemma view_overflow:
  assumes "keeps_view view isrs"
  shows "view (on_overflow isrs t u c) = view c" "view (on_timer2_overflow isrs u c) = view c"
  by (simp_all add: on_overflow_def consume_overflow_def on_timer2_overflow_def Let_def view_basic view_raise view_schedule
      view_scan [OF assms])

lemma view_step_loop:
  assumes "keeps_view view isrs"
  shows "view (step_loop n isrs t u c) = view c \<and> view (step2_loop n isrs u c) = view c"
proof (induction n arbitrary: c)
  case (Suc n)
  note v = view_overflow [OF assms] view_schedule Suc.IH [THEN conjunct1] Suc.IH [THEN conjunct2]
  show ?case by (simp only: step_loop.simps step2_loop.simps Let_def v if_cancel split: if_split) simp
qed simp

lemma view_step_to:
  assumes "keeps_view view isrs"
  shows "view (wink_mcs51_timers_step_to isrs u c) = view c"
  by (simp add: wink_mcs51_timers_step_to_def step_timer_def step_timer2_def view_step_loop [OF assms, THEN conjunct1] view_step_loop [OF assms, THEN conjunct2])

lemma view_pulse:
  assumes "keeps_view view isrs"
  shows "view (wink_mcs51_timer_pulse isrs t c) = view c"
  by (simp add: wink_mcs51_timer_pulse_def timer2_pulse_def Let_def view_basic view_overflow [OF assms])

lemma view_timer_poll:
  assumes "keeps_view view isrs"
  shows "view (mcs51_timer_poll isrs c) = view c"
proof -
  have "view (poll_timer_pin isrs t d) = view d" "view (poll_timer2_pin isrs d) = view d" for t d
    by (simp_all add: poll_timer_pin_def poll_timer2_pin_def Let_def view_basic view_pulse [OF assms])
  then show ?thesis by (simp add: mcs51_timer_poll_def view_step_to [OF assms])
qed

end

end
