(* ===== verification/Mcs51_Clock.thy ===== *)
theory Mcs51_Clock
  imports Mcs51_Frame
begin

text \<open>
  The slave clock of the 8051 emulation, \<^verbatim>\<open>frameworks/mcs51/src/mcs51_clock.cpp\<close>: time is charged as the
  firmware runs, and once a quota of it has gathered outside of interrupt routines it is billed to
  the master clock, the other fibers get their turn, and the timers catch up. What the others do to
  the context in their turn is a parameter.
\<close>

section \<open>Operations\<close>

type_synonym 'e mcs51_turn = "'e mcs51 \<Rightarrow> 'e mcs51"

definition WINK_MCS51_MICROSTEP_US :: u32 where "WINK_MCS51_MICROSTEP_US = 5"
definition WINK_MCS51_QUOTA_US :: u64 where "WINK_MCS51_QUOTA_US = 10000"

definition upd_sched :: "(Mcs51Sched \<Rightarrow> Mcs51Sched) \<Rightarrow> 'e mcs51 \<Rightarrow> 'e mcs51" where
  "upd_sched f c = c\<lparr> mc_sched := f (mc_sched c) \<rparr>"

definition wink_mcs51_clock_reset :: "'e mcs51 \<Rightarrow> 'e mcs51" where
  "wink_mcs51_clock_reset c =
    upd_sched (\<lambda>s. s\<lparr> sc_slice_start_us := 0, sc_quota_yields := 0 \<rparr>) (c\<lparr> mc_virtual_us := 0 \<rparr>)"

definition wink_mcs51_set_catchup_hook :: "bool \<Rightarrow> 'e mcs51 \<Rightarrow> 'e mcs51" where
  "wink_mcs51_set_catchup_hook hook = upd_sched (\<lambda>s. s\<lparr> sc_catchup := hook \<rparr>)"

definition wink_mcs51_quota_yield_count :: "'e mcs51 \<Rightarrow> u32" where
  "wink_mcs51_quota_yield_count c = sc_quota_yields (mc_sched c)"

definition wink_mcs51_test_advance_virtual_us :: "u32 \<Rightarrow> 'e mcs51 \<Rightarrow> 'e mcs51" where
  "wink_mcs51_test_advance_virtual_us us c =
    wink_mcs51_clear_reti_suppress (c\<lparr> mc_virtual_us := mc_virtual_us c + ucast us \<rparr>)"

definition wink_mcs51_master_tick_count :: "'e mcs51 \<Rightarrow> u32" where
  "wink_mcs51_master_tick_count c = ucast (mc_virtual_us c div 10000)"

definition do_catchup :: "'e mcs51_isrs \<Rightarrow> 'e mcs51 \<Rightarrow> 'e mcs51" where
  "do_catchup isrs c = (if sc_catchup (mc_sched c) then wink_mcs51_timers_step_to isrs (mc_virtual_us c) c else c)"

definition bill_master :: "u32 \<Rightarrow> 'e mcs51 \<Rightarrow> 'e mcs51" where
  "bill_master us = upd_sched (\<lambda>s. s\<lparr> sc_bills := sc_bills s @ [us] \<rparr>)"

definition in_fiber :: "'e mcs51 \<Rightarrow> bool" where "in_fiber c \<longleftrightarrow> sc_in_fiber (mc_sched c)"

definition unbilled_us :: "'e mcs51 \<Rightarrow> u64" where
  "unbilled_us c = mc_virtual_us c - sc_slice_start_us (mc_sched c)"

definition end_slice :: "'e mcs51_isrs \<Rightarrow> 'e mcs51_turn \<Rightarrow> 'e mcs51 \<Rightarrow> 'e mcs51" where
  "end_slice isrs cooperative_yield c =
    (let c = bill_master (ucast (unbilled_us c)) c;
         c = upd_sched (\<lambda>s. s\<lparr> sc_quota_yields := sc_quota_yields s + 1 \<rparr>) c;
         c = cooperative_yield c;
         c = upd_sched (\<lambda>s. s\<lparr> sc_slice_start_us := mc_virtual_us c \<rparr>) c;
         c = do_catchup isrs c
     in snd (mcs51_irq_scan_and_dispatch isrs c))"

definition wink_mcs51_charge_us :: "'e mcs51_isrs \<Rightarrow> 'e mcs51_turn \<Rightarrow> u32 \<Rightarrow> 'e mcs51 \<Rightarrow> 'e mcs51" where
  "wink_mcs51_charge_us isrs cooperative_yield us c =
    (if us = 0 then c
     else let c = c\<lparr> mc_virtual_us := mc_virtual_us c + ucast us \<rparr>
          in if \<not> in_fiber c \<or> wink_mcs51_in_isr c then c
             else let c = wink_mcs51_clear_reti_suppress c
                  in if unbilled_us c \<ge> WINK_MCS51_QUOTA_US then end_slice isrs cooperative_yield c else c)"

definition wink_mcs51_calc_microstep_us :: "u32 \<Rightarrow> u32" where
  "wink_mcs51_calc_microstep_us clock_hz =
    (let clock_hz = (if clock_hz = 0 then WINK_MCS51_DEFAULT_CLOCK_HZ else clock_hz);
         step = ucast ((60000000 + ucast (clock_hz div 2)) div ucast clock_hz :: u64) :: u32
     in if step > 0 then step else 1)"

definition wink_mcs51_set_clock_hz :: "u32 \<Rightarrow> 'e mcs51 \<Rightarrow> 'e mcs51" where
  "wink_mcs51_set_clock_hz clock_hz c =
    upd_sched (\<lambda>s. s\<lparr> sc_microstep_us := wink_mcs51_calc_microstep_us clock_hz \<rparr>) (c\<lparr> mc_clock_hz := clock_hz \<rparr>)"

definition wink_mcs51_set_hardware_clock_hz :: "u32 \<Rightarrow> 'e mcs51 \<Rightarrow> 'e mcs51" where
  "wink_mcs51_set_hardware_clock_hz clock_hz c = c\<lparr> mc_clock_hz := clock_hz \<rparr>"

definition wink_mcs51_get_microstep_us :: "'e mcs51 \<Rightarrow> u32" where
  "wink_mcs51_get_microstep_us c =
    (if sc_microstep_us (mc_sched c) \<noteq> 0 then sc_microstep_us (mc_sched c) else WINK_MCS51_MICROSTEP_US)"

section \<open>Frame of a charge\<close>

lemma upd_sched_select [simp]: "mc_sched (upd_sched f c) = f (mc_sched c)" "mc_virtual_us (upd_sched f c) = mc_virtual_us c"
  by (simp_all add: upd_sched_def)

text \<open>A view that does not read the clock is kept by charging, if routines and turns keep it.\<close>

locale mcs51_untimed = mcs51_frame view for view :: "'e mcs51 \<Rightarrow> 'v" +
  assumes view_virtual: "view (c\<lparr> mc_virtual_us := t \<rparr>) = view c"
    and view_sched: "view (c\<lparr> mc_sched := s \<rparr>) = view c"
begin

lemma view_upd_sched: "view (upd_sched f c) = view c"
  by (simp add: upd_sched_def view_sched)

lemma view_catchup:
  assumes "keeps_view view isrs"
  shows "view (do_catchup isrs c) = view c"
  by (simp add: do_catchup_def view_step_to [OF assms])

lemma view_end_slice:
  assumes "keeps_view view isrs" "\<And>c. view (turn c) = view c"
  shows "view (end_slice isrs turn c) = view c"
  by (simp only: end_slice_def Let_def view_scan [OF assms(1)] view_catchup [OF assms(1)] view_upd_sched assms(2) bill_master_def)

lemma view_charge:
  assumes "keeps_view view isrs" "\<And>c. view (turn c) = view c"
  shows "view (wink_mcs51_charge_us isrs turn us c) = view c"
  by (simp add: wink_mcs51_charge_us_def Let_def view_end_slice [OF assms] view_clear_reti view_virtual)

end

section \<open>The bill\<close>

text \<open>The clock: the instant and its schedule, and the depth of interrupt routines, which decides whether
  a charge may be billed.\<close>

definition clock_view :: "'e mcs51 \<Rightarrow> u64 \<times> Mcs51Sched" where
  "clock_view c = (mc_virtual_us c, mc_sched c)"

interpretation clock: mcs51_frame clock_view
  by unfold_locales (simp_all add: clock_view_def)

lemma charge_clock:
  assumes "keeps_view clock_view isrs" "\<And>c. clock_view (turn c) = clock_view c"
  shows "clock_view (wink_mcs51_charge_us isrs turn us c) =
    (let v = mc_virtual_us c + ucast us; s = mc_sched c
     in if us \<noteq> 0 \<and> sc_in_fiber s \<and> mc_depth c = 0 \<and> WINK_MCS51_QUOTA_US \<le> v - sc_slice_start_us s
        then (v, s\<lparr> sc_bills := sc_bills s @ [ucast (v - sc_slice_start_us s)],
                   sc_quota_yields := sc_quota_yields s + 1, sc_slice_start_us := v \<rparr>)
        else (v, s))"
proof -
  have turn: "mc_virtual_us (turn d) = mc_virtual_us d" "mc_sched (turn d) = mc_sched d" for d
    using assms(2) [of d] by (simp_all add: clock_view_def)
  have caught: "clock_view (snd (mcs51_irq_scan_and_dispatch isrs (do_catchup isrs d))) = clock_view d" for d
    by (simp add: clock.view_scan [OF assms(1)] do_catchup_def clock.view_step_to [OF assms(1)])
  have slice: "clock_view (end_slice isrs turn d) = (mc_virtual_us d,
      (mc_sched d)\<lparr> sc_bills := sc_bills (mc_sched d) @ [ucast (unbilled_us d)],
        sc_quota_yields := sc_quota_yields (mc_sched d) + 1, sc_slice_start_us := mc_virtual_us d \<rparr>)" for d
    by (simp only: end_slice_def Let_def caught) (simp add: clock_view_def turn bill_master_def unbilled_us_def)
  have reti: "mc_virtual_us (wink_mcs51_clear_reti_suppress d) = mc_virtual_us d"
    "mc_sched (wink_mcs51_clear_reti_suppress d) = mc_sched d" for d :: "'a mcs51"
    by (simp_all add: wink_mcs51_clear_reti_suppress_def)
  show ?thesis
    by (simp add: wink_mcs51_charge_us_def Let_def in_fiber_def wink_mcs51_in_isr_def slice unbilled_us_def reti)
      (simp add: clock_view_def reti)
qed

text \<open>Everything up to the start of the slice is billed, in as many bills as turns were given.\<close>

definition billed :: "'e mcs51 \<Rightarrow> bool" where
  "billed c \<longleftrightarrow> sum_list (map unat (sc_bills (mc_sched c))) = unat (sc_slice_start_us (mc_sched c))
     \<and> sc_slice_start_us (mc_sched c) \<le> mc_virtual_us c
     \<and> sc_quota_yields (mc_sched c) = of_nat (length (sc_bills (mc_sched c)))"

definition charge_fits :: "'e mcs51 \<Rightarrow> u32 \<Rightarrow> bool" where
  "charge_fits c us \<longleftrightarrow> unat (unbilled_us c) + unat us < 2 ^ 32 \<and> unat (mc_virtual_us c) + unat us < 2 ^ 64"

lemma charge_billed:
  assumes "keeps_view clock_view isrs" "\<And>c. clock_view (turn c) = clock_view c" "billed c" "charge_fits c us"
  defines "c' \<equiv> wink_mcs51_charge_us isrs turn us c"
  shows "billed c' \<and> unat (mc_virtual_us c') = unat (mc_virtual_us c) + unat us
    \<and> (us \<noteq> 0 \<and> in_fiber c \<and> mc_depth c = 0 \<longrightarrow> unbilled_us c' < WINK_MCS51_QUOTA_US)"
proof -
  let ?s = "mc_sched c" and ?v = "mc_virtual_us c + ucast us"
  have u: "unat (ucast us :: u64) = unat us"
    by (simp add: unsigned_ucast_eq take_bit_nat_eq_self_iff) (rule less_trans [OF unsigned_less], simp)
  have v: "unat ?v = unat (mc_virtual_us c) + unat us"
    using assms(4) by (simp add: charge_fits_def unat_word_ariths u)
  have le: "sc_slice_start_us ?s \<le> mc_virtual_us c" using assms(3) by (simp add: billed_def)
  then have slice: "sc_slice_start_us ?s \<le> ?v" using v by (simp add: word_le_nat_alt)
  then have el: "unat (?v - sc_slice_start_us ?s) = unat (unbilled_us c) + unat us"
    using le v by (simp add: unbilled_us_def unat_sub word_le_nat_alt)
  then have bill: "unat (ucast (?v - sc_slice_start_us ?s) :: u32) = unat ?v - unat (sc_slice_start_us ?s)"
    using assms(4) slice by (simp add: unsigned_ucast_eq take_bit_nat_eq_self_iff charge_fits_def unat_sub)
  have view: "clock_view c' = (if us \<noteq> 0 \<and> sc_in_fiber ?s \<and> mc_depth c = 0 \<and> WINK_MCS51_QUOTA_US \<le> ?v - sc_slice_start_us ?s
      then (?v, ?s\<lparr> sc_bills := sc_bills ?s @ [ucast (?v - sc_slice_start_us ?s)],
                 sc_quota_yields := sc_quota_yields ?s + 1, sc_slice_start_us := ?v \<rparr>)
      else (?v, ?s))"
    unfolding c'_def charge_clock [OF assms(1,2)] Let_def ..
  show ?thesis
  proof (cases "us \<noteq> 0 \<and> sc_in_fiber ?s \<and> mc_depth c = 0 \<and> WINK_MCS51_QUOTA_US \<le> ?v - sc_slice_start_us ?s")
    case True
    then have "mc_virtual_us c' = ?v" and s: "mc_sched c' = ?s\<lparr> sc_bills := sc_bills ?s @ [ucast (?v - sc_slice_start_us ?s)],
                 sc_quota_yields := sc_quota_yields ?s + 1, sc_slice_start_us := ?v \<rparr>"
      using view by (simp_all add: clock_view_def)
    then show ?thesis using assms(3) v bill slice
      by (simp add: billed_def unbilled_us_def word_le_nat_alt WINK_MCS51_QUOTA_US_def)
  next
    case False
    then have "mc_virtual_us c' = ?v" "mc_sched c' = ?s" using view by (simp_all add: clock_view_def split: if_splits)
    then show ?thesis using assms(3) v slice False by (auto simp: billed_def unbilled_us_def in_fiber_def)
  qed
qed

text \<open>C36: no microsecond is lost between the two clocks. For every sequence of charges that fit their
  types, with routines and other fibers that leave the clock alone, the slave clock has advanced by
  what was charged, the bills add up to the start of the slice with one turn each, and after a
  charge outside of interrupt routines less than a quota is not billed.\<close>
theorem clock_bills_every_charge:
  assumes "keeps_view clock_view isrs" "\<And>c. clock_view (turn c) = clock_view c" "billed c" "in_fiber c"
    "\<forall>i < length us. charge_fits (fold (wink_mcs51_charge_us isrs turn) (take i us) c) (us ! i)"
  shows "billed (fold (wink_mcs51_charge_us isrs turn) us c)
    \<and> unat (mc_virtual_us (fold (wink_mcs51_charge_us isrs turn) us c)) = unat (mc_virtual_us c) + sum_list (map unat us)
    \<and> (us \<noteq> [] \<and> last us \<noteq> 0 \<and> mc_depth (fold (wink_mcs51_charge_us isrs turn) (butlast us) c) = 0
        \<longrightarrow> unbilled_us (fold (wink_mcs51_charge_us isrs turn) us c) < WINK_MCS51_QUOTA_US)"
  using assms(5)
proof (induction us rule: rev_induct)
  case (snoc u us)
  let ?c = "fold (wink_mcs51_charge_us isrs turn) us c"
  have "\<forall>i < length us. charge_fits (fold (wink_mcs51_charge_us isrs turn) (take i us) c) (us ! i)"
  proof (intro allI impI)
    fix i assume "i < length us"
    with snoc.prems [rule_format, of i]
    show "charge_fits (fold (wink_mcs51_charge_us isrs turn) (take i us) c) (us ! i)" by (simp add: nth_append)
  qed
  then have IH: "billed ?c" "unat (mc_virtual_us ?c) = unat (mc_virtual_us c) + sum_list (map unat us)"
    using snoc.IH by simp_all
  have fits: "charge_fits ?c u" using snoc.prems [rule_format, of "length us"] by simp
  have fib: "in_fiber (fold (wink_mcs51_charge_us isrs turn) vs c)" for vs
  proof (induction vs rule: rev_induct)
    case (snoc v vs)
    have "in_fiber d \<Longrightarrow> in_fiber (wink_mcs51_charge_us isrs turn v d)" for d
      using charge_clock [OF assms(1,2), where us = v and c = d]
      by (simp add: clock_view_def in_fiber_def Let_def split: if_splits)
    with snoc.IH show ?case by simp
  qed (simp add: assms(4))
  from charge_billed [OF assms(1,2) IH(1) fits] fib [of us] IH(2) show ?case by simp
qed (simp add: assms(3))

text \<open>Two charges on a core that is just out of reset.\<close>

lemma clock_bills_witness:
  "\<exists>c. fold (wink_mcs51_charge_us (\<lambda>_ x. x) (\<lambda>x. x)) [4000, 7000] (demo_mcs51 ()) = c
    \<and> unat (mc_virtual_us c) = 11000 \<and> billed c \<and> unbilled_us c < WINK_MCS51_QUOTA_US"
proof -
  let ?ch = "wink_mcs51_charge_us (\<lambda>_ x. x) (\<lambda>x. x)" and ?d = "demo_mcs51 ()"
  have keep: "keeps_view clock_view (\<lambda>_ x. x)" by (simp add: keeps_view_def)
  have d: "mc_virtual_us ?d = 0" "sc_slice_start_us (mc_sched ?d) = 0" "billed ?d" "in_fiber ?d"
    by (simp_all add: demo_mcs51_def billed_def in_fiber_def)
  have c: "mc_virtual_us (?ch 4000 ?d) = 4000" "unbilled_us (?ch 4000 ?d) = 4000"
    "mc_depth (?ch 4000 ?d) = 0" by code_simp+
  have fits: "\<forall>i < length [4000, 7000 :: u32]. charge_fits (fold ?ch (take i [4000, 7000]) ?d) ([4000, 7000] ! i)"
    using d c by (simp add: less_Suc_eq charge_fits_def unbilled_us_def)
  from clock_bills_every_charge [OF keep _ d(3,4) fits] c d(1) show ?thesis by simp
qed

end
