(* ===== verification/Mcs51_Uart.thy ===== *)
theory Mcs51_Uart
  imports Mcs51_Clock "HOL-Library.Sublist"
begin

text \<open>
  The serial port of the 8051 emulation, \<^verbatim>\<open>frameworks/mcs51/src/mcs51_uart.cpp\<close>, with the choice of its
  clock on a CMS8S chip (\<^verbatim>\<open>cms8s_uart.cpp\<close>). A byte written is charged the time of its frame, recorded
  and handed to the host; bytes from the host wait in a ring whose positions are counters that wrap
  at 32 bits, and are handed to the firmware one per millisecond. Modelled is the release build: a
  misuse is counted, and the single warning of each kind is left out.
\<close>

section \<open>Readiness and rate\<close>

definition SFR_SBUF :: u8 where "SFR_SBUF = 0x99"
definition SFR_FUNCCR :: u8 where "SFR_FUNCCR = 0x91"
definition SFR_TH4 :: u8 where "SFR_TH4 = 0xE3"
definition SFR_T34MOD :: u8 where "SFR_T34MOD = 0xD2"
definition XSFR_P13CFG :: u16 where "XSFR_P13CFG = 0xF013"
definition XSFR_P21CFG :: u16 where "XSFR_P21CFG = 0xF021"
definition XSFR_BRT_CON :: u16 where "XSFR_BRT_CON = 0xF5C0"
definition XSFR_BRTDL :: u16 where "XSFR_BRTDL = 0xF5C1"
definition XSFR_BRTDH :: u16 where "XSFR_BRTDH = 0xF5C2"
definition XSFR_PS_RXD :: u16 where "XSFR_PS_RXD = 0xF69F"
definition SCON_TI :: u8 where "SCON_TI = 1"
definition SCON_RI :: u8 where "SCON_RI = 0"
definition SCON_REN :: u8 where "SCON_REN = 4"
definition SCON_SM0 :: u8 where "SCON_SM0 = 7"
definition SCON_SM1 :: u8 where "SCON_SM1 = 6"
definition PCON_SMOD0 :: u8 where "PCON_SMOD0 = 7"
definition MCS51_UART_CAPTURE_CAP :: u32 where "MCS51_UART_CAPTURE_CAP = 4096"
definition MCS51_UART_RX_FIFO_CAP :: u32 where "MCS51_UART_RX_FIFO_CAP = 64"
definition RX_BYTE_SPACING_US :: u64 where "RX_BYTE_SPACING_US = 1000"
definition WINK_MCS51_UART_NOTREADY_BAUD :: u32 where "WINK_MCS51_UART_NOTREADY_BAUD = 1"
definition WINK_MCS51_UART_NOTREADY_MODE :: u32 where "WINK_MCS51_UART_NOTREADY_MODE = 2"
definition WINK_MCS51_UART_NOTREADY_TXD :: u32 where "WINK_MCS51_UART_NOTREADY_TXD = 4"
definition WINK_MCS51_UART_NOTREADY_RXD :: u32 where "WINK_MCS51_UART_NOTREADY_RXD = 8"

definition reason_index :: "u32 \<Rightarrow> nat" where
  "reason_index reason =
    (if reason = WINK_MCS51_UART_NOTREADY_BAUD then 0 else if reason = WINK_MCS51_UART_NOTREADY_MODE then 1
     else if reason = WINK_MCS51_UART_NOTREADY_TXD then 2 else if reason = WINK_MCS51_UART_NOTREADY_RXD then 3 else 0xFF)"

definition timer1_baud_ready :: "'e mcs51 \<Rightarrow> bool" where
  "timer1_baud_ready c \<longleftrightarrow> sfr_bit c SFR_TCON TCON_TR1 \<and> drop_bit 4 (mc_sfr c SFR_TMOD) AND 3 = 2"

definition uart_notready_mask_std :: "'e mcs51 \<Rightarrow> u32" where
  "uart_notready_mask_std c =
    (if \<not> sfr_bit c SFR_SCON SCON_SM1 then WINK_MCS51_UART_NOTREADY_MODE else 0)
    OR (if \<not> timer1_baud_ready c then WINK_MCS51_UART_NOTREADY_BAUD else 0)"

definition cms8s_baud_ok :: "'e mcs51 \<Rightarrow> bool" where
  "cms8s_baud_ok c =
    (let cks = mc_sfr c SFR_FUNCCR AND 7
     in if cks = 0 then timer1_baud_ready c
        else if cks = 1 then sfr_bit c SFR_T34MOD 7
        else if cks = 2 then mc_sfr c SFR_T2CON AND 3 \<noteq> 0
        else if cks = 3 then bit (mc_xdata c XSFR_BRT_CON) 7
        else False)"

definition cms8s_uart_notready_mask :: "'e mcs51 \<Rightarrow> u32" where
  "cms8s_uart_notready_mask c =
    (let ps = mc_xdata c XSFR_PS_RXD
     in (if \<not> sfr_bit c SFR_SCON SCON_SM1 then WINK_MCS51_UART_NOTREADY_MODE else 0)
        OR (if \<not> cms8s_baud_ok c then WINK_MCS51_UART_NOTREADY_BAUD else 0)
        OR (if sfr_bit c SFR_SCON SCON_REN
            then if ps = 0x13 then (if mc_xdata c XSFR_P13CFG \<noteq> 3 then WINK_MCS51_UART_NOTREADY_RXD else 0)
                 else if ps = 0x21 then (if mc_xdata c XSFR_P21CFG \<noteq> 3 then WINK_MCS51_UART_NOTREADY_RXD else 0)
                 else 0
            else 0))"

definition uart_notready_mask_impl :: "'e mcs51 \<Rightarrow> u32" where
  "uart_notready_mask_impl c =
    (if mc_caps_cache c AND MCS51_CAP_UART_REMAP \<noteq> 0 \<and> mc_uart_hooked c then cms8s_uart_notready_mask c
     else uart_notready_mask_std c)"

definition uart_smod :: "'e mcs51 \<Rightarrow> u32" where
  "uart_smod c = (if sfr_bit c SFR_PCON PCON_SMOD0 then 2 else 1)"

definition uart_baud_hz_std :: "'e mcs51 \<Rightarrow> u32" where
  "uart_baud_hz_std c =
    (let fsys = wink_mcs51_get_clock_hz c
     in if fsys = 0 then 0
        else let t = (if mcs51_family_has_xsfr (mcs51_family_desc (mc_family c)) \<and> sfr_bit c SFR_CKCON CKCON_T1M then 1 else 3);
                 n = 256 - ucast (mc_sfr c SFR_TH1)
             in if n = 0 then 0 else (fsys * uart_smod c) div (128 * t * n))"

definition cms8s_uart_baud_hz :: "'e mcs51 \<Rightarrow> u32" where
  "cms8s_uart_baud_hz c =
    (let fsys = wink_mcs51_get_clock_hz c;
         cks = mc_sfr c SFR_FUNCCR AND 7;
         rate = (\<lambda>k n. if n = 0 then 0 else (fsys * uart_smod c) div (k * n))
     in if fsys = 0 then 0
        else if cks = 0
        then rate (128 * (if sfr_bit c SFR_CKCON CKCON_T1M then 1 else 3)) (256 - ucast (mc_sfr c SFR_TH1))
        else if cks = 1
        then if drop_bit 4 (mc_sfr c SFR_T34MOD) AND 3 \<noteq> 2 then 0
             else rate (128 * (if sfr_bit c SFR_T34MOD 6 then 1 else 3)) (256 - ucast (mc_sfr c SFR_TH4))
        else if cks = 2
        then rate (384 * (if sfr_bit c SFR_T2CON 7 then 2 else 1))
               (65536 - (push_bit 8 (ucast (mc_sfr c SFR_RLDH)) OR ucast (mc_sfr c SFR_RLDL)))
        else if cks = 3
        then rate (32 * push_bit (unat (mc_xdata c XSFR_BRT_CON AND 7)) 1)
               (65536 - (push_bit 8 (ucast (mc_xdata c XSFR_BRTDH)) OR ucast (mc_xdata c XSFR_BRTDL)))
        else 0)"

definition uart_baud_hz_impl :: "'e mcs51 \<Rightarrow> u32" where
  "uart_baud_hz_impl c =
    (if mc_caps_cache c AND MCS51_CAP_UART_REMAP \<noteq> 0 \<and> mc_uart_hooked c then cms8s_uart_baud_hz c
     else uart_baud_hz_std c)"

definition cms8s_uart_init :: "'e mcs51 \<Rightarrow> 'e mcs51" where
  "cms8s_uart_init c = (if mc_family c \<noteq> MCS51_FAMILY_CMS8S78XX then c else c\<lparr> mc_uart_hooked := True \<rparr>)"

definition cms8s_uart_reset :: "'e mcs51 \<Rightarrow> 'e mcs51" where
  "cms8s_uart_reset c = (if mc_family c \<noteq> MCS51_FAMILY_CMS8S78XX then c else c\<lparr> mc_uart_hooked := True \<rparr>)"

section \<open>Sending\<close>

definition upd_uart :: "(Mcu51UartState \<Rightarrow> Mcu51UartState) \<Rightarrow> 'e mcs51 \<Rightarrow> 'e mcs51" where
  "upd_uart f c = c\<lparr> mc_uart := f (mc_uart c) \<rparr>"

definition upd_diag :: "(Mcs51UartDiag \<Rightarrow> Mcs51UartDiag) \<Rightarrow> 'e mcs51 \<Rightarrow> 'e mcs51" where
  "upd_diag f c = c\<lparr> mc_uart_diag := f (mc_uart_diag c) \<rparr>"

definition sat_inc :: "u32 \<Rightarrow> u32" where
  "sat_inc n = (if n < 0xFFFFFFFF then n + 1 else n)"

definition uart_overwrite_policy :: "'e mcs51 \<Rightarrow> 'e mcs51" where
  "uart_overwrite_policy = upd_diag (\<lambda>d. d\<lparr> ud_overwrite := sat_inc (ud_overwrite d) \<rparr>)"

definition uart_notready_policy :: "u32 \<Rightarrow> 'e mcs51 \<Rightarrow> 'e mcs51" where
  "uart_notready_policy reasons = upd_diag (\<lambda>d. d\<lparr> ud_notready :=
     map (\<lambda>i. if bit reasons i then sat_inc (ud_notready d ! i) else ud_notready d ! i) [0 ..< 4] \<rparr>)"

definition js_pal_uart_write :: "u8 \<Rightarrow> u8 list \<Rightarrow> 'e mcs51 \<Rightarrow> 'e mcs51" where
  "js_pal_uart_write port = fold (\<lambda>b. upd_diag (\<lambda>d.
     let j = ud_tx_count d;
         d = (if j < 256 then d\<lparr> ud_tx_port := (ud_tx_port d)[unat j := port], ud_tx_byte := (ud_tx_byte d)[unat j := b] \<rparr> else d)
     in d\<lparr> ud_tx_count := j + 1 \<rparr>))"

definition sbuf_charge :: "'e mcs51_isrs \<Rightarrow> 'e mcs51_turn \<Rightarrow> 'e mcs51 \<Rightarrow> 'e mcs51" where
  "sbuf_charge isrs turn c =
    (let notready = uart_notready_mask_impl c
     in if notready \<noteq> 0 then uart_notready_policy notready c
        else let baud = uart_baud_hz_impl c;
                 c = upd_diag (\<lambda>d. d\<lparr> ud_last_baud_hz := baud \<rparr>) c
             in if baud = 0 then uart_notready_policy WINK_MCS51_UART_NOTREADY_BAUD c
                else let frame_bits = (if sfr_bit c SFR_SCON SCON_SM0 then 11 else 10)
                     in wink_mcs51_charge_us isrs turn (frame_bits * 1000000 div baud) c)"

definition capture_byte :: "u8 \<Rightarrow> Mcu51UartState \<Rightarrow> Mcu51UartState" where
  "capture_byte b u =
    (if ur_count u < MCS51_UART_CAPTURE_CAP
     then u\<lparr> ur_capture := (ur_capture u)[unat (ur_count u) := b], ur_count := ur_count u + 1 \<rparr> else u)"

definition sbuf_emit :: "'e mcs51 \<Rightarrow> 'e mcs51" where
  "sbuf_emit c =
    (let b = mc_sfr c SFR_SBUF;
         c = upd_diag (\<lambda>d. d\<lparr> ud_console := ud_console d @ [b] \<rparr>) c;
         c = upd_uart (capture_byte b) c;
         c = js_pal_uart_write 0 [b] c
     in mcs51_raise_irq IRQ_SOURCE_UART0 (sfr_set_bit SFR_SCON SCON_TI c))"

definition on_sbuf_write :: "'e mcs51_isrs \<Rightarrow> 'e mcs51_turn \<Rightarrow> 'e mcs51 \<Rightarrow> 'e mcs51" where
  "on_sbuf_write isrs turn c =
    sbuf_emit (sbuf_charge isrs turn (if sfr_bit c SFR_SCON SCON_TI then uart_overwrite_policy c else c))"

definition wink_mcs51_uart_on_write :: "'e mcs51_isrs \<Rightarrow> 'e mcs51_turn \<Rightarrow> u8 \<Rightarrow> 'e mcs51 \<Rightarrow> 'e mcs51" where
  "wink_mcs51_uart_on_write isrs turn addr c = (if addr = SFR_SBUF then on_sbuf_write isrs turn c else c)"

definition wink_mcs51_uart_capture_count :: "'e mcs51 \<Rightarrow> u32" where
  "wink_mcs51_uart_capture_count c = ur_count (mc_uart c)"

definition wink_mcs51_uart_capture_byte :: "u32 \<Rightarrow> 'e mcs51 \<Rightarrow> u8" where
  "wink_mcs51_uart_capture_byte idx c = (if idx < ur_count (mc_uart c) then ur_capture (mc_uart c) ! unat idx else 0)"

definition wink_mcs51_uart_notready_mask :: "'e mcs51 \<Rightarrow> u32" where
  "wink_mcs51_uart_notready_mask c = uart_notready_mask_impl c"

definition wink_mcs51_uart_notready_count :: "u32 \<Rightarrow> 'e mcs51 \<Rightarrow> u32" where
  "wink_mcs51_uart_notready_count reason c =
    (let idx = reason_index reason in if idx < 4 then ud_notready (mc_uart_diag c) ! idx else 0)"

definition wink_mcs51_uart_notready_total :: "'e mcs51 \<Rightarrow> u32" where
  "wink_mcs51_uart_notready_total c = (let n = ud_notready (mc_uart_diag c) in n ! 0 + n ! 1 + n ! 2 + n ! 3)"

definition wink_mcs51_uart_overwrite_total :: "'e mcs51 \<Rightarrow> u32" where
  "wink_mcs51_uart_overwrite_total c = ud_overwrite (mc_uart_diag c)"

definition wink_mcs51_uart_last_baud_hz :: "'e mcs51 \<Rightarrow> u32" where
  "wink_mcs51_uart_last_baud_hz c = ud_last_baud_hz (mc_uart_diag c)"

definition wink_mcs51_uart_byte_count :: "'e mcs51 \<Rightarrow> u32" where
  "wink_mcs51_uart_byte_count c = ur_count (mc_uart c)"

definition wink_mcs51_uart_byte_at :: "u32 \<Rightarrow> 'e mcs51 \<Rightarrow> u8" where
  "wink_mcs51_uart_byte_at i c = (if i \<ge> ur_count (mc_uart c) then 0 else ur_capture (mc_uart c) ! unat i)"

section \<open>Receiving\<close>

definition rx_drop :: "Mcu51UartState \<Rightarrow> Mcu51UartState" where
  "rx_drop u = u\<lparr> ur_rx_dropped := sat_inc (ur_rx_dropped u) \<rparr>"

definition wink_mcs51_uart_rx_push :: "u8 \<Rightarrow> 'e mcs51 \<Rightarrow> 'e mcs51" where
  "wink_mcs51_uart_rx_push b c =
    (let c = wink_mcs51_spin_guard_note_event c;
         used = ur_rx_head (mc_uart c) - ur_rx_tail (mc_uart c)
     in if used \<ge> MCS51_UART_RX_FIFO_CAP then upd_uart rx_drop c
        else upd_uart (\<lambda>u. u\<lparr> ur_rx_fifo := (ur_rx_fifo u)[unat (ur_rx_head u mod MCS51_UART_RX_FIFO_CAP) := b],
                             ur_rx_head := ur_rx_head u + 1 \<rparr>) c)"

definition rx_deliver_one :: "'e mcs51 \<Rightarrow> bool \<times> 'e mcs51" where
  "rx_deliver_one c =
    (let u = mc_uart c; now = wink_mcs51_virtual_us c
     in if ur_rx_tail u = ur_rx_head u then (False, c)
        else if \<not> sfr_bit c SFR_SCON SCON_REN then (False, c)
        else if ur_rx_have_delivered u \<and> now - ur_rx_last_deliver_us u < RX_BYTE_SPACING_US then (False, c)
        else if sfr_bit c SFR_SCON SCON_RI
        then if wink_mcs51_in_isr c then (False, c)
             else let c = upd_uart (\<lambda>u. (rx_drop (u\<lparr> ur_rx_tail := ur_rx_tail u + 1 \<rparr>))\<lparr> ur_rx_last_deliver_us := now \<rparr>) c
                  in (ur_rx_tail (mc_uart c) \<noteq> ur_rx_head (mc_uart c), c)
        else let b = ur_rx_fifo u ! unat (ur_rx_tail u mod MCS51_UART_RX_FIFO_CAP);
                 c = upd_uart (\<lambda>u. u\<lparr> ur_rx_tail := ur_rx_tail u + 1 \<rparr>) c;
                 c = sfr_set_bit SFR_SCON SCON_RI (sfr_write SFR_SBUF b c);
                 c = upd_uart (\<lambda>u. u\<lparr> ur_rx_last_deliver_us := now, ur_rx_have_delivered := True \<rparr>) c;
                 c = mcs51_raise_irq IRQ_SOURCE_UART0 c
             in (ur_rx_tail (mc_uart c) \<noteq> ur_rx_head (mc_uart c), c))"

primrec rx_drain_loop :: "nat \<Rightarrow> 'e mcs51 \<Rightarrow> 'e mcs51" where
  "rx_drain_loop 0 c = c"
| "rx_drain_loop (Suc n) c = (case rx_deliver_one c of (again, c) \<Rightarrow> if again then rx_drain_loop n c else c)"

definition wink_mcs51_uart_rx_drain :: "'e mcs51_isrs \<Rightarrow> 'e mcs51 \<Rightarrow> 'e mcs51" where
  "wink_mcs51_uart_rx_drain isrs c = snd (mcs51_irq_scan_and_dispatch isrs (rx_drain_loop 64 c))"

definition wink_mcs51_uart_rx_dropped :: "'e mcs51 \<Rightarrow> u32" where
  "wink_mcs51_uart_rx_dropped c = ur_rx_dropped (mc_uart c)"

section \<open>Reset and polling\<close>

definition mcs51_uart_reset :: "'e mcs51 \<Rightarrow> 'e mcs51" where
  "mcs51_uart_reset c =
    (let c = upd_diag (\<lambda>d. d\<lparr> ud_notready := replicate 4 0, ud_overwrite := 0 \<rparr>) c;
         c = upd_uart (\<lambda>u. u\<lparr> ur_count := 0, ur_capture := (ur_capture u)[0 := 0] \<rparr>) c;
         c = sfr_clear_bit SFR_SCON SCON_RI (sfr_clear_bit SFR_SCON SCON_TI c);
         c = upd_uart (\<lambda>u. u\<lparr> ur_rx_head := 0, ur_rx_tail := 0, ur_rx_dropped := 0, ur_rx_have_delivered := False,
               ur_rx_last_deliver_us := 0 \<rparr>) c;
         c = upd_diag (\<lambda>d. d\<lparr> ud_last_baud_hz := 0 \<rparr>) c
     in mcs51_trap_register_sfr_write SFR_SBUF (Some sfr_hook_uart) c)"

definition mcs51_uart_init :: "'e mcs51 \<Rightarrow> 'e mcs51" where
  "mcs51_uart_init c = mcs51_uart_reset c"

definition mcs51_uart_poll :: "'e mcs51_isrs \<Rightarrow> 'e mcs51 \<Rightarrow> 'e mcs51" where
  "mcs51_uart_poll isrs c = wink_mcs51_uart_rx_drain isrs c"

definition mcs51_uart_next_event_us :: "'e mcs51 \<Rightarrow> u64" where
  "mcs51_uart_next_event_us c =
    (let u = mc_uart c
     in if ur_rx_tail u \<noteq> ur_rx_head u
        then if \<not> ur_rx_have_delivered u then mc_virtual_us c
             else let earliest = ur_rx_last_deliver_us u + RX_BYTE_SPACING_US
                  in if earliest > mc_virtual_us c then earliest else mc_virtual_us c
        else -1)"

section \<open>The bytes that wait\<close>

text \<open>What reception reads, left alone by interrupts, timers, the passage of time and sending.\<close>

definition rx_view :: "'e mcs51 \<Rightarrow> u8 list \<times> u32 \<times> u32 \<times> u32 \<times> u64 \<times> bool" where
  "rx_view c = (let u = mc_uart c in (ur_rx_fifo u, ur_rx_head u, ur_rx_tail u, ur_rx_dropped u, ur_rx_last_deliver_us u,
     ur_rx_have_delivered u))"

interpretation rx: mcs51_untimed rx_view
  by unfold_locales (simp_all add: rx_view_def)

lemma rx_view_diag: "rx_view (upd_diag f c) = rx_view c"
  by (simp add: rx_view_def upd_diag_def)

lemma rx_view_capture: "rx_view (upd_uart (capture_byte b) c) = rx_view c"
  by (simp add: rx_view_def upd_uart_def capture_byte_def Let_def)

lemma rx_view_host: "rx_view (js_pal_uart_write port bs c) = rx_view c"
  unfolding js_pal_uart_write_def by (induction bs arbitrary: c) (simp_all add: rx_view_diag)

lemma rx_view_send:
  assumes "keeps_view rx_view isrs" "\<And>c. rx_view (turn c) = rx_view c"
  shows "rx_view (on_sbuf_write isrs turn c) = rx_view c"
proof -
  have "rx_view (sbuf_charge isrs turn d) = rx_view d" for d
    by (simp add: sbuf_charge_def Let_def uart_notready_policy_def rx_view_diag rx.view_charge [OF assms])
  then show ?thesis
    by (simp add: on_sbuf_write_def sbuf_emit_def Let_def rx.view_raise rx.view_registers rx_view_diag rx_view_host rx_view_capture
        uart_overwrite_policy_def)
qed

definition rx_bytes :: "'e mcs51 \<Rightarrow> u8 list" where
  "rx_bytes c = (let u = mc_uart c
     in map (\<lambda>i. ur_rx_fifo u ! unat ((ur_rx_tail u + of_nat i) mod MCS51_UART_RX_FIFO_CAP))
          [0 ..< unat (ur_rx_head u - ur_rx_tail u)])"

definition rx_ok :: "'e mcs51 \<Rightarrow> bool" where
  "rx_ok c \<longleftrightarrow> length (ur_rx_fifo (mc_uart c)) = 64 \<and> unat (ur_rx_head (mc_uart c) - ur_rx_tail (mc_uart c)) \<le> 64"

lemma rx_view_cong:
  assumes "rx_view c = rx_view d"
  shows "rx_ok c = rx_ok d" "rx_bytes c = rx_bytes d" "ur_rx_dropped (mc_uart c) = ur_rx_dropped (mc_uart d)"
    "ur_rx_tail (mc_uart c) = ur_rx_tail (mc_uart d)"
  using assms by (simp_all add: rx_view_def rx_ok_def rx_bytes_def Let_def)

text \<open>The capacity divides the range of the counters, so that a slot is found across their wrap.\<close>

lemma rx_slot: "unat ((t + of_nat i) mod MCS51_UART_RX_FIFO_CAP) = (unat t + i) mod 64" for t :: u32
proof -
  have "unat (t + of_nat i) mod 64 = (unat t + i) mod 64"
    by (simp add: unat_word_ariths unat_of_nat mod_simps mod_mod_cancel)
  then show ?thesis by (simp add: MCS51_UART_RX_FIFO_CAP_def unat_mod_distrib)
qed

lemma rx_slot_head: "unat (h mod MCS51_UART_RX_FIFO_CAP) = (unat t + unat (h - t)) mod 64" for h t :: u32
  using rx_slot [of t "unat (h - t)"] by simp

lemma rx_slots_differ: "i < n \<Longrightarrow> n < 64 \<Longrightarrow> (a + i) mod 64 \<noteq> (a + n) mod (64 :: nat)"
  by (metis add_diff_cancel_left add_less_cancel_left dvd_imp_le leD less_imp_diff_less less_imp_le_nat mod_eq_dvd_iff_nat
      zero_less_diff)

lemma rx_push_bytes:
  fixes b :: u8
  assumes "rx_ok c"
  defines "c' \<equiv> wink_mcs51_uart_rx_push b c"
  shows "rx_ok c' \<and> (if length (rx_bytes c) < 64
      then rx_bytes c' = rx_bytes c @ [b] \<and> ur_rx_dropped (mc_uart c') = ur_rx_dropped (mc_uart c)
      else rx_bytes c' = rx_bytes c \<and> ur_rx_dropped (mc_uart c') = sat_inc (ur_rx_dropped (mc_uart c)))"
proof -
  let ?u = "mc_uart c"
  let ?n = "unat (ur_rx_head ?u - ur_rx_tail ?u)"
  have len: "length (rx_bytes c) = ?n" by (simp add: rx_bytes_def Let_def)
  have noted: "mc_uart (wink_mcs51_spin_guard_note_event c) = ?u" by (simp add: wink_mcs51_spin_guard_note_event_def)
  have used: "MCS51_UART_RX_FIFO_CAP \<le> ur_rx_head ?u - ur_rx_tail ?u \<longleftrightarrow> 64 \<le> ?n"
    by (simp add: word_le_nat_alt MCS51_UART_RX_FIFO_CAP_def)
  show ?thesis
  proof (cases "?n < 64")
    case False
    then have "mc_uart c' = rx_drop ?u"
      by (simp add: c'_def wink_mcs51_uart_rx_push_def Let_def noted used upd_uart_def)
    with False assms(1) show ?thesis by (simp add: len rx_ok_def rx_bytes_def rx_drop_def Let_def)
  next
    case True
    then have u: "mc_uart c' = ?u\<lparr> ur_rx_fifo := (ur_rx_fifo ?u)[(unat (ur_rx_tail ?u) + ?n) mod 64 := b],
        ur_rx_head := ur_rx_head ?u + 1 \<rparr>"
      by (simp add: c'_def wink_mcs51_uart_rx_push_def Let_def noted used upd_uart_def rx_slot_head [of _ "ur_rx_tail ?u"])
    have n: "unat (ur_rx_head ?u + 1 - ur_rx_tail ?u) = Suc ?n"
    proof -
      have "ur_rx_head ?u + 1 - ur_rx_tail ?u = (ur_rx_head ?u - ur_rx_tail ?u) + 1" by simp
      then show ?thesis using True by (simp only: unat_word_ariths) simp
    qed
    have "rx_bytes c' = rx_bytes c @ [b]"
      using assms(1) True
      by (auto simp: rx_bytes_def Let_def u n rx_slot rx_ok_def nth_list_update dest: rx_slots_differ [THEN not_sym])
    with True assms(1) show ?thesis by (simp add: len u n rx_ok_def)
  qed
qed

text \<open>The head of the queue is taken.\<close>

lemma rx_take_bytes:
  assumes "rx_ok c" "ur_rx_tail (mc_uart c) \<noteq> ur_rx_head (mc_uart c)"
    "rx_view c' = (ur_rx_fifo (mc_uart c), ur_rx_head (mc_uart c), ur_rx_tail (mc_uart c) + 1, d, l, h)"
  shows "rx_ok c'" "rx_bytes c = ur_rx_fifo (mc_uart c) ! unat (ur_rx_tail (mc_uart c) mod MCS51_UART_RX_FIFO_CAP) # rx_bytes c'"
proof -
  let ?u = "mc_uart c"
  let ?n = "unat (ur_rx_head ?u - (ur_rx_tail ?u + 1))"
  have u: "ur_rx_fifo (mc_uart c') = ur_rx_fifo ?u" "ur_rx_head (mc_uart c') = ur_rx_head ?u"
    "ur_rx_tail (mc_uart c') = ur_rx_tail ?u + 1" using assms(3) by (simp_all add: rx_view_def Let_def)
  have ne: "ur_rx_head ?u - ur_rx_tail ?u \<noteq> 0" using assms(2) by simp
  have n: "unat (ur_rx_head ?u - ur_rx_tail ?u) = Suc ?n"
    using unat_minus_one [OF ne] unat_gt_0 [of "ur_rx_head ?u - ur_rx_tail ?u"] ne by (simp add: algebra_simps)
  then show "rx_ok c'" using assms(1) by (simp add: rx_ok_def u)
  have shift: "ur_rx_tail ?u + of_nat (Suc i) = ur_rx_tail ?u + 1 + of_nat i" for i by simp
  show "rx_bytes c = ur_rx_fifo ?u ! unat (ur_rx_tail ?u mod MCS51_UART_RX_FIFO_CAP) # rx_bytes c'"
    unfolding rx_bytes_def Let_def u n upt_conv_Cons [OF zero_less_Suc] list.map map_Suc_upt [symmetric] map_map
    by (simp add: comp_def add.assoc)
qed

section \<open>What becomes of a byte\<close>

text \<open>A history of the receiver: the context, the bytes the host has pushed and the bytes that were handed
  to the firmware. Whatever else happens leaves the queue alone.\<close>

definition rx_handed :: "'e mcs51 \<Rightarrow> 'e mcs51 \<Rightarrow> u8 list" where
  "rx_handed c c' = (if ur_rx_tail (mc_uart c') \<noteq> ur_rx_tail (mc_uart c) \<and> \<not> sfr_bit c SFR_SCON SCON_RI
     then [mc_sfr c' SFR_SBUF] else [])"

inductive rx_step :: "'e mcs51 \<times> u8 list \<times> u8 list \<Rightarrow> 'e mcs51 \<times> u8 list \<times> u8 list \<Rightarrow> bool" where
  push: "rx_step (c, ps, ds) (wink_mcs51_uart_rx_push b c, ps @ [b], ds)"
| deliver: "rx_deliver_one c = (m, c') \<Longrightarrow> rx_step (c, ps, ds) (c', ps, ds @ rx_handed c c')"
| other: "rx_view c' = rx_view c \<Longrightarrow> rx_step (c, ps, ds) (c', ps, ds)"

inductive_cases rx_step_elim: "rx_step x y"

lemma raise_uart_sfr: "mc_sfr (mcs51_raise_irq IRQ_SOURCE_UART0 c) = mc_sfr c"
  by (simp add: mcs51_raise_irq_def Let_def irq_set_flag_def post_wake_event_def wink_mcs51_spin_guard_note_event_def
      split: prod.split)

text \<open>One attempt to deliver: nothing happens, the oldest byte is lost, or it is handed over.\<close>

lemma rx_deliver_cases:
  assumes "rx_deliver_one c = (m, c')" "rx_ok c"
  obtains (waits) "rx_view c' = rx_view c" "rx_handed c c' = []"
    | (lost) "rx_ok c'" "rx_bytes c = hd (rx_bytes c) # rx_bytes c'" "rx_handed c c' = []"
      "ur_rx_dropped (mc_uart c') = sat_inc (ur_rx_dropped (mc_uart c))"
    | (handed) "rx_ok c'" "rx_bytes c = hd (rx_bytes c) # rx_bytes c'" "rx_handed c c' = [hd (rx_bytes c)]"
      "ur_rx_dropped (mc_uart c') = ur_rx_dropped (mc_uart c)"
proof -
  let ?u = "mc_uart c"
  let ?idle = "ur_rx_tail ?u = ur_rx_head ?u \<or> \<not> sfr_bit c SFR_SCON SCON_REN
    \<or> ur_rx_have_delivered ?u \<and> wink_mcs51_virtual_us c - ur_rx_last_deliver_us ?u < RX_BYTE_SPACING_US"
  have tail: "ur_rx_tail ?u + 1 \<noteq> ur_rx_tail ?u" by simp
  consider "c' = c" | "\<not> ?idle" "sfr_bit c SFR_SCON SCON_RI"
      "c' = upd_uart (\<lambda>u. (rx_drop (u\<lparr> ur_rx_tail := ur_rx_tail u + 1 \<rparr>))\<lparr> ur_rx_last_deliver_us := wink_mcs51_virtual_us c \<rparr>) c"
    | "\<not> ?idle" "\<not> sfr_bit c SFR_SCON SCON_RI"
      "c' = mcs51_raise_irq IRQ_SOURCE_UART0
        (upd_uart (\<lambda>u. u\<lparr> ur_rx_last_deliver_us := wink_mcs51_virtual_us c, ur_rx_have_delivered := True \<rparr>)
          (sfr_set_bit SFR_SCON SCON_RI (sfr_write SFR_SBUF (ur_rx_fifo ?u ! unat (ur_rx_tail ?u mod MCS51_UART_RX_FIFO_CAP))
            (upd_uart (\<lambda>u. u\<lparr> ur_rx_tail := ur_rx_tail u + 1 \<rparr>) c))))"
    using assms(1) by (auto simp: rx_deliver_one_def Let_def split: if_splits)
  then show thesis
  proof cases
    case 1
    then show thesis by (intro waits) (simp_all add: rx_handed_def)
  next
    case 2
    have view: "rx_view c' = (ur_rx_fifo ?u, ur_rx_head ?u, ur_rx_tail ?u + 1, sat_inc (ur_rx_dropped ?u),
        wink_mcs51_virtual_us c, ur_rx_have_delivered ?u)"
      unfolding 2(3) by (simp add: rx_view_def upd_uart_def rx_drop_def Let_def)
    have ne: "ur_rx_tail ?u \<noteq> ur_rx_head ?u" using 2(1) by simp
    note t = rx_take_bytes [OF assms(2) ne view]
    show thesis
      using lost [OF t(1)] t(2) view 2(2) by (simp add: rx_handed_def rx_view_def Let_def)
  next
    case 3
    have view: "rx_view c' = (ur_rx_fifo ?u, ur_rx_head ?u, ur_rx_tail ?u + 1, ur_rx_dropped ?u,
        wink_mcs51_virtual_us c, True)"
      unfolding 3(3) rx.view_raise by (simp add: rx_view_def upd_uart_def sfr_set_bit_def sfr_write_def Let_def)
    have ne: "ur_rx_tail ?u \<noteq> ur_rx_head ?u" using 3(1) by simp
    note t = rx_take_bytes [OF assms(2) ne view]
    have "mc_sfr c' SFR_SBUF = hd (rx_bytes c)"
      unfolding 3(3) raise_uart_sfr t(2)
      by (simp add: upd_uart_def sfr_set_bit_def sfr_write_def SFR_SBUF_def SFR_SCON_def)
    then show thesis
      using handed [OF t(1)] t(2) view 3(2) by (simp add: rx_handed_def rx_view_def Let_def)
  qed
qed

definition rx_accounted :: "'e mcs51 \<times> u8 list \<times> u8 list \<Rightarrow> bool" where
  "rx_accounted = (\<lambda>(c, ps, ds). rx_ok c \<and> subseq (ds @ rx_bytes c) ps
     \<and> (ur_rx_dropped (mc_uart c) < 0xFFFFFFFF
        \<longrightarrow> length ps = length ds + length (rx_bytes c) + unat (ur_rx_dropped (mc_uart c))))"

lemma sat_inc_less: "sat_inc n < 0xFFFFFFFF \<Longrightarrow> n < 0xFFFFFFFF \<and> unat (sat_inc n) = Suc (unat n)"
proof -
  assume a: "sat_inc n < 0xFFFFFFFF"
  then have n: "n < 0xFFFFFFFF" by (auto simp: sat_inc_def split: if_splits)
  then have "unat n + 1 < 2 ^ 32" by (simp add: word_less_nat_alt)
  with n show ?thesis by (simp add: sat_inc_def unat_word_ariths)
qed

lemma rx_step_accounted: "rx_step x y \<Longrightarrow> rx_accounted x \<Longrightarrow> rx_accounted y"
proof (induction rule: rx_step.induct)
  case (push c ps ds b)
  then have ok: "rx_ok c" by (simp add: rx_accounted_def)
  have "subseq (ds @ rx_bytes c) (ps @ [b])" "subseq (ds @ rx_bytes c @ [b]) (ps @ [b])"
    using push list_emb_append_mono [of "(=)" "ds @ rx_bytes c" ps "[b]" "[b]"]
    by (auto simp: rx_accounted_def intro: subseq_order.trans)
  with push rx_push_bytes [OF ok, of b] show ?case
    by (auto simp: rx_accounted_def dest: sat_inc_less split: if_splits)
next
  case (deliver c m c' ps ds)
  then have ok: "rx_ok c" and acc: "rx_accounted (c, ps, ds)" by (simp_all add: rx_accounted_def)
  show ?case
    using deliver.hyps ok
  proof (cases rule: rx_deliver_cases)
    case waits
    with acc waits(2) rx_view_cong [OF waits(1)] show ?thesis by (simp add: rx_accounted_def)
  next
    case lost
    have "subseq (ds @ rx_bytes c') (ds @ rx_bytes c)"
      by (subst lost(2)) (intro list_emb_append_mono list_emb_Cons subseq_order.order_refl)
    moreover have "length (rx_bytes c) = Suc (length (rx_bytes c'))" by (subst lost(2)) simp
    moreover have "subseq (ds @ rx_bytes c) ps" using acc by (simp add: rx_accounted_def)
    ultimately show ?thesis using acc lost(1,3,4) subseq_order.trans [of "ds @ rx_bytes c'"]
      by (simp add: rx_accounted_def) (metis sat_inc_less add_Suc add_Suc_right)
  next
    case handed
    have "(ds @ rx_handed c c') @ rx_bytes c' = ds @ rx_bytes c" using handed(2,3) by simp
    moreover have "length (rx_bytes c) = Suc (length (rx_bytes c'))" by (subst handed(2)) simp
    ultimately show ?thesis using acc handed(1,3,4) by (simp add: rx_accounted_def del: append_assoc)
  qed
next
  case (other c' c ps ds)
  with rx_view_cong [OF other(1)] show ?case by (simp add: rx_accounted_def)
qed

text \<open>C37: no byte the host pushes is invented, reordered or silently lost. In every history of pushes,
  attempts to deliver and anything else that leaves the queue alone, what the firmware was handed
  followed by what waits is a subsequence of what was pushed, at most 64 bytes wait, and the
  missing ones are the count of dropped bytes as long as that has not saturated; the positions may
  wrap at 32 bits.\<close>
theorem uart_bytes_accounted:
  assumes "rx_step\<^sup>*\<^sup>* (c0, [], []) (c, ps, ds)" "rx_ok c0" "rx_bytes c0 = []" "ur_rx_dropped (mc_uart c0) = 0"
  shows "rx_ok c \<and> length (rx_bytes c) \<le> 64 \<and> subseq (ds @ rx_bytes c) ps
    \<and> (ur_rx_dropped (mc_uart c) < 0xFFFFFFFF
       \<longrightarrow> length ps = length ds + length (rx_bytes c) + unat (ur_rx_dropped (mc_uart c)))"
proof -
  have "rx_accounted (c0, [], [])" using assms(2-4) by (simp add: rx_accounted_def)
  with assms(1) have "rx_accounted (c, ps, ds)"
    by (induction rule: rtranclp_induct) (auto dest: rx_step_accounted)
  then show ?thesis by (simp add: rx_accounted_def rx_ok_def rx_bytes_def Let_def)
qed

text \<open>Two bytes pushed to a receiver that is enabled, the first handed over; the positions start just below
  their wrap.\<close>

definition demo_rx :: "unit mcs51" where
  "demo_rx = upd_uart (\<lambda>u. u\<lparr> ur_rx_head := -1, ur_rx_tail := -1 \<rparr>) (sfr_write SFR_SCON 0x50 (demo_mcs51 ()))"

lemma uart_bytes_witness:
  "\<exists>c. rx_step\<^sup>*\<^sup>* (demo_rx, [], []) (c, [65, 66], [65]) \<and> subseq (65 # rx_bytes c) [65, 66]
    \<and> length (rx_bytes c) = 1"
proof -
  let ?c = "wink_mcs51_uart_rx_push 66 (wink_mcs51_uart_rx_push 65 demo_rx)"
  define c' where "c' = snd (rx_deliver_one ?c)"
  have h: "rx_handed ?c c' = [65]" unfolding c'_def by code_simp
  have "rx_step (demo_rx, [], []) (wink_mcs51_uart_rx_push 65 demo_rx, [65], [])"
    "rx_step (wink_mcs51_uart_rx_push 65 demo_rx, [65], []) (?c, [65, 66], [])"
    using rx_step.push [of demo_rx "[]" "[]" 65] rx_step.push [of "wink_mcs51_uart_rx_push 65 demo_rx" "[65]" "[]" 66]
    by simp_all
  moreover have "rx_step (?c, [65, 66], []) (c', [65, 66], [65])"
    using rx_step.deliver [of ?c "fst (rx_deliver_one ?c)" c' "[65, 66]" "[]"] h by (simp add: c'_def)
  ultimately have run: "rx_step\<^sup>*\<^sup>* (demo_rx, [], []) (c', [65, 66], [65])"
    by (meson rtranclp.rtrancl_refl rtranclp.rtrancl_into_rtrancl)
  have ok: "rx_ok demo_rx" "rx_bytes demo_rx = []" "ur_rx_dropped (mc_uart demo_rx) = 0"
    by (simp_all add: demo_rx_def upd_uart_def sfr_write_def demo_mcs51_def rx_ok_def rx_bytes_def)
  have d: "ur_rx_dropped (mc_uart c') = 0" unfolding c'_def by code_simp
  from uart_bytes_accounted [OF run ok] d run show ?thesis by auto
qed

section \<open>Sending a byte\<close>

text \<open>Outside of a fiber a byte written while the port is ready takes its ten or eleven bits at the rate of
  its clock, is captured and handed to the host, and raises the transmit flag.\<close>

lemma sbuf_write_ready:
  assumes "uart_notready_mask_impl c = 0" "uart_baud_hz_impl c \<noteq> 0" "\<not> in_fiber c" "\<not> sfr_bit c SFR_SCON SCON_TI"
    "sfr_bit c SFR_SCON SCON_SM0 = (bits = 11)" "bits = 10 \<or> bits = 11"
  shows "mc_virtual_us (on_sbuf_write isrs turn c) = mc_virtual_us c + ucast (bits * 1000000 div uart_baud_hz_impl c)"
    "sfr_bit (on_sbuf_write isrs turn c) SFR_SCON SCON_TI"
proof -
  have raise: "mc_virtual_us (mcs51_raise_irq s d) = mc_virtual_us d" for s d
    using clock.view_raise [of s d] by (simp add: clock_view_def)
  let ?d = "upd_diag (\<lambda>d. d\<lparr> ud_last_baud_hz := uart_baud_hz_impl c \<rparr>) c"
  have bit: "(if sfr_bit ?d SFR_SCON SCON_SM0 then 11 else 10) = bits"
    using assms(5,6) by (auto simp: sfr_bit_def upd_diag_def)
  have outside: "\<not> in_fiber d \<Longrightarrow> mc_virtual_us (wink_mcs51_charge_us isrs turn us d) = mc_virtual_us d + ucast us" for us d
    by (simp add: wink_mcs51_charge_us_def in_fiber_def)
  have d: "\<not> in_fiber ?d" "mc_virtual_us ?d = mc_virtual_us c" using assms(3) by (simp_all add: in_fiber_def upd_diag_def)
  have "mc_virtual_us (sbuf_charge isrs turn c) = mc_virtual_us c + ucast (bits * 1000000 div uart_baud_hz_impl c)"
    unfolding sbuf_charge_def Let_def bit using assms(1,2) outside [OF d(1)] d(2) by simp
  note charge = this
  show "mc_virtual_us (on_sbuf_write isrs turn c) = mc_virtual_us c + ucast (bits * 1000000 div uart_baud_hz_impl c)"
    using assms(4) charge
    by (simp add: on_sbuf_write_def sbuf_emit_def Let_def raise sfr_set_bit_def js_pal_uart_write_def upd_uart_def upd_diag_def)
  show "sfr_bit (on_sbuf_write isrs turn c) SFR_SCON SCON_TI"
    by (simp add: on_sbuf_write_def sbuf_emit_def Let_def sfr_bit_def raise_uart_sfr sfr_set_bit_def SCON_TI_def bit_simps)
qed

end
