(* ===== verification/Mcs51_Extint.thy ===== *)
theory Mcs51_Extint
  imports Mcs51_Clock
begin

text \<open>
  The external interrupts INT0 and INT1 of the 8051 emulation, \<^verbatim>\<open>frameworks/mcs51/src/mcs51_extint.cpp\<close>:
  two lines whose pins are sampled every ten milliseconds, or at once after a timed edge, and which
  request on a falling edge or on a low level.
\<close>

section \<open>Operations\<close>

definition EXT_LOW :: u8 where "EXT_LOW = 0"
definition EXT_HIGH :: u8 where "EXT_HIGH = 1"
definition TCON_IT0 :: u8 where "TCON_IT0 = 0"
definition TCON_IE0 :: u8 where "TCON_IE0 = 1"
definition TCON_IT1 :: u8 where "TCON_IT1 = 2"
definition TCON_IE1 :: u8 where "TCON_IE1 = 3"
definition IE_EX0 :: u8 where "IE_EX0 = 0"
definition IE_EX1 :: u8 where "IE_EX1 = 2"
definition VECTOR_INT0 :: u8 where "VECTOR_INT0 = 0"
definition VECTOR_INT1 :: u8 where "VECTOR_INT1 = 2"
definition PIN_INT0 :: u16 where "PIN_INT0 = 26"
definition PIN_INT1 :: u16 where "PIN_INT1 = 27"
definition SAMPLE_PERIOD_US :: u64 where "SAMPLE_PERIOD_US = 10000"

definition resolve_int_pin :: "u16 \<Rightarrow> u16 \<Rightarrow> 'e mcs51 \<Rightarrow> u16" where
  "resolve_int_pin ps_addr fallback_pin c = resolve_selected_pin ps_addr fallback_pin c"

definition int_line :: "nat \<Rightarrow> 'e mcs51 \<Rightarrow> Mcu51ExtIntLine" where
  "int_line i c = xi_lines (mc_extint c) ! i"

definition upd_line :: "nat \<Rightarrow> (Mcu51ExtIntLine \<Rightarrow> Mcu51ExtIntLine) \<Rightarrow> 'e mcs51 \<Rightarrow> 'e mcs51" where
  "upd_line i f c = c\<lparr> mc_extint := (mc_extint c)\<lparr> xi_lines := (xi_lines (mc_extint c))[i := f (int_line i c)] \<rparr> \<rparr>"

definition upd_extint :: "(Mcu51ExtIntState \<Rightarrow> Mcu51ExtIntState) \<Rightarrow> 'e mcs51 \<Rightarrow> 'e mcs51" where
  "upd_extint f c = c\<lparr> mc_extint := f (mc_extint c) \<rparr>"

definition line_request :: "Mcu51ExtIntLine \<Rightarrow> bool \<Rightarrow> bool \<Rightarrow> 'e mcs51 \<Rightarrow> 'e mcs51" where
  "line_request ln falling now_low c =
    (let raise = mcs51_raise_irq (if xl_vector ln = VECTOR_INT0 then IRQ_SOURCE_INT0 else IRQ_SOURCE_INT1)
     in if sfr_bit c SFR_TCON (xl_it_bit ln)
        then let c = (if falling then sfr_set_bit SFR_TCON (xl_ie_bit ln) c else c)
             in if sfr_bit c SFR_TCON (xl_ie_bit ln) then raise c else c
        else if now_low then raise c else c)"

definition poll_line :: "nat \<Rightarrow> 'e mcs51 \<Rightarrow> 'e mcs51" where
  "poll_line i c =
    (let ln = int_line i c;
         pin = resolve_int_pin (xl_ps_addr ln) (xl_fallback_pin ln) c;
         mux_changed = (pin \<noteq> xl_pin ln);
         c = (if mux_changed then upd_line i (\<lambda>l. l\<lparr> xl_pin := pin, xl_last_level := 0xFF, xl_have_sample := False \<rparr>) c else c);
         ln = int_line i c;
         st = js_pal_gpio_read_state (xl_pin ln) c
     in if st \<noteq> EXT_LOW \<and> st \<noteq> EXT_HIGH then c
        else let was_low = (xl_last_level ln = EXT_LOW);
                 now_low = (st = EXT_LOW);
                 falling = (\<not> mux_changed \<and> xl_have_sample ln \<and> \<not> was_low \<and> now_low);
                 c = upd_line i (\<lambda>l. l\<lparr> xl_last_level := st, xl_have_sample := True \<rparr>) c
             in line_request ln falling now_low c)"

definition init_line :: "u16 \<Rightarrow> u8 \<Rightarrow> u8 \<Rightarrow> u8 \<Rightarrow> u8 \<Rightarrow> Mcu51ExtIntLine \<Rightarrow> Mcu51ExtIntLine" where
  "init_line pin vector it ie ex l =
    (let l = l\<lparr> xl_pin := pin, xl_fallback_pin := pin, xl_ps_addr := SELECTOR_NONE, xl_vector := vector, xl_it_bit := it,
               xl_ie_bit := ie, xl_ex_bit := ex \<rparr>
     in if \<not> xl_have_sample l then l\<lparr> xl_last_level := 0xFF \<rparr> else l)"

definition mcs51_extint_init :: "'e mcs51 \<Rightarrow> 'e mcs51" where
  "mcs51_extint_init c =
    upd_extint (\<lambda>x. x\<lparr> xi_sample_due := True, xi_in_poll := False \<rparr>)
      (upd_line 1 (init_line PIN_INT1 VECTOR_INT1 TCON_IT1 TCON_IE1 IE_EX1)
        (upd_line 0 (init_line PIN_INT0 VECTOR_INT0 TCON_IT0 TCON_IE0 IE_EX0) c))"

definition mcs51_extint_reset :: "'e mcs51 \<Rightarrow> 'e mcs51" where
  "mcs51_extint_reset c =
    (let c = (if xl_fallback_pin (int_line 0 c) = 0 then mcs51_extint_init c else c);
         c = upd_extint (\<lambda>x. x\<lparr> xi_lines := map (\<lambda>l. l\<lparr> xl_last_sample_us := 0 \<rparr>) (xi_lines x), xi_sample_due := True \<rparr>) c;
         c = sfr_clear_bit SFR_TCON TCON_IE1 (sfr_clear_bit SFR_TCON TCON_IE0 c)
     in wink_mcs51_clear_irq IRQ_SOURCE_INT1 (wink_mcs51_clear_irq IRQ_SOURCE_INT0 c))"

definition sample_line :: "bool \<Rightarrow> u64 \<Rightarrow> nat \<Rightarrow> 'e mcs51 \<Rightarrow> 'e mcs51" where
  "sample_line force now i c =
    (let ln = int_line i c
     in if \<not> force \<and> xl_have_sample ln \<and> now - xl_last_sample_us ln < SAMPLE_PERIOD_US then c
        else poll_line i (upd_line i (\<lambda>l. l\<lparr> xl_last_sample_us := now \<rparr>) c))"

definition mcs51_extint_poll :: "'e mcs51 \<Rightarrow> 'e mcs51" where
  "mcs51_extint_poll c =
    (let c = (if xl_fallback_pin (int_line 0 c) = 0 then mcs51_extint_init c else c)
     in if xi_in_poll (mc_extint c) then c
        else let force = xi_sample_due (mc_extint c);
                 c = upd_extint (\<lambda>x. x\<lparr> xi_in_poll := True, xi_sample_due := False \<rparr>) c;
                 now = wink_mcs51_virtual_us c
             in upd_extint (\<lambda>x. x\<lparr> xi_in_poll := False \<rparr>) (sample_line force now 1 (sample_line force now 0 c)))"

definition mcs51_extint_next_event_us :: "'e mcs51 \<Rightarrow> u64" where
  "mcs51_extint_next_event_us c =
    (let earliest = fold (\<lambda>ln e. let next = xl_last_sample_us ln + SAMPLE_PERIOD_US in if next < e then next else e)
           (xi_lines (mc_extint c)) (-1)
     in if earliest = -1 then -1
        else if earliest > mc_virtual_us c then earliest else mc_virtual_us c)"

section \<open>One request per falling edge\<close>

text \<open>What a line reads beside the registers; interrupts, timers and the clock leave it alone.\<close>

definition int_view :: "'e mcs51 \<Rightarrow> Mcu51ExtIntState \<times> u8 list \<times> mcs51_irq_map_entry_t list \<times> u8" where
  "int_view c = (mc_extint c, mc_ext_pins c, mc_irq_map c, mc_family c)"

interpretation ints: mcs51_untimed int_view
  by unfold_locales (simp_all add: int_view_def)

text \<open>Line \<open>i\<close> on its own pin, requesting on falling edges, with a vector the part has.\<close>

definition int_source :: "nat \<Rightarrow> nat" where "int_source i = (if i = 0 then IRQ_SOURCE_INT0 else IRQ_SOURCE_INT1)"

definition edge_line :: "nat \<Rightarrow> 'e mcs51 \<Rightarrow> bool" where
  "edge_line i c \<longleftrightarrow> i < 2 \<and> length (xi_lines (mc_extint c)) = 2 \<and> length (mc_ext_pins c) = 32
     \<and> xl_ps_addr (int_line i c) = SELECTOR_NONE \<and> xl_fallback_pin (int_line i c) = PIN_INT0 + of_nat i
     \<and> xl_pin (int_line i c) = PIN_INT0 + of_nat i
     \<and> xl_it_bit (int_line i c) = 2 * of_nat i \<and> xl_ie_bit (int_line i c) = 2 * of_nat i + 1
     \<and> xl_vector (int_line i c) = (if i = 0 then VECTOR_INT0 else VECTOR_INT1)
     \<and> family_vector_reachable c (im_vector (mc_irq_map c ! int_source i))
     \<and> sfr_bit c SFR_TCON (2 * of_nat i)"

text \<open>What the arbiter needs to see to serve the line: the latched request and the flag it checks.\<close>

definition int_pending :: "nat \<Rightarrow> 'e mcs51 \<Rightarrow> bool" where
  "int_pending i c \<longleftrightarrow> bit (wink_mcs51_get_pending_interrupts c) (int_source i) \<and> sfr_bit c SFR_TCON (2 * of_nat i + 1)"

text \<open>The host drives a level, the firmware has taken back the last request, the line is sampled; the
  requests are counted.\<close>

definition int_acknowledged :: "nat \<Rightarrow> 'e mcs51 \<Rightarrow> 'e mcs51" where
  "int_acknowledged i c = sfr_clear_bit SFR_TCON (2 * of_nat i + 1) (wink_mcs51_clear_irq (int_source i) c)"

definition line_sample :: "nat \<Rightarrow> u8 \<Rightarrow> 'e mcs51 \<Rightarrow> 'e mcs51" where
  "line_sample i level c = poll_line i (wink_mcs51_host_set_ext_pin (PIN_INT0 + of_nat i) level (int_acknowledged i c))"

primrec requests_on :: "nat \<Rightarrow> u8 list \<Rightarrow> 'e mcs51 \<Rightarrow> nat" where
  "requests_on i [] c = 0"
| "requests_on i (x # xs) c = of_bool (int_pending i (line_sample i x c)) + requests_on i xs (line_sample i x c)"

definition falls :: "u8 list \<Rightarrow> nat" where
  "falls ys = length (filter (\<lambda>(a, b). a = EXT_HIGH \<and> b = EXT_LOW) (zip ys (tl ys)))"

lemma falls_Cons: "falls (a # b # ys) = of_bool (a = EXT_HIGH \<and> b = EXT_LOW) + falls (b # ys)"
  "falls [a] = 0" "falls [] = 0"
  by (simp_all add: falls_def)

lemma unat_inj [simp]: "unat a = unat b \<longleftrightarrow> a = b"
  by (simp add: word_unat_eq_iff)

lemma sfr_bit_set [simp]: "unat b < 8 \<Longrightarrow> sfr_bit (sfr_set_bit a b c) a' b' = (a' = a \<and> b' = b \<or> sfr_bit c a' b')"
  by (cases "a' = a") (auto simp: sfr_bit_def sfr_set_bit_def bit_simps)

lemma sfr_bit_clear [simp]: "sfr_bit (sfr_clear_bit a b c) a' b' = (sfr_bit c a' b' \<and> (a' \<noteq> a \<or> b' \<noteq> b))"
  by (cases "a' = a") (auto simp: sfr_bit_def sfr_clear_bit_def bit_simps)

lemma raise_keeps_bit:
  assumes "src = IRQ_SOURCE_INT0 \<or> src = IRQ_SOURCE_INT1" "sfr_bit c SFR_TCON b"
  shows "sfr_bit (mcs51_raise_irq src c) SFR_TCON b"
proof -
  have frame: "sfr_bit (d\<lparr> mc_pending := p \<rparr>) x y = sfr_bit d x y" "sfr_bit (post_wake_event d) x y = sfr_bit d x y"
    "sfr_bit (wink_mcs51_spin_guard_note_event d) x y = sfr_bit d x y" for d :: "'a mcs51" and p x y
    by (simp_all add: sfr_bit_def post_wake_event_def wink_mcs51_spin_guard_note_event_def split: prod.split)
  have flag: "sfr_bit d SFR_TCON b \<Longrightarrow> sfr_bit (irq_set_flag s e d) SFR_TCON b" for s e and d :: "'a mcs51"
    by (auto simp: irq_set_flag_def Let_def sfr_bit_def sfr_set_bit_def bit_simps)
  show ?thesis using assms by (simp add: mcs51_raise_irq_def Let_def frame flag)
qed

lemma raise_latches:
  assumes "src = IRQ_SOURCE_INT0 \<or> src = IRQ_SOURCE_INT1" "family_vector_reachable c (im_vector (mc_irq_map c ! src))"
  shows "bit (mc_pending (mcs51_raise_irq src c)) src"
proof -
  have post: "mc_pending (post_wake_event d) = mc_pending d" for d :: "'a mcs51"
    by (simp add: post_wake_event_def split: prod.split)
  have guard: "mc_irq_map (wink_mcs51_spin_guard_note_event c) = mc_irq_map c"
    "family_vector_reachable (wink_mcs51_spin_guard_note_event c) v = family_vector_reachable c v" for v
    by (simp_all add: wink_mcs51_spin_guard_note_event_def family_vector_reachable_def)
  have "bit (set_bit src w) src" for w :: u32
    using assms(1) by (auto simp: bit_simps IRQ_SOURCE_INT0_def IRQ_SOURCE_INT1_def)
  then show ?thesis using assms
    by (auto simp: mcs51_raise_irq_def Let_def post guard IRQ_SOURCE_INT0_def IRQ_SOURCE_INT1_def IRQ_SOURCE__COUNT_def)
qed

text \<open>A sample of a level that is driven, and of one that is not.\<close>

lemma line_request_edge:
  assumes "sfr_bit c SFR_TCON (xl_it_bit ln)" "\<not> sfr_bit c SFR_TCON (xl_ie_bit ln)" "unat (xl_ie_bit ln) < 8"
  shows "line_request ln falling low c = (if falling
    then mcs51_raise_irq (if xl_vector ln = VECTOR_INT0 then IRQ_SOURCE_INT0 else IRQ_SOURCE_INT1)
           (sfr_set_bit SFR_TCON (xl_ie_bit ln) c)
    else c)"
  using assms by (simp add: line_request_def Let_def)

lemma line_sample_edge:
  fixes x :: u8
  assumes "edge_line i c"
  defines "ln \<equiv> int_line i c" and "c' \<equiv> line_sample i x c"
  shows "edge_line i c' \<and> (if x = EXT_LOW \<or> x = EXT_HIGH
      then xl_last_level (int_line i c') = x \<and> xl_have_sample (int_line i c')
        \<and> int_pending i c' = (xl_have_sample ln \<and> xl_last_level ln \<noteq> EXT_LOW \<and> x = EXT_LOW)
      else int_line i c' = ln \<and> \<not> int_pending i c')"
proof -
  let ?ie = "2 * of_nat i + 1 :: u8" and ?it = "2 * of_nat i :: u8" and ?pin = "PIN_INT0 + of_nat i :: u16"
  let ?k = "int_acknowledged i c"
  let ?b = "wink_mcs51_host_set_ext_pin ?pin x ?k"
  have i: "i = 0 \<or> i = 1" using assms(1) by (auto simp: edge_line_def)
  then have nums: "?pin < 32" "unat ?pin < 32" "unat ?ie < 8" "?it \<noteq> ?ie" by (auto simp: PIN_INT0_def)
  have k: "mc_extint ?k = mc_extint c" "mc_ext_pins ?k = mc_ext_pins c" "mc_irq_map ?k = mc_irq_map c" "mc_family ?k = mc_family c"
    by (simp_all add: int_acknowledged_def sfr_clear_bit_def wink_mcs51_clear_irq_def)
  have hb: "?b = ?k\<lparr> mc_ext_pins := (mc_ext_pins c)[unat ?pin := x] \<rparr>"
    using nums(1) by (simp add: wink_mcs51_host_set_ext_pin_def k)
  have "sfr_bit (wink_mcs51_clear_irq s c) a r = sfr_bit c a r" for s a r
    by (simp add: wink_mcs51_clear_irq_def sfr_bit_def)
  then have "sfr_bit ?k SFR_TCON r = (sfr_bit c SFR_TCON r \<and> r \<noteq> ?ie)" for r
    unfolding int_acknowledged_def by (simp only: sfr_bit_clear) simp
  then have bits: "sfr_bit ?b SFR_TCON r = (sfr_bit c SFR_TCON r \<and> r \<noteq> ?ie)" for r
    unfolding hb by (simp add: sfr_bit_def)
  have lines: "mc_extint ?b = mc_extint c" "mc_irq_map ?b = mc_irq_map c" "mc_family ?b = mc_family c" by (simp_all add: hb k)
  then have b: "int_line i ?b = ln" "js_pal_gpio_read_state ?pin ?b = x" "edge_line i ?b" "\<not> sfr_bit ?b SFR_TCON ?ie"
    using assms(1) nums bits
    by (simp_all add: ln_def int_line_def edge_line_def js_pal_gpio_read_state_def hb family_vector_reachable_def)
  have ln: "xl_ps_addr ln = SELECTOR_NONE" "xl_fallback_pin ln = ?pin" "xl_pin ln = ?pin" "xl_it_bit ln = ?it" "xl_ie_bit ln = ?ie"
    "xl_vector ln = (if i = 0 then VECTOR_INT0 else VECTOR_INT1)"
    using assms(1) by (simp_all add: edge_line_def ln_def)
  have fixed: "resolve_int_pin SELECTOR_NONE p d = p" for p and d :: "'a mcs51"
    by (simp add: resolve_int_pin_def resolve_selected_pin_def)
  let ?fall = "xl_have_sample ln \<and> xl_last_level ln \<noteq> EXT_LOW \<and> x = EXT_LOW"
  let ?d = "upd_line i (\<lambda>l. l\<lparr> xl_last_level := x, xl_have_sample := True \<rparr>) ?b"
  have poll: "c' = (if x \<noteq> EXT_LOW \<and> x \<noteq> EXT_HIGH then ?b else line_request ln ?fall (x = EXT_LOW) ?d)"
    by (simp only: c'_def line_sample_def poll_line_def Let_def b(1) ln fixed b(2) simp_thms if_False de_Morgan_disj)
  show ?thesis
  proof (cases "x = EXT_LOW \<or> x = EXT_HIGH")
    case False
    then have "c' = ?b" using poll by simp
    with False b show ?thesis by (simp add: int_pending_def)
  next
    case True
    let ?src = "int_source i"
    let ?e = "sfr_set_bit SFR_TCON ?ie ?d"
    have d: "sfr_bit ?d SFR_TCON r = sfr_bit ?b SFR_TCON r" for r by (simp add: sfr_bit_def upd_line_def)
    have it_d: "sfr_bit ?d SFR_TCON ?it" "\<not> sfr_bit ?d SFR_TCON ?ie" using b(3,4) d by (simp_all add: edge_line_def)
    have "(if xl_vector ln = VECTOR_INT0 then IRQ_SOURCE_INT0 else IRQ_SOURCE_INT1) = ?src"
      using i ln(6) by (auto simp: int_source_def VECTOR_INT0_def VECTOR_INT1_def)
    moreover have "c' = line_request ln ?fall (x = EXT_LOW) ?d"
      using True poll by (simp only: if_False de_Morgan_disj [symmetric] not_True_eq_False)
    ultimately have req: "c' = (if ?fall then mcs51_raise_irq ?src ?e else ?d)"
      using line_request_edge [of ?d ln] it_d nums(3) by (simp only: ln(4,5) not_False_eq_True)
    have view: "int_view c' = int_view ?d" using req by (simp add: ints.view_raise ints.view_registers)
    have line: "int_line i ?d = ln\<lparr> xl_last_level := x, xl_have_sample := True \<rparr>"
      using b(1,3) by (simp add: int_line_def upd_line_def edge_line_def)
    have line': "int_line i c' = int_line i ?d" "length (xi_lines (mc_extint c')) = length (xi_lines (mc_extint ?d))"
      "mc_ext_pins c' = mc_ext_pins ?d" "mc_irq_map c' = mc_irq_map ?d" "mc_family c' = mc_family ?d"
      using view by (simp_all add: int_view_def int_line_def)
    have src: "?src = IRQ_SOURCE_INT0 \<or> ?src = IRQ_SOURCE_INT1" by (simp add: int_source_def)
    have map_d: "mc_irq_map ?d = mc_irq_map c" "mc_family ?d = mc_family c" by (simp_all add: upd_line_def lines)
    have it: "sfr_bit c' SFR_TCON ?it"
      using req it_d(1) raise_keeps_bit [OF src, of ?e ?it] nums(3) by (cases ?fall) simp_all
    have ie: "sfr_bit c' SFR_TCON ?ie = ?fall"
      using req it_d(2) raise_keeps_bit [OF src, of ?e ?ie] nums(3) by (cases ?fall) simp_all
    have "family_vector_reachable ?e (im_vector (mc_irq_map ?e ! ?src))"
      using assms(1) map_d by (simp add: edge_line_def family_vector_reachable_def sfr_set_bit_def)
    then have latch: "?fall \<Longrightarrow> bit (mc_pending c') ?src" using req raise_latches [OF src] by simp
    have "int_pending i c' = ?fall" using ie latch by (auto simp: int_pending_def wink_mcs51_get_pending_interrupts_def)
    moreover have "edge_line i c'"
      using b(3) it line line' ln map_d assms(1) by (simp add: edge_line_def upd_line_def family_vector_reachable_def)
    ultimately show ?thesis using True line line' by simp
  qed
qed

lemma requests_after_sample:
  assumes "edge_line i c" "xl_have_sample (int_line i c)" "xl_last_level (int_line i c) = a" "a = EXT_LOW \<or> a = EXT_HIGH"
  shows "requests_on i xs c = falls (a # filter (\<lambda>x. x = EXT_LOW \<or> x = EXT_HIGH) xs)"
  using assms
proof (induction xs arbitrary: a c)
  case (Cons x xs)
  note l = line_sample_edge [OF Cons.prems(1), of x]
  show ?case
  proof (cases "x = EXT_LOW \<or> x = EXT_HIGH")
    case True
    with l Cons.prems Cons.IH [of "line_sample i x c" x] show ?thesis
      by (auto simp: falls_Cons EXT_LOW_def EXT_HIGH_def)
  next
    case False
    with l Cons.prems Cons.IH [of "line_sample i x c" a] show ?thesis by auto
  qed
qed (simp add: falls_Cons)

text \<open>C38: on a line in edge mode, on its own pin, whose vector the part has, an interrupt is requested, latched for the arbiter
  with its flag, once for each falling edge of the levels that were driven between the samples, when each request
  has been taken back before the next sample; whatever the line showed while nothing drove it, and none for the
  first sample.\<close>
theorem extint_requests_falls:
  assumes "edge_line i c" "\<not> xl_have_sample (int_line i c)"
  shows "requests_on i xs c = falls (filter (\<lambda>x. x = EXT_LOW \<or> x = EXT_HIGH) xs)"
  using assms
proof (induction xs arbitrary: c)
  case (Cons x xs)
  note l = line_sample_edge [OF Cons.prems(1), of x]
  show ?case
  proof (cases "x = EXT_LOW \<or> x = EXT_HIGH")
    case True
    with l have "edge_line i (line_sample i x c)" "xl_have_sample (int_line i (line_sample i x c))"
      "xl_last_level (int_line i (line_sample i x c)) = x" "\<not> int_pending i (line_sample i x c)"
      using Cons.prems by auto
    with requests_after_sample [of i "line_sample i x c" x xs] True show ?thesis by simp
  next
    case False
    with l Cons.prems Cons.IH [of "line_sample i x c"] show ?thesis by auto
  qed
qed (simp add: falls_Cons)

text \<open>INT0 of a core out of reset: the level rises, falls, floats, rises and falls.\<close>

definition demo_int :: "unit mcs51" where
  "demo_int = sfr_write SFR_TCON 1 (mcs51_extint_init ((demo_mcs51 ())\<lparr> mc_extint := \<lparr> xi_lines = replicate 2
     \<lparr> xl_pin = 0, xl_fallback_pin = 0, xl_ps_addr = 0, xl_vector = 0, xl_it_bit = 0, xl_ie_bit = 0, xl_ex_bit = 0,
       xl_last_level = 0, xl_last_sample_us = 0, xl_have_sample = False \<rparr>, xi_sample_due = False, xi_in_poll = False \<rparr> \<rparr>))"

lemma extint_requests_witness: "requests_on 0 [1, 0, 2, 1, 2, 0] demo_int = 2"
proof -
  have "family_vector_reachable demo_int (im_vector (mc_irq_map demo_int ! int_source 0))" by code_simp
  then have "edge_line 0 demo_int"
    by (simp add: demo_int_def edge_line_def int_line_def mcs51_extint_init_def upd_line_def upd_extint_def init_line_def
        sfr_write_def sfr_bit_def demo_mcs51_def TCON_IT0_def TCON_IE0_def PIN_INT0_def Let_def)
  moreover have "\<not> xl_have_sample (int_line 0 demo_int)"
    by (simp add: demo_int_def int_line_def mcs51_extint_init_def upd_line_def upd_extint_def init_line_def sfr_write_def Let_def)
  ultimately show ?thesis
    using extint_requests_falls [of 0 demo_int "[1, 0, 2, 1, 2, 0]"] by (simp add: falls_def EXT_LOW_def EXT_HIGH_def)
qed

end
