(* ===== verification/Mcs51_Gpio.thy ===== *)
theory Mcs51_Gpio
  imports Mcs51_Clock
begin

text \<open>
  The ports of the 8051 emulation: \<^verbatim>\<open>mcs51_gpio.cpp\<close> with the host's log of pin changes
  (\<^verbatim>\<open>mcs51_uni_bridge.cpp\<close>), the meters of software PWM (\<^verbatim>\<open>mcs51_pwm_meter.cpp\<close>), the watch on the external
  bus (\<^verbatim>\<open>mcs51_xdata.cpp\<close>) and the direction, open-drain, analogue and pull-up registers of a CMS8S chip
  (\<^verbatim>\<open>cms8s_gpio.cpp\<close>). The functions behind pin traps are parameters. Modelled is the release build.
\<close>

section \<open>Meters\<close>

definition upd_gpio :: "(Mcs51Gpio \<Rightarrow> Mcs51Gpio) \<Rightarrow> 'e mcs51 \<Rightarrow> 'e mcs51" where
  "upd_gpio f c = c\<lparr> mc_gpio := f (mc_gpio c) \<rparr>"

definition pwm_meter :: "u16 \<Rightarrow> 'e mcs51 \<Rightarrow> Mcs51PwmMeter" where
  "pwm_meter pin c = gp_meters (mc_gpio c) ! unat pin"

definition upd_meter :: "u16 \<Rightarrow> (Mcs51PwmMeter \<Rightarrow> Mcs51PwmMeter) \<Rightarrow> 'e mcs51 \<Rightarrow> 'e mcs51" where
  "upd_meter pin f = upd_gpio (\<lambda>g. g\<lparr> gp_meters := (gp_meters g)[unat pin := f (gp_meters g ! unat pin)] \<rparr>)"

definition port_addr :: "u8 \<Rightarrow> u8" where "port_addr port = 0x80 + port * 0x10"

definition meter_elapse :: "u64 \<Rightarrow> Mcs51PwmMeter \<Rightarrow> Mcs51PwmMeter" where
  "meter_elapse dt m =
    (if pw_current_level m = 1 then m\<lparr> pw_high_time_us := pw_high_time_us m + dt \<rparr>
     else m\<lparr> pw_low_time_us := pw_low_time_us m + dt \<rparr>)"

definition wink_mcs51_pwm_meter_start :: "u16 \<Rightarrow> 'e mcs51 \<Rightarrow> 'e mcs51" where
  "wink_mcs51_pwm_meter_start pin c =
    (if pin \<ge> 32 then c
     else let level = drop_bit (unat (pin AND 7)) (mc_sfr c (port_addr (ucast (drop_bit 3 pin)))) AND 1
          in upd_meter pin (\<lambda>m. m\<lparr> pw_active := True, pw_last_flip_us := wink_mcs51_virtual_us c, pw_high_time_us := 0,
               pw_low_time_us := 0, pw_transitions := 0, pw_current_level := level \<rparr>) c)"

definition wink_mcs51_pwm_meter_stop :: "u16 \<Rightarrow> 'e mcs51 \<Rightarrow> 'e mcs51" where
  "wink_mcs51_pwm_meter_stop pin c =
    (if pin \<ge> 32 then c
     else if \<not> pw_active (pwm_meter pin c) then c
     else let now_us = wink_mcs51_virtual_us c
          in upd_meter pin (\<lambda>m. let m = (if now_us > pw_last_flip_us m
               then (meter_elapse (now_us - pw_last_flip_us m) m)\<lparr> pw_last_flip_us := now_us \<rparr> else m)
             in m\<lparr> pw_active := False \<rparr>) c)"

definition wink_mcs51_pwm_meter_reset :: "u16 \<Rightarrow> 'e mcs51 \<Rightarrow> 'e mcs51" where
  "wink_mcs51_pwm_meter_reset pin c =
    (if pin \<ge> 32 then c
     else upd_meter pin (\<lambda>_. \<lparr> pw_active = False, pw_current_level = 0, pw_last_flip_us = 0, pw_high_time_us = 0,
            pw_low_time_us = 0, pw_transitions = 0 \<rparr>) c)"

definition wink_mcs51_pwm_meter_update :: "u16 \<Rightarrow> u8 \<Rightarrow> u64 \<Rightarrow> 'e mcs51 \<Rightarrow> 'e mcs51" where
  "wink_mcs51_pwm_meter_update pin level timestamp_us c =
    (if pin \<ge> 32 then c
     else if \<not> pw_active (pwm_meter pin c) then c
     else upd_meter pin (\<lambda>m.
       let m = (if timestamp_us \<ge> pw_last_flip_us m then meter_elapse (timestamp_us - pw_last_flip_us m) m else m)
       in m\<lparr> pw_current_level := (if level \<noteq> 0 then 1 else 0), pw_last_flip_us := timestamp_us,
            pw_transitions := pw_transitions m + 1 \<rparr>) c)"

definition wink_mcs51_pwm_meter_get_transitions :: "u16 \<Rightarrow> 'e mcs51 \<Rightarrow> u32" where
  "wink_mcs51_pwm_meter_get_transitions pin c = (if pin \<ge> 32 then 0 else pw_transitions (pwm_meter pin c))"

text \<open>The two times a duty cycle is the ratio of; the ratio itself is in floating point.\<close>

definition meter_times :: "u16 \<Rightarrow> 'e mcs51 \<Rightarrow> u64 \<times> u64" where
  "meter_times pin c =
    (let m = pwm_meter pin c;
         now_us = wink_mcs51_virtual_us c;
         m = (if pw_active m \<and> now_us > pw_last_flip_us m then meter_elapse (now_us - pw_last_flip_us m) m else m)
     in (pw_high_time_us m, pw_low_time_us m))"

section \<open>The host's log\<close>

definition MCS51_HOST_NOTIFY_LOG_SIZE :: u32 where "MCS51_HOST_NOTIFY_LOG_SIZE = 128"
definition MCS51_HOST_RELEASE_LOG_SIZE :: u32 where "MCS51_HOST_RELEASE_LOG_SIZE = 128"
definition MCS51_DRIVE_WEAK :: u8 where "MCS51_DRIVE_WEAK = 1"
definition MCS51_DRIVE_SUPPLY :: u8 where "MCS51_DRIVE_SUPPLY = 3"

definition js_pal_gpio_write :: "u16 \<Rightarrow> bool \<Rightarrow> u8 \<Rightarrow> 'e mcs51 \<Rightarrow> 'e mcs51" where
  "js_pal_gpio_write pin level strength c =
    (let lv = (if level then 1 else 0);
         c = upd_gpio (\<lambda>g. let i = unat (gp_notifies g) in
           (if gp_notifies g < MCS51_HOST_NOTIFY_LOG_SIZE
            then g\<lparr> gp_notify_pin := (gp_notify_pin g)[i := pin], gp_notify_level := (gp_notify_level g)[i := lv],
                   gp_notify_strength := (gp_notify_strength g)[i := if strength \<noteq> 0 then strength else 3] \<rparr>
            else g)\<lparr> gp_notifies := gp_notifies g + 1 \<rparr>) c
     in wink_mcs51_pwm_meter_update pin lv (wink_mcs51_virtual_us c) c)"

definition js_pal_gpio_release_mcu :: "u16 \<Rightarrow> 'e mcs51 \<Rightarrow> 'e mcs51" where
  "js_pal_gpio_release_mcu pin =
    upd_gpio (\<lambda>g. (if gp_releases g < MCS51_HOST_RELEASE_LOG_SIZE
       then g\<lparr> gp_release_pin := (gp_release_pin g)[unat (gp_releases g) := pin] \<rparr> else g)
      \<lparr> gp_releases := gp_releases g + 1 \<rparr>)"

definition wink_mcs51_host_ext_pins_reset :: "'e mcs51 \<Rightarrow> 'e mcs51" where
  "wink_mcs51_host_ext_pins_reset c = c\<lparr> mc_ext_pins := replicate 32 2 \<rparr>"

definition wink_mcs51_host_gpio_notify_count :: "'e mcs51 \<Rightarrow> u32" where
  "wink_mcs51_host_gpio_notify_count c = gp_notifies (mc_gpio c)"

definition wink_mcs51_host_gpio_notify_reset :: "'e mcs51 \<Rightarrow> 'e mcs51" where
  "wink_mcs51_host_gpio_notify_reset = upd_gpio (\<lambda>g. g\<lparr> gp_notifies := 0 \<rparr>)"

definition wink_mcs51_host_gpio_notify_pin :: "u32 \<Rightarrow> 'e mcs51 \<Rightarrow> u16" where
  "wink_mcs51_host_gpio_notify_pin i c =
    (if i < MCS51_HOST_NOTIFY_LOG_SIZE then gp_notify_pin (mc_gpio c) ! unat i else 0xFFFF)"

definition wink_mcs51_host_gpio_notify_level :: "u32 \<Rightarrow> 'e mcs51 \<Rightarrow> u8" where
  "wink_mcs51_host_gpio_notify_level i c =
    (if i < MCS51_HOST_NOTIFY_LOG_SIZE then gp_notify_level (mc_gpio c) ! unat i else 0)"

definition wink_mcs51_host_gpio_notify_strength :: "u32 \<Rightarrow> 'e mcs51 \<Rightarrow> u8" where
  "wink_mcs51_host_gpio_notify_strength i c =
    (if i < MCS51_HOST_NOTIFY_LOG_SIZE then gp_notify_strength (mc_gpio c) ! unat i else 0)"

definition wink_mcs51_host_gpio_release_count :: "'e mcs51 \<Rightarrow> u32" where
  "wink_mcs51_host_gpio_release_count c = gp_releases (mc_gpio c)"

section \<open>The external bus\<close>

definition ext_bus_present :: "'e mcs51 \<Rightarrow> bool" where
  "ext_bus_present c \<longleftrightarrow> fd_xram_size (mcs51_family_desc (mc_family c)) = 0"

definition gpio_bus_bits :: "u8 \<Rightarrow> u8 \<Rightarrow> u32" where
  "gpio_bus_bits port bitmask =
    (if port = 0 then ucast bitmask
     else if port = 2 then push_bit 8 (ucast bitmask)
     else if port = 3
     then (if bit bitmask 6 then push_bit 16 1 else 0) OR (if bit bitmask 7 then push_bit 17 1 else 0)
     else 0)"

definition upd_bus :: "(Mcs51Xdata \<Rightarrow> Mcs51Xdata) \<Rightarrow> 'e mcs51 \<Rightarrow> 'e mcs51" where
  "upd_bus f c = c\<lparr> mc_xdata_bus := f (mc_xdata_bus c) \<rparr>"

definition sat_count :: "u32 \<Rightarrow> u32" where
  "sat_count n = (if n < 0xFFFFFFFF then n + 1 else n)"

definition bus_conflict_policy :: "'e mcs51 \<Rightarrow> 'e mcs51" where
  "bus_conflict_policy = upd_bus (\<lambda>x. x\<lparr> xd_bus_conflict := sat_count (xd_bus_conflict x) \<rparr>)"

definition mcs51_ext_bus_notify_xbyte :: "'e mcs51 \<Rightarrow> 'e mcs51" where
  "mcs51_ext_bus_notify_xbyte c =
    (if \<not> ext_bus_present c then c
     else let c = (if xb_gpio_bus_mask (xd_extbus (mc_xdata_bus c)) \<noteq> 0 then bus_conflict_policy c else c)
          in upd_bus (\<lambda>x. x\<lparr> xd_extbus := (xd_extbus x)\<lparr> xb_xbus_used := True \<rparr> \<rparr>) c)"

definition mcs51_ext_bus_notify_gpio :: "u8 \<Rightarrow> u8 \<Rightarrow> 'e mcs51 \<Rightarrow> 'e mcs51" where
  "mcs51_ext_bus_notify_gpio port bitmask c =
    (let bits = gpio_bus_bits port bitmask
     in if bits = 0 then c
        else if \<not> ext_bus_present c then c
        else let c = (if xb_xbus_used (xd_extbus (mc_xdata_bus c)) then bus_conflict_policy c else c)
             in upd_bus (\<lambda>x. x\<lparr> xd_extbus := (xd_extbus x)\<lparr> xb_gpio_bus_mask := xb_gpio_bus_mask (xd_extbus x) OR bits \<rparr> \<rparr>) c)"

definition wink_mcs51_ext_bus_conflict_total :: "'e mcs51 \<Rightarrow> u32" where
  "wink_mcs51_ext_bus_conflict_total c = xd_bus_conflict (mc_xdata_bus c)"

section \<open>The registers of a CMS8S port\<close>

definition MCS51_CAP_ENHANCED_IO :: u32 where "MCS51_CAP_ENHANCED_IO = 1"

definition tris_addr :: "u8 \<Rightarrow> u8" where
  "tris_addr port = (if port = 0 then 0x9A else if port = 1 then 0xA1 else if port = 2 then 0xA2 else if port = 3 then 0xA3 else 0xFF)"

definition port_from_tris_addr :: "u8 \<Rightarrow> u8" where
  "port_from_tris_addr addr =
    (if addr = 0x9A then 0 else if addr = 0xA1 then 1 else if addr = 0xA2 then 2 else if addr = 0xA3 then 3 else 0xFF)"

definition up_addr :: "u8 \<Rightarrow> u16" where
  "up_addr port = (if port = 0 then 0xF00A else if port = 1 then 0xF01A else if port = 2 then 0xF02A
     else if port = 3 then 0xF03A else 0xFFFF)"

definition od_addr :: "u8 \<Rightarrow> u16" where
  "od_addr port = (if port = 0 then 0xF009 else if port = 1 then 0xF019 else if port = 2 then 0xF029
     else if port = 3 then 0xF039 else 0xFFFF)"

definition cfg_addr :: "u8 \<Rightarrow> u8 \<Rightarrow> u16" where
  "cfg_addr port b = (if port \<ge> 4 \<or> b \<ge> 8 then 0xFFFF else 0xF000 + ucast port * 0x10 + ucast b)"

definition pin_port :: "u16 \<Rightarrow> u8" where "pin_port pin = ucast (drop_bit 3 pin) AND 7"
definition pin_bit_of :: "u16 \<Rightarrow> u8" where "pin_bit_of pin = ucast pin AND 7"

definition cms8s_gpio_may_drive :: "u16 \<Rightarrow> u8 \<Rightarrow> 'e mcs51 \<Rightarrow> bool" where
  "cms8s_gpio_may_drive pin level c =
    (let port = pin_port pin; b = pin_bit_of pin
     in if port \<ge> 4 \<or> b \<ge> 8 then True
        else if \<not> sfr_bit c (tris_addr port) b then False
        else \<not> (od_addr port \<noteq> 0xFFFF \<and> bit (mc_xdata c (od_addr port)) (unat b) \<and> level \<noteq> 0))"

definition cms8s_gpio_is_analog :: "u16 \<Rightarrow> 'e mcs51 \<Rightarrow> bool" where
  "cms8s_gpio_is_analog pin c =
    (let cfg = cfg_addr (pin_port pin) (pin_bit_of pin) in cfg \<noteq> 0xFFFF \<and> mc_xdata c cfg = 1)"

definition cms8s_gpio_pullup :: "u16 \<Rightarrow> 'e mcs51 \<Rightarrow> u8" where
  "cms8s_gpio_pullup pin c =
    (let port = pin_port pin; b = pin_bit_of pin
     in if port \<ge> 4 \<or> b \<ge> 8 then 0
        else if \<not> sfr_bit c (tris_addr port) b \<and> up_addr port \<noteq> 0xFFFF \<and> bit (mc_xdata c (up_addr port)) (unat b)
        then 1 else 0)"

section \<open>Latches and pins\<close>

definition gpio_pin_key :: "u8 \<Rightarrow> u8 \<Rightarrow> u16" where
  "gpio_pin_key port b = push_bit 3 (ucast port) OR ucast b"

definition gpio_hooks_on :: "'e mcs51 \<Rightarrow> bool" where
  "gpio_hooks_on c \<longleftrightarrow> mc_caps_cache c AND MCS51_CAP_ENHANCED_IO \<noteq> 0 \<and> gp_hooked (mc_gpio c)"

definition gpio_may_drive :: "u8 \<Rightarrow> u8 \<Rightarrow> u8 \<Rightarrow> 'e mcs51 \<Rightarrow> bool" where
  "gpio_may_drive port b level c = (if gpio_hooks_on c then cms8s_gpio_may_drive (gpio_pin_key port b) level c else True)"

definition gpio_is_analog :: "u8 \<Rightarrow> u8 \<Rightarrow> 'e mcs51 \<Rightarrow> bool" where
  "gpio_is_analog port b c = (if gpio_hooks_on c then cms8s_gpio_is_analog (gpio_pin_key port b) c else False)"

definition gpio_pullup_active :: "u8 \<Rightarrow> u8 \<Rightarrow> 'e mcs51 \<Rightarrow> bool" where
  "gpio_pullup_active port b c = (if gpio_hooks_on c then cms8s_gpio_pullup (gpio_pin_key port b) c \<noteq> 0 else False)"

definition mcs51_ext_pin_level :: "u8 \<Rightarrow> u8 \<Rightarrow> 'e mcs51 \<Rightarrow> u8 option" where
  "mcs51_ext_pin_level port b c =
    (let st = js_pal_gpio_read_state (gpio_pin_key port b) c in if st = 1 then Some 1 else if st = 0 then Some 0 else None)"

definition gpio_suppressed_policy :: "'e mcs51 \<Rightarrow> 'e mcs51" where
  "gpio_suppressed_policy = upd_gpio (\<lambda>g. g\<lparr> gp_suppressed := sat_count (gp_suppressed g) \<rparr>)"

definition gpio_analog_read_policy :: "'e mcs51 \<Rightarrow> 'e mcs51" where
  "gpio_analog_read_policy = upd_gpio (\<lambda>g. g\<lparr> gp_analog_read := sat_count (gp_analog_read g) \<rparr>)"

definition mcs51_gpio_read_latch :: "u8 \<Rightarrow> 'e mcs51 \<Rightarrow> u8" where
  "mcs51_gpio_read_latch port c = (if port \<ge> 4 then 0 else mc_sfr c (port_addr port))"

definition mcs51_gpio_bit_read_latch :: "u8 \<Rightarrow> u8 \<Rightarrow> 'e mcs51 \<Rightarrow> u8" where
  "mcs51_gpio_bit_read_latch port b c =
    (if port \<ge> 4 \<or> b \<ge> 8 then 0 else drop_bit (unat b) (mcs51_gpio_read_latch port c) AND 1)"

definition pin_trap :: "u8 \<Rightarrow> u8 \<Rightarrow> 'e mcs51 \<Rightarrow> mcs51_pin_trap_t" where
  "pin_trap port b c = gp_traps (mc_gpio c) ! unat port ! unat b"

type_synonym 'e trap_reads = "nat \<Rightarrow> 'e mcs51 \<Rightarrow> u8 \<times> 'e mcs51"
type_synonym 'e trap_writes = "nat \<Rightarrow> u8 \<Rightarrow> 'e mcs51 \<Rightarrow> 'e mcs51"

definition mcs51_gpio_bit_read_pin :: "'e trap_reads \<Rightarrow> u8 \<Rightarrow> u8 \<Rightarrow> 'e mcs51 \<Rightarrow> u8 \<times> 'e mcs51" where
  "mcs51_gpio_bit_read_pin reads port b c =
    (if port \<ge> 4 \<or> b \<ge> 8 then (0, c)
     else if gpio_is_analog port b c
     then let c = gpio_analog_read_policy c in (mcs51_gpio_bit_read_latch port b c, c)
     else case pt_on_read (pin_trap port b c) of
       Some fn \<Rightarrow> (case reads fn c of (v, c) \<Rightarrow> (if v \<noteq> 0 then 1 else 0, c))
     | None \<Rightarrow>
         (case mcs51_ext_pin_level port b c of
            Some lv \<Rightarrow> (lv, c)
          | None \<Rightarrow> if gpio_pullup_active port b c then (1, c) else (mcs51_gpio_bit_read_latch port b c, c)))"

definition read_port_bit :: "'e trap_reads \<Rightarrow> u8 \<Rightarrow> nat \<Rightarrow> u8 \<times> 'e mcs51 \<Rightarrow> u8 \<times> 'e mcs51" where
  "read_port_bit reads port i = (\<lambda>(val, c).
    let b = of_nat i;
        put = (\<lambda>lv. if lv \<noteq> 0 then set_bit i val else unset_bit i val)
    in if gpio_is_analog port b c then (val, gpio_analog_read_policy c)
       else case pt_on_read (pin_trap port b c) of
         Some fn \<Rightarrow> (case reads fn c of (v, c) \<Rightarrow> (put v, c))
       | None \<Rightarrow>
           (case mcs51_ext_pin_level port b c of
              Some lv \<Rightarrow> (put lv, c)
            | None \<Rightarrow> if gpio_pullup_active port b c then (put 1, c) else (val, c)))"

definition mcs51_gpio_read_pin :: "'e trap_reads \<Rightarrow> u8 \<Rightarrow> 'e mcs51 \<Rightarrow> u8 \<times> 'e mcs51" where
  "mcs51_gpio_read_pin reads port c =
    (if port \<ge> 4 then (0, c) else fold (read_port_bit reads port) [0 ..< 8] (mcs51_gpio_read_latch port c, c))"

text \<open>A bit of a latch has changed: the pin is driven, weakly when high, and the trap on it runs.\<close>

definition drive_edge :: "'e trap_writes \<Rightarrow> u8 \<Rightarrow> u8 \<Rightarrow> u8 \<Rightarrow> 'e mcs51 \<Rightarrow> 'e mcs51" where
  "drive_edge writes port b level c =
    (let c = (if \<not> gpio_may_drive port b level c then gpio_suppressed_policy c
              else js_pal_gpio_write (gpio_pin_key port b) (level \<noteq> 0)
                     (if level \<noteq> 0 then MCS51_DRIVE_WEAK else MCS51_DRIVE_SUPPLY) c)
     in case pt_on_write (pin_trap port b c) of Some fn \<Rightarrow> writes fn level c | None \<Rightarrow> c)"

definition mcs51_gpio_bit_write :: "'e trap_writes \<Rightarrow> u8 \<Rightarrow> u8 \<Rightarrow> u8 \<Rightarrow> 'e mcs51 \<Rightarrow> 'e mcs51" where
  "mcs51_gpio_bit_write writes port b level c =
    (if port \<ge> 4 \<or> b \<ge> 8 then c
     else let c = mcs51_ext_bus_notify_gpio port (push_bit (unat b) 1) c;
              old_val = mc_sfr c (port_addr port);
              old_bit = drop_bit (unat b) old_val AND 1;
              new_bit = (if level \<noteq> 0 then 1 else 0);
              c = sfr_write (port_addr port) (if level \<noteq> 0 then set_bit (unat b) old_val else unset_bit (unat b) old_val) c
          in if old_bit \<noteq> new_bit then drive_edge writes port b new_bit c else c)"

definition mcs51_gpio_sfr_write :: "'e trap_writes \<Rightarrow> u8 \<Rightarrow> u8 \<Rightarrow> 'e mcs51 \<Rightarrow> 'e mcs51" where
  "mcs51_gpio_sfr_write writes port new_val c =
    (if port \<ge> 4 then c
     else let c = mcs51_ext_bus_notify_gpio port 0xFF c;
              old_val = mc_sfr c (port_addr port);
              c = sfr_write (port_addr port) new_val c;
              diff = old_val XOR new_val
          in fold (\<lambda>i c. if bit diff i then drive_edge writes port (of_nat i) (drop_bit i new_val AND 1) c else c) [0 ..< 8] c)"

definition wink_mcs51_gpio_output_suppressed_count :: "'e mcs51 \<Rightarrow> u32" where
  "wink_mcs51_gpio_output_suppressed_count c = gp_suppressed (mc_gpio c)"

definition wink_mcs51_gpio_analog_read_count :: "'e mcs51 \<Rightarrow> u32" where
  "wink_mcs51_gpio_analog_read_count c = gp_analog_read (mc_gpio c)"

definition wink_mcs51_gpio_diag_total :: "'e mcs51 \<Rightarrow> u32" where
  "wink_mcs51_gpio_diag_total c = gp_suppressed (mc_gpio c) + gp_analog_read (mc_gpio c)"

definition wink_mcs51_gpio_diag_reset :: "'e mcs51 \<Rightarrow> 'e mcs51" where
  "wink_mcs51_gpio_diag_reset = upd_gpio (\<lambda>g. g\<lparr> gp_suppressed := 0, gp_analog_read := 0 \<rparr>)"

section \<open>A change of direction on a CMS8S port\<close>

definition od_active :: "u8 \<Rightarrow> u8 \<Rightarrow> 'e mcs51 \<Rightarrow> bool" where
  "od_active port b c \<longleftrightarrow> od_addr port \<noteq> 0xFFFF \<and> bit (mc_xdata c (od_addr port)) (unat b)"

definition drive_from_latch :: "u8 \<Rightarrow> u8 \<Rightarrow> 'e mcs51 \<Rightarrow> 'e mcs51" where
  "drive_from_latch port b c =
    (let pin = gpio_pin_key port b
     in if cms8s_gpio_is_analog pin c then c
        else if \<not> sfr_bit c (port_addr port) b then js_pal_gpio_write pin False MCS51_DRIVE_SUPPLY c
        else if od_active port b c then js_pal_gpio_release_mcu pin c
        else js_pal_gpio_write pin True MCS51_DRIVE_WEAK c)"

definition on_tris_write :: "u8 \<Rightarrow> u8 \<Rightarrow> u8 \<Rightarrow> 'e mcs51 \<Rightarrow> 'e mcs51" where
  "on_tris_write addr old_val new_val c =
    (if mc_family c \<noteq> MCS51_FAMILY_CMS8S78XX then c
     else let port = port_from_tris_addr addr
          in if port \<ge> 4 then c
             else fold (\<lambda>i c. if \<not> bit (old_val XOR new_val) i then c
                    else if bit new_val i then drive_from_latch port (of_nat i) c
                    else js_pal_gpio_release_mcu (gpio_pin_key port (of_nat i)) c) [0 ..< 8] c)"

definition cms8s_hook_tris :: nat where "cms8s_hook_tris = 16"

definition install_tris_hooks :: "'e mcs51 \<Rightarrow> 'e mcs51" where
  "install_tris_hooks = fold (\<lambda>a. mcs51_trap_register_sfr_write a (Some cms8s_hook_tris)) [0x9A, 0xA1, 0xA2, 0xA3]"

definition cms8s_gpio_init :: "'e mcs51 \<Rightarrow> 'e mcs51" where
  "cms8s_gpio_init c =
    (if mc_family c \<noteq> MCS51_FAMILY_CMS8S78XX then c
     else install_tris_hooks (upd_gpio (\<lambda>g. g\<lparr> gp_hooked := True \<rparr>) c))"

definition cms8s_gpio_reset :: "'e mcs51 \<Rightarrow> 'e mcs51" where
  "cms8s_gpio_reset c =
    (if mc_family c \<noteq> MCS51_FAMILY_CMS8S78XX then c
     else let c = fold (\<lambda>pin. js_pal_gpio_release_mcu (of_nat pin)) [0 ..< 32] c
          in install_tris_hooks (upd_gpio (\<lambda>g. g\<lparr> gp_hooked := True \<rparr>) c))"

section \<open>A meter measures its latch\<close>

text \<open>A pin of a part whose ports have neither the rules of a chip package nor traps is metered. The level
  of the meter is that of the latch, except in the middle of a write of the port.\<close>

definition meter_at :: "u8 \<Rightarrow> u8 \<Rightarrow> bool \<Rightarrow> 'e mcs51 \<Rightarrow> bool" where
  "meter_at port b level c \<longleftrightarrow> port < 4 \<and> b < 8 \<and> \<not> gpio_hooks_on c
     \<and> (\<forall>q < 4. \<forall>d < 8. pt_on_write (pin_trap q d c) = None)
     \<and> length (gp_meters (mc_gpio c)) = 32 \<and> (let m = pwm_meter (gpio_pin_key port b) c
        in pw_active m \<and> pw_current_level m = of_bool level \<and> pw_last_flip_us m \<le> mc_virtual_us c)"

definition metered :: "u8 \<Rightarrow> u8 \<Rightarrow> bool \<Rightarrow> 'e mcs51 \<Rightarrow> bool" where
  "metered port b level c \<longleftrightarrow> meter_at port b level c \<and> sfr_bit c (port_addr port) b = level"

text \<open>The firmware writes at intervals, a bit or a whole port, of any of the ports; the time a bit of a
  latch was at a level, and how often it changed.\<close>

datatype port_write = Bit_write u8 u8 u8 | Port_write u8 u8

primrec port_written :: "'e trap_writes \<Rightarrow> port_write \<Rightarrow> 'e mcs51 \<Rightarrow> 'e mcs51" where
  "port_written writes (Bit_write q d level) = mcs51_gpio_bit_write writes q d level"
| "port_written writes (Port_write q v) = mcs51_gpio_sfr_write writes q v"

definition write_after :: "'e trap_writes \<Rightarrow> u64 \<times> port_write \<Rightarrow> 'e mcs51 \<Rightarrow> 'e mcs51" where
  "write_after writes = (\<lambda>(dt, op) c. port_written writes op (c\<lparr> mc_virtual_us := mc_virtual_us c + dt \<rparr>))"

fun level_after :: "u8 \<Rightarrow> u8 \<Rightarrow> port_write \<Rightarrow> bool \<Rightarrow> bool" where
  "level_after port b (Bit_write q d level) cur = (if q = port \<and> d = b then level \<noteq> 0 else cur)"
| "level_after port b (Port_write q v) cur = (if q = port then bit v (unat b) else cur)"

fun time_at :: "u8 \<Rightarrow> u8 \<Rightarrow> bool \<Rightarrow> bool \<Rightarrow> (u64 \<times> port_write) list \<Rightarrow> nat" where
  "time_at port b v cur [] = 0"
| "time_at port b v cur ((dt, op) # ops) =
     (if cur = v then unat dt else 0) + time_at port b v (level_after port b op cur) ops"

fun changes :: "u8 \<Rightarrow> u8 \<Rightarrow> bool \<Rightarrow> (u64 \<times> port_write) list \<Rightarrow> nat" where
  "changes port b cur [] = 0"
| "changes port b cur ((dt, op) # ops) =
     of_bool (cur \<noteq> level_after port b op cur) + changes port b (level_after port b op cur) ops"

lemma u8_cases:
  "x < 4 \<Longrightarrow> x = 0 \<or> x = 1 \<or> x = 2 \<or> x = 3"
  "x < 8 \<Longrightarrow> x = 0 \<or> x = 1 \<or> x = 2 \<or> x = 3 \<or> x = 4 \<or> x = 5 \<or> x = 6 \<or> x = 7" for x :: u8
proof -
  obtain n where n: "x = of_nat n" "n = unat x" by simp
  show "x < 4 \<Longrightarrow> x = 0 \<or> x = 1 \<or> x = 2 \<or> x = 3"
  proof -
    assume "x < 4"
    then have "n < 4" by (simp add: n(2) word_less_nat_alt)
    then have "n = 0 \<or> n = 1 \<or> n = 2 \<or> n = 3" by auto
    with n(1) show ?thesis by auto
  qed
  show "x < 8 \<Longrightarrow> x = 0 \<or> x = 1 \<or> x = 2 \<or> x = 3 \<or> x = 4 \<or> x = 5 \<or> x = 6 \<or> x = 7"
  proof -
    assume "x < 8"
    then have "n < 8" by (simp add: n(2) word_less_nat_alt)
    then have "n = 0 \<or> n = 1 \<or> n = 2 \<or> n = 3 \<or> n = 4 \<or> n = 5 \<or> n = 6 \<or> n = 7" by auto
    with n(1) show ?thesis by auto
  qed
qed

lemma pin_key_bound:
  assumes "port < 4" "b < 8"
  shows "gpio_pin_key port b < 32" "unat (gpio_pin_key port b) < 32"
  using u8_cases(1) [OF assms(1)] u8_cases(2) [OF assms(2)] by (elim disjE; simp add: gpio_pin_key_def)+

lemma meter_times_active:
  assumes "pw_active (pwm_meter pin c)" "pw_last_flip_us (pwm_meter pin c) \<le> mc_virtual_us c"
  defines "m \<equiv> pwm_meter pin c"
  shows "meter_times pin c =
    (if pw_current_level m = 1 then (pw_high_time_us m + (mc_virtual_us c - pw_last_flip_us m), pw_low_time_us m)
     else (pw_high_time_us m, pw_low_time_us m + (mc_virtual_us c - pw_last_flip_us m)))"
  using assms by (auto simp: meter_times_def meter_elapse_def wink_mcs51_virtual_us_def Let_def not_less)

lemma meter_update:
  fixes level :: bool and strength :: u8
  assumes "pin < 32" "length (gp_meters (mc_gpio c)) = 32" "pw_active (pwm_meter pin c)"
    "pw_last_flip_us (pwm_meter pin c) \<le> mc_virtual_us c"
  defines "c' \<equiv> js_pal_gpio_write pin level strength c"
  shows "meter_times pin c' = meter_times pin c" "pw_active (pwm_meter pin c')"
    "pw_current_level (pwm_meter pin c') = of_bool level" "pw_last_flip_us (pwm_meter pin c') = mc_virtual_us c"
    "pw_transitions (pwm_meter pin c') = pw_transitions (pwm_meter pin c) + 1"
    "length (gp_meters (mc_gpio c')) = 32" "gp_traps (mc_gpio c') = gp_traps (mc_gpio c)"
    "gp_hooked (mc_gpio c') = gp_hooked (mc_gpio c)"
    "mc_virtual_us c' = mc_virtual_us c" "mc_sfr c' = mc_sfr c" "mc_caps_cache c' = mc_caps_cache c"
proof -
  let ?m = "pwm_meter pin c"
  have pin: "unat pin < 32" "\<not> 32 \<le> pin" using assms(1) by (simp_all add: word_less_nat_alt not_le)
  let ?g = "mc_gpio c"
  define n where "n = (if gp_notifies ?g < MCS51_HOST_NOTIFY_LOG_SIZE
    then ?g\<lparr> gp_notify_pin := (gp_notify_pin ?g)[unat (gp_notifies ?g) := pin],
            gp_notify_level := (gp_notify_level ?g)[unat (gp_notifies ?g) := of_bool level],
            gp_notify_strength := (gp_notify_strength ?g)[unat (gp_notifies ?g) := if strength \<noteq> 0 then strength else 3] \<rparr>
    else ?g)\<lparr> gp_notifies := gp_notifies ?g + 1 \<rparr>"
  have n: "gp_meters n = gp_meters ?g" "gp_traps n = gp_traps ?g" "gp_hooked n = gp_hooked ?g" by (simp_all add: n_def)
  have lv: "(if level then 1 else 0) = (of_bool level :: u8)" by simp
  have c': "c' = wink_mcs51_pwm_meter_update pin (of_bool level) (mc_virtual_us c) (c\<lparr> mc_gpio := n \<rparr>)"
    unfolding c'_def js_pal_gpio_write_def Let_def lv upd_gpio_def n_def wink_mcs51_virtual_us_def by simp
  have m: "pwm_meter pin (c\<lparr> mc_gpio := n \<rparr>) = ?m" by (simp add: pwm_meter_def n)
  let ?m' = "(meter_elapse (mc_virtual_us c - pw_last_flip_us ?m) ?m)\<lparr> pw_current_level := of_bool level,
    pw_last_flip_us := mc_virtual_us c, pw_transitions := pw_transitions ?m + 1 \<rparr>"
  have el: "pw_transitions (meter_elapse dt k) = pw_transitions k" "pw_active (meter_elapse dt k) = pw_active k" for dt k
    by (simp_all add: meter_elapse_def)
  have g': "mc_gpio c' = n\<lparr> gp_meters := (gp_meters ?g)[unat pin := ?m'] \<rparr>"
    unfolding c' using assms(3,4) pin(2)
    by (simp add: wink_mcs51_pwm_meter_update_def m upd_meter_def upd_gpio_def n pwm_meter_def Let_def el)
  then have m': "pwm_meter pin c' = ?m'" using pin(1) assms(2) by (simp add: pwm_meter_def)
  show rest: "mc_virtual_us c' = mc_virtual_us c" "mc_sfr c' = mc_sfr c" "mc_caps_cache c' = mc_caps_cache c"
    unfolding c' by (simp_all add: wink_mcs51_pwm_meter_update_def upd_meter_def upd_gpio_def)
  show "pw_active (pwm_meter pin c')" "pw_current_level (pwm_meter pin c') = of_bool level"
    "pw_last_flip_us (pwm_meter pin c') = mc_virtual_us c"
    "pw_transitions (pwm_meter pin c') = pw_transitions ?m + 1"
    using assms(3) by (simp_all add: m' el)
  show "length (gp_meters (mc_gpio c')) = 32" "gp_traps (mc_gpio c') = gp_traps ?g" "gp_hooked (mc_gpio c') = gp_hooked ?g"
    using assms(2) by (simp_all add: g' n)
  show "meter_times pin c' = meter_times pin c"
    unfolding meter_times_active [OF assms(3,4)] using assms(3)
    by (subst meter_times_active) (auto simp: m' rest el meter_elapse_def)
qed

lemma notify_gpio_frame:
  "mc_sfr (mcs51_ext_bus_notify_gpio p m c) = mc_sfr c" "mc_gpio (mcs51_ext_bus_notify_gpio p m c) = mc_gpio c"
  "mc_virtual_us (mcs51_ext_bus_notify_gpio p m c) = mc_virtual_us c" "mc_caps_cache (mcs51_ext_bus_notify_gpio p m c) = mc_caps_cache c"
  by (simp_all add: mcs51_ext_bus_notify_gpio_def Let_def upd_bus_def bus_conflict_policy_def)

lemma pin_key_eq:
  assumes "q < 4" "d < 8" "port < 4" "b < 8"
  shows "unat (gpio_pin_key q d) = unat (gpio_pin_key port b) \<longleftrightarrow> q = port \<and> d = b"
proof -
  have key: "ucast (drop_bit 3 (gpio_pin_key q d)) = q" "ucast (gpio_pin_key q d AND 7) = d" if "q < 4" "d < 8" for q d
    using u8_cases(1) [OF that(1)] u8_cases(2) [OF that(2)] by (elim disjE; simp add: gpio_pin_key_def)+
  show ?thesis using key [OF assms(1,2)] key [OF assms(3,4)] by (metis word_unat_eq_iff)
qed

text \<open>The write of another pin leaves a meter alone.\<close>

lemma meter_other:
  fixes c :: "'e mcs51" and level strength
  assumes "unat pin' \<noteq> unat pin"
  defines "c' \<equiv> js_pal_gpio_write pin' level strength c"
  shows "pwm_meter pin c' = pwm_meter pin c"
    "length (gp_meters (mc_gpio c')) = length (gp_meters (mc_gpio c))" "gp_traps (mc_gpio c') = gp_traps (mc_gpio c)"
    "gp_hooked (mc_gpio c') = gp_hooked (mc_gpio c)" "mc_virtual_us c' = mc_virtual_us c" "mc_sfr c' = mc_sfr c"
    "mc_caps_cache c' = mc_caps_cache c"
  using assms(1) by (simp_all add: c'_def js_pal_gpio_write_def wink_mcs51_pwm_meter_update_def upd_meter_def upd_gpio_def
      pwm_meter_def Let_def)

lemma meter_times_cong:
  "pwm_meter pin c' = pwm_meter pin c \<Longrightarrow> mc_virtual_us c' = mc_virtual_us c \<Longrightarrow> meter_times pin c' = meter_times pin c"
  by (simp add: meter_times_def wink_mcs51_virtual_us_def)

lemma meter_at_cong:
  assumes "meter_at port b cur c" "pwm_meter (gpio_pin_key port b) c' = pwm_meter (gpio_pin_key port b) c"
    "length (gp_meters (mc_gpio c')) = length (gp_meters (mc_gpio c))" "gp_traps (mc_gpio c') = gp_traps (mc_gpio c)"
    "gp_hooked (mc_gpio c') = gp_hooked (mc_gpio c)" "mc_virtual_us c' = mc_virtual_us c" "mc_caps_cache c' = mc_caps_cache c"
  shows "meter_at port b cur c'"
  using assms by (simp add: meter_at_def gpio_hooks_on_def pin_trap_def)

text \<open>What a step of a write leaves of a meter: its times, and one more transition if it changed the pin.\<close>

definition meter_kept :: "u16 \<Rightarrow> nat \<Rightarrow> 'e mcs51 \<Rightarrow> 'e mcs51 \<Rightarrow> bool" where
  "meter_kept pin n c c' \<longleftrightarrow> meter_times pin c' = meter_times pin c \<and> mc_sfr c' = mc_sfr c \<and> mc_virtual_us c' = mc_virtual_us c
     \<and> pw_transitions (pwm_meter pin c') = pw_transitions (pwm_meter pin c) + of_nat n"

lemma meter_kept_trans: "meter_kept pin m c d \<Longrightarrow> meter_kept pin n d e \<Longrightarrow> meter_kept pin (m + n) c e"
  by (simp add: meter_kept_def)

lemma edge_metered:
  fixes c :: "'e mcs51" and writes :: "'e trap_writes" and level :: u8
  assumes "meter_at port b cur c" "q < 4" "d < 8"
  defines "c' \<equiv> drive_edge writes q d level c"
  shows "meter_at port b (if q = port \<and> d = b then level \<noteq> 0 else cur) c'
    \<and> meter_kept (gpio_pin_key port b) (of_bool (q = port \<and> d = b)) c c'"
proof -
  let ?s = "if level \<noteq> 0 then MCS51_DRIVE_WEAK else MCS51_DRIVE_SUPPLY"
  let ?e = "js_pal_gpio_write (gpio_pin_key q d) (level \<noteq> 0) ?s c"
  have pb: "port < 4" "b < 8" using assms(1) by (simp_all add: meter_at_def)
  have traps: "pin_trap q d ?e = pin_trap q d c"
    by (simp add: pin_trap_def js_pal_gpio_write_def wink_mcs51_pwm_meter_update_def upd_meter_def upd_gpio_def Let_def)
  have c': "c' = ?e" using assms(1-3) traps by (simp add: c'_def drive_edge_def gpio_may_drive_def meter_at_def)
  show ?thesis
  proof (cases "q = port \<and> d = b")
    case True
    have m: "gpio_pin_key port b < 32" "length (gp_meters (mc_gpio c)) = 32" "pw_active (pwm_meter (gpio_pin_key port b) c)"
      "pw_last_flip_us (pwm_meter (gpio_pin_key port b) c) \<le> mc_virtual_us c"
      using assms(1) pin_key_bound(1) [OF pb] by (simp_all add: meter_at_def Let_def)
    note u = meter_update [OF m, of "level \<noteq> 0" ?s]
    have "meter_at port b (level \<noteq> 0) ?e"
      using assms(1) u True by (simp add: meter_at_def Let_def gpio_hooks_on_def pin_trap_def)
    then show ?thesis using u True by (simp add: c' meter_kept_def)
  next
    case False
    then have "unat (gpio_pin_key q d) \<noteq> unat (gpio_pin_key port b)" using pin_key_eq [OF assms(2,3) pb] by simp
    note o = meter_other [OF this, of "level \<noteq> 0" ?s c]
    show ?thesis using False meter_at_cong [OF assms(1) o(1-5,7)] o meter_times_cong [OF o(1,5)]
      by (auto simp: c' meter_kept_def)
  qed
qed

lemma other_edges_metered:
  fixes c :: "'e mcs51" and writes :: "'e trap_writes" and diff new :: u8
  assumes "meter_at port b cur c" "q < 4" "\<forall>i \<in> set is. i < 8 \<and> (q = port \<longrightarrow> of_nat i \<noteq> b)"
  defines "f \<equiv> \<lambda>i c. if bit diff i then drive_edge writes q (of_nat i) (drop_bit i new AND 1) c else c"
  shows "meter_at port b cur (fold f is c) \<and> meter_kept (gpio_pin_key port b) 0 c (fold f is c)"
  using assms(1,3)
proof (induction "is" arbitrary: c)
  case Nil
  then show ?case by (simp add: meter_kept_def)
next
  case (Cons i "is")
  have i: "(of_nat i :: u8) < 8" "\<not> (q = port \<and> of_nat i = b)"
    using Cons.prems(2) by (auto simp: word_less_nat_alt unat_of_nat)
  have "meter_at port b cur (f i c) \<and> meter_kept (gpio_pin_key port b) 0 c (f i c)"
    using edge_metered [OF Cons.prems(1) assms(2) i(1), where writes = writes and level = "drop_bit i new AND 1"] i(2) Cons.prems(1)
    by (auto simp: f_def meter_kept_def)
  with Cons.IH [of "f i c"] Cons.prems(2) meter_kept_trans [of "gpio_pin_key port b" 0 c "f i c" 0] show ?case by auto
qed

lemma notify_write_metered:
  fixes c :: "'e mcs51"
  assumes "metered port b cur c"
  defines "d \<equiv> \<lambda>q m v. sfr_write (port_addr q) v (mcs51_ext_bus_notify_gpio q m c)"
  shows "meter_at port b cur (d q m v)" "meter_times (gpio_pin_key port b) (d q m v) = meter_times (gpio_pin_key port b) c"
    "pwm_meter p (d q m v) = pwm_meter p c" "mc_virtual_us (d q m v) = mc_virtual_us c"
    "sfr_bit (d q m v) a r = (if a = port_addr q then bit v (unat r) else sfr_bit c a r)"
proof -
  have f: "mc_gpio (d q m v) = mc_gpio c" "mc_virtual_us (d q m v) = mc_virtual_us c" "mc_caps_cache (d q m v) = mc_caps_cache c"
    by (simp_all add: d_def sfr_write_def notify_gpio_frame)
  have "meter_at port b cur c" using assms(1) by (simp add: metered_def)
  then show "meter_at port b cur (d q m v)" by (rule meter_at_cong) (simp_all add: f pwm_meter_def)
  show "pwm_meter p (d q m v) = pwm_meter p c" "mc_virtual_us (d q m v) = mc_virtual_us c" for p
    by (simp_all add: pwm_meter_def f)
  show "meter_times (gpio_pin_key port b) (d q m v) = meter_times (gpio_pin_key port b) c"
    by (rule meter_times_cong) (simp_all add: pwm_meter_def f)
  show "sfr_bit (d q m v) a r = (if a = port_addr q then bit v (unat r) else sfr_bit c a r)"
    by (simp add: d_def sfr_write_def sfr_bit_def notify_gpio_frame)
qed

lemma port_addr_eq: "q < 4 \<Longrightarrow> port < 4 \<Longrightarrow> port_addr q = port_addr port \<longleftrightarrow> q = port"
  using u8_cases(1) [of q] u8_cases(1) [of port] by (auto simp: port_addr_def)

text \<open>A write of the pin's bit or port, or of another: the meter follows it.\<close>

definition meter_follows :: "u8 \<Rightarrow> u8 \<Rightarrow> bool \<Rightarrow> bool \<Rightarrow> 'e mcs51 \<Rightarrow> 'e mcs51 \<Rightarrow> bool" where
  "meter_follows port b cur new c c' \<longleftrightarrow> metered port b new c' \<and> mc_virtual_us c' = mc_virtual_us c
     \<and> (let pin = gpio_pin_key port b in meter_times pin c' = meter_times pin c
        \<and> pw_transitions (pwm_meter pin c') = pw_transitions (pwm_meter pin c) + of_bool (cur \<noteq> new))"

lemma meter_followsI:
  fixes c :: "'e mcs51" and m :: u8
  assumes "metered port b cur c" "q < 4" "cur \<noteq> new \<longrightarrow> q = port" "q = port \<longrightarrow> bit v (unat b) = new"
  defines "d \<equiv> sfr_write (port_addr q) v (mcs51_ext_bus_notify_gpio q m c)"
  assumes "meter_at port b new c'" "meter_kept (gpio_pin_key port b) (of_bool (cur \<noteq> new)) d c'"
  shows "meter_follows port b cur new c c'"
proof -
  have port: "port < 4" "sfr_bit c (port_addr port) b = cur" using assms(1) by (simp_all add: metered_def meter_at_def)
  note n = notify_write_metered [OF assms(1), where q = q and v = v and m = m, folded d_def]
  have "mc_sfr c' = mc_sfr d" using assms(7) by (simp add: meter_kept_def)
  then have "sfr_bit c' (port_addr port) b = sfr_bit d (port_addr port) b" by (simp add: sfr_bit_def)
  also have "\<dots> = new" using assms(3,4) port port_addr_eq [OF assms(2) port(1)] by (auto simp: n(5))
  finally show ?thesis
    using assms(6,7) by (simp add: meter_follows_def metered_def meter_kept_def n(2-4) Let_def)
qed

lemma bit_write_metered:
  fixes c :: "'e mcs51" and writes :: "'e trap_writes" and level :: u8
  assumes "metered port b cur c" "q < 4" "d < 8"
  defines "own \<equiv> q = port \<and> d = b"
  shows "meter_follows port b cur (if own then level \<noteq> 0 else cur) c (mcs51_gpio_bit_write writes q d level c)"
proof -
  let ?old = "mc_sfr c (port_addr q)"
  let ?v = "if level \<noteq> 0 then set_bit (unat d) ?old else unset_bit (unat d) ?old"
  let ?d = "sfr_write (port_addr q) ?v (mcs51_ext_bus_notify_gpio q (push_bit (unat d) 1) c)"
  let ?w = "mcs51_gpio_bit_write writes q d level c"
  have pb: "port < 4" "b < 8" "unat b < 8" "bit (mc_sfr c (port_addr port)) (unat b) = cur"
    using assms(1) by (simp_all add: metered_def meter_at_def sfr_bit_def word_less_nat_alt)
  have old: "(drop_bit (unat d) ?old AND 1 \<noteq> (if level \<noteq> 0 then 1 else 0)) = (bit ?old (unat d) \<noteq> (level \<noteq> 0))"
    by (simp add: and_one_eq bit_iff_odd_drop_bit mod_2_eq_odd)
  have w: "?w = (if bit ?old (unat d) \<noteq> (level \<noteq> 0) then drive_edge writes q d (if level \<noteq> 0 then 1 else 0) ?d else ?d)"
    using assms(2,3) by (simp add: mcs51_gpio_bit_write_def Let_def notify_gpio_frame old not_le)
  have bd: "unat b = unat d \<longleftrightarrow> b = d" by (simp add: word_unat_eq_iff)
  have v: "q = port \<longrightarrow> bit ?v (unat b) = (if own then level \<noteq> 0 else cur)"
    using pb(3,4) bd by (auto simp: own_def bit_simps)
  have at: "meter_at port b cur ?d" by (rule notify_write_metered(1) [OF assms(1)])
  have "meter_at port b (if own then level \<noteq> 0 else cur) ?w
    \<and> meter_kept (gpio_pin_key port b) (of_bool (cur \<noteq> (if own then level \<noteq> 0 else cur))) ?d ?w"
    using edge_metered [OF at assms(2,3), where writes = writes and level = "if level \<noteq> 0 then 1 else 0"] at pb(4)
    unfolding w own_def [symmetric] by (cases own) (auto simp: own_def meter_kept_def)
  then show ?thesis using v by (intro meter_followsI [OF assms(1,2)]) (auto simp: own_def)
qed

lemma sfr_write_metered:
  fixes c :: "'e mcs51" and writes :: "'e trap_writes" and v :: u8
  assumes "metered port b cur c" "q < 4"
  defines "new \<equiv> if q = port then bit v (unat b) else cur"
  shows "meter_follows port b cur new c (mcs51_gpio_sfr_write writes q v c)"
proof -
  let ?diff = "mc_sfr c (port_addr q) XOR v"
  let ?d = "sfr_write (port_addr q) v (mcs51_ext_bus_notify_gpio q 0xFF c)"
  define f where "f = (\<lambda>i c. if bit ?diff i then drive_edge writes q (of_nat i) (drop_bit i v AND 1) c else c)"
  let ?w = "fold f [0 ..< 8] ?d"
  have pb: "port < 4" "b < 8" "unat b < 8" "bit (mc_sfr c (port_addr port)) (unat b) = cur"
    using assms(1) by (simp_all add: metered_def meter_at_def sfr_bit_def word_less_nat_alt)
  have w: "mcs51_gpio_sfr_write writes q v c = ?w"
    using assms(2) by (simp add: mcs51_gpio_sfr_write_def Let_def notify_gpio_frame not_le f_def del: upt_rec_numeral upt_conv_Cons)
  have at: "meter_at port b cur ?d" by (rule notify_write_metered(1) [OF assms(1)])
  have others: "\<forall>i \<in> set is. i < 8 \<and> (q = port \<longrightarrow> of_nat i \<noteq> b)" if "\<forall>i \<in> set is. i < 8 \<and> i \<noteq> unat b" for "is"
    using that by (auto simp: unat_of_nat)
  have rest: "meter_at port b x (fold f is s) \<and> meter_kept (gpio_pin_key port b) 0 s (fold f is s)"
    if "meter_at port b x s" "\<forall>i \<in> set is. i < 8 \<and> i \<noteq> unat b" for x s "is"
    unfolding f_def by (rule other_edges_metered [OF that(1) assms(2) others [OF that(2)]])
  have "meter_at port b new ?w \<and> meter_kept (gpio_pin_key port b) (of_bool (cur \<noteq> new)) ?d ?w"
  proof (cases "q = port")
    case False
    then show ?thesis
      using other_edges_metered [OF at assms(2), where ?is = "[0 ..< 8]" and diff = ?diff and writes = writes and new = v] by (simp add: new_def f_def)
  next
    case True
    let ?e = "fold f [0 ..< unat b] ?d"
    have split: "[0 ..< 8] = [0 ..< unat b] @ unat b # [Suc (unat b) ..< 8]"
      using upt_add_eq_append [of 0 "unat b" "8 - unat b"] upt_conv_Cons [of "unat b" 8] pb(3) by simp
    have e: "meter_at port b cur ?e \<and> meter_kept (gpio_pin_key port b) 0 ?d ?e"
      by (rule rest [OF at]) (use pb(3) in auto)
    have diff: "bit ?diff (unat b) = (cur \<noteq> new)" "(drop_bit (unat b) v AND 1 \<noteq> 0) = new"
      using pb(4) True
      by (auto simp: new_def bit_xor_iff) (auto simp: and_one_eq bit_iff_odd_drop_bit mod_2_eq_odd)
    have own: "meter_at port b new (f (unat b) ?e) \<and> meter_kept (gpio_pin_key port b) (of_bool (cur \<noteq> new)) ?e (f (unat b) ?e)"
    proof -
      have f: "f (unat b) x = (if cur \<noteq> new then drive_edge writes port b (drop_bit (unat b) v AND 1) x else x)" for x
        unfolding f_def diff(1) by (simp add: True)
      show ?thesis
        using edge_metered [OF conjunct1 [OF e] pb(1,2), where writes = writes and level = "drop_bit (unat b) v AND 1"] e
        unfolding f diff(2) by (cases "cur = new") (simp_all add: meter_kept_def)
    qed
    have l: "meter_at port b new (fold f [Suc (unat b) ..< 8] (f (unat b) ?e))
      \<and> meter_kept (gpio_pin_key port b) 0 (f (unat b) ?e) (fold f [Suc (unat b) ..< 8] (f (unat b) ?e))"
      by (rule rest [OF conjunct1 [OF own]]) auto
    show ?thesis
      using l meter_kept_trans [OF meter_kept_trans [OF conjunct2 [OF e] conjunct2 [OF own]] conjunct2 [OF l]]
      unfolding split by simp
  qed
  then show ?thesis
    unfolding w by (intro meter_followsI [OF assms(1,2), of _ v]) (auto simp: new_def)
qed

text \<open>A write the part does not have, of a port or a bit out of range, does nothing.\<close>

lemma port_write_metered:
  fixes c :: "'e mcs51" and writes :: "'e trap_writes"
  assumes "metered port b cur c"
  shows "meter_follows port b cur (level_after port b op cur) c (port_written writes op c)"
proof -
  have pb: "port < 4" "b < 8" using assms by (simp_all add: metered_def meter_at_def)
  have nothing_done: "meter_follows port b cur cur c c" using assms by (simp add: meter_follows_def Let_def)
  show ?thesis
  proof (cases op)
    case (Bit_write q d level)
    have "meter_follows port b cur cur c (mcs51_gpio_bit_write writes q d level c) \<and> \<not> (q = port \<and> d = b)"
      if "\<not> (q < 4 \<and> d < 8)"
      using that pb nothing_done by (auto simp: mcs51_gpio_bit_write_def not_less)
    then show ?thesis
      using bit_write_metered [OF assms, where q = q and d = d and writes = writes and level = level]
      by (cases "q < 4 \<and> d < 8") (auto simp: Bit_write)
  next
    case (Port_write q v)
    have "meter_follows port b cur cur c (mcs51_gpio_sfr_write writes q v c) \<and> q \<noteq> port" if "\<not> q < 4"
      using that pb nothing_done by (auto simp: mcs51_gpio_sfr_write_def not_less)
    then show ?thesis
      using sfr_write_metered [OF assms, where q = q and writes = writes and v = v]
      by (cases "q < 4") (auto simp: Port_write)
  qed
qed

lemma advance_metered:
  assumes "metered port b cur c" "unat (mc_virtual_us c) + unat dt < 2 ^ 64"
  defines "c' \<equiv> c\<lparr> mc_virtual_us := mc_virtual_us c + dt \<rparr>" and "pin \<equiv> gpio_pin_key port b"
  shows "metered port b cur c'"
    "meter_times pin c' = (fst (meter_times pin c) + (if cur then dt else 0), snd (meter_times pin c) + (if cur then 0 else dt))"
    "pwm_meter pin c' = pwm_meter pin c"
proof -
  let ?m = "pwm_meter pin c"
  have m: "pw_active ?m" "pw_current_level ?m = of_bool cur" "pw_last_flip_us ?m \<le> mc_virtual_us c"
    using assms(1) by (simp_all add: metered_def meter_at_def pin_def Let_def)
  have "mc_virtual_us c \<le> mc_virtual_us c + dt" using assms(2) by (simp add: word_le_nat_alt unat_word_ariths)
  then have le: "pw_last_flip_us ?m \<le> mc_virtual_us c'" using m(3) by (simp add: c'_def)
  show same: "pwm_meter pin c' = ?m" by (simp add: c'_def pwm_meter_def)
  show "metered port b cur c'"
    using assms(1) le same
    by (simp add: metered_def meter_at_def pin_def c'_def Let_def gpio_hooks_on_def pin_trap_def sfr_bit_def)
  show "meter_times pin c' = (fst (meter_times pin c) + (if cur then dt else 0), snd (meter_times pin c) + (if cur then 0 else dt))"
    using m le by (simp add: meter_times_active same) (simp add: c'_def algebra_simps)
qed

lemma writes_metered:
  fixes c :: "'e mcs51" and writes :: "'e trap_writes"
  assumes "metered port b cur c" "unat (mc_virtual_us c) + sum_list (map (unat \<circ> fst) ops) < 2 ^ 64"
  defines "c' \<equiv> fold (write_after writes) ops c" and "pin \<equiv> gpio_pin_key port b"
  shows "meter_times pin c' = (fst (meter_times pin c) + of_nat (time_at port b True cur ops),
        snd (meter_times pin c) + of_nat (time_at port b False cur ops))
    \<and> pw_transitions (pwm_meter pin c') = pw_transitions (pwm_meter pin c) + of_nat (changes port b cur ops)"
  using assms(1,2) unfolding c'_def
proof (induction ops arbitrary: c cur)
  case Nil
  then show ?case by simp
next
  case (Cons x ops)
  obtain dt op where x: "x = (dt, op)" by (cases x)
  have dt: "unat (mc_virtual_us c) + unat dt < 2 ^ 64" using Cons.prems(2) by (simp add: x)
  note adv = advance_metered [OF Cons.prems(1) dt]
  let ?d = "write_after writes (dt, op) c" and ?new = "level_after port b op cur"
  have d: "metered port b ?new ?d"
    "meter_times pin ?d = meter_times pin (c\<lparr> mc_virtual_us := mc_virtual_us c + dt \<rparr>)"
    "mc_virtual_us ?d = mc_virtual_us c + dt"
    "pw_transitions (pwm_meter pin ?d) = pw_transitions (pwm_meter pin c) + of_bool (cur \<noteq> ?new)"
    using port_write_metered [OF adv(1), where writes = writes and op = op] adv(3)
    by (simp_all add: meter_follows_def write_after_def pin_def Let_def)
  have "unat (mc_virtual_us ?d) = unat (mc_virtual_us c) + unat dt" using dt by (simp add: d(3) unat_word_ariths)
  then have fit: "unat (mc_virtual_us ?d) + sum_list (map (unat \<circ> fst) ops) < 2 ^ 64" using Cons.prems(2) by (simp add: x comp_def)
  have eq: "(cur = False) = (\<not> cur)" by simp
  show ?case
    using Cons.IH [OF d(1) fit] d(2,4) adv(2) by (simp add: x pin_def eq algebra_simps)
qed

text \<open>C39: on a part whose ports have neither the rules of a chip package nor traps on writes, the meter
  of a pin measures the latch behind it. Whatever bits and whole ports the firmware writes, of this port
  and of the others, and however long it waits between the writes, the two times of the meter are the
  microseconds the latch was high and low since the meter was started, and its transitions are the writes
  that changed the bit.\<close>
theorem pwm_meter_measures_latch:
  fixes c :: "'e mcs51" and writes :: "'e trap_writes"
  assumes "port < 4" "b < 8" "\<not> gpio_hooks_on c" "\<forall>q < 4. \<forall>d < 8. pt_on_write (pin_trap q d c) = None"
    "length (gp_meters (mc_gpio c)) = 32" "unat (mc_virtual_us c) + sum_list (map (unat \<circ> fst) ops) < 2 ^ 64"
  defines "pin \<equiv> gpio_pin_key port b" and "high \<equiv> sfr_bit c (port_addr port) b"
  defines "c' \<equiv> fold (write_after writes) ops (wink_mcs51_pwm_meter_start pin c)"
  shows "meter_times pin c' = (of_nat (time_at port b True high ops), of_nat (time_at port b False high ops))
    \<and> wink_mcs51_pwm_meter_get_transitions pin c' = of_nat (changes port b high ops)"
proof -
  let ?c = "wink_mcs51_pwm_meter_start pin c"
  have pin: "\<not> 32 \<le> pin" "unat pin < 32" using pin_key_bound [OF assms(1,2)] by (simp_all add: pin_def not_le)
  have split: "ucast (drop_bit 3 pin) = port" "unat (pin AND 7) = unat b"
    using u8_cases(1) [OF assms(1)] u8_cases(2) [OF assms(2)] by (elim disjE; simp add: pin_def gpio_pin_key_def)+
  have lv: "drop_bit (unat b) (mc_sfr c (port_addr port)) AND 1 = of_bool high"
    by (simp add: high_def sfr_bit_def bit_iff_odd_drop_bit and_one_eq mod_2_eq_odd)
  have m: "pwm_meter pin ?c = (pwm_meter pin c)\<lparr> pw_active := True, pw_last_flip_us := mc_virtual_us c, pw_high_time_us := 0,
      pw_low_time_us := 0, pw_transitions := 0, pw_current_level := of_bool high \<rparr>"
    using pin assms(5)
    by (simp add: wink_mcs51_pwm_meter_start_def split lv upd_meter_def upd_gpio_def pwm_meter_def wink_mcs51_virtual_us_def)
  have frame: "mc_virtual_us ?c = mc_virtual_us c" "mc_sfr ?c = mc_sfr c" "gpio_hooks_on ?c = gpio_hooks_on c"
    "pin_trap q d ?c = pin_trap q d c" "length (gp_meters (mc_gpio ?c)) = 32" for q d
    using assms(5) by (simp_all add: wink_mcs51_pwm_meter_start_def upd_meter_def upd_gpio_def gpio_hooks_on_def pin_trap_def Let_def)
  have metered: "metered port b high ?c"
    using assms(1-4) frame by (simp add: metered_def meter_at_def m Let_def pin_def [symmetric] sfr_bit_def high_def)
  have "meter_times pin ?c = (0, 0)"
    by (subst meter_times_active) (simp_all add: m frame)
  then show ?thesis
    using writes_metered [OF metered, where ops = ops and writes = writes] assms(6) pin(1)
    by (simp add: frame c'_def pin_def [symmetric] m wink_mcs51_pwm_meter_get_transitions_def)
qed

text \<open>P1.3 of a classic core, lowered by a write of its bit, raised by a write of the whole port, and left
  alone by writes of its neighbour, of another port and of its own value.\<close>

definition demo_writes :: "(u64 \<times> port_write) list" where
  "demo_writes = [(30, Bit_write 1 3 0), (20, Port_write 1 0x0A), (5, Bit_write 1 4 1), (6, Port_write 2 0),
     (59, Bit_write 1 3 1)]"

lemma pwm_meter_witness:
  fixes c' :: "unit mcs51"
  defines "c' \<equiv> fold (write_after (\<lambda>_ _ x. x)) demo_writes
     (wink_mcs51_pwm_meter_start 11 (sfr_write 0x90 0xFF (demo_mcs51 ())))"
  shows "meter_times 11 c' = (100, 20) \<and> wink_mcs51_pwm_meter_get_transitions 11 c' = 2"
proof -
  let ?c = "sfr_write 0x90 0xFF (demo_mcs51 ())"
  have pin: "gpio_pin_key 1 3 = 11" by (simp add: gpio_pin_key_def)
  have high: "sfr_bit ?c (port_addr 1) 3" by (simp add: sfr_bit_def sfr_write_def port_addr_def)
  have c: "\<not> gpio_hooks_on ?c" "length (gp_meters (mc_gpio ?c)) = 32" "mc_virtual_us ?c = 0"
    by (simp_all add: gpio_hooks_on_def sfr_write_def demo_mcs51_def)
  have traps: "\<forall>q < 4. \<forall>d < 8. pt_on_write (pin_trap q d ?c) = None"
    by (auto simp: pin_trap_def sfr_write_def demo_mcs51_def word_less_nat_alt)
  have "meter_times 11 c' = (of_nat (time_at 1 3 True True demo_writes), of_nat (time_at 1 3 False True demo_writes))
    \<and> wink_mcs51_pwm_meter_get_transitions 11 c' = of_nat (changes 1 3 True demo_writes)"
    using pwm_meter_measures_latch [OF _ _ c(1) traps c(2), of 1 3 demo_writes "\<lambda>_ _ x. x"] high c(3)
    by (simp add: pin c'_def demo_writes_def)
  then show ?thesis by (simp add: demo_writes_def)
qed

section \<open>An open drain that is not released\<close>

text \<open>On a pin configured as an open-drain output, a write of one to the latch, which releases the line on
  the chip, is only counted: the host is neither notified nor told of a release, and goes on seeing the
  low level that was driven before. A change of direction in the same situation does release it.\<close>

lemma open_drain_write_does_not_release:
  assumes "port < 4" "b < 8" "gpio_hooks_on c" "od_active port b c" "sfr_bit c (tris_addr port) b"
    "pt_on_write (pin_trap port b c) = None"
  shows "gp_notifies (mc_gpio (drive_edge writes port b 1 c)) = gp_notifies (mc_gpio c)
    \<and> gp_releases (mc_gpio (drive_edge writes port b 1 c)) = gp_releases (mc_gpio c)"
proof -
  have pin: "pin_port (gpio_pin_key port b) = port" "pin_bit_of (gpio_pin_key port b) = b"
    using u8_cases(1) [OF assms(1)] u8_cases(2) [OF assms(2)]
    by (elim disjE; simp add: pin_port_def pin_bit_of_def gpio_pin_key_def)+
  have "\<not> gpio_may_drive port b 1 c"
    using assms(3-5) by (simp add: gpio_may_drive_def cms8s_gpio_may_drive_def Let_def pin od_active_def) (use assms(1,2) in auto)
  then show ?thesis
    using assms(6) by (simp add: drive_edge_def gpio_suppressed_policy_def upd_gpio_def pin_trap_def Let_def)
qed

end
