(* ===== verification/Mcs51_Edge_Queue.thy ===== *)
theory Mcs51_Edge_Queue
  imports Mcs51_Frame
begin

text \<open>
  The queue of timed pin edges of the 8051 emulation, \<^verbatim>\<open>frameworks/mcs51/src/mcs51_edge_queue.cpp\<close>: 64
  slots kept in the order of time, head and tail; the drain drives the pins of the events that are
  due and pulses the counters. The drain is a loop that need not end, \<open>None\<close> being that it does not.
\<close>

section \<open>Operations\<close>

definition MCS51_EDGE_QUEUE_CAP :: nat where "MCS51_EDGE_QUEUE_CAP = 64"

definition mcs51_edge_queue_count :: "'e mcs51 \<Rightarrow> nat" where
  "mcs51_edge_queue_count c =
    (if mc_edge_head c \<ge> mc_edge_tail c then mc_edge_head c - mc_edge_tail c
     else MCS51_EDGE_QUEUE_CAP - (mc_edge_tail c - mc_edge_head c))"

definition edge_temp :: "'e mcs51 \<Rightarrow> McuEdgeEvent list" where
  "edge_temp c = map (\<lambda>i. mc_edge_queue c ! ((mc_edge_tail c + i) mod MCS51_EDGE_QUEUE_CAP)) [0 ..< mcs51_edge_queue_count c]"

definition insert_index :: "u64 \<Rightarrow> McuEdgeEvent list \<Rightarrow> nat" where
  "insert_index fire_us temp =
    (case first_slot (\<lambda>ev. fire_us < me_fire_us ev) temp of Some i \<Rightarrow> i | None \<Rightarrow> length temp)"

definition mcs51_edge_queue_push :: "u64 \<Rightarrow> u16 \<Rightarrow> u8 \<Rightarrow> 'e mcs51 \<Rightarrow> wink_status_t \<times> 'e mcs51" where
  "mcs51_edge_queue_push fire_us pin level c =
    (let count = mcs51_edge_queue_count c
     in if count \<ge> MCS51_EDGE_QUEUE_CAP then (WINK_ERR_RESOURCE_EXHAUSTED, c)
        else let temp = edge_temp c;
                 idx = insert_index fire_us temp;
                 temp = take idx temp @ \<lparr> me_fire_us = fire_us, me_pin = pin, me_level = level \<rparr> # drop idx temp
             in (WINK_OK, c\<lparr> mc_edge_queue := temp @ drop (count + 1) (mc_edge_queue c),
                              mc_edge_tail := 0, mc_edge_head := count + 1 \<rparr>))"

definition mcs51_edge_queue_pop :: "'e mcs51 \<Rightarrow> McuEdgeEvent option \<times> 'e mcs51" where
  "mcs51_edge_queue_pop c =
    (if mc_edge_head c = mc_edge_tail c then (None, c)
     else (Some (mc_edge_queue c ! mc_edge_tail c),
           c\<lparr> mc_edge_tail := (mc_edge_tail c + 1) mod MCS51_EDGE_QUEUE_CAP \<rparr>))"

definition edge_deliver :: "'e mcs51_isrs \<Rightarrow> McuEdgeEvent \<Rightarrow> 'e mcs51 \<Rightarrow> 'e mcs51" where
  "edge_deliver isrs ev c =
    (let c = wink_mcs51_host_set_ext_pin (me_pin ev) (me_level ev) c;
         c = c\<lparr> mc_extint := (mc_extint c)\<lparr> xi_sample_due := True \<rparr> \<rparr>
     in if me_level ev = 0
        then if me_pin ev = 28 then wink_mcs51_timer_pulse isrs 0 c
             else if me_pin ev = 29 then wink_mcs51_timer_pulse isrs 1 c
             else if me_pin ev = 14 then wink_mcs51_timer_pulse isrs 2 c
             else c
        else c)"

partial_function (option) drain_loop :: "'e mcs51_isrs \<Rightarrow> bool \<Rightarrow> 'e mcs51 \<Rightarrow> (bool \<times> 'e mcs51) option" where
  "drain_loop isrs drained_any c =
    (if mc_edge_head c = mc_edge_tail c then Some (drained_any, c)
     else let ev = mc_edge_queue c ! mc_edge_tail c
          in if me_fire_us ev > mc_virtual_us c then Some (drained_any, c)
             else drain_loop isrs True
                    (edge_deliver isrs ev (c\<lparr> mc_edge_tail := (mc_edge_tail c + 1) mod MCS51_EDGE_QUEUE_CAP \<rparr>)))"

definition mcs51_edge_queue_drain :: "'e mcs51_isrs \<Rightarrow> 'e mcs51 \<Rightarrow> 'e mcs51 option" where
  "mcs51_edge_queue_drain isrs c =
    map_option (\<lambda>(drained_any, c). if drained_any then wink_mcs51_spin_guard_note_event c else c)
      (drain_loop isrs False c)"

definition mcs51_edge_queue_clear :: "'e mcs51 \<Rightarrow> 'e mcs51" where
  "mcs51_edge_queue_clear c = c\<lparr> mc_edge_head := 0, mc_edge_tail := 0 \<rparr>"

declare drain_loop.simps [code]

section \<open>The queue as a list in order of time\<close>

fun insert_edge :: "McuEdgeEvent \<Rightarrow> McuEdgeEvent list \<Rightarrow> McuEdgeEvent list" where
  "insert_edge e [] = [e]"
| "insert_edge e (x # es) = (if me_fire_us x \<le> me_fire_us e then x # insert_edge e es else e # x # es)"

definition in_time :: "McuEdgeEvent list \<Rightarrow> bool" where
  "in_time es \<longleftrightarrow> sorted (map me_fire_us es)"

text \<open>Up to 63 events.\<close>

definition edges_ok :: "'e mcs51 \<Rightarrow> bool" where
  "edges_ok c \<longleftrightarrow> length (mc_edge_queue c) = MCS51_EDGE_QUEUE_CAP \<and> mc_edge_head c < MCS51_EDGE_QUEUE_CAP
     \<and> mc_edge_tail c < MCS51_EDGE_QUEUE_CAP \<and> in_time (edge_temp c)"

lemma insert_edge_props [simp]: "length (insert_edge e es) = Suc (length es)" "set (insert_edge e es) = insert e (set es)"
  by (induction es) auto

lemma in_time_insert: "in_time es \<Longrightarrow> in_time (insert_edge e es)"
  by (induction es) (auto simp: in_time_def)

lemma insert_at_index:
  "take (insert_index (me_fire_us e) es) es @ e # drop (insert_index (me_fire_us e) es) es = insert_edge e es"
proof (induction es)
  case (Cons x es)
  then show ?case by (auto simp: insert_index_def split: option.split)
qed (simp add: insert_index_def)

text \<open>Reading the ring.\<close>

lemma edge_temp_cong:
  "mc_edge_queue c' = mc_edge_queue c \<Longrightarrow> mc_edge_head c' = mc_edge_head c \<Longrightarrow> mc_edge_tail c' = mc_edge_tail c
    \<Longrightarrow> edge_temp c' = edge_temp c"
  by (simp add: edge_temp_def mcs51_edge_queue_count_def)

lemma length_edge_temp [simp]: "length (edge_temp c) = mcs51_edge_queue_count c"
  by (simp add: edge_temp_def)

lemma count_bound: "edges_ok c \<Longrightarrow> mcs51_edge_queue_count c < MCS51_EDGE_QUEUE_CAP"
  by (auto simp: edges_ok_def mcs51_edge_queue_count_def)

lemma edge_temp_linear:
  "mc_edge_tail c = 0 \<Longrightarrow> mc_edge_head c = n \<Longrightarrow> n \<le> 64 \<Longrightarrow> length (mc_edge_queue c) = 64 \<Longrightarrow> edge_temp c = take n (mc_edge_queue c)"
  by (rule nth_equalityI) (auto simp: edge_temp_def mcs51_edge_queue_count_def MCS51_EDGE_QUEUE_CAP_def)

lemma edge_temp_pop:
  assumes "edges_ok c" "mc_edge_head c \<noteq> mc_edge_tail c"
  defines "c' \<equiv> c\<lparr> mc_edge_tail := (mc_edge_tail c + 1) mod MCS51_EDGE_QUEUE_CAP \<rparr>"
  shows "edge_temp c = mc_edge_queue c ! mc_edge_tail c # edge_temp c'" "edges_ok c'"
proof -
  let ?t = "mc_edge_tail c" and ?h = "mc_edge_head c"
  have b: "?t < 64" "?h < 64" using assms(1) by (simp_all add: edges_ok_def MCS51_EDGE_QUEUE_CAP_def)
  have n: "mcs51_edge_queue_count c = Suc (mcs51_edge_queue_count c')"
    using b assms(2) by (auto simp: c'_def mcs51_edge_queue_count_def MCS51_EDGE_QUEUE_CAP_def mod_Suc)
  have i: "Suc (?t + i) mod 64 = (Suc ?t mod 64 + i) mod 64" for i by (metis add_Suc mod_add_left_eq)
  show e: "edge_temp c = mc_edge_queue c ! ?t # edge_temp c'"
    using b by (simp add: edge_temp_def n upt_conv_Cons map_Suc_upt [symmetric] c'_def MCS51_EDGE_QUEUE_CAP_def i comp_def
        del: upt_Suc)
  show "edges_ok c'" using assms(1) e by (auto simp: edges_ok_def c'_def in_time_def MCS51_EDGE_QUEUE_CAP_def)
qed

lemma push_refines:
  assumes "edges_ok c" "mcs51_edge_queue_count c + 1 < MCS51_EDGE_QUEUE_CAP"
  obtains c' where "mcs51_edge_queue_push f p l c = (WINK_OK, c')" "edges_ok c'"
    "edge_temp c' = insert_edge \<lparr> me_fire_us = f, me_pin = p, me_level = l \<rparr> (edge_temp c)"
proof -
  let ?e = "\<lparr> me_fire_us = f, me_pin = p, me_level = l \<rparr>" and ?n = "mcs51_edge_queue_count c"
  let ?c = "c\<lparr> mc_edge_queue := insert_edge ?e (edge_temp c) @ drop (?n + 1) (mc_edge_queue c), mc_edge_tail := 0,
      mc_edge_head := ?n + 1 \<rparr>"
  have "mcs51_edge_queue_push f p l c = (WINK_OK, ?c)"
    using assms(2) insert_at_index [of ?e "edge_temp c"] by (simp add: mcs51_edge_queue_push_def Let_def)
  moreover have t: "edge_temp ?c = insert_edge ?e (edge_temp c)"
    using assms by (subst edge_temp_linear [of _ "?n + 1"]) (auto simp: edges_ok_def MCS51_EDGE_QUEUE_CAP_def)
  moreover have "edges_ok ?c"
    unfolding edges_ok_def t using assms in_time_insert [of "edge_temp c" ?e] by (auto simp: edges_ok_def MCS51_EDGE_QUEUE_CAP_def)
  ultimately show thesis using that by blast
qed

section \<open>Draining\<close>

text \<open>What the queue reads and the pins; the routines of the firmware touch neither.\<close>

definition edge_view :: "'e mcs51 \<Rightarrow> McuEdgeEvent list \<times> nat \<times> nat \<times> u64 \<times> u8 list" where
  "edge_view c = (mc_edge_queue c, mc_edge_head c, mc_edge_tail c, mc_virtual_us c, mc_ext_pins c)"

interpretation edges: mcs51_frame edge_view
  by unfold_locales (simp_all add: edge_view_def)

definition drive_pin :: "McuEdgeEvent \<Rightarrow> u8 list \<Rightarrow> u8 list" where
  "drive_pin ev pins = (if me_pin ev < 32 then pins[unat (me_pin ev) := me_level ev] else pins)"

lemma edge_view_extint: "edge_view (c\<lparr> mc_extint := x \<rparr>) = edge_view c"
  by (simp add: edge_view_def)

lemma deliver_view:
  assumes "keeps_view edge_view isrs"
  shows "edge_view (edge_deliver isrs ev c)
    = (mc_edge_queue c, mc_edge_head c, mc_edge_tail c, mc_virtual_us c, drive_pin ev (mc_ext_pins c))"
proof -
  let ?c = "(wink_mcs51_host_set_ext_pin (me_pin ev) (me_level ev) c)"
  have "edge_view (edge_deliver isrs ev c) = edge_view ?c"
    by (simp add: edge_deliver_def Let_def edges.view_pulse [OF assms] edge_view_extint)
  then show ?thesis by (simp add: edge_view_def wink_mcs51_host_set_ext_pin_def drive_pin_def)
qed

definition due_edges :: "'e mcs51 \<Rightarrow> McuEdgeEvent list" where
  "due_edges c = takeWhile (\<lambda>e. me_fire_us e \<le> mc_virtual_us c) (edge_temp c)"

definition later_edges :: "'e mcs51 \<Rightarrow> McuEdgeEvent list" where
  "later_edges c = dropWhile (\<lambda>e. me_fire_us e \<le> mc_virtual_us c) (edge_temp c)"

lemma edges_view_cong:
  "edge_view c = edge_view d \<Longrightarrow> edges_ok c = edges_ok d \<and> edge_temp c = edge_temp d \<and> mc_virtual_us c = mc_virtual_us d"
  by (simp add: edge_view_def edges_ok_def edge_temp_def mcs51_edge_queue_count_def)

lemma edges_pins [simp]: "edges_ok (c\<lparr> mc_ext_pins := x \<rparr>) = edges_ok c" "edge_temp (c\<lparr> mc_ext_pins := x \<rparr>) = edge_temp c"
  by (simp_all add: edges_ok_def edge_temp_def mcs51_edge_queue_count_def)

lemma drain_loop_spec:
  assumes "keeps_view edge_view isrs" "edges_ok c"
  shows "\<exists>any' c'. drain_loop isrs any c = Some (any', c') \<and> edges_ok c' \<and> edge_temp c' = later_edges c
    \<and> mc_ext_pins c' = fold drive_pin (due_edges c) (mc_ext_pins c)"
  using assms(2)
proof (induction c arbitrary: any rule: measure_induct_rule [where f = "\<lambda>c. length (edge_temp c)"])
  case (less c)
  show ?case
  proof (cases "mc_edge_head c = mc_edge_tail c")
    case True
    then have "edge_temp c = []" by (simp add: edge_temp_def mcs51_edge_queue_count_def)
    with True less.prems show ?thesis by (simp add: drain_loop.simps later_edges_def due_edges_def)
  next
    case False
    let ?ev = "mc_edge_queue c ! mc_edge_tail c"
    let ?p = "c\<lparr> mc_edge_tail := (mc_edge_tail c + 1) mod MCS51_EDGE_QUEUE_CAP \<rparr>"
    note pop = edge_temp_pop [OF less.prems False]
    show ?thesis
    proof (cases "me_fire_us ?ev \<le> mc_virtual_us c")
      case late: False
      with False have "drain_loop isrs any c = Some (any, c)" using late by (subst drain_loop.simps) (simp add: Let_def not_le)
      with late pop(1) less.prems show ?thesis by (simp add: later_edges_def due_edges_def)
    next
      case True
      let ?d = "edge_deliver isrs ?ev ?p"
      have v: "edge_view ?d = edge_view (?p\<lparr> mc_ext_pins := drive_pin ?ev (mc_ext_pins c) \<rparr>)"
        unfolding deliver_view [OF assms(1)] by (simp add: edge_view_def)
      have d: "edges_ok ?d" "edge_temp ?d = edge_temp ?p" "mc_virtual_us ?d = mc_virtual_us c"
        "mc_ext_pins ?d = drive_pin ?ev (mc_ext_pins c)"
        using edges_view_cong [OF v] pop(2) arg_cong [OF v, of "snd \<circ> snd \<circ> snd \<circ> snd"]
        by (simp_all add: edge_view_def)
      have "length (edge_temp ?d) < length (edge_temp c)" using pop(1) d(2) by simp
      from less.IH [OF this d(1), of True] obtain any' c' where
        r: "drain_loop isrs True ?d = Some (any', c')" "edges_ok c'" "edge_temp c' = later_edges ?d"
          "mc_ext_pins c' = fold drive_pin (due_edges ?d) (mc_ext_pins ?d)" by blast
      have "drain_loop isrs any c = Some (any', c')"
        using False leD [OF True] r(1) by (subst drain_loop.simps) (simp add: Let_def)
      moreover have "later_edges ?d = later_edges c" "due_edges c = ?ev # due_edges ?d"
        using True pop(1) d(2,3) by (simp_all add: later_edges_def due_edges_def)
      ultimately show ?thesis using r d(4) by simp
    qed
  qed
qed

text \<open>C35: with at most 63 events the queue is a list in the order of time, and it delivers in order. A push
  inserts its event behind those of the same time or earlier; a drain ends for every routine that
  leaves queue, clock and pins alone, has driven the pins by the events that are due, in order, and
  leaves exactly the later ones.\<close>
theorem edge_queue_delivers_in_order:
  assumes "edges_ok c" "keeps_view edge_view isrs"
  shows "(mcs51_edge_queue_count c < 63 \<longrightarrow> (\<exists>c'. mcs51_edge_queue_push f p l c = (WINK_OK, c') \<and> edges_ok c'
        \<and> edge_temp c' = insert_edge \<lparr> me_fire_us = f, me_pin = p, me_level = l \<rparr> (edge_temp c)))
    \<and> (\<exists>c'. mcs51_edge_queue_drain isrs c = Some c' \<and> edges_ok c' \<and> edge_temp c' = later_edges c
        \<and> mc_ext_pins c' = fold drive_pin (due_edges c) (mc_ext_pins c))"
proof
  show "mcs51_edge_queue_count c < 63 \<longrightarrow> (\<exists>c'. mcs51_edge_queue_push f p l c = (WINK_OK, c') \<and> edges_ok c'
      \<and> edge_temp c' = insert_edge \<lparr> me_fire_us = f, me_pin = p, me_level = l \<rparr> (edge_temp c))"
    using push_refines [OF assms(1), of f p l] by (auto simp: MCS51_EDGE_QUEUE_CAP_def)
  from drain_loop_spec [OF assms(2,1), of False] obtain any c' where
    r: "drain_loop isrs False c = Some (any, c')" "edges_ok c'" "edge_temp c' = later_edges c"
      "mc_ext_pins c' = fold drive_pin (due_edges c) (mc_ext_pins c)" by blast
  let ?c = "if any then wink_mcs51_spin_guard_note_event c' else c'"
  have v: "edge_view ?c = edge_view c'" by (simp add: edges.view_note)
  then have "mc_ext_pins ?c = mc_ext_pins c'" by (simp add: edge_view_def)
  with r edges_view_cong [OF v]
  show "\<exists>c'. mcs51_edge_queue_drain isrs c = Some c' \<and> edges_ok c' \<and> edge_temp c' = later_edges c
      \<and> mc_ext_pins c' = fold drive_pin (due_edges c) (mc_ext_pins c)"
    by (intro exI [of _ ?c]) (simp add: mcs51_edge_queue_drain_def)
qed

section \<open>The full queue\<close>

text \<open>The 64th event sets the head to 64, which the tail, taken modulo 64, never meets: once its events
  are due, the drain runs for ever over stale slots.\<close>

definition edges_stuck :: "'e mcs51 \<Rightarrow> bool" where
  "edges_stuck c \<longleftrightarrow> length (mc_edge_queue c) = MCS51_EDGE_QUEUE_CAP \<and> mc_edge_head c = MCS51_EDGE_QUEUE_CAP
     \<and> mc_edge_tail c < MCS51_EDGE_QUEUE_CAP \<and> (\<forall>e \<in> set (mc_edge_queue c). me_fire_us e \<le> mc_virtual_us c)"

lemma stuck_drain_aux:
  assumes "drain_loop isrs any c = Some r"
  shows "keeps_view edge_view isrs \<longrightarrow> \<not> edges_stuck c"
  using assms
proof (rule drain_loop.raw_induct [rotated])
  fix rec :: "'a mcs51_isrs \<Rightarrow> bool \<Rightarrow> 'a mcs51 \<Rightarrow> (bool \<times> 'a mcs51) option" and isrs any c r
  assume IH: "\<And>isrs any c r. rec isrs any c = Some r \<Longrightarrow> keeps_view edge_view isrs \<longrightarrow> \<not> edges_stuck c"
    and step: "(if mc_edge_head c = mc_edge_tail c then Some (any, c)
      else let ev = mc_edge_queue c ! mc_edge_tail c
           in if mc_virtual_us c < me_fire_us ev then Some (any, c)
              else rec isrs True (edge_deliver isrs ev (c\<lparr> mc_edge_tail := (mc_edge_tail c + 1) mod MCS51_EDGE_QUEUE_CAP \<rparr>))) = Some r"
  have False if k: "keeps_view edge_view isrs" and s: "edges_stuck c"
  proof -
    let ?ev = "mc_edge_queue c ! mc_edge_tail c"
    let ?p = "c\<lparr> mc_edge_tail := (mc_edge_tail c + 1) mod MCS51_EDGE_QUEUE_CAP \<rparr>"
    have ev: "\<not> mc_virtual_us c < me_fire_us ?ev" "mc_edge_head c \<noteq> mc_edge_tail c" using s by (auto simp: edges_stuck_def not_less)
    then have "rec isrs True (edge_deliver isrs ?ev ?p) = Some r" using step by (simp add: Let_def)
    with IH k have "\<not> edges_stuck (edge_deliver isrs ?ev ?p)" by blast
    moreover have "edges_stuck (edge_deliver isrs ?ev ?p)"
      using s deliver_view [OF k, of ?ev ?p] by (simp add: edge_view_def edges_stuck_def MCS51_EDGE_QUEUE_CAP_def)
    ultimately show False by blast
  qed
  then show "keeps_view edge_view isrs \<longrightarrow> \<not> edges_stuck c" by blast
qed

lemma full_edge_queue_never_drains:
  assumes "edges_ok c" "keeps_view edge_view isrs" "mcs51_edge_queue_count c = 63" "f \<le> mc_virtual_us c"
    "\<forall>e \<in> set (edge_temp c). me_fire_us e \<le> mc_virtual_us c" "mcs51_edge_queue_push f p l c = (st, c')"
  shows "st = WINK_OK \<and> mcs51_edge_queue_drain isrs c' = None"
proof -
  let ?e = "\<lparr> me_fire_us = f, me_pin = p, me_level = l \<rparr>"
  have c': "st = WINK_OK" "c' = c\<lparr> mc_edge_queue := insert_edge ?e (edge_temp c), mc_edge_tail := 0, mc_edge_head := 64 \<rparr>"
    using assms(1,3,6) insert_at_index [of ?e "edge_temp c"]
    by (auto simp: mcs51_edge_queue_push_def Let_def MCS51_EDGE_QUEUE_CAP_def edges_ok_def)
  then have "edges_stuck c'" using assms(3-5) by (auto simp: edges_stuck_def MCS51_EDGE_QUEUE_CAP_def)
  then have "drain_loop isrs False c' = None" using stuck_drain_aux assms(2) by (cases "drain_loop isrs False c'") blast+
  with c'(1) show ?thesis by (simp add: mcs51_edge_queue_drain_def)
qed

text \<open>A falling edge on the input of a counter is counted twice: by the drain, and when the timers are
  polled next, by the level it left on the pin.\<close>

lemma edge_counted_twice:
  "mc_sfr (poll_timer_pin (\<lambda>_ x. x) 0 (edge_deliver (\<lambda>_ x. x) \<lparr> me_fire_us = 0, me_pin = 28, me_level = 0 \<rparr>
     (upd_tm 0 (\<lambda>tm. tm\<lparr> tc_running := True, tc_external_clk := True, tc_mode := 1, tc_last_pin_level := 1 \<rparr>) (demo_mcs51 ()))))
     SFR_TL0 = 2"
  by code_simp

text \<open>Three edges on two pins, two of them due.\<close>

definition demo_edges :: "unit mcs51" where
  "demo_edges = snd (mcs51_edge_queue_push 100 3 1 (snd (mcs51_edge_queue_push 300 4 1 (snd (mcs51_edge_queue_push 200 3 0
     ((demo_mcs51 ())\<lparr> mc_virtual_us := 250 \<rparr>))))))"

lemma edge_queue_delivers_witness:
  "\<exists>c'. mcs51_edge_queue_drain (\<lambda>_ x. x) demo_edges = Some c' \<and> map me_fire_us (edge_temp c') = [300] \<and> mc_ext_pins c' ! 3 = 0"
proof -
  have ok: "edges_ok demo_edges" by code_simp
  have k: "keeps_view edge_view (\<lambda>_ x. x)" by (simp add: keeps_view_def)
  have e: "map me_fire_us (later_edges demo_edges) = [300]" by code_simp
  have p: "fold drive_pin (due_edges demo_edges) (mc_ext_pins demo_edges) ! 3 = 0" by code_simp
  from conjunct2 [OF edge_queue_delivers_in_order [OF ok k]] e p show ?thesis by auto
qed

end
