(* ===== verification/Mcs51_Reset.thy ===== *)
theory Mcs51_Reset
  imports Mcs51_Uart Mcs51_Extint Mcs51_Gpio Mcs51_Edge_Queue
begin

text \<open>
  The table of peripherals, \<^verbatim>\<open>mcs51_peripheral.cpp\<close>, and the reset of the whole context,
  \<^verbatim>\<open>mcs51_context.cpp\<close>. A function behind a descriptor is one of the core's three models or a function of
  the chip package, given by its number; what those do is a parameter. The private block of a chip
  and the number of the instance are not part of the context here.
\<close>

section \<open>Peripherals\<close>

datatype periph_fn = Fn_timer | Fn_uart | Fn_extint | Fn_chip nat

record mcs51_peripheral_desc_t =
  pd_name :: "string option"
  pd_init :: "periph_fn option"
  pd_reset :: "periph_fn option"
  pd_poll :: "periph_fn option"
  pd_next_event_us :: "periph_fn option"
  pd_phase :: nat
  pd_family_mask :: u8

definition mcs51_peripheral_active_for :: "mcs51_peripheral_desc_t \<Rightarrow> u8 \<Rightarrow> bool" where
  "mcs51_peripheral_active_for d family \<longleftrightarrow> bit (pd_family_mask d) (unat family)"

definition core_desc :: "string \<Rightarrow> periph_fn \<Rightarrow> nat \<Rightarrow> mcs51_peripheral_desc_t" where
  "core_desc name fn phase = \<lparr> pd_name = Some name, pd_init = Some fn, pd_reset = Some fn, pd_poll = Some fn,
     pd_next_event_us = Some fn, pd_phase = phase, pd_family_mask = 0xFF \<rparr>"

definition g_mcs51_peripherals :: "mcs51_peripheral_desc_t list" where
  "g_mcs51_peripherals = [core_desc ''timer'' Fn_timer 0, core_desc ''uart'' Fn_uart 1, core_desc ''extint'' Fn_extint 2]"

definition MCS51_MAX_PERIPHERALS :: nat where "MCS51_MAX_PERIPHERALS = 16"

definition same_desc :: "mcs51_peripheral_desc_t \<Rightarrow> mcs51_peripheral_desc_t \<Rightarrow> bool" where
  "same_desc a b \<longleftrightarrow> pd_name a \<noteq> None \<and> pd_name a = pd_name b
     \<or> pd_init a = pd_init b \<and> pd_reset a = pd_reset b \<and> pd_poll a = pd_poll b \<and> pd_next_event_us a = pd_next_event_us b"

text \<open>\<open>None\<close> is the abort on a full registry.\<close>

definition mcs51_peripheral_register ::
  "mcs51_peripheral_desc_t option \<Rightarrow> mcs51_peripheral_desc_t list \<Rightarrow> mcs51_peripheral_desc_t list option" where
  "mcs51_peripheral_register desc registered =
    (case desc of None \<Rightarrow> Some registered
     | Some d \<Rightarrow> if \<exists>r \<in> set registered. same_desc r d then Some registered
                 else if length registered \<ge> MCS51_MAX_PERIPHERALS then None
                 else Some (registered @ [d]))"

definition mcs51_peripheral_registered_count :: "mcs51_peripheral_desc_t list \<Rightarrow> nat" where
  "mcs51_peripheral_registered_count registered = length registered"

definition mcs51_peripheral_registered :: "nat \<Rightarrow> mcs51_peripheral_desc_t list \<Rightarrow> mcs51_peripheral_desc_t option" where
  "mcs51_peripheral_registered i registered = (if i < length registered then Some (registered ! i) else None)"

definition mcs51_peripheral_registry_reset :: "mcs51_peripheral_desc_t list \<Rightarrow> mcs51_peripheral_desc_t list" where
  "mcs51_peripheral_registry_reset registered = []"

text \<open>The program around the context: the routines of the firmware, the other fibers, the chip package with
  its registered peripherals, the selected family, the functions behind traps, the hook of the board
  and what a wait for an event meets.\<close>

record 'e mcs51_program =
  mp_isrs :: "'e mcs51_isrs"
  mp_turn :: "'e mcs51_turn"
  mp_chip :: "nat \<Rightarrow> 'e mcs51 \<Rightarrow> 'e mcs51"
  mp_chip_next :: "nat \<Rightarrow> 'e mcs51 \<Rightarrow> u64"
  mp_chip_read :: "nat \<Rightarrow> u8 \<Rightarrow> 'e mcs51 \<Rightarrow> 'e mcs51"
  mp_chip_write :: "nat \<Rightarrow> u8 \<Rightarrow> u8 \<Rightarrow> u8 \<Rightarrow> 'e mcs51 \<Rightarrow> 'e mcs51"
  mp_chip_notify :: "nat \<Rightarrow> u8 \<Rightarrow> 'e mcs51 \<Rightarrow> 'e mcs51"
  mp_xsfr_validate :: "u64 \<Rightarrow> 'e mcs51 \<Rightarrow> bool"
  mp_registered :: "mcs51_peripheral_desc_t list"
  mp_family :: u8
  mp_trap_reads :: "'e trap_reads"
  mp_trap_writes :: "'e trap_writes"
  mp_post_init :: "'e mcs51 \<Rightarrow> 'e mcs51"
  mp_event_queue_init :: "event_queue \<Rightarrow> event_queue"
  mp_pend :: pend_env
  mp_pend_now :: u64
  mp_reentry_active :: bool

definition peripherals_of :: "'e mcs51_program \<Rightarrow> mcs51_peripheral_desc_t list" where
  "peripherals_of prog = g_mcs51_peripherals @ mp_registered prog"

definition call_init :: "'e mcs51_program \<Rightarrow> periph_fn \<Rightarrow> 'e mcs51 \<Rightarrow> 'e mcs51" where
  "call_init prog fn = (case fn of Fn_timer \<Rightarrow> mcs51_timer_init | Fn_uart \<Rightarrow> mcs51_uart_init | Fn_extint \<Rightarrow> mcs51_extint_init
     | Fn_chip n \<Rightarrow> mp_chip prog n)"

definition call_reset :: "'e mcs51_program \<Rightarrow> periph_fn \<Rightarrow> 'e mcs51 \<Rightarrow> 'e mcs51" where
  "call_reset prog fn = (case fn of Fn_timer \<Rightarrow> mcs51_timer_reset | Fn_uart \<Rightarrow> mcs51_uart_reset | Fn_extint \<Rightarrow> mcs51_extint_reset
     | Fn_chip n \<Rightarrow> mp_chip prog n)"

definition call_poll :: "'e mcs51_program \<Rightarrow> periph_fn \<Rightarrow> 'e mcs51 \<Rightarrow> 'e mcs51" where
  "call_poll prog fn = (case fn of Fn_timer \<Rightarrow> mcs51_timer_poll (mp_isrs prog) | Fn_uart \<Rightarrow> mcs51_uart_poll (mp_isrs prog)
     | Fn_extint \<Rightarrow> mcs51_extint_poll | Fn_chip n \<Rightarrow> mp_chip prog n)"

definition call_next :: "'e mcs51_program \<Rightarrow> periph_fn \<Rightarrow> 'e mcs51 \<Rightarrow> u64" where
  "call_next prog fn = (case fn of Fn_timer \<Rightarrow> mcs51_timer_next_event_us | Fn_uart \<Rightarrow> mcs51_uart_next_event_us
     | Fn_extint \<Rightarrow> mcs51_extint_next_event_us | Fn_chip n \<Rightarrow> mp_chip_next prog n)"

text \<open>One loop over both tables: the members of the family that have the function.\<close>

definition for_peripherals ::
  "(mcs51_peripheral_desc_t \<Rightarrow> periph_fn option) \<Rightarrow> (periph_fn \<Rightarrow> 'e mcs51 \<Rightarrow> 'e mcs51) \<Rightarrow> mcs51_peripheral_desc_t list
    \<Rightarrow> 'e mcs51 \<Rightarrow> 'e mcs51" where
  "for_peripherals sel call ds c =
    fold (\<lambda>d c. if \<not> mcs51_peripheral_active_for d (mc_family c) then c
                else case sel d of None \<Rightarrow> c | Some fn \<Rightarrow> call fn c) ds c"

section \<open>Reset\<close>

definition MCS51_RESET_REASON_NONE :: u8 where "MCS51_RESET_REASON_NONE = 0"
definition MCS51_RESET_REASON_POR :: u8 where "MCS51_RESET_REASON_POR = 1"
definition MCS51_RESET_REASON_SOFTWARE :: u8 where "MCS51_RESET_REASON_SOFTWARE = 2"
definition MCS51_RESET_REASON_WDT :: u8 where "MCS51_RESET_REASON_WDT = 3"
definition MCS51_RESET_REASON_EXT :: u8 where "MCS51_RESET_REASON_EXT = 4"
definition MCS51_CAP_CHIP_MODELS :: u32 where "MCS51_CAP_CHIP_MODELS = push_bit 6 1"
definition SFR_WDCON :: u8 where "SFR_WDCON = 0x97"

definition apply_silicon_seeds :: "u8 \<Rightarrow> 'e mcs51 \<Rightarrow> 'e mcs51" where
  "apply_silicon_seeds family c =
    (let d = mcs51_family_desc family;
         c = sfr_write SFR_CKCON (fd_ckcon_reset d) (c\<lparr> mc_family := family, mc_caps_cache := fd_capabilities d \<rparr>)
     in if fd_fosc_hz d \<noteq> 0 then c\<lparr> mc_clock_hz := fd_fosc_hz d \<rparr> else c)"

definition verify_chip_models_registered :: "mcs51_peripheral_desc_t list \<Rightarrow> 'e mcs51 \<Rightarrow> 'e mcs51" where
  "verify_chip_models_registered registered c =
    (if fd_capabilities (mcs51_family_desc (mc_family c)) AND MCS51_CAP_CHIP_MODELS = 0 then c
     else if \<exists>d \<in> set registered. mcs51_peripheral_active_for d (mc_family c) then c
     else c\<lparr> mc_reset := (mc_reset c)\<lparr> rs_chip_models_missing := sat_count (rs_chip_models_missing (mc_reset c)) \<rparr> \<rparr>)"

definition mcs51_context_set_family :: "u8 \<Rightarrow> 'e mcs51 \<Rightarrow> 'e mcs51" where
  "mcs51_context_set_family family c = apply_silicon_seeds family c"

definition reset_reason_of :: "'e mcs51 \<Rightarrow> u8" where
  "reset_reason_of c = (if rs_reason (mc_reset c) \<noteq> 0 then rs_reason (mc_reset c) else rs_last_reason (mc_reset c))"

definition is_warm_reset :: "u8 \<Rightarrow> bool" where
  "is_warm_reset reason \<longleftrightarrow> reason \<noteq> MCS51_RESET_REASON_POR \<and> reason \<noteq> MCS51_RESET_REASON_NONE"

text \<open>The memory of the context is cleared; the vectors, the two lines with their trigger modes, the reason,
  and on a warm reset the clock are put back. Counters of the process and the host's pins and logs
  are not part of that memory.\<close>

definition clear_context :: "'e mcs51 \<Rightarrow> 'e mcs51" where
  "clear_context c =
    (let reason = reset_reason_of c; warm = is_warm_reset reason
     in c\<lparr> mc_sfr := (\<lambda>_. 0)(SFR_TCON := mc_sfr c SFR_TCON AND 5), mc_xdata := (\<lambda>_. 0), mc_pending := 0,
           mc_prio_stack := replicate 4 0, mc_depth := 0, mc_interrupts_enabled := False, mc_reti_suppress := False,
           mc_dispatch_count := replicate WINK_MCS51_NUM_VECTORS 0, mc_irq_map_extend := False, mc_flag_predicate := False,
           mc_virtual_us := (if warm then mc_virtual_us c else 0), mc_clock_hz := 0,
           mc_extint := \<lparr> xi_lines = xi_lines (mc_extint c), xi_sample_due = False, xi_in_poll = False \<rparr>,
           mc_uart := \<lparr> ur_capture = replicate 4096 0, ur_count = 0, ur_rx_fifo = replicate 64 0, ur_rx_head = 0,
             ur_rx_tail = 0, ur_rx_dropped = 0, ur_rx_last_deliver_us = 0, ur_rx_have_delivered = False \<rparr>,
           mc_edge_queue := replicate 64 \<lparr> me_fire_us = 0, me_pin = 0, me_level = 0 \<rparr>, mc_edge_head := 0, mc_edge_tail := 0,
           mc_spin_addrs := [0, 0, 0], mc_spin_addr_count := 0, mc_spin_tripped := False, mc_spin_reads := 0,
           mc_spin_window_start_us := 0, mc_caps_cache := 0, mc_uart_hooked := False,
           mc_sched := (mc_sched c)\<lparr> sc_slice_start_us := if warm then sc_slice_start_us (mc_sched c) else 0,
             sc_quota_yields := if warm then sc_quota_yields (mc_sched c) else 0,
             sc_step_count := if warm then sc_step_count (mc_sched c) else 0, sc_microstep_us := 0 \<rparr>,
           mc_gpio := (mc_gpio c)\<lparr> gp_traps := replicate 4 (replicate 8 \<lparr> pt_on_write = None, pt_on_read = None \<rparr>),
             gp_hooked := False, gp_meters := replicate 32 \<lparr> pw_active = False, pw_current_level = 0, pw_last_flip_us = 0,
               pw_high_time_us = 0, pw_low_time_us = 0, pw_transitions = 0 \<rparr> \<rparr>,
           mc_xdata_bus := (mc_xdata_bus c)\<lparr> xd_extbus := \<lparr> xb_xbus_used = False, xb_gpio_bus_mask = 0 \<rparr> \<rparr>,
           mc_hooks := \<lparr> hk_sfr_write = (\<lambda>_. None), hk_sfr_read = (\<lambda>_. None), hk_write_notify = None \<rparr>,
           mc_reset := (mc_reset c)\<lparr> rs_pending := False, rs_reason := 0, rs_last_reason := reason, rs_guard := False \<rparr> \<rparr>)"

definition port_seeds :: "'e mcs51 \<Rightarrow> 'e mcs51" where
  "port_seeds c = sfr_write 0x87 0 (sfr_write 0x81 7 (sfr_write 0xB0 0xFF (sfr_write 0xA0 0xFF
     (sfr_write 0x90 0xFF (sfr_write 0x80 0xFF c)))))"

definition wdcon_seed :: "u8 \<Rightarrow> u8 \<Rightarrow> u8 \<Rightarrow> u8" where
  "wdcon_seed reason saved_porf v =
    (let v = (if \<not> is_warm_reset reason then unset_bit 2 (set_bit 6 v)
              else let v = unset_bit 6 v OR saved_porf
                   in if reason = MCS51_RESET_REASON_WDT then set_bit 2 v else unset_bit 2 v)
     in unset_bit 0 (unset_bit 7 v))"

definition mcs51_context_reset :: "'e mcs51_program \<Rightarrow> 'e mcs51 \<Rightarrow> 'e mcs51" where
  "mcs51_context_reset prog c0 =
    (let reason = reset_reason_of c0;
         saved_porf = mc_sfr c0 SFR_WDCON AND 0x40;
         c = port_seeds (clear_context c0);
         c = c\<lparr> mc_timer := \<lparr> ts_channels = replicate 2 \<lparr> tc_running = False, tc_external_clk = False, tc_mode = 0,
                 tc_next_ovf_us = 0, tc_tr_prev = 0, tc_last_pin_level = 0 \<rparr>, ts_t2_running = False, ts_t2_next_ovf_us = 0,
               ts_t2_tr_prev = 0, ts_t2_last_pin_level = 0, ts_t0_ps_addr = 0, ts_t1_ps_addr = 0, ts_t2_ps_addr = 0 \<rparr>,
               mc_family := mp_family prog \<rparr>;
         c = wink_mcs51_reset_irq_map c;
         c = for_peripherals pd_init (call_init prog) (peripherals_of prog) c;
         c = for_peripherals pd_reset (call_reset prog) (peripherals_of prog) c;
         c = apply_silicon_seeds (mp_family prog) c;
         c = (if mc_family c = MCS51_FAMILY_CMS8S78XX
              then sfr_write SFR_WDCON (wdcon_seed reason saved_porf (mc_sfr c SFR_WDCON)) c else c)
     in verify_chip_models_registered (mp_registered prog) c)"

definition upd_reset :: "(Mcs51Reset \<Rightarrow> Mcs51Reset) \<Rightarrow> 'e mcs51 \<Rightarrow> 'e mcs51" where
  "upd_reset f c = c\<lparr> mc_reset := f (mc_reset c) \<rparr>"

definition wink_mcs51_trigger_reset :: "u8 \<Rightarrow> 'e mcs51 \<Rightarrow> 'e mcs51" where
  "wink_mcs51_trigger_reset reason c =
    (if rs_guard (mc_reset c) then c
     else if rs_pending (mc_reset c) then c
     else upd_reset (\<lambda>r. r\<lparr> rs_pending := True, rs_reason := reason \<rparr>) c)"

definition wink_mcs51_has_pending_reset :: "'e mcs51 \<Rightarrow> bool" where
  "wink_mcs51_has_pending_reset c = rs_pending (mc_reset c)"

definition wink_mcs51_get_pending_reset_reason :: "'e mcs51 \<Rightarrow> u8" where
  "wink_mcs51_get_pending_reset_reason c = rs_reason (mc_reset c)"

definition wink_mcs51_get_last_reset_reason :: "'e mcs51 \<Rightarrow> u8" where
  "wink_mcs51_get_last_reset_reason c = rs_last_reason (mc_reset c)"

definition wink_mcs51_clear_pending_reset :: "'e mcs51 \<Rightarrow> 'e mcs51" where
  "wink_mcs51_clear_pending_reset = upd_reset (\<lambda>r. r\<lparr> rs_pending := False, rs_reason := 0 \<rparr>)"

definition wink_mcs51_chip_models_missing_count :: "'e mcs51 \<Rightarrow> u32" where
  "wink_mcs51_chip_models_missing_count c = rs_chip_models_missing (mc_reset c)"

section \<open>A reset forgets\<close>

text \<open>What outlives a reset: vectors, interrupt lines and their trigger modes, the sticky power-on flag, the
  reason, the clock if the reset is warm, and what is not part of the chip.\<close>

definition reset_clock :: "'e mcs51 \<Rightarrow> u64 \<times> u64 \<times> u32 \<times> u32" where
  "reset_clock c =
    (if is_warm_reset (reset_reason_of c)
     then (mc_virtual_us c, sc_slice_start_us (mc_sched c), sc_quota_yields (mc_sched c), sc_step_count (mc_sched c))
     else (0, 0, 0, 0))"

definition outside_chip :: "'e mcs51 \<Rightarrow> 'e mcs51 \<Rightarrow> bool" where
  "outside_chip c d \<longleftrightarrow> mc_duplicate_vectors c = mc_duplicate_vectors d \<and> mc_ext_pins c = mc_ext_pins d
     \<and> mc_mailbox c = mc_mailbox d \<and> mc_wakes c = mc_wakes d \<and> mc_unsupported c = mc_unsupported d
     \<and> mc_uart_diag c = mc_uart_diag d \<and> mc_spin_diag c = mc_spin_diag d \<and> mc_app c = mc_app d
     \<and> sc_in_fiber (mc_sched c) = sc_in_fiber (mc_sched d) \<and> sc_catchup (mc_sched c) = sc_catchup (mc_sched d)
     \<and> sc_bills (mc_sched c) = sc_bills (mc_sched d)
     \<and> rs_chip_models_missing (mc_reset c) = rs_chip_models_missing (mc_reset d)
     \<and> (mc_gpio c)\<lparr> gp_traps := [], gp_hooked := False, gp_meters := [] \<rparr>
       = (mc_gpio d)\<lparr> gp_traps := [], gp_hooked := False, gp_meters := [] \<rparr>
     \<and> (mc_xdata_bus c)\<lparr> xd_extbus := \<lparr> xb_xbus_used = False, xb_gpio_bus_mask = 0 \<rparr> \<rparr>
       = (mc_xdata_bus d)\<lparr> xd_extbus := \<lparr> xb_xbus_used = False, xb_gpio_bus_mask = 0 \<rparr> \<rparr>"

definition same_after_reset :: "'e mcs51 \<Rightarrow> 'e mcs51 \<Rightarrow> bool" where
  "same_after_reset c d \<longleftrightarrow> mc_isr_table c = mc_isr_table d \<and> xi_lines (mc_extint c) = xi_lines (mc_extint d)
     \<and> mc_sfr c SFR_TCON AND 5 = mc_sfr d SFR_TCON AND 5 \<and> mc_sfr c SFR_WDCON AND 0x40 = mc_sfr d SFR_WDCON AND 0x40
     \<and> reset_reason_of c = reset_reason_of d \<and> reset_clock c = reset_clock d \<and> outside_chip c d"

lemma gpio_cleared:
  fixes g g' :: Mcs51Gpio
  assumes "g\<lparr> gp_traps := [], gp_hooked := False, gp_meters := [] \<rparr> = g'\<lparr> gp_traps := [], gp_hooked := False, gp_meters := [] \<rparr>"
  shows "g\<lparr> gp_traps := t, gp_hooked := h, gp_meters := m \<rparr> = g'\<lparr> gp_traps := t, gp_hooked := h, gp_meters := m \<rparr>"
proof -
  have "g\<lparr> gp_traps := t, gp_hooked := h, gp_meters := m \<rparr>
      = g\<lparr> gp_traps := [], gp_hooked := False, gp_meters := [] \<rparr>\<lparr> gp_traps := t, gp_hooked := h, gp_meters := m \<rparr>" by simp
  also note assms
  finally show ?thesis by simp
qed

lemma xdata_cleared:
  assumes "x\<lparr> xd_extbus := e \<rparr> = y\<lparr> xd_extbus := e \<rparr>"
  shows "x\<lparr> xd_extbus := e' \<rparr> = y\<lparr> xd_extbus := e' \<rparr>"
proof -
  have "x\<lparr> xd_extbus := e' \<rparr> = x\<lparr> xd_extbus := e \<rparr>\<lparr> xd_extbus := e' \<rparr>" by simp
  also note assms
  finally show ?thesis by simp
qed

lemma sched_cleared:
  fixes s s' :: Mcs51Sched
  assumes "sc_in_fiber s = sc_in_fiber s'" "sc_catchup s = sc_catchup s'" "sc_bills s = sc_bills s'"
  shows "s\<lparr> sc_slice_start_us := a, sc_quota_yields := b, sc_step_count := k, sc_microstep_us := m \<rparr>
    = s'\<lparr> sc_slice_start_us := a, sc_quota_yields := b, sc_step_count := k, sc_microstep_us := m \<rparr>"
  by (rule Mcs51Sched.equality) (use assms in simp_all)

lemma reset_latch_cleared:
  fixes r r' :: Mcs51Reset
  assumes "rs_chip_models_missing r = rs_chip_models_missing r'"
  shows "r\<lparr> rs_pending := a, rs_reason := b, rs_last_reason := k, rs_guard := g \<rparr>
    = r'\<lparr> rs_pending := a, rs_reason := b, rs_last_reason := k, rs_guard := g \<rparr>"
  by (rule Mcs51Reset.equality) (use assms in simp_all)

lemma same_after_resetD:
  assumes "same_after_reset c d"
  shows "mc_isr_table c = mc_isr_table d" "xi_lines (mc_extint c) = xi_lines (mc_extint d)"
    "mc_sfr c SFR_TCON AND 5 = mc_sfr d SFR_TCON AND 5" "reset_reason_of c = reset_reason_of d"
    "mc_duplicate_vectors c = mc_duplicate_vectors d" "mc_ext_pins c = mc_ext_pins d" "mc_mailbox c = mc_mailbox d"
    "mc_wakes c = mc_wakes d" "mc_unsupported c = mc_unsupported d" "mc_uart_diag c = mc_uart_diag d"
    "mc_spin_diag c = mc_spin_diag d" "mc_app c = mc_app d"
  using assms by (simp_all add: same_after_reset_def outside_chip_def)

lemma same_clock:
  assumes "same_after_reset c d"
  defines "warm \<equiv> is_warm_reset (reset_reason_of d)"
  shows "(if warm then mc_virtual_us c else 0) = (if warm then mc_virtual_us d else 0)"
    "(if warm then sc_slice_start_us (mc_sched c) else 0) = (if warm then sc_slice_start_us (mc_sched d) else 0)"
    "(if warm then sc_quota_yields (mc_sched c) else 0) = (if warm then sc_quota_yields (mc_sched d) else 0)"
    "(if warm then sc_step_count (mc_sched c) else 0) = (if warm then sc_step_count (mc_sched d) else 0)"
proof -
  have "reset_clock c = reset_clock d" "reset_reason_of c = reset_reason_of d"
    using assms by (simp_all add: same_after_reset_def)
  then show "(if warm then mc_virtual_us c else 0) = (if warm then mc_virtual_us d else 0)"
    "(if warm then sc_slice_start_us (mc_sched c) else 0) = (if warm then sc_slice_start_us (mc_sched d) else 0)"
    "(if warm then sc_quota_yields (mc_sched c) else 0) = (if warm then sc_quota_yields (mc_sched d) else 0)"
    "(if warm then sc_step_count (mc_sched c) else 0) = (if warm then sc_step_count (mc_sched d) else 0)"
    unfolding warm_def by (simp_all add: reset_clock_def split: if_splits)
qed

lemma same_records:
  assumes "same_after_reset c d"
  shows "(mc_sched c)\<lparr> sc_slice_start_us := v, sc_quota_yields := w, sc_step_count := k, sc_microstep_us := m \<rparr>
      = (mc_sched d)\<lparr> sc_slice_start_us := v, sc_quota_yields := w, sc_step_count := k, sc_microstep_us := m \<rparr>"
    "(mc_gpio c)\<lparr> gp_traps := tr, gp_hooked := h, gp_meters := ms \<rparr> = (mc_gpio d)\<lparr> gp_traps := tr, gp_hooked := h, gp_meters := ms \<rparr>"
    "(mc_reset c)\<lparr> rs_pending := p, rs_reason := x, rs_last_reason := l, rs_guard := g \<rparr>
      = (mc_reset d)\<lparr> rs_pending := p, rs_reason := x, rs_last_reason := l, rs_guard := g \<rparr>"
    "(mc_xdata_bus c)\<lparr> xd_extbus := e \<rparr> = (mc_xdata_bus d)\<lparr> xd_extbus := e \<rparr>"
proof -
  have out: "outside_chip c d" using assms by (simp add: same_after_reset_def)
  show "(mc_sched c)\<lparr> sc_slice_start_us := v, sc_quota_yields := w, sc_step_count := k, sc_microstep_us := m \<rparr>
      = (mc_sched d)\<lparr> sc_slice_start_us := v, sc_quota_yields := w, sc_step_count := k, sc_microstep_us := m \<rparr>"
    using out by (intro sched_cleared) (simp_all add: outside_chip_def)
  show "(mc_gpio c)\<lparr> gp_traps := tr, gp_hooked := h, gp_meters := ms \<rparr> = (mc_gpio d)\<lparr> gp_traps := tr, gp_hooked := h, gp_meters := ms \<rparr>"
    by (rule gpio_cleared) (use out [unfolded outside_chip_def] in blast)
  show "(mc_reset c)\<lparr> rs_pending := p, rs_reason := x, rs_last_reason := l, rs_guard := g \<rparr>
      = (mc_reset d)\<lparr> rs_pending := p, rs_reason := x, rs_last_reason := l, rs_guard := g \<rparr>"
    using out by (intro reset_latch_cleared) (simp add: outside_chip_def)
  show "(mc_xdata_bus c)\<lparr> xd_extbus := e \<rparr> = (mc_xdata_bus d)\<lparr> xd_extbus := e \<rparr>"
    by (rule xdata_cleared) (use out [unfolded outside_chip_def] in blast)
qed

lemma clear_context_same:
  assumes "same_after_reset c d"
  shows "(clear_context c)\<lparr> mc_timer := t, mc_family := f, mc_irq_map := m \<rparr>
    = (clear_context d)\<lparr> mc_timer := t, mc_family := f, mc_irq_map := m \<rparr>"
  unfolding clear_context_def Let_def same_after_resetD [OF assms] same_clock [OF assms] same_records [OF assms]
  by (rule mcs51.equality) (simp_all add: same_after_resetD [OF assms])

lemma port_seeds_commute: "(port_seeds c)\<lparr> mc_timer := t, mc_family := f \<rparr> = port_seeds (c\<lparr> mc_timer := t, mc_family := f \<rparr>)"
  by (simp add: port_seeds_def sfr_write_def)

lemma irq_map_reloaded: "wink_mcs51_reset_irq_map (port_seeds ((clear_context c)\<lparr> mc_timer := t, mc_family := f \<rparr>))
    = port_seeds ((clear_context c)\<lparr> mc_timer := t, mc_family := f, mc_irq_map := s_default_irq_map \<rparr>)"
  by (simp add: wink_mcs51_reset_irq_map_def port_seeds_def sfr_write_def clear_context_def Let_def)

text \<open>C40: a reset forgets. Two contexts that agree on what outlives it are the same after it, whatever the
  chip package and the board add.\<close>
theorem reset_forgets:
  assumes "same_after_reset c d"
  shows "mcs51_context_reset prog c = mcs51_context_reset prog d"
proof -
  have "reset_reason_of c = reset_reason_of d" "mc_sfr c SFR_WDCON AND 0x40 = mc_sfr d SFR_WDCON AND 0x40"
    using assms by (simp_all add: same_after_reset_def)
  then show ?thesis
    unfolding mcs51_context_reset_def Let_def port_seeds_commute irq_map_reloaded clear_context_same [OF assms] by simp
qed

lemma reset_forgets_witness:
  "\<forall>prog. mcs51_context_reset prog ((demo_mcs51 ())\<lparr> mc_pending := 6, mc_depth := 2, mc_virtual_us := 99,
       mc_prio_stack := [0, 1, 0, 0], mc_sfr := (mc_sfr (demo_mcs51 ()))(0x90 := 3) \<rparr>)
     = mcs51_context_reset prog (demo_mcs51 ())"
proof (intro allI reset_forgets)
  show "same_after_reset ((demo_mcs51 ())\<lparr> mc_pending := 6, mc_depth := 2, mc_virtual_us := 99,
       mc_prio_stack := [0, 1, 0, 0], mc_sfr := (mc_sfr (demo_mcs51 ()))(0x90 := 3) \<rparr>) (demo_mcs51 ())"
    by (simp add: same_after_reset_def outside_chip_def reset_clock_def reset_reason_of_def is_warm_reset_def demo_mcs51_def
        SFR_TCON_def SFR_WDCON_def MCS51_RESET_REASON_POR_def MCS51_RESET_REASON_NONE_def)
qed

end
