(* ===== verification/Health_Pot.thy ===== *)
theory Health_Pot
  imports Wink_Prelude
begin

text \<open>
  The firmware of a kettle, \<^verbatim>\<open>wink-micro-app/appliances/health_pot/health_pot.c\<close>: the table of the
  probe, display, buzzer, keys, fault handler, dry-fire detector, the 100 ms control task, the task of
  the second and the loop that runs them. \<^verbatim>\<open>unsigned int\<close> has 16 bits, as in the compiler the file is
  written for. The static variables are one record, grouped by the tasks that own them; what the pins,
  the buzzer and the serial port show is in \<^verbatim>\<open>out\<close>. A pass of the loop is given the levels of the two
  keys and the three samples a filtered reading would take; the converter and the serial port are
  ready at once, as in the simulator. The configuration of pins, clocks and the watchdog is left out.
\<close>

section \<open>Constants\<close>

definition ST_OFF :: u8 where "ST_OFF = 0"
definition ST_HEAT :: u8 where "ST_HEAT = 1"
definition ST_WARM :: u8 where "ST_WARM = 2"
definition ST_FAULT :: u8 where "ST_FAULT = 3"
definition MODE_BOIL_100 :: u8 where "MODE_BOIL_100 = 0"
definition MODE_DIRECT_55 :: u8 where "MODE_DIRECT_55 = 1"
definition MODE_DIRECT_80 :: u8 where "MODE_DIRECT_80 = 2"
definition DIRECT_55_TEMP_C :: u8 where "DIRECT_55_TEMP_C = 55"
definition DIRECT_80_TEMP_C :: u8 where "DIRECT_80_TEMP_C = 80"
definition BOIL_TEMP_C :: u8 where "BOIL_TEMP_C = 98"
definition NTC_OPEN_RAW :: u16 where "NTC_OPEN_RAW = 3900"
definition NTC_SHORT_RAW :: u16 where "NTC_SHORT_RAW = 8"
definition OVERTEMP_RAW :: u16 where "OVERTEMP_RAW = 16"
definition OVERTEMP_SECONDS :: u8 where "OVERTEMP_SECONDS = 10"
definition BOIL_HOLD_TICKS :: u8 where "BOIL_HOLD_TICKS = 30"
definition WARM_HYST_C :: u8 where "WARM_HYST_C = 2"
definition WARM_DEFAULT_C :: u8 where "WARM_DEFAULT_C = 60"
definition RELAY_DWELL_SECONDS :: u8 where "RELAY_DWELL_SECONDS = 3"
definition FAULT_RECOVER_TICKS :: u8 where "FAULT_RECOVER_TICKS = 3"
definition DRYFIRE_SECONDS :: u16 where "DRYFIRE_SECONDS = 650"
definition DRYFIRE_TEMP_C :: u8 where "DRYFIRE_TEMP_C = 45"
definition BOIL_TIMEOUT_SECONDS :: u16 where "BOIL_TIMEOUT_SECONDS = 550"
definition SLOPE_WINDOW_SEC :: u8 where "SLOPE_WINDOW_SEC = 16"
definition SLOPE_MIN_DELTA :: u16 where "SLOPE_MIN_DELTA = 6"
definition SLOPE_ARM_HEAT_SEC :: u16 where "SLOPE_ARM_HEAT_SEC = 20"
definition COLDWATER_JUMP :: u16 where "COLDWATER_JUMP = 40"
definition GLITCH_TRIP_COUNT :: u8 where "GLITCH_TRIP_COUNT = 3"
definition FAULT_BEEP_TIMEOUT :: u8 where "FAULT_BEEP_TIMEOUT = 60"
definition COOLDOWN_SECONDS :: u8 where "COOLDOWN_SECONDS = 60"

lemmas pot_constants = ST_OFF_def ST_HEAT_def ST_WARM_def ST_FAULT_def MODE_BOIL_100_def MODE_DIRECT_55_def
  MODE_DIRECT_80_def DIRECT_55_TEMP_C_def DIRECT_80_TEMP_C_def BOIL_TEMP_C_def NTC_OPEN_RAW_def NTC_SHORT_RAW_def
  OVERTEMP_RAW_def OVERTEMP_SECONDS_def BOIL_HOLD_TICKS_def WARM_HYST_C_def WARM_DEFAULT_C_def RELAY_DWELL_SECONDS_def
  FAULT_RECOVER_TICKS_def DRYFIRE_SECONDS_def DRYFIRE_TEMP_C_def BOIL_TIMEOUT_SECONDS_def SLOPE_WINDOW_SEC_def
  SLOPE_MIN_DELTA_def SLOPE_ARM_HEAT_SEC_def COLDWATER_JUMP_def GLITCH_TRIP_COUNT_def FAULT_BEEP_TIMEOUT_def
  COOLDOWN_SECONDS_def

definition ntc_lut_raw :: "u16 list" where
  "ntc_lut_raw = [571, 458, 369, 298, 241, 196, 160, 131, 126, 122, 117, 113, 108, 104, 100, 97,
     93, 89, 86, 83, 80, 78, 76, 73, 70, 67, 65, 63, 61, 58, 56, 54, 52, 48, 43, 39, 35, 32, 30, 28,
     26, 25, 24, 22, 21, 20, 19, 16]"

definition ntc_lut_temp :: "u8 list" where
  "ntc_lut_temp = [5, 10, 15, 20, 25, 30, 35, 40, 41, 42, 43, 44, 45, 46, 47, 48,
     49, 50, 51, 52, 53, 54, 55, 56, 57, 58, 59, 60, 61, 62, 63, 64, 65, 68, 71, 74, 77, 80, 82, 85,
     87, 88, 90, 92, 94, 96, 98, 105]"

definition font_table :: "u8 list" where
  "font_table = [0x3F, 0x06, 0x5B, 0x4F, 0x66, 0x6D, 0x7D, 0x07, 0x7F, 0x6F, 0x7C, 0x3F, 0x79, 0x40, 0x00, 0x39, 0x38]"

record tone_step_t =
  ton_div :: u8
  ton_dur_10ms :: u8

definition tone :: "u8 \<Rightarrow> u8 \<Rightarrow> tone_step_t" where "tone d t = \<lparr> ton_div = d, ton_dur_10ms = t \<rparr>"

definition TONE_KEY :: "tone_step_t list" where "TONE_KEY = [tone 47 3, tone 0 0]"
definition TONE_STEP :: "tone_step_t list" where "TONE_STEP = [tone 94 4, tone 63 4, tone 0 0]"
definition TONE_BOIL_DONE :: "tone_step_t list" where
  "TONE_BOIL_DONE = [tone 180 10, tone 142 10, tone 120 10, tone 89 20, tone 0 0]"
definition TONE_RECOVER :: "tone_step_t list" where "TONE_RECOVER = [tone 120 10, tone 0 0]"
definition TONE_BUSY :: "tone_step_t list" where "TONE_BUSY = [tone 235 3, tone 0 0]"

section \<open>State\<close>

record pot_keys =
  onoff_held :: bool
  func_held :: bool
  db_onoff_press :: u8
  db_onoff_release :: u8
  db_func_press :: u8
  db_func_release :: u8
  evt_onoff :: bool
  evt_func :: bool

record pot_slope =
  adc_hist_16s :: "u16 list"
  adc_hist_idx :: u8
  adc_prev_1s :: u16
  glitch_cnt :: u8
  slope_valid_sec :: u8

record pot_ui =
  disp_digits :: "u8 list"
  scan_idx :: u8
  cur_melody :: "tone_step_t list option"
  melody_idx :: u8
  melody_ticks :: u8
  warble_phase :: u8
  blink_toggle :: bool
  fault_beep_seconds :: u8

record pot_out =
  pin_heater :: bool
  pin_led_heat :: bool
  pin_led_warm :: bool
  pin_led_err :: bool
  port_p1 :: u8
  port_p3 :: u8
  reg_buzdiv :: u8
  buzzer_on :: bool
  xbyte :: "u16 \<Rightarrow> u8"
  uart_sent :: "u8 list"

record pot =
  pot_state :: u8
  temp_c :: u8
  adc_code :: u16
  fault_code :: u8
  warm_set :: u8
  heat_mode :: u8
  heater_on :: bool
  relay_off_sec :: u8
  cooldown_seconds :: u8
  heat_seconds :: u16
  boil_hold :: u8
  boil_confirm :: bool
  overtemp_seconds :: u8
  recover_ticks :: u8
  sensor_muted :: bool
  div_100ms :: u8
  div_500ms :: u8
  div_1000ms :: u8
  tick_flag :: bool
  keys :: pot_keys
  slope :: pot_slope
  ui :: pot_ui
  out :: pot_out

record pot_input =
  in_onoff_low :: bool
  in_func_low :: bool
  in_adc :: "u16 \<times> u16 \<times> u16"

definition upd_keys :: "(pot_keys \<Rightarrow> pot_keys) \<Rightarrow> pot \<Rightarrow> pot" where "upd_keys f p = p\<lparr> keys := f (keys p) \<rparr>"
definition upd_slope :: "(pot_slope \<Rightarrow> pot_slope) \<Rightarrow> pot \<Rightarrow> pot" where "upd_slope f p = p\<lparr> slope := f (slope p) \<rparr>"
definition upd_ui :: "(pot_ui \<Rightarrow> pot_ui) \<Rightarrow> pot \<Rightarrow> pot" where "upd_ui f p = p\<lparr> ui := f (ui p) \<rparr>"
definition upd_out :: "(pot_out \<Rightarrow> pot_out) \<Rightarrow> pot \<Rightarrow> pot" where "upd_out f p = p\<lparr> out := f (out p) \<rparr>"

definition play_melody :: "tone_step_t list \<Rightarrow> pot \<Rightarrow> pot" where
  "play_melody mel = upd_ui (\<lambda>u. u\<lparr> cur_melody := Some mel, melody_idx := 0, melody_ticks := 0 \<rparr>)"

section \<open>Probe\<close>

text \<open>The median of three samples, by the three exchanges of the code.\<close>

definition adc_read_filtered :: "u16 \<times> u16 \<times> u16 \<Rightarrow> u16" where
  "adc_read_filtered s =
    (case s of (a, b, c) \<Rightarrow>
      let (a, b) = (if a > b then (b, a) else (a, b));
          (b, c) = (if b > c then (c, b) else (b, c));
          (a, b) = (if a > b then (b, a) else (a, b))
      in b)"

text \<open>The loop over the segments of the table.\<close>

fun ntc_scan :: "u16 \<Rightarrow> (u16 \<times> u8) list \<Rightarrow> u8" where
  "ntc_scan v ((r0, t0) # (r1, t1) # rest) =
    (if v \<ge> r1 then t0 + ucast ((ucast (t1 - t0) * (r0 - v)) div (r0 - r1)) else ntc_scan v ((r1, t1) # rest))"
| "ntc_scan v _ = 105"

definition ntc_code_to_temp :: "u16 \<Rightarrow> u8" where
  "ntc_code_to_temp code_val =
    (if code_val \<ge> ntc_lut_raw ! 0 then ntc_lut_temp ! 0 else ntc_scan code_val (zip ntc_lut_raw ntc_lut_temp))"

section \<open>Display and buzzer\<close>

definition glyph :: "u8 \<Rightarrow> u8" where "glyph i = font_table ! unat i"

definition heat_dp :: "pot \<Rightarrow> u8" where "heat_dp p = (if heater_on p \<and> blink_toggle (ui p) then 0x80 else 0)"

definition display_digits :: "pot \<Rightarrow> u8 list" where
  "display_digits p =
    (let disp_temp = (if temp_c p > 99 then 99 else temp_c p);
         tens = glyph (disp_temp div 10); ones = glyph (disp_temp mod 10)
     in if pot_state p = ST_FAULT then [glyph 12, glyph 13, glyph 0, glyph (fault_code p mod 10)]
        else if cooldown_seconds p > 0
        then (if bit (cooldown_seconds p) 0 then [glyph 15, glyph 11, glyph 11, glyph 16]
              else [glyph 13, tens, ones, glyph 13])
        else if pot_state p = ST_OFF
        then (if heat_mode p = MODE_DIRECT_55 then [glyph 13, glyph 5, glyph 5, glyph 13]
              else if heat_mode p = MODE_DIRECT_80 then [glyph 13, glyph 8, glyph 0, glyph 13]
              else [glyph 14, glyph 13, glyph 13, glyph 14])
        else if pot_state p = ST_HEAT
        then [tens, ones OR heat_dp p] @
             (if heat_mode p = MODE_DIRECT_55 then [glyph 5, glyph 5]
              else if heat_mode p = MODE_DIRECT_80 then [glyph 8, glyph 0] else [glyph 10, glyph 11])
        else if pot_state p = ST_WARM
        then [tens, ones OR heat_dp p, glyph (warm_set p div 10), glyph (warm_set p mod 10)]
        else disp_digits (ui p))"

definition display_update :: "pot \<Rightarrow> pot" where
  "display_update p = upd_ui (\<lambda>u. u\<lparr> disp_digits := display_digits p \<rparr>) p"

definition BUZ_DisableBuzzer :: "pot \<Rightarrow> pot" where "BUZ_DisableBuzzer = upd_out (\<lambda>w. w\<lparr> buzzer_on := False \<rparr>)"
definition buzz :: "u8 \<Rightarrow> pot \<Rightarrow> pot" where "buzz d = upd_out (\<lambda>w. w\<lparr> reg_buzdiv := d, buzzer_on := True \<rparr>)"

definition buzzer_task :: "pot \<Rightarrow> pot" where
  "buzzer_task p =
    (case cur_melody (ui p) of
       Some mel \<Rightarrow>
         if melody_ticks (ui p) > 0 then upd_ui (\<lambda>u. u\<lparr> melody_ticks := melody_ticks u - 1 \<rparr>) p
         else let s = mel ! unat (melody_idx (ui p))
              in if ton_dur_10ms s = 0 then BUZ_DisableBuzzer (upd_ui (\<lambda>u. u\<lparr> cur_melody := None \<rparr>) p)
                 else let p = upd_ui (\<lambda>u. u\<lparr> melody_idx := melody_idx u + 1, melody_ticks := ton_dur_10ms s \<rparr>) p
                      in if ton_div s > 0 then buzz (ton_div s) p else BUZ_DisableBuzzer p
     | None \<Rightarrow>
         if pot_state p = ST_FAULT \<and> fault_beep_seconds (ui p) < FAULT_BEEP_TIMEOUT
         then let sub = (ucast (warble_phase (ui p)) :: u16) * 10
              in if sub < 100 then buzz 63 p else if sub < 200 then buzz 94 p else BUZ_DisableBuzzer p
         else BUZ_DisableBuzzer p)"

section \<open>Telemetry\<close>

definition uart_send :: "u8 \<Rightarrow> pot \<Rightarrow> pot" where "uart_send c = upd_out (\<lambda>w. w\<lparr> uart_sent := uart_sent w @ [c] \<rparr>)"

definition digit :: "u8 \<Rightarrow> u8" where "digit v = 0x30 + v"

definition uart_send_dec :: "u8 \<Rightarrow> pot \<Rightarrow> pot" where
  "uart_send_dec v p = uart_send (digit (v mod 10)) (uart_send (digit (v div 10 mod 10)) (uart_send (digit (v div 100)) p))"

definition uart_send_str :: "u8 list \<Rightarrow> pot \<Rightarrow> pot" where "uart_send_str s p = fold uart_send s p"

definition flag :: "bool \<Rightarrow> u8" where "flag b = (if b then 1 else 0)"

text \<open>\<^verbatim>\<open>T=\<close>, \<^verbatim>\<open>C,S=\<close>, \<^verbatim>\<open>,H=\<close>, \<^verbatim>\<open>,F=\<close> and the end of the line, in ASCII.\<close>

definition telemetry_emit :: "pot \<Rightarrow> pot" where
  "telemetry_emit p =
    (let p = uart_send_str [0x54, 0x3D] p;
         p = uart_send_dec (temp_c p) p;
         p = uart_send_str [0x43, 0x2C, 0x53, 0x3D] p;
         p = uart_send (digit (pot_state p)) p;
         p = uart_send_str [0x2C, 0x48, 0x3D] p;
         p = uart_send (digit (flag (heater_on p))) p;
         p = uart_send_str [0x2C, 0x46, 0x3D] p;
         p = uart_send (digit (fault_code p)) p
     in uart_send_str [0x0A] p)"

section \<open>Keys\<close>

definition button_init_post :: "pot_input \<Rightarrow> pot \<Rightarrow> pot" where
  "button_init_post inp = upd_keys (\<lambda>k. k\<lparr> onoff_held := in_onoff_low inp, func_held := in_func_low inp,
     db_onoff_press := 0, db_onoff_release := 0, db_func_press := 0, db_func_release := 0 \<rparr>)"

text \<open>The counter of presses is raised only while the key is not held, that of releases only while it is.\<close>

definition scan_onoff :: "bool \<Rightarrow> pot_keys \<Rightarrow> pot_keys" where
  "scan_onoff low k =
    (if low
     then let k = k\<lparr> db_onoff_release := 0 \<rparr>
          in if onoff_held k then k
             else let k = k\<lparr> db_onoff_press := db_onoff_press k + 1 \<rparr>
                  in if db_onoff_press k \<ge> 2 then k\<lparr> onoff_held := True, evt_onoff := True \<rparr> else k
     else let k = k\<lparr> db_onoff_press := 0 \<rparr>
          in if \<not> onoff_held k then k
             else let k = k\<lparr> db_onoff_release := db_onoff_release k + 1 \<rparr>
                  in if db_onoff_release k \<ge> 2 then k\<lparr> onoff_held := False \<rparr> else k)"

definition scan_func :: "bool \<Rightarrow> pot_keys \<Rightarrow> pot_keys" where
  "scan_func low k =
    (if low
     then let k = k\<lparr> db_func_release := 0 \<rparr>
          in if func_held k then k
             else let k = k\<lparr> db_func_press := db_func_press k + 1 \<rparr>
                  in if db_func_press k \<ge> 2 then k\<lparr> func_held := True, evt_func := True \<rparr> else k
     else let k = k\<lparr> db_func_press := 0 \<rparr>
          in if \<not> func_held k then k
             else let k = k\<lparr> db_func_release := db_func_release k + 1 \<rparr>
                  in if db_func_release k \<ge> 2 then k\<lparr> func_held := False \<rparr> else k)"

definition button_scan_10ms :: "pot_input \<Rightarrow> pot \<Rightarrow> pot" where
  "button_scan_10ms inp = upd_keys (\<lambda>k. scan_func (in_func_low inp) (scan_onoff (in_onoff_low inp) k))"

section \<open>Faults and the dry-fire detector\<close>

definition enter_fault :: "u8 \<Rightarrow> pot \<Rightarrow> pot" where
  "enter_fault code_val p =
    (let p = (if code_val = 3 \<or> code_val = 4 then p\<lparr> cooldown_seconds := COOLDOWN_SECONDS \<rparr> else p)
     in if pot_state p = ST_FAULT
        then let p = p\<lparr> heater_on := False \<rparr>
             in if fault_code p \<noteq> 3 \<and> fault_code p \<noteq> 4 then p\<lparr> fault_code := code_val \<rparr> else p
        else upd_ui (\<lambda>u. u\<lparr> fault_beep_seconds := 0, cur_melody := None \<rparr>)
               (p\<lparr> pot_state := ST_FAULT, fault_code := code_val, heater_on := False, recover_ticks := 0 \<rparr>))"

definition heat_slope_reset :: "pot \<Rightarrow> pot" where
  "heat_slope_reset p = upd_slope (\<lambda>s. s\<lparr> adc_hist_16s := replicate 16 (adc_code p), adc_hist_idx := 0,
     adc_prev_1s := adc_code p, slope_valid_sec := 0 \<rparr>) p"

definition slope_dry :: "u16 \<Rightarrow> pot \<Rightarrow> bool" where
  "slope_dry adc_old p \<longleftrightarrow> heat_seconds p \<ge> SLOPE_ARM_HEAT_SEC \<and> slope_valid_sec (slope p) \<ge> SLOPE_WINDOW_SEC
     \<and> temp_c p < DRYFIRE_TEMP_C \<and> (adc_old \<le> adc_code p \<or> adc_old - adc_code p < SLOPE_MIN_DELTA)"

definition heat_timeouts :: "pot \<Rightarrow> pot" where
  "heat_timeouts p =
    (let p = (if heat_seconds p > DRYFIRE_SECONDS \<and> temp_c p < DRYFIRE_TEMP_C then enter_fault 3 p else p)
     in if heat_mode p = MODE_BOIL_100 \<and> heat_seconds p > BOIL_TIMEOUT_SECONDS \<and> temp_c p < BOIL_TEMP_C
        then enter_fault 3 p else p)"

definition slope_sample :: "pot \<Rightarrow> u16 \<times> pot" where
  "slope_sample p =
    (let i = (adc_hist_idx (slope p) + 1) AND 0x0F;
         adc_old = adc_hist_16s (slope p) ! unat i;
         v = slope_valid_sec (slope p)
     in (adc_old, upd_slope (\<lambda>s. s\<lparr> glitch_cnt := 0, adc_prev_1s := adc_code p, adc_hist_idx := i,
           adc_hist_16s := (adc_hist_16s s)[unat i := adc_code p], slope_valid_sec := if v < 255 then v + 1 else v \<rparr>)
           (p\<lparr> heat_seconds := heat_seconds p + 1 \<rparr>)))"

definition heat_slope_task_1s :: "pot \<Rightarrow> pot" where
  "heat_slope_task_1s p =
    (if pot_state p \<noteq> ST_HEAT \<or> \<not> heater_on p then p
     else if adc_code p > adc_prev_1s (slope p) \<and> adc_code p - adc_prev_1s (slope p) > COLDWATER_JUMP
     then let p = upd_slope (\<lambda>s. s\<lparr> glitch_cnt := glitch_cnt s + 1 \<rparr>) p
          in if glitch_cnt (slope p) \<ge> GLITCH_TRIP_COUNT then enter_fault 1 p else heat_slope_reset p
     else case slope_sample p of (adc_old, p) \<Rightarrow> if slope_dry adc_old p then enter_fault 3 p else heat_timeouts p)"

section \<open>Key events\<close>

definition clear_glitches :: "pot \<Rightarrow> pot" where "clear_glitches = upd_slope (\<lambda>s. s\<lparr> glitch_cnt := 0 \<rparr>)"

text \<open>The water is hot enough for a direct target: keep warm.\<close>

definition target_reached :: "pot \<Rightarrow> pot" where
  "target_reached p = play_melody TONE_BOIL_DONE
     (p\<lparr> heater_on := False, pot_state := ST_WARM, boil_confirm := False, boil_hold := 0, overtemp_seconds := 0 \<rparr>)"

definition func_off :: "pot \<Rightarrow> pot" where
  "func_off p =
    (let m = (if heat_mode p = MODE_BOIL_100 then MODE_DIRECT_55
              else if heat_mode p = MODE_DIRECT_55 then MODE_DIRECT_80 else MODE_BOIL_100)
     in display_update (play_melody TONE_STEP (p\<lparr> heat_mode := m \<rparr>)))"

definition func_heat :: "pot \<Rightarrow> pot" where
  "func_heat p =
    (let p = (if heat_mode p = MODE_BOIL_100
              then let p = play_melody TONE_STEP (p\<lparr> heat_mode := MODE_DIRECT_55, warm_set := 55 \<rparr>)
                   in if temp_c p \<ge> DIRECT_55_TEMP_C then target_reached p else p
              else if heat_mode p = MODE_DIRECT_55
              then let p = play_melody TONE_STEP (p\<lparr> heat_mode := MODE_DIRECT_80, warm_set := 80 \<rparr>)
                   in if temp_c p \<ge> DIRECT_80_TEMP_C then target_reached p else p
              else play_melody TONE_STEP (p\<lparr> heat_mode := MODE_BOIL_100 \<rparr>))
     in display_update (heat_slope_reset (clear_glitches (p\<lparr> heat_seconds := 0 \<rparr>))))"

definition reboil :: "pot \<Rightarrow> pot" where
  "reboil p = play_melody TONE_STEP (heat_slope_reset (clear_glitches
     (p\<lparr> pot_state := ST_HEAT, heat_mode := MODE_BOIL_100, warm_set := WARM_DEFAULT_C, heat_seconds := 0,
         boil_confirm := False, boil_hold := 0, overtemp_seconds := 0 \<rparr>)))"

definition func_warm :: "pot \<Rightarrow> pot" where
  "func_warm p = display_update
    (if warm_set p = 55 then play_melody TONE_STEP (p\<lparr> warm_set := 60 \<rparr>)
     else if warm_set p = 60 then play_melody TONE_STEP (p\<lparr> warm_set := 80 \<rparr>)
     else if warm_set p = 80 then play_melody TONE_STEP (p\<lparr> warm_set := 90 \<rparr>)
     else if cooldown_seconds p > 0 then play_melody TONE_BUSY p else reboil p)"

definition handle_func :: "pot \<Rightarrow> pot" where
  "handle_func p =
    (if \<not> evt_func (keys p) then p
     else let p = upd_keys (\<lambda>k. k\<lparr> evt_func := False \<rparr>) p
          in if pot_state p = ST_OFF then func_off p
             else if pot_state p = ST_HEAT then func_heat p
             else if pot_state p = ST_WARM then func_warm p
             else if pot_state p = ST_FAULT then play_melody TONE_BUSY p else p)"

definition start_heating :: "pot \<Rightarrow> pot" where
  "start_heating p = play_melody TONE_KEY (heat_slope_reset (clear_glitches
     (p\<lparr> pot_state := ST_HEAT, fault_code := 0, sensor_muted := False,
         warm_set := if heat_mode p = MODE_DIRECT_55 then 55 else if heat_mode p = MODE_DIRECT_80 then 80 else WARM_DEFAULT_C,
         boil_hold := 0, boil_confirm := False, heat_seconds := 0, overtemp_seconds := 0 \<rparr>)))"

definition onoff_off :: "pot \<Rightarrow> pot" where
  "onoff_off p = display_update
    (if cooldown_seconds p > 0 then play_melody TONE_BUSY p
     else if adc_code p \<ge> NTC_OPEN_RAW \<or> adc_code p \<le> NTC_SHORT_RAW
     then enter_fault (if adc_code p \<ge> NTC_OPEN_RAW then 1 else 2) (p\<lparr> sensor_muted := False \<rparr>)
     else start_heating p)"

definition onoff_stop :: "pot \<Rightarrow> pot" where
  "onoff_stop p = display_update (play_melody TONE_KEY
     (p\<lparr> pot_state := ST_OFF, heater_on := False, boil_confirm := False, boil_hold := 0, heat_seconds := 0,
         overtemp_seconds := 0, heat_mode := MODE_BOIL_100 \<rparr>))"

definition onoff_fault :: "pot \<Rightarrow> pot" where
  "onoff_fault p = display_update (play_melody TONE_KEY
    (if fault_code p = 3 \<or> fault_code p = 4
     then p\<lparr> pot_state := ST_OFF, fault_code := 0, sensor_muted := False, heat_seconds := 0, overtemp_seconds := 0,
             recover_ticks := 0, heat_mode := MODE_BOIL_100 \<rparr>
     else p\<lparr> pot_state := ST_OFF, sensor_muted := True, heater_on := False, heat_mode := MODE_BOIL_100 \<rparr>))"

definition handle_onoff :: "pot \<Rightarrow> pot" where
  "handle_onoff p =
    (if \<not> evt_onoff (keys p) then p
     else let p = upd_keys (\<lambda>k. k\<lparr> evt_onoff := False \<rparr>) p
          in if pot_state p = ST_OFF then onoff_off p
             else if pot_state p = ST_HEAT \<or> pot_state p = ST_WARM then onoff_stop p
             else if pot_state p = ST_FAULT then onoff_fault p else p)"

definition handle_buttons :: "pot \<Rightarrow> pot" where "handle_buttons p = handle_onoff (handle_func p)"

section \<open>The control task\<close>

definition put_xbyte :: "u16 \<Rightarrow> u8 \<Rightarrow> pot \<Rightarrow> pot" where
  "put_xbyte a v = upd_out (\<lambda>w. w\<lparr> xbyte := (xbyte w)(a := v) \<rparr>)"

definition TLM_TEMP :: u16 where "TLM_TEMP = 0x0010"
definition TLM_STATE :: u16 where "TLM_STATE = 0x0011"
definition TLM_HEATER :: u16 where "TLM_HEATER = 0x0012"
definition TLM_FAULT :: u16 where "TLM_FAULT = 0x0013"
definition TLM_ADC_H :: u16 where "TLM_ADC_H = 0x0014"
definition TLM_ADC_L :: u16 where "TLM_ADC_L = 0x0015"

definition control_sample :: "pot_input \<Rightarrow> pot \<Rightarrow> pot" where
  "control_sample inp p =
    (let raw = adc_read_filtered (in_adc inp);
         p = p\<lparr> adc_code := raw, temp_c := ntc_code_to_temp raw \<rparr>
     in put_xbyte TLM_ADC_L (ucast (raw AND 0xFF)) (put_xbyte TLM_ADC_H (ucast (drop_bit 8 raw AND 0x0F))
          (put_xbyte TLM_TEMP (temp_c p) p)))"

definition control_probe :: "pot \<Rightarrow> pot" where
  "control_probe p =
    (if adc_code p \<ge> NTC_OPEN_RAW
     then if pot_state p = ST_OFF \<and> sensor_muted p then p\<lparr> fault_code := 1 \<rparr> else enter_fault 1 p
     else if adc_code p \<le> NTC_SHORT_RAW
     then if pot_state p = ST_OFF \<and> sensor_muted p then p\<lparr> fault_code := 2 \<rparr> else enter_fault 2 p
     else p)"

definition control_streak :: "pot \<Rightarrow> pot" where
  "control_streak p =
    (if adc_code p > NTC_SHORT_RAW \<and> adc_code p < NTC_OPEN_RAW
        \<and> (pot_state p = ST_FAULT \<and> (fault_code p = 1 \<or> fault_code p = 2) \<or> pot_state p = ST_OFF \<and> sensor_muted p)
     then if recover_ticks p < 255 then p\<lparr> recover_ticks := recover_ticks p + 1 \<rparr> else p
     else p\<lparr> recover_ticks := 0 \<rparr>)"

definition control_off :: "pot \<Rightarrow> pot" where
  "control_off p =
    (let p = p\<lparr> heater_on := False, boil_hold := 0, boil_confirm := False, heat_seconds := 0, overtemp_seconds := 0 \<rparr>
     in if sensor_muted p \<and> recover_ticks p \<ge> FAULT_RECOVER_TICKS
        then play_melody TONE_RECOVER (p\<lparr> sensor_muted := False, fault_code := 0, recover_ticks := 0 \<rparr>) else p)"

definition energise :: "pot \<Rightarrow> pot" where
  "energise p = (if relay_off_sec p \<ge> RELAY_DWELL_SECONDS then p\<lparr> heater_on := True \<rparr> else p)"

definition control_direct :: "u8 \<Rightarrow> u8 \<Rightarrow> pot \<Rightarrow> pot" where
  "control_direct target setpoint p =
    (if temp_c p \<ge> target
     then play_melody TONE_BOIL_DONE (p\<lparr> heater_on := False, pot_state := ST_WARM, warm_set := setpoint,
            boil_confirm := False, boil_hold := 0, overtemp_seconds := 0 \<rparr>)
     else energise p)"

definition control_boil :: "pot \<Rightarrow> pot" where
  "control_boil p =
    (if (boil_confirm p \<or> temp_c p \<ge> BOIL_TEMP_C) \<and> adc_code p > OVERTEMP_RAW
     then let p = p\<lparr> heater_on := False, boil_confirm := True, boil_hold := boil_hold p + 1 \<rparr>
          in if boil_hold p \<ge> BOIL_HOLD_TICKS
             then play_melody TONE_BOIL_DONE (p\<lparr> pot_state := ST_WARM, boil_confirm := False, overtemp_seconds := 0 \<rparr>)
             else p
     else energise p)"

definition control_heat :: "pot \<Rightarrow> pot" where
  "control_heat p =
    (if heat_mode p = MODE_DIRECT_55 then control_direct DIRECT_55_TEMP_C 55 p
     else if heat_mode p = MODE_DIRECT_80 then control_direct DIRECT_80_TEMP_C 80 p
     else control_boil p)"

definition control_warm :: "pot \<Rightarrow> pot" where
  "control_warm p =
    (if warm_set p > WARM_HYST_C \<and> temp_c p < warm_set p - WARM_HYST_C then energise p
     else if temp_c p > warm_set p + WARM_HYST_C then p\<lparr> heater_on := False \<rparr> else p)"

definition control_fault :: "pot \<Rightarrow> pot" where
  "control_fault p =
    (let p = p\<lparr> heater_on := False \<rparr>
     in if fault_code p \<noteq> 3 \<and> fault_code p \<noteq> 4 \<and> recover_ticks p \<ge> FAULT_RECOVER_TICKS
        then play_melody TONE_RECOVER (p\<lparr> pot_state := ST_OFF, fault_code := 0, sensor_muted := False, recover_ticks := 0 \<rparr>)
        else p)"

definition control_state :: "pot \<Rightarrow> pot" where
  "control_state p =
    (if pot_state p = ST_OFF then control_off p
     else if pot_state p = ST_HEAT then control_heat p
     else if pot_state p = ST_WARM then control_warm p
     else if pot_state p = ST_FAULT then control_fault p
     else p\<lparr> pot_state := ST_OFF, heater_on := False \<rparr>)"

definition control_overtemp :: "pot \<Rightarrow> pot" where
  "control_overtemp p =
    (if (pot_state p = ST_HEAT \<or> pot_state p = ST_WARM) \<and> adc_code p \<le> OVERTEMP_RAW then p\<lparr> heater_on := False \<rparr> else p)"

definition control_report :: "pot \<Rightarrow> pot" where
  "control_report p = put_xbyte TLM_FAULT (fault_code p) (put_xbyte TLM_HEATER (flag (heater_on p))
     (put_xbyte TLM_STATE (pot_state p) p))"

definition control_task :: "pot_input \<Rightarrow> pot \<Rightarrow> pot" where
  "control_task inp p =
    control_report (control_overtemp (control_state (control_streak (control_probe (control_sample inp p)))))"

section \<open>The second, the tick and the loop\<close>

definition count_relay :: "pot \<Rightarrow> pot" where
  "count_relay p = (if heater_on p then p\<lparr> relay_off_sec := 0 \<rparr>
     else if relay_off_sec p < 255 then p\<lparr> relay_off_sec := relay_off_sec p + 1 \<rparr> else p)"

definition count_cooldown :: "pot \<Rightarrow> pot" where
  "count_cooldown p = (if cooldown_seconds p > 0 then p\<lparr> cooldown_seconds := cooldown_seconds p - 1 \<rparr> else p)"

definition watch_overtemp :: "pot \<Rightarrow> pot" where
  "watch_overtemp p =
    (if (pot_state p = ST_HEAT \<or> pot_state p = ST_WARM) \<and> adc_code p > NTC_SHORT_RAW \<and> adc_code p \<le> OVERTEMP_RAW
     then let p = p\<lparr> overtemp_seconds := overtemp_seconds p + 1 \<rparr>
          in if overtemp_seconds p \<ge> OVERTEMP_SECONDS then enter_fault 4 p else p
     else p\<lparr> overtemp_seconds := 0 \<rparr>)"

definition count_beep :: "pot \<Rightarrow> pot" where
  "count_beep p = (if pot_state p = ST_FAULT \<and> fault_beep_seconds (ui p) < FAULT_BEEP_TIMEOUT
     then upd_ui (\<lambda>u. u\<lparr> fault_beep_seconds := fault_beep_seconds u + 1 \<rparr>) p else p)"

definition one_second_task :: "pot \<Rightarrow> pot" where
  "one_second_task p =
    telemetry_emit (heat_slope_task_1s (count_beep (watch_overtemp (count_cooldown (count_relay p)))))"

definition Timer0_ISR :: "pot \<Rightarrow> pot" where
  "Timer0_ISR p =
    (let i = scan_idx (ui p);
         p3 = port_p3 (out p) AND 0xF0 OR 0x0F;
         p = upd_out (\<lambda>w. w\<lparr> port_p1 := disp_digits (ui p) ! unat i,
               port_p3 := p3 AND 0xF0 OR (NOT (push_bit (unat i) 1) AND 0x0F) \<rparr>) p
     in upd_ui (\<lambda>u. u\<lparr> scan_idx := (i + 1) AND 3 \<rparr>) (p\<lparr> tick_flag := True \<rparr>))"

definition step_warble :: "pot \<Rightarrow> pot" where
  "step_warble = upd_ui (\<lambda>u. u\<lparr> warble_phase := if warble_phase u < 99 then warble_phase u + 1 else 0 \<rparr>)"

definition run_100ms :: "pot_input \<Rightarrow> pot \<Rightarrow> pot" where
  "run_100ms inp p =
    (let p = p\<lparr> div_100ms := div_100ms p + 1 \<rparr>
     in if div_100ms p \<ge> 10 then control_task inp (p\<lparr> div_100ms := 0 \<rparr>) else p)"

definition run_500ms :: "pot \<Rightarrow> pot" where
  "run_500ms p =
    (let p = p\<lparr> div_500ms := div_500ms p + 1 \<rparr>
     in if div_500ms p \<ge> 50 then upd_ui (\<lambda>u. u\<lparr> blink_toggle := \<not> blink_toggle u \<rparr>) (p\<lparr> div_500ms := 0 \<rparr>) else p)"

definition run_1000ms :: "pot \<Rightarrow> pot" where
  "run_1000ms p =
    (let p = p\<lparr> div_1000ms := div_1000ms p + 1 \<rparr>
     in if div_1000ms p \<ge> 100 then one_second_task (p\<lparr> div_1000ms := 0 \<rparr>) else p)"

text \<open>A low pin lights a LED.\<close>

definition drive_outputs :: "pot \<Rightarrow> pot" where
  "drive_outputs p = upd_out (\<lambda>w. w\<lparr>
     pin_heater := if cooldown_seconds p > 0 then False else heater_on p,
     pin_led_heat := pot_state p \<noteq> ST_HEAT, pin_led_warm := pot_state p \<noteq> ST_WARM,
     pin_led_err := if pot_state p = ST_FAULT then \<not> blink_toggle (ui p) else True \<rparr>) p"

definition main_pass :: "pot_input \<Rightarrow> pot \<Rightarrow> pot" where
  "main_pass inp p =
    (if \<not> tick_flag p then p
     else let p = buzzer_task (handle_buttons (button_scan_10ms inp (p\<lparr> tick_flag := False \<rparr>)))
          in display_update (drive_outputs (run_1000ms (run_500ms (run_100ms inp (step_warble p))))))"

text \<open>Everything before the loop; the static variables start as zero.\<close>

definition pot_zero :: pot where
  "pot_zero = \<lparr> pot_state = 0, temp_c = 0, adc_code = 0, fault_code = 0, warm_set = 0, heat_mode = 0, heater_on = False,
     relay_off_sec = 0, cooldown_seconds = 0, heat_seconds = 0, boil_hold = 0, boil_confirm = False, overtemp_seconds = 0,
     recover_ticks = 0, sensor_muted = False, div_100ms = 0, div_500ms = 0, div_1000ms = 0, tick_flag = False,
     keys = \<lparr> onoff_held = False, func_held = False, db_onoff_press = 0, db_onoff_release = 0, db_func_press = 0,
       db_func_release = 0, evt_onoff = False, evt_func = False \<rparr>,
     slope = \<lparr> adc_hist_16s = replicate 16 0, adc_hist_idx = 0, adc_prev_1s = 0, glitch_cnt = 0, slope_valid_sec = 0 \<rparr>,
     ui = \<lparr> disp_digits = replicate 4 0, scan_idx = 0, cur_melody = None, melody_idx = 0, melody_ticks = 0, warble_phase = 0,
       blink_toggle = False, fault_beep_seconds = 0 \<rparr>,
     out = \<lparr> pin_heater = False, pin_led_heat = True, pin_led_warm = True, pin_led_err = True, port_p1 = 0, port_p3 = 0xFF,
       reg_buzdiv = 0, buzzer_on = False, xbyte = (\<lambda>_. 0), uart_sent = [] \<rparr> \<rparr>"

definition boot_probe :: "pot_input \<Rightarrow> pot \<Rightarrow> pot" where
  "boot_probe inp p =
    (let raw = adc_read_filtered (in_adc inp);
         p = p\<lparr> cooldown_seconds := 0, adc_code := raw, temp_c := ntc_code_to_temp raw \<rparr>
     in if temp_c p \<ge> DRYFIRE_TEMP_C then p\<lparr> cooldown_seconds := COOLDOWN_SECONDS \<rparr> else p)"

definition boot_state :: "pot \<Rightarrow> pot" where
  "boot_state p = upd_keys (\<lambda>k. k\<lparr> evt_onoff := False, evt_func := False \<rparr>)
    (upd_ui (\<lambda>u. u\<lparr> fault_beep_seconds := 0, blink_toggle := False, warble_phase := 0, scan_idx := 0 \<rparr>)
      (p\<lparr> pot_state := ST_OFF, fault_code := 0, warm_set := WARM_DEFAULT_C, heat_mode := MODE_BOIL_100, heater_on := False,
          relay_off_sec := 255, heat_seconds := 0, boil_hold := 0, boil_confirm := False, overtemp_seconds := 0,
          recover_ticks := 0, sensor_muted := False, div_100ms := 0, div_500ms := 0, div_1000ms := 0 \<rparr>))"

definition pot_boot :: "pot_input \<Rightarrow> pot \<Rightarrow> pot" where
  "pot_boot inp p =
    (let p = BUZ_DisableBuzzer (upd_out (\<lambda>w. w\<lparr> port_p3 := port_p3 w AND 0xF0 OR 0x0F, port_p1 := 0, pin_led_heat := True,
           pin_led_warm := True, pin_led_err := True, pin_heater := False \<rparr>) p);
         p = boot_state (boot_probe inp p);
         p = heat_slope_reset (clear_glitches (button_init_post inp p))
     in display_update (upd_ui (\<lambda>u. u\<lparr> cur_melody := None, melody_idx := 0, melody_ticks := 0 \<rparr>) p))"

text \<open>A run: a boot from any contents of the memory, then the tick interrupt and the passes of the loop in any order.\<close>

inductive pot_reachable :: "pot \<Rightarrow> bool" where
  boot: "pot_reachable (pot_boot inp p0)"
| isr: "pot_reachable p \<Longrightarrow> pot_reachable (Timer0_ISR p)"
| pass: "pot_reachable p \<Longrightarrow> pot_reachable (main_pass inp p)"

text \<open>One tick of 10 ms: the interrupt, then a pass.\<close>

definition pot_tick :: "pot_input \<Rightarrow> pot \<Rightarrow> pot" where "pot_tick inp p = main_pass inp (Timer0_ISR p)"

definition pot_run :: "pot_input list \<Rightarrow> pot \<Rightarrow> pot" where "pot_run = fold pot_tick"

end
