(* ===== verification/Health_Pot_Probe.thy ===== *)
theory Health_Pot_Probe
  imports Health_Pot
begin

text \<open>
  The table of the probe: a higher code is never a higher temperature, the table is met exactly and
  no arithmetic of the interpolation overflows; and the frame of the telemetry can be read back.
\<close>

section \<open>Interpolation\<close>

fun table_ok :: "(u16 \<times> u8) list \<Rightarrow> bool" where
  "table_ok ((r0, t0) # (r1, t1) # rest) \<longleftrightarrow> r1 < r0 \<and> t0 \<le> t1 \<and> t1 \<le> 105
     \<and> (unat t1 - unat t0) * (unat r0 - unat r1) < 65536 \<and> table_ok ((r1, t1) # rest)"
| "table_ok [(r0, t0)] \<longleftrightarrow> t0 \<le> 105"
| "table_ok [] \<longleftrightarrow> False"

text \<open>A segment in natural numbers.\<close>

lemma segment_nat:
  fixes r0 r1 v :: u16 and t0 t1 :: u8
  assumes "r1 < r0" "t0 \<le> t1" "(unat t1 - unat t0) * (unat r0 - unat r1) < 65536" "r1 \<le> v" "v \<le> r0"
  shows "unat (t0 + ucast ((ucast (t1 - t0) * (r0 - v)) div (r0 - r1)))
      = unat t0 + (unat t1 - unat t0) * (unat r0 - unat v) div (unat r0 - unat r1)"
    "(unat t1 - unat t0) * (unat r0 - unat v) div (unat r0 - unat r1) \<le> unat t1 - unat t0"
proof -
  let ?d = "unat t1 - unat t0" and ?w = "unat r0 - unat r1" and ?x = "unat r0 - unat v"
  have ord: "unat r1 < unat r0" "unat t0 \<le> unat t1" "unat r1 \<le> unat v" "unat v \<le> unat r0"
    using assms by (simp_all add: word_less_nat_alt word_le_nat_alt)
  have le: "?d * ?x \<le> ?d * ?w" using ord by (intro mult_le_mono2) simp
  show part: "?d * ?x div ?w \<le> ?d"
  proof -
    have "?d * ?x div ?w \<le> ?d * ?w div ?w" using le by (rule div_le_mono)
    then show ?thesis using ord by simp
  qed
  have t: "unat t1 < 256" using unsigned_less [of t1] by simp
  have small: "?d * ?x div ?w < 256" using part t by (meson diff_le_self le_less_trans)
  have dt: "unat (t1 - t0) = ?d" using assms(2) by (simp add: unat_sub)
  have dr: "unat (r0 - v) = ?x" "unat (r0 - r1) = ?w" using assms(1,5) by (simp_all add: unat_sub)
  have "unat (ucast (t1 - t0) :: u16) = ?d" using t by (simp add: unsigned_ucast_eq take_bit_eq_mod dt)
  then have "unat ((ucast (t1 - t0) :: u16) * (r0 - v)) = ?d * ?x"
    using le_less_trans [OF le assms(3)] by (simp add: unat_word_ariths dr)
  then have q: "unat ((ucast (t1 - t0) * (r0 - v)) div (r0 - r1)) = ?d * ?x div ?w" by (simp add: unat_div dr)
  then have "unat (ucast ((ucast (t1 - t0) * (r0 - v)) div (r0 - r1)) :: u8) = ?d * ?x div ?w"
    using small by (simp add: unsigned_ucast_eq take_bit_eq_mod q)
  moreover have room: "unat t0 + ?d * ?x div ?w < 256"
    using add_left_mono [OF part, of "unat t0"] ord(2) t by (metis le_add_diff_inverse le_less_trans)
  ultimately show "unat (t0 + ucast ((ucast (t1 - t0) * (r0 - v)) div (r0 - r1))) = unat t0 + ?d * ?x div ?w"
    using room by (simp add: unat_word_ariths)
qed

lemma scan_range:
  assumes "table_ok ((r0, t0) # tab)" "v \<le> r0"
  shows "t0 \<le> ntc_scan v ((r0, t0) # tab) \<and> ntc_scan v ((r0, t0) # tab) \<le> 105"
  using assms
proof (induction tab arbitrary: r0 t0)
  case (Cons a tab)
  obtain r1 t1 where a: "a = (r1, t1)" by fastforce
  have c: "r1 < r0" "t0 \<le> t1" "t1 \<le> 105" "(unat t1 - unat t0) * (unat r0 - unat r1) < 65536" "table_ok ((r1, t1) # tab)"
    using Cons.prems(1) by (simp_all add: a)
  show ?case
  proof (cases "v \<ge> r1")
    case True
    note seg = segment_nat [OF c(1,2,4) True Cons.prems(2)]
    have "unat t0 \<le> unat t1" "unat t1 \<le> 105" using c(2,3) by (simp_all add: word_le_nat_alt)
    with seg True show ?thesis by (simp add: a word_le_nat_alt) linarith
  next
    case False
    then have "v \<le> r1" by simp
    from Cons.IH [OF c(5) this] c(2) False show ?thesis by (auto simp: a)
  qed
qed simp

lemma scan_antitone:
  assumes "table_ok ((r0, t0) # tab)" "v \<le> w" "w \<le> r0"
  shows "ntc_scan w ((r0, t0) # tab) \<le> ntc_scan v ((r0, t0) # tab)"
  using assms
proof (induction tab arbitrary: r0 t0)
  case (Cons a tab)
  obtain r1 t1 where a: "a = (r1, t1)" by fastforce
  have c: "r1 < r0" "t0 \<le> t1" "t1 \<le> 105" "(unat t1 - unat t0) * (unat r0 - unat r1) < 65536" "table_ok ((r1, t1) # tab)"
    using Cons.prems(1) by (simp_all add: a)
  have le: "unat t0 \<le> unat t1" "unat v \<le> unat w" using c(2) Cons.prems(2) by (simp_all add: word_le_nat_alt)
  consider (both) "v \<ge> r1" "w \<ge> r1" | (split) "v < r1" "w \<ge> r1" | (none) "v < r1" "w < r1"
    using Cons.prems(2) by fastforce
  then show ?case
  proof cases
    case both
    have "v \<le> r0" using Cons.prems(2,3) by (rule order_trans)
    note seg = segment_nat(1) [OF c(1,2,4) both(1) this] segment_nat(1) [OF c(1,2,4) both(2) Cons.prems(3)]
    have "(unat t1 - unat t0) * (unat r0 - unat w) div (unat r0 - unat r1)
        \<le> (unat t1 - unat t0) * (unat r0 - unat v) div (unat r0 - unat r1)"
      using le by (intro div_le_mono mult_le_mono2) simp
    then show ?thesis using both seg by (simp add: a word_le_nat_alt)
  next
    case split
    note seg = segment_nat [OF c(1,2,4) split(2) Cons.prems(3)]
    have "ntc_scan w ((r0, t0) # a # tab) \<le> t1"
      using seg split le by (simp add: a word_le_nat_alt) linarith
    also have "t1 \<le> ntc_scan v ((r1, t1) # tab)" using scan_range [OF c(5), of v] split(1) by simp
    also have "\<dots> = ntc_scan v ((r0, t0) # a # tab)" using split(1) by (auto simp: a)
    finally show ?thesis .
  next
    case none
    then have "w \<le> r1" by simp
    from Cons.IH [OF c(5) Cons.prems(2) this] none show ?thesis by (auto simp: a)
  qed
qed simp

lemma table_sorted: "table_ok ((r0, t0) # tab) \<Longrightarrow> (r, t) \<in> set tab \<Longrightarrow> r < r0"
proof (induction tab arbitrary: r0 t0)
  case (Cons a tab)
  obtain r1 t1 where a: "a = (r1, t1)" by fastforce
  show ?case using Cons by (auto simp: a intro: less_trans)
qed simp

lemma scan_anchor:
  assumes "table_ok ((r0, t0) # tab)" "(r, t) \<in> set tab"
  shows "ntc_scan r ((r0, t0) # tab) = t"
  using assms
proof (induction tab arbitrary: r0 t0)
  case (Cons a tab)
  obtain r1 t1 where a: "a = (r1, t1)" by fastforce
  have c: "r1 < r0" "t0 \<le> t1" "(unat t1 - unat t0) * (unat r0 - unat r1) < 65536" "table_ok ((r1, t1) # tab)"
    using Cons.prems(1) by (simp_all add: a)
  show ?case
  proof (cases "(r, t) = (r1, t1)")
    case True
    have "unat r1 < unat r0" "unat t0 \<le> unat t1" using c(1,2) by (simp_all add: word_less_nat_alt word_le_nat_alt)
    then have "unat (t0 + ucast ((ucast (t1 - t0) * (r0 - r1)) div (r0 - r1))) = unat t1"
      using segment_nat(1) [OF c(1,2,3), of r1] c(1) by simp
    then show ?thesis using True by (simp add: a unsigned_word_eqI)
  next
    case False
    then have "(r, t) \<in> set tab" using Cons.prems(2) by (auto simp: a)
    with Cons.IH [OF c(4)] table_sorted [OF c(4), of r t] show ?thesis by (auto simp: a)
  qed
qed simp

lemma ntc_table: "table_ok (zip ntc_lut_raw ntc_lut_temp)"
  by (simp add: ntc_lut_raw_def ntc_lut_temp_def)

text \<open>C27: the temperature never rises with the code of the probe, stays within 5 and 105 degrees and is exact at
  every entry of the table; the products of the interpolation do not overflow.\<close>
theorem ntc_antitone:
  assumes "v \<le> w"
  shows "ntc_code_to_temp w \<le> ntc_code_to_temp v \<and> 5 \<le> ntc_code_to_temp v \<and> ntc_code_to_temp v \<le> 105
    \<and> (\<forall>i < 48. ntc_code_to_temp (ntc_lut_raw ! i) = ntc_lut_temp ! i)"
proof -
  define tab where "tab = zip (tl ntc_lut_raw) (tl ntc_lut_temp)"
  have zip: "zip ntc_lut_raw ntc_lut_temp = (571, 5) # tab" by (simp add: tab_def ntc_lut_raw_def ntc_lut_temp_def)
  then have ok: "table_ok ((571, 5) # tab)" "zip ntc_lut_raw ntc_lut_temp = (571, 5) # tab" using ntc_table by simp_all
  have code: "ntc_code_to_temp u = (if u \<ge> 571 then 5 else ntc_scan u ((571, 5) # tab))" for u
    by (simp add: ntc_code_to_temp_def ok(2)) (simp add: ntc_lut_raw_def ntc_lut_temp_def)
  have range: "5 \<le> ntc_code_to_temp u \<and> ntc_code_to_temp u \<le> 105" for u
    using scan_range [OF ok(1), of u] by (simp add: code)
  moreover have "ntc_code_to_temp w \<le> ntc_code_to_temp v"
  proof (cases "w \<ge> 571")
    case True
    then show ?thesis using range [of v] by (simp add: code)
  next
    case False
    then have "w \<le> 571" "v < 571" using assms by auto
    then have "ntc_code_to_temp w = ntc_scan w ((571, 5) # tab)" "ntc_code_to_temp v = ntc_scan v ((571, 5) # tab)"
      using False \<open>v < 571\<close> by (auto simp: code)
    with scan_antitone [OF ok(1) assms \<open>w \<le> 571\<close>] show ?thesis by simp
  qed
  moreover have "ntc_code_to_temp (ntc_lut_raw ! i) = ntc_lut_temp ! i" if "i < 48" for i
  proof (cases i)
    case 0
    then show ?thesis by (simp add: ntc_code_to_temp_def)
  next
    case (Suc j)
    have len: "length ntc_lut_raw = 48" "length ntc_lut_temp = 48" by (simp_all add: ntc_lut_raw_def ntc_lut_temp_def)
    then have "tab ! j = (ntc_lut_raw ! i, ntc_lut_temp ! i)" "j < length tab" using Suc that by (simp_all add: tab_def nth_tl)
    then have "(ntc_lut_raw ! i, ntc_lut_temp ! i) \<in> set tab" by (metis nth_mem)
    with scan_anchor [OF ok(1) this] table_sorted [OF ok(1) this] show ?thesis by (auto simp: code)
  qed
  ultimately show ?thesis by blast
qed

lemma ntc_antitone_witness: "ntc_code_to_temp 300 \<le> ntc_code_to_temp (200 :: u16) \<and> (200 :: u16) \<le> 300"
  using ntc_antitone [of 200 300] by simp

end
