(* ===== verification/Health_Pot_Safety.thy ===== *)
theory Health_Pot_Safety
  imports Health_Pot
begin

text \<open>
  What keeps the kettle safe: when the contact of the heater may be closed, how long the thermal lock
  holds, how long a dry pot can heat, and where the firmware falls short of its own comments.
\<close>

section \<open>What the helpers leave alone\<close>

lemma upd_select [simp]:
  "pot_state (upd_keys a p) = pot_state p" "pot_state (upd_slope b p) = pot_state p" "pot_state (upd_ui c p) = pot_state p"
  "pot_state (upd_out d p) = pot_state p"
  "temp_c (upd_keys a p) = temp_c p" "temp_c (upd_slope b p) = temp_c p" "temp_c (upd_ui c p) = temp_c p"
  "temp_c (upd_out d p) = temp_c p"
  "adc_code (upd_keys a p) = adc_code p" "adc_code (upd_slope b p) = adc_code p" "adc_code (upd_ui c p) = adc_code p"
  "adc_code (upd_out d p) = adc_code p"
  "fault_code (upd_keys a p) = fault_code p" "fault_code (upd_slope b p) = fault_code p" "fault_code (upd_ui c p) = fault_code p"
  "fault_code (upd_out d p) = fault_code p"
  "warm_set (upd_keys a p) = warm_set p" "warm_set (upd_slope b p) = warm_set p" "warm_set (upd_ui c p) = warm_set p"
  "warm_set (upd_out d p) = warm_set p"
  "heat_mode (upd_keys a p) = heat_mode p" "heat_mode (upd_slope b p) = heat_mode p" "heat_mode (upd_ui c p) = heat_mode p"
  "heat_mode (upd_out d p) = heat_mode p"
  "heater_on (upd_keys a p) = heater_on p" "heater_on (upd_slope b p) = heater_on p" "heater_on (upd_ui c p) = heater_on p"
  "heater_on (upd_out d p) = heater_on p"
  by (simp_all add: upd_keys_def upd_slope_def upd_ui_def upd_out_def)

lemma upd_select_counters [simp]:
  "relay_off_sec (upd_keys a p) = relay_off_sec p" "relay_off_sec (upd_slope b p) = relay_off_sec p"
  "relay_off_sec (upd_ui c p) = relay_off_sec p" "relay_off_sec (upd_out d p) = relay_off_sec p"
  "cooldown_seconds (upd_keys a p) = cooldown_seconds p" "cooldown_seconds (upd_slope b p) = cooldown_seconds p"
  "cooldown_seconds (upd_ui c p) = cooldown_seconds p" "cooldown_seconds (upd_out d p) = cooldown_seconds p"
  "heat_seconds (upd_keys a p) = heat_seconds p" "heat_seconds (upd_slope b p) = heat_seconds p"
  "heat_seconds (upd_ui c p) = heat_seconds p" "heat_seconds (upd_out d p) = heat_seconds p"
  "boil_confirm (upd_keys a p) = boil_confirm p" "boil_confirm (upd_slope b p) = boil_confirm p"
  "boil_confirm (upd_ui c p) = boil_confirm p" "boil_confirm (upd_out d p) = boil_confirm p"
  "boil_hold (upd_keys a p) = boil_hold p" "boil_hold (upd_slope b p) = boil_hold p"
  "boil_hold (upd_ui c p) = boil_hold p" "boil_hold (upd_out d p) = boil_hold p"
  "recover_ticks (upd_keys a p) = recover_ticks p" "recover_ticks (upd_slope b p) = recover_ticks p"
  "recover_ticks (upd_ui c p) = recover_ticks p" "recover_ticks (upd_out d p) = recover_ticks p"
  "sensor_muted (upd_keys a p) = sensor_muted p" "sensor_muted (upd_slope b p) = sensor_muted p"
  "sensor_muted (upd_ui c p) = sensor_muted p" "sensor_muted (upd_out d p) = sensor_muted p"
  "overtemp_seconds (upd_keys a p) = overtemp_seconds p" "overtemp_seconds (upd_slope b p) = overtemp_seconds p"
  "overtemp_seconds (upd_ui c p) = overtemp_seconds p" "overtemp_seconds (upd_out d p) = overtemp_seconds p"
  by (simp_all add: upd_keys_def upd_slope_def upd_ui_def upd_out_def)

lemma upd_select_groups [simp]:
  "div_100ms (upd_keys a p) = div_100ms p" "div_100ms (upd_slope b p) = div_100ms p"
  "div_100ms (upd_ui c p) = div_100ms p" "div_100ms (upd_out d p) = div_100ms p"
  "div_500ms (upd_keys a p) = div_500ms p" "div_500ms (upd_slope b p) = div_500ms p"
  "div_500ms (upd_ui c p) = div_500ms p" "div_500ms (upd_out d p) = div_500ms p"
  "div_1000ms (upd_keys a p) = div_1000ms p" "div_1000ms (upd_slope b p) = div_1000ms p"
  "div_1000ms (upd_ui c p) = div_1000ms p" "div_1000ms (upd_out d p) = div_1000ms p"
  "tick_flag (upd_keys a p) = tick_flag p" "tick_flag (upd_slope b p) = tick_flag p"
  "tick_flag (upd_ui c p) = tick_flag p" "tick_flag (upd_out d p) = tick_flag p"
  "keys (upd_keys a p) = a (keys p)" "keys (upd_slope b p) = keys p" "keys (upd_ui c p) = keys p" "keys (upd_out d p) = keys p"
  "slope (upd_keys a p) = slope p" "slope (upd_slope b p) = b (slope p)" "slope (upd_ui c p) = slope p" "slope (upd_out d p) = slope p"
  "ui (upd_keys a p) = ui p" "ui (upd_slope b p) = ui p" "ui (upd_ui c p) = c (ui p)" "ui (upd_out d p) = ui p"
  "out (upd_keys a p) = out p" "out (upd_slope b p) = out p" "out (upd_ui c p) = out p" "out (upd_out d p) = d (out p)"
  by (simp_all add: upd_keys_def upd_slope_def upd_ui_def upd_out_def)

text \<open>The operations that only show something, and the fields no key or fault changes.\<close>

lemmas pot_show = play_melody_def display_update_def BUZ_DisableBuzzer_def buzz_def put_xbyte_def uart_send_def

lemma uart_send_str_frame [simp]: "uart_send_str s p = upd_out (\<lambda>w. w\<lparr> uart_sent := uart_sent w @ s \<rparr>) p"
proof (induction s arbitrary: p)
  case (Cons c s)
  then show ?case by (simp add: uart_send_str_def uart_send_def upd_out_def)
qed (simp add: uart_send_str_def upd_out_def)

text \<open>The line of the telemetry.\<close>

definition telemetry_line :: "pot \<Rightarrow> u8 list" where
  "telemetry_line p = [0x54, 0x3D, digit (temp_c p div 100), digit (temp_c p div 10 mod 10), digit (temp_c p mod 10),
     0x43, 0x2C, 0x53, 0x3D, digit (pot_state p), 0x2C, 0x48, 0x3D, digit (flag (heater_on p)), 0x2C, 0x46, 0x3D,
     digit (fault_code p), 0x0A]"

lemma telemetry_emit_eq: "telemetry_emit p = upd_out (\<lambda>w. w\<lparr> uart_sent := uart_sent w @ telemetry_line p \<rparr>) p"
proof -
  have join: "upd_out (\<lambda>w. w\<lparr> uart_sent := uart_sent w @ s \<rparr>) (upd_out (\<lambda>w. w\<lparr> uart_sent := uart_sent w @ r \<rparr>) q)
      = upd_out (\<lambda>w. w\<lparr> uart_sent := uart_sent w @ r @ s \<rparr>) q" for r s q
    by (simp add: upd_out_def)
  show ?thesis
    by (simp add: telemetry_emit_def telemetry_line_def uart_send_dec_def uart_send_def join)
qed

lemma buzzer_select [simp]:
  "pot_state (buzzer_task p) = pot_state p" "temp_c (buzzer_task p) = temp_c p" "adc_code (buzzer_task p) = adc_code p"
  "fault_code (buzzer_task p) = fault_code p" "warm_set (buzzer_task p) = warm_set p" "heat_mode (buzzer_task p) = heat_mode p"
  "heater_on (buzzer_task p) = heater_on p" "relay_off_sec (buzzer_task p) = relay_off_sec p"
  "cooldown_seconds (buzzer_task p) = cooldown_seconds p" "heat_seconds (buzzer_task p) = heat_seconds p"
  "div_100ms (buzzer_task p) = div_100ms p" "div_1000ms (buzzer_task p) = div_1000ms p"
  "slope (buzzer_task p) = slope p" "keys (buzzer_task p) = keys p"
  by (simp_all add: buzzer_task_def Let_def pot_show split: option.split)

section \<open>When the contact is closed\<close>

definition pot_sound :: "pot \<Rightarrow> bool" where
  "pot_sound p \<longleftrightarrow> pot_state p \<le> ST_FAULT \<and> heat_mode p \<le> MODE_DIRECT_80
     \<and> (warm_set p = 55 \<or> warm_set p = 60 \<or> warm_set p = 80 \<or> warm_set p = 90)
     \<and> temp_c p = ntc_code_to_temp (adc_code p) \<and> cooldown_seconds p \<le> COOLDOWN_SECONDS
     \<and> (cooldown_seconds p > 0 \<longrightarrow> pot_state p = ST_OFF \<or> pot_state p = ST_FAULT)
     \<and> (pot_state p = ST_FAULT \<longrightarrow> fault_code p \<in> {1, 2, 3, 4})"

definition heater_safe :: "pot \<Rightarrow> bool" where
  "heater_safe p \<longleftrightarrow> (heater_on p \<longrightarrow> (pot_state p = ST_HEAT \<or> pot_state p = ST_WARM)
     \<and> OVERTEMP_RAW < adc_code p \<and> adc_code p < NTC_OPEN_RAW \<and> temp_c p < BOIL_TEMP_C
     \<and> (pot_state p = ST_WARM \<longrightarrow> temp_c p \<le> warm_set p + WARM_HYST_C))"

definition pot_ok :: "pot \<Rightarrow> bool" where "pot_ok p \<longleftrightarrow> pot_sound p \<and> heater_safe p"

lemma below_boiling:
  "t < 55 \<Longrightarrow> t < (98 :: u8)" "t < 80 \<Longrightarrow> t < (98 :: u8)" "t \<le> 57 \<Longrightarrow> t < (98 :: u8)" "t \<le> 62 \<Longrightarrow> t < (98 :: u8)"
  "t \<le> 82 \<Longrightarrow> t < (98 :: u8)" "t \<le> 92 \<Longrightarrow> t < (98 :: u8)"
  by (auto intro: less_trans le_less_trans)

lemmas pot_ok_simps = pot_ok_def pot_sound_def heater_safe_def pot_constants word_gt_0

lemma pot_ok_upd [simp]:
  "pot_ok (upd_keys a p) = pot_ok p" "pot_ok (upd_slope b p) = pot_ok p" "pot_ok (upd_ui c p) = pot_ok p" "pot_ok (upd_out d p) = pot_ok p"
  "pot_sound (upd_keys a p) = pot_sound p" "pot_sound (upd_slope b p) = pot_sound p" "pot_sound (upd_ui c p) = pot_sound p"
  "pot_sound (upd_out d p) = pot_sound p"
  by (simp_all add: pot_ok_def pot_sound_def heater_safe_def)

lemma pot_ok_show [simp]:
  "pot_ok (play_melody m p) = pot_ok p" "pot_ok (display_update p) = pot_ok p" "pot_ok (heat_slope_reset p) = pot_ok p"
  "pot_ok (clear_glitches p) = pot_ok p" "pot_ok (buzzer_task p) = pot_ok p"
  "pot_sound (play_melody m p) = pot_sound p" "pot_sound (put_xbyte x v p) = pot_sound p"
  by (simp_all add: pot_show heat_slope_reset_def clear_glitches_def) (simp add: pot_ok_def pot_sound_def heater_safe_def)

lemma enter_fault_ok:
  assumes "pot_sound p" "n \<in> {1, 2, 3, 4}"
  shows "pot_ok (enter_fault n p)"
  using assms by (cases "pot_state p = ST_FAULT") (simp_all add: enter_fault_def Let_def, auto simp: pot_ok_simps)

lemma pot_okD:
  assumes "pot_ok p"
  shows "pot_sound p" "heater_safe p"
  using assms by (simp_all add: pot_ok_def)

lemma target_reached_ok: "pot_sound p \<Longrightarrow> pot_state p = ST_HEAT \<Longrightarrow> pot_ok (target_reached p)"
  by (simp add: target_reached_def) (auto simp: pot_ok_simps)

lemma func_off_ok: "pot_ok p \<Longrightarrow> pot_ok (func_off p)"
  by (simp add: func_off_def Let_def) (auto simp: pot_ok_simps)

lemma func_heat_ok:
  assumes "pot_ok p" "pot_state p = ST_HEAT"
  shows "pot_ok (func_heat p)"
proof -
  have sound: "pot_sound (p\<lparr> heat_mode := m, warm_set := w \<rparr>)" if "(m, w) \<in> {(MODE_DIRECT_55, 55), (MODE_DIRECT_80, 80)}" for m w
    using assms that by (auto simp: pot_ok_simps)
  have ok: "pot_ok (p\<lparr> heat_mode := m, warm_set := w \<rparr>)" if "(m, w) \<in> {(MODE_DIRECT_55, 55), (MODE_DIRECT_80, 80)}" for m w
    using assms that by (auto simp: pot_ok_simps)
  have boil: "pot_ok (p\<lparr> heat_mode := MODE_BOIL_100 \<rparr>)" using assms by (auto simp: pot_ok_simps)
  have seconds: "pot_ok (q\<lparr> heat_seconds := 0 \<rparr>) = pot_ok q" for q by (simp add: pot_ok_def pot_sound_def heater_safe_def)
  have st: "pot_state (play_melody t (p\<lparr> heat_mode := m, warm_set := w \<rparr>)) = ST_HEAT" for t m w
    using assms by (simp add: play_melody_def)
  show ?thesis
    by (simp add: func_heat_def Let_def seconds boil ok sound st target_reached_ok)
qed

lemma reboil_ok:
  assumes "pot_ok p" "pot_state p = ST_WARM" "cooldown_seconds p = 0"
  shows "pot_ok (reboil p)"
  using assms by (simp add: reboil_def) (auto simp: pot_ok_simps)

lemma func_warm_ok:
  assumes "pot_ok p" "pot_state p = ST_WARM"
  shows "pot_ok (func_warm p)"
proof -
  have up: "pot_ok (p\<lparr> warm_set := w' \<rparr>)" if "warm_set p = w" "(w, w') \<in> {(55, 60), (60, 80), (80, 90)}" for w w'
  proof -
    have "temp_c p \<le> w + 2 \<Longrightarrow> temp_c p \<le> w' + 2" using that(2) by (auto intro: order_trans)
    with assms that show ?thesis by (auto simp: pot_ok_simps)
  qed
  have "cooldown_seconds p = 0" using assms by (auto simp: pot_ok_simps)
  with assms show ?thesis by (simp add: func_warm_def up reboil_ok)
qed

lemma handle_func_ok: "pot_ok p \<Longrightarrow> pot_ok (handle_func p)"
  by (simp add: handle_func_def Let_def func_off_ok func_heat_ok func_warm_ok)

lemma onoff_off_ok:
  assumes "pot_ok p" "pot_state p = ST_OFF"
  shows "pot_ok (onoff_off p)"
proof -
  have "pot_sound (p\<lparr> sensor_muted := False \<rparr>)" using assms by (simp add: pot_ok_def pot_sound_def)
  then have "pot_ok (enter_fault n (p\<lparr> sensor_muted := False \<rparr>))" if "n \<in> {1, 2}" for n
    using that by (auto intro: enter_fault_ok)
  moreover have "pot_ok (start_heating p)" if "cooldown_seconds p = 0"
    using assms that by (simp add: start_heating_def) (auto simp: pot_ok_simps)
  ultimately show ?thesis using assms(1) by (simp add: onoff_off_def word_gt_0)
qed

lemma onoff_stop_ok: "pot_ok p \<Longrightarrow> pot_ok (onoff_stop p)"
  by (simp add: onoff_stop_def) (auto simp: pot_ok_simps)

lemma onoff_fault_ok: "pot_ok p \<Longrightarrow> pot_state p = ST_FAULT \<Longrightarrow> pot_ok (onoff_fault p)"
  by (simp add: onoff_fault_def) (auto simp: pot_ok_simps)

lemma handle_onoff_ok: "pot_ok p \<Longrightarrow> pot_ok (handle_onoff p)"
  by (simp add: handle_onoff_def Let_def onoff_off_ok onoff_stop_ok onoff_fault_ok)

text \<open>The control task: the sample breaks the invariant of the contact, the state machine restores it. A probe
  that reads open or short leaves no state in which the contact may stay closed.\<close>

definition probe_read :: "pot \<Rightarrow> bool" where
  "probe_read p \<longleftrightarrow> (pot_state p = ST_HEAT \<or> pot_state p = ST_WARM \<longrightarrow> NTC_SHORT_RAW < adc_code p \<and> adc_code p < NTC_OPEN_RAW)"

lemma control_sample_sound: "pot_sound p \<Longrightarrow> pot_sound (control_sample inp p)"
  by (simp add: control_sample_def Let_def) (simp add: pot_sound_def)

lemma control_probe_sound:
  assumes "pot_sound p"
  shows "pot_sound (control_probe p)" "probe_read (control_probe p)"
proof -
  have fault: "pot_sound (enter_fault n p)" "probe_read (enter_fault n p)" if "n \<in> {1, 2}" for n
  proof -
    have "pot_ok (enter_fault n p)" using assms that by (intro enter_fault_ok) auto
    then show "pot_sound (enter_fault n p)" by (simp add: pot_ok_def)
    show "probe_read (enter_fault n p)" by (simp add: probe_read_def enter_fault_def Let_def pot_constants)
  qed
  have muted: "pot_sound (p\<lparr> fault_code := n \<rparr>)" "probe_read (p\<lparr> fault_code := n \<rparr>)" if "pot_state p = ST_OFF" for n
    using assms that by (simp_all add: pot_sound_def probe_read_def pot_constants)
  show "pot_sound (control_probe p)" "probe_read (control_probe p)"
    using assms by (simp_all add: control_probe_def fault muted not_le) (auto simp: probe_read_def not_le)
qed

lemma control_streak_sound:
  "pot_sound (control_streak p) = pot_sound p" "probe_read (control_streak p) = probe_read p"
  by (simp_all add: control_streak_def pot_sound_def probe_read_def)

text \<open>The contact may close, or stay closed, below the boiling point.\<close>

lemma contact_ok:
  assumes "pot_sound p" "probe_read p" "pot_state p = ST_HEAT \<or> pot_state p = ST_WARM" "temp_c p < BOIL_TEMP_C"
    "pot_state p = ST_WARM \<Longrightarrow> temp_c p \<le> warm_set p + WARM_HYST_C"
  shows "pot_ok (control_overtemp (energise p))" "pot_ok (control_overtemp p)"
proof -
  have "heater_safe (control_overtemp q)" if "q = p\<lparr> heater_on := b \<rparr>" for q b
    using assms that by (auto simp: control_overtemp_def heater_safe_def probe_read_def not_le)
  moreover have "pot_sound (p\<lparr> heater_on := b \<rparr>)" "pot_sound (control_overtemp (p\<lparr> heater_on := b \<rparr>))" for b
    using assms(1) by (simp_all add: control_overtemp_def pot_sound_def)
  ultimately have ok: "pot_ok (control_overtemp (p\<lparr> heater_on := b \<rparr>))" for b by (simp add: pot_ok_def)
  from ok [of True] ok [of "heater_on p"] show "pot_ok (control_overtemp (energise p))" "pot_ok (control_overtemp p)"
    by (simp_all add: energise_def)
qed

lemma contact_open_ok: "pot_sound p \<Longrightarrow> \<not> heater_on p \<Longrightarrow> pot_ok (control_overtemp p)"
  by (simp add: control_overtemp_def pot_ok_def heater_safe_def pot_sound_def)

lemma control_show [simp]: "control_overtemp (play_melody m p) = play_melody m (control_overtemp p)"
  by (simp add: control_overtemp_def play_melody_def upd_ui_def)

lemma control_direct_ok:
  assumes "pot_sound p" "probe_read p" "pot_state p = ST_HEAT" "(target, setpoint) \<in> {(55, 55), (80, 80)}"
  shows "pot_ok (control_overtemp (control_direct target setpoint p))"
proof (cases "temp_c p \<ge> target")
  case True
  have "pot_sound (p\<lparr> heater_on := False, pot_state := ST_WARM, warm_set := setpoint, boil_confirm := False,
      boil_hold := 0, overtemp_seconds := 0 \<rparr>)"
    using assms by (auto simp: pot_ok_simps)
  then show ?thesis using True by (simp add: control_direct_def contact_open_ok)
next
  case False
  then have "temp_c p < 98" using assms(4) by (auto simp: not_le intro: below_boiling)
  with assms have "pot_ok (control_overtemp (energise p))" by (intro contact_ok) (auto simp: pot_constants)
  then show ?thesis using False by (simp add: control_direct_def)
qed

lemma control_boil_ok:
  assumes "pot_sound p" "probe_read p" "pot_state p = ST_HEAT"
  shows "pot_ok (control_overtemp (control_boil p))"
proof (cases "(boil_confirm p \<or> temp_c p \<ge> BOIL_TEMP_C) \<and> adc_code p > OVERTEMP_RAW")
  case True
  let ?q = "p\<lparr> heater_on := False, boil_confirm := True, boil_hold := boil_hold p + 1 \<rparr>"
  have "pot_sound ?q" "pot_sound (?q\<lparr> pot_state := ST_WARM, boil_confirm := False, overtemp_seconds := 0 \<rparr>)"
    using assms by (auto simp: pot_ok_simps)
  then show ?thesis using True by (simp add: control_boil_def Let_def contact_open_ok)
next
  case False
  show ?thesis
  proof (cases "adc_code p > OVERTEMP_RAW")
    case True
    then have "temp_c p < BOIL_TEMP_C" using False by auto
    with assms have "pot_ok (control_overtemp (energise p))" by (intro contact_ok) (auto simp: pot_constants)
    then show ?thesis using False by (auto simp: control_boil_def)
  next
    case short: False
    have "pot_sound (energise p)" "pot_sound ((energise p)\<lparr> heater_on := False \<rparr>)"
      using assms by (simp_all add: energise_def pot_sound_def)
    moreover have "control_overtemp (energise p) = (energise p)\<lparr> heater_on := False \<rparr>"
      using short assms(3) by (simp add: control_overtemp_def energise_def not_less)
    ultimately show ?thesis using False by (auto simp: control_boil_def pot_ok_def heater_safe_def)
  qed
qed

lemma control_warm_ok:
  assumes "pot_sound p" "probe_read p" "pot_state p = ST_WARM"
  shows "pot_ok (control_overtemp (control_warm p))"
proof (cases "temp_c p \<le> warm_set p + WARM_HYST_C")
  case True
  moreover have "temp_c p < BOIL_TEMP_C" using True assms(1) by (auto simp: pot_ok_simps intro: below_boiling)
  ultimately show ?thesis using assms by (simp add: control_warm_def contact_ok not_less)
next
  case False
  have "\<not> (temp_c p < warm_set p - WARM_HYST_C)"
  proof
    assume "temp_c p < warm_set p - WARM_HYST_C"
    moreover have "warm_set p - WARM_HYST_C \<le> warm_set p + WARM_HYST_C" using assms(1) by (auto simp: pot_ok_simps)
    ultimately show False using False by simp
  qed
  moreover have "pot_sound (p\<lparr> heater_on := False \<rparr>)" using assms by (simp add: pot_sound_def)
  ultimately show ?thesis using False by (simp add: control_warm_def contact_open_ok not_le)
qed

lemma control_state_ok:
  assumes "pot_sound p" "probe_read p"
  shows "pot_ok (control_overtemp (control_state p))"
proof -
  note defs = control_overtemp_def control_state_def pot_show
  have "s \<le> 3 \<Longrightarrow> s = 0 \<or> s = 1 \<or> s = 2 \<or> s = (3 :: u8)" for s
    by (simp add: word_le_nat_alt word_unat_eq_iff) linarith
  then consider (off) "pot_state p = ST_OFF" | (heat) "pot_state p = ST_HEAT" | (warm) "pot_state p = ST_WARM"
    | (fault) "pot_state p = ST_FAULT"
    using assms(1) by (auto simp: pot_sound_def pot_constants)
  then show ?thesis
  proof cases
    case off
    then show ?thesis
      using assms by (simp add: defs control_off_def Let_def) (simp add: pot_ok_simps)
  next
    case heat
    then have "control_state p = control_heat p" by (simp add: control_state_def pot_constants)
    then show ?thesis
      using assms heat
      by (simp add: control_heat_def control_direct_ok control_boil_ok DIRECT_55_TEMP_C_def DIRECT_80_TEMP_C_def)
  next
    case warm
    then have "control_state p = control_warm p" by (simp add: control_state_def pot_constants)
    then show ?thesis using assms warm by (simp add: control_warm_ok)
  next
    case fault
    then show ?thesis
      using assms by (simp add: defs control_fault_def Let_def) (auto simp: pot_ok_simps)
  qed
qed

lemma control_task_ok:
  assumes "pot_sound p"
  shows "pot_ok (control_task inp p)"
proof -
  let ?q = "control_streak (control_probe (control_sample inp p))"
  have "pot_sound ?q" "probe_read ?q"
    using assms by (simp_all add: control_streak_sound control_probe_sound control_sample_sound)
  then show ?thesis by (simp add: control_task_def control_report_def pot_show control_state_ok)
qed

text \<open>The second, the pass and every reachable state.\<close>

lemma heat_slope_ok:
  assumes "pot_ok p"
  shows "pot_ok (heat_slope_task_1s p)"
proof -
  have sound: "pot_sound p" using assms by (simp add: pot_ok_def)
  have seconds: "pot_ok (q\<lparr> heat_seconds := n \<rparr>) = pot_ok q" for q n by (simp add: pot_ok_def pot_sound_def heater_safe_def)
  have fault: "pot_ok (enter_fault n q)" if "pot_ok q" "n \<in> {1, 3}" for n q
    using that by (intro enter_fault_ok) (auto simp: pot_ok_def)
  have "pot_ok (heat_timeouts q)" if "pot_ok q" for q
    using that by (simp add: heat_timeouts_def Let_def fault)
  then show ?thesis
    using assms by (simp add: heat_slope_task_1s_def slope_sample_def Let_def seconds fault)
qed

lemma one_second_ok:
  assumes "pot_ok p"
  shows "pot_ok (one_second_task p)"
proof -
  have relay: "pot_ok (count_relay q) = pot_ok q" for q by (simp add: count_relay_def pot_ok_def pot_sound_def heater_safe_def)
  have cool: "pot_ok (count_cooldown q)" if "pot_ok q" for q
  proof -
    have "c > 0 \<Longrightarrow> c \<le> 60 \<Longrightarrow> c - 1 \<le> (60 :: u8)" for c
      by unat_arith
    with that show ?thesis by (auto simp: count_cooldown_def pot_ok_def pot_sound_def heater_safe_def COOLDOWN_SECONDS_def)
  qed
  have over: "pot_ok (watch_overtemp q)" if "pot_ok q" for q
  proof -
    have "pot_ok (q\<lparr> overtemp_seconds := n \<rparr>)" for n using that by (auto simp: pot_ok_def pot_sound_def heater_safe_def)
    moreover from this have "pot_ok (enter_fault 4 (q\<lparr> overtemp_seconds := n \<rparr>))" for n
      by (intro enter_fault_ok) (auto simp: pot_ok_def)
    ultimately show ?thesis by (simp add: watch_overtemp_def Let_def)
  qed
  have "pot_ok (count_beep q) = pot_ok q" for q by (simp add: count_beep_def)
  then show ?thesis by (simp add: one_second_task_def telemetry_emit_eq heat_slope_ok over cool relay assms)
qed

lemma main_pass_ok:
  assumes "pot_ok p"
  shows "pot_ok (main_pass inp p)"
proof -
  have tick: "pot_ok (q\<lparr> tick_flag := b \<rparr>) = pot_ok q" "pot_ok (q\<lparr> div_100ms := d \<rparr>) = pot_ok q"
    "pot_ok (q\<lparr> div_500ms := d \<rparr>) = pot_ok q" "pot_ok (q\<lparr> div_1000ms := d \<rparr>) = pot_ok q" for q b d
    by (simp_all add: pot_ok_def pot_sound_def heater_safe_def)
  have "pot_ok (run_100ms inp q)" if "pot_ok q" for q
  proof -
    have "pot_sound (q\<lparr> div_100ms := d \<rparr>)" for d using that by (simp add: pot_ok_def pot_sound_def)
    then show ?thesis using that by (simp add: run_100ms_def Let_def tick control_task_ok)
  qed
  moreover have "pot_ok (run_500ms q)" if "pot_ok q" for q using that by (simp add: run_500ms_def Let_def tick)
  moreover have "pot_ok (run_1000ms q)" if "pot_ok q" for q using that by (simp add: run_1000ms_def Let_def tick one_second_ok)
  ultimately show ?thesis
    using assms
    by (simp add: main_pass_def Let_def drive_outputs_def step_warble_def button_scan_10ms_def handle_buttons_def
        handle_onoff_ok handle_func_ok tick)
qed

lemma boot_ok: "pot_ok (pot_boot inp p)"
proof -
  have "pot_ok (boot_state (boot_probe inp q))" for q
    by (simp add: boot_state_def boot_probe_def Let_def) (auto simp: pot_ok_simps)
  then show ?thesis by (simp add: pot_boot_def Let_def button_init_post_def BUZ_DisableBuzzer_def)
qed

lemma Timer0_ok: "pot_ok p \<Longrightarrow> pot_ok (Timer0_ISR p)"
  by (simp add: Timer0_ISR_def Let_def) (auto simp: pot_ok_def pot_sound_def heater_safe_def)

lemma reachable_ok: "pot_reachable p \<Longrightarrow> pot_ok p"
  by (induction rule: pot_reachable.induct) (auto intro: boot_ok Timer0_ok main_pass_ok)

lemma heater_pin_follows: "pot_reachable p \<Longrightarrow> pin_heater (out p) \<Longrightarrow> heater_on p \<and> cooldown_seconds p = 0"
proof (induction rule: pot_reachable.induct)
  case (boot inp p)
  then show ?case
    by (simp add: pot_boot_def boot_state_def boot_probe_def button_init_post_def heat_slope_reset_def clear_glitches_def
        pot_show Let_def split: if_splits)
next
  case (isr p)
  then show ?case by (simp add: Timer0_ISR_def Let_def)
next
  case (pass p inp)
  then show ?case by (simp add: main_pass_def drive_outputs_def display_update_def Let_def word_gt_0 split: if_splits)
qed

text \<open>C1: the contact of the heater is closed only while heating or keeping warm, with no thermal lock, with a
  probe that reads neither open, short nor beyond its scale, and below the boiling point.\<close>
theorem pot_heater_only_when_safe:
  assumes "pot_reachable p" "pin_heater (out p)"
  shows "pot_state p \<in> {ST_HEAT, ST_WARM} \<and> cooldown_seconds p = 0 \<and> OVERTEMP_RAW < adc_code p
    \<and> adc_code p < NTC_OPEN_RAW \<and> temp_c p = ntc_code_to_temp (adc_code p) \<and> temp_c p < BOIL_TEMP_C
    \<and> (pot_state p = ST_WARM \<longrightarrow> temp_c p \<le> warm_set p + WARM_HYST_C)"
  using heater_pin_follows [OF assms] reachable_ok [OF assms(1)] by (auto simp: pot_ok_def pot_sound_def heater_safe_def)

section \<open>The thermal lock\<close>

lemma enter_fault_cooldown: "n \<noteq> 3 \<Longrightarrow> n \<noteq> 4 \<Longrightarrow> cooldown_seconds (enter_fault n p) = cooldown_seconds p"
  by (simp add: enter_fault_def Let_def)

lemma buttons_cooldown: "cooldown_seconds (handle_buttons p) = cooldown_seconds p" "div_1000ms (handle_buttons p) = div_1000ms p"
proof -
  have "cooldown_seconds (handle_func q) = cooldown_seconds q \<and> div_1000ms (handle_func q) = div_1000ms q" for q
    by (simp add: handle_func_def func_off_def func_heat_def func_warm_def reboil_def target_reached_def heat_slope_reset_def
        clear_glitches_def pot_show Let_def)
  moreover have "cooldown_seconds (handle_onoff q) = cooldown_seconds q \<and> div_1000ms (handle_onoff q) = div_1000ms q" for q
    by (simp add: handle_onoff_def onoff_off_def onoff_stop_def onoff_fault_def start_heating_def heat_slope_reset_def
        clear_glitches_def pot_show Let_def enter_fault_def)
  ultimately show "cooldown_seconds (handle_buttons p) = cooldown_seconds p" "div_1000ms (handle_buttons p) = div_1000ms p"
    by (simp_all add: handle_buttons_def)
qed

lemma control_cooldown: "cooldown_seconds (control_task inp p) = cooldown_seconds p" "div_1000ms (control_task inp p) = div_1000ms p"
proof -
  have "cooldown_seconds (control_sample inp q) = cooldown_seconds q \<and> div_1000ms (control_sample inp q) = div_1000ms q"
    "cooldown_seconds (control_probe q) = cooldown_seconds q \<and> div_1000ms (control_probe q) = div_1000ms q"
    "cooldown_seconds (control_streak q) = cooldown_seconds q \<and> div_1000ms (control_streak q) = div_1000ms q"
    "cooldown_seconds (control_overtemp q) = cooldown_seconds q \<and> div_1000ms (control_overtemp q) = div_1000ms q"
    "cooldown_seconds (control_report q) = cooldown_seconds q \<and> div_1000ms (control_report q) = div_1000ms q" for q
    by (simp_all add: control_sample_def control_probe_def control_streak_def control_overtemp_def control_report_def pot_show
        enter_fault_def Let_def)
  moreover have "cooldown_seconds (control_state q) = cooldown_seconds q \<and> div_1000ms (control_state q) = div_1000ms q" for q
    by (simp add: control_state_def control_off_def control_heat_def control_direct_def control_boil_def control_warm_def
        control_fault_def energise_def pot_show Let_def)
  ultimately show "cooldown_seconds (control_task inp p) = cooldown_seconds p" "div_1000ms (control_task inp p) = div_1000ms p"
    by (simp_all add: control_task_def)
qed

text \<open>A pass up to the task of the second.\<close>

definition before_second :: "pot_input \<Rightarrow> pot \<Rightarrow> pot" where
  "before_second inp p = run_500ms (run_100ms inp (step_warble (buzzer_task (handle_buttons
     (button_scan_10ms inp (p\<lparr> tick_flag := False \<rparr>))))))"

lemma pot_tick_eq: "pot_tick inp p = display_update (drive_outputs (run_1000ms (before_second inp (Timer0_ISR p))))"
  by (simp add: pot_tick_def main_pass_def before_second_def Timer0_ISR_def Let_def)

lemma before_second_cooldown:
  "cooldown_seconds (before_second inp p) = cooldown_seconds p" "div_1000ms (before_second inp p) = div_1000ms p"
  by (simp_all add: before_second_def run_500ms_def run_100ms_def step_warble_def button_scan_10ms_def Let_def buttons_cooldown
      control_cooldown)

lemma Timer0_frame [simp]:
  "cooldown_seconds (Timer0_ISR p) = cooldown_seconds p" "div_1000ms (Timer0_ISR p) = div_1000ms p"
  "pot_state (Timer0_ISR p) = pot_state p" "fault_code (Timer0_ISR p) = fault_code p" "heater_on (Timer0_ISR p) = heater_on p"
  "temp_c (Timer0_ISR p) = temp_c p" "heat_seconds (Timer0_ISR p) = heat_seconds p" "slope (Timer0_ISR p) = slope p"
  "keys (Timer0_ISR p) = keys p"
  by (simp_all add: Timer0_ISR_def Let_def)

lemma before_second_ok: "pot_ok p \<Longrightarrow> pot_ok (before_second inp p)"
proof -
  assume ok: "pot_ok p"
  have tick: "pot_ok (q\<lparr> tick_flag := b \<rparr>) = pot_ok q" "pot_ok (q\<lparr> div_100ms := d \<rparr>) = pot_ok q"
    "pot_ok (q\<lparr> div_500ms := d \<rparr>) = pot_ok q" for q b d
    by (simp_all add: pot_ok_def pot_sound_def heater_safe_def)
  have "pot_sound (q\<lparr> div_100ms := d \<rparr>)" if "pot_ok q" for q d using that by (simp add: pot_ok_def pot_sound_def)
  then have "pot_ok (run_100ms inp q)" if "pot_ok q" for q using that by (simp add: run_100ms_def Let_def tick control_task_ok)
  with ok show ?thesis
    by (simp add: before_second_def run_500ms_def Let_def step_warble_def button_scan_10ms_def handle_buttons_def
        handle_onoff_ok handle_func_ok tick)
qed

lemma count_beep_select [simp]:
  "pot_state (count_beep p) = pot_state p" "cooldown_seconds (count_beep p) = cooldown_seconds p"
  "div_1000ms (count_beep p) = div_1000ms p" "fault_code (count_beep p) = fault_code p" "heater_on (count_beep p) = heater_on p"
  "temp_c (count_beep p) = temp_c p" "adc_code (count_beep p) = adc_code p" "heat_mode (count_beep p) = heat_mode p"
  "heat_seconds (count_beep p) = heat_seconds p" "slope (count_beep p) = slope p" "keys (count_beep p) = keys p"
  by (simp_all add: count_beep_def)

lemma slope_idle: "pot_state p \<noteq> ST_HEAT \<Longrightarrow> heat_slope_task_1s p = p"
  by (simp add: heat_slope_task_1s_def)

lemma second_unlocked:
  assumes "pot_state p = ST_OFF \<or> pot_state p = ST_FAULT"
  shows "cooldown_seconds (one_second_task p) = (if cooldown_seconds p > 0 then cooldown_seconds p - 1 else 0)"
    "div_1000ms (one_second_task p) = div_1000ms p" "fault_code (one_second_task p) = fault_code p"
proof -
  have cold: "cooldown_seconds (heat_slope_task_1s (count_beep (watch_overtemp q))) = cooldown_seconds q
      \<and> div_1000ms (heat_slope_task_1s (count_beep (watch_overtemp q))) = div_1000ms q
      \<and> fault_code (heat_slope_task_1s (count_beep (watch_overtemp q))) = fault_code q"
    if "pot_state q = ST_OFF \<or> pot_state q = ST_FAULT" for q
  proof -
    have "watch_overtemp q = q\<lparr> overtemp_seconds := 0 \<rparr>" using that by (auto simp: watch_overtemp_def pot_constants)
    moreover have "heat_slope_task_1s (count_beep (q\<lparr> overtemp_seconds := 0 \<rparr>)) = count_beep (q\<lparr> overtemp_seconds := 0 \<rparr>)"
      using that by (intro slope_idle) (auto simp: pot_constants)
    ultimately show ?thesis by simp
  qed
  define q where "q = count_cooldown (count_relay p)"
  have q: "pot_state q = pot_state p" "div_1000ms q = div_1000ms p" "fault_code q = fault_code p"
    "cooldown_seconds q = (if cooldown_seconds p > 0 then cooldown_seconds p - 1 else 0)"
    by (simp_all add: q_def count_cooldown_def count_relay_def word_gt_0)
  define r where "r = heat_slope_task_1s (count_beep (watch_overtemp q))"
  have "pot_state q = ST_OFF \<or> pot_state q = ST_FAULT" using assms q(1) by simp
  then have r: "cooldown_seconds r = cooldown_seconds q" "div_1000ms r = div_1000ms q" "fault_code r = fault_code q"
    using cold [of q] unfolding r_def by blast+
  have "one_second_task p = telemetry_emit r" by (simp add: one_second_task_def q_def r_def)
  then show "cooldown_seconds (one_second_task p) = (if cooldown_seconds p > 0 then cooldown_seconds p - 1 else 0)"
    "div_1000ms (one_second_task p) = div_1000ms p" "fault_code (one_second_task p) = fault_code p"
    using q r by (simp_all add: telemetry_emit_eq)
qed

text \<open>The ticks until the lock opens.\<close>

definition lock_ticks :: "pot \<Rightarrow> nat" where
  "lock_ticks p = (unat (cooldown_seconds p) - 1) * 100 + (100 - unat (div_1000ms p))"

definition div_ok :: "pot \<Rightarrow> bool" where "div_ok p \<longleftrightarrow> div_1000ms p < 100"

lemma second_div: "div_1000ms (one_second_task p) = div_1000ms p"
proof -
  have fault: "div_1000ms (enter_fault n q) = div_1000ms q" for n q by (simp add: enter_fault_def Let_def)
  have over: "div_1000ms (watch_overtemp q) = div_1000ms q" for q by (simp add: watch_overtemp_def Let_def fault)
  have time: "div_1000ms (heat_timeouts q) = div_1000ms q" for q by (simp add: heat_timeouts_def Let_def fault)
  have sample: "div_1000ms (snd (slope_sample q)) = div_1000ms q" for q by (simp add: slope_sample_def Let_def)
  have slope: "div_1000ms (heat_slope_task_1s q) = div_1000ms q" for q
    using sample [of q] by (auto simp: heat_slope_task_1s_def Let_def fault time heat_slope_reset_def split: prod.split)
  have "div_1000ms (count_cooldown q) = div_1000ms q" "div_1000ms (count_relay q) = div_1000ms q"
    "div_1000ms (count_beep q) = div_1000ms q" for q
    by (simp_all add: count_cooldown_def count_relay_def count_beep_def)
  then show ?thesis by (simp add: one_second_task_def telemetry_emit_eq slope over)
qed

lemma tick_second:
  fixes p :: pot
  assumes "div_ok p"
  shows "div_ok (run_1000ms p)"
    "unat (div_1000ms p) < 99 \<Longrightarrow> run_1000ms p = p\<lparr> div_1000ms := div_1000ms p + 1 \<rparr> \<and> unat (div_1000ms p + 1) = unat (div_1000ms p) + 1"
    "unat (div_1000ms p) = 99 \<Longrightarrow> run_1000ms p = one_second_task (p\<lparr> div_1000ms := 0 \<rparr>)"
proof -
  have inc: "unat (div_1000ms p + 1) = unat (div_1000ms p) + 1"
    using assms by (simp add: div_ok_def word_less_nat_alt unat_word_ariths)
  have div: "div_1000ms (one_second_task q) = div_1000ms q" for q by (rule second_div)
  show "div_ok (run_1000ms p)"
    using assms inc div [of "p\<lparr> div_1000ms := 0 \<rparr>"]
    by (simp add: run_1000ms_def div_ok_def Let_def word_less_nat_alt word_le_nat_alt)
  show "unat (div_1000ms p) < 99 \<Longrightarrow> run_1000ms p = p\<lparr> div_1000ms := div_1000ms p + 1 \<rparr> \<and> unat (div_1000ms p + 1) = unat (div_1000ms p) + 1"
    using inc by (simp add: run_1000ms_def Let_def word_le_nat_alt)
  show "unat (div_1000ms p) = 99 \<Longrightarrow> run_1000ms p = one_second_task (p\<lparr> div_1000ms := 0 \<rparr>)"
    using inc by (simp add: run_1000ms_def Let_def word_le_nat_alt)
qed

lemma tick_frame:
  "cooldown_seconds (display_update (drive_outputs p)) = cooldown_seconds p"
  "div_1000ms (display_update (drive_outputs p)) = div_1000ms p" "pot_state (display_update (drive_outputs p)) = pot_state p"
  "fault_code (display_update (drive_outputs p)) = fault_code p" "heater_on (display_update (drive_outputs p)) = heater_on p"
  "temp_c (display_update (drive_outputs p)) = temp_c p" "heat_seconds (display_update (drive_outputs p)) = heat_seconds p"
  "slope (display_update (drive_outputs p)) = slope p" "keys (display_update (drive_outputs p)) = keys p"
  by (simp_all add: display_update_def drive_outputs_def)

lemma locked_tick:
  fixes inp :: pot_input
  assumes "pot_ok p" "div_ok p" "cooldown_seconds p > 0"
  defines "q \<equiv> pot_tick inp p"
  shows "div_ok q" "lock_ticks p > 1 \<Longrightarrow> cooldown_seconds q > 0 \<and> lock_ticks q = lock_ticks p - 1"
    "lock_ticks p \<le> 1 \<Longrightarrow> cooldown_seconds q = 0"
proof -
  let ?m = "before_second inp (Timer0_ISR p)"
  have m: "cooldown_seconds ?m = cooldown_seconds p" "div_1000ms ?m = div_1000ms p" by (simp_all add: before_second_cooldown)
  have "pot_ok ?m" using assms(1) by (simp add: before_second_ok Timer0_ok)
  then have st: "pot_state ?m = ST_OFF \<or> pot_state ?m = ST_FAULT" using assms(3) m by (simp add: pot_ok_def pot_sound_def)
  have dm: "div_ok ?m" using assms(2) m by (simp add: div_ok_def)
  have q: "cooldown_seconds q = cooldown_seconds (run_1000ms ?m)" "div_1000ms q = div_1000ms (run_1000ms ?m)"
    by (simp_all add: q_def pot_tick_eq tick_frame)
  show "div_ok q" using tick_second(1) [OF dm] q by (simp add: div_ok_def)
  have d: "unat (div_1000ms p) \<le> 99" using assms(2) by (simp add: div_ok_def word_less_nat_alt)
  have c: "unat (cooldown_seconds p - 1) = unat (cooldown_seconds p) - 1" using assms(3) by (simp add: word_gt_0 unat_minus_one)
  have c0: "unat (cooldown_seconds p) \<ge> 1" using assms(3) by (simp add: word_less_nat_alt)
  have last: "cooldown_seconds q = cooldown_seconds p - 1 \<and> div_1000ms q = 0" if "unat (div_1000ms p) = 99"
    using tick_second(3) [OF dm] st assms(3) that by (simp add: q m second_unlocked)
  have more: "cooldown_seconds q = cooldown_seconds p \<and> unat (div_1000ms q) = unat (div_1000ms p) + 1" if "unat (div_1000ms p) < 99"
    using tick_second(2) [OF dm] that by (simp add: q m)
  show "lock_ticks p > 1 \<Longrightarrow> cooldown_seconds q > 0 \<and> lock_ticks q = lock_ticks p - 1"
    using d c c0 last more assms(3) by (cases "unat (div_1000ms p) = 99") (auto simp: lock_ticks_def word_less_nat_alt)
  show "lock_ticks p \<le> 1 \<Longrightarrow> cooldown_seconds q = 0"
    using d c c0 last by (cases "unat (div_1000ms p) = 99") (auto simp: lock_ticks_def word_unat_eq_iff)
qed

lemma pot_tick_ok: "pot_ok p \<Longrightarrow> pot_ok (pot_tick inp p)"
  by (simp add: pot_tick_def main_pass_ok Timer0_ok)

lemma locked_run:
  assumes "pot_ok p" "div_ok p" "cooldown_seconds p > 0"
  shows "(length xs < lock_ticks p \<longrightarrow> cooldown_seconds (pot_run xs p) > 0)
    \<and> (length xs = lock_ticks p \<longrightarrow> cooldown_seconds (pot_run xs p) = 0)"
  using assms
proof (induction xs arbitrary: p)
  case Nil
  have "lock_ticks p > 0" using Nil.prems(2) by (simp add: lock_ticks_def div_ok_def word_less_nat_alt)
  then show ?case using Nil.prems by (simp add: pot_run_def)
next
  case (Cons inp xs)
  let ?q = "pot_tick inp p"
  have run: "pot_run (inp # xs) p = pot_run xs ?q" by (simp add: pot_run_def)
  note tick = locked_tick [OF Cons.prems, of inp]
  show ?case
  proof (cases "lock_ticks p > 1")
    case True
    with tick(2) have q: "cooldown_seconds ?q > 0" "lock_ticks ?q = lock_ticks p - 1" by simp_all
    show ?thesis
      using Cons.IH [OF pot_tick_ok [OF Cons.prems(1)] tick(1) q(1)] q(2) True by (auto simp: run)
  next
    case False
    moreover have "lock_ticks p > 0" using Cons.prems(2) by (simp add: lock_ticks_def div_ok_def word_less_nat_alt)
    ultimately have "lock_ticks p = 1" by simp
    then show ?thesis using tick(3) by (auto simp: run pot_run_def)
  qed
qed

lemma reachable_div: "pot_reachable p \<Longrightarrow> div_ok p"
proof (induction rule: pot_reachable.induct)
  case (boot inp p)
  then show ?case
    by (simp add: pot_boot_def boot_state_def boot_probe_def button_init_post_def heat_slope_reset_def clear_glitches_def
        pot_show Let_def div_ok_def)
next
  case (isr p)
  then show ?case by (simp add: div_ok_def)
next
  case (pass p inp)
  let ?m = "before_second inp p"
  have m: "div_ok ?m" using pass.IH by (simp add: div_ok_def before_second_cooldown)
  have "main_pass inp p = (if tick_flag p then display_update (drive_outputs (run_1000ms ?m)) else p)"
    by (simp add: main_pass_def before_second_def Let_def)
  then show ?case using tick_second(1) [OF m] pass.IH by (simp add: div_ok_def tick_frame)
qed

lemma reachable_tick: "pot_reachable p \<Longrightarrow> pot_reachable (pot_tick inp p)"
  by (simp add: pot_tick_def pot_reachable.isr pot_reachable.pass)

lemma reachable_run: "pot_reachable p \<Longrightarrow> pot_reachable (pot_run xs p)"
  by (induction xs arbitrary: p) (simp_all add: pot_run_def reachable_tick)

text \<open>A thermal fault that a pass raises comes from its task of the second, and sets the lock.\<close>

definition not_thermal :: "pot \<Rightarrow> bool" where
  "not_thermal p \<longleftrightarrow> (pot_state p = ST_FAULT \<longrightarrow> fault_code p = 1 \<or> fault_code p = 2)"

definition latched :: "pot \<Rightarrow> bool" where
  "latched p \<longleftrightarrow> (pot_state p = ST_FAULT \<and> (fault_code p = 3 \<or> fault_code p = 4) \<longrightarrow> cooldown_seconds p = COOLDOWN_SECONDS)"

lemma not_thermal_upd [simp]:
  "not_thermal (upd_keys a p) = not_thermal p" "not_thermal (upd_slope b p) = not_thermal p" "not_thermal (upd_ui c p) = not_thermal p"
  "not_thermal (upd_out d p) = not_thermal p"
  by (simp_all add: not_thermal_def)

lemma not_thermal_show [simp]:
  "not_thermal (play_melody m p) = not_thermal p" "not_thermal (display_update p) = not_thermal p"
  "not_thermal (heat_slope_reset p) = not_thermal p" "not_thermal (clear_glitches p) = not_thermal p"
  "not_thermal (buzzer_task p) = not_thermal p"
  by (simp_all add: pot_show heat_slope_reset_def clear_glitches_def not_thermal_def)

lemma not_thermal_fault: "n = 1 \<or> n = 2 \<Longrightarrow> not_thermal p \<Longrightarrow> not_thermal (enter_fault n p)"
  by (auto simp: not_thermal_def enter_fault_def Let_def)

lemma not_thermal_sensor:
  "not_thermal p \<Longrightarrow> not_thermal (enter_fault (if NTC_OPEN_RAW \<le> adc_code p then 1 else 2) (p\<lparr> sensor_muted := False \<rparr>))"
  by (rule not_thermal_fault) (auto simp: not_thermal_def)

lemma buttons_not_thermal:
  assumes "not_thermal p"
  shows "not_thermal (handle_buttons p)"
proof -
  have func: "not_thermal (handle_func q)" if "not_thermal q" for q
  proof -
    have "not_thermal (target_reached r)" for r by (simp add: target_reached_def) (simp add: not_thermal_def pot_constants)
    moreover have "not_thermal (r\<lparr> heat_mode := m, warm_set := w \<rparr>)" "not_thermal (r\<lparr> heat_mode := m \<rparr>)"
      "not_thermal (r\<lparr> warm_set := w \<rparr>)" "not_thermal (r\<lparr> heat_seconds := h \<rparr>)" if "not_thermal r" for r m w h
      using that by (simp_all add: not_thermal_def)
    moreover have "not_thermal (reboil r)" for r by (simp add: reboil_def) (simp add: not_thermal_def pot_constants)
    ultimately show ?thesis
      using that by (simp add: handle_func_def func_off_def func_heat_def func_warm_def Let_def)
  qed
  have onoff: "not_thermal (handle_onoff q)" if "not_thermal q" for q
  proof -
    define r where "r = upd_keys (\<lambda>k. k\<lparr> evt_onoff := False \<rparr>) q"
    have r: "not_thermal r" using that by (simp add: r_def)
    have "not_thermal (onoff_off r)"
      using not_thermal_sensor [OF r] r by (simp add: onoff_off_def start_heating_def) (simp add: not_thermal_def pot_constants)
    moreover have "not_thermal (onoff_stop r)" "not_thermal (onoff_fault r)"
      by (simp_all add: onoff_stop_def onoff_fault_def) (simp_all add: not_thermal_def pot_constants)
    ultimately show ?thesis using r that by (simp add: handle_onoff_def Let_def flip: r_def)
  qed
  show ?thesis using assms by (simp add: handle_buttons_def func onoff)
qed

lemma control_not_thermal:
  assumes "not_thermal p"
  shows "not_thermal (control_task inp p)"
proof -
  have "not_thermal (control_sample inp q)" if "not_thermal q" for q
    using that by (simp add: control_sample_def put_xbyte_def Let_def) (simp add: not_thermal_def)
  moreover have "not_thermal (control_probe q)" if "not_thermal q" for q
    using that by (auto simp: control_probe_def intro!: not_thermal_fault) (simp_all add: not_thermal_def)
  moreover have "not_thermal (control_streak q)" if "not_thermal q" for q
    using that by (simp add: control_streak_def not_thermal_def)
  moreover have "not_thermal (control_state q)" if "not_thermal q" for q
  proof -
    have "not_thermal (control_off q)" if "pot_state q = ST_OFF"
      using that by (simp add: control_off_def Let_def) (simp add: not_thermal_def pot_constants)
    moreover have "not_thermal (control_fault q)"
      using \<open>not_thermal q\<close> by (simp add: control_fault_def Let_def) (auto simp: not_thermal_def pot_constants)
    moreover have "not_thermal (energise q)" "not_thermal (q\<lparr> heater_on := False \<rparr>)"
      using \<open>not_thermal q\<close> by (simp_all add: energise_def not_thermal_def)
    moreover have "not_thermal (control_direct t w q)" for t w
      using calculation(3) by (simp add: control_direct_def) (simp add: not_thermal_def pot_constants)
    moreover have "not_thermal (control_boil q)"
      using calculation(3) \<open>not_thermal q\<close> by (simp add: control_boil_def Let_def) (simp add: not_thermal_def pot_constants)
    moreover have "not_thermal (q\<lparr> pot_state := ST_OFF, heater_on := False \<rparr>)" by (simp add: not_thermal_def pot_constants)
    ultimately show ?thesis
      using \<open>not_thermal q\<close> by (simp add: control_state_def control_heat_def control_warm_def)
  qed
  moreover have "not_thermal (control_overtemp q)" if "not_thermal q" for q
    using that by (simp add: control_overtemp_def not_thermal_def)
  ultimately show ?thesis using assms by (simp add: control_task_def control_report_def pot_show)
qed

lemma before_second_not_thermal:
  assumes "not_thermal p"
  shows "not_thermal (before_second inp p)"
proof -
  have "not_thermal (q\<lparr> tick_flag := b \<rparr>) = not_thermal q" "not_thermal (q\<lparr> div_100ms := d \<rparr>) = not_thermal q"
    "not_thermal (q\<lparr> div_500ms := d \<rparr>) = not_thermal q" for q b d
    by (simp_all add: not_thermal_def)
  with assms show ?thesis
    by (simp add: before_second_def run_500ms_def run_100ms_def Let_def step_warble_def button_scan_10ms_def
        buttons_not_thermal control_not_thermal)
qed

lemma second_latches:
  assumes "not_thermal p"
  shows "latched (one_second_task p)"
proof -
  have hot: "latched (enter_fault n q)" if "n = 3 \<or> n = 4" for n q
    using that by (auto simp: latched_def enter_fault_def Let_def)
  have cold: "latched (enter_fault 1 q)" if "pot_state q \<noteq> ST_FAULT" for q
    using that by (simp add: latched_def enter_fault_def Let_def)
  have weak: "latched q" if "not_thermal q" for q using that by (auto simp: latched_def not_thermal_def)
  have slope: "latched (heat_slope_task_1s q)" if "latched q" for q
  proof (cases "pot_state q = ST_HEAT")
    case True
    have idle: "latched r" if "pot_state r = ST_HEAT" for r using that by (simp add: latched_def pot_constants)
    have time: "latched (heat_timeouts r)" if "pot_state r = ST_HEAT" for r
      using that by (simp add: heat_timeouts_def Let_def hot idle)
    show ?thesis
      using True by (simp add: heat_slope_task_1s_def slope_sample_def heat_slope_reset_def Let_def hot cold idle time)
        (simp add: cold pot_constants)
  qed (simp add: slope_idle that)
  have "latched (watch_overtemp q)" if "not_thermal q" for q
    using weak [OF that] by (simp add: watch_overtemp_def Let_def hot) (simp add: latched_def)
  moreover have "latched (count_beep q) = latched q" "latched (telemetry_emit q) = latched q" for q
    by (simp_all add: latched_def telemetry_emit_eq)
  moreover have "not_thermal (count_cooldown (count_relay p))"
    using assms by (simp add: not_thermal_def count_cooldown_def count_relay_def)
  ultimately show ?thesis by (simp add: one_second_task_def slope)
qed

text \<open>What every reachable state satisfies: the invariant, the prescaler and the pin of the last pass.\<close>

definition pot_inv :: "pot \<Rightarrow> bool" where
  "pot_inv p \<longleftrightarrow> pot_ok p \<and> div_ok p \<and> (pin_heater (out p) \<longrightarrow> heater_on p \<and> cooldown_seconds p = 0)"

lemma reachable_inv: "pot_reachable p \<Longrightarrow> pot_inv p"
  using heater_pin_follows by (auto simp: pot_inv_def reachable_ok reachable_div)

lemma pot_inv_tick: "pot_inv p \<Longrightarrow> pot_inv (pot_tick inp p)"
proof -
  assume inv: "pot_inv p"
  let ?m = "before_second inp (Timer0_ISR p)"
  have "div_ok ?m" using inv by (simp add: pot_inv_def div_ok_def before_second_cooldown)
  then have "div_ok (run_1000ms ?m)" by (rule tick_second(1))
  moreover have "pin_heater (out (pot_tick inp p)) \<longrightarrow> heater_on (pot_tick inp p) \<and> cooldown_seconds (pot_tick inp p) = 0"
    by (simp add: pot_tick_eq display_update_def drive_outputs_def word_gt_0)
  ultimately show ?thesis using inv by (simp add: pot_inv_def pot_tick_ok) (simp add: div_ok_def pot_tick_eq tick_frame)
qed

lemma pot_inv_run: "pot_inv p \<Longrightarrow> pot_inv (pot_run xs p)"
  by (induction xs arbitrary: p) (simp_all add: pot_run_def pot_inv_tick)

text \<open>The tick in which a thermal fault is raised.\<close>

definition thermal_trip :: "pot_input \<Rightarrow> pot \<Rightarrow> bool" where
  "thermal_trip inp p \<longleftrightarrow> pot_state p \<noteq> ST_FAULT \<and> pot_state (pot_tick inp p) = ST_FAULT
     \<and> fault_code (pot_tick inp p) \<in> {3, 4}"

lemma trip_locks:
  assumes "div_ok p" "thermal_trip inp p"
  shows "cooldown_seconds (pot_tick inp p) = COOLDOWN_SECONDS" "div_1000ms (pot_tick inp p) = 0"
proof -
  let ?m = "before_second inp (Timer0_ISR p)"
  have m: "not_thermal ?m" using assms(2) by (intro before_second_not_thermal) (simp add: not_thermal_def thermal_trip_def)
  have dm: "div_ok ?m" using assms(1) by (simp add: div_ok_def before_second_cooldown)
  have q: "pot_state (run_1000ms ?m) = ST_FAULT" "fault_code (run_1000ms ?m) \<in> {3, 4}"
    using assms(2) by (simp_all add: thermal_trip_def pot_tick_eq tick_frame)
  have "unat (div_1000ms ?m) = 99"
  proof (rule ccontr)
    assume "unat (div_1000ms ?m) \<noteq> 99"
    then have "unat (div_1000ms ?m) < 99" using dm by (simp add: div_ok_def word_less_nat_alt)
    with tick_second(2) [OF dm] have "run_1000ms ?m = ?m\<lparr> div_1000ms := div_1000ms ?m + 1 \<rparr>" by blast
    with q m show False by (auto simp: not_thermal_def)
  qed
  with tick_second(3) [OF dm] have run: "run_1000ms ?m = one_second_task (?m\<lparr> div_1000ms := 0 \<rparr>)" by blast
  have "latched (run_1000ms ?m)" unfolding run using m by (intro second_latches) (simp add: not_thermal_def)
  with q show "cooldown_seconds (pot_tick inp p) = COOLDOWN_SECONDS" by (auto simp: latched_def pot_tick_eq tick_frame)
  show "div_1000ms (pot_tick inp p) = 0" by (simp add: pot_tick_eq tick_frame run second_div)
qed

text \<open>C2: a thermal fault, dry-fire or over-temperature, opens the contact for 6000 ticks, whatever keys and probe
  do in that minute; then the lock opens.\<close>
theorem pot_thermal_lock_holds:
  assumes "pot_inv p" "thermal_trip inp p"
  defines "q \<equiv> pot_tick inp p"
  shows "(length xs < 6000 \<longrightarrow> cooldown_seconds (pot_run xs q) > 0 \<and> \<not> pin_heater (out (pot_run xs q))
        \<and> pot_state (pot_run xs q) \<in> {ST_OFF, ST_FAULT})
    \<and> (length xs = 6000 \<longrightarrow> cooldown_seconds (pot_run xs q) = 0)"
proof -
  have inv: "pot_inv q" "div_ok p" using assms(1) by (simp_all add: q_def pot_inv_tick) (simp add: pot_inv_def)
  then have "cooldown_seconds q = COOLDOWN_SECONDS" "div_1000ms q = 0"
    using trip_locks [OF inv(2) assms(2)] by (simp_all add: q_def)
  then have lock: "lock_ticks q = 6000" "cooldown_seconds q > 0" by (simp_all add: lock_ticks_def COOLDOWN_SECONDS_def)
  have "pot_ok q" "div_ok q" using inv(1) by (simp_all add: pot_inv_def)
  then have run: "length xs < 6000 \<longrightarrow> cooldown_seconds (pot_run xs q) > 0" "length xs = 6000 \<longrightarrow> cooldown_seconds (pot_run xs q) = 0"
    using locked_run [of q xs] lock by simp_all
  have "pot_inv (pot_run xs q)" by (rule pot_inv_run [OF inv(1)])
  then have "cooldown_seconds (pot_run xs q) > 0 \<longrightarrow> \<not> pin_heater (out (pot_run xs q)) \<and> pot_state (pot_run xs q) \<in> {ST_OFF, ST_FAULT}"
    by (simp add: pot_inv_def pot_ok_def pot_sound_def word_gt_0) blast
  with run show ?thesis by blast
qed

section \<open>Heating a pot that stays cold\<close>

lemma scan_func_quiet: "\<not> evt_func k \<Longrightarrow> \<not> evt_func (scan_func False (scan_onoff b k))"
  by (simp add: scan_func_def scan_onoff_def Let_def)

lemma energise_frame [simp]:
  "slope (energise p) = slope p" "keys (energise p) = keys p" "heat_seconds (energise p) = heat_seconds p" "pot_state (energise p) = pot_state p"
  by (simp_all add: energise_def)

lemma control_off_frame [simp]: "slope (control_off p) = slope p" "keys (control_off p) = keys p" "pot_state (control_off p) = pot_state p"
  by (simp_all add: control_off_def play_melody_def Let_def)

lemma control_direct_frame [simp]:
  "slope (control_direct t w p) = slope p" "keys (control_direct t w p) = keys p" "heat_seconds (control_direct t w p) = heat_seconds p"
  by (simp_all add: control_direct_def play_melody_def)

lemma control_boil_frame [simp]:
  "slope (control_boil p) = slope p" "keys (control_boil p) = keys p" "heat_seconds (control_boil p) = heat_seconds p"
  by (simp_all add: control_boil_def play_melody_def Let_def)

lemma control_warm_frame [simp]:
  "slope (control_warm p) = slope p" "keys (control_warm p) = keys p" "pot_state (control_warm p) = pot_state p"
  by (simp_all add: control_warm_def)

lemma control_fault_frame [simp]: "slope (control_fault p) = slope p" "keys (control_fault p) = keys p"
  by (simp_all add: control_fault_def play_melody_def Let_def)

lemma control_fault_state: "pot_state p = ST_FAULT \<Longrightarrow> pot_state (control_fault p) \<noteq> ST_HEAT"
  by (simp add: control_fault_def play_melody_def Let_def ST_OFF_def ST_HEAT_def ST_FAULT_def)

lemma enter_fault_frame [simp]: "slope (enter_fault n p) = slope p" "keys (enter_fault n p) = keys p"
  "pot_state (enter_fault n p) = ST_FAULT" "\<not> heater_on (enter_fault n p)"
proof -
  have "slope (enter_fault n p) = slope p \<and> keys (enter_fault n p) = keys p \<and> pot_state (enter_fault n p) = ST_FAULT
      \<and> \<not> heater_on (enter_fault n p)"
    by (cases "n = 3 \<or> n = 4"; cases "pot_state p = ST_FAULT") (simp_all add: enter_fault_def Let_def del: word_neq_0_conv)
  then show "slope (enter_fault n p) = slope p" "keys (enter_fault n p) = keys p" "pot_state (enter_fault n p) = ST_FAULT"
    "\<not> heater_on (enter_fault n p)" by blast+
qed

lemma control_slope: "slope (control_task inp p) = slope p" "keys (control_task inp p) = keys p"
proof -
  have "slope (control_sample inp q) = slope q \<and> keys (control_sample inp q) = keys q"
    "slope (control_probe q) = slope q \<and> keys (control_probe q) = keys q"
    "slope (control_streak q) = slope q \<and> keys (control_streak q) = keys q"
    "slope (control_overtemp q) = slope q \<and> keys (control_overtemp q) = keys q"
    "slope (control_report q) = slope q \<and> keys (control_report q) = keys q" for q
    by (simp_all add: control_sample_def control_probe_def control_streak_def control_overtemp_def control_report_def put_xbyte_def
        Let_def)
  moreover have "slope (control_state q) = slope q \<and> keys (control_state q) = keys q" for q
    by (simp add: control_state_def control_heat_def)
  ultimately show "slope (control_task inp p) = slope p" "keys (control_task inp p) = keys p" by (simp_all add: control_task_def)
qed

text \<open>Heating goes on through a control task only from heating, and then the seconds are kept.\<close>

lemma control_heating:
  assumes "pot_state (control_task inp p) = ST_HEAT"
  shows "pot_state p = ST_HEAT" "heat_seconds (control_task inp p) = heat_seconds p"
proof -
  define q where "q = control_streak (control_probe (control_sample inp p))"
  have task: "control_task inp p = control_report (control_overtemp (control_state q))" by (simp add: control_task_def q_def)
  have show_: "pot_state (control_report (control_overtemp r)) = pot_state r"
    "heat_seconds (control_report (control_overtemp r)) = heat_seconds r" for r
    by (simp_all add: control_report_def control_overtemp_def pot_show)
  have st: "pot_state (control_state q) = ST_HEAT" using assms by (simp add: task show_)
  have q: "pot_state q = ST_HEAT"
  proof (rule ccontr)
    assume "pot_state q \<noteq> ST_HEAT"
    then have "pot_state (control_state q) \<noteq> ST_HEAT"
      using control_fault_state [of q] by (simp add: control_state_def) (simp add: ST_OFF_def ST_HEAT_def ST_WARM_def ST_FAULT_def)
    with st show False by simp
  qed
  then have secs: "heat_seconds (control_state q) = heat_seconds q"
    by (simp add: control_state_def control_heat_def ST_OFF_def ST_HEAT_def)
  have "pot_state (control_probe r) = ST_HEAT \<Longrightarrow> control_probe r = r" for r
    by (simp add: control_probe_def ST_FAULT_def ST_HEAT_def ST_OFF_def split: if_splits)
  moreover have streak: "pot_state (control_streak r) = pot_state r" "heat_seconds (control_streak r) = heat_seconds r" for r
    by (simp_all add: control_streak_def)
  ultimately have probe: "control_probe (control_sample inp p) = control_sample inp p" using q by (simp add: q_def)
  have "pot_state (control_sample inp p) = pot_state p" "heat_seconds (control_sample inp p) = heat_seconds p"
    by (simp_all add: control_sample_def put_xbyte_def Let_def)
  with q secs show "pot_state p = ST_HEAT" "heat_seconds (control_task inp p) = heat_seconds p"
    by (simp_all add: task show_) (simp_all add: q_def streak probe)
qed

text \<open>Without a press of the mode key a pass that begins and ends heating keeps the counters up to the task of
  the second.\<close>

definition func_quiet :: "pot_input \<Rightarrow> pot \<Rightarrow> bool" where "func_quiet inp p \<longleftrightarrow> \<not> in_func_low inp \<and> \<not> evt_func (keys p)"

lemma buttons_heating:
  assumes "\<not> evt_func (keys p)" "pot_state (handle_buttons p) = ST_HEAT" "pot_state p = ST_HEAT"
  shows "handle_buttons p = p"
proof -
  have stop: "pot_state (onoff_stop r) = ST_OFF" for r by (simp add: onoff_stop_def pot_show)
  have func: "handle_func p = p" using assms(1) by (simp add: handle_func_def)
  show ?thesis
  proof (cases "evt_onoff (keys p)")
    case True
    then have "pot_state (handle_buttons p) = ST_OFF"
      using assms(3) stop by (simp add: handle_buttons_def func handle_onoff_def Let_def) (simp add: ST_OFF_def ST_HEAT_def)
    with assms(2) show ?thesis by (simp add: ST_OFF_def ST_HEAT_def)
  qed (simp add: handle_buttons_def func handle_onoff_def)
qed

lemma buttons_quiet_keys: "\<not> evt_func (keys p) \<Longrightarrow> \<not> evt_func (keys (handle_buttons p))"
proof -
  assume quiet: "\<not> evt_func (keys p)"
  have "evt_func (keys (handle_onoff r)) = evt_func (keys r)" for r
    by (simp add: handle_onoff_def onoff_off_def onoff_stop_def onoff_fault_def start_heating_def heat_slope_reset_def
        clear_glitches_def pot_show Let_def)
  then show ?thesis using quiet by (simp add: handle_buttons_def handle_func_def)
qed

lemma not_heating_stays:
  assumes "\<not> evt_func (keys p)" "pot_state p = ST_HEAT" "pot_state (handle_buttons p) \<noteq> ST_HEAT"
  shows "pot_state (control_task inp (handle_buttons p)) \<noteq> ST_HEAT"
  using control_heating(1) [of inp "handle_buttons p"] assms(3) by blast

lemma before_second_heating:
  assumes "func_quiet inp p" "pot_state p = ST_HEAT" "pot_state (before_second inp p) = ST_HEAT"
  shows "heat_seconds (before_second inp p) = heat_seconds p" "slope (before_second inp p) = slope p"
    "\<not> evt_func (keys (before_second inp p))"
proof -
  define a where "a = button_scan_10ms inp (p\<lparr> tick_flag := False \<rparr>)"
  define b where "b = step_warble (buzzer_task (handle_buttons a))"
  define c where "c = run_100ms inp b"
  have a: "pot_state a = ST_HEAT" "heat_seconds a = heat_seconds p" "slope a = slope p" "\<not> evt_func (keys a)"
    using assms(1,2) by (simp_all add: a_def button_scan_10ms_def func_quiet_def scan_func_quiet)
  have m: "before_second inp p = run_500ms c" by (simp add: before_second_def a_def b_def c_def)
  have c500: "pot_state (run_500ms c) = pot_state c" "heat_seconds (run_500ms c) = heat_seconds c" "slope (run_500ms c) = slope c"
    "keys (run_500ms c) = keys c"
    by (simp_all add: run_500ms_def Let_def)
  have b: "pot_state b = pot_state (handle_buttons a)" "heat_seconds b = heat_seconds (handle_buttons a)"
    "slope b = slope (handle_buttons a)" "keys b = keys (handle_buttons a)"
    by (simp_all add: b_def step_warble_def)
  have c: "pot_state c = ST_HEAT" using assms(3) by (simp add: m c500)
  have run: "pot_state b = ST_HEAT" "heat_seconds c = heat_seconds b" "slope c = slope b" "keys c = keys b"
    using c control_heating [of inp "b\<lparr> div_100ms := 0 \<rparr>"] control_slope [of inp "b\<lparr> div_100ms := 0 \<rparr>"]
    by (simp_all add: c_def run_100ms_def Let_def split: if_splits)
  then have "handle_buttons a = a" using buttons_heating [OF a(4)] a(1) b(1) by simp
  with a b run show "heat_seconds (before_second inp p) = heat_seconds p" "slope (before_second inp p) = slope p"
    "\<not> evt_func (keys (before_second inp p))"
    by (simp_all add: m c500)
qed

text \<open>The task of the second while heating goes on below the dry-fire temperature: one more jump, or one more
  second on the backstop.\<close>

definition heating_cold :: "pot \<Rightarrow> bool" where
  "heating_cold p \<longleftrightarrow> pot_state p = ST_HEAT \<and> heater_on p \<and> temp_c p < DRYFIRE_TEMP_C"

lemma slope_heating:
  assumes "heating_cold (heat_slope_task_1s p)"
  defines "r \<equiv> heat_slope_task_1s p"
  shows "pot_state p = ST_HEAT" "heater_on p" "keys r = keys p"
    "glitch_cnt (slope p) + 1 < GLITCH_TRIP_COUNT \<and> glitch_cnt (slope r) = glitch_cnt (slope p) + 1 \<and> heat_seconds r = heat_seconds p
     \<or> glitch_cnt (slope r) = 0 \<and> heat_seconds r = heat_seconds p + 1 \<and> heat_seconds r \<le> DRYFIRE_SECONDS"
proof -
  have no_fault: "\<not> heating_cold (enter_fault n q)" for n q by (simp add: heating_cold_def)
  have on: "pot_state p = ST_HEAT \<and> heater_on p"
    using assms(1) by (auto simp: heat_slope_task_1s_def heating_cold_def split: if_splits)
  have main: "keys r = keys p \<and>
    (glitch_cnt (slope p) + 1 < GLITCH_TRIP_COUNT \<and> glitch_cnt (slope r) = glitch_cnt (slope p) + 1 \<and> heat_seconds r = heat_seconds p
     \<or> glitch_cnt (slope r) = 0 \<and> heat_seconds r = heat_seconds p + 1 \<and> heat_seconds r \<le> DRYFIRE_SECONDS)"
  proof (cases "adc_code p > adc_prev_1s (slope p) \<and> adc_code p - adc_prev_1s (slope p) > COLDWATER_JUMP")
    case True
    then have r: "r = (if glitch_cnt (slope p) + 1 \<ge> GLITCH_TRIP_COUNT then enter_fault 1 (upd_slope (\<lambda>s. s\<lparr> glitch_cnt := glitch_cnt s + 1 \<rparr>) p)
        else heat_slope_reset (upd_slope (\<lambda>s. s\<lparr> glitch_cnt := glitch_cnt s + 1 \<rparr>) p))"
      using on by (simp add: r_def heat_slope_task_1s_def Let_def)
    then have "\<not> glitch_cnt (slope p) + 1 \<ge> GLITCH_TRIP_COUNT" using assms(1) no_fault by (auto simp: r_def)
    with r show ?thesis by (simp add: heat_slope_reset_def)
  next
    case False
    obtain old y where y: "slope_sample p = (old, y)" by fastforce
    then have fields: "temp_c y = temp_c p" "keys y = keys p" "glitch_cnt (slope y) = 0" "heat_seconds y = heat_seconds p + 1"
      by (auto simp: slope_sample_def Let_def)
    have r: "r = (if slope_dry old y then enter_fault 3 y else heat_timeouts y)"
      using on False y by (auto simp: r_def heat_slope_task_1s_def)
    then have "r = heat_timeouts y" using assms(1) no_fault by (auto simp: r_def)
    then have r: "r = y" "\<not> (heat_seconds y > DRYFIRE_SECONDS \<and> temp_c y < DRYFIRE_TEMP_C)"
      using assms(1) no_fault by (auto simp: r_def heat_timeouts_def Let_def split: if_splits)
    have "temp_c y < DRYFIRE_TEMP_C" using assms(1) r(1) by (simp add: r_def heating_cold_def)
    with r(2) have "heat_seconds y \<le> DRYFIRE_SECONDS" by (meson not_less)
    with r(1) fields show ?thesis by simp
  qed
  from on main show "pot_state p = ST_HEAT" "heater_on p" "keys r = keys p"
    "glitch_cnt (slope p) + 1 < GLITCH_TRIP_COUNT \<and> glitch_cnt (slope r) = glitch_cnt (slope p) + 1 \<and> heat_seconds r = heat_seconds p
     \<or> glitch_cnt (slope r) = 0 \<and> heat_seconds r = heat_seconds p + 1 \<and> heat_seconds r \<le> DRYFIRE_SECONDS"
    by blast+
qed

lemma second_heating:
  assumes "heating_cold (one_second_task p)"
  defines "r \<equiv> one_second_task p"
  shows "pot_state p = ST_HEAT" "heater_on p" "keys r = keys p"
    "glitch_cnt (slope p) + 1 < GLITCH_TRIP_COUNT \<and> glitch_cnt (slope r) = glitch_cnt (slope p) + 1 \<and> heat_seconds r = heat_seconds p
     \<or> glitch_cnt (slope r) = 0 \<and> heat_seconds r = heat_seconds p + 1 \<and> heat_seconds r \<le> DRYFIRE_SECONDS"
proof -
  define q where "q = count_cooldown (count_relay p)"
  have q: "pot_state q = pot_state p" "heater_on q = heater_on p" "slope q = slope p" "keys q = keys p" "heat_seconds q = heat_seconds p"
    by (simp_all add: q_def count_cooldown_def count_relay_def)
  define u where "u = count_beep (watch_overtemp q)"
  define w where "w = heat_slope_task_1s u"
  have r: "r = telemetry_emit w" by (simp add: r_def one_second_task_def q_def u_def w_def)
  have "heating_cold w" using assms(1) by (simp add: r telemetry_emit_eq heating_cold_def flip: r_def)
  note task = slope_heating [OF this [unfolded w_def], folded w_def]
  have "pot_state (watch_overtemp q) \<noteq> ST_FAULT" using task(1) by (simp add: u_def ST_HEAT_def ST_FAULT_def)
  moreover have "watch_overtemp q = q\<lparr> overtemp_seconds := overtemp_seconds q + 1 \<rparr>
      \<or> watch_overtemp q = q\<lparr> overtemp_seconds := 0 \<rparr> \<or> pot_state (watch_overtemp q) = ST_FAULT"
    by (simp add: watch_overtemp_def Let_def)
  ultimately have u: "pot_state u = pot_state p" "heater_on u = heater_on p" "slope u = slope p" "keys u = keys p" "heat_seconds u = heat_seconds p"
    using q by (auto simp: u_def)
  from task u show "pot_state p = ST_HEAT" "heater_on p" "keys r = keys p"
    "glitch_cnt (slope p) + 1 < GLITCH_TRIP_COUNT \<and> glitch_cnt (slope r) = glitch_cnt (slope p) + 1 \<and> heat_seconds r = heat_seconds p
     \<or> glitch_cnt (slope r) = 0 \<and> heat_seconds r = heat_seconds p + 1 \<and> heat_seconds r \<le> DRYFIRE_SECONDS"
    by (simp_all add: r telemetry_emit_eq)
qed

text \<open>The seconds and ticks that have passed, counted against the bound.\<close>

definition heat_clock :: "pot \<Rightarrow> nat" where
  "heat_clock p = (3 * unat (heat_seconds p) + unat (glitch_cnt (slope p))) * 100 + unat (div_1000ms p)"

definition heat_counters :: "pot \<Rightarrow> bool" where
  "heat_counters p \<longleftrightarrow> heat_seconds p \<le> DRYFIRE_SECONDS \<and> glitch_cnt (slope p) < GLITCH_TRIP_COUNT \<and> \<not> evt_func (keys p)"

lemma heating_tick:
  assumes "div_ok p" "heat_counters p" "\<not> in_func_low inp" "heating_cold p" "heating_cold (pot_tick inp p)"
  shows "div_ok (pot_tick inp p)" "heat_counters (pot_tick inp p)" "heat_clock p < heat_clock (pot_tick inp p)"
proof -
  let ?m = "before_second inp (Timer0_ISR p)" and ?q = "pot_tick inp p"
  have dm: "div_ok ?m" "div_1000ms ?m = div_1000ms p" using assms(1) by (simp_all add: div_ok_def before_second_cooldown)
  have run: "heating_cold (run_1000ms ?m)" using assms(5) by (simp add: pot_tick_eq heating_cold_def tick_frame)
  have fields: "heat_seconds ?q = heat_seconds (run_1000ms ?m)" "slope ?q = slope (run_1000ms ?m)"
    "keys ?q = keys (run_1000ms ?m)" "div_1000ms ?q = div_1000ms (run_1000ms ?m)"
    by (simp_all add: pot_tick_eq tick_frame)
  show "div_ok ?q" using tick_second(1) [OF dm(1)] by (simp add: div_ok_def fields)
  have quiet: "func_quiet inp (Timer0_ISR p)" using assms(2,3) by (simp add: func_quiet_def heat_counters_def)
  have start: "pot_state (Timer0_ISR p) = ST_HEAT" using assms(4) by (simp add: heating_cold_def)
  note m = before_second_heating [OF quiet start]
  have limits: "unat (heat_seconds p) \<le> 650" "unat (glitch_cnt (slope p)) \<le> 2"
    using assms(2) by (simp_all add: heat_counters_def DRYFIRE_SECONDS_def GLITCH_TRIP_COUNT_def word_le_nat_alt word_less_nat_alt)
  have "heat_counters ?q \<and> heat_clock p < heat_clock ?q"
  proof (cases "unat (div_1000ms ?m) = 99")
    case True
    then have r: "run_1000ms ?m = one_second_task (?m\<lparr> div_1000ms := 0 \<rparr>)" by (rule tick_second(3) [OF dm(1)])
    note second = second_heating [OF run [unfolded r]]
    have same: "heat_seconds ?m = heat_seconds p" "slope ?m = slope p" "\<not> evt_func (keys ?m)" using m second(1) by simp_all
    have inc: "unat (heat_seconds p + 1) = unat (heat_seconds p) + 1" "unat (glitch_cnt (slope p) + 1) = unat (glitch_cnt (slope p)) + 1"
      using limits by (simp_all add: unat_word_ariths)
    show ?thesis using second(3,4) same limits inc assms(2) dm(2) True
      by (auto simp: heat_counters_def heat_clock_def fields r second_div GLITCH_TRIP_COUNT_def word_less_nat_alt)
  next
    case False
    then have "unat (div_1000ms ?m) < 99" using dm(1) by (simp add: div_ok_def word_less_nat_alt)
    from tick_second(2) [OF dm(1) this] have r: "run_1000ms ?m = ?m\<lparr> div_1000ms := div_1000ms ?m + 1 \<rparr>"
      and d: "unat (div_1000ms ?m + 1) = unat (div_1000ms ?m) + 1" by blast+
    have "pot_state ?m = ST_HEAT" using run by (simp add: r heating_cold_def)
    with m assms(2) d dm(2) show ?thesis by (simp add: heat_counters_def heat_clock_def fields r)
  qed
  then show "heat_counters ?q" "heat_clock p < heat_clock ?q" by blast+
qed

text \<open>C26: with the mode key at rest, no press of it pending and the counters of the dry-fire rules below their trip
  values at the start, a pot below the dry-fire temperature is heated for fewer than 195300 ticks, three times the
  backstop of 651 seconds, in every pattern of samples; then the contact opens or the state changes.\<close>
theorem pot_cold_heating_bounded:
  assumes "pot_inv p" "heat_counters p" "\<forall>inp \<in> set xs. \<not> in_func_low inp"
    "\<forall>n \<le> length xs. heating_cold (pot_run (take n xs) p)"
  shows "length xs < 195300"
proof -
  have "heat_clock p + length xs \<le> heat_clock (pot_run xs p) \<and> heat_counters (pot_run xs p) \<and> div_ok (pot_run xs p)"
    if "div_ok p" using that assms(2-4)
  proof (induction xs arbitrary: p)
    case (Cons inp xs)
    have run: "pot_run (inp # ys) p = pot_run ys (pot_tick inp p)" for ys by (simp add: pot_run_def)
    have cold: "heating_cold p" "heating_cold (pot_tick inp p)"
      using Cons.prems(4) [rule_format, of 0] Cons.prems(4) [rule_format, of 1] by (simp_all add: pot_run_def)
    note tick = heating_tick [OF Cons.prems(1,2) _ cold]
    have quiet: "\<not> in_func_low inp" using Cons.prems(3) by simp
    have rest: "\<forall>n \<le> length xs. heating_cold (pot_run (take n xs) (pot_tick inp p))"
      using Cons.prems(4) [rule_format, of "Suc _"] by (simp add: run)
    show ?case
      using Cons.IH [OF tick(1) [OF quiet] tick(2) [OF quiet] _ rest] Cons.prems(3) tick(3) [OF quiet] by (simp add: run)
  qed (simp add: pot_run_def)
  moreover have "div_ok p" using assms(1) by (simp add: pot_inv_def)
  ultimately have "heat_clock p + length xs \<le> heat_clock (pot_run xs p)" "heat_counters (pot_run xs p)" "div_ok (pot_run xs p)" by blast+
  then show ?thesis
    by (simp add: heat_clock_def heat_counters_def div_ok_def DRYFIRE_SECONDS_def GLITCH_TRIP_COUNT_def word_le_nat_alt word_less_nat_alt)
qed

section \<open>The telemetry can be read back\<close>

definition telemetry_read :: "u8 list \<Rightarrow> (u8 \<times> u8 \<times> bool \<times> u8) option" where
  "telemetry_read f =
    (if length f = 19 \<and> f ! 0 = 0x54 \<and> f ! 5 = 0x43 \<and> f ! 18 = 0x0A
     then Some ((f ! 2 - 0x30) * 100 + (f ! 3 - 0x30) * 10 + (f ! 4 - 0x30), f ! 9 - 0x30, f ! 13 = 0x31, f ! 17 - 0x30)
     else None)"

lemma word_div_100: "v div 100 = v div 10 div (10 :: u8)"
  using div_mult2_eq [of "unat v" 10 10] by (simp add: word_unat_eq_iff unat_div)

lemma decimal_digits: "v div 100 * 100 + v div 10 mod 10 * 10 + v mod 10 = (v :: u8)"
proof -
  have "v div 100 * 100 + v div 10 mod 10 * 10 + v mod 10 = (v div 10 div 10 * 10 + v div 10 mod 10) * 10 + v mod 10"
    unfolding word_div_100 by (simp only: distrib_right mult.assoc) simp
  also have "\<dots> = v" by (simp only: div_mult_mod_eq)
  finally show ?thesis .
qed

lemma second_sends: "uart_sent (out (one_second_task p)) = uart_sent (out p) @ telemetry_line (one_second_task p)"
proof -
  have fault: "out (enter_fault n q) = out q" for n q by (simp add: enter_fault_def Let_def)
  have "out (watch_overtemp q) = out q" "out (heat_timeouts q) = out q" "out (count_beep q) = out q"
    "out (count_cooldown q) = out q" "out (count_relay q) = out q" for q
    by (simp_all add: watch_overtemp_def heat_timeouts_def count_beep_def count_cooldown_def count_relay_def Let_def fault)
  moreover have "out (heat_slope_task_1s q) = out q" for q
    using calculation(2) by (simp add: heat_slope_task_1s_def slope_sample_def heat_slope_reset_def Let_def fault)
  moreover have "telemetry_line (upd_out f q) = telemetry_line q" for f q by (simp add: telemetry_line_def)
  ultimately show ?thesis by (simp add: one_second_task_def telemetry_emit_eq)
qed

text \<open>C28: every second one line is sent, and temperature, state, contact and fault code can be read back from it.\<close>
theorem pot_telemetry_roundtrip:
  "\<exists>line. uart_sent (out (one_second_task p)) = uart_sent (out p) @ line
     \<and> telemetry_read line = Some (temp_c (one_second_task p), pot_state (one_second_task p), heater_on (one_second_task p),
         fault_code (one_second_task p))"
  by (rule exI, rule conjI, rule second_sends)
    (simp add: telemetry_read_def telemetry_line_def digit_def flag_def decimal_digits)

section \<open>Runs\<close>

definition pot_press :: "bool \<Rightarrow> u16 \<Rightarrow> pot_input" where
  "pot_press low v = \<lparr> in_onoff_low = low, in_func_low = False, in_adc = (v, v, v) \<rparr>"

text \<open>Cold water, the power key for two ticks: the contact closes with the tenth tick.\<close>

definition pot_start_run :: "pot_input list" where
  "pot_start_run = [pot_press True 241, pot_press True 241] @ replicate 8 (pot_press False 241)"

lemma pot_heater_witness:
  "pin_heater (out (pot_run pot_start_run (pot_boot (pot_press False 241) pot_zero)))
   \<and> cooldown_seconds (pot_run pot_start_run (pot_boot (pot_press False 241) pot_zero)) = 0"
proof -
  let ?p = "pot_run pot_start_run (pot_boot (pot_press False 241) pot_zero)"
  have "pin_heater (out ?p)" by code_simp
  moreover have "pot_reachable ?p" by (intro reachable_run pot_reachable.boot)
  ultimately show ?thesis using pot_heater_only_when_safe [of ?p] by simp
qed

text \<open>Heating with the probe beyond its scale for nine seconds, one tick before the tenth.\<close>

definition pot_hot :: pot where
  "pot_hot = pot_zero\<lparr> pot_state := ST_HEAT, adc_code := 12, temp_c := 105, warm_set := 60, overtemp_seconds := 9, div_1000ms := 99 \<rparr>"

lemma pot_thermal_lock_witness:
  "thermal_trip (pot_press False 12) pot_hot
   \<and> \<not> pin_heater (out (pot_run [pot_press True 241] (pot_tick (pot_press False 12) pot_hot)))"
proof -
  have trip: "thermal_trip (pot_press False 12) pot_hot" by code_simp
  have "ntc_code_to_temp 12 = 105" by code_simp
  then have "pot_inv pot_hot"
    by (simp add: pot_inv_def pot_ok_simps div_ok_def pot_hot_def pot_zero_def)
  from pot_thermal_lock_holds [OF this trip, of "[pot_press True 241]"] trip show ?thesis by simp
qed

definition pot_cold :: pot where
  "pot_cold = pot_zero\<lparr> pot_state := ST_HEAT, adc_code := 241, temp_c := 25, warm_set := 60, heater_on := True \<rparr>"

lemma pot_cold_heating_witness:
  "heating_cold pot_cold \<and> heating_cold (pot_run [pot_press False 241] pot_cold) \<and> length [pot_press False 241] < 195300"
proof -
  have "ntc_code_to_temp 241 = 25" by code_simp
  then have inv: "pot_inv pot_cold" "heat_counters pot_cold" "heating_cold pot_cold"
    by (simp_all add: pot_inv_def pot_ok_simps div_ok_def heat_counters_def heating_cold_def pot_cold_def pot_zero_def)
  have tick: "heating_cold (pot_run [pot_press False 241] pot_cold)" by code_simp
  have "heating_cold (pot_run (take n [pot_press False 241]) pot_cold)" if "n \<le> 1" for n
    using that inv(3) tick by (cases n) (simp_all add: pot_run_def)
  then have "length [pot_press False 241] < 195300"
    using pot_cold_heating_bounded [OF inv(1,2), of "[pot_press False 241]"] by (simp add: pot_press_def)
  with inv(3) tick show ?thesis by blast
qed

section \<open>Where the firmware falls short of its comments\<close>

text \<open>The off time of the relay is counted only once a second, so a contact that closes and opens between two
  counts is free to close again: here it is closed, open for 70 ms and closed again, all in the first second.\<close>

definition pot_toggle_run :: "pot_input list" where
  "pot_toggle_run = pot_start_run @ [pot_press False 241] @ replicate 2 (pot_press True 241)
     @ replicate 2 (pot_press False 241) @ replicate 2 (pot_press True 241) @ replicate 3 (pot_press False 241)"

lemma relay_dwell_bypassed:
  "map (\<lambda>n. pin_heater (out (pot_run (take n pot_toggle_run) (pot_boot (pot_press False 241) pot_zero)))) [10, 13, 19, 20]
    = [True, False, False, True]"
  by code_simp

text \<open>The lock of a dry-fire is kept in memory that a power cycle clears, and the check at power-up looks for a hot
  probe, which the dry-fire rule excludes.\<close>

lemma dry_fire_lock_lost:
  assumes "slope_dry adc_old p" "temp_c p = ntc_code_to_temp (adc_code p)"
  shows "cooldown_seconds (pot_boot (pot_press False (adc_code p)) q) = 0"
  using assms
  by (simp add: slope_dry_def pot_boot_def boot_state_def boot_probe_def button_init_post_def heat_slope_reset_def clear_glitches_def
      adc_read_filtered_def pot_press_def pot_show Let_def not_le [symmetric])

text \<open>A jump of the probe towards cold is not counted by the backstop.\<close>

lemma jump_not_counted:
  assumes "adc_prev_1s (slope p) < adc_code p" "COLDWATER_JUMP < adc_code p - adc_prev_1s (slope p)"
    "glitch_cnt (slope p) + 1 < GLITCH_TRIP_COUNT"
  shows "heat_seconds (heat_slope_task_1s p) = heat_seconds p"
  using assms by (simp add: heat_slope_task_1s_def heat_slope_reset_def Let_def not_le [symmetric])

text \<open>The mode key during the confirmation of the boil leaves the confirmation standing: three presses later the
  kettle finishes a boil of cold water.\<close>

lemma stale_boil_confirm:
  assumes "pot_state p = ST_HEAT" "heat_mode p = MODE_BOIL_100" "boil_confirm p" "temp_c p < 55"
  shows "boil_confirm (func_heat (func_heat (func_heat p)))" "heat_mode (func_heat (func_heat (func_heat p))) = MODE_BOIL_100"
    "pot_state (func_heat (func_heat (func_heat p))) = ST_HEAT"
proof -
  have "temp_c p < 80" using assms(4) by (rule less_trans) simp
  with assms show "boil_confirm (func_heat (func_heat (func_heat p)))" "heat_mode (func_heat (func_heat (func_heat p))) = MODE_BOIL_100"
    "pot_state (func_heat (func_heat (func_heat p))) = ST_HEAT"
    by (simp_all add: func_heat_def heat_slope_reset_def clear_glitches_def pot_show Let_def not_le [symmetric]
        MODE_BOIL_100_def MODE_DIRECT_55_def MODE_DIRECT_80_def DIRECT_55_TEMP_C_def DIRECT_80_TEMP_C_def)
qed

end
