(* ===== verification/Spec2Isabelle.thy ===== *)
theory Spec2Isabelle
  imports Runtime Dev_Config Runtime_Tasks Dal_Eeprom Osal_Sync Lockfree_Pipeline Fail_Safe Dal_Button
    Dal_Keypad Dal_Servo Dal_Encoder Bal_Led_Blink
    Mcs51_Reset Health_Pot_Probe Health_Pot_Safety
begin

text \<open>
  \<^bold>\<open>A model of the WinkMicroOS runtime.\<close> All paths are below \<^verbatim>\<open>src/wink-micro-os\<close>, but for the
  kettle, which is below \<^verbatim>\<open>src/wink-micro-app\<close>.

  \<^bold>\<open>The program.\<close> WinkMicroOS runs one C program on a host, in a browser and on microcontrollers. An
  application hands its callbacks to the runtime (\<^verbatim>\<open>runtime/\<close>), whose loop delivers the events
  of a mailbox, calls the application and dispatches software timers on every tick; a fault stops
  the loop and calls every registered actuator safe-off. Drivers (\<^verbatim>\<open>dal/\<close>) reach the hardware
  through the calls of \<^verbatim>\<open>pal/\<close>, which each target implements, and blocking operations through
  \<^verbatim>\<open>osal/\<close>. In the simulation the target is a deterministic scheduler of fibers with virtual time
  and simulated pins, buses and peripherals (\<^verbatim>\<open>targets/common\<close>, \<^verbatim>\<open>targets/host\<close>). Firmware written for
  an 8051 runs in the simulation too: its accesses to special function registers reach a model of
  the chip (\<^verbatim>\<open>frameworks/mcs51\<close>). One such program, the kettle, is modelled down to its pins.

  \<^bold>\<open>Conventions.\<close> A structure is a record and an enumeration a datatype, or an integer where the
  code checks for values that name nothing. Counters, times and codes are words of their width, so
  that wrap-around is part of the model. Static variables are the fields of a state that every
  operation takes and returns. A null pointer is \<open>None\<close>. A status code is a value of
  \<^theory_text>\<open>wink_status_t\<close>, so every early return is a branch. Callbacks are numbers, applied by a
  parameter that may change the whole state. Logging is left out unless its count matters.
  Functions that may not return are partial functions into options, \<open>None\<close> being that they do not.

  \<^bold>\<open>The runtime.\<close>
  \<^item> \<^theory_text>\<open>Ringbuf\<close> (\<^verbatim>\<open>osal/common/pal_osal_ringbuf.c\<close>) and \<^theory_text>\<open>Event_Queue\<close> (\<^verbatim>\<open>runtime/src/wink_event.c\<close>): the
    byte ring with its wrapping head and tail, and on top of it the mailbox, which overwrites a
    pending distance event of the same device. The mailbox refines a bounded list of events; the
    blocking consumer returns for every sequence of spurious wake-ups.
  \<^item> \<^theory_text>\<open>Trace\<close> (\<^verbatim>\<open>trace/src/wink_trace.c\<close>): the fault ring keeps the last 32 codes.
  \<^item> \<^theory_text>\<open>Actuator_Registry\<close> (\<^verbatim>\<open>runtime/src/wink_actuator_registry.c\<close>): the bounded set of shutdown callbacks and
    the sweep that calls each once and records its failure.
  \<^item> \<^theory_text>\<open>Dev_Config\<close> (\<^verbatim>\<open>runtime/src/wink_dev_config.c\<close>): the overrides blob with its CRC-32; the checksum
    detects a changed byte, and a well-formed blob reaches the drivers item by item.
  \<^item> \<^theory_text>\<open>Soft_Timer\<close> (\<^verbatim>\<open>runtime/src/wink_soft_timer.c\<close>) and \<^theory_text>\<open>Runtime_Tasks\<close>
    (\<^verbatim>\<open>runtime/src/wink_runtime_tasks.c\<close>): the timer table and its dispatch, and the periodic callbacks
    that run either in that dispatch or in a task of their own.
  \<^item> \<^theory_text>\<open>Runtime\<close> (\<^verbatim>\<open>runtime/src/wink_runtime.c\<close>): boot with its lock after repeated abnormal resets, the
    tick, faults and statistics, and the tick fiber of the simulation; it calls the five above.

  \<^bold>\<open>The simulation target.\<close>
  \<^item> \<^theory_text>\<open>Resource\<close> (\<^verbatim>\<open>targets/common/src/pal_resource.c\<close>): who owns which pin or channel. The locale
    \<^theory_text>\<open>claim_table\<close> states what its clients rely on.
  \<^item> \<^theory_text>\<open>Sim_Scheduler\<close> (\<^verbatim>\<open>targets/common/src/wink_sim_scheduler.c\<close>) and \<^theory_text>\<open>Osal_Sync\<close>
    (\<^verbatim>\<open>osal/wasm/pal_osal_wasm.c\<close>): the task table, the choice of the next task, timed wake-ups; mutexes
    and semaphores, each blocking call split at its switch of fibers.
  \<^item> \<^theory_text>\<open>Sim_Physical\<close>, \<^theory_text>\<open>Host_Gpio\<close>, \<^theory_text>\<open>Host_Irq\<close> (\<^verbatim>\<open>wink_sim_physical.c\<close>, \<^verbatim>\<open>targets/host/pal_hal_gpio_host.c\<close>,
    \<^verbatim>\<open>osal/host/pal_osal_host.c\<close>): contact bounce, the pins with injected levels and loopbacks, and the
    interrupts with their deferral by critical sections.
  \<^item> \<^theory_text>\<open>Pwm_Router\<close> (\<^verbatim>\<open>pal/src/pal_pwm_router.c\<close>, \<^verbatim>\<open>targets/host/pal_hal_pwm_host.c\<close>): eight channels on four
    timers, counted exactly.
  \<^item> \<^theory_text>\<open>Sim_Responder\<close> (\<^verbatim>\<open>targets/common/src/sim_responder.c\<close>): the simulated bus peripherals.
  \<^item> \<^theory_text>\<open>Lockfree_Pipeline\<close> (\<^verbatim>\<open>pal/include/osal/pal_lockfree_pipeline.h\<close>): both directions of the pipeline
    between a task and an interrupt, the task broken into single memory accesses.

  \<^bold>\<open>The drivers.\<close> \<^theory_text>\<open>Gpio_Pal\<close> collects the pin calls a driver makes into a record of operations on
  any board; the locale \<^theory_text>\<open>gpio_board\<close>, and \<^theory_text>\<open>irq_board\<close> which extends it by interrupts, state what a board
  promises of claims, levels and handlers, and the host simulation is shown to keep the promise.
  The drivers are written once over that record and their lemmas proved in the locale:
  \<^item> \<^theory_text>\<open>Dal_Outputs\<close> (\<^verbatim>\<open>dal/src/output/dal_led.c\<close>, \<^verbatim>\<open>dal_relay.c\<close>), and \<^theory_text>\<open>Fail_Safe\<close>, which runs the sweep of
    the registry over them down to the pins of the host;
  \<^item> \<^theory_text>\<open>Dal_Button\<close>, \<^theory_text>\<open>Dal_Keypad\<close> (\<^verbatim>\<open>dal/src/input/\<close>): debouncing, events, scanning, and the rollback of a
    failed initialisation;
  \<^item> \<^theory_text>\<open>Dal_Encoder\<close> (\<^verbatim>\<open>dal/src/sensor/dal_encoder.c\<close>): counting by interrupts while a shaft turns;
  \<^item> \<^theory_text>\<open>Dal_Servo\<close> (\<^verbatim>\<open>dal/src/actuator/dal_rc_servo.c\<close>) over the PWM calls, with the locale \<^theory_text>\<open>pwm_port\<close>;
  \<^item> \<^theory_text>\<open>Dal_Eeprom\<close> (\<^verbatim>\<open>dal/src/storage/dal_eeprom.c\<close>, \<^verbatim>\<open>targets/host/pal_hal_i2c_host.c\<close>) over the bus, with the
    locale \<^theory_text>\<open>i2c_memory\<close>, down to the simulated memory chip;
  \<^item> \<^theory_text>\<open>Bal_Led_Blink\<close> (\<^verbatim>\<open>bal/src/output/wink_led_blink.c\<close>): a behaviour on top, which blinks a LED from the
    timer dispatch of the runtime; on the host board the pin is a square wave.

  \<^bold>\<open>The 8051.\<close> All over one record, the context of \<^verbatim>\<open>frameworks/mcs51/src/mcs51_context.cpp\<close>:
  \<^item> \<^theory_text>\<open>Mcs51_Context\<close>, \<^theory_text>\<open>Mcs51_Irq\<close> (\<^verbatim>\<open>mcs51_isr.cpp\<close>): registers, sources and latches, and the dispatch, which
    serves the most urgent request and nests at most two deep;
  \<^item> \<^theory_text>\<open>Mcs51_Timer\<close>, \<^theory_text>\<open>Mcs51_Frame\<close> (\<^verbatim>\<open>mcs51_timer.cpp\<close>): the timers with their modes and deadlines, and what
    a poll of them leaves alone;
  \<^item> \<^theory_text>\<open>Mcs51_Edge_Queue\<close> (\<^verbatim>\<open>mcs51_edge_queue.cpp\<close>): edges from the simulator, delivered in order of time;
  \<^item> \<^theory_text>\<open>Mcs51_Clock\<close> (\<^verbatim>\<open>mcs51_clock.cpp\<close>): the time the firmware is charged for, in slices;
  \<^item> \<^theory_text>\<open>Mcs51_Uart\<close>, \<^theory_text>\<open>Mcs51_Extint\<close>, \<^theory_text>\<open>Mcs51_Gpio\<close> (\<^verbatim>\<open>mcs51_uart.cpp\<close>, \<^verbatim>\<open>mcs51_extint.cpp\<close>, \<^verbatim>\<open>mcs51_gpio.cpp\<close>,
    \<^verbatim>\<open>mcs51_pwm_meter.cpp\<close> and the rules of the chip in \<^verbatim>\<open>chips/cms8s78xx/src\<close>): the serial port, the
    external interrupts, the ports with their directions and the meters on their pins;
  \<^item> \<^theory_text>\<open>Mcs51_Reset\<close> (\<^verbatim>\<open>mcs51_context.cpp\<close>, \<^verbatim>\<open>mcs51_peripheral.cpp\<close>): the table of peripherals and the reset.

  \<^bold>\<open>The kettle.\<close> \<^theory_text>\<open>Health_Pot\<close> (\<^verbatim>\<open>appliances/health_pot/health_pot.c\<close>) is the firmware, tick by tick.
  \<^theory_text>\<open>Health_Pot_Probe\<close> is about the table of the probe. \<^theory_text>\<open>Health_Pot_Safety\<close> holds an invariant of every
  history and rests on it: when the contact may be closed, how long the lock of a thermal fault holds,
  how long a dry pot is heated, and what the telemetry tells.

  \<^bold>\<open>What the lemmas show.\<close> For the tables of the runtime: an invariant every operation keeps, and a
  refinement of a list, a map or a set, errors included. For loops: that they end and what they
  have done then, or for which callbacks they do not. For blocking operations: who is woken, and
  that waiting ends. For drivers: that the pins follow the state in every history and that a
  failure leaves nothing behind. For the 8051: that nothing is lost or counted twice, interrupts,
  bytes, edges and microseconds. Where the code does not do what its name or its documentation
  says, a lemma states what it does instead.

  \<^bold>\<open>Bounds and fuel.\<close> Table sizes are those of the C constants (16 tasks and timers, 12 periodic
  callbacks, 64 claims, 32 faults, 50 pins, 64 received bytes). The loop of a periodic task takes fuel; its
  theorems hold for every amount of it, so its non-termination is proved as \<open>None\<close> at every fuel,
  and its deadlines are stated of every turn. The loops of the 8051 carry the bound they have in the
  code: at most 2^20 overflows in a step of a timer, 64 bytes in a pass over the receiver; the drain of
  the edges is a partial function. A mailbox capacity is bounded where
  the size of its ring would not fit into 32 bits.

  \<^bold>\<open>Parameters.\<close> What the repository does not contain is an argument of the definitions: the results
  of \<^verbatim>\<open>malloc\<close> and of FreeRTOS calls, the wake-ups and the clock a blocked consumer sees, the bodies
  of application callbacks, the time hook of the test harness and the transfers of client
  responders.

  \<^bold>\<open>Not modelled.\<close> Floating point (the noise and lag of \<^verbatim>\<open>wink_sim_physical.c\<close>, the analogue sensors,
  the ultrasonic distance, the control loops of \<^verbatim>\<open>bal/\<close>, the ratio of a meter); the drivers of motors,
  buzzers, displays and LED strips and the behaviours of \<^verbatim>\<open>bal/\<close> other than the blinker; the ESP32 and
  FreeRTOS layers, which only call ESP-IDF; the WebAssembly drivers, whose other half is JavaScript; of the
  8051 its register proxies, sleep, analogue input, external memory and the further
  peripherals of the chip, one-time log messages and the build that aborts on a misuse; of the kettle the
  configuration of its pins, clocks and watchdog and an interrupt in the middle of a pass, which only
  scans the display; the emulations of ESP-IDF and of Arduino, which are products of their own; tests,
  other applications and tools.
\<close>

end
